(* ===== verification/Prelude.thy ===== *)
theory Prelude
  imports Main "HOL-Library.Word" "HOL-Library.Char_ord" "HOL-Library.List_Lexorder"
begin

text \<open>
  The shared vocabulary of the development: error values, results, the collections of rewrite
  rules, and the parts of Go's standard library that several components use (decimal printing,
  big-endian byte encodings, string prefixes).  A Go string or byte slice is a list of bytes, which
  is HOL's \<^typ>\<open>string\<close>; Go's comparison of strings and of byte slices is the lexicographic order on
  it that \<open>List_Lexorder\<close> and \<open>Char_ord\<close> provide.
\<close>

section \<open>Errors and results\<close>

text \<open>
  Every sentinel that some caller tests with \<open>errors.Is\<close> is a constructor; an error built by
  \<open>errors.New\<close> is \<open>Err\<close> with its text, one built by \<open>fmt.Errorf\<close> around another with the verb
  for wrapping is \<open>Wrap\<close>, a gRPC status error is \<open>Status\<close> with its code, and \<open>Join\<close> is the result
  of \<open>errors.Join\<close> on two errors.
\<close>

datatype err =
    ErrFull
  | ErrEmpty
  | ErrNotDrained
  | ErrCanceled
  | ErrSchemaMismatch
  | ErrSchemaRefreshed
  | ErrFileChanged
  | ErrRepairRestart
  | ErrTargetLeaseHeld
  | ErrNoRows
  | Err string
  | Wrap string err
  | Status string string
  | Join err err

text \<open>\<open>errors.Is\<close>: equality with the error or with one it wraps or joins.\<close>

fun errors_Is :: "err \<Rightarrow> err \<Rightarrow> bool" where
  "errors_Is (Wrap t e) x = (Wrap t e = x \<or> errors_Is e x)"
| "errors_Is (Join a b) x = (Join a b = x \<or> errors_Is a x \<or> errors_Is b x)"
| "errors_Is e x = (e = x)"

type_synonym 'a res = "err + 'a"

text \<open>A call to an external service that may fail before its effect takes place.\<close>

definition guarded :: "err option \<Rightarrow> 'a res \<Rightarrow> 'a res" where
  "guarded f r = (case f of Some e \<Rightarrow> Inl e | None \<Rightarrow> r)"

lemma guarded_simps [simp]:
  "guarded None r = r"
  "guarded (Some e) r = Inl e"
  by (simp_all add: guarded_def)

lemma guarded_Inr [simp]: "guarded f r = Inr x \<longleftrightarrow> f = None \<and> r = Inr x"
  by (cases f) auto

lemma errors_Is_refl [simp]: "errors_Is e e"
  by (cases e) auto

section \<open>Rule collections\<close>

named_theorems queue_simps "unfolding rules of the collector's queue operations"
named_theorems batch_simps "unfolding rules of the batching and decoding operations"
named_theorems target_simps "unfolding rules of the server's target operations"

section \<open>Loops\<close>

text \<open>A \<open>for\<close> loop over a slice whose body updates a state and may return an error.\<close>

fun foldM :: "('s \<Rightarrow> 'a \<Rightarrow> 's res) \<Rightarrow> 's \<Rightarrow> 'a list \<Rightarrow> 's res" where
  "foldM f s [] = Inr s"
| "foldM f s (a # as) = (case f s a of Inl e \<Rightarrow> Inl e | Inr s' \<Rightarrow> foldM f s' as)"

lemma foldM_append:
  "foldM f s (xs @ ys) = (case foldM f s xs of Inl e \<Rightarrow> Inl e | Inr s' \<Rightarrow> foldM f s' ys)"
  by (induction xs arbitrary: s) (auto split: sum.splits)

lemma foldM_invariant:
  assumes "foldM f s xs = Inr s'" "P s" "\<And>s a s'. a \<in> set xs \<Longrightarrow> P s \<Longrightarrow> f s a = Inr s' \<Longrightarrow> P s'"
  shows "P s'"
  using assms
proof (induction xs arbitrary: s)
  case (Cons a xs)
  then obtain s1 where s1: "f s a = Inr s1" "foldM f s1 xs = Inr s'" by (auto split: sum.splits)
  have "P s1" by (rule Cons.prems(3) [OF _ Cons.prems(2) s1(1)]) simp
  then show ?case by (rule Cons.IH [OF s1(2)]) (rule Cons.prems(3), auto)
qed simp

text \<open>
  Code that changes its state as it goes and stops at the first error: the state reached is kept with
  the error, since some effects outlive it.
\<close>

type_synonym 's step = "'s \<Rightarrow> 's \<times> err option"

definition andthen :: "'s step \<Rightarrow> 's step \<Rightarrow> 's step" where
  "andthen f g s = (case f s of (s', None) \<Rightarrow> g s' | (s', Some e) \<Rightarrow> (s', Some e))"

definition check :: "err option \<Rightarrow> 's step" where
  "check e s = (s, e)"

fun each :: "('a \<Rightarrow> 's step) \<Rightarrow> 'a list \<Rightarrow> 's step" where
  "each f [] s = (s, None)"
| "each f (x # xs) s = (case f x s of (s', None) \<Rightarrow> each f xs s' | (s', Some e) \<Rightarrow> (s', Some e))"

lemma andthen_None [simp]: "andthen f g s = (s', None) \<longleftrightarrow> (\<exists>s1. f s = (s1, None) \<and> g s1 = (s', None))"
  by (auto simp: andthen_def split: prod.splits option.splits)

lemma check_simps [simp]: "check None s = (s, None)" "check e s = (s', e') \<longleftrightarrow> s' = s \<and> e' = e"
  by (auto simp: check_def)

lemma each_append: "each f (xs @ ys) s = andthen (each f xs) (each f ys) s"
  by (induction xs arbitrary: s) (auto simp: andthen_def split: prod.splits option.splits)

lemma each_Cons_None: "each f (x # xs) s = (s', None) \<longleftrightarrow> (\<exists>s1. f x s = (s1, None) \<and> each f xs s1 = (s', None))"
  by (auto split: prod.splits option.splits)

text \<open>What every step keeps, the whole keeps, also when it fails.\<close>

lemma andthen_keeps:
  assumes "P s" "\<And>s. P s \<Longrightarrow> P (fst (f s))" "\<And>s. P s \<Longrightarrow> P (fst (g s))"
  shows "P (fst (andthen f g s))"
  using assms(1) assms(2) [of s] assms(3) [of "fst (f s)"] by (auto simp: andthen_def split: prod.splits option.splits)

lemma each_keeps:
  assumes "P s" "\<And>x s. x \<in> set xs \<Longrightarrow> P s \<Longrightarrow> P (fst (f x s))"
  shows "P (fst (each f xs s))"
  using assms
proof (induction xs arbitrary: s)
  case (Cons x xs)
  have "P (fst (f x s))" using Cons.prems(2) [of x s] Cons.prems(1) by simp
  with Cons.IH [of "fst (f x s)"] Cons.prems(2) show ?case by (auto split: prod.splits option.splits)
qed simp

section \<open>Decimal printing\<close>

text \<open>The decimal digits of a number, as the formatting verb for integers prints them.\<close>

definition digit :: "nat \<Rightarrow> char" where
  "digit d = char_of (48 + d)"

fun dec :: "nat \<Rightarrow> string" where
  "dec n = (if n < 10 then [digit n] else dec (n div 10) @ [digit (n mod 10)])"

declare dec.simps [simp del]

text \<open>Reading decimal digits back, as \<open>strconv.ParseUint\<close> does in base ten.\<close>

definition is_digit :: "char \<Rightarrow> bool" where
  "is_digit c \<longleftrightarrow> 48 \<le> (of_char c :: nat) \<and> (of_char c :: nat) \<le> 57"

definition undec :: "string \<Rightarrow> nat" where
  "undec s = foldl (\<lambda>n c. 10 * n + (of_char c - 48)) 0 s"

lemma of_char_digit [simp]: "d < 10 \<Longrightarrow> (of_char (digit d) :: nat) = 48 + d"
  by (simp add: digit_def)

lemma undec_snoc [simp]: "undec (s @ [c]) = 10 * undec s + (of_char c - 48)"
  by (simp add: undec_def)

lemma undec_single [simp]: "undec [c] = of_char c - 48"
  by (simp add: undec_def)

lemma undec_dec [simp]: "undec (dec n) = n"
proof (induction n rule: dec.induct)
  case (1 n)
  show ?case
  proof (cases "n < 10")
    case True
    then show ?thesis by (subst dec.simps) simp
  next
    case False
    with 1 have "undec (dec (n div 10)) = n div 10" by simp
    with False show ?thesis by (subst dec.simps) simp
  qed
qed

lemma dec_inject [simp]: "dec m = dec n \<longleftrightarrow> m = n"
  by (metis undec_dec)

lemma dec_digits: "c \<in> set (dec n) \<Longrightarrow> is_digit c"
proof (induction n rule: dec.induct)
  case (1 n)
  then show ?case
    by (cases "n < 10") (auto simp: dec.simps [of n] is_digit_def)
qed

lemma dec_nonempty [simp]: "dec n \<noteq> []"
  by (subst dec.simps) simp

section \<open>Big-endian byte strings\<close>

text \<open>\<open>be_bytes k n\<close> is the \<open>k\<close>-byte big-endian encoding of \<open>n\<close>, as
  \<open>binary.BigEndian.PutUint64\<close> writes it for \<open>k = 8\<close>.\<close>

fun be_bytes :: "nat \<Rightarrow> nat \<Rightarrow> string" where
  "be_bytes 0 n = []"
| "be_bytes (Suc k) n = char_of (n div 256 ^ k) # be_bytes k n"

lemma length_be_bytes [simp]: "length (be_bytes k n) = k"
  by (induction k) auto

lemma mod_mult_div: "0 < a \<Longrightarrow> n mod (a * b) div a = n div a mod (b::nat)"
  by (simp add: mod_mult2_eq)

lemma be_bytes_mod: "j \<le> k \<Longrightarrow> be_bytes j (n mod 256 ^ k) = be_bytes j n"
proof (induction j)
  case 0
  then show ?case by simp
next
  case (Suc j)
  then have le: "Suc j \<le> k" by simp
  obtain d where d: "k = j + Suc d" using le by (metis add_Suc_right less_eqE add_Suc)
  have "(256::nat) ^ k = 256 ^ j * 256 ^ Suc d"
    by (simp only: d power_add)
  then have "n mod 256 ^ k div 256 ^ j = n div 256 ^ j mod 256 ^ Suc d"
    by (simp only: mod_mult_div zero_less_power zero_less_numeral)
  then have "n mod 256 ^ k div 256 ^ j mod 256 = n div 256 ^ j mod (256::nat)"
    by (simp add: mod_mod_cancel)
  then have "(char_of (n mod 256 ^ k div 256 ^ j) :: char) = char_of (n div 256 ^ j)"
    by (metis char_of_mod_256)
  with Suc show ?case by simp
qed

lemma char_of_less_iff: "a < 256 \<Longrightarrow> b < 256 \<Longrightarrow> (char_of a :: char) < char_of b \<longleftrightarrow> a < (b::nat)"
  by (simp add: less_char_def)

lemma char_of_eq_iff_nat: "a < 256 \<Longrightarrow> b < 256 \<Longrightarrow> (char_of a :: char) = char_of b \<longleftrightarrow> a = (b::nat)"
  using of_char_of [of a] of_char_of [of b] by auto

lemma be_bytes_less_iff:
  "m < 256 ^ k \<Longrightarrow> n < 256 ^ k \<Longrightarrow> be_bytes k m < be_bytes k n \<longleftrightarrow> m < n"
proof (induction k arbitrary: m n)
  case 0
  then show ?case by simp
next
  case (Suc k)
  let ?a = "m div 256 ^ k" and ?b = "n div 256 ^ k"
  have ab: "?a < 256" "?b < 256"
    using Suc.prems by (simp_all add: less_mult_imp_div_less mult.commute)
  have tail: "be_bytes k m < be_bytes k n \<longleftrightarrow> m mod 256 ^ k < n mod 256 ^ k"
    using Suc.IH [of "m mod 256 ^ k" "n mod 256 ^ k"] by (simp add: be_bytes_mod)
  have eqs: "m = ?a * 256 ^ k + m mod 256 ^ k" "n = ?b * 256 ^ k + n mod 256 ^ k"
    by (rule div_mult_mod_eq [symmetric])+
  have bounds: "m mod 256 ^ k < 256 ^ k" "n mod 256 ^ k < 256 ^ k" by simp_all
  have ordering: "m < n \<longleftrightarrow> ?a < ?b \<or> (?a = ?b \<and> m mod 256 ^ k < n mod 256 ^ k)"
  proof (cases "?a = ?b")
    case True
    have "m < n \<longleftrightarrow> ?a * 256 ^ k + m mod 256 ^ k < ?b * 256 ^ k + n mod 256 ^ k"
      by (simp only: eqs [symmetric])
    with True show ?thesis by (simp only: add_less_cancel_left) simp
  next
    case False
    have "m < n \<Longrightarrow> ?a \<le> ?b" by (simp add: div_le_mono)
    moreover have "?a < ?b \<Longrightarrow> m < n"
      by (rule ccontr) (simp add: linorder_not_less div_le_mono leD)
    ultimately show ?thesis using False by auto
  qed
  note heads = char_of_less_iff [OF ab] char_of_eq_iff_nat [OF ab]
  show ?case using ab by (simp add: heads tail ordering)
qed

lemma be_bytes_inject:
  "m < 256 ^ k \<Longrightarrow> n < 256 ^ k \<Longrightarrow> be_bytes k m = be_bytes k n \<longleftrightarrow> m = n"
  using be_bytes_less_iff [of m k n] be_bytes_less_iff [of n k m]
  by (metis less_irrefl linorder_neqE)

section \<open>Strings\<close>

definition has_prefix :: "string \<Rightarrow> string \<Rightarrow> bool" where
  "has_prefix s p \<longleftrightarrow> take (length p) s = p"

definition trim_prefix :: "string \<Rightarrow> string \<Rightarrow> string" where
  "trim_prefix s p = (if has_prefix s p then drop (length p) s else s)"

lemma has_prefix_append [simp]: "has_prefix (p @ s) p"
  by (simp add: has_prefix_def)

lemma trim_prefix_append [simp]: "trim_prefix (p @ s) p = s"
  by (simp add: trim_prefix_def)

section \<open>Ranges of sequence numbers\<close>

lemma upt_split: "a \<le> b \<Longrightarrow> b \<le> c \<Longrightarrow> [a..<c] = [a..<b] @ [b..<c]"
  by (metis le_Suc_ex upt_add_eq_append)

lemma sum_list_map_upt_Suc:
  "a \<le> b \<Longrightarrow> sum_list (map f [a..<Suc b]) = sum_list (map f [a..<b]) + (f b :: int)"
  by simp

lemma sum_list_map_upt_head:
  "a < b \<Longrightarrow> sum_list (map f [a..<b]) = (f a :: int) + sum_list (map f [Suc a..<b])"
  by (simp add: upt_conv_Cons)

end
