(* ===== verification/Event.thy ===== *)
theory Event
  imports Prelude
begin

text \<open>
  The wire format of \<open>internal/event/event.go\<close>: columns, rows, file changes, messages and
  acknowledgements, with \<open>Text\<close>, which keeps the source text of a value.  A nil pointer is
  \<^const>\<open>None\<close>; a nil slice and an empty slice are the same list, since every use of them is a
  length test or an iteration.  Counters (\<open>uint64\<close>, \<open>uint32\<close>) are natural numbers, byte sizes
  (\<open>int64\<close>) are integers.  The encoding of these values as JSON text is the record \<open>codec\<close>, a
  parameter of the components that marshal and unmarshal.
\<close>

record Column =
  c_Name :: string
  c_Type :: string
  c_Value :: "string option"
  c_Encoding :: string
  c_SourceValue :: "string option"

record Row =
  r_Identity :: string
  r_Schema :: string
  r_Table :: string
  r_Operation :: string
  r_Key :: "Column list"
  r_OldKey :: "Column list"
  r_Columns :: "Column list"
  r_Ordinal :: nat

record TableRef =
  tr_Schema :: string
  tr_Name :: string

record FileChange =
  f_Path :: string
  f_Operation :: string
  f_Size :: int
  f_ModTimeUnixNano :: int
  f_Mode :: nat
  f_SHA256 :: string
  f_Chunk :: nat
  f_Chunks :: nat
  f_Data :: string

record Message =
  m_Version :: string
  m_SourceID :: string
  m_Generation :: string
  m_SchemaVersion :: string
  m_Seq :: nat
  m_ID :: string
  m_Kind :: string
  m_Transaction :: string
  m_Chunk :: nat
  m_LSN :: string
  m_Tables :: "TableRef list"
  m_Schema :: string
  m_Rows :: "Row list"
  m_File :: "FileChange option"
  m_CreatedAt :: string

record Ack =
  a_ID :: string
  a_Seq :: nat

text \<open>The zero values of the struct types, from which composite literals are built.\<close>

definition zero_Column :: Column where
  "zero_Column = \<lparr>c_Name = '''', c_Type = '''', c_Value = None, c_Encoding = '''', c_SourceValue = None\<rparr>"

definition zero_Row :: Row where
  "zero_Row = \<lparr>r_Identity = '''', r_Schema = '''', r_Table = '''', r_Operation = '''', r_Key = [],
    r_OldKey = [], r_Columns = [], r_Ordinal = 0\<rparr>"

definition zero_Message :: Message where
  "zero_Message = \<lparr>m_Version = '''', m_SourceID = '''', m_Generation = '''', m_SchemaVersion = '''',
    m_Seq = 0, m_ID = '''', m_Kind = '''', m_Transaction = '''', m_Chunk = 0, m_LSN = '''',
    m_Tables = [], m_Schema = '''', m_Rows = [], m_File = None, m_CreatedAt = ''''\<rparr>"

text \<open>A message with only its kind set.\<close>

definition kind_msg :: "string \<Rightarrow> Message" where
  "kind_msg k = zero_Message\<lparr>m_Kind := k\<rparr>"

text \<open>What a message carries, without the envelope that the queue fills in.\<close>

definition payload :: "Message \<Rightarrow> Message" where
  "payload m = m\<lparr>m_Version := '''', m_SourceID := '''', m_Generation := '''', m_SchemaVersion := '''',
     m_Seq := 0, m_ID := '''', m_CreatedAt := ''''\<rparr>"

section \<open>JSON\<close>

text \<open>
  \<open>encoding/json\<close> on the types above.  \<open>'v\<close> is the type of encoded texts and \<open>blen\<close> their
  length in bytes.  \<open>unmarshal_created\<close> decodes only the \<open>created_at\<close> member,
  \<open>json_string\<close> decodes a JSON string literal and \<open>json_Valid\<close> tests a JSON text.
\<close>

record 'v codec =
  marshal :: "Message \<Rightarrow> 'v res"
  unmarshal :: "'v \<Rightarrow> Message res"
  blen :: "'v \<Rightarrow> nat"
  unmarshal_created :: "'v \<Rightarrow> string res"
  marshal_row :: "Row \<Rightarrow> 'v res"
  unmarshal_row :: "'v \<Rightarrow> Row res"
  json_string :: "string \<Rightarrow> string res"
  json_Valid :: "string \<Rightarrow> bool"

text \<open>
  What the components rely on: decoding an encoded message gives it back.  The documented
  exceptions of \<open>json.Marshal\<close> are strings that are not valid UTF-8 (each bad byte becomes the
  replacement character) and raw schema text that is not compact (it is compacted), so the law is
  about the messages in a set \<open>W\<close> that avoids them.
\<close>

definition codec_ok :: "Message set \<Rightarrow> ('v, 'z) codec_scheme \<Rightarrow> bool" where
  "codec_ok W J \<longleftrightarrow> (\<forall>m\<in>W. \<forall>v. marshal J m = Inr v \<longrightarrow> unmarshal J v = Inr m)"

lemma codec_okD: "codec_ok W J \<Longrightarrow> m \<in> W \<Longrightarrow> marshal J m = Inr v \<Longrightarrow> unmarshal J v = Inr m"
  by (auto simp: codec_ok_def)

section \<open>Text\<close>

text \<open>\<open>event.Text\<close>: JSON null is SQL NULL, a string literal is decoded, and every other valid JSON
  text (numbers in particular) is kept as it is written.\<close>

definition Text :: "('v, 'z) codec_scheme \<Rightarrow> string \<Rightarrow> string option res" where
  "Text J raw =
     (if raw = ''null'' then Inr None
      else if raw \<noteq> [] \<and> hd raw = CHR 0x22 then
        (case json_string J raw of Inl e \<Rightarrow> Inl e | Inr s \<Rightarrow> Inr (Some s))
      else if \<not> json_Valid J raw then Inl (Err ''json syntax error'')
      else Inr (Some raw))"

lemma Text_number:
  "raw \<noteq> ''null'' \<Longrightarrow> raw \<noteq> [] \<Longrightarrow> hd raw \<noteq> CHR 0x22 \<Longrightarrow> json_Valid J raw \<Longrightarrow>
   Text J raw = Inr (Some raw)"
  by (simp add: Text_def)

end
