(* ===== verification/Queue.thy ===== *)
theory Queue
  imports Event
begin

text \<open>
  The collector's durable queue, \<open>internal/queue/queue.go\<close>.  A store is one bbolt database with two
  buckets: \<open>meta\<close>, which holds the JSON of one \<open>State\<close>, and \<open>items\<close>, which maps the big-endian
  sequence number of a message to its JSON.  The model keeps the decoded \<open>State\<close>; the bucket of
  items and the operations of bbolt on it are the record \<open>qenv\<close>, a parameter of every operation,
  and what the code relies on of bbolt is \<open>bolt_ok\<close>.  An operation that runs in \<open>db.Update\<close> returns
  either an error, and then nothing is changed, or the new store; the result of the commit and the
  readings of the clock and of the disk are the record \<open>obs\<close> of that call.
\<close>

section \<open>State\<close>

record State =
  s_ProtocolVersion :: string
  s_SourceID :: string
  s_Generation :: string
  s_Fingerprint :: string
  s_SystemID :: string
  s_Timeline :: int
  s_Database :: string
  s_SchemaHash :: string
  s_Slot :: string
  s_Phase :: string
  s_SnapshotLSN :: string
  s_DurableLSN :: string
  s_SourceCleanup :: string
  s_NextSeq :: nat
  s_ReadySeq :: nat
  s_DeliveredSeq :: nat
  s_Bytes :: int
  s_EarliestSeq :: nat
  s_ArchiveBytes :: int

definition zero_State :: State where
  "zero_State = \<lparr>s_ProtocolVersion = '''', s_SourceID = '''', s_Generation = '''', s_Fingerprint = '''',
    s_SystemID = '''', s_Timeline = 0, s_Database = '''', s_SchemaHash = '''', s_Slot = '''',
    s_Phase = '''', s_SnapshotLSN = '''', s_DurableLSN = '''', s_SourceCleanup = '''', s_NextSeq = 0,
    s_ReadySeq = 0, s_DeliveredSeq = 0, s_Bytes = 0, s_EarliestSeq = 0, s_ArchiveBytes = 0\<rparr>"

text \<open>\<open>maxBytes\<close> bounds the bytes of unacknowledged messages, \<open>reserve\<close> is the disk space kept free,
  \<open>replayAge\<close> (in nanoseconds) and \<open>replayBytes\<close> bound the acknowledged history.\<close>

record 'b Store =
  st :: State
  items :: 'b
  maxBytes :: int
  reserve :: "64 word"
  replayAge :: int
  replayBytes :: int

section \<open>bbolt, the clock and the disk\<close>

text \<open>
  \<open>bk_get\<close>, \<open>bk_put\<close> and \<open>bk_delete\<close> are \<open>Bucket.Get\<close>, \<open>Put\<close> and \<open>Delete\<close>; \<open>bk_from b k\<close> are the
  pairs that \<open>Cursor.Seek(k)\<close> and the following calls of \<open>Next\<close> visit; \<open>bk_recreate\<close> is
  \<open>DeleteBucket\<close> followed by \<open>CreateBucket\<close>; \<open>bk_new\<close> is the bucket that
  \<open>CreateBucketIfNotExists\<close> makes in a new file.  \<open>format_time\<close> and \<open>parse_time\<close> are the
  RFC 3339 formatting and parsing of a time in Unix nanoseconds.
\<close>

record ('v, 'b) qenv = "'v codec" +
  bk_new :: 'b
  bk_get :: "'b \<Rightarrow> string \<Rightarrow> 'v option"
  bk_put :: "'b \<Rightarrow> string \<Rightarrow> 'v \<Rightarrow> 'b res"
  bk_delete :: "'b \<Rightarrow> string \<Rightarrow> 'b res"
  bk_from :: "'b \<Rightarrow> string \<Rightarrow> (string \<times> 'v) list"
  bk_recreate :: "'b \<Rightarrow> 'b res"
  format_time :: "int \<Rightarrow> string"
  parse_time :: "string \<Rightarrow> int option"

record obs =
  ob_free :: "64 word res"
  ob_now :: int
  ob_commit :: "err option"

text \<open>What the code relies on of bbolt: a bucket is a map from byte strings to values in the order of
  the keys, and a recreated bucket is empty.\<close>

definition bolt_ok :: "('v, 'b, 'z) qenv_scheme \<Rightarrow> bool" where
  "bolt_ok E \<longleftrightarrow>
     (\<forall>k. bk_get E (bk_new E) k = None) \<and>
     (\<forall>b k v b'. bk_put E b k v = Inr b' \<longrightarrow> bk_get E b' = (bk_get E b)(k \<mapsto> v)) \<and>
     (\<forall>b k b'. bk_delete E b k = Inr b' \<longrightarrow> bk_get E b' = (bk_get E b)(k := None)) \<and>
     (\<forall>b b'. bk_recreate E b = Inr b' \<longrightarrow> bk_get E b' = Map.empty) \<and>
     (\<forall>b k. distinct (map fst (bk_from E b k)) \<and>
            set (bk_from E b k) = {(k', v). bk_get E b k' = Some v \<and> k \<le> k'})"

text \<open>\<open>db.Update\<close>: the error of the function rolls the transaction back, and so does a failed commit.\<close>

definition Update :: "obs \<Rightarrow> 'a res \<Rightarrow> 'a res" where
  "Update ob r = (case r of Inl e \<Rightarrow> Inl e | Inr s \<Rightarrow> guarded (ob_commit ob) (Inr s))"

section \<open>Operations\<close>

definition key :: "nat \<Rightarrow> string" where
  "key n = be_bytes 8 n"

text \<open>\<open>Open\<close> on a data directory: a new file gets empty buckets and the zero state; an existing one
  keeps what it holds.  \<open>disk\<close> is the content found there, \<open>io\<close> the failures of the file system
  calls and of \<open>bolt.Open\<close>; each closes the database and leaves the content as it is.\<close>

definition Open ::
  "('v, 'b, 'z) qenv_scheme \<Rightarrow> (string \<Rightarrow> err option) \<Rightarrow> obs \<Rightarrow> (State \<times> 'b) option \<Rightarrow> int \<Rightarrow> 64 word \<Rightarrow> 'b Store res" where
  "Open E io ob disk maxB res =
     guarded (io ''MkdirAll'')
      (guarded (map_option (Wrap ''open queue (another collector may hold the lock)'') (io ''bolt.Open''))
        (case Update ob
           (Inr \<lparr>st = (case disk of None \<Rightarrow> zero_State | Some (x, _) \<Rightarrow> x),
                 items = (case disk of None \<Rightarrow> bk_new E | Some (_, b) \<Rightarrow> b),
                 maxBytes = maxB, reserve = res,
                 replayAge = 7 * 24 * 3600 * 1000000000, replayBytes = 20 * 2 ^ 30\<rparr>) of
           Inl e \<Rightarrow> Inl e
         | Inr s \<Rightarrow> guarded (io ''sync directory'') (guarded (io ''sync parent'') (Inr s))))"

definition ConfigureReplay :: "'b Store \<Rightarrow> int \<Rightarrow> int \<Rightarrow> 'b Store" where
  "ConfigureReplay s maxAge maxB = s\<lparr>replayAge := maxAge, replayBytes := maxB\<rparr>"

definition Initialize :: "('v, 'b, 'z) qenv_scheme \<Rightarrow> obs \<Rightarrow> 'b Store \<Rightarrow> State \<Rightarrow> 'b Store res" where
  "Initialize E ob s new =
     Update ob
       (if s_Phase (st s) \<noteq> '''' \<and> s_Phase (st s) \<noteq> ''snapshot''
        then Inl (Err ''cannot reset a sealed capture'')
        else case bk_recreate E (items s) of
            Inl e \<Rightarrow> Inl e
          | Inr b \<Rightarrow> Inr (s\<lparr>items := b,
              st := new\<lparr>s_Phase := ''snapshot'', s_Bytes := 0, s_NextSeq := 0, s_ReadySeq := 0,
                        s_DeliveredSeq := 0, s_EarliestSeq := 1, s_ArchiveBytes := 0\<rparr>\<rparr>))"

definition SnapshotPoint :: "obs \<Rightarrow> 'b Store \<Rightarrow> string \<Rightarrow> 'b Store res" where
  "SnapshotPoint ob s lsn = Update ob (Inr (s\<lparr>st := (st s)\<lparr>s_SnapshotLSN := lsn\<rparr>\<rparr>))"

text \<open>The loop of \<open>FinalizeSnapshotLSN\<close> over the sequence numbers \<open>ns\<close>, with the bytes counted so far.\<close>

fun finalize_loop ::
  "('v, 'b, 'z) qenv_scheme \<Rightarrow> int \<Rightarrow> string \<Rightarrow> nat list \<Rightarrow> int \<Rightarrow> 'b \<Rightarrow> (int \<times> 'b) res" where
  "finalize_loop E lim lsn [] bytes b = Inr (bytes, b)"
| "finalize_loop E lim lsn (n # ns) bytes b =
     (case bk_get E b (key n) of
        None \<Rightarrow> Inl (Err ''queue gap'')
      | Some value \<Rightarrow>
          (case unmarshal E value of
             Inl e \<Rightarrow> Inl e
           | Inr message \<Rightarrow>
               (case marshal E (message\<lparr>m_LSN := lsn\<rparr>) of
                  Inl e \<Rightarrow> Inl e
                | Inr updated \<Rightarrow>
                    if bytes + int (blen E updated) > lim then Inl ErrFull
                    else (case bk_put E b (key n) updated of
                            Inl e \<Rightarrow> Inl e
                          | Inr b' \<Rightarrow> finalize_loop E lim lsn ns (bytes + int (blen E updated)) b'))))"

definition FinalizeSnapshotLSN :: "('v, 'b, 'z) qenv_scheme \<Rightarrow> obs \<Rightarrow> 'b Store \<Rightarrow> string \<Rightarrow> 'b Store res" where
  "FinalizeSnapshotLSN E ob s lsn =
     Update ob
       (if s_Phase (st s) \<noteq> ''snapshot'' \<or> s_ReadySeq (st s) \<noteq> 0
        then Inl (Err ''snapshot boundary cannot be finalized'')
        else case finalize_loop E (maxBytes s) lsn [1..<Suc (s_NextSeq (st s))] 0 (items s) of
            Inl e \<Rightarrow> Inl e
          | Inr (bytes, b) \<Rightarrow>
              Inr (s\<lparr>items := b, st := (st s)\<lparr>s_Bytes := bytes, s_SnapshotLSN := lsn\<rparr>\<rparr>))"

text \<open>The message identifier \<open>source/generation/seq\<close>.\<close>

definition message_id :: "string \<Rightarrow> string \<Rightarrow> nat \<Rightarrow> string" where
  "message_id source generation n = source @ ''/'' @ generation @ ''/'' @ dec n"

text \<open>The envelope that \<open>Append\<close> fills in.\<close>

definition stamp :: "State \<Rightarrow> string \<Rightarrow> Message \<Rightarrow> Message" where
  "stamp x now m =
     m\<lparr>m_Version := (if s_ProtocolVersion x = '''' then ''v1'' else s_ProtocolVersion x),
       m_SourceID := s_SourceID x,
       m_Generation := s_Generation x,
       m_SchemaVersion := (if m_SchemaVersion m = '''' then s_SchemaHash x else m_SchemaVersion m),
       m_Seq := s_NextSeq x + 1,
       m_ID := message_id (s_SourceID x) (s_Generation x) (s_NextSeq x + 1),
       m_CreatedAt := now\<rparr>"

definition Append :: "('v, 'b, 'z) qenv_scheme \<Rightarrow> obs \<Rightarrow> 'b Store \<Rightarrow> Message \<Rightarrow> 'b Store res" where
  "Append E ob s m =
     (case ob_free ob of
        Inl e \<Rightarrow> Inl e
      | Inr free \<Rightarrow>
          if free < reserve s + of_nat (length (m_Rows m)) * 1024 then Inl ErrFull
          else Update ob
            (let m' = stamp (st s) (format_time E (ob_now ob)) m in
             case marshal E m' of
               Inl e \<Rightarrow> Inl e
             | Inr b \<Rightarrow>
                 if s_Bytes (st s) + int (blen E b) > maxBytes s \<or> free < reserve s + of_nat (blen E b) * 4
                 then Inl ErrFull
                 else (case bk_put E (items s) (key (m_Seq m')) b of
                         Inl e \<Rightarrow> Inl e
                       | Inr bucket \<Rightarrow>
                           Inr (s\<lparr>items := bucket,
                                  st := (st s)\<lparr>s_NextSeq := m_Seq m',
                                               s_Bytes := s_Bytes (st s) + int (blen E b)\<rparr>\<rparr>))))"

definition PublishSource :: "obs \<Rightarrow> 'b Store \<Rightarrow> string \<Rightarrow> bool \<Rightarrow> string \<Rightarrow> 'b Store res" where
  "PublishSource ob s lsn sealSnapshot cleanup =
     Update ob
       (if sealSnapshot \<and> s_Phase (st s) \<noteq> ''snapshot''
        then Inl (Err ''snapshot already sealed'')
        else Inr (s\<lparr>st := (st s)\<lparr>s_Phase := (if sealSnapshot then ''stream'' else s_Phase (st s)),
                                 s_ReadySeq := s_NextSeq (st s), s_DurableLSN := lsn,
                                 s_SourceCleanup := cleanup\<rparr>\<rparr>))"

definition Publish :: "obs \<Rightarrow> 'b Store \<Rightarrow> string \<Rightarrow> bool \<Rightarrow> 'b Store res" where
  "Publish ob s lsn sealSnapshot = PublishSource ob s lsn sealSnapshot ''''"

definition PublishSchema :: "obs \<Rightarrow> 'b Store \<Rightarrow> string \<Rightarrow> string \<Rightarrow> 'b Store res" where
  "PublishSchema ob s lsn schemaHash =
     (if lsn = '''' \<or> schemaHash = '''' then Inl (Err ''schema checkpoint and hash are required'')
      else Update ob
        (if s_Phase (st s) \<noteq> ''stream''
         then Inl (Err ''schema can only be published while streaming'')
         else Inr (s\<lparr>st := (st s)\<lparr>s_ReadySeq := s_NextSeq (st s), s_DurableLSN := lsn,
                                  s_SchemaHash := schemaHash\<rparr>\<rparr>)))"

definition ClearSourceCleanup :: "obs \<Rightarrow> 'b Store \<Rightarrow> string \<Rightarrow> 'b Store res" where
  "ClearSourceCleanup ob s expected =
     Update ob
       (if s_SourceCleanup (st s) \<noteq> expected then Inl (Err ''source cleanup token changed'')
        else Inr (s\<lparr>st := (st s)\<lparr>s_SourceCleanup := ''''\<rparr>\<rparr>))"

text \<open>The cursor loop of \<open>Recover\<close> over the pairs it visits.\<close>

fun recover_loop :: "('v, 'b, 'z) qenv_scheme \<Rightarrow> (string \<times> 'v) list \<Rightarrow> int \<Rightarrow> 'b \<Rightarrow> (int \<times> 'b) res" where
  "recover_loop E [] bytes b = Inr (bytes, b)"
| "recover_loop E ((k, v) # kvs) bytes b =
     (case bk_delete E b k of
        Inl e \<Rightarrow> Inl e
      | Inr b' \<Rightarrow> recover_loop E kvs (bytes - int (blen E v)) b')"

definition Recover :: "('v, 'b, 'z) qenv_scheme \<Rightarrow> obs \<Rightarrow> 'b Store \<Rightarrow> 'b Store res" where
  "Recover E ob s =
     Update ob
       (case recover_loop E (bk_from E (items s) (key (s_ReadySeq (st s) + 1))) (s_Bytes (st s)) (items s) of
          Inl e \<Rightarrow> Inl e
        | Inr (bytes, b) \<Rightarrow>
            Inr (s\<lparr>items := b, st := (st s)\<lparr>s_Bytes := bytes, s_NextSeq := s_ReadySeq (st s)\<rparr>\<rparr>))"

definition ResetForSnapshot :: "('v, 'b, 'z) qenv_scheme \<Rightarrow> obs \<Rightarrow> 'b Store \<Rightarrow> 'b Store res" where
  "ResetForSnapshot E ob s =
     Update ob
       (if s_Phase (st s) \<noteq> ''stream'' then Inl (Err ''only a sealed stream can be repaired'')
        else if s_NextSeq (st s) \<noteq> s_ReadySeq (st s) \<or> s_DeliveredSeq (st s) \<noteq> s_ReadySeq (st s)
        then Inl ErrNotDrained
        else case bk_recreate E (items s) of
            Inl e \<Rightarrow> Inl e
          | Inr b \<Rightarrow> Inr (s\<lparr>items := b,
              st := (st s)\<lparr>s_Phase := ''snapshot'', s_Generation := '''', s_SchemaHash := '''',
                           s_SnapshotLSN := '''', s_DurableLSN := '''', s_SourceCleanup := '''',
                           s_NextSeq := 0, s_ReadySeq := 0, s_DeliveredSeq := 0, s_Bytes := 0,
                           s_EarliestSeq := 1, s_ArchiveBytes := 0\<rparr>\<rparr>))"

text \<open>Decoding a stored value together with its raw bytes, as \<open>Peek\<close> and \<open>Get\<close> do.\<close>

definition fetch :: "('v, 'b, 'z) qenv_scheme \<Rightarrow> 'b \<Rightarrow> nat \<Rightarrow> (Message \<times> 'v) res" where
  "fetch E b n =
     (case bk_get E b (key n) of
        None \<Rightarrow> Inl (Err ''queue gap'')
      | Some v \<Rightarrow> (case unmarshal E v of Inl e \<Rightarrow> Inl e | Inr m \<Rightarrow> Inr (m, v)))"

definition Peek :: "('v, 'b, 'z) qenv_scheme \<Rightarrow> 'b Store \<Rightarrow> (Message \<times> 'v) res" where
  "Peek E s =
     (if s_DeliveredSeq (st s) \<ge> s_ReadySeq (st s) then Inl ErrEmpty
      else fetch E (items s) (s_DeliveredSeq (st s) + 1))"

text \<open>The first retained sequence number; a state written before the archive existed has none.\<close>

definition earliest :: "State \<Rightarrow> nat" where
  "earliest x = (if s_EarliestSeq x = 0 then s_DeliveredSeq x + 1 else s_EarliestSeq x)"

definition Get :: "('v, 'b, 'z) qenv_scheme \<Rightarrow> 'b Store \<Rightarrow> nat \<Rightarrow> (Message \<times> 'v) res" where
  "Get E s n =
     (if n < earliest (st s) \<or> n > s_ReadySeq (st s) then Inl ErrEmpty
      else fetch E (items s) n)"

definition Bounds :: "'b Store \<Rightarrow> string \<times> nat \<times> nat" where
  "Bounds s = (s_Generation (st s), earliest (st s), s_ReadySeq (st s))"

text \<open>\<open>MetricsSnapshot\<close> returns the state and the creation time of the oldest undelivered message,
  the zero time (\<^const>\<open>None\<close>) when there is none.\<close>

definition MetricsSnapshot :: "('v, 'b, 'z) qenv_scheme \<Rightarrow> 'b Store \<Rightarrow> (State \<times> int option) res" where
  "MetricsSnapshot E s =
     (if s_DeliveredSeq (st s) \<ge> s_ReadySeq (st s) then Inr (st s, None)
      else case bk_get E (items s) (key (s_DeliveredSeq (st s) + 1)) of
          None \<Rightarrow> Inl (Err ''queue gap'')
        | Some v \<Rightarrow>
            (case unmarshal_created E v of
               Inl e \<Rightarrow> Inl e
             | Inr text \<Rightarrow> (case parse_time E text of
                             None \<Rightarrow> Inl (Err ''invalid created_at'')
                           | Some t \<Rightarrow> Inr (st s, Some t))))"

text \<open>Whether an archived value is older than the retention age; a value whose header does not decode
  or whose time does not parse never is.\<close>

definition expired :: "('v, 'b, 'z) qenv_scheme \<Rightarrow> int \<Rightarrow> int \<Rightarrow> 'v \<Rightarrow> bool" where
  "expired E age now v =
     (case unmarshal_created E v of
        Inl _ \<Rightarrow> False
      | Inr text \<Rightarrow> (case parse_time E text of None \<Rightarrow> False | Some created \<Rightarrow> now - created > age))"

text \<open>The eviction loop of \<open>Ack\<close>: it advances \<open>EarliestSeq\<close> over missing values, and over values that
  are too old or that exceed the archive's size, up to \<open>DeliveredSeq\<close>.\<close>

function evict ::
  "('v, 'b, 'z) qenv_scheme \<Rightarrow> int \<Rightarrow> int \<Rightarrow> int \<Rightarrow> nat \<Rightarrow> 'b \<Rightarrow> nat \<Rightarrow> int \<Rightarrow> ('b \<times> nat \<times> int) res" where
  "evict E age limit now delivered b e archive =
     (if e \<le> delivered then
        (case bk_get E b (key e) of
           None \<Rightarrow> evict E age limit now delivered b (e + 1) archive
         | Some old \<Rightarrow>
             if \<not> expired E age now old \<and> archive \<le> limit then Inr (b, e, archive)
             else (case bk_delete E b (key e) of
                     Inl er \<Rightarrow> Inl er
                   | Inr b' \<Rightarrow> evict E age limit now delivered b' (e + 1) (archive - int (blen E old))))
      else Inr (b, e, archive))"
  by pat_completeness auto
termination
  by (relation "measure (\<lambda>(E, age, limit, now, delivered, b, e, archive). Suc delivered - e)") auto

declare evict.simps [simp del]

definition Ack :: "('v, 'b, 'z) qenv_scheme \<Rightarrow> obs \<Rightarrow> 'b Store \<Rightarrow> nat \<Rightarrow> string \<Rightarrow> 'b Store res" where
  "Ack E ob s n mid =
     Update ob
       (if n \<noteq> s_DeliveredSeq (st s) + 1 \<or> n > s_ReadySeq (st s)
        then Inl (Err ''non-contiguous ack'')
        else case bk_get E (items s) (key n) of
            None \<Rightarrow> Inl (Err ''ack references missing message'')
          | Some v \<Rightarrow>
              (case unmarshal E v of
                 Inl e \<Rightarrow> Inl e
               | Inr m \<Rightarrow>
                   if m_ID m \<noteq> mid then Inl (Err ''ack id mismatch'')
                   else (case evict E (replayAge s) (replayBytes s) (ob_now ob) n (items s)
                                (if s_EarliestSeq (st s) = 0 then 1 else s_EarliestSeq (st s))
                                (s_ArchiveBytes (st s) + int (blen E v)) of
                           Inl e \<Rightarrow> Inl e
                         | Inr (b, e, archive) \<Rightarrow>
                             Inr (s\<lparr>items := b,
                                    st := (st s)\<lparr>s_Bytes := s_Bytes (st s) - int (blen E v),
                                                 s_ArchiveBytes := archive, s_DeliveredSeq := n,
                                                 s_EarliestSeq := e\<rparr>\<rparr>))))"

section \<open>Facts about the parameters\<close>

lemma bolt_ok_new [simp]: "bolt_ok E \<Longrightarrow> bk_get E (bk_new E) k = None"
  by (simp add: bolt_ok_def)

lemma bolt_ok_put: "bolt_ok E \<Longrightarrow> bk_put E b k v = Inr b' \<Longrightarrow> bk_get E b' = (bk_get E b)(k \<mapsto> v)"
  by (simp add: bolt_ok_def)

lemma bolt_ok_delete: "bolt_ok E \<Longrightarrow> bk_delete E b k = Inr b' \<Longrightarrow> bk_get E b' = (bk_get E b)(k := None)"
  by (simp add: bolt_ok_def)

lemma bolt_ok_recreate: "bolt_ok E \<Longrightarrow> bk_recreate E b = Inr b' \<Longrightarrow> bk_get E b' = Map.empty"
  by (simp add: bolt_ok_def)

lemma bolt_ok_from:
  "bolt_ok E \<Longrightarrow> distinct (map fst (bk_from E b k))"
  "bolt_ok E \<Longrightarrow> set (bk_from E b k) = {(k', v). bk_get E b k' = Some v \<and> k \<le> k'}"
  by (simp_all add: bolt_ok_def)

lemma Update_Inr [simp]: "Update ob r = Inr s \<longleftrightarrow> ob_commit ob = None \<and> r = Inr s"
  by (cases r) (auto simp: Update_def)

lemma Update_Inl [simp]: "Update ob (Inl e) = Inl e"
  by (simp add: Update_def)

text \<open>The range of the sequence numbers (\<open>uint64\<close>), kept folded in the proofs.\<close>

definition seq_limit :: nat where
  "seq_limit = 2 ^ 64"

lemma key_inject: "m < seq_limit \<Longrightarrow> n < seq_limit \<Longrightarrow> key m = key n \<longleftrightarrow> m = n"
  using be_bytes_inject [of m 8 n] by (simp add: key_def seq_limit_def)

lemma key_le_iff: "m < seq_limit \<Longrightarrow> n < seq_limit \<Longrightarrow> key m \<le> key n \<longleftrightarrow> m \<le> n"
  using be_bytes_less_iff [of n 8 m] by (simp add: key_def seq_limit_def linorder_not_less [symmetric])

end
