(* ===== verification/Queue_Invariant.thy ===== *)
theory Queue_Invariant
  imports Queue
begin

text \<open>
  The invariant of the queue and its preservation by every operation: the counters are ordered, the
  bucket holds exactly the retained sequence numbers with their own messages, and the two byte
  counters are the sizes of what they count.
\<close>

section \<open>Contents of the bucket\<close>

text \<open>The length of the value with number \<open>n\<close> in a bucket read as the map \<open>g\<close>.\<close>

definition ilen :: "('v, 'b, 'z) qenv_scheme \<Rightarrow> (string \<rightharpoonup> 'v) \<Rightarrow> nat \<Rightarrow> int" where
  "ilen E g n = (case g (key n) of None \<Rightarrow> 0 | Some v \<Rightarrow> int (blen E v))"

text \<open>A value that decodes to a message with number \<open>n\<close> of the given source and generation.\<close>

definition envelope_ok :: "Message set \<Rightarrow> ('v, 'b, 'z) qenv_scheme \<Rightarrow> string \<Rightarrow> string \<Rightarrow> nat \<Rightarrow> 'v \<Rightarrow> bool" where
  "envelope_ok W E src gen n v \<longleftrightarrow>
     (\<exists>m\<in>W. unmarshal E v = Inr m \<and> m_Seq m = n \<and> m_SourceID m = src \<and>
          m_Generation m = gen \<and> m_ID m = message_id src gen n)"

text \<open>The bucket holds exactly the numbers from \<open>lo\<close> to \<open>hi\<close>, each with its own message.\<close>

definition contents_ok ::
  "Message set \<Rightarrow> ('v, 'b, 'z) qenv_scheme \<Rightarrow> string \<Rightarrow> string \<Rightarrow> nat \<Rightarrow> nat \<Rightarrow> (string \<rightharpoonup> 'v) \<Rightarrow> bool" where
  "contents_ok W E src gen lo hi g \<longleftrightarrow>
     dom g = key ` {lo..hi} \<and> (\<forall>n v. lo \<le> n \<longrightarrow> n \<le> hi \<longrightarrow> g (key n) = Some v \<longrightarrow> envelope_ok W E src gen n v)"

lemma ilen_nonneg [simp]: "0 \<le> ilen E g n"
  by (auto simp: ilen_def split: option.splits)

lemma ilen_upd: "m < seq_limit \<Longrightarrow> n < seq_limit \<Longrightarrow>
   ilen E (g(key m := r)) n = (if n = m then (case r of None \<Rightarrow> 0 | Some v \<Rightarrow> int (blen E v)) else ilen E g n)"
  by (auto simp: ilen_def key_inject)

lemma sum_ilen_cong:
  assumes "\<And>n. n \<in> A \<Longrightarrow> g (key n) = h (key n)"
  shows "(\<Sum>n\<in>A. ilen E g n) = (\<Sum>n\<in>A. ilen E h n)"
  using assms by (intro sum.cong) (auto simp: ilen_def)

lemma key_image_iff: "n < seq_limit \<Longrightarrow> (\<And>m. m \<in> A \<Longrightarrow> m < seq_limit) \<Longrightarrow> key n \<in> key ` A \<longleftrightarrow> n \<in> A"
  by (auto simp: key_inject)

lemma contents_Some:
  assumes "contents_ok W E src gen lo hi g" "lo \<le> n" "n \<le> hi"
  obtains v m where "g (key n) = Some v" "unmarshal E v = Inr m" "m \<in> W" "m_Seq m = n" "m_SourceID m = src"
    "m_Generation m = gen" "m_ID m = message_id src gen n"
proof -
  have "key n \<in> dom g" using assms by (auto simp: contents_ok_def)
  then obtain v where v: "g (key n) = Some v" by auto
  then have "envelope_ok W E src gen n v" using assms by (auto simp: contents_ok_def)
  with v that show ?thesis by (auto simp: envelope_ok_def)
qed

lemma contents_snoc:
  assumes "contents_ok W E src gen lo hi g" "lo \<le> Suc hi" "Suc hi < seq_limit" "envelope_ok W E src gen (Suc hi) v"
  shows "contents_ok W E src gen lo (Suc hi) (g(key (Suc hi) \<mapsto> v))"
proof -
  have "{lo..Suc hi} = insert (Suc hi) {lo..hi}" using assms(2) by auto
  then have "dom (g(key (Suc hi) \<mapsto> v)) = key ` {lo..Suc hi}"
    using assms(1) by (auto simp: contents_ok_def)
  moreover have "envelope_ok W E src gen n w"
    if "lo \<le> n" "n \<le> Suc hi" "(g(key (Suc hi) \<mapsto> v)) (key n) = Some w" for n w
  proof (cases "n = Suc hi")
    case True
    with that assms(4) show ?thesis by simp
  next
    case False
    with that assms(3) have "g (key n) = Some w" by (simp add: key_inject)
    with that False assms(1) show ?thesis by (auto simp: contents_ok_def)
  qed
  ultimately show ?thesis by (auto simp: contents_ok_def)
qed

lemma contents_sub:
  assumes "contents_ok W E src gen lo hi g" "hi < seq_limit" "lo \<le> lo'" "hi' \<le> hi"
    and dom: "dom g' = key ` {lo'..hi'}" and eq: "\<And>n. lo' \<le> n \<Longrightarrow> n \<le> hi' \<Longrightarrow> g' (key n) = g (key n)"
  shows "contents_ok W E src gen lo' hi' g'"
  using assms by (auto simp: contents_ok_def)

section \<open>The invariant\<close>

text \<open>The four counters are in order, the bucket holds exactly the retained numbers, and the two byte
  counters are the sizes of the unacknowledged and of the archived part.\<close>

definition counters_ok :: "State \<Rightarrow> bool" where
  "counters_ok x \<longleftrightarrow> earliest x \<le> Suc (s_DeliveredSeq x) \<and> s_DeliveredSeq x \<le> s_ReadySeq x \<and>
     s_ReadySeq x \<le> s_NextSeq x \<and> Suc (s_NextSeq x) < seq_limit"

definition bytes_ok :: "('v, 'b, 'z) qenv_scheme \<Rightarrow> State \<Rightarrow> (string \<rightharpoonup> 'v) \<Rightarrow> bool" where
  "bytes_ok E x g \<longleftrightarrow>
     s_Bytes x = (\<Sum>n\<in>{s_DeliveredSeq x<..s_NextSeq x}. ilen E g n) \<and>
     s_ArchiveBytes x = (\<Sum>n\<in>{earliest x..s_DeliveredSeq x}. ilen E g n)"

definition queue_inv :: "Message set \<Rightarrow> ('v, 'b, 'z) qenv_scheme \<Rightarrow> 'b Store \<Rightarrow> bool" where
  "queue_inv W E s \<longleftrightarrow> counters_ok (st s) \<and>
     contents_ok W E (s_SourceID (st s)) (s_Generation (st s)) (earliest (st s)) (s_NextSeq (st s))
       (bk_get E (items s)) \<and>
     bytes_ok E (st s) (bk_get E (items s))"

lemma earliest_pos: "earliest x \<ge> 1"
  by (simp add: earliest_def)

lemma earliest_upd [simp]:
  "earliest (x\<lparr>s_NextSeq := a\<rparr>) = earliest x"
  "earliest (x\<lparr>s_ReadySeq := a\<rparr>) = earliest x"
  "earliest (x\<lparr>s_Bytes := y\<rparr>) = earliest x"
  "earliest (x\<lparr>s_DurableLSN := l\<rparr>) = earliest x"
  "earliest (x\<lparr>s_SnapshotLSN := l\<rparr>) = earliest x"
  "earliest (x\<lparr>s_SourceCleanup := l\<rparr>) = earliest x"
  "earliest (x\<lparr>s_SchemaHash := l\<rparr>) = earliest x"
  "earliest (x\<lparr>s_Phase := l\<rparr>) = earliest x"
  by (simp_all add: earliest_def)

lemma queue_invD:
  assumes "queue_inv W E s"
  shows "counters_ok (st s)"
    "contents_ok W E (s_SourceID (st s)) (s_Generation (st s)) (earliest (st s)) (s_NextSeq (st s)) (bk_get E (items s))"
    "bytes_ok E (st s) (bk_get E (items s))"
  using assms by (auto simp: queue_inv_def)

lemma stamp_envelope [simp]:
  "m_Seq (stamp x now m) = Suc (s_NextSeq x)"
  "m_SourceID (stamp x now m) = s_SourceID x"
  "m_Generation (stamp x now m) = s_Generation x"
  "m_ID (stamp x now m) = message_id (s_SourceID x) (s_Generation x) (Suc (s_NextSeq x))"
  by (simp_all add: stamp_def)

lemma Append_Inr:
  assumes "Append E ob s m = Inr s'"
  obtains b bucket where
    "marshal E (stamp (st s) (format_time E (ob_now ob)) m) = Inr b"
    "s_Bytes (st s) + int (blen E b) \<le> maxBytes s"
    "bk_put E (items s) (key (Suc (s_NextSeq (st s)))) b = Inr bucket"
    "s' = s\<lparr>items := bucket, st := (st s)\<lparr>s_NextSeq := Suc (s_NextSeq (st s)),
                 s_Bytes := s_Bytes (st s) + int (blen E b)\<rparr>\<rparr>"
  using assms unfolding Append_def Let_def
  by (simp split: sum.splits if_splits)

lemma envelope_ok_stamp:
  assumes "codec_ok W E" "stamp x now m \<in> W" "marshal E (stamp x now m) = Inr b"
  shows "envelope_ok W E (s_SourceID x) (s_Generation x) (Suc (s_NextSeq x)) b"
  using codec_okD [OF assms] assms(2) by (auto simp: envelope_ok_def stamp_def)

lemma Append_inv:
  assumes E: "bolt_ok E" "codec_ok W E" and s: "queue_inv W E s"
    and W: "stamp (st s) (format_time E (ob_now ob)) m \<in> W"
    and room: "Suc (Suc (s_NextSeq (st s))) < seq_limit"
    and app: "Append E ob s m = Inr s'"
  shows "queue_inv W E s'"
proof -
  define x g n where "x = st s" and "g = bk_get E (items s)" and "n = Suc (s_NextSeq x)"
  from app obtain b bucket where b: "marshal E (stamp x (format_time E (ob_now ob)) m) = Inr b"
    and put: "bk_put E (items s) (key n) b = Inr bucket"
    and s': "s' = s\<lparr>items := bucket, st := x\<lparr>s_NextSeq := n, s_Bytes := s_Bytes x + int (blen E b)\<rparr>\<rparr>"
    unfolding x_def n_def by (elim Append_Inr)
  have g': "bk_get E bucket = g(key n \<mapsto> b)" using bolt_ok_put [OF E(1) put] by (simp add: g_def)
  note inv = queue_invD [OF s, folded x_def g_def]
  have env: "envelope_ok W E (s_SourceID x) (s_Generation x) n b"
    using envelope_ok_stamp [OF E(2) W [folded x_def] b] by (simp add: n_def)
  have lo: "earliest x \<le> n" and del: "s_DeliveredSeq x < n" and n: "n < seq_limit" and room': "Suc n < seq_limit"
    using inv(1) room by (auto simp: counters_ok_def n_def x_def)
  have split: "{s_DeliveredSeq x<..n} = insert n {s_DeliveredSeq x<..s_NextSeq x}"
    using del by (auto simp: n_def)
  have same: "(\<Sum>i\<in>A. ilen E (g(key n \<mapsto> b)) i) = (\<Sum>i\<in>A. ilen E g i)" if "A \<subseteq> {..s_NextSeq x}" for A
    using that n by (intro sum_ilen_cong) (auto simp: key_inject n_def)
  have fresh: "n \<notin> {s_DeliveredSeq x<..s_NextSeq x}" by (simp add: n_def)
  have part: "{s_DeliveredSeq x<..s_NextSeq x} \<subseteq> {..s_NextSeq x}" "{earliest x..s_DeliveredSeq x} \<subseteq> {..s_NextSeq x}"
    using inv(1) by (auto simp: counters_ok_def)
  have "bytes_ok E (x\<lparr>s_NextSeq := n, s_Bytes := s_Bytes x + int (blen E b)\<rparr>) (g(key n \<mapsto> b))"
    using inv(3) n fresh by (simp add: bytes_ok_def split same [OF part(1)] same [OF part(2)] ilen_upd)
  moreover have "contents_ok W E (s_SourceID x) (s_Generation x) (earliest x) n (g(key n \<mapsto> b))"
    unfolding n_def by (rule contents_snoc [OF inv(2) lo [unfolded n_def] n [unfolded n_def] env [unfolded n_def]])
  moreover have "counters_ok (x\<lparr>s_NextSeq := n, s_Bytes := s_Bytes x + int (blen E b)\<rparr>)"
    using inv(1) room' by (auto simp: counters_ok_def n_def)
  ultimately show ?thesis by (simp add: queue_inv_def s' g')
qed


section \<open>Operations on the counters alone\<close>

lemma queue_inv_meta:
  assumes "queue_inv W E s" "items s' = items s"
    and "s_SourceID (st s') = s_SourceID (st s)" "s_Generation (st s') = s_Generation (st s)"
    and "s_NextSeq (st s') = s_NextSeq (st s)" "s_DeliveredSeq (st s') = s_DeliveredSeq (st s)"
    and "s_EarliestSeq (st s') = s_EarliestSeq (st s)"
    and "s_Bytes (st s') = s_Bytes (st s)" "s_ArchiveBytes (st s') = s_ArchiveBytes (st s)"
    and "s_ReadySeq (st s') = s_ReadySeq (st s) \<or> s_ReadySeq (st s') = s_NextSeq (st s)"
  shows "queue_inv W E s'"
proof -
  have "earliest (st s') = earliest (st s)" using assms by (simp add: earliest_def)
  with assms show ?thesis by (auto simp: queue_inv_def counters_ok_def bytes_ok_def)
qed

lemma SnapshotPoint_inv: "queue_inv W E s \<Longrightarrow> SnapshotPoint ob s lsn = Inr s' \<Longrightarrow> queue_inv W E s'"
  by (erule queue_inv_meta) (auto simp: SnapshotPoint_def)

lemma PublishSource_inv: "queue_inv W E s \<Longrightarrow> PublishSource ob s lsn sl c = Inr s' \<Longrightarrow> queue_inv W E s'"
  by (erule queue_inv_meta) (auto simp: PublishSource_def split: if_splits)

lemma PublishSchema_inv: "queue_inv W E s \<Longrightarrow> PublishSchema ob s lsn h = Inr s' \<Longrightarrow> queue_inv W E s'"
  by (erule queue_inv_meta) (auto simp: PublishSchema_def split: if_splits)

lemma ClearSourceCleanup_inv: "queue_inv W E s \<Longrightarrow> ClearSourceCleanup ob s t = Inr s' \<Longrightarrow> queue_inv W E s'"
  by (erule queue_inv_meta) (auto simp: ClearSourceCleanup_def split: if_splits)

lemma ConfigureReplay_inv: "queue_inv W E s \<Longrightarrow> queue_inv W E (ConfigureReplay s a b)"
  by (erule queue_inv_meta) (auto simp: ConfigureReplay_def)

section \<open>Emptying the queue\<close>

lemma queue_inv_empty:
  assumes "bk_get E (items s) = Map.empty" "s_NextSeq (st s) = 0" "s_ReadySeq (st s) = 0" "s_DeliveredSeq (st s) = 0"
    "s_EarliestSeq (st s) \<le> 1" "s_Bytes (st s) = 0" "s_ArchiveBytes (st s) = 0"
  shows "queue_inv W E s"
  using assms
  by (auto simp: queue_inv_def counters_ok_def contents_ok_def bytes_ok_def earliest_def seq_limit_def)

lemma Initialize_inv:
  assumes "bolt_ok E" "Initialize E ob s new = Inr s'"
  shows "queue_inv W E s'"
  using assms bolt_ok_recreate [OF assms(1)]
  by (intro queue_inv_empty) (auto simp: Initialize_def split: if_splits sum.splits)

lemma ResetForSnapshot_inv:
  assumes "bolt_ok E" "ResetForSnapshot E ob s = Inr s'"
  shows "queue_inv W E s'"
  using assms bolt_ok_recreate [OF assms(1)]
  by (intro queue_inv_empty) (auto simp: ResetForSnapshot_def split: if_splits sum.splits)

lemma Open_new_inv:
  assumes "bolt_ok E" "Open E io ob None maxB res = Inr s"
  shows "queue_inv W E s"
  using assms
  by (intro queue_inv_empty) (auto simp: Open_def zero_State_def bolt_ok_new split: sum.splits)

section \<open>Recovery\<close>

lemma recover_loop_spec:
  assumes "bolt_ok E" "recover_loop E kvs bytes b = Inr (bytes', b')"
  shows "bk_get E b' = (\<lambda>k. if k \<in> fst ` set kvs then None else bk_get E b k) \<and>
         bytes' = bytes - sum_list (map (\<lambda>(k, v). int (blen E v)) kvs)"
  using assms(2)
proof (induction kvs arbitrary: bytes b)
  case Nil
  then show ?case by auto
next
  case (Cons kv kvs)
  obtain k v where kv: "kv = (k, v)" by (cases kv)
  from Cons.prems obtain b1 where b1: "bk_delete E b k = Inr b1"
    and rest: "recover_loop E kvs (bytes - int (blen E v)) b1 = Inr (bytes', b')"
    by (auto simp: kv split: sum.splits)
  from Cons.IH [OF rest] bolt_ok_delete [OF assms(1) b1] show ?case
    by (auto simp: kv fun_eq_iff)
qed

lemma seek_contents:
  assumes E: "bolt_ok E" and con: "contents_ok W E src gen lo hi (bk_get E b)"
    and r: "Suc r < seq_limit" "hi < seq_limit" "lo \<le> Suc r"
  shows "fst ` set (bk_from E b (key (Suc r))) = key ` {Suc r..hi}" (is ?keys)
    and "sum_list (map (\<lambda>(k, v). int (blen E v)) (bk_from E b (key (Suc r)))) =
         (\<Sum>n\<in>{Suc r..hi}. ilen E (bk_get E b) n)" (is ?sum)
proof -
  let ?g = "bk_get E b" and ?kvs = "bk_from E b (key (Suc r))"
  have dom: "dom ?g = key ` {lo..hi}" using con by (simp add: contents_ok_def)
  have set: "set ?kvs = (\<lambda>n. (key n, the (?g (key n)))) ` {Suc r..hi}" (is "_ = ?f ` _")
  proof (intro set_eqI iffI)
    fix kv assume "kv \<in> set ?kvs"
    then obtain k v where kv: "kv = (k, v)" "?g k = Some v" "key (Suc r) \<le> k"
      by (auto simp: bolt_ok_from(2) [OF E])
    then have "k \<in> dom ?g" by auto
    then obtain n where n: "k = key n" "n \<le> hi" unfolding dom by auto
    with kv r have "Suc r \<le> n" using key_le_iff [of "Suc r" n] by simp
    with n kv show "kv \<in> ?f ` {Suc r..hi}" by auto
  next
    fix kv assume "kv \<in> ?f ` {Suc r..hi}"
    then obtain n where n: "kv = ?f n" "Suc r \<le> n" "n \<le> hi" by auto
    then have "key n \<in> dom ?g" unfolding dom using r by auto
    with n r show "kv \<in> set ?kvs" using key_le_iff [of "Suc r" n]
      by (auto simp: bolt_ok_from(2) [OF E])
  qed
  show ?keys by (simp add: set image_image)
  have "distinct ?kvs" using bolt_ok_from(1) [OF E] distinct_map by blast
  moreover have inj: "inj_on ?f {Suc r..hi}" using r by (auto simp: inj_on_def key_inject)
  moreover have "ilen E ?g n = (case ?f n of (k, v) \<Rightarrow> int (blen E v))" if "n \<in> {Suc r..hi}" for n
  proof -
    have "key n \<in> dom ?g" unfolding dom using that r by auto
    then show ?thesis by (auto simp: ilen_def)
  qed
  ultimately show ?sum
    by (simp add: sum_list_distinct_conv_sum_set set sum.reindex)
qed

lemma Recover_inv:
  assumes E: "bolt_ok E" and s: "queue_inv W E s" and rec: "Recover E ob s = Inr s'"
  shows "queue_inv W E s'"
proof -
  define x g r where "x = st s" and "g = bk_get E (items s)" and "r = s_ReadySeq x"
  note inv = queue_invD [OF s, folded x_def g_def]
  from rec obtain bytes b where
    loop: "recover_loop E (bk_from E (items s) (key (Suc r))) (s_Bytes x) (items s) = Inr (bytes, b)"
    and s': "s' = s\<lparr>items := b, st := x\<lparr>s_Bytes := bytes, s_NextSeq := r\<rparr>\<rparr>"
    by (auto simp: Recover_def x_def r_def split: sum.splits)
  have bnd: "Suc r < seq_limit" "s_NextSeq x < seq_limit" "earliest x \<le> Suc r" "s_DeliveredSeq x \<le> r" "r \<le> s_NextSeq x"
    using inv(1) by (auto simp: counters_ok_def r_def)
  note seek = seek_contents [OF E inv(2) [unfolded g_def] bnd(1-3)]
  have b: "bk_get E b = (\<lambda>k. if k \<in> key ` {Suc r..s_NextSeq x} then None else g k)"
    and bytes: "bytes = s_Bytes x - (\<Sum>n\<in>{Suc r..s_NextSeq x}. ilen E g n)"
    using recover_loop_spec [OF E loop] by (auto simp: seek g_def)
  have keep: "bk_get E b (key n) = g (key n)" if "n \<le> r" for n
    using that bnd by (auto simp: b key_inject)
  have dom: "dom (bk_get E b) = key ` {earliest x..r}"
  proof -
    have "dom g = key ` {earliest x..s_NextSeq x}" using inv(2) by (simp add: contents_ok_def)
    moreover have "key ` {earliest x..s_NextSeq x} - key ` {Suc r..s_NextSeq x} = key ` {earliest x..r}"
      using bnd by (auto simp: key_inject image_iff) 
    moreover have "dom (bk_get E b) = dom g - key ` {Suc r..s_NextSeq x}"
      by (auto simp: b split: if_splits)
    ultimately show ?thesis by simp
  qed
  have con: "contents_ok W E (s_SourceID x) (s_Generation x) (earliest x) r (bk_get E b)"
    by (rule contents_sub [OF inv(2) bnd(2) order_refl bnd(5) dom]) (simp add: keep)
  have "{s_DeliveredSeq x<..s_NextSeq x} = {s_DeliveredSeq x<..r} \<union> {Suc r..s_NextSeq x}"
    using bnd by auto
  moreover have "{s_DeliveredSeq x<..r} \<inter> {Suc r..s_NextSeq x} = {}" by auto
  ultimately have "bytes = (\<Sum>n\<in>{s_DeliveredSeq x<..r}. ilen E g n)"
    using inv(3) by (simp add: bytes_ok_def bytes sum.union_disjoint)
  moreover have "(\<Sum>n\<in>A. ilen E (bk_get E b) n) = (\<Sum>n\<in>A. ilen E g n)" if "A \<subseteq> {..r}" for A
    using that by (intro sum_ilen_cong) (auto simp: keep)
  moreover have "{s_DeliveredSeq x<..r} \<subseteq> {..r}" "{earliest x..s_DeliveredSeq x} \<subseteq> {..r}" using bnd by auto
  ultimately have "bytes_ok E (x\<lparr>s_Bytes := bytes, s_NextSeq := r\<rparr>) (bk_get E b)"
    using inv(3) by (simp add: bytes_ok_def)
  with con bnd show ?thesis using inv(1) by (simp add: queue_inv_def s' counters_ok_def r_def)
qed


section \<open>Acknowledgement\<close>

text \<open>One round of the eviction loop: it either stops or drops the number \<open>e\<close>.\<close>

lemma evict_cases:
  assumes E: "bolt_ok E" and ev: "evict E age lim now delivered b e archive = Inr (b', e', archive')"
  obtains (stop) "b' = b" "e' = e" "archive' = archive"
      "delivered < e \<or> (\<exists>v. bk_get E b (key e) = Some v \<and> \<not> expired E age now v \<and> archive \<le> lim)"
  | (drop) b1 where "e \<le> delivered" "bk_get E b1 = (bk_get E b)(key e := None)"
      "evict E age lim now delivered b1 (Suc e) (archive - ilen E (bk_get E b) e) = Inr (b', e', archive')"
proof (cases "e \<le> delivered")
  case False
  with ev show ?thesis by (intro stop) (auto simp: evict.simps [of E age lim now delivered b e])
next
  case le: True
  show ?thesis
  proof (cases "bk_get E b (key e)")
    case None
    with le ev show ?thesis
      by (intro drop [of b]) (auto simp: evict.simps [of E age lim now delivered b e] ilen_def)
  next
    case (Some v)
    show ?thesis
    proof (cases "\<not> expired E age now v \<and> archive \<le> lim")
      case True
      with le Some ev show ?thesis by (intro stop) (auto simp: evict.simps [of E age lim now delivered b e])
    next
      case False
      with le Some ev obtain b1 where b1: "bk_delete E b (key e) = Inr b1"
        and "evict E age lim now delivered b1 (Suc e) (archive - int (blen E v)) = Inr (b', e', archive')"
        by (auto simp: evict.simps [of E age lim now delivered b e] split: sum.splits if_splits)
      with le Some show ?thesis
        by (intro drop [of b1]) (auto simp: ilen_def bolt_ok_delete [OF E b1])
    qed
  qed
qed

lemma evict_spec:
  assumes E: "bolt_ok E" and d: "Suc delivered < seq_limit" and e: "e \<le> Suc delivered"
    and ev: "evict E age lim now delivered b e archive = Inr (b', e', archive')"
  shows "e \<le> e' \<and> e' \<le> Suc delivered \<and>
         bk_get E b' = (\<lambda>k. if k \<in> key ` {e..<e'} then None else bk_get E b k) \<and>
         archive' = archive - (\<Sum>n\<in>{e..<e'}. ilen E (bk_get E b) n) \<and>
         (e' \<le> delivered \<longrightarrow> (\<exists>v. bk_get E b' (key e') = Some v \<and> \<not> expired E age now v) \<and> archive' \<le> lim)"
  using e ev
proof (induction "Suc delivered - e" arbitrary: b e archive)
  case 0
  then have "delivered < e" by simp
  with E 0(3) show ?case by (cases rule: evict_cases) (use 0 in auto)
next
  case (Suc k)
  from E Suc.prems(2) show ?case
  proof (cases rule: evict_cases)
    case stop
    with Suc.prems show ?thesis by auto
  next
    case (drop b1)
    let ?g = "bk_get E b"
    have k: "k = Suc delivered - Suc e" "Suc e \<le> Suc delivered" using Suc.hyps(2) drop(1) by auto
    have IH: "Suc e \<le> e'" "e' \<le> Suc delivered"
      "bk_get E b' = (\<lambda>k. if k \<in> key ` {Suc e..<e'} then None else (?g(key e := None)) k)"
      "archive' = archive - ilen E ?g e - (\<Sum>n\<in>{Suc e..<e'}. ilen E (?g(key e := None)) n)"
      "e' \<le> delivered \<longrightarrow> (\<exists>v. bk_get E b' (key e') = Some v \<and> \<not> expired E age now v) \<and> archive' \<le> lim"
      using Suc.hyps(1) [OF k drop(3), unfolded drop(2)] by blast+
    have range: "{e..<e'} = insert e {Suc e..<e'}" using IH(1) by auto
    have "(\<Sum>n\<in>{Suc e..<e'}. ilen E (?g(key e := None)) n) = (\<Sum>n\<in>{Suc e..<e'}. ilen E ?g n)"
      using IH(2) d by (intro sum_ilen_cong) (auto simp: key_inject)
    then have "archive' = archive - (\<Sum>n\<in>{e..<e'}. ilen E ?g n)" by (simp add: IH(4) range)
    moreover have "bk_get E b' = (\<lambda>k. if k \<in> key ` {e..<e'} then None else ?g k)"
      by (auto simp: IH(3) range fun_eq_iff)
    ultimately show ?thesis using IH(1,2,5) by auto
  qed
qed

lemma Ack_Inr:
  assumes "Ack E ob s n mid = Inr s'"
  obtains v m b e archive where
    "n = Suc (s_DeliveredSeq (st s))" "n \<le> s_ReadySeq (st s)"
    "bk_get E (items s) (key n) = Some v" "unmarshal E v = Inr m" "m_ID m = mid"
    "evict E (replayAge s) (replayBytes s) (ob_now ob) n (items s)
        (if s_EarliestSeq (st s) = 0 then 1 else s_EarliestSeq (st s)) (s_ArchiveBytes (st s) + int (blen E v)) =
      Inr (b, e, archive)"
    "s' = s\<lparr>items := b, st := (st s)\<lparr>s_Bytes := s_Bytes (st s) - int (blen E v),
                 s_ArchiveBytes := archive, s_DeliveredSeq := n, s_EarliestSeq := e\<rparr>\<rparr>"
  using assms unfolding Ack_def
  by (simp split: if_splits option.splits sum.splits prod.splits)

text \<open>A store without an archive bound starts its eviction at one; the numbers before \<open>earliest\<close> are
  absent, so they count for nothing.\<close>

lemma absent_below:
  assumes "contents_ok W E src gen lo hi g" "n < lo" "hi < seq_limit" "lo \<le> Suc hi"
  shows "g (key n) = None"
proof (rule ccontr)
  assume "g (key n) \<noteq> None"
  then have "key n \<in> key ` {lo..hi}" using assms(1) by (auto simp: contents_ok_def)
  with assms show False by (auto simp: key_inject)
qed

lemma Ack_inv:
  assumes E: "bolt_ok E" and s: "queue_inv W E s" and ack: "Ack E ob s n mid = Inr s'"
  shows "queue_inv W E s'"
proof -
  define x g where "x = st s" and "g = bk_get E (items s)"
  define e0 where "e0 = (if s_EarliestSeq x = 0 then 1 else s_EarliestSeq x)"
  note inv = queue_invD [OF s, folded x_def g_def]
  from ack obtain v b e archive where n: "n = Suc (s_DeliveredSeq x)" "n \<le> s_ReadySeq x"
    and v: "g (key n) = Some v"
    and ev: "evict E (replayAge s) (replayBytes s) (ob_now ob) n (items s) e0 (s_ArchiveBytes x + int (blen E v)) = Inr (b, e, archive)"
    and s': "s' = s\<lparr>items := b, st := x\<lparr>s_Bytes := s_Bytes x - int (blen E v), s_ArchiveBytes := archive,
                s_DeliveredSeq := n, s_EarliestSeq := e\<rparr>\<rparr>"
    unfolding x_def g_def e0_def by (elim Ack_Inr)
  let ?lo = "earliest x" and ?hi = "s_NextSeq x"
  have bnd: "?lo \<le> n" "n \<le> ?hi" "?hi < seq_limit" "Suc n < seq_limit" "e0 \<le> ?lo" "1 \<le> e0"
    using inv(1) n by (auto simp: counters_ok_def earliest_def e0_def)
  from evict_spec [OF E _ _ ev] bnd have e: "e0 \<le> e" "e \<le> Suc n"
    and b: "bk_get E b = (\<lambda>k. if k \<in> key ` {e0..<e} then None else g k)"
    and archive: "archive = s_ArchiveBytes x + int (blen E v) - (\<Sum>i\<in>{e0..<e}. ilen E g i)"
    and stop: "e \<le> n \<Longrightarrow> bk_get E b (key e) \<noteq> None"
    by (auto simp: g_def)
  have lo: "?lo \<le> e"
  proof (rule ccontr)
    assume "\<not> ?lo \<le> e"
    with absent_below [OF inv(2), of e] bnd stop show False by (auto simp: b split: if_splits)
  qed
  have keep: "bk_get E b (key i) = g (key i)" if "e \<le> i" "i \<le> ?hi" for i
    using that bnd e by (auto simp: b key_inject)
  have dom: "dom (bk_get E b) = key ` {e..?hi}"
  proof -
    have "dom g = key ` {?lo..?hi}" using inv(2) by (simp add: contents_ok_def)
    moreover have "dom (bk_get E b) = dom g - key ` {e0..<e}" by (auto simp: b split: if_splits)
    moreover have "key ` {?lo..?hi} - key ` {e0..<e} = key ` {e..?hi}"
      using bnd e lo by (auto simp: key_inject image_iff)
    ultimately show ?thesis by simp
  qed
  have con: "contents_ok W E (s_SourceID x) (s_Generation x) e ?hi (bk_get E b)"
    by (rule contents_sub [OF inv(2) bnd(3) lo order_refl dom]) (simp add: keep)
  have vn: "ilen E g n = int (blen E v)" by (simp add: ilen_def v)
  have split_out: "{s_DeliveredSeq x<..?hi} = insert n {n<..?hi}" using n bnd by auto
  have "(\<Sum>i\<in>{n<..?hi}. ilen E (bk_get E b) i) = (\<Sum>i\<in>{n<..?hi}. ilen E g i)"
    using e by (intro sum_ilen_cong) (auto simp: keep)
  moreover have "(\<Sum>i\<in>{s_DeliveredSeq x<..?hi}. ilen E g i) = int (blen E v) + (\<Sum>i\<in>{n<..?hi}. ilen E g i)"
    by (simp add: split_out ilen_def v)
  moreover have "(\<Sum>i\<in>{e..n}. ilen E (bk_get E b) i) = (\<Sum>i\<in>{e..n}. ilen E g i)"
    using bnd by (intro sum_ilen_cong) (auto simp: keep)
  moreover have "(\<Sum>i\<in>{?lo..s_DeliveredSeq x}. ilen E g i) + int (blen E v) - (\<Sum>i\<in>{e0..<e}. ilen E g i) =
     (\<Sum>i\<in>{e..n}. ilen E g i)"
  proof -
    have "(\<Sum>i\<in>{e0..<?lo}. ilen E g i) = 0"
      using absent_below [OF inv(2)] bnd by (intro sum.neutral) (auto simp: ilen_def)
    moreover have "{e0..<e} = {e0..<?lo} \<union> {?lo..<e}" using bnd lo by auto
    ultimately have cut: "(\<Sum>i\<in>{e0..<e}. ilen E g i) = (\<Sum>i\<in>{?lo..<e}. ilen E g i)"
      by (simp add: sum.union_disjoint ivl_disj_int)
    have "{?lo..n} = insert n {?lo..s_DeliveredSeq x}" using n bnd by auto
    then have "(\<Sum>i\<in>{?lo..n}. ilen E g i) = (\<Sum>i\<in>{?lo..s_DeliveredSeq x}. ilen E g i) + int (blen E v)"
      using n(1) vn by (simp del: sum.cl_ivl_Suc)
    moreover have "{?lo..n} = {?lo..<e} \<union> {e..n}" using lo e by auto
    then have "(\<Sum>i\<in>{?lo..n}. ilen E g i) = (\<Sum>i\<in>{?lo..<e}. ilen E g i) + (\<Sum>i\<in>{e..n}. ilen E g i)"
      by (simp add: sum.union_disjoint ivl_disj_int)
    ultimately show ?thesis using cut by simp
  qed
  moreover have e1: "earliest (x\<lparr>s_Bytes := y, s_ArchiveBytes := archive, s_DeliveredSeq := n, s_EarliestSeq := e\<rparr>) = e" for y
    using e bnd by (simp add: earliest_def)
  ultimately have "bytes_ok E (x\<lparr>s_Bytes := s_Bytes x - int (blen E v), s_ArchiveBytes := archive,
      s_DeliveredSeq := n, s_EarliestSeq := e\<rparr>) (bk_get E b)"
    using inv(3) by (simp add: bytes_ok_def archive)
  with con e e1 n show ?thesis using inv(1) by (simp add: queue_inv_def s' counters_ok_def)
qed


section \<open>The snapshot boundary\<close>

lemma finalize_loop_spec:
  assumes E: "bolt_ok E" and fin: "finalize_loop E lim lsn ns bytes b = Inr (bytes', b')"
    and ns: "distinct ns" "\<forall>n\<in>set ns. n < seq_limit"
  shows "(\<forall>k. k \<notin> key ` set ns \<longrightarrow> bk_get E b' k = bk_get E b k) \<and>
    (\<forall>n\<in>set ns. \<exists>v m u. bk_get E b (key n) = Some v \<and> unmarshal E v = Inr m \<and>
        marshal E (m\<lparr>m_LSN := lsn\<rparr>) = Inr u \<and> bk_get E b' (key n) = Some u) \<and>
    bytes' = bytes + (\<Sum>n\<in>set ns. ilen E (bk_get E b') n) \<and> (bytes \<le> lim \<longrightarrow> bytes' \<le> lim)"
  using fin ns
proof (induction ns arbitrary: bytes b)
  case Nil
  then show ?case by simp
next
  case (Cons n ns)
  from Cons.prems(1) obtain v m u b1 where v: "bk_get E b (key n) = Some v" "unmarshal E v = Inr m"
      "marshal E (m\<lparr>m_LSN := lsn\<rparr>) = Inr u" "bytes + int (blen E u) \<le> lim" and b1: "bk_put E b (key n) u = Inr b1"
    and rest: "finalize_loop E lim lsn ns (bytes + int (blen E u)) b1 = Inr (bytes', b')"
    by (auto split: option.splits sum.splits if_splits)
  have g1: "bk_get E b1 = (bk_get E b)(key n \<mapsto> u)" by (rule bolt_ok_put [OF E b1])
  have IH: "\<forall>k. k \<notin> key ` set ns \<longrightarrow> bk_get E b' k = bk_get E b1 k"
    "\<forall>n\<in>set ns. \<exists>v m u. bk_get E b1 (key n) = Some v \<and> unmarshal E v = Inr m \<and>
        marshal E (m\<lparr>m_LSN := lsn\<rparr>) = Inr u \<and> bk_get E b' (key n) = Some u"
    "bytes' = bytes + int (blen E u) + (\<Sum>n\<in>set ns. ilen E (bk_get E b') n)" "bytes' \<le> lim"
    using Cons.IH [OF rest] Cons.prems(2,3) v(4) by auto
  have fresh: "key n \<notin> key ` set ns" using Cons.prems(2,3) by (auto simp: key_inject)
  have n': "bk_get E b' (key n) = Some u" using IH(1) fresh by (simp add: g1)
  have other: "bk_get E b1 (key i) = bk_get E b (key i)" if "i \<in> set ns" for i
  proof -
    have "key i \<noteq> key n" using that fresh by (metis imageI)
    then show ?thesis by (simp add: g1)
  qed
  have "\<forall>k. k \<notin> key ` set (n # ns) \<longrightarrow> bk_get E b' k = bk_get E b k"
    using IH(1) by (simp add: g1)
  moreover have "\<forall>i\<in>set (n # ns). \<exists>v m u. bk_get E b (key i) = Some v \<and> unmarshal E v = Inr m \<and>
        marshal E (m\<lparr>m_LSN := lsn\<rparr>) = Inr u \<and> bk_get E b' (key i) = Some u"
    using IH(2) [unfolded Ball_def] other v(1-3) n' by (metis set_ConsD)
  moreover have "bytes' = bytes + (\<Sum>n\<in>set (n # ns). ilen E (bk_get E b') n)"
    using Cons.prems(2) IH(3) n' by (simp add: ilen_def)
  ultimately show ?case using IH(4) by blast
qed

lemma finalize_contents:
  assumes E: "bolt_ok E" "codec_ok W E" and W: "\<forall>m\<in>W. m\<lparr>m_LSN := lsn\<rparr> \<in> W"
    and con: "contents_ok W E src gen 1 hi (bk_get E b)" and hi: "hi < seq_limit"
    and fin: "finalize_loop E lim lsn [1..<Suc hi] 0 b = Inr (bytes, b')"
  shows "contents_ok W E src gen 1 hi (bk_get E b')"
    and "bytes = (\<Sum>n\<in>{0<..hi}. ilen E (bk_get E b') n)"
    and "\<And>n. 1 \<le> n \<Longrightarrow> n \<le> hi \<Longrightarrow> \<exists>v u m. bk_get E b (key n) = Some v \<and> unmarshal E v = Inr m \<and>
           bk_get E b' (key n) = Some u \<and> unmarshal E u = Inr (m\<lparr>m_LSN := lsn\<rparr>)"
proof -
  have ns: "distinct [1..<Suc hi]" "\<forall>n\<in>set [1..<Suc hi]. n < seq_limit" using hi by auto
  note spec0 = finalize_loop_spec [OF E(1) fin ns]
  note spec = spec0 [THEN conjunct1] spec0 [THEN conjunct2, THEN conjunct1]
    spec0 [THEN conjunct2, THEN conjunct2, THEN conjunct1]
  have range: "set [1..<Suc hi] = {1..hi}" "{0<..hi} = {1..hi}" by auto
  have upd: "\<exists>v m u. bk_get E b (key n) = Some v \<and> unmarshal E v = Inr m \<and> m \<in> W \<and>
      envelope_ok W E src gen n u \<and> bk_get E b' (key n) = Some u \<and> unmarshal E u = Inr (m\<lparr>m_LSN := lsn\<rparr>)"
    if n: "1 \<le> n" "n \<le> hi" for n
  proof -
    have "n \<in> set [1..<Suc hi]" using n by auto
    from spec(2) [THEN bspec, OF this] obtain v m u where v: "bk_get E b (key n) = Some v" "unmarshal E v = Inr m"
      "marshal E (m\<lparr>m_LSN := lsn\<rparr>) = Inr u" "bk_get E b' (key n) = Some u" by blast
    obtain v' m' where "bk_get E b (key n) = Some v'" "unmarshal E v' = Inr m'" "m' \<in> W" "m_Seq m' = n"
      "m_SourceID m' = src" "m_Generation m' = gen" "m_ID m' = message_id src gen n"
      by (rule contents_Some [OF con n])
    with v(1,2) have m: "m \<in> W" "m_Seq m = n" "m_SourceID m = src"
      "m_Generation m = gen" "m_ID m = message_id src gen n" by auto
    then have "unmarshal E u = Inr (m\<lparr>m_LSN := lsn\<rparr>)" using W codec_okD [OF E(2) _ v(3)] by simp
    with v m W show ?thesis by (auto simp: envelope_ok_def)
  qed
  show "bytes = (\<Sum>n\<in>{0<..hi}. ilen E (bk_get E b') n)" using spec(3) by (simp only: range)
  show "\<exists>v u m. bk_get E b (key n) = Some v \<and> unmarshal E v = Inr m \<and>
           bk_get E b' (key n) = Some u \<and> unmarshal E u = Inr (m\<lparr>m_LSN := lsn\<rparr>)" if "1 \<le> n" "n \<le> hi" for n
    using upd [OF that] by blast
  have "dom (bk_get E b') = dom (bk_get E b)"
  proof (intro set_eqI)
    fix k
    show "k \<in> dom (bk_get E b') \<longleftrightarrow> k \<in> dom (bk_get E b)"
    proof (cases "k \<in> key ` {1..hi}")
      case True
      with upd show ?thesis by fastforce
    next
      case False
      with spec(1) range show ?thesis by (simp add: domIff)
    qed
  qed
  then show "contents_ok W E src gen 1 hi (bk_get E b')"
    using con upd unfolding contents_ok_def by (metis option.inject)
qed

lemma FinalizeSnapshotLSN_Inr:
  assumes "FinalizeSnapshotLSN E ob s lsn = Inr s'"
  obtains bytes b where "s_Phase (st s) = ''snapshot''" "s_ReadySeq (st s) = 0"
    "finalize_loop E (maxBytes s) lsn [1..<Suc (s_NextSeq (st s))] 0 (items s) = Inr (bytes, b)"
    "s' = s\<lparr>items := b, st := (st s)\<lparr>s_Bytes := bytes, s_SnapshotLSN := lsn\<rparr>\<rparr>"
  using assms unfolding FinalizeSnapshotLSN_def
  by (simp split: if_splits sum.splits prod.splits)

lemma FinalizeSnapshotLSN_inv:
  assumes E: "bolt_ok E" "codec_ok W E" and W: "\<forall>m\<in>W. m\<lparr>m_LSN := lsn\<rparr> \<in> W"
    and s: "queue_inv W E s" and fin: "FinalizeSnapshotLSN E ob s lsn = Inr s'"
  shows "queue_inv W E s'"
proof -
  from fin obtain bytes b where ready: "s_ReadySeq (st s) = 0"
    and loop: "finalize_loop E (maxBytes s) lsn [1..<Suc (s_NextSeq (st s))] 0 (items s) = Inr (bytes, b)"
    and s': "s' = s\<lparr>items := b, st := (st s)\<lparr>s_Bytes := bytes, s_SnapshotLSN := lsn\<rparr>\<rparr>"
    by (rule FinalizeSnapshotLSN_Inr)
  note inv = queue_invD [OF s]
  have c: "s_DeliveredSeq (st s) = 0" "earliest (st s) = 1" "s_NextSeq (st s) < seq_limit"
    using inv(1) ready earliest_pos [of "st s"] by (auto simp: counters_ok_def)
  note fc = finalize_contents [OF E W inv(2) [unfolded c(2)] c(3) loop]
  show ?thesis using inv(1,3) fc(1,2) by (simp add: queue_inv_def s' c counters_ok_def bytes_ok_def)
qed

end
