(* ===== verification/Sample.thy ===== *)
theory Sample
  imports Queue "HOL-Library.AList"
begin

text \<open>
  One instance of the parameters of the queue, on which statements with the laws of the parameters as
  hypotheses are applied: the encoded text of a message is the message, and a bucket is an
  association list.
\<close>

definition alist_from :: "(string \<times> 'v) list \<Rightarrow> string \<Rightarrow> (string \<times> 'v) list" where
  "alist_from b k = map (\<lambda>x. (x, the (map_of b x))) (sort (remdups (filter (\<lambda>x. k \<le> x) (map fst b))))"

definition sample_env :: "(Message, (string \<times> Message) list) qenv" where
  "sample_env =
     \<lparr>marshal = Inr, unmarshal = Inr, blen = (\<lambda>m. 100 + 50 * length (m_Rows m)),
      unmarshal_created = (\<lambda>m. Inr (m_CreatedAt m)),
      marshal_row = (\<lambda>r. Inr (zero_Message\<lparr>m_Rows := [r]\<rparr>)), unmarshal_row = (\<lambda>m. Inr (hd (m_Rows m))),
      json_string = (\<lambda>s. Inr (butlast (tl s))), json_Valid = (\<lambda>s. s \<noteq> []),
      bk_new = [], bk_get = map_of, bk_put = (\<lambda>b k v. Inr (AList.update k v b)),
      bk_delete = (\<lambda>b k. Inr (AList.delete k b)), bk_from = alist_from, bk_recreate = (\<lambda>b. Inr []),
      format_time = (\<lambda>t. dec (nat t)), parse_time = (\<lambda>s. Some (int (undec s)))\<rparr>"

lemma alist_from_ok:
  "distinct (map fst (alist_from b k))"
  "set (alist_from b k) = {(k', v). map_of b k' = Some v \<and> k \<le> k'}"
proof -
  have "map fst (alist_from b k) = sort (remdups (filter (\<lambda>x. k \<le> x) (map fst b)))"
    by (simp add: alist_from_def comp_def)
  then show "distinct (map fst (alist_from b k))" by simp
  have "x \<in> fst ` set b \<longleftrightarrow> (\<exists>v. map_of b x = Some v)" for x
    by (metis map_of_eq_None_iff not_None_eq)
  then show "set (alist_from b k) = {(k', v). map_of b k' = Some v \<and> k \<le> k'}"
    by (auto simp: alist_from_def image_iff)
qed

lemma sample_bolt: "bolt_ok sample_env"
  by (auto simp: bolt_ok_def sample_env_def alist_from_ok update_conv' delete_conv')

lemma sample_codec: "codec_ok W sample_env"
  by (auto simp: codec_ok_def sample_env_def)

definition sample_obs :: obs where
  "sample_obs = \<lparr>ob_free = Inr 1000000, ob_now = 5, ob_commit = None\<rparr>"

definition sample_store :: "(string \<times> Message) list Store" where
  "sample_store = \<lparr>st = zero_State\<lparr>s_SourceID := ''src'', s_Generation := ''g1'', s_Phase := ''stream'', s_EarliestSeq := 1\<rparr>,
     items = [], maxBytes = 1000, reserve = 10, replayAge = 100, replayBytes = 120\<rparr>"

definition sample_row :: Row where
  "sample_row = zero_Row\<lparr>r_Schema := ''public'', r_Table := ''t'', r_Operation := ''insert''\<rparr>"

definition sample_message :: Message where
  "sample_message = (kind_msg ''transaction_rows'')\<lparr>m_Transaction := ''7'', m_Rows := [sample_row]\<rparr>"

text \<open>A store after two appended and published messages.\<close>

definition sample_append :: "(string \<times> Message) list Store \<Rightarrow> (string \<times> Message) list Store" where
  "sample_append s = projr (Append sample_env sample_obs s sample_message)"

definition sample_full :: "(string \<times> Message) list Store" where
  "sample_full = projr (Publish sample_obs (sample_append (sample_append sample_store)) ''0/10'' False)"

lemmas sample_defs = sample_env_def sample_obs_def sample_store_def sample_row_def sample_message_def
  kind_msg_def zero_Message_def zero_Row_def zero_State_def

lemma sample_append_ok: "Append sample_env sample_obs sample_store sample_message = Inr (sample_append sample_store)"
  by (simp add: sample_append_def Append_def Update_def Let_def sample_defs stamp_def)

lemma sample_append_ok2: "Append sample_env sample_obs (sample_append sample_store) sample_message =
   Inr (sample_append (sample_append sample_store))"
  by (simp add: sample_append_def Append_def Update_def Let_def sample_defs stamp_def)

lemma sample_publish_ok:
  "PublishSource sample_obs (sample_append (sample_append sample_store)) ''0/10'' False '''' = Inr sample_full"
  by (simp add: sample_full_def PublishSource_def Publish_def Update_def sample_obs_def)

definition sample_new :: "(string \<times> Message) list Store" where
  "sample_new = projr (Open sample_env (\<lambda>_. None) sample_obs None 1000 10)"

lemma sample_new_ok: "Open sample_env (\<lambda>_. None) sample_obs None 1000 10 = Inr sample_new"
  by (simp add: sample_new_def Open_def Update_def sample_obs_def)

lemma sample_new_append: "Append sample_env sample_obs sample_new sample_message = Inr (sample_append sample_new)"
  by (simp add: sample_append_def sample_new_def Open_def Append_def Update_def Let_def sample_defs stamp_def)

definition sample_acked :: "(string \<times> Message) list Store" where
  "sample_acked = projr (Ack sample_env sample_obs sample_full 1 ''src/g1/1'')"

end
