(* ===== verification/Queue_Refinement.thy ===== *)
theory Queue_Refinement
  imports Queue_Invariant Sample
begin

text \<open>
  The queue as an abstract value, the lists of published and of staged messages: every operation
  refines an operation on these lists, along runs that interleave all of them with crashes.  The
  contract of the queue towards its clients is the locale \<open>outbox\<close>.
\<close>

section \<open>The abstract queue\<close>

text \<open>
  What the rest of the collector sees of a store: the published messages not yet acknowledged, and
  the staged ones that \<open>Append\<close> wrote since the last publication.
\<close>

record aqueue =
  aq_published :: "Message list"
  aq_staged :: "Message list"

definition msg_at :: "('v, 'b, 'z) qenv_scheme \<Rightarrow> 'b \<Rightarrow> nat \<Rightarrow> Message" where
  "msg_at E b n = (case fetch E b n of Inl _ \<Rightarrow> zero_Message | Inr (m, _) \<Rightarrow> m)"

definition published :: "('v, 'b, 'z) qenv_scheme \<Rightarrow> 'b Store \<Rightarrow> Message list" where
  "published E s = map (msg_at E (items s)) [Suc (s_DeliveredSeq (st s))..<Suc (s_ReadySeq (st s))]"

definition staged :: "('v, 'b, 'z) qenv_scheme \<Rightarrow> 'b Store \<Rightarrow> Message list" where
  "staged E s = map (msg_at E (items s)) [Suc (s_ReadySeq (st s))..<Suc (s_NextSeq (st s))]"

definition abs_queue :: "('v, 'b, 'z) qenv_scheme \<Rightarrow> 'b Store \<Rightarrow> aqueue" where
  "abs_queue E s = \<lparr>aq_published = published E s, aq_staged = staged E s\<rparr>"

text \<open>The operations of the abstract queue; \<^const>\<open>None\<close> is an operation that it does not allow.\<close>

datatype qop =
    QAppend Message
  | QPublish
  | QRecover
  | QAck nat string
  | QReset
  | QFinalize string
  | QMeta

fun aq_step :: "qop \<Rightarrow> aqueue \<Rightarrow> aqueue option" where
  "aq_step (QAppend m) q = Some (q\<lparr>aq_staged := aq_staged q @ [m]\<rparr>)"
| "aq_step QPublish q = Some \<lparr>aq_published = aq_published q @ aq_staged q, aq_staged = []\<rparr>"
| "aq_step QRecover q = Some (q\<lparr>aq_staged := []\<rparr>)"
| "aq_step (QAck n mid) q =
     (case aq_published q of
        [] \<Rightarrow> None
      | m # ms \<Rightarrow> if m_Seq m = n \<and> m_ID m = mid then Some (q\<lparr>aq_published := ms\<rparr>) else None)"
| "aq_step QReset q = Some \<lparr>aq_published = [], aq_staged = []\<rparr>"
| "aq_step (QFinalize lsn) q =
     (if aq_published q = [] then Some (q\<lparr>aq_staged := map (\<lambda>m. m\<lparr>m_LSN := lsn\<rparr>) (aq_staged q)\<rparr>) else None)"
| "aq_step QMeta q = Some q"

lemma msg_at_cong: "bk_get E b' (key n) = bk_get E b (key n) \<Longrightarrow> msg_at E b' n = msg_at E b n"
  by (simp add: msg_at_def fetch_def)

lemma msg_at_Some: "bk_get E b (key n) = Some v \<Longrightarrow> unmarshal E v = Inr m \<Longrightarrow> msg_at E b n = m"
  by (simp add: msg_at_def fetch_def)

lemma msg_at_contents:
  assumes "contents_ok W E src gen lo hi (bk_get E b)" "lo \<le> n" "n \<le> hi"
  shows "\<exists>v. fetch E b n = Inr (msg_at E b n, v)" "msg_at E b n \<in> W" "m_Seq (msg_at E b n) = n"
    "m_SourceID (msg_at E b n) = src" "m_Generation (msg_at E b n) = gen"
    "m_ID (msg_at E b n) = message_id src gen n"
proof -
  obtain v m where v: "bk_get E b (key n) = Some v" "unmarshal E v = Inr m" "m \<in> W" "m_Seq m = n"
    "m_SourceID m = src" "m_Generation m = gen" "m_ID m = message_id src gen n"
    by (rule contents_Some [OF assms])
  then have "msg_at E b n = m" by (simp add: msg_at_Some)
  with v show "\<exists>v. fetch E b n = Inr (msg_at E b n, v)" "msg_at E b n \<in> W" "m_Seq (msg_at E b n) = n"
    "m_SourceID (msg_at E b n) = src" "m_Generation (msg_at E b n) = gen"
    "m_ID (msg_at E b n) = message_id src gen n" by (auto simp: fetch_def)
qed

lemma published_Nil [simp]: "s_ReadySeq (st s) \<le> s_DeliveredSeq (st s) \<Longrightarrow> published E s = []"
  by (simp add: published_def)

lemma published_Cons:
  assumes "s_DeliveredSeq (st s) < s_ReadySeq (st s)"
  shows "published E s = msg_at E (items s) (Suc (s_DeliveredSeq (st s))) #
    map (msg_at E (items s)) [Suc (Suc (s_DeliveredSeq (st s)))..<Suc (s_ReadySeq (st s))]"
  using assms by (simp add: published_def upt_conv_Cons del: upt_Suc)

lemma published_seqs:
  assumes "queue_inv W E s"
  shows "map m_Seq (published E s) = [Suc (s_DeliveredSeq (st s))..<Suc (s_ReadySeq (st s))]"
proof -
  note inv = queue_invD [OF assms]
  have "m_Seq (msg_at E (items s) n) = n" if "n \<in> set [Suc (s_DeliveredSeq (st s))..<Suc (s_ReadySeq (st s))]" for n
    using that inv(1) by (intro msg_at_contents(3) [OF inv(2)]) (auto simp: counters_ok_def)
  then show ?thesis unfolding published_def map_map by (intro map_idI) simp
qed

section \<open>Refinement\<close>

lemma abs_queueI: "published E s = p \<Longrightarrow> staged E s = q \<Longrightarrow> abs_queue E s = \<lparr>aq_published = p, aq_staged = q\<rparr>"
  by (simp add: abs_queue_def)

lemma map_msg_at_cong:
  "(\<And>n. n \<in> set ns \<Longrightarrow> bk_get E b' (key n) = bk_get E b (key n)) \<Longrightarrow> map (msg_at E b') ns = map (msg_at E b) ns"
  by (auto intro: msg_at_cong)

lemma Append_abs:
  assumes E: "bolt_ok E" "codec_ok W E" and s: "queue_inv W E s"
    and W: "stamp (st s) (format_time E (ob_now ob)) m \<in> W"
    and app: "Append E ob s m = Inr s'"
  shows "published E s' = published E s" "staged E s' = staged E s @ [stamp (st s) (format_time E (ob_now ob)) m]"
proof -
  define x n where "x = st s" and "n = Suc (s_NextSeq x)"
  from app obtain b bucket where b: "marshal E (stamp x (format_time E (ob_now ob)) m) = Inr b"
    and put: "bk_put E (items s) (key n) b = Inr bucket"
    and s': "s' = s\<lparr>items := bucket, st := x\<lparr>s_NextSeq := n, s_Bytes := s_Bytes x + int (blen E b)\<rparr>\<rparr>"
    unfolding x_def n_def by (elim Append_Inr)
  have get: "bk_get E bucket = (bk_get E (items s))(key n \<mapsto> b)" by (rule bolt_ok_put [OF E(1) put])
  have ord: "s_ReadySeq x < n" "n < seq_limit" using queue_invD(1) [OF s] by (auto simp: counters_ok_def x_def n_def)
  have same: "bk_get E bucket (key i) = bk_get E (items s) (key i)" if "i < n" for i
    using that ord by (simp add: get key_inject)
  have new: "msg_at E bucket n = stamp x (format_time E (ob_now ob)) m"
    using codec_okD [OF E(2) _ b] W by (intro msg_at_Some) (auto simp: get x_def)
  show "published E s' = published E s"
    using ord unfolding published_def by (simp add: s' x_def [symmetric] del: upt_Suc) (auto intro!: msg_at_cong same)
  have "[Suc (s_ReadySeq x)..<Suc n] = [Suc (s_ReadySeq x)..<n] @ [n]" using ord by simp
  then show "staged E s' = staged E s @ [stamp (st s) (format_time E (ob_now ob)) m]"
    unfolding staged_def by (simp add: s' x_def [symmetric] new n_def [symmetric] del: upt_Suc)
      (auto intro!: msg_at_cong same simp: n_def)
qed

lemma publish_abs:
  assumes "queue_inv W E s" "items s' = items s" "s_DeliveredSeq (st s') = s_DeliveredSeq (st s)"
    "s_NextSeq (st s') = s_NextSeq (st s)" "s_ReadySeq (st s') = s_NextSeq (st s)"
  shows "published E s' = published E s @ staged E s" "staged E s' = []"
  using assms queue_invD(1) [OF assms(1)]
  by (simp_all add: published_def staged_def counters_ok_def map_append [symmetric] upt_split [symmetric] del: upt_Suc map_append)

lemma Recover_abs:
  assumes E: "bolt_ok E" and s: "queue_inv W E s" and rec: "Recover E ob s = Inr s'"
  shows "published E s' = published E s" "staged E s' = []"
proof -
  define r where "r = s_ReadySeq (st s)"
  note inv = queue_invD [OF s]
  from rec obtain bytes b where
    loop: "recover_loop E (bk_from E (items s) (key (Suc r))) (s_Bytes (st s)) (items s) = Inr (bytes, b)"
    and s': "s' = s\<lparr>items := b, st := (st s)\<lparr>s_Bytes := bytes, s_NextSeq := r\<rparr>\<rparr>"
    by (auto simp: Recover_def r_def split: sum.splits)
  have bnd: "Suc r < seq_limit" "s_NextSeq (st s) < seq_limit" "earliest (st s) \<le> Suc r"
    using inv(1) by (auto simp: counters_ok_def r_def)
  have "bk_get E b (key n) = bk_get E (items s) (key n)" if "n \<le> r" for n
    using that bnd recover_loop_spec [OF E loop] by (auto simp: seek_contents(1) [OF E inv(2) bnd] key_inject)
  then show "published E s' = published E s"
    unfolding published_def by (simp add: s' r_def [symmetric] del: upt_Suc) (auto intro!: msg_at_cong)
  show "staged E s' = []" by (simp add: staged_def s' r_def)
qed

lemma Ack_abs:
  assumes E: "bolt_ok E" and s: "queue_inv W E s" and ack: "Ack E ob s n mid = Inr s'"
  shows "\<exists>m. published E s = m # published E s' \<and> m_Seq m = n \<and> m_ID m = mid" "staged E s' = staged E s"
proof -
  define x e0 where "x = st s" and "e0 = (if s_EarliestSeq x = 0 then 1 else s_EarliestSeq x)"
  note inv = queue_invD [OF s, folded x_def]
  from ack obtain v m b e archive where n: "n = Suc (s_DeliveredSeq x)" "n \<le> s_ReadySeq x"
    and v: "bk_get E (items s) (key n) = Some v" "unmarshal E v = Inr m" "m_ID m = mid"
    and ev: "evict E (replayAge s) (replayBytes s) (ob_now ob) n (items s) e0 (s_ArchiveBytes x + int (blen E v)) = Inr (b, e, archive)"
    and s': "s' = s\<lparr>items := b, st := x\<lparr>s_Bytes := s_Bytes x - int (blen E v), s_ArchiveBytes := archive,
                s_DeliveredSeq := n, s_EarliestSeq := e\<rparr>\<rparr>"
    unfolding x_def e0_def by (elim Ack_Inr)
  have bnd: "Suc n < seq_limit" "e0 \<le> Suc n" "earliest x \<le> n" "s_NextSeq x < seq_limit" "n \<le> s_NextSeq x" "s_ReadySeq x \<le> s_NextSeq x"
    using inv(1) n by (auto simp: counters_ok_def earliest_def e0_def split: if_splits)
  have same: "bk_get E b (key i) = bk_get E (items s) (key i)" if "n < i" "i \<le> s_NextSeq x" for i
    using that bnd evict_spec [OF E bnd(1,2) ev] by (auto simp: key_inject)
  have "m_Seq (msg_at E (items s) n) = n"
    by (rule msg_at_contents(3) [OF inv(2) bnd(3,5)])
  moreover have "msg_at E (items s) n = m" by (rule msg_at_Some [OF v(1,2)])
  moreover have "published E s = msg_at E (items s) n # published E s'"
    using n bnd published_Cons [of s E] unfolding published_def
    by (simp add: s' x_def [symmetric] del: upt_Suc) (auto intro!: msg_at_cong same [symmetric])
  ultimately show "\<exists>m. published E s = m # published E s' \<and> m_Seq m = n \<and> m_ID m = mid" using v(3) by auto
  show "staged E s' = staged E s"
    using n bnd unfolding staged_def by (simp add: s' x_def [symmetric] del: upt_Suc) (auto intro!: msg_at_cong same)
qed

lemma payload_stamp [simp]: "payload (stamp x now m) = payload m"
  by (simp add: payload_def stamp_def)

lemma empty_abs:
  assumes "s_NextSeq (st s) = 0" "s_ReadySeq (st s) = 0" "s_DeliveredSeq (st s) = 0"
  shows "published E s = []" "staged E s = []"
  using assms by (simp_all add: published_def staged_def)

lemma FinalizeSnapshotLSN_abs:
  assumes E: "bolt_ok E" "codec_ok W E" and W: "\<forall>m\<in>W. m\<lparr>m_LSN := lsn\<rparr> \<in> W"
    and s: "queue_inv W E s" and fin: "FinalizeSnapshotLSN E ob s lsn = Inr s'"
  shows "published E s = []" "published E s' = []"
    "staged E s' = map (\<lambda>m. m\<lparr>m_LSN := lsn\<rparr>) (staged E s)"
proof -
  from fin obtain bytes b where ready: "s_ReadySeq (st s) = 0"
    and loop: "finalize_loop E (maxBytes s) lsn [1..<Suc (s_NextSeq (st s))] 0 (items s) = Inr (bytes, b)"
    and s': "s' = s\<lparr>items := b, st := (st s)\<lparr>s_Bytes := bytes, s_SnapshotLSN := lsn\<rparr>\<rparr>"
    by (rule FinalizeSnapshotLSN_Inr)
  note inv = queue_invD [OF s]
  have c: "s_DeliveredSeq (st s) = 0" "earliest (st s) = 1" "s_NextSeq (st s) < seq_limit"
    using inv(1) ready earliest_pos [of "st s"] by (auto simp: counters_ok_def)
  note fc = finalize_contents(3) [OF E W inv(2) [unfolded c(2)] c(3) loop]
  have "msg_at E b n = (msg_at E (items s) n)\<lparr>m_LSN := lsn\<rparr>" if "1 \<le> n" "n \<le> s_NextSeq (st s)" for n
    using fc [OF that] by (auto simp: msg_at_Some)
  then show "staged E s' = map (\<lambda>m. m\<lparr>m_LSN := lsn\<rparr>) (staged E s)"
    by (simp add: staged_def s' ready del: upt_Suc)
  show "published E s = []" "published E s' = []" by (simp_all add: s' ready)
qed

section \<open>Runs\<close>

text \<open>
  One committed operation of the queue.  A crash is \<open>reopen\<close>: the store is opened again on what the
  last commit left.
\<close>

inductive qstep ::
  "Message set \<Rightarrow> ('v, 'b, 'z) qenv_scheme \<Rightarrow> 'b Store \<Rightarrow> qop \<Rightarrow> 'b Store \<Rightarrow> bool" for W E where
  append: "Append E ob s m = Inr s' \<Longrightarrow> stamp (st s) (format_time E (ob_now ob)) m \<in> W \<Longrightarrow>
     Suc (Suc (s_NextSeq (st s))) < seq_limit \<Longrightarrow>
     qstep W E s (QAppend (stamp (st s) (format_time E (ob_now ob)) m)) s'"
| publish: "PublishSource ob s lsn sealSnapshot cleanup = Inr s' \<Longrightarrow> qstep W E s QPublish s'"
| schema: "PublishSchema ob s lsn schemaHash = Inr s' \<Longrightarrow> qstep W E s QPublish s'"
| recover: "Recover E ob s = Inr s' \<Longrightarrow> qstep W E s QRecover s'"
| ack: "Ack E ob s n mid = Inr s' \<Longrightarrow> qstep W E s (QAck n mid) s'"
| reset: "ResetForSnapshot E ob s = Inr s' \<Longrightarrow> qstep W E s QReset s'"
| initialize: "Initialize E ob s new = Inr s' \<Longrightarrow> qstep W E s QReset s'"
| finalize: "FinalizeSnapshotLSN E ob s lsn = Inr s' \<Longrightarrow> \<forall>m\<in>W. m\<lparr>m_LSN := lsn\<rparr> \<in> W \<Longrightarrow>
     qstep W E s (QFinalize lsn) s'"
| point: "SnapshotPoint ob s lsn = Inr s' \<Longrightarrow> qstep W E s QMeta s'"
| cleanup: "ClearSourceCleanup ob s expected = Inr s' \<Longrightarrow> qstep W E s QMeta s'"
| replay: "s' = ConfigureReplay s maxAge maxB \<Longrightarrow> qstep W E s QMeta s'"
| reopen: "Open E io ob (Some (st s, items s)) maxB res = Inr s' \<Longrightarrow> qstep W E s QMeta s'"

inductive_cases qstep_AckE: "qstep W E s (QAck n mid) s'"

inductive qrun ::
  "Message set \<Rightarrow> ('v, 'b, 'z) qenv_scheme \<Rightarrow> 'b Store \<Rightarrow> qop list \<Rightarrow> 'b Store \<Rightarrow> bool" for W E s where
  start: "qrun W E s [] s"
| step: "qrun W E s ops s1 \<Longrightarrow> qstep W E s1 oper s2 \<Longrightarrow> qrun W E s (ops @ [oper]) s2"

lemma reopen_inv: "queue_inv W E s \<Longrightarrow> Open E io ob (Some (st s, items s)) maxB res = Inr s' \<Longrightarrow> queue_inv W E s'"
  by (erule queue_inv_meta) (auto simp: Open_def split: sum.splits)

lemma qstep_inv:
  assumes "bolt_ok E" "codec_ok W E" "qstep W E s oper s'" "queue_inv W E s"
  shows "queue_inv W E s'"
  using assms(3)
proof cases
  case (replay a b)
  then show ?thesis using assms by (simp add: ConfigureReplay_inv)
qed (use assms in \<open>blast intro: Append_inv PublishSource_inv PublishSchema_inv Recover_inv Ack_inv
    ResetForSnapshot_inv Initialize_inv FinalizeSnapshotLSN_inv SnapshotPoint_inv ClearSourceCleanup_inv reopen_inv\<close>)+

lemma qrun_inv:
  assumes "bolt_ok E" "codec_ok W E" "qrun W E s ops s'" "queue_inv W E s"
  shows "queue_inv W E s'"
  using assms(3,4) by (induction rule: qrun.induct) (auto intro: qstep_inv [OF assms(1,2)])

lemma meta_abs:
  assumes "items s' = items s" "s_DeliveredSeq (st s') = s_DeliveredSeq (st s)"
    "s_NextSeq (st s') = s_NextSeq (st s)" "s_ReadySeq (st s') = s_ReadySeq (st s)"
  shows "abs_queue E s' = abs_queue E s"
  using assms by (simp add: abs_queue_def published_def staged_def)

lemma qstep_refines:
  assumes E: "bolt_ok E" "codec_ok W E" and st: "qstep W E s oper s'" and s: "queue_inv W E s"
  shows "aq_step oper (abs_queue E s) = Some (abs_queue E s')"
  using st
proof cases
  case (append ob m)
  then show ?thesis using Append_abs [OF E s append(3,2)] by (simp add: abs_queue_def)
next
  case (publish ob lsn sl c)
  then show ?thesis
    using publish_abs [OF s, of s'] by (auto simp: abs_queue_def PublishSource_def split: if_splits)
next
  case (schema ob lsn h)
  then show ?thesis
    using publish_abs [OF s, of s'] by (auto simp: abs_queue_def PublishSchema_def split: if_splits)
next
  case (recover ob)
  then show ?thesis using Recover_abs [OF E(1) s recover(2)] by (simp add: abs_queue_def)
next
  case (ack ob n mid)
  then show ?thesis using Ack_abs [OF E(1) s ack(2)] by (auto simp: abs_queue_def)
next
  case (reset ob)
  then show ?thesis
    using empty_abs [of s' E] by (auto simp: abs_queue_def ResetForSnapshot_def split: if_splits sum.splits)
next
  case (initialize ob new)
  then show ?thesis
    using empty_abs [of s' E] by (auto simp: abs_queue_def Initialize_def split: if_splits sum.splits)
next
  case (finalize ob lsn)
  then show ?thesis using FinalizeSnapshotLSN_abs [OF E _ s finalize(2)] by (simp add: abs_queue_def)
next
  case (point ob lsn)
  then show ?thesis using meta_abs [of s' s E] by (auto simp: SnapshotPoint_def)
next
  case (cleanup ob t)
  then show ?thesis using meta_abs [of s' s E] by (auto simp: ClearSourceCleanup_def split: if_splits)
next
  case (replay a b)
  then show ?thesis using meta_abs [of s' s E] by (auto simp: ConfigureReplay_def)
next
  case (reopen io ob maxB r)
  then show ?thesis using meta_abs [of s' s E] by (auto simp: Open_def split: sum.splits)
qed

text \<open>The acknowledgements of a run, in order.\<close>

definition acks :: "qop list \<Rightarrow> (nat \<times> string) list" where
  "acks ops = concat (map (\<lambda>oper. case oper of QAck n mid \<Rightarrow> [(n, mid)] | _ \<Rightarrow> []) ops)"

lemma acks_simps [simp]:
  "acks [] = []"
  "acks (ops @ ops') = acks ops @ acks ops'"
  "acks [QAck n mid] = [(n, mid)]"
  by (simp_all add: acks_def)

lemma acks_other: "(\<And>n mid. oper \<noteq> QAck n mid) \<Longrightarrow> acks [oper] = []"
  by (cases oper) (auto simp: acks_def)


lemma qstep_identity:
  assumes "qstep W E s oper s'" "oper \<noteq> QReset"
  shows "s_SourceID (st s') = s_SourceID (st s) \<and> s_Generation (st s') = s_Generation (st s)"
  using assms
proof cases
  case (append ob m)
  then show ?thesis by (elim Append_Inr) simp
next
  case (ack ob n mid)
  from ack(2) show ?thesis by (elim Ack_Inr) simp
next
  case (finalize ob lsn)
  from finalize(2) show ?thesis by (elim FinalizeSnapshotLSN_Inr) simp
qed (auto simp: PublishSource_def PublishSchema_def Recover_def SnapshotPoint_def ClearSourceCleanup_def
    ConfigureReplay_def Open_def split: if_splits sum.splits)

lemma qstep_delivered:
  assumes "qstep W E s oper s'" "oper \<noteq> QReset" "\<And>n mid. oper \<noteq> QAck n mid"
  shows "s_DeliveredSeq (st s') = s_DeliveredSeq (st s)"
  using assms
proof cases
  case (append ob m)
  then show ?thesis by (elim Append_Inr) simp
next
  case (finalize ob lsn)
  from finalize(2) show ?thesis by (elim FinalizeSnapshotLSN_Inr) simp
qed (auto simp: PublishSource_def PublishSchema_def Recover_def SnapshotPoint_def ClearSourceCleanup_def
    ConfigureReplay_def Open_def split: if_splits sum.splits)

lemma qstep_acked:
  assumes E: "bolt_ok E" and s: "queue_inv W E s" and a: "qstep W E s (QAck n mid) s'"
  shows "n = Suc (s_DeliveredSeq (st s)) \<and> s_DeliveredSeq (st s') = n \<and>
         mid = message_id (s_SourceID (st s)) (s_Generation (st s)) n"
proof -
  from a obtain ob where ack: "Ack E ob s n mid = Inr s'" by (elim qstep_AckE) blast
  from ack obtain v m where n: "n = Suc (s_DeliveredSeq (st s))" "n \<le> s_ReadySeq (st s)"
    and v: "bk_get E (items s) (key n) = Some v" "unmarshal E v = Inr m" "m_ID m = mid"
    and s': "s_DeliveredSeq (st s') = n"
    by (elim Ack_Inr) simp
  note inv = queue_invD [OF s]
  have "earliest (st s) \<le> n" "n \<le> s_NextSeq (st s)" using inv(1) n by (auto simp: counters_ok_def)
  from msg_at_contents(6) [OF inv(2) this] msg_at_Some [OF v(1,2)] v(3) n s' show ?thesis by simp
qed

text \<open>\<open>Peek\<close> shows the head of the published messages, and acknowledging it removes exactly that one.\<close>

lemma Peek_published:
  assumes "queue_inv W E s"
  shows "published E s = [] \<Longrightarrow> Peek E s = Inl ErrEmpty"
    and "published E s = m # ms \<Longrightarrow> \<exists>v. Peek E s = Inr (m, v) \<and> m_Seq m = Suc (s_DeliveredSeq (st s))"
proof -
  note inv = queue_invD [OF assms]
  show "published E s = [] \<Longrightarrow> Peek E s = Inl ErrEmpty"
    by (cases "s_DeliveredSeq (st s) < s_ReadySeq (st s)") (auto simp: Peek_def published_Cons)
  assume pub: "published E s = m # ms"
  then have lt: "s_DeliveredSeq (st s) < s_ReadySeq (st s)"
    by (cases "s_DeliveredSeq (st s) < s_ReadySeq (st s)") auto
  with pub have m: "m = msg_at E (items s) (Suc (s_DeliveredSeq (st s)))" by (simp add: published_Cons)
  have "earliest (st s) \<le> Suc (s_DeliveredSeq (st s))" "Suc (s_DeliveredSeq (st s)) \<le> s_NextSeq (st s)"
    using inv(1) lt by (auto simp: counters_ok_def)
  from msg_at_contents(1,3) [OF inv(2) this] lt m
  show "\<exists>v. Peek E s = Inr (m, v) \<and> m_Seq m = Suc (s_DeliveredSeq (st s))" by (simp add: Peek_def)
qed

lemma evict_total:
  assumes "\<And>b k. \<exists>b'. bk_delete E b k = Inr b'"
  shows "\<exists>r. evict E age lim now delivered b e archive = Inr r"
proof (induction "Suc delivered - e" arbitrary: b e archive)
  case 0
  then show ?case by (subst evict.simps) simp
next
  case (Suc k)
  have le: "e \<le> delivered" and k: "k = Suc delivered - (e + 1)" using Suc.hyps(2) by auto
  obtain b' where "bk_delete E b (key e) = Inr b'" using assms by blast
  with le Suc.hyps(1) [OF k] show ?case by (subst evict.simps) (auto split: option.split)
qed

lemma Ack_progress:
  assumes s: "queue_inv W E s" and pub: "published E s = m # ms"
    and del: "\<And>b k. \<exists>b'. bk_delete E b k = Inr b'" and commit: "ob_commit ob = None"
  shows "\<exists>s'. Ack E ob s (m_Seq m) (m_ID m) = Inr s'"
proof -
  obtain v where peek: "Peek E s = Inr (m, v)" and seq: "m_Seq m = Suc (s_DeliveredSeq (st s))"
    using Peek_published(2) [OF s pub] by blast
  then have get: "bk_get E (items s) (key (m_Seq m)) = Some v" "unmarshal E v = Inr m"
    and lt: "m_Seq m \<le> s_ReadySeq (st s)"
    by (auto simp: Peek_def fetch_def split: if_splits option.splits sum.splits)
  obtain b e archive where "evict E (replayAge s) (replayBytes s) (ob_now ob) (m_Seq m) (items s)
      (if s_EarliestSeq (st s) = 0 then 1 else s_EarliestSeq (st s)) (s_ArchiveBytes (st s) + int (blen E v)) =
      Inr (b, e, archive)" using evict_total [OF del] by (metis prod_cases3)
  with get lt seq commit show ?thesis unfolding Ack_def Update_def by simp
qed

lemma Get_retained:
  assumes "queue_inv W E s" "earliest (st s) \<le> n" "n \<le> s_ReadySeq (st s)"
  shows "\<exists>m v. Get E s n = Inr (m, v) \<and> m_Seq m = n \<and> m_ID m = message_id (s_SourceID (st s)) (s_Generation (st s)) n"
proof -
  note inv = queue_invD [OF assms(1)]
  have "n \<le> s_NextSeq (st s)" using inv(1) assms(3) by (auto simp: counters_ok_def)
  from msg_at_contents(1,3,6) [OF inv(2) assms(2) this] assms show ?thesis by (auto simp: Get_def)
qed

lemma bytes_nonneg: "queue_inv W E s \<Longrightarrow> 0 \<le> s_Bytes (st s) \<and> 0 \<le> s_ArchiveBytes (st s)"
  by (auto simp: queue_inv_def bytes_ok_def intro!: sum_nonneg)

lemma Ack_archive_bound:
  assumes E: "bolt_ok E" and s: "queue_inv W E s" and lim: "0 \<le> replayBytes s"
    and ack: "Ack E ob s n mid = Inr s'"
  shows "s_ArchiveBytes (st s') \<le> replayBytes s"
proof -
  have inv': "queue_inv W E s'" by (rule Ack_inv [OF E s ack])
  from ack obtain v m b e archive where n: "n = Suc (s_DeliveredSeq (st s))" "n \<le> s_ReadySeq (st s)"
    and ev: "evict E (replayAge s) (replayBytes s) (ob_now ob) n (items s)
      (if s_EarliestSeq (st s) = 0 then 1 else s_EarliestSeq (st s)) (s_ArchiveBytes (st s) + int (blen E v)) =
      Inr (b, e, archive)"
    and s': "s' = s\<lparr>items := b, st := (st s)\<lparr>s_Bytes := s_Bytes (st s) - int (blen E v),
                 s_ArchiveBytes := archive, s_DeliveredSeq := n, s_EarliestSeq := e\<rparr>\<rparr>"
    by (elim Ack_Inr)
  have bnd: "Suc n < seq_limit" "(if s_EarliestSeq (st s) = 0 then 1 else s_EarliestSeq (st s)) \<le> Suc n"
    using queue_invD(1) [OF s] n by (auto simp: counters_ok_def earliest_def split: if_splits)
  note spec = evict_spec [OF E bnd ev]
  show ?thesis
  proof (cases "e \<le> n")
    case True
    with spec show ?thesis by (simp add: s')
  next
    case False
    with spec have "earliest (st s') = Suc n" by (auto simp: s' earliest_def)
    moreover have "s_DeliveredSeq (st s') = n" by (simp add: s')
    ultimately show ?thesis using queue_invD(3) [OF inv'] lim by (simp add: bytes_ok_def)
  qed
qed

lemma qrun_acks:
  assumes E: "bolt_ok E" "codec_ok W E" and run: "qrun W E s ops s'" and s: "queue_inv W E s"
    and nr: "QReset \<notin> set ops"
  shows "acks ops = map (\<lambda>n. (n, message_id (s_SourceID (st s)) (s_Generation (st s)) n))
     [Suc (s_DeliveredSeq (st s))..<Suc (s_DeliveredSeq (st s'))] \<and>
     s_SourceID (st s') = s_SourceID (st s) \<and> s_Generation (st s') = s_Generation (st s) \<and>
     s_DeliveredSeq (st s) \<le> s_DeliveredSeq (st s')"
  using run nr
proof (induction rule: qrun.induct)
  case start
  then show ?case by simp
next
  case (step ops s1 oper s2)
  have inv: "queue_inv W E s1" by (rule qrun_inv [OF E step.hyps(1) s])
  have nr: "oper \<noteq> QReset" "QReset \<notin> set ops" using step.prems by auto
  note id = qstep_identity [OF step.hyps(2) nr(1)] and IH = step.IH [OF nr(2)]
  show ?case
  proof (cases "\<exists>n mid. oper = QAck n mid")
    case True
    then obtain n mid where a: "oper = QAck n mid" by blast
    from qstep_acked [OF E(1) inv step.hyps(2) [unfolded a]] IH id show ?thesis by (simp add: a)
  next
    case False
    then have "s_DeliveredSeq (st s2) = s_DeliveredSeq (st s1)" "acks [oper] = []"
      using qstep_delivered [OF step.hyps(2) nr(1)] acks_other by blast+
    with IH id show ?thesis by simp
  qed
qed

section \<open>The contract of the queue\<close>

text \<open>
  What the queue promises the code that fills it: appended messages are staged in order and stay
  invisible, publishing makes all of them visible at once, recovery after a crash drops exactly the
  staged ones.  \<open>ok\<close> are the messages whose encoding can be read back and \<open>room\<close> says that the
  sequence numbers are not used up.
\<close>

locale outbox =
  fixes inv :: "'s \<Rightarrow> bool"
    and pub :: "'s \<Rightarrow> Message list"
    and stg :: "'s \<Rightarrow> Message list"
    and ok :: "Message \<Rightarrow> bool"
    and room :: "'s \<Rightarrow> bool"
    and app :: "'o \<Rightarrow> 's \<Rightarrow> Message \<Rightarrow> 's res"
    and publ :: "'s \<Rightarrow> 's \<Rightarrow> bool"
    and rcv :: "'o \<Rightarrow> 's \<Rightarrow> 's res"
  assumes app_law: "inv s \<Longrightarrow> ok m \<Longrightarrow> app ob s m = Inr s' \<Longrightarrow> room s' \<Longrightarrow>
      inv s' \<and> pub s' = pub s \<and> stg s' = stg s @ [payload m]"
    and room_law: "app ob s m = Inr s' \<Longrightarrow> room s' \<Longrightarrow> room s"
    and publ_law: "inv s \<Longrightarrow> publ s s' \<Longrightarrow> inv s' \<and> pub s' = pub s @ stg s \<and> stg s' = []"
    and rcv_law: "inv s \<Longrightarrow> rcv ob s = Inr s' \<Longrightarrow> inv s' \<and> pub s' = pub s \<and> stg s' = []"
begin

lemma room_all: "foldM (\<lambda>s (ob, m). app ob s m) s oms = Inr s' \<Longrightarrow> room s' \<Longrightarrow> room s"
proof (induction oms arbitrary: s)
  case (Cons om oms)
  obtain ob m where "om = (ob, m)" by fastforce
  with Cons show ?case using room_law by (auto split: sum.splits)
qed simp

lemma app_all:
  assumes "inv s" "\<forall>(ob, m)\<in>set oms. ok m" "foldM (\<lambda>s (ob, m). app ob s m) s oms = Inr s'" "room s'"
  shows "inv s' \<and> pub s' = pub s \<and> stg s' = stg s @ map (payload \<circ> snd) oms"
  using assms
proof (induction oms arbitrary: s)
  case (Cons om oms)
  obtain ob m where om: "om = (ob, m)" by fastforce
  with Cons.prems obtain s1 where s1: "app ob s m = Inr s1" "foldM (\<lambda>s (ob, m). app ob s m) s1 oms = Inr s'"
    by (auto split: sum.splits)
  have "room s1" by (rule room_all [OF s1(2) Cons.prems(4)])
  then have "inv s1 \<and> pub s1 = pub s \<and> stg s1 = stg s @ [payload m]"
    using app_law [OF Cons.prems(1) _ s1(1)] Cons.prems(2) by (simp add: om)
  with Cons.IH [OF _ _ s1(2) Cons.prems(4)] Cons.prems(2) show ?case by (simp add: om)
qed simp

text \<open>A group of messages becomes visible as a whole or not at all.\<close>

lemma all_published:
  assumes "inv s" "\<forall>(ob, m)\<in>set oms. ok m" "foldM (\<lambda>s (ob, m). app ob s m) s oms = Inr s1" "room s1" "publ s1 s'"
  shows "inv s' \<and> pub s' = pub s @ stg s @ map (payload \<circ> snd) oms \<and> stg s' = []"
  using app_all [OF assms(1-4)] publ_law [OF _ assms(5)] by simp

lemma none_published:
  assumes "inv s" "\<forall>(ob, m)\<in>set oms. ok m" "foldM (\<lambda>s (ob, m). app ob s m) s oms = Inr s1" "room s1" "rcv ob s1 = Inr s'"
  shows "inv s' \<and> pub s' = pub s \<and> stg s' = []"
  using app_all [OF assms(1-4)] rcv_law [OF _ assms(5)] by simp

end

definition published_by :: "'b Store \<Rightarrow> 'b Store \<Rightarrow> bool" where
  "published_by s s' \<longleftrightarrow> (\<exists>ob lsn sealSnapshot cleanup. PublishSource ob s lsn sealSnapshot cleanup = Inr s') \<or>
     (\<exists>ob lsn h. PublishSchema ob s lsn h = Inr s')"

definition encodable :: "Message set \<Rightarrow> Message \<Rightarrow> bool" where
  "encodable W m \<longleftrightarrow> (\<forall>x now. stamp x now m \<in> W)"

definition seq_room :: "'b Store \<Rightarrow> bool" where
  "seq_room s \<longleftrightarrow> Suc (s_NextSeq (st s)) < seq_limit"

definition sound_queue :: "Message set \<Rightarrow> ('v, 'b, 'z) qenv_scheme \<Rightarrow> 'b Store \<Rightarrow> bool" where
  "sound_queue W E s \<longleftrightarrow> bolt_ok E \<and> codec_ok W E \<and> queue_inv W E s"

lemma Append_NextSeq: "Append E ob s m = Inr s' \<Longrightarrow> s_NextSeq (st s') = Suc (s_NextSeq (st s))"
  by (elim Append_Inr) simp

lemma Ack_maxBytes: "Ack E ob s n mid = Inr s' \<Longrightarrow> maxBytes s' = maxBytes s"
  by (elim Ack_Inr) simp

interpretation qbox: outbox "sound_queue W E" "\<lambda>s. map payload (published E s)" "\<lambda>s. map payload (staged E s)"
  "encodable W" seq_room "Append E" published_by "Recover E"
  for W :: "Message set" and E :: "('v, 'b, 'z) qenv_scheme"
proof (unfold_locales, goal_cases)
  case (1 s m ob s')
  then have E: "bolt_ok E" "codec_ok W E" and s: "queue_inv W E s"
    and W: "stamp (st s) (format_time E (ob_now ob)) m \<in> W"
    by (auto simp: sound_queue_def encodable_def)
  have room: "Suc (Suc (s_NextSeq (st s))) < seq_limit"
    using 1(4) Append_NextSeq [OF 1(3)] by (simp add: seq_room_def)
  from Append_inv [OF E s W room 1(3)] Append_abs [OF E s W 1(3)] E show ?case by (simp add: sound_queue_def)
next
  case (2 ob s m s')
  then show ?case using Append_NextSeq [OF 2(1)] by (simp add: seq_room_def)
next
  case (3 s s')
  then have s: "queue_inv W E s" by (simp add: sound_queue_def)
  have "items s' = items s" "s_DeliveredSeq (st s') = s_DeliveredSeq (st s)"
    "s_NextSeq (st s') = s_NextSeq (st s)" "s_ReadySeq (st s') = s_NextSeq (st s)"
    using 3(2) by (auto simp: published_by_def PublishSource_def PublishSchema_def split: if_splits)
  note pub = publish_abs [OF s this]
  have "queue_inv W E s'" using s 3(2) PublishSource_inv PublishSchema_inv by (auto simp: published_by_def)
  with pub 3(1) show ?case by (simp add: sound_queue_def)
next
  case (4 s ob s')
  then show ?case using Recover_inv [of E W s ob s'] Recover_abs [of E W s ob s'] by (simp add: sound_queue_def)
qed

section \<open>Properties\<close>

text \<open>C2. Along every run of the queue from a newly opened store, whatever operations, failed
  commits and reopenings it interleaves, each operation acts on the published and the staged messages
  exactly as the abstract queue prescribes.\<close>

theorem queue_refines:
  assumes "bolt_ok E" "codec_ok W E" "Open E io ob None maxB res = Inr s0" "qrun W E s0 ops s"
    and "qstep W E s oper s'"
  shows "aq_step oper (abs_queue E s) = Some (abs_queue E s')"
  by (rule qstep_refines [OF assms(1,2,5) qrun_inv [OF assms(1,2,4) Open_new_inv [OF assms(1,3)]]])

lemma sample_step:
  assumes "Append sample_env sample_obs s sample_message = Inr s'" "Suc (Suc (s_NextSeq (st s))) < seq_limit"
  shows "qstep UNIV sample_env s (QAppend (stamp (st s) ''5'' sample_message)) s'"
proof -
  have "format_time sample_env (ob_now sample_obs) = ''5''"
    unfolding sample_env_def sample_obs_def by code_simp
  with qstep.append [OF assms(1), of UNIV] assms(2) show ?thesis by simp
qed

theorem queue_refines_witness:
  "aq_step (QAppend (stamp (st sample_new) ''5'' sample_message)) (abs_queue sample_env sample_new) =
   Some (abs_queue sample_env (sample_append sample_new))"
proof (rule queue_refines [OF sample_bolt sample_codec sample_new_ok qrun.start])
  show "qstep UNIV sample_env sample_new (QAppend (stamp (st sample_new) ''5'' sample_message)) (sample_append sample_new)"
    by (rule sample_step [OF sample_new_append])
      (simp add: sample_new_def Open_def Update_def sample_obs_def zero_State_def seq_limit_def)
qed

text \<open>C4. The invariant holds after every run from a newly opened store: the counters are ordered,
  the bucket holds exactly the retained messages under their own numbers, and the byte counters are
  the true sizes.\<close>

theorem queue_reachable_invariant:
  assumes "bolt_ok E" "codec_ok W E" "Open E io ob None maxB res = Inr s0" "qrun W E s0 ops s"
  shows "queue_inv W E s"
  by (rule qrun_inv [OF assms(1,2,4) Open_new_inv [OF assms(1,3)]])

theorem queue_reachable_invariant_witness: "queue_inv UNIV sample_env (sample_append sample_new)"
proof (rule queue_reachable_invariant [OF sample_bolt sample_codec sample_new_ok])
  have "qstep UNIV sample_env sample_new (QAppend (stamp (st sample_new) ''5'' sample_message)) (sample_append sample_new)"
    by (rule sample_step [OF sample_new_append])
      (simp add: sample_new_def Open_def Update_def sample_obs_def zero_State_def seq_limit_def)
  from qrun.step [OF qrun.start this]
  show "qrun UNIV sample_env sample_new [QAppend (stamp (st sample_new) ''5'' sample_message)] (sample_append sample_new)"
    by simp
qed

lemma sample_store_next: "s_NextSeq (st sample_store) = 0"
  by (simp add: sample_store_def zero_State_def)

lemma sample_store_inv: "queue_inv UNIV sample_env sample_store"
  by (rule queue_inv_empty) (simp_all add: sample_store_def sample_env_def zero_State_def)

lemma sample_full_inv: "queue_inv UNIV sample_env sample_full"
proof -
  have "queue_inv UNIV sample_env (sample_append sample_store)"
    by (rule Append_inv [OF sample_bolt sample_codec sample_store_inv _ _ sample_append_ok])
      (simp_all add: sample_store_def zero_State_def seq_limit_def)
  then have "queue_inv UNIV sample_env (sample_append (sample_append sample_store))"
    by (rule Append_inv [OF sample_bolt sample_codec _ _ _ sample_append_ok2])
      (simp_all add: Append_NextSeq [OF sample_append_ok] sample_store_next seq_limit_def)
  then show ?thesis by (rule PublishSource_inv [OF _ sample_publish_ok])
qed

text \<open>A message is acknowledged once, in order and under its own identifier: in every run
  without a reset of the generation the acknowledgements are those of consecutive numbers, from the
  first undelivered one up to the last delivered one.\<close>

theorem queue_acks_consecutive:
  assumes "bolt_ok E" "codec_ok W E" "queue_inv W E s" "qrun W E s ops s'" "QReset \<notin> set ops"
  shows "acks ops = map (\<lambda>n. (n, message_id (s_SourceID (st s)) (s_Generation (st s)) n))
     [Suc (s_DeliveredSeq (st s))..<Suc (s_DeliveredSeq (st s'))]"
  using qrun_acks [OF assms(1,2,4,3,5)] by blast

lemma sample_full_st:
  "s_DeliveredSeq (st sample_full) = 0" "s_ReadySeq (st sample_full) = 2" "s_SourceID (st sample_full) = ''src''"
  "s_Generation (st sample_full) = ''g1''" "replayBytes sample_full = 120" "s_EarliestSeq (st sample_full) = 1"
  by (simp_all add: sample_full_def Publish_def PublishSource_def Update_def sample_append_def Append_def Let_def
      sample_defs stamp_def)


lemma dec_single: "n < 10 \<Longrightarrow> dec n = [digit n]"
  by (subst dec.simps) simp

lemma sample_acked_ok: "Ack sample_env sample_obs sample_full 1 ''src/g1/1'' = Inr sample_acked"
proof -
  have "dec 1 = ''1''" "dec 2 = ''2''" "dec 5 = ''5''" by code_simp+
  moreover have "be_bytes 8 (Suc 0) \<noteq> be_bytes 8 (Suc (Suc 0))"
    using be_bytes_inject [of "Suc 0" 8 "Suc (Suc 0)"] by simp
  ultimately show ?thesis
    by (simp add: sample_acked_def Ack_def sample_full_def Publish_def PublishSource_def Update_def
        sample_append_def Append_def Let_def sample_defs stamp_def message_id_def evict.simps key_def expired_def)
qed

theorem queue_acks_consecutive_witness: "acks [QAck 1 ''src/g1/1''] = [(1, message_id ''src'' ''g1'' 1)]"
proof -
  have "qstep UNIV sample_env sample_full (QAck 1 ''src/g1/1'') sample_acked"
    by (rule qstep.ack [OF sample_acked_ok])
  from qrun.step [OF qrun.start this]
  have "qrun UNIV sample_env sample_full [QAck 1 ''src/g1/1''] sample_acked" by simp
  from queue_acks_consecutive [OF sample_bolt sample_codec sample_full_inv this]
  show ?thesis using qstep_acked [OF sample_bolt sample_full_inv qstep.ack [OF sample_acked_ok]]
    by (simp add: sample_full_st)
qed

text \<open>C6. The queue never gets stuck on what it holds: while a published message is unacknowledged,
  \<open>Peek\<close> returns the oldest one (it never reports a gap), and \<open>Ack\<close> of what \<open>Peek\<close> returned
  succeeds, unless the database itself fails, and removes exactly that message.\<close>

theorem queue_peek_ack:
  assumes "bolt_ok E" "queue_inv W E s" "published E s = m # ms"
    and "\<forall>b k. \<exists>b'. bk_delete E b k = Inr b'" "ob_commit ob = None"
  shows "\<exists>v s'. Peek E s = Inr (m, v) \<and> Ack E ob s (m_Seq m) (m_ID m) = Inr s' \<and> published E s' = ms"
proof -
  obtain s' where s': "Ack E ob s (m_Seq m) (m_ID m) = Inr s'"
    using Ack_progress [OF assms(2,3) _ assms(5)] assms(4) by blast
  then have "published E s' = ms" using Ack_abs(1) [OF assms(1,2) s'] assms(3) by auto
  with s' Peek_published(2) [OF assms(2,3)] show ?thesis by blast
qed

lemma sample_full_published:
  "\<exists>m1 m2. published sample_env sample_full = [m1, m2] \<and> m_Seq m1 = 1 \<and> m_Seq m2 = 2"
  using published_seqs [OF sample_full_inv] by (auto simp: sample_full_st eval_nat_numeral)

theorem queue_peek_ack_witness:
  "\<exists>m ms v s'. published sample_env sample_full = m # ms \<and> Peek sample_env sample_full = Inr (m, v) \<and>
     Ack sample_env sample_obs sample_full (m_Seq m) (m_ID m) = Inr s' \<and> published sample_env s' = ms"
proof -
  obtain m ms where m: "published sample_env sample_full = m # ms" using sample_full_published by blast
  have "\<forall>b k. \<exists>b'. bk_delete sample_env b k = Inr b'" "ob_commit sample_obs = None"
    by (simp_all add: sample_env_def sample_obs_def)
  from queue_peek_ack [OF sample_bolt sample_full_inv m this] m show ?thesis by blast
qed

text \<open>Every number from the earliest retained one to the last published one can be fetched for a
  replay, under its own identifier, acknowledged or not.\<close>

theorem queue_replay_complete:
  assumes "queue_inv W E s" "Bounds s = (gen, lo, hi)" "lo \<le> n" "n \<le> hi"
  shows "\<exists>m v. Get E s n = Inr (m, v) \<and> m_Seq m = n \<and> m_Generation m = gen \<and> m_ID m = message_id (s_SourceID (st s)) gen n"
proof -
  have b: "gen = s_Generation (st s)" "earliest (st s) \<le> n" "n \<le> s_ReadySeq (st s)"
    using assms by (auto simp: Bounds_def)
  note inv = queue_invD [OF assms(1)]
  have "n \<le> s_NextSeq (st s)" using inv(1) b by (auto simp: counters_ok_def)
  from msg_at_contents(1,3,5,6) [OF inv(2) b(2) this] b show ?thesis by (auto simp: Get_def)
qed

theorem queue_replay_complete_witness:
  "\<exists>m v. Get sample_env sample_full 2 = Inr (m, v) \<and> m_Seq m = 2 \<and> m_Generation m = ''g1'' \<and>
     m_ID m = message_id (s_SourceID (st sample_full)) ''g1'' 2"
proof -
  have "Bounds sample_full = (''g1'', 1, 2)" by (simp add: Bounds_def earliest_def sample_full_st)
  from queue_replay_complete [OF sample_full_inv this] show ?thesis by simp
qed

text \<open>C15. The limits hold: no operation brings the unacknowledged bytes above the capacity (as long as
  the capacity is not lowered), and after an acknowledgement the retained history fits its own limit.\<close>

theorem queue_capacity:
  assumes "bolt_ok E" "codec_ok W E" "queue_inv W E s" "qstep W E s oper s'"
    and "s_Bytes (st s) \<le> maxBytes s" "maxBytes s \<le> maxBytes s'" "0 \<le> maxBytes s" "0 \<le> replayBytes s"
  shows "s_Bytes (st s') \<le> maxBytes s' \<and>
         (\<forall>n mid. oper = QAck n mid \<longrightarrow> s_ArchiveBytes (st s') \<le> replayBytes s')"
  using assms(4)
proof cases
  case (append ob m)
  from append(2) show ?thesis by (elim Append_Inr) (use append(1) in simp)
next
  case (ack ob n mid)
  then have "s_ArchiveBytes (st s') \<le> replayBytes s" "maxBytes s' = maxBytes s" "replayBytes s' = replayBytes s"
    "s_Bytes (st s') \<le> s_Bytes (st s)"
    using Ack_archive_bound [OF assms(1,3,8) ack(2)] by (auto elim!: Ack_Inr)
  with assms(5) show ?thesis by simp
next
  case (finalize ob lsn)
  from finalize(2) obtain bytes b where
    loop: "finalize_loop E (maxBytes s) lsn [1..<Suc (s_NextSeq (st s))] 0 (items s) = Inr (bytes, b)"
    and s': "s' = s\<lparr>items := b, st := (st s)\<lparr>s_Bytes := bytes, s_SnapshotLSN := lsn\<rparr>\<rparr>"
    by (rule FinalizeSnapshotLSN_Inr)
  have "\<forall>n\<in>set [1..<Suc (s_NextSeq (st s))]. n < seq_limit"
    using queue_invD(1) [OF assms(3)] by (auto simp: counters_ok_def)
  from finalize_loop_spec [OF assms(1) loop distinct_upt this] assms(7) have "bytes \<le> maxBytes s" by blast
  with finalize(1) show ?thesis by (simp add: s')
next
  case (recover ob)
  then obtain bytes b where
    loop: "recover_loop E (bk_from E (items s) (key (Suc (s_ReadySeq (st s))))) (s_Bytes (st s)) (items s) = Inr (bytes, b)"
    and s': "s_Bytes (st s') = bytes" "maxBytes s' = maxBytes s"
    by (auto simp: Recover_def split: sum.splits)
  have "bytes \<le> s_Bytes (st s)" using recover_loop_spec [OF assms(1) loop] by (auto intro!: sum_list_nonneg)
  with recover(1) s' assms(5) show ?thesis by simp
qed (use assms(5-7) in \<open>auto simp: PublishSource_def PublishSchema_def SnapshotPoint_def ClearSourceCleanup_def
    ConfigureReplay_def Open_def Initialize_def ResetForSnapshot_def split: if_splits sum.splits\<close>)

theorem queue_capacity_witness:
  "s_Bytes (st sample_acked) \<le> maxBytes sample_acked \<and> s_ArchiveBytes (st sample_acked) \<le> replayBytes sample_acked"
proof -
  have "s_Bytes (st sample_full) = 300" "maxBytes sample_full = 1000"
    by (simp_all add: sample_full_def Publish_def PublishSource_def Update_def sample_append_def Append_def Let_def
        sample_defs stamp_def)
  moreover have "maxBytes sample_acked = maxBytes sample_full"
    by (rule Ack_maxBytes [OF sample_acked_ok])
  ultimately show ?thesis
    using queue_capacity [OF sample_bolt sample_codec sample_full_inv qstep.ack [OF sample_acked_ok]]
    by (simp add: sample_full_st)
qed



end
