(* ===== verification/Stdlib.thy ===== *)
theory Stdlib
  imports Prelude "HOL-Library.Sublist"
begin

text \<open>
  The functions of Go's standard library that the components use on strings: splitting, decimal and
  hexadecimal numbers, base64, and the lexical path functions of \<open>path/filepath\<close> on Unix.
\<close>

section \<open>Splitting and joining\<close>

text \<open>\<open>strings.Split\<close> with a one-byte separator, and \<open>strings.Join\<close>.\<close>

fun split_on :: "char \<Rightarrow> string \<Rightarrow> string list" where
  "split_on c [] = [[]]"
| "split_on c (x # xs) =
     (if x = c then [] # split_on c xs
      else (case split_on c xs of [] \<Rightarrow> [[x]] | w # ws \<Rightarrow> (x # w) # ws))"

fun join_with :: "string \<Rightarrow> string list \<Rightarrow> string" where
  "join_with sep [] = []"
| "join_with sep [w] = w"
| "join_with sep (w # ws) = w @ sep @ join_with sep ws"

lemma split_on_nonempty [simp]: "split_on c s \<noteq> []"
  by (induction s) (auto split: list.splits)

lemma split_on_no_sep: "c \<notin> set s \<Longrightarrow> split_on c s = [s]"
  by (induction s) auto

lemma split_on_append: "c \<notin> set w \<Longrightarrow> split_on c (w @ c # s) = w # split_on c s"
  by (induction w) auto

lemma split_join:
  "ws \<noteq> [] \<Longrightarrow> \<forall>w\<in>set ws. c \<notin> set w \<Longrightarrow> split_on c (join_with [c] ws) = ws"
  by (induction "[c]" ws rule: join_with.induct) (auto simp: split_on_no_sep split_on_append)

lemma split_on_parts: "w \<in> set (split_on c s) \<Longrightarrow> c \<notin> set w"
  by (induction s arbitrary: w) (auto split: list.splits if_splits)

lemma join_with_head: "join_with sep ((x # w) # ws) = x # join_with sep (w # ws)"
  by (cases ws) auto

lemma join_with_empty_head: "ws \<noteq> [] \<Longrightarrow> join_with sep ([] # ws) = sep @ join_with sep ws"
  by (cases ws) auto

lemma join_split: "join_with [c] (split_on c s) = s"
proof (induction s)
  case (Cons x xs)
  then show ?case
    by (cases "split_on c xs") (auto simp: join_with_head join_with_empty_head)
qed simp

section \<open>Numbers\<close>

text \<open>\<open>strconv.ParseUint\<close> in base ten for values of \<open>bits\<close> bits.\<close>

definition ParseUint :: "nat \<Rightarrow> string \<Rightarrow> nat option" where
  "ParseUint bits s =
     (if s = [] \<or> \<not> list_all is_digit s then None
      else if undec s < 2 ^ bits then Some (undec s) else None)"

text \<open>The formatting verb for a decimal number padded with zeros to \<open>w\<close> places.\<close>

definition pad_dec :: "nat \<Rightarrow> nat \<Rightarrow> string" where
  "pad_dec w n = replicate (w - length (dec n)) (CHR ''0'') @ dec n"

lemma is_digit_zero [simp]: "is_digit (CHR ''0'')"
  by (simp add: is_digit_def)

lemma undec_zeros [simp]: "undec (replicate k (CHR ''0'') @ s) = undec s"
proof -
  have "foldl (\<lambda>n c. 10 * n + (of_char c - 48)) 0 (replicate k (CHR ''0'')) = (0::nat)"
    by (induction k) auto
  then show ?thesis by (simp add: undec_def)
qed

lemma list_all_dec [simp]: "list_all is_digit (dec n)"
  using dec_digits by (auto simp: list_all_iff)

lemma list_all_zeros: "list_all is_digit (replicate k (CHR ''0''))"
  by (induction k) auto

lemma ParseUint_dec: "n < 2 ^ bits \<Longrightarrow> ParseUint bits (dec n) = Some n"
  by (simp add: ParseUint_def)

lemma ParseUint_pad_dec: "n < 2 ^ bits \<Longrightarrow> ParseUint bits (pad_dec w n) = Some n"
  by (simp add: ParseUint_def pad_dec_def list_all_zeros)

section \<open>Hexadecimal\<close>

definition hex_alphabet :: string where
  "hex_alphabet = ''0123456789abcdef''"

fun hex_EncodeToString :: "string \<Rightarrow> string" where
  "hex_EncodeToString [] = []"
| "hex_EncodeToString (c # cs) =
     hex_alphabet ! (of_char c div 16) # hex_alphabet ! (of_char c mod 16) # hex_EncodeToString cs"

definition hex_value :: "char \<Rightarrow> nat option" where
  "hex_value c =
     (let n = of_char c in
      if 48 \<le> n \<and> n \<le> 57 then Some (n - 48)
      else if 97 \<le> n \<and> n \<le> 102 then Some (n - 87)
      else if 65 \<le> n \<and> n \<le> 70 then Some (n - 55) else None)"

fun hex_DecodeString :: "string \<Rightarrow> string option" where
  "hex_DecodeString [] = Some []"
| "hex_DecodeString [c] = None"
| "hex_DecodeString (a # b # cs) =
     (case (hex_value a, hex_value b, hex_DecodeString cs) of
        (Some x, Some y, Some r) \<Rightarrow> Some (char_of (16 * x + y) # r)
      | _ \<Rightarrow> None)"

lemma hex_value_alphabet: "n < 16 \<Longrightarrow> hex_value (hex_alphabet ! n) = Some n"
proof -
  have "list_all (\<lambda>n. hex_value (hex_alphabet ! n) = Some n) [0..<16]" by code_simp
  then show "n < 16 \<Longrightarrow> hex_value (hex_alphabet ! n) = Some n" by (simp add: list_all_iff)
qed

lemma of_char_bound: "(of_char c :: nat) < 256"
  by simp

lemma hex_roundtrip [simp]: "hex_DecodeString (hex_EncodeToString s) = Some s"
proof (induction s)
  case (Cons c cs)
  have "(of_char c :: nat) div 16 < 16" using of_char_bound [of c] by linarith
  then show ?case using Cons by (simp add: hex_value_alphabet)
qed simp

lemma length_hex [simp]: "length (hex_EncodeToString s) = 2 * length s"
  by (induction s) auto

lemma hex_DecodeString_length: "hex_DecodeString s = Some r \<Longrightarrow> length s = 2 * length r"
  by (induction s arbitrary: r rule: hex_DecodeString.induct) (auto split: option.splits)

section \<open>Base64\<close>

text \<open>The standard alphabet with padding (\<open>base64.StdEncoding\<close>) and the alphabet for URLs without
  padding (\<open>base64.RawURLEncoding\<close>).\<close>

definition b64_std :: string where
  "b64_std = ''ABCDEFGHIJKLMNOPQRSTUVWXYZabcdefghijklmnopqrstuvwxyz0123456789+/''"

definition b64_url :: string where
  "b64_url = ''ABCDEFGHIJKLMNOPQRSTUVWXYZabcdefghijklmnopqrstuvwxyz0123456789-_''"

definition b64_group :: "string \<Rightarrow> nat \<Rightarrow> string" where
  "b64_group al n = [al ! (n div 262144), al ! (n div 4096 mod 64), al ! (n div 64 mod 64), al ! (n mod 64)]"

fun b64_encode :: "string \<Rightarrow> bool \<Rightarrow> string \<Rightarrow> string" where
  "b64_encode al pad [] = []"
| "b64_encode al pad [a] =
     take 2 (b64_group al (65536 * of_char a)) @ (if pad then ''=='' else [])"
| "b64_encode al pad [a, b] =
     take 3 (b64_group al (65536 * of_char a + 256 * of_char b)) @ (if pad then ''='' else [])"
| "b64_encode al pad (a # b # c # cs) =
     b64_group al (65536 * of_char a + 256 * of_char b + of_char c) @ b64_encode al pad cs"

definition b64_value :: "string \<Rightarrow> char \<Rightarrow> nat option" where
  "b64_value al c = (if c \<in> set al then Some (length (takeWhile (\<lambda>x. x \<noteq> c) al)) else None)"

text \<open>Decoding one group of two, three or four characters gives one, two or three bytes; bits beyond
  the last byte are ignored, as the decoder that is not strict does.\<close>

definition b64_bytes :: "nat \<Rightarrow> string" where
  "b64_bytes n = [char_of (n div 65536), char_of (n div 256), char_of n]"

fun b64_quads :: "string \<Rightarrow> bool \<Rightarrow> string \<Rightarrow> string option" where
  "b64_quads al pad [] = Some []"
| "b64_quads al pad [a] = None"
| "b64_quads al pad [a, b] =
     (if pad then None
      else case (b64_value al a, b64_value al b) of
          (Some w, Some x) \<Rightarrow> Some (take 1 (b64_bytes (262144 * w + 4096 * x))) | _ \<Rightarrow> None)"
| "b64_quads al pad [a, b, c] =
     (if pad then None
      else case (b64_value al a, b64_value al b, b64_value al c) of
          (Some w, Some x, Some y) \<Rightarrow> Some (take 2 (b64_bytes (262144 * w + 4096 * x + 64 * y))) | _ \<Rightarrow> None)"
| "b64_quads al pad (a # b # c # d # cs) =
     (if pad \<and> cs = [] \<and> c = CHR ''='' \<and> d = CHR ''='' then
        (case (b64_value al a, b64_value al b) of
           (Some w, Some x) \<Rightarrow> Some (take 1 (b64_bytes (262144 * w + 4096 * x))) | _ \<Rightarrow> None)
      else if pad \<and> cs = [] \<and> d = CHR ''='' then
        (case (b64_value al a, b64_value al b, b64_value al c) of
           (Some w, Some x, Some y) \<Rightarrow> Some (take 2 (b64_bytes (262144 * w + 4096 * x + 64 * y))) | _ \<Rightarrow> None)
      else
        (case (b64_value al a, b64_value al b, b64_value al c, b64_value al d, b64_quads al pad cs) of
           (Some w, Some x, Some y, Some z, Some r) \<Rightarrow> Some (b64_bytes (262144 * w + 4096 * x + 64 * y + z) @ r)
         | _ \<Rightarrow> None))"

definition b64_decode :: "string \<Rightarrow> bool \<Rightarrow> string \<Rightarrow> string option" where
  "b64_decode al pad s = b64_quads al pad (filter (\<lambda>c. c \<noteq> CHR 0x0A \<and> c \<noteq> CHR 0x0D) s)"

text \<open>What the round trip needs of an alphabet: 64 different characters, none of them the padding or a
  line break.\<close>

definition b64_alphabet :: "string \<Rightarrow> bool" where
  "b64_alphabet al \<longleftrightarrow> length al = 64 \<and> distinct al \<and> CHR ''='' \<notin> set al \<and> CHR 0x0A \<notin> set al \<and> CHR 0x0D \<notin> set al"

lemma b64_std_alphabet: "b64_alphabet b64_std"
  by code_simp

lemma b64_url_alphabet: "b64_alphabet b64_url"
  by code_simp

lemma b64_value_nth:
  assumes "b64_alphabet al" "n < 64"
  shows "b64_value al (al ! n) = Some n"
proof -
  have al: "length al = 64" "distinct al" using assms(1) by (simp_all add: b64_alphabet_def)
  have "takeWhile (\<lambda>x. x \<noteq> al ! n) al = take n al"
    using al assms(2) by (intro takeWhile_eq_take_P_nth) (auto simp: nth_eq_iff_index_eq)
  with al assms(2) show ?thesis by (simp add: b64_value_def)
qed

lemma b64_nth_special:
  assumes "b64_alphabet al" "n < 64"
  shows "al ! n \<noteq> CHR ''=''" "al ! n \<noteq> CHR 0x0A" "al ! n \<noteq> CHR 0x0D"
  using assms unfolding b64_alphabet_def by (metis nth_mem)+

lemma group_value:
  fixes n :: nat
  shows "262144 * (n div 262144) + 4096 * (n div 4096 mod 64) + 64 * (n div 64 mod 64) + n mod 64 = n"
proof -
  have "n div 64 div 64 = n div 4096" "n div 4096 div 64 = n div 262144" by (simp_all add: div_mult2_eq [symmetric])
  moreover have "n = 64 * (n div 64) + n mod 64" by simp
  moreover have "n div 64 = 64 * (n div 64 div 64) + n div 64 mod 64" by simp
  moreover have "n div 4096 = 64 * (n div 4096 div 64) + n div 4096 mod 64" by simp
  ultimately show ?thesis by linarith
qed

lemma b64_digits:
  assumes "n < 16777216"
  shows "n div 262144 < 64" "n div 4096 mod 64 < 64" "n div 64 mod 64 < 64" "n mod 64 < (64::nat)"
  using assms by auto

lemma b64_quads_group:
  assumes al: "b64_alphabet al" and n: "n < 16777216"
  shows "b64_quads al pad (b64_group al n @ cs) = map_option (\<lambda>r. b64_bytes n @ r) (b64_quads al pad cs)"
proof -
  note d = b64_digits [OF n]
  note v = b64_value_nth [OF al d(1)] b64_value_nth [OF al d(2)] b64_value_nth [OF al d(3)] b64_value_nth [OF al d(4)]
  have "al ! (n mod 64) \<noteq> CHR ''=''" by (rule b64_nth_special(1) [OF al d(4)])
  with v show ?thesis
    by (simp add: b64_group_def group_value split: option.split)
qed

lemma mult_add_div_mod:
  assumes "c < (k::nat)"
  shows "(k * q + c) div k = q" "(k * q + c) mod k = c"
  using assms by simp_all

lemma char_bytes:
  fixes x y z :: nat
  assumes "x < 256" "y < 256" "z < 256"
  shows "(65536 * x + 256 * y + z) mod 256 = z"
    "(65536 * x + 256 * y + z) div 256 mod 256 = y"
    "(65536 * x + 256 * y + z) div 65536 = x"
proof -
  have n: "65536 * x + 256 * y + z = 256 * (256 * x + y) + z" by simp
  have "(65536 * x + 256 * y + z) div 65536 = (65536 * x + 256 * y + z) div 256 div 256"
    by (simp only: div_mult2_eq [symmetric]) simp
  then show "(65536 * x + 256 * y + z) mod 256 = z" "(65536 * x + 256 * y + z) div 256 mod 256 = y"
    "(65536 * x + 256 * y + z) div 65536 = x"
    unfolding n using assms by (simp_all only: mult_add_div_mod)
qed

lemma b64_bytes_chars:
  "b64_bytes (65536 * of_char a + 256 * of_char b + of_char c) = [a, b, c]"
proof -
  let ?n = "65536 * of_char a + 256 * of_char b + of_char c :: nat"
  note m = char_bytes [OF of_char_bound of_char_bound of_char_bound, of a b c]
  have "(char_of ?n :: char) = char_of (?n mod 256)" "(char_of (?n div 256) :: char) = char_of (?n div 256 mod 256)"
    by (simp_all only: char_of_mod_256)
  then show ?thesis by (simp only: b64_bytes_def m char_of_char)
qed

lemma three_bytes_bound: "65536 * of_char a + 256 * of_char b + of_char c < (16777216::nat)"
  using of_char_bound [of a] of_char_bound [of b] of_char_bound [of c] by linarith

lemma group_low_zero:
  fixes x y :: nat
  shows "(65536 * x + 256 * y) mod 64 = 0" "(65536 * x) div 64 mod 64 = 0" "(65536 * x) mod 64 = 0"
proof -
  have "65536 * x + 256 * y = 64 * (1024 * x + 4 * y)" "65536 * x = 64 * (64 * (16 * x))" by simp_all
  then show "(65536 * x + 256 * y) mod 64 = 0" "(65536 * x) div 64 mod 64 = 0" "(65536 * x) mod 64 = 0"
    by (simp_all only: nonzero_mult_div_cancel_left mod_mult_self1_is_0)
qed

lemma b64_bytes_prefix:
  "take 1 (b64_bytes (65536 * of_char a)) = [a]"
  "take 2 (b64_bytes (65536 * of_char a + 256 * of_char b)) = [a, b]"
  using b64_bytes_chars [of a "CHR 0x00" "CHR 0x00"] b64_bytes_chars [of a b "CHR 0x00"] by simp_all

lemma b64_quads_encode:
  assumes "b64_alphabet al"
  shows "b64_quads al pad (b64_encode al pad s) = Some s"
  using assms
proof (induction al pad s rule: b64_encode.induct)
  case (1 al pad)
  then show ?case by simp
next
  case (2 al pad a)
  let ?n = "65536 * of_char a :: nat"
  have "?n < 16777216" using of_char_bound [of a] by linarith
  note d = b64_digits [OF this]
  note v = b64_value_nth [OF 2 d(1)] b64_value_nth [OF 2 d(2)] b64_nth_special(1) [OF 2 d(2)]
  have n: "262144 * (?n div 262144) + 4096 * (?n div 4096 mod 64) = ?n"
    using group_value [of ?n] group_low_zero(2,3) [of "of_char a"] by simp
  show ?case using v n b64_bytes_prefix(1) [of a] by (simp add: b64_group_def)
next
  case (3 al pad a b)
  let ?n = "65536 * of_char a + 256 * of_char b :: nat"
  have "?n < 16777216" using of_char_bound [of a] of_char_bound [of b] by linarith
  note d = b64_digits [OF this]
  note v = b64_value_nth [OF 3 d(1)] b64_value_nth [OF 3 d(2)] b64_value_nth [OF 3 d(3)] b64_nth_special(1) [OF 3 d(3)]
  have n: "262144 * (?n div 262144) + 4096 * (?n div 4096 mod 64) + 64 * (?n div 64 mod 64) = ?n"
    using group_value [of ?n] group_low_zero(1) [of "of_char a" "of_char b"] by simp
  show ?case using v n b64_bytes_prefix(2) [of a b] by (simp add: b64_group_def)
next
  case (4 al pad a b c cs)
  then show ?case
    using b64_quads_group [OF 4(2) three_bytes_bound [of a b c]] b64_bytes_chars [of a b c] by simp
qed

lemma b64_group_set:
  assumes "b64_alphabet al" "n < 16777216"
  shows "set (b64_group al n) \<subseteq> set al"
  using assms(1) b64_digits [OF assms(2)] by (auto simp: b64_group_def b64_alphabet_def)

lemma b64_encode_chars:
  assumes "b64_alphabet al"
  shows "set (b64_encode al pad s) \<subseteq> insert (CHR ''='') (set al)"
  using assms
proof (induction al pad s rule: b64_encode.induct)
  case (2 al pad a)
  have "65536 * of_char a < (16777216::nat)" using of_char_bound [of a] by linarith
  from b64_group_set [OF 2 this] show ?case by (auto dest: in_set_takeD)
next
  case (3 al pad a b)
  have "65536 * of_char a + 256 * of_char b < (16777216::nat)"
    using of_char_bound [of a] of_char_bound [of b] by linarith
  from b64_group_set [OF 3 this] show ?case by (auto dest: in_set_takeD)
next
  case (4 al pad a b c cs)
  from b64_group_set [OF 4(2) three_bytes_bound] 4 show ?case by auto
qed simp

lemma b64_roundtrip: "b64_alphabet al \<Longrightarrow> b64_decode al pad (b64_encode al pad s) = Some s"
proof -
  assume al: "b64_alphabet al"
  have "filter (\<lambda>c. c \<noteq> CHR 0x0A \<and> c \<noteq> CHR 0x0D) (b64_encode al pad s) = b64_encode al pad s"
    using b64_encode_chars [OF al, of pad s] al by (intro filter_True) (auto simp: b64_alphabet_def)
  then show ?thesis by (simp add: b64_decode_def b64_quads_encode [OF al])
qed

section \<open>Paths\<close>

text \<open>The elements of a path: the parts between slashes that are not empty.\<close>

definition path_parts :: "string \<Rightarrow> string list" where
  "path_parts s = filter (\<lambda>w. w \<noteq> []) (split_on (CHR ''/'') s)"

definition IsAbs :: "string \<Rightarrow> bool" where
  "IsAbs s \<longleftrightarrow> s \<noteq> [] \<and> hd s = CHR ''/''"

text \<open>The lexical processing of \<open>filepath.Clean\<close>: \<open>out\<close> are the elements kept so far.\<close>

definition clean_step :: "bool \<Rightarrow> string list \<Rightarrow> string \<Rightarrow> string list" where
  "clean_step rooted out w =
     (if w = ''.'' then out
      else if w = ''..'' then
        (if out \<noteq> [] \<and> last out \<noteq> ''..'' then butlast out
         else if rooted then out
         else out @ [w])
      else out @ [w])"

definition clean_parts :: "string \<Rightarrow> string list" where
  "clean_parts s = foldl (clean_step (IsAbs s)) [] (path_parts s)"

definition path_of :: "bool \<Rightarrow> string list \<Rightarrow> string" where
  "path_of rooted ws =
     (if rooted then CHR ''/'' # join_with ''/'' ws
      else if ws = [] then ''.'' else join_with ''/'' ws)"

definition Clean :: "string \<Rightarrow> string" where
  "Clean s = path_of (IsAbs s) (clean_parts s)"

text \<open>\<open>filepath.IsLocal\<close> on Unix.\<close>

definition IsLocal :: "string \<Rightarrow> bool" where
  "IsLocal s \<longleftrightarrow> s \<noteq> [] \<and> \<not> IsAbs s \<and>
     (let p = (if ''.'' \<in> set (path_parts s) \<or> ''..'' \<in> set (path_parts s) then Clean s else s) in
      p \<noteq> ''..'' \<and> \<not> has_prefix p ''../'')"

text \<open>\<open>filepath.Rel\<close> on Unix: the elements after the common ones, behind one \<open>..\<close> for each element of
  the base that is left; \<^const>\<open>None\<close> when the target cannot be made relative to the base.\<close>

fun strip_common :: "string list \<Rightarrow> string list \<Rightarrow> string list \<times> string list" where
  "strip_common (b # bs) (t # ts) = (if b = t then strip_common bs ts else (b # bs, t # ts))"
| "strip_common bs ts = (bs, ts)"

definition Rel :: "string \<Rightarrow> string \<Rightarrow> string option" where
  "Rel base targ =
     (if Clean targ = Clean base then Some ''.''
      else if IsAbs base \<noteq> IsAbs targ then None
      else
        (let (bs, ts) = strip_common (clean_parts base) (clean_parts targ) in
         if bs \<noteq> [] \<and> hd bs = ''..'' then None
         else Some (join_with ''/'' (replicate (length bs) ''..'' @ ts))))"

text \<open>\<open>path.Join\<close> of two elements.\<close>

definition path_Join :: "string \<Rightarrow> string \<Rightarrow> string" where
  "path_Join a b = (if a = [] \<and> b = [] then [] else if a = [] then Clean b else Clean (a @ ''/'' @ b))"

section \<open>Facts about paths\<close>

definition part_ok :: "string \<Rightarrow> bool" where
  "part_ok w \<longleftrightarrow> w \<noteq> [] \<and> CHR ''/'' \<notin> set w"

lemma path_parts_ok: "w \<in> set (path_parts s) \<Longrightarrow> part_ok w"
  by (auto simp: path_parts_def part_ok_def dest: split_on_parts)

text \<open>Elements kept by the cleaning: no \<open>.\<close>, and \<open>..\<close> only in front, never in a rooted path.\<close>

definition clean_ok :: "bool \<Rightarrow> string list \<Rightarrow> bool" where
  "clean_ok rooted ws \<longleftrightarrow> (\<forall>w\<in>set ws. part_ok w \<and> w \<noteq> ''.'') \<and>
     successively (\<lambda>a b. b = ''..'' \<longrightarrow> a = ''..'') ws \<and> (rooted \<longrightarrow> ''..'' \<notin> set ws)"

lemma clean_ok_Nil [simp]: "clean_ok r []"
  by (simp add: clean_ok_def)

lemma clean_ok_append1: "clean_ok r (xs @ ys) \<Longrightarrow> clean_ok r xs"
  by (auto simp: clean_ok_def successively_append_iff)

lemma clean_step_ok:
  assumes "clean_ok r out" "part_ok w"
  shows "clean_ok r (clean_step r out w)"
proof (cases "out = []")
  case True
  with assms show ?thesis by (auto simp: clean_step_def clean_ok_def)
next
  case False
  have "clean_ok r (butlast out)"
    using assms(1) False by (intro clean_ok_append1 [of r "butlast out" "[last out]"]) simp
  with assms False show ?thesis by (auto simp: clean_step_def clean_ok_def successively_append_iff)
qed

lemma foldl_clean_ok:
  "clean_ok r out \<Longrightarrow> \<forall>w\<in>set ws. part_ok w \<Longrightarrow> clean_ok r (foldl (clean_step r) out ws)"
  by (induction ws arbitrary: out) (auto simp: clean_step_ok)

lemma clean_parts_ok: "clean_ok (IsAbs s) (clean_parts s)"
  unfolding clean_parts_def by (rule foldl_clean_ok) (auto dest: path_parts_ok)

text \<open>Cleaning clean elements changes nothing.\<close>

lemma foldl_clean_id: "clean_ok r (out @ ws) \<Longrightarrow> foldl (clean_step r) out ws = out @ ws"
proof (induction ws arbitrary: out)
  case (Cons w ws)
  then have "clean_step r out w = out @ [w]"
    by (auto simp: clean_step_def clean_ok_def successively_append_iff)
  with Cons show ?case by simp
qed simp

lemma path_parts_join:
  assumes "\<forall>w\<in>set ws. part_ok w"
  shows "path_parts (join_with ''/'' ws) = ws"
proof (cases ws)
  case Nil
  then show ?thesis by (simp add: path_parts_def)
next
  case (Cons a as)
  with assms have "split_on (CHR ''/'') (join_with ''/'' ws) = ws" by (intro split_join) (auto simp: part_ok_def)
  then show ?thesis using assms by (auto simp: path_parts_def part_ok_def intro!: filter_True)
qed

lemma path_parts_slash [simp]: "path_parts (CHR ''/'' # s) = path_parts s"
  by (simp add: path_parts_def)

lemma join_hd: "part_ok w \<Longrightarrow> join_with ''/'' (w # ws) \<noteq> [] \<and> hd (join_with ''/'' (w # ws)) \<noteq> CHR ''/''"
  by (cases ws; cases w) (auto simp: part_ok_def)

lemma path_of_abs: "clean_ok r ws \<Longrightarrow> IsAbs (path_of r ws) = r"
  by (cases ws) (use join_hd in \<open>auto simp: path_of_def IsAbs_def clean_ok_def\<close>)

lemma clean_parts_path_of:
  assumes "clean_ok r ws"
  shows "clean_parts (path_of r ws) = ws"
proof -
  have ok: "\<forall>w\<in>set ws. part_ok w" using assms by (simp add: clean_ok_def)
  have id: "foldl (clean_step r) [] ws = ws" using foldl_clean_id [of r "[]" ws] assms by simp
  show ?thesis
  proof (cases "\<not> r \<and> ws = []")
    case True
    then show ?thesis by (simp add: path_of_def clean_parts_def IsAbs_def path_parts_def clean_step_def)
  next
    case False
    then have "path_parts (path_of r ws) = ws" using path_parts_join [OF ok] by (auto simp: path_of_def)
    with id show ?thesis unfolding clean_parts_def path_of_abs [OF assms] by simp
  qed
qed

lemma clean_parts_Clean [simp]: "clean_parts (Clean s) = clean_parts s"
  by (simp add: Clean_def clean_parts_path_of clean_parts_ok)

lemma IsAbs_Clean [simp]: "IsAbs (Clean s) = IsAbs s"
  by (simp add: Clean_def path_of_abs clean_parts_ok)

lemma Clean_idem: "Clean (Clean s) = Clean s"
  by (simp only: Clean_def [of "Clean s"] IsAbs_Clean clean_parts_Clean Clean_def [of s, symmetric])

lemma path_of_inject: "clean_ok r ws \<Longrightarrow> clean_ok r vs \<Longrightarrow> path_of r ws = path_of r vs \<longleftrightarrow> ws = vs"
  by (metis clean_parts_path_of)

lemma Clean_eq_iff: "Clean s = Clean t \<longleftrightarrow> IsAbs s = IsAbs t \<and> clean_parts s = clean_parts t"
proof
  assume "Clean s = Clean t"
  then have "IsAbs (Clean s) = IsAbs (Clean t)" "clean_parts (Clean s) = clean_parts (Clean t)" by simp_all
  then show "IsAbs s = IsAbs t \<and> clean_parts s = clean_parts t" by simp
qed (simp add: Clean_def)

text \<open>A local path has no \<open>..\<close> left after cleaning.\<close>

lemma dotdot_front:
  "successively (\<lambda>a b. b = ''..'' \<longrightarrow> a = ''..'') ws \<Longrightarrow> ''..'' \<in> set ws \<Longrightarrow> hd ws = ''..''"
proof (induction ws)
  case (Cons a ws)
  then show ?case by (cases ws) auto
qed simp

lemma clean_ok_dotdot: "clean_ok r ws \<Longrightarrow> ''..'' \<in> set ws \<Longrightarrow> \<exists>vs. ws = ''..'' # vs"
  using dotdot_front [of ws] by (cases ws) (auto simp: clean_ok_def)

lemma IsLocal_parts:
  assumes "IsLocal s"
  shows "\<not> IsAbs s" "''..'' \<notin> set (clean_parts s)"
proof -
  show abs: "\<not> IsAbs s" using assms by (simp add: IsLocal_def)
  show "''..'' \<notin> set (clean_parts s)"
  proof (cases "''.'' \<in> set (path_parts s) \<or> ''..'' \<in> set (path_parts s)")
    case True
    with assms have c: "Clean s \<noteq> ''..''" "\<not> has_prefix (Clean s) ''../''" by (auto simp: IsLocal_def)
    show ?thesis
    proof
      assume "''..'' \<in> set (clean_parts s)"
      then obtain vs where "clean_parts s = ''..'' # vs" using clean_ok_dotdot [OF clean_parts_ok] by blast
      with c abs show False by (cases vs) (auto simp: Clean_def path_of_def has_prefix_def)
    qed
  next
    case False
    then have "clean_ok (IsAbs s) ([] @ path_parts s)"
    proof -
      have "successively (\<lambda>a b. b = ''..'' \<longrightarrow> a = ''..'') ws" if "''..'' \<notin> set ws" for ws
        using that by (induction ws rule: rev_induct) (auto simp: successively_append_iff)
      with False show ?thesis by (auto simp: clean_ok_def dest: path_parts_ok)
    qed
    with False show ?thesis using foldl_clean_id [of "IsAbs s" "[]" "path_parts s"] by (simp add: clean_parts_def)
  qed
qed

text \<open>Behind a base, such a path stays below the base.\<close>

lemma clean_dotdot_stays: "''..'' \<in> set out \<Longrightarrow> ''..'' \<in> set (foldl (clean_step False) out ws)"
proof (induction ws arbitrary: out)
  case (Cons w ws)
  have "''..'' \<in> set (clean_step False out w)"
    using Cons.prems by (cases out rule: rev_cases) (auto simp: clean_step_def)
  with Cons.IH show ?case by simp
qed simp

lemma foldl_clean_below:
  assumes "''..'' \<notin> set (foldl (clean_step False) acc ws)"
  shows "foldl (clean_step r) (out @ acc) ws = out @ foldl (clean_step False) acc ws"
  using assms
proof (induction ws arbitrary: acc)
  case (Cons w ws)
  have "''..'' \<notin> set (clean_step False acc w)" using Cons.prems clean_dotdot_stays by fastforce
  then have "clean_step r (out @ acc) w = out @ clean_step False acc w"
    by (cases acc rule: rev_cases) (auto simp: clean_step_def butlast_append split: if_splits)
  with Cons show ?case by simp
qed simp

lemma split_on_snoc_sep: "split_on c (s @ c # t) = split_on c s @ split_on c t"
  by (induction s) (auto split: list.splits simp: append_eq_Cons_conv)

lemma clean_parts_below:
  assumes "IsLocal s" "root \<noteq> []"
  shows "clean_parts (root @ ''/'' @ s) = clean_parts root @ clean_parts s"
proof -
  have abs: "IsAbs (root @ ''/'' @ s) = IsAbs root" using assms(2) by (cases root) (auto simp: IsAbs_def)
  have parts: "path_parts (root @ ''/'' @ s) = path_parts root @ path_parts s"
    by (simp add: path_parts_def split_on_snoc_sep)
  have "''..'' \<notin> set (foldl (clean_step False) [] (path_parts s))"
    using IsLocal_parts [OF assms(1)] by (simp add: clean_parts_def)
  from foldl_clean_below [OF this, of "IsAbs root" "clean_parts root"] IsLocal_parts(1) [OF assms(1)]
  show ?thesis using abs parts by (simp add: clean_parts_def)
qed

text \<open>The first element decides whether a path made of elements leaves its base.\<close>

lemma join_dotdot:
  assumes "part_ok w"
  shows "join_with ''/'' (w # ws) = ''..'' \<or> has_prefix (join_with ''/'' (w # ws)) ''../'' \<longleftrightarrow> w = ''..''"
proof (cases "w = ''..''")
  case True
  then show ?thesis by (cases ws) (auto simp: has_prefix_def)
next
  case False
  have w: "join_with ''/'' (w # ws) = w @ (if ws = [] then [] else CHR ''/'' # join_with ''/'' ws)" by (cases ws) auto
  consider a where "w = [a]" | a b where "w = [a, b]" | a b c v where "w = a # b # c # v"
    using assms by (cases w rule: list.exhaust; cases "tl w" rule: list.exhaust; cases "tl (tl w)" rule: list.exhaust)
      (auto simp: part_ok_def)
  then show ?thesis
  proof cases
    case 1
    then show ?thesis using assms False unfolding w by (auto simp: has_prefix_def part_ok_def)
  next
    case 2
    then show ?thesis using assms False unfolding w by (auto simp: has_prefix_def part_ok_def)
  next
    case 3
    then show ?thesis using assms False unfolding w by (auto simp: has_prefix_def part_ok_def)
  qed
qed

lemma strip_common_spec:
  "strip_common bs ts = (bs', ts') \<Longrightarrow>
   \<exists>c. bs = c @ bs' \<and> ts = c @ ts' \<and> (bs' = [] \<or> ts' = [] \<or> hd bs' \<noteq> hd ts')"
proof (induction bs ts rule: strip_common.induct)
  case (1 b bs t ts)
  show ?case
  proof (cases "b = t")
    case True
    with 1 obtain c where "bs = c @ bs'" "ts = c @ ts'" "bs' = [] \<or> ts' = [] \<or> hd bs' \<noteq> hd ts'" by auto
    with True show ?thesis by (intro exI [of _ "b # c"]) simp
  qed (use 1 in auto)
qed auto

definition rel_inside :: "string option \<Rightarrow> bool" where
  "rel_inside r \<longleftrightarrow> (\<exists>p. r = Some p \<and> p \<noteq> ''..'' \<and> \<not> has_prefix p ''../'')"

lemma Rel_inside_iff:
  assumes "IsAbs base" "IsAbs targ"
  shows "rel_inside (Rel base targ) \<longleftrightarrow> prefix (clean_parts base) (clean_parts targ)"
proof -
  have ok: "clean_ok True (clean_parts base)" "clean_ok True (clean_parts targ)"
    using clean_parts_ok [of base] clean_parts_ok [of targ] assms by simp_all
  obtain bs ts where st: "strip_common (clean_parts base) (clean_parts targ) = (bs, ts)" by fastforce
  then obtain c where c: "clean_parts base = c @ bs" "clean_parts targ = c @ ts" "bs = [] \<or> ts = [] \<or> hd bs \<noteq> hd ts"
    using strip_common_spec by blast
  have nodots: "''..'' \<notin> set bs" "''..'' \<notin> set ts" "\<forall>w\<in>set ts. part_ok w" using ok c by (auto simp: clean_ok_def)
  have pre: "prefix (clean_parts base) (clean_parts targ) \<longleftrightarrow> bs = []"
    using c by (cases bs; cases ts) auto
  show ?thesis
  proof (cases "Clean targ = Clean base")
    case True
    then show ?thesis by (auto simp: Rel_def rel_inside_def has_prefix_def Clean_eq_iff)
  next
    case False
    then have ne: "bs \<noteq> [] \<or> ts \<noteq> []" using assms c by (auto simp: Clean_eq_iff)
    have rel: "Rel base targ = Some (join_with ''/'' (replicate (length bs) ''..'' @ ts))"
      using False assms st nodots(1) by (cases bs) (auto simp: Rel_def)
    have "part_ok ''..''" by (simp add: part_ok_def)
    then show ?thesis
      using rel ne nodots join_dotdot unfolding pre rel_inside_def by (cases bs; cases ts) (auto simp del: join_with.simps)
  qed
qed

end
