(* ===== verification/Config.thy ===== *)
theory Config
  imports Event Stdlib "HOL-Library.Multiset"
begin

text \<open>
  The collector's configuration, \<open>internal/config\<close>: the records, the defaults and \<open>Validate\<close>.  The
  parsers of the standard library that the checks call (durations, URLs, host and port, file name
  patterns, UTF-16 lengths) and the working directory are the record \<open>cenv\<close>; no law about them is
  needed.  \<open>int\<close> and \<open>int64\<close> fields are integers, with the products and differences that the
  code computes wrapped to 64 bits.
\<close>

section \<open>Records\<close>

record Table =
  tb_Schema :: string
  tb_Name :: string

record FileColumn =
  fc_Schema :: string
  fc_Table :: string
  fc_Column :: string
  fc_RootDir :: string
  fc_MaxBytes :: int

record Log =
  lg_File :: string
  lg_Level :: string
  lg_MaxSizeMB :: int
  lg_MaxBackups :: int
  lg_MaxAgeDays :: int
  lg_Compress :: bool

record GRPCTLS =
  gt_CAFile :: string
  gt_ServerName :: string

record GRPC =
  gr_Address :: string
  gr_Token :: string
  gr_TLS :: GRPCTLS
  gr_MetricsInterval :: string

record Replay =
  rp_MaxAge :: string
  rp_MaxBytes :: int

record FileWatch =
  fw_RootDir :: string
  fw_ScanInterval :: string
  fw_Include :: "string list"
  fw_Exclude :: "string list"
  fw_Events :: "string list"
  fw_MaxFileBytes :: int
  fw_ChunkBytes :: int

record SQLServer =
  ss_AllowSnapshotLocks :: bool
  ss_FenceTable :: Table
  ss_PollInterval :: string
  ss_QueryTimeout :: string
  ss_SnapshotTimeout :: string
  ss_FenceTimeout :: string

record SQLServerLegacy =
  sl_AutoInstall :: bool
  sl_AllowSnapshotLocks :: bool
  sl_Owner :: string
  sl_Prefix :: string
  sl_PollInterval :: string
  sl_QueryTimeout :: string
  sl_SnapshotTimeout :: string

record MySQL =
  my_ServerID :: nat
  my_AllowSnapshotLock :: bool
  my_ConnectTimeout :: string
  my_SnapshotTimeout :: string

record Config =
  cfg_Transport :: string
  cfg_GRPC :: GRPC
  cfg_Replay :: Replay
  cfg_SourceType :: string
  cfg_SQLServer :: SQLServer
  cfg_SQLServerLegacy :: SQLServerLegacy
  cfg_MySQL :: MySQL
  cfg_FileWatch :: FileWatch
  cfg_SourceID :: string
  cfg_DSN :: string
  cfg_Slot :: string
  cfg_Tables :: "Table list"
  cfg_FileColumns :: "FileColumn list"
  cfg_DataDir :: string
  cfg_URL :: string
  cfg_Headers :: "(string \<times> string) list"
  cfg_QueueBytes :: int
  cfg_ReserveBytes :: "64 word"
  cfg_BatchRows :: int
  cfg_BatchBytes :: int
  cfg_MaxRowBytes :: int
  cfg_HTTPTimeout :: string
  cfg_RetryMin :: string
  cfg_RetryMax :: string
  cfg_MetricsAddr :: string
  cfg_Log :: Log
  cfg_Wal2JSONAutoInstall :: bool
  cfg_PostgresBinDir :: string

definition zero_Table :: Table where
  "zero_Table = \<lparr>tb_Schema = '''', tb_Name = ''''\<rparr>"

definition Defaults :: Config where
  "Defaults =
     \<lparr>cfg_Transport = '''',
      cfg_GRPC = \<lparr>gr_Address = '''', gr_Token = '''', gr_TLS = \<lparr>gt_CAFile = '''', gt_ServerName = ''''\<rparr>,
                  gr_MetricsInterval = ''30s''\<rparr>,
      cfg_Replay = \<lparr>rp_MaxAge = ''168h'', rp_MaxBytes = 20 * 2 ^ 30\<rparr>,
      cfg_SourceType = '''',
      cfg_SQLServer = \<lparr>ss_AllowSnapshotLocks = False, ss_FenceTable = zero_Table, ss_PollInterval = ''1s'',
                       ss_QueryTimeout = ''5m'', ss_SnapshotTimeout = ''1h'', ss_FenceTimeout = ''2m''\<rparr>,
      cfg_SQLServerLegacy = \<lparr>sl_AutoInstall = True, sl_AllowSnapshotLocks = False, sl_Owner = ''dbo'',
                       sl_Prefix = ''go_sync_legacy'', sl_PollInterval = ''1s'', sl_QueryTimeout = ''5m'',
                       sl_SnapshotTimeout = ''1h''\<rparr>,
      cfg_MySQL = \<lparr>my_ServerID = 100001, my_AllowSnapshotLock = False, my_ConnectTimeout = ''30s'',
                   my_SnapshotTimeout = ''1h''\<rparr>,
      cfg_FileWatch = \<lparr>fw_RootDir = '''', fw_ScanInterval = ''5s'', fw_Include = [], fw_Exclude = [],
                       fw_Events = [''create'', ''update'', ''delete''], fw_MaxFileBytes = 2 ^ 30,
                       fw_ChunkBytes = 4 * 2 ^ 20\<rparr>,
      cfg_SourceID = '''', cfg_DSN = '''', cfg_Slot = '''', cfg_Tables = [], cfg_FileColumns = [],
      cfg_DataDir = ''data'', cfg_URL = '''', cfg_Headers = [], cfg_QueueBytes = 10 * 2 ^ 30,
      cfg_ReserveBytes = 256 * 2 ^ 20, cfg_BatchRows = 500, cfg_BatchBytes = 2 ^ 20,
      cfg_MaxRowBytes = 16 * 2 ^ 20, cfg_HTTPTimeout = ''30s'', cfg_RetryMin = ''1s'', cfg_RetryMax = ''60s'',
      cfg_MetricsAddr = '''',
      cfg_Log = \<lparr>lg_File = '''', lg_Level = ''info'', lg_MaxSizeMB = 100, lg_MaxBackups = 10,
                 lg_MaxAgeDays = 30, lg_Compress = True\<rparr>,
      cfg_Wal2JSONAutoInstall = True, cfg_PostgresBinDir = ''''\<rparr>"

section \<open>Helpers of the checks\<close>

record cenv =
  ParseDuration :: "string \<Rightarrow> int option"
  url_Parse :: "string \<Rightarrow> (string \<times> string \<times> bool) option"
  SplitPort :: "string \<Rightarrow> string option"
  glob_valid :: "string \<Rightarrow> bool"
  utf16_length :: "string \<Rightarrow> nat"
  Getwd :: "string res"

text \<open>A sequence of checks that stops at the first that fails.\<close>

fun first_error :: "err option list \<Rightarrow> err option" where
  "first_error [] = None"
| "first_error (Some e # es) = Some e"
| "first_error (None # es) = first_error es"

definition reject :: "bool \<Rightarrow> string \<Rightarrow> err option" where
  "reject bad text = (if bad then Some (Err text) else None)"

lemma first_error_None [simp]: "first_error es = None \<longleftrightarrow> (\<forall>e\<in>set es. e = None)"
  by (induction es rule: first_error.induct) auto

lemma reject_None [simp]: "reject bad text = None \<longleftrightarrow> \<not> bad"
  by (simp add: reject_def)

definition wrap64 :: "int \<Rightarrow> int" where
  "wrap64 x = (x + 2 ^ 63) mod 2 ^ 64 - 2 ^ 63"

text \<open>Go's integer division truncates towards zero.\<close>

definition quot64 :: "int \<Rightarrow> int \<Rightarrow> int" where
  "quot64 a b = sgn a * sgn b * (\<bar>a\<bar> div \<bar>b\<bar>)"

definition has_nul :: "string \<Rightarrow> bool" where
  "has_nul s \<longleftrightarrow> CHR 0x00 \<in> set s"

definition ascii_between :: "char \<Rightarrow> char \<Rightarrow> char \<Rightarrow> bool" where
  "ascii_between a b c \<longleftrightarrow> a \<le> c \<and> c \<le> b"

definition is_lower :: "char \<Rightarrow> bool" where
  "is_lower = ascii_between (CHR ''a'') (CHR ''z'')"

definition is_upper :: "char \<Rightarrow> bool" where
  "is_upper = ascii_between (CHR ''A'') (CHR ''Z'')"

definition is_numeral :: "char \<Rightarrow> bool" where
  "is_numeral = ascii_between (CHR ''0'') (CHR ''9'')"

text \<open>\<open>strings.ToLower\<close> as far as comparison with ASCII words can see it: besides the ASCII letters,
  the two other code points whose lower case is an ASCII letter (\<open>U+0130\<close> and \<open>U+212A\<close>) are mapped.\<close>

fun ToLower :: "string \<Rightarrow> string" where
  "ToLower (a # b # c # s) =
     (if a = CHR 0xC4 \<and> b = CHR 0xB0 then CHR ''i'' # ToLower (c # s)
      else if a = CHR 0xE2 \<and> b = CHR 0x84 \<and> c = CHR 0xAA then CHR ''k'' # ToLower s
      else (if is_upper a then char_of (of_char a + (32::nat)) else a) # ToLower (b # c # s))"
| "ToLower [a, b] =
     (if a = CHR 0xC4 \<and> b = CHR 0xB0 then ''i''
      else (if is_upper a then char_of (of_char a + (32::nat)) else a) # ToLower [b])"
| "ToLower [a] = [if is_upper a then char_of (of_char a + (32::nat)) else a]"
| "ToLower [] = []"

text \<open>\<open>strconv.Atoi\<close>.\<close>

definition Atoi :: "string \<Rightarrow> int option" where
  "Atoi s =
     (let (neg, digits) = (case s of c # cs \<Rightarrow> if c = CHR ''-'' then (True, cs) else if c = CHR ''+'' then (False, cs) else (False, s)
                           | [] \<Rightarrow> (False, [])) in
      if digits = [] \<or> \<not> list_all is_digit digits then None
      else let n = (if neg then - int (undec digits) else int (undec digits)) in
        if - (2 ^ 63) \<le> n \<and> n < 2 ^ 63 then Some n else None)"

text \<open>\<open>filepath.Abs\<close>.\<close>

definition path_Abs :: "cenv \<Rightarrow> string \<Rightarrow> string res" where
  "path_Abs ce p =
     (if IsAbs p then Inr (Clean p)
      else case Getwd ce of Inl e \<Rightarrow> Inl e | Inr wd \<Rightarrow> Inr (path_Join wd p))"

definition positive_duration :: "cenv \<Rightarrow> string \<Rightarrow> bool" where
  "positive_duration ce v \<longleftrightarrow> (case ParseDuration ce v of None \<Rightarrow> False | Some d \<Rightarrow> 0 < d)"

definition duration_at_least :: "cenv \<Rightarrow> int \<Rightarrow> string \<Rightarrow> bool" where
  "duration_at_least ce lo v \<longleftrightarrow> (case ParseDuration ce v of None \<Rightarrow> False | Some d \<Rightarrow> lo \<le> d)"

section \<open>Checks of the sections\<close>

definition Engine :: "Config \<Rightarrow> string" where
  "Engine c = (if cfg_SourceType c = '''' then ''postgres'' else cfg_SourceType c)"

definition DeliveryTransport :: "Config \<Rightarrow> string" where
  "DeliveryTransport c = (if cfg_Transport c = '''' then ''http'' else ToLower (cfg_Transport c))"

definition mysqlIdentifier :: "string \<Rightarrow> bool" where
  "mysqlIdentifier s \<longleftrightarrow> 1 \<le> length s \<and> length s \<le> 64 \<and>
     list_all (\<lambda>c. is_upper c \<or> is_lower c \<or> is_numeral c \<or> c = CHR ''_'' \<or> c = CHR ''$'') s"

definition MySQL_validate :: "cenv \<Rightarrow> MySQL \<Rightarrow> Table list \<Rightarrow> err option" where
  "MySQL_validate ce c tables =
     first_error
      [reject (my_ServerID c = 0) ''mysql.server_id must be nonzero and unique among replication clients'',
       reject (\<not> list_all (positive_duration ce) [my_ConnectTimeout c, my_SnapshotTimeout c])
         ''mysql durations must be positive'',
       reject (\<not> list_all (\<lambda>t. mysqlIdentifier (tb_Schema t) \<and> mysqlIdentifier (tb_Name t)) tables)
         ''mysql table names must contain 1-64 letters, digits, underscores or dollar signs'']"

definition SQLServer_validate :: "cenv \<Rightarrow> SQLServer \<Rightarrow> Table list \<Rightarrow> err option" where
  "SQLServer_validate ce c tables =
     first_error
      [reject (\<not> list_all (positive_duration ce) [ss_PollInterval c, ss_QueryTimeout c, ss_SnapshotTimeout c, ss_FenceTimeout c])
         ''sqlserver durations must be positive'',
       reject (\<not> list_all (\<lambda>t. list_all (\<lambda>name. name \<noteq> '''' \<and> \<not> has_nul name \<and> utf16_length ce name \<le> 128)
                                [tb_Schema t, tb_Name t]) (tables @ [ss_FenceTable c]))
         ''sqlserver table and fence names must contain 1-128 utf16 code units and no nul'',
       reject (ss_FenceTable c \<in> set tables) ''sqlserver fence_table must not be a captured business table'']"

definition legacyIdentifier :: "string \<Rightarrow> bool" where
  "legacyIdentifier s \<longleftrightarrow>
     (case s of [] \<Rightarrow> False
      | c # cs \<Rightarrow> (is_upper c \<or> is_lower c \<or> c = CHR ''_'') \<and> length cs \<le> 63 \<and>
          list_all (\<lambda>c. is_upper c \<or> is_lower c \<or> is_numeral c \<or> c = CHR ''_'') cs)"

definition SQLServerLegacy_validate :: "cenv \<Rightarrow> SQLServerLegacy \<Rightarrow> Table list \<Rightarrow> err option" where
  "SQLServerLegacy_validate ce c tables =
     first_error
      [reject (\<not> legacyIdentifier (sl_Owner c) \<or> \<not> legacyIdentifier (sl_Prefix c))
         ''sqlserver_legacy owner and prefix must be simple identifiers of at most 64 characters'',
       reject (\<not> list_all (positive_duration ce) [sl_PollInterval c, sl_QueryTimeout c, sl_SnapshotTimeout c])
         ''sqlserver_legacy durations must be positive'',
       reject (\<not> list_all (\<lambda>t. legacyIdentifier (tb_Schema t) \<and> legacyIdentifier (tb_Name t)) tables)
         ''sqlserver_legacy table names must be simple identifiers of at most 64 characters'']"

text \<open>\<open>contains\<close> inside \<open>pathsOverlap\<close>.\<close>

definition path_contains :: "string \<Rightarrow> string \<Rightarrow> bool" where
  "path_contains parent child \<longleftrightarrow>
     (case Rel parent child of None \<Rightarrow> False | Some rel \<Rightarrow> rel \<noteq> ''..'' \<and> \<not> has_prefix rel ''../'')"

definition pathsOverlap :: "string \<Rightarrow> string \<Rightarrow> bool" where
  "pathsOverlap a b \<longleftrightarrow> path_contains a b \<or> path_contains b a"

text \<open>The loops over the patterns and over the events of a watched directory.\<close>

fun pattern_loop :: "cenv \<Rightarrow> string list \<Rightarrow> err option" where
  "pattern_loop ce [] = None"
| "pattern_loop ce (p # ps) =
     (if p = '''' \<or> has_nul p then Some (Err ''file_watch patterns must be nonempty and contain no nul'')
      else if \<not> glob_valid ce p then Some (Err (''invalid file_watch pattern '' @ p))
      else pattern_loop ce ps)"

fun event_loop :: "string set \<Rightarrow> string list \<Rightarrow> err option" where
  "event_loop seen [] =
     (if seen = {} then Some (Err ''file_watch.events must not be empty'') else None)"
| "event_loop seen (e # es) =
     (if e \<noteq> ''create'' \<and> e \<noteq> ''update'' \<and> e \<noteq> ''delete''
      then Some (Err ''file_watch.events may contain only create, update and delete'')
      else if e \<in> seen then Some (Err ''file_watch.events must be unique'')
      else event_loop (insert e seen) es)"

definition FileWatch_validate :: "cenv \<Rightarrow> FileWatch \<Rightarrow> string \<Rightarrow> int \<Rightarrow> err option" where
  "FileWatch_validate ce f dataDir maxRowBytes =
     first_error
      [reject (\<not> IsAbs (fw_RootDir f) \<or> has_nul (fw_RootDir f))
         ''file_watch.root_dir must be an absolute path without nul'',
       reject (\<not> duration_at_least ce 1000000000 (fw_ScanInterval f)) ''file_watch.scan_interval must be at least 1s'',
       reject (fw_ChunkBytes f < 65536 \<or>
               fw_ChunkBytes f > quot64 (wrap64 (wrap64 (maxRowBytes - 65536) * 3)) 4)
         ''file_watch.chunk_bytes must be at least 64 KiB and leave room for base64 below max_row_bytes'',
       reject (fw_MaxFileBytes f < fw_ChunkBytes f) ''file_watch.max_file_bytes must be at least chunk_bytes'',
       reject (fw_MaxFileBytes f > 2 ^ 40) ''file_watch.max_file_bytes must not exceed 1 TiB'',
       pattern_loop ce (fw_Include f @ fw_Exclude f),
       event_loop {} (fw_Events f),
       (case path_Abs ce (fw_RootDir f) of
          Inl e \<Rightarrow> Some e
        | Inr root \<Rightarrow> (case path_Abs ce dataDir of
            Inl e \<Rightarrow> Some e
          | Inr data \<Rightarrow> reject (pathsOverlap root data) ''file_watch.root_dir and data_dir must not overlap''))]"

definition Log_validate :: "Log \<Rightarrow> err option" where
  "Log_validate l =
     first_error
      [reject (has_nul (lg_File l)) ''log.file must not contain nul'',
       reject (ToLower (lg_Level l) \<notin> set [''debug'', ''info'', ''warn'', ''error''])
         ''log.level must be debug, info, warn or error'',
       reject (lg_MaxSizeMB l < 1 \<or> lg_MaxSizeMB l > 10240) ''log.max_size_mb must be between 1 and 10240'',
       reject (lg_MaxBackups l < 0 \<or> lg_MaxBackups l > 10000) ''log.max_backups must be between 0 and 10000'',
       reject (lg_MaxAgeDays l < 0 \<or> lg_MaxAgeDays l > 36500) ''log.max_age_days must be between 0 and 36500'']"

section \<open>Validate\<close>

fun table_loop :: "Table set \<Rightarrow> Table list \<Rightarrow> err option" where
  "table_loop seen [] = None"
| "table_loop seen (t # ts) =
     (if tb_Schema t = '''' \<or> tb_Name t = '''' \<or> has_nul (tb_Schema t @ tb_Name t) \<or> t \<in> seen
      then Some (Err ''table names must be nonempty, unique and contain no nul'')
      else table_loop (insert t seen) ts)"

fun file_rule_loop :: "int \<Rightarrow> Table set \<Rightarrow> (string \<times> string \<times> string) set \<Rightarrow> FileColumn list \<Rightarrow> err option" where
  "file_rule_loop maxRow seen done [] = None"
| "file_rule_loop maxRow seen done (r # rs) =
     (if fc_Schema r = '''' \<or> fc_Table r = '''' \<or> fc_Column r = '''' \<or> fc_RootDir r = '''' \<or>
         has_nul (fc_Schema r @ fc_Table r @ fc_Column r @ fc_RootDir r)
      then Some (Err ''file_columns require schema, table, column and root_dir without nul'')
      else if \<not> IsAbs (fc_RootDir r) then Some (Err ''file_columns root_dir must be an absolute path'')
      else if fc_MaxBytes r < 1 \<or> fc_MaxBytes r > maxRow
      then Some (Err ''file_columns max_bytes must be positive and no larger than max_row_bytes'')
      else if \<lparr>tb_Schema = fc_Schema r, tb_Name = fc_Table r\<rparr> \<notin> seen
      then Some (Err ''file_columns must reference a selected table'')
      else if (fc_Schema r, fc_Table r, fc_Column r) \<in> done then Some (Err ''file_columns must be unique'')
      else file_rule_loop maxRow seen (insert (fc_Schema r, fc_Table r, fc_Column r) done) rs)"

definition source_id_ok :: "string \<Rightarrow> bool" where
  "source_id_ok s \<longleftrightarrow> 1 \<le> length s \<and> length s \<le> 128 \<and>
     list_all (\<lambda>c. is_upper c \<or> is_lower c \<or> is_numeral c \<or> c \<in> set ''_.-'') s"

definition slot_ok :: "string \<Rightarrow> bool" where
  "slot_ok s \<longleftrightarrow> 1 \<le> length s \<and> length s \<le> 63 \<and> list_all (\<lambda>c. is_lower c \<or> is_numeral c \<or> c = CHR ''_'') s"

definition metrics_addr_ok :: "cenv \<Rightarrow> string \<Rightarrow> bool" where
  "metrics_addr_ok ce a \<longleftrightarrow>
     (case SplitPort ce a of None \<Rightarrow> False
      | Some port \<Rightarrow> (case Atoi port of None \<Rightarrow> False | Some n \<Rightarrow> 1 \<le> n \<and> n \<le> 65535))"

definition transport_error :: "cenv \<Rightarrow> Config \<Rightarrow> err option" where
  "transport_error ce c =
     (if DeliveryTransport c = ''http'' then
        reject (case url_Parse ce (cfg_URL c) of None \<Rightarrow> True
                | Some (scheme, host, user) \<Rightarrow> host = '''' \<or> (scheme \<noteq> ''http'' \<and> scheme \<noteq> ''https'') \<or> user)
          ''http_url must be an http(s) url without credentials''
      else if DeliveryTransport c = ''grpc'' then
        first_error
          [reject (gr_Address (cfg_GRPC c) = '''' \<or> gr_Token (cfg_GRPC c) = '''' \<or> gt_CAFile (gr_TLS (cfg_GRPC c)) = '''')
             ''grpc address, token and tls.ca_file are required'',
           reject (has_nul (gr_Address (cfg_GRPC c) @ gt_CAFile (gr_TLS (cfg_GRPC c)) @ gt_ServerName (gr_TLS (cfg_GRPC c))))
             ''grpc configuration must not contain nul'']
      else Some (Err ''transport must be http or grpc''))"

definition duration_of :: "cenv \<Rightarrow> string \<Rightarrow> int" where
  "duration_of ce v = (case ParseDuration ce v of None \<Rightarrow> 0 | Some d \<Rightarrow> d)"

definition Validate :: "cenv \<Rightarrow> Config \<Rightarrow> err option" where
  "Validate ce c =
     first_error
      [reject (Engine c \<notin> set [''postgres'', ''sqlserver'', ''sqlserver_legacy'', ''mysql'', ''files''])
         ''source_type must be postgres, sqlserver, sqlserver_legacy, mysql or files'',
       (if Engine c = ''sqlserver'' then SQLServer_validate ce (cfg_SQLServer c) (cfg_Tables c) else None),
       (if Engine c = ''sqlserver_legacy'' then SQLServerLegacy_validate ce (cfg_SQLServerLegacy c) (cfg_Tables c) else None),
       (if Engine c = ''mysql'' then MySQL_validate ce (cfg_MySQL c) (cfg_Tables c) else None),
       (if Engine c = ''files'' then FileWatch_validate ce (cfg_FileWatch c) (cfg_DataDir c) (cfg_MaxRowBytes c) else None),
       reject (has_nul (cfg_PostgresBinDir c)) ''postgres_bin_dir must not contain nul'',
       Log_validate (cfg_Log c),
       reject (cfg_MetricsAddr c \<noteq> '''' \<and> \<not> metrics_addr_ok ce (cfg_MetricsAddr c))
         ''metrics_addr must be host:port with a numeric port between 1 and 65535'',
       reject (cfg_SourceID c = '''' \<or> cfg_DataDir c = '''' \<or> (Engine c \<noteq> ''files'' \<and> cfg_DSN c = ''''))
         ''source_id, data_dir and (for database sources) dsn are required'',
       reject (\<not> source_id_ok (cfg_SourceID c))
         ''source_id must contain 1-128 ascii letters, digits, dots, underscores or hyphens'',
       reject (Engine c = ''postgres'' \<and> \<not> slot_ok (cfg_Slot c))
         ''slot must contain 1-63 lowercase letters, digits or underscores'',
       transport_error ce c,
       reject (Engine c \<noteq> ''files'' \<and> cfg_Tables c = []) ''tables must not be empty'',
       table_loop {} (cfg_Tables c),
       reject (cfg_BatchRows c < 1 \<or> cfg_BatchBytes c < 1024 \<or> cfg_MaxRowBytes c < cfg_BatchBytes c \<or>
               cfg_QueueBytes c < wrap64 (cfg_MaxRowBytes c * 2)) ''invalid batch or queue limits'',
       file_rule_loop (cfg_MaxRowBytes c) (set (cfg_Tables c)) {} (cfg_FileColumns c),
       reject (\<not> list_all (positive_duration ce) [cfg_HTTPTimeout c, cfg_RetryMin c, cfg_RetryMax c])
         ''timeouts must be positive durations'',
       reject (\<not> positive_duration ce (rp_MaxAge (cfg_Replay c))) ''replay.max_age must be a positive duration'',
       reject (rp_MaxBytes (cfg_Replay c) < 2 ^ 20) ''replay.max_bytes must be at least 1 MiB'',
       reject (\<not> duration_at_least ce 5000000000 (gr_MetricsInterval (cfg_GRPC c)))
         ''grpc.metrics_interval must be at least 5s'',
       reject (duration_of ce (cfg_RetryMin c) > duration_of ce (cfg_RetryMax c)) ''retry_min exceeds retry_max'',
       reject (\<exists>(k, v)\<in>set (cfg_Headers c). CHR 0x0D \<in> set (k @ v) \<or> CHR 0x0A \<in> set (k @ v) \<or> k = '''')
         ''invalid http header'']"

section \<open>Loading\<close>

text \<open>\<open>Load\<close>: \<open>content\<close> is the result of opening the file, \<open>decode\<close> decodes the first JSON
  value over the defaults and gives the rest of the text, \<open>at_end\<close> says that nothing follows it and
  \<open>expand\<close> is \<open>os.ExpandEnv\<close>.\<close>

definition expand_secrets :: "(string \<Rightarrow> string) \<Rightarrow> Config \<Rightarrow> Config" where
  "expand_secrets expand c =
     c\<lparr>cfg_DSN := expand (cfg_DSN c),
       cfg_GRPC := (cfg_GRPC c)\<lparr>gr_Token := expand (gr_Token (cfg_GRPC c))\<rparr>,
       cfg_Headers := map (\<lambda>(k, v). (k, expand v)) (cfg_Headers c)\<rparr>"

definition Load ::
  "cenv \<Rightarrow> string res \<Rightarrow> (Config \<Rightarrow> string \<Rightarrow> (Config \<times> string) res) \<Rightarrow> (string \<Rightarrow> bool) \<Rightarrow> (string \<Rightarrow> string) \<Rightarrow> Config res" where
  "Load ce content decode at_end expand =
     (case content of
        Inl e \<Rightarrow> Inl e
      | Inr text \<Rightarrow>
          (case decode Defaults text of
             Inl e \<Rightarrow> Inl (Wrap ''config'' e)
           | Inr (c, rest) \<Rightarrow>
               if \<not> at_end rest then Inl (Err ''config: trailing json'')
               else (case Validate ce (expand_secrets expand c) of
                       Some e \<Rightarrow> Inl e
                     | None \<Rightarrow> Inr (expand_secrets expand c))))"

section \<open>Fingerprint\<close>

definition Table_String :: "Table \<Rightarrow> string" where
  "Table_String t = tb_Schema t @ ''.'' @ tb_Name t"

text \<open>The struct values that are encoded as JSON and hashed.\<close>

datatype fingerprint =
    FP_Postgres string string "Table list"
  | FP_Engine string string "Table list"
  | FP_MySQL string string nat "Table list"
  | FP_Files string string FileWatch
  | FP_FileColumns string string string "Table list" "FileColumn list"

definition file_column_key :: "FileColumn \<Rightarrow> string" where
  "file_column_key f = fc_Schema f @ [CHR 0x00] @ fc_Table f @ [CHR 0x00] @ fc_Column f"

definition fingerprint_value :: "Config \<Rightarrow> fingerprint" where
  "fingerprint_value c =
     (let tables = sort_key Table_String (cfg_Tables c) in
      if cfg_FileColumns c \<noteq> [] then
        FP_FileColumns (Engine c) (cfg_SourceID c) (cfg_Slot c) tables (sort_key file_column_key (cfg_FileColumns c))
      else if Engine c = ''files'' then FP_Files (Engine c) (cfg_SourceID c) (cfg_FileWatch c)
      else if Engine c = ''mysql'' then FP_MySQL (Engine c) (cfg_SourceID c) (my_ServerID (cfg_MySQL c)) tables
      else if Engine c = ''sqlserver'' \<or> Engine c = ''sqlserver_legacy''
      then FP_Engine (Engine c) (cfg_SourceID c) tables
      else FP_Postgres (cfg_SourceID c) (cfg_Slot c) tables)"

text \<open>\<open>json\<close> encodes the struct and \<open>sha256\<close> hashes the text.\<close>

definition Fingerprint :: "(string \<Rightarrow> string) \<Rightarrow> (fingerprint \<Rightarrow> string) \<Rightarrow> Config \<Rightarrow> string" where
  "Fingerprint sha256 json c = hex_EncodeToString (sha256 (json (fingerprint_value c)))"

section \<open>Facts\<close>

lemma path_contains_iff: "IsAbs a \<Longrightarrow> IsAbs b \<Longrightarrow> path_contains a b \<longleftrightarrow> prefix (clean_parts a) (clean_parts b)"
  using Rel_inside_iff [of a b] by (auto simp: path_contains_def rel_inside_def split: option.splits)

lemma path_Abs_abs: "path_Abs ce p = Inr r \<Longrightarrow> (\<And>wd. Getwd ce = Inr wd \<Longrightarrow> IsAbs wd) \<Longrightarrow> IsAbs r"
  by (auto simp: path_Abs_def path_Join_def split: if_splits sum.splits) (auto simp: IsAbs_def)

lemma table_loop_None:
  "table_loop seen ts = None \<longleftrightarrow> distinct ts \<and> set ts \<inter> seen = {} \<and>
     (\<forall>t\<in>set ts. tb_Schema t \<noteq> '''' \<and> tb_Name t \<noteq> '''' \<and> \<not> has_nul (tb_Schema t @ tb_Name t))"
  by (induction ts arbitrary: seen) auto

lemma file_rule_loop_None:
  "file_rule_loop maxRow seen done rs = None \<Longrightarrow>
   distinct (map (\<lambda>r. (fc_Schema r, fc_Table r, fc_Column r)) rs) \<and>
   (\<forall>r\<in>set rs. IsAbs (fc_RootDir r) \<and> 1 \<le> fc_MaxBytes r \<and> fc_MaxBytes r \<le> maxRow \<and>
      \<lparr>tb_Schema = fc_Schema r, tb_Name = fc_Table r\<rparr> \<in> seen \<and> (fc_Schema r, fc_Table r, fc_Column r) \<notin> done)"
proof (induction rs arbitrary: "done")
  case (Cons r rs)
  let ?k = "(fc_Schema r, fc_Table r, fc_Column r)"
  from Cons.prems have ok: "IsAbs (fc_RootDir r)" "1 \<le> fc_MaxBytes r" "fc_MaxBytes r \<le> maxRow"
    "\<lparr>tb_Schema = fc_Schema r, tb_Name = fc_Table r\<rparr> \<in> seen" "?k \<notin> done"
    and rest: "file_rule_loop maxRow seen (insert ?k done) rs = None"
    by (simp_all split: if_splits)
  from Cons.IH [OF rest] ok show ?case by force
qed simp

lemma wrap64_id: "- (2 ^ 63) \<le> x \<Longrightarrow> x < 2 ^ 63 \<Longrightarrow> wrap64 x = x"
  by (simp add: wrap64_def)

lemma source_id_no_slash: "source_id_ok s \<Longrightarrow> CHR ''/'' \<notin> set s"
  by (auto simp: source_id_ok_def list_all_iff is_upper_def is_lower_def is_numeral_def ascii_between_def less_eq_char_def)

lemma sort_key_perm:
  assumes "mset xs = mset ys" "inj_on f (set xs)"
  shows "sort_key f xs = sort_key f ys"
  by (rule sort_key_inj_key_eq) (use assms in simp_all)

section \<open>Properties\<close>


definition sample_cenv :: cenv where
  "sample_cenv = \<lparr>ParseDuration = (\<lambda>v. map_of [(''1s'', 1000000000), (''5s'', 5000000000), (''30s'', 30000000000), (''60s'', 60000000000), (''168h'', 604800000000000)] v),
     url_Parse = (\<lambda>_. Some (''https'', ''example.org'', False)), SplitPort = (\<lambda>_. Some ''9090''), glob_valid = (\<lambda>_. True),
     utf16_length = length, Getwd = Inr ''/srv''\<rparr>"

definition sample_config :: Config where
  "sample_config = Defaults\<lparr>cfg_SourceID := ''src'', cfg_DSN := ''postgres://db'', cfg_Slot := ''slot_1'',
     cfg_Tables := [\<lparr>tb_Schema = ''public'', tb_Name = ''t''\<rparr>],
     cfg_FileColumns := [\<lparr>fc_Schema = ''public'', fc_Table = ''t'', fc_Column = ''doc'', fc_RootDir = ''/files'', fc_MaxBytes = 1000\<rparr>]\<rparr>"


text \<open>Two absolute directories overlap, in the sense that the code refuses, exactly when the
  cleaned elements of one are an initial part of those of the other.\<close>

theorem pathsOverlap_iff:
  assumes "IsAbs a" "IsAbs b"
  shows "pathsOverlap a b \<longleftrightarrow> prefix (clean_parts a) (clean_parts b) \<or> prefix (clean_parts b) (clean_parts a)"
  using assms by (simp add: pathsOverlap_def path_contains_iff)

theorem pathsOverlap_iff_witness: "pathsOverlap ''/data/./files'' ''/data/files/../files/q'' \<and> \<not> pathsOverlap ''/data/a'' ''/data/ab''"
proof -
  have "IsAbs ''/data/./files''" "IsAbs ''/data/files/../files/q''" "IsAbs ''/data/a''" "IsAbs ''/data/ab''"
    by (simp_all add: IsAbs_def)
  then show ?thesis using pathsOverlap_iff [of "''/data/./files''" "''/data/files/../files/q''"] pathsOverlap_iff [of "''/data/a''" "''/data/ab''"]
    by (simp add: clean_parts_def path_parts_def clean_step_def IsAbs_def)
qed

text \<open>The fingerprint of the capture scope does not depend on the order in which the tables and the
  file rules are written.\<close>

theorem Fingerprint_order:
  assumes "mset (cfg_Tables c) = mset ts" "inj_on Table_String (set (cfg_Tables c))"
    and "mset (cfg_FileColumns c) = mset fs" "inj_on file_column_key (set (cfg_FileColumns c))"
  shows "Fingerprint sha json (c\<lparr>cfg_Tables := ts, cfg_FileColumns := fs\<rparr>) = Fingerprint sha json c"
proof -
  have "fs = [] \<longleftrightarrow> cfg_FileColumns c = []" using assms(3) by (metis mset_zero_iff)
  moreover have "Engine (c\<lparr>cfg_Tables := ts, cfg_FileColumns := fs\<rparr>) = Engine c" by (simp add: Engine_def)
  ultimately show ?thesis
    using sort_key_perm [OF assms(1,2)] sort_key_perm [OF assms(3,4)]
    by (simp add: Fingerprint_def fingerprint_value_def Let_def)
qed

theorem Fingerprint_order_witness:
  "Fingerprint id (\<lambda>_. ''x'') (sample_config\<lparr>cfg_Tables := [\<lparr>tb_Schema = ''public'', tb_Name = ''t''\<rparr>], cfg_FileColumns := cfg_FileColumns sample_config\<rparr>) =
   Fingerprint id (\<lambda>_. ''x'') sample_config"
  by (rule Fingerprint_order) (simp_all add: sample_config_def Defaults_def)

end
