(* ===== verification/FileEmbed.thy ===== *)
theory FileEmbed
  imports Config
begin

text \<open>
  \<open>internal/fileembed/fileembed.go\<close>: replacing a path in a configured column by the content of the
  file below the rule's root directory.  The file system is the record \<open>fenv\<close>: whether a root can be
  opened, and what opening a relative path inside it gives.  \<open>os.Root\<close> itself refuses to follow
  links out of the root; the theorems here are about the path that is handed to it.
\<close>

section \<open>Model\<close>

record opened =
  op_Regular :: bool
  op_Size :: int
  op_Data :: "string res"

record fenv =
  OpenRoot :: "string \<Rightarrow> bool"
  root_Open :: "string \<Rightarrow> string \<Rightarrow> opened option"

text \<open>The path below the root that a column value names.\<close>

definition embed_rel :: "FileColumn \<Rightarrow> string \<Rightarrow> string res" where
  "embed_rel rule value =
     (if value = '''' then Inl (Err ''path is empty'')
      else
        (case (if IsAbs (Clean value) then Rel (Clean (fc_RootDir rule)) (Clean value) else Some (Clean value)) of
           None \<Rightarrow> Inl (Err ''referenced file escapes root_dir'')
         | Some rel \<Rightarrow>
             if \<not> IsLocal rel \<or> rel = ''.'' \<or> has_nul rel then Inl (Err ''referenced file escapes root_dir'')
             else Inr rel))"

definition embed_read :: "fenv \<Rightarrow> FileColumn \<Rightarrow> string \<Rightarrow> string res" where
  "embed_read fe rule value =
     (case embed_rel rule value of
        Inl e \<Rightarrow> Inl e
      | Inr rel \<Rightarrow>
          if \<not> OpenRoot fe (fc_RootDir rule) then Inl (Err ''root directory is unavailable'')
          else (case root_Open fe (fc_RootDir rule) rel of
                  None \<Rightarrow> Inl (Err ''referenced file cannot be opened'')
                | Some f \<Rightarrow>
                    if \<not> op_Regular f then Inl (Err ''reference is not a regular file'')
                    else if op_Size f > fc_MaxBytes rule then Inl (Err ''referenced file exceeds max_bytes'')
                    else (case op_Data f of
                            Inl _ \<Rightarrow> Inl (Err ''referenced file cannot be read'')
                          | Inr all \<Rightarrow>
                              (let data = take (nat (fc_MaxBytes rule + 1)) all in
                               if int (length data) > fc_MaxBytes rule
                               then Inl (Err ''referenced file exceeds max_bytes'')
                               else Inr (b64_encode b64_std True data)))))"

definition embed_column :: "fenv \<Rightarrow> FileColumn \<Rightarrow> Column \<Rightarrow> Column res" where
  "embed_column fe rule c =
     (if c_Name c \<noteq> fc_Column rule then Inr c
      else case c_Value c of
          None \<Rightarrow> Inr c
        | Some v \<Rightarrow>
            (case embed_read fe rule v of
               Inl e \<Rightarrow> Inl (Wrap (''embed file for '' @ fc_Schema rule @ ''.'' @ fc_Table rule @ ''.'' @ fc_Column rule) e)
             | Inr encoded \<Rightarrow>
                 Inr (c\<lparr>c_Value := Some encoded, c_SourceValue := Some v, c_Encoding := ''base64''\<rparr>)))"

fun embed_columns :: "fenv \<Rightarrow> FileColumn \<Rightarrow> Column list \<Rightarrow> Column list res" where
  "embed_columns fe rule [] = Inr []"
| "embed_columns fe rule (c # cs) =
     (case embed_column fe rule c of
        Inl e \<Rightarrow> Inl e
      | Inr c' \<Rightarrow> (case embed_columns fe rule cs of Inl e \<Rightarrow> Inl e | Inr cs' \<Rightarrow> Inr (c' # cs')))"

definition apply_rule :: "fenv \<Rightarrow> Row \<Rightarrow> FileColumn \<Rightarrow> Row res" where
  "apply_rule fe row rule =
     (if fc_Schema rule \<noteq> r_Schema row \<or> fc_Table rule \<noteq> r_Table row then Inr row
      else case embed_columns fe rule (r_Columns row) of
          Inl e \<Rightarrow> Inl e
        | Inr cs \<Rightarrow> Inr (row\<lparr>r_Columns := cs\<rparr>))"

definition Apply :: "fenv \<Rightarrow> Config \<Rightarrow> Row \<Rightarrow> Row res" where
  "Apply fe cfg row = foldM (apply_rule fe) row (cfg_FileColumns cfg)"

section \<open>Facts\<close>

lemma successively_dots: "successively (\<lambda>a b. b = ''..'' \<longrightarrow> a = ''..'') (replicate k ''..'')"
  by (induction k) (auto simp: successively_Cons)

lemma Rel_clean:
  assumes "Rel base targ = Some r"
  shows "r = ''.'' \<or> (\<exists>ws. ws \<noteq> [] \<and> clean_ok False ws \<and> r = path_of False ws)"
proof (cases "Clean targ = Clean base")
  case True
  with assms show ?thesis by (simp add: Rel_def)
next
  case False
  obtain bs ts where st: "strip_common (clean_parts base) (clean_parts targ) = (bs, ts)" by fastforce
  then obtain c where c: "clean_parts base = c @ bs" "clean_parts targ = c @ ts" using strip_common_spec by blast
  have abs: "IsAbs base = IsAbs targ" and r: "r = join_with ''/'' (replicate (length bs) ''..'' @ ts)"
    using assms False st by (auto simp: Rel_def split: if_splits)
  have ne: "replicate (length bs) ''..'' @ ts \<noteq> []" using False abs c by (auto simp: Clean_eq_iff)
  have "clean_ok (IsAbs targ) (c @ ts)" using clean_parts_ok [of targ] c by simp
  then have ts: "\<forall>w\<in>set ts. part_ok w \<and> w \<noteq> ''.''" "successively (\<lambda>a b. b = ''..'' \<longrightarrow> a = ''..'') ts"
    unfolding clean_ok_def successively_append_iff by simp_all
  have "bs \<noteq> [] \<Longrightarrow> last (replicate (length bs) ''..'') = ''..''" by simp
  then have "successively (\<lambda>a b. b = ''..'' \<longrightarrow> a = ''..'') (replicate (length bs) ''..'' @ ts)"
    unfolding successively_append_iff using successively_dots [of "length bs"] ts(2) by (cases "bs = []") simp_all
  moreover have "\<forall>w\<in>set (replicate (length bs) ''..'' @ ts). part_ok w \<and> w \<noteq> ''.''"
  proof
    fix w assume "w \<in> set (replicate (length bs) ''..'' @ ts)"
    then consider "w = ''..''" | "w \<in> set ts" by (auto dest: in_set_replicate [THEN iffD1])
    then show "part_ok w \<and> w \<noteq> ''.''" using ts(1) by cases (simp_all add: part_ok_def)
  qed
  ultimately have "clean_ok False (replicate (length bs) ''..'' @ ts)" by (simp only: clean_ok_def simp_thms)
  moreover have "r = path_of False (replicate (length bs) ''..'' @ ts)" by (simp only: path_of_def r ne if_False)
  ultimately show ?thesis using ne by blast
qed

lemma embed_rel_local: "embed_rel rule v = Inr rel \<Longrightarrow> IsLocal rel \<and> rel \<noteq> ''.''"
  by (auto simp: embed_rel_def split: if_splits option.splits)

lemma embed_rel_below:
  assumes "embed_rel rule v = Inr rel"
  shows "clean_parts rel \<noteq> []"
proof -
  have ne: "rel \<noteq> ''.''" using embed_rel_local [OF assms] by simp
  have "\<exists>ws. ws \<noteq> [] \<and> clean_ok False ws \<and> rel = path_of False ws"
  proof (cases "IsAbs (Clean v)")
    case True
    with assms have "Rel (Clean (fc_RootDir rule)) (Clean v) = Some rel"
      by (auto simp: embed_rel_def split: if_splits option.splits)
    from Rel_clean [OF this] ne show ?thesis by blast
  next
    case False
    with assms have "rel = Clean v" by (auto simp: embed_rel_def split: if_splits)
    then have rel: "rel = path_of False (clean_parts v)" "clean_ok False (clean_parts v)"
      using False [unfolded IsAbs_Clean] clean_parts_ok [of v] by (simp_all add: Clean_def)
    moreover have "clean_parts v \<noteq> []" using ne rel(1) unfolding path_of_def by (metis (full_types))
    ultimately show ?thesis by blast
  qed
  then show ?thesis by (elim exE conjE) (simp add: clean_parts_path_of)
qed

lemma embed_read_Inr:
  assumes "embed_read fe rule v = Inr s"
  obtains rel f data where "embed_rel rule v = Inr rel" "root_Open fe (fc_RootDir rule) rel = Some f" "op_Regular f"
    "op_Data f = Inr data" "int (length data) \<le> fc_MaxBytes rule" "s = b64_encode b64_std True data"
proof -
  from assms obtain rel f all where rel: "embed_rel rule v = Inr rel" "root_Open fe (fc_RootDir rule) rel = Some f"
    "op_Regular f" "op_Data f = Inr all" and len: "\<not> int (length (take (nat (fc_MaxBytes rule + 1)) all)) > fc_MaxBytes rule"
    and s: "s = b64_encode b64_std True (take (nat (fc_MaxBytes rule + 1)) all)"
    by (auto simp: embed_read_def Let_def split: sum.splits if_splits option.splits)
  have "take (nat (fc_MaxBytes rule + 1)) all = all" "int (length all) \<le> fc_MaxBytes rule"
    using len by (auto simp: min_def split: if_splits)
  with rel s that show ?thesis by auto
qed

text \<open>What embedding a rule does to one column.\<close>

definition embedded :: "fenv \<Rightarrow> FileColumn \<Rightarrow> Column \<Rightarrow> Column \<Rightarrow> bool" where
  "embedded fe rule c c' \<longleftrightarrow>
     (if c_Name c = fc_Column rule \<and> c_Value c \<noteq> None
      then \<exists>v s. c_Value c = Some v \<and> embed_read fe rule v = Inr s \<and>
             c' = c\<lparr>c_Value := Some s, c_SourceValue := Some v, c_Encoding := ''base64''\<rparr>
      else c' = c)"

lemma embed_columns_Inr: "embed_columns fe rule cs = Inr cs' \<Longrightarrow> list_all2 (embedded fe rule) cs cs'"
  by (induction cs arbitrary: cs')
    (auto simp: embed_column_def embedded_def split: sum.splits if_splits option.splits)

lemma apply_rule_frame:
  assumes "apply_rule fe row rule = Inr row'"
  shows "row' = row\<lparr>r_Columns := r_Columns row'\<rparr> \<and> map c_Name (r_Columns row') = map c_Name (r_Columns row)"
proof -
  have "list_all2 (embedded fe rule) cs cs' \<Longrightarrow> map c_Name cs' = map c_Name cs" for cs cs'
    by (induction rule: list_all2_induct) (auto simp: embedded_def split: if_splits)
  then show ?thesis
    using assms by (auto simp: apply_rule_def dest: embed_columns_Inr split: if_splits sum.splits)
qed

lemma Apply_frame:
  assumes "Apply fe cfg row = Inr row'"
  shows "row' = row\<lparr>r_Columns := r_Columns row'\<rparr> \<and> map c_Name (r_Columns row') = map c_Name (r_Columns row)"
proof (rule foldM_invariant [OF assms [unfolded Apply_def]])
  fix r rule r' assume r: "r = row\<lparr>r_Columns := r_Columns r\<rparr> \<and> map c_Name (r_Columns r) = map c_Name (r_Columns row)"
    and step: "apply_rule fe r rule = Inr r'"
  from r obtain cs where "r = row\<lparr>r_Columns := cs\<rparr>" "map c_Name cs = map c_Name (r_Columns row)" by metis
  with apply_rule_frame [OF step]
  show "r' = row\<lparr>r_Columns := r_Columns r'\<rparr> \<and> map c_Name (r_Columns r') = map c_Name (r_Columns row)" by simp
qed simp

section \<open>Properties\<close>

text \<open>A file is embedded only from below its root: the path handed to the opened root, put behind the
  root, extends the root by at least one element after cleaning, whatever the column held; and what
  is embedded is the base64 text of the whole file, which is within the rule's limit.\<close>

theorem embed_read_confined:
  assumes "embed_read fe rule v = Inr s" "fc_RootDir rule \<noteq> ''''"
  shows "\<exists>rel f data. root_Open fe (fc_RootDir rule) rel = Some f \<and> op_Data f = Inr data \<and>
     strict_prefix (clean_parts (fc_RootDir rule)) (clean_parts (fc_RootDir rule @ ''/'' @ rel)) \<and>
     int (length data) \<le> fc_MaxBytes rule \<and> b64_decode b64_std True s = Some data"
proof -
  obtain rel f data where r: "embed_rel rule v = Inr rel" "root_Open fe (fc_RootDir rule) rel = Some f"
    "op_Data f = Inr data" "int (length data) \<le> fc_MaxBytes rule" "s = b64_encode b64_std True data"
    by (rule embed_read_Inr [OF assms(1)])
  have local: "IsLocal rel" "rel \<noteq> ''.''" using embed_rel_local [OF r(1)] by auto
  have "clean_parts rel \<noteq> []" by (rule embed_rel_below [OF r(1)])
  then have "strict_prefix (clean_parts (fc_RootDir rule)) (clean_parts (fc_RootDir rule @ ''/'' @ rel))"
    using clean_parts_below [OF local(1) assms(2)] by (simp add: strict_prefix_def)
  with r show ?thesis by (metis b64_roundtrip b64_std_alphabet)
qed

definition sample_fenv :: fenv where
  "sample_fenv = \<lparr>OpenRoot = (\<lambda>r. r = ''/files''),
     root_Open = (\<lambda>root rel. if rel = ''doc'' then Some \<lparr>op_Regular = True, op_Size = 3, op_Data = Inr ''abc''\<rparr> else None)\<rparr>"

definition sample_rule :: FileColumn where
  "sample_rule = \<lparr>fc_Schema = ''public'', fc_Table = ''t'', fc_Column = ''doc'', fc_RootDir = ''/files'', fc_MaxBytes = 1000\<rparr>"

lemma sample_embed: "embed_read sample_fenv sample_rule ''/files/x/../doc'' = Inr (b64_encode b64_std True ''abc'')"
proof -
  have rel: "embed_rel sample_rule ''/files/x/../doc'' = Inr ''doc''"
    by (simp add: embed_rel_def sample_rule_def Clean_def path_of_def clean_parts_def path_parts_def clean_step_def IsAbs_def
        Rel_def IsLocal_def has_prefix_def has_nul_def)
  show ?thesis by (simp add: embed_read_def rel) (simp add: sample_rule_def sample_fenv_def)
qed

theorem embed_read_confined_witness:
  "\<exists>rel f data. root_Open sample_fenv ''/files'' rel = Some f \<and> op_Data f = Inr data \<and>
     strict_prefix (clean_parts ''/files'') (clean_parts (''/files'' @ ''/'' @ rel))"
  using embed_read_confined [OF sample_embed] by (auto simp: sample_rule_def)

text \<open>\<open>Apply\<close> changes nothing of a row but the values of its columns: the operation, the key, the old
  key and the names of the columns stay.\<close>

theorem Apply_keeps_keys:
  assumes "Apply fe cfg row = Inr row'"
  shows "r_Key row' = r_Key row \<and> r_OldKey row' = r_OldKey row \<and> r_Operation row' = r_Operation row \<and>
     r_Identity row' = r_Identity row \<and> map c_Name (r_Columns row') = map c_Name (r_Columns row)"
proof -
  obtain cs where "row' = row\<lparr>r_Columns := cs\<rparr>" "map c_Name (r_Columns row') = map c_Name (r_Columns row)"
    using Apply_frame [OF assms] by blast
  then show ?thesis by simp
qed

theorem Apply_keeps_keys_witness:
  "\<exists>row'. Apply sample_fenv (Defaults\<lparr>cfg_FileColumns := [sample_rule]\<rparr>)
       (zero_Row\<lparr>r_Schema := ''public'', r_Table := ''t'', r_Columns := [zero_Column\<lparr>c_Name := ''doc'', c_Value := Some ''/files/x/../doc''\<rparr>]\<rparr>) = Inr row' \<and>
     r_Key row' = [] \<and> map c_Name (r_Columns row') = [''doc'']"
proof -
  let ?row = "zero_Row\<lparr>r_Schema := ''public'', r_Table := ''t'', r_Columns := [zero_Column\<lparr>c_Name := ''doc'', c_Value := Some ''/files/x/../doc''\<rparr>]\<rparr>"
  have "fc_Schema sample_rule = ''public''" "fc_Table sample_rule = ''t''" "fc_Column sample_rule = ''doc''"
    by (simp_all add: sample_rule_def)
  then have "\<exists>row'. Apply sample_fenv (Defaults\<lparr>cfg_FileColumns := [sample_rule]\<rparr>) ?row = Inr row'"
    by (simp add: Apply_def apply_rule_def embed_column_def sample_embed)
  then obtain row' where row': "Apply sample_fenv (Defaults\<lparr>cfg_FileColumns := [sample_rule]\<rparr>) ?row = Inr row'" by blast
  from Apply_keeps_keys [OF row'] row' show ?thesis by (auto simp: zero_Row_def zero_Column_def)
qed

end
