(* ===== verification/Batch.thy ===== *)
theory Batch
  imports Queue_Refinement FileEmbed
begin

text \<open>
  The batchers of the four database collectors (\<open>capture/batch.go\<close>, \<open>mysql/batch.go\<close>,
  \<open>sqlserver/batch.go\<close>, \<open>sqlserverlegacy/batch.go\<close>): rows are collected into messages, which are
  appended to the queue and stay invisible until the collector publishes them.  When the queue is full
  a batcher waits for the delivery to make room.  The delivery runs concurrently: a \<open>round\<close> of the
  waiting loop says what the context, the disk and the clock report and how the store changes by
  others before the append and before the test that follows a full queue.  Rounds are consumed in
  order; when they run out the call is still waiting (\<open>Blocked\<close>).  Metrics are not modelled.
\<close>

section \<open>Rounds and results\<close>

record 'b round =
  rd_ctx :: "err option"
  rd_before :: "'b Store \<Rightarrow> 'b Store"
  rd_obs :: obs
  rd_between :: "'b Store \<Rightarrow> 'b Store"
  rd_state :: "err option"
  rd_wait :: "err option"

datatype flow =
    Done
  | Failed err
  | Blocked

section \<open>Operations\<close>

record 'b batcher =
  bt_q :: "'b Store"
  bt_msg :: Message
  bt_size :: int

text \<open>\<open>append\<close>; \<open>full\<close> is the text of the error that each collector returns when nothing is left to
  deliver and the queue is still full.\<close>

fun batch_append ::
  "('v, 'b, 'z) qenv_scheme \<Rightarrow> string \<Rightarrow> 'b round list \<Rightarrow> 'b Store \<Rightarrow> Message \<Rightarrow> 'b Store \<times> flow \<times> 'b round list" where
  "batch_append E full [] q m = (q, Blocked, [])"
| "batch_append E full (r # rs) q m =
     (case rd_ctx r of
        Some e \<Rightarrow> (q, Failed e, rs)
      | None \<Rightarrow>
          (let q1 = rd_before r q in
           case Append E (rd_obs r) q1 m of
             Inr q2 \<Rightarrow> (q2, Done, rs)
           | Inl e \<Rightarrow>
               if \<not> errors_Is e ErrFull then (q1, Failed e, rs)
               else
                 (let q2 = rd_between r q1 in
                  case rd_state r of
                    Some e' \<Rightarrow> (q2, Failed e', rs)
                  | None \<Rightarrow>
                      if s_ReadySeq (st q2) = s_DeliveredSeq (st q2) then (q2, Failed (Err full), rs)
                      else (case rd_wait r of
                              Some e' \<Rightarrow> (q2, Failed e', rs)
                            | None \<Rightarrow> batch_append E full rs q2 m))))"

definition batch_flush ::
  "('v, 'b, 'z) qenv_scheme \<Rightarrow> string \<Rightarrow> 'b round list \<Rightarrow> 'b batcher \<Rightarrow> 'b batcher \<times> flow \<times> 'b round list" where
  "batch_flush E full rs b =
     (if m_Rows (bt_msg b) = [] then (b, Done, rs)
      else case batch_append E full rs (bt_q b) (bt_msg b) of
          (q, Done, rs') \<Rightarrow>
            (b\<lparr>bt_q := q, bt_msg := (bt_msg b)\<lparr>m_Rows := [], m_Chunk := m_Chunk (bt_msg b) + 1\<rparr>, bt_size := 0\<rparr>, Done, rs')
        | (q, f, rs') \<Rightarrow> (b\<lparr>bt_q := q\<rparr>, f, rs'))"

text \<open>When a batcher flushes before it takes a row whose encoding has \<open>n\<close> bytes: the PostgreSQL one
  also tests the number of rows.\<close>

definition pg_cut :: "Config \<Rightarrow> 'b batcher \<Rightarrow> nat \<Rightarrow> bool" where
  "pg_cut cfg b n \<longleftrightarrow> m_Rows (bt_msg b) \<noteq> [] \<and>
     (int (length (m_Rows (bt_msg b))) \<ge> cfg_BatchRows cfg \<or> bt_size b + int n > cfg_BatchBytes cfg)"

definition size_cut :: "Config \<Rightarrow> 'b batcher \<Rightarrow> nat \<Rightarrow> bool" where
  "size_cut cfg b n \<longleftrightarrow> m_Rows (bt_msg b) \<noteq> [] \<and> bt_size b + int n > cfg_BatchBytes cfg"

definition take_row :: "'b batcher \<Rightarrow> Row \<Rightarrow> nat \<Rightarrow> 'b batcher" where
  "take_row b row n =
     b\<lparr>bt_msg := (bt_msg b)\<lparr>m_Rows := m_Rows (bt_msg b) @ [row]\<rparr>, bt_size := bt_size b + int n\<rparr>"

definition batch_add ::
  "('v, 'b, 'z) qenv_scheme \<Rightarrow> fenv \<Rightarrow> Config \<Rightarrow> (Config \<Rightarrow> 'b batcher \<Rightarrow> nat \<Rightarrow> bool) \<Rightarrow> string \<Rightarrow>
   'b round list \<Rightarrow> 'b batcher \<Rightarrow> Row \<Rightarrow> 'b batcher \<times> flow \<times> 'b round list" where
  "batch_add E fe cfg early full rs b row0 =
     (case Apply fe cfg row0 of
        Inl e \<Rightarrow> (b, Failed e, rs)
      | Inr row \<Rightarrow>
          (case marshal_row E row of
             Inl e \<Rightarrow> (b, Failed e, rs)
           | Inr raw \<Rightarrow>
               if int (blen E raw) > cfg_MaxRowBytes cfg then (b, Failed (Err ''row exceeds max_row_bytes''), rs)
               else
                 (case (if early cfg b (blen E raw) then batch_flush E full rs b else (b, Done, rs)) of
                    (b1, Done, rs1) \<Rightarrow>
                      (let b2 = take_row b1 row (blen E raw) in
                       if bt_size b2 \<ge> cfg_BatchBytes cfg \<or> int (length (m_Rows (bt_msg b2))) \<ge> cfg_BatchRows cfg
                       then batch_flush E full rs1 b2
                       else (b2, Done, rs1))
                  | other \<Rightarrow> other)))"

definition pg_full :: string where
  "pg_full = ''insufficient queue/disk capacity for a complete snapshot or transaction; increase capacity''"

definition mysql_full :: string where
  "mysql_full = ''insufficient queue/disk capacity for a complete mysql snapshot or transaction''"

definition legacy_full :: string where
  "legacy_full = ''insufficient queue/disk capacity for a complete legacy snapshot or event''"

definition capture_append where
  "capture_append E = batch_append E pg_full"

definition capture_flush where
  "capture_flush E = batch_flush E pg_full"

definition capture_add where
  "capture_add E fe cfg = batch_add E fe cfg pg_cut pg_full"

definition mysql_append where
  "mysql_append E = batch_append E mysql_full"

definition mysql_flush where
  "mysql_flush E = batch_flush E mysql_full"

definition mysql_add where
  "mysql_add E fe cfg = batch_add E fe cfg size_cut mysql_full"

definition sqlserver_append where
  "sqlserver_append E = batch_append E pg_full"

definition sqlserver_flush where
  "sqlserver_flush E = batch_flush E pg_full"

definition sqlserver_add where
  "sqlserver_add E fe cfg = batch_add E fe cfg size_cut pg_full"

definition legacy_append where
  "legacy_append E = batch_append E legacy_full"

definition legacy_flush where
  "legacy_flush E = batch_flush E legacy_full"

definition legacy_add where
  "legacy_add E fe cfg = batch_add E fe cfg size_cut legacy_full"

text \<open>The loop of a collector that adds one row after the other.\<close>

fun add_rows ::
  "('v, 'b, 'z) qenv_scheme \<Rightarrow> fenv \<Rightarrow> Config \<Rightarrow> (Config \<Rightarrow> 'b batcher \<Rightarrow> nat \<Rightarrow> bool) \<Rightarrow> string \<Rightarrow>
   'b round list \<Rightarrow> 'b batcher \<Rightarrow> Row list \<Rightarrow> 'b batcher \<times> flow \<times> 'b round list" where
  "add_rows E fe cfg early full rs b [] = (b, Done, rs)"
| "add_rows E fe cfg early full rs b (row # rows) =
     (case batch_add E fe cfg early full rs b row of
        (b1, Done, rs1) \<Rightarrow> add_rows E fe cfg early full rs1 b1 rows
      | other \<Rightarrow> other)"

section \<open>Appending while the delivery runs\<close>

text \<open>The only thing the delivery does to the store is to acknowledge messages.\<close>

definition only_acks :: "Message set \<Rightarrow> ('v, 'b, 'z) qenv_scheme \<Rightarrow> ('b Store \<Rightarrow> 'b Store) \<Rightarrow> bool" where
  "only_acks W E f \<longleftrightarrow>
     (\<forall>q. queue_inv W E q \<longrightarrow> (\<exists>ops. qrun W E q ops (f q) \<and> (\<forall>oper\<in>set ops. \<exists>n mid. oper = QAck n mid)))"

definition rounds_ok :: "Message set \<Rightarrow> ('v, 'b, 'z) qenv_scheme \<Rightarrow> 'b round list \<Rightarrow> bool" where
  "rounds_ok W E rs \<longleftrightarrow> (\<forall>r\<in>set rs. only_acks W E (rd_before r) \<and> only_acks W E (rd_between r))"

text \<open>\<open>q'\<close> is \<open>q\<close> after the messages \<open>ms\<close> were staged, while some published ones were acknowledged.\<close>

definition grown :: "('v, 'b, 'z) qenv_scheme \<Rightarrow> 'b Store \<Rightarrow> Message list \<Rightarrow> 'b Store \<Rightarrow> bool" where
  "grown E q ms q' \<longleftrightarrow>
     map payload (staged E q') = map payload (staged E q) @ map payload ms \<and>
     suffix (published E q') (published E q)"

text \<open>The sequence numbers last for the rounds that are left: every append uses one.\<close>

definition budget :: "'b Store \<Rightarrow> 'b round list \<Rightarrow> bool" where
  "budget q rs \<longleftrightarrow> Suc (s_NextSeq (st q)) + length rs < seq_limit"

lemma grown_refl [simp]: "grown E q [] q"
  by (simp add: grown_def)

lemma grown_trans: "grown E q ms q1 \<Longrightarrow> grown E q1 ms' q2 \<Longrightarrow> grown E q (ms @ ms') q2"
  by (auto simp: grown_def intro: suffix_order.trans)

lemma Ack_NextSeq: "Ack E ob s n mid = Inr s' \<Longrightarrow> s_NextSeq (st s') = s_NextSeq (st s)"
  by (elim Ack_Inr) simp

lemma ack_run:
  assumes E: "bolt_ok E" "codec_ok W E" and run: "qrun W E q ops q'" and q: "queue_inv W E q"
    and acks: "\<forall>oper\<in>set ops. \<exists>n mid. oper = QAck n mid"
  shows "queue_inv W E q' \<and> grown E q [] q' \<and> s_NextSeq (st q') = s_NextSeq (st q)"
  using run acks
proof (induction rule: qrun.induct)
  case start
  then show ?case using q by simp
next
  case (step ops s1 oper s2)
  then obtain n mid where a: "oper = QAck n mid" by auto
  with step.hyps(2) obtain ob where ack: "Ack E ob s1 n mid = Inr s2" by (auto elim: qstep_AckE)
  have s1: "queue_inv W E s1" "grown E q [] s1" "s_NextSeq (st s1) = s_NextSeq (st q)" using step by auto
  obtain m where "published E s1 = m # published E s2" using Ack_abs(1) [OF E(1) s1(1) ack] by blast
  then have "grown E s1 [] s2" using Ack_abs(2) [OF E(1) s1(1) ack] by (simp add: grown_def suffix_ConsI)
  with s1 Ack_inv [OF E(1) s1(1) ack] Ack_NextSeq [OF ack] grown_trans [of E q "[]" s1 "[]" s2] show ?case by simp
qed

lemma only_acksD:
  assumes "bolt_ok E" "codec_ok W E" "only_acks W E f" "queue_inv W E q"
  shows "queue_inv W E (f q) \<and> grown E q [] (f q) \<and> s_NextSeq (st (f q)) = s_NextSeq (st q)"
proof -
  obtain ops where "qrun W E q ops (f q)" "\<forall>oper\<in>set ops. \<exists>n mid. oper = QAck n mid"
    using assms(3,4) unfolding only_acks_def by blast
  then show ?thesis using ack_run [OF assms(1,2) _ assms(4)] by blast
qed

lemma rounds_ok_Cons: "rounds_ok W E (r # rs) \<longleftrightarrow> only_acks W E (rd_before r) \<and> only_acks W E (rd_between r) \<and> rounds_ok W E rs"
  by (auto simp: rounds_ok_def)

lemma batch_append_spec:
  assumes E: "bolt_ok E" "codec_ok W E" and ok: "encodable W m"
    and q: "queue_inv W E q" and rs: "rounds_ok W E rs" and room: "budget q rs"
    and app: "batch_append E full rs q m = (q', f, rs')"
  shows "queue_inv W E q' \<and> grown E q (if f = Done then [m] else []) q' \<and> rounds_ok W E rs' \<and> budget q' rs'"
  using q rs room app
proof (induction rs arbitrary: q)
  case Nil
  then show ?case by (auto simp: rounds_ok_def)
next
  case (Cons r rs)
  have env: "only_acks W E (rd_before r)" "only_acks W E (rd_between r)" "rounds_ok W E rs"
    using Cons.prems(2) by (auto simp: rounds_ok_Cons)
  define q1 where "q1 = rd_before r q"
  define q2 where "q2 = rd_between r q1"
  note q1 = only_acksD [OF E env(1) Cons.prems(1), folded q1_def]
  have inv1: "queue_inv W E q1" using q1 by simp
  note q2 = only_acksD [OF E env(2) inv1, folded q2_def]
  have room': "budget q rs" "budget q1 rs" "budget q2 rs"
    using Cons.prems(3) q1 q2 by (auto simp: budget_def)
  have g2: "grown E q [] q2" using grown_trans [of E q "[]" q1 "[]" q2] q1 q2 by simp
  show ?case
  proof (cases "rd_ctx r")
    case (Some e)
    then show ?thesis using Cons.prems env room' by auto
  next
    case None
    show ?thesis
    proof (cases "Append E (rd_obs r) q1 m")
      case (Inr q3)
      then have res: "q' = q3" "f = Done" "rs' = rs" using Cons.prems(4) None by (auto simp: q1_def Let_def)
      have W: "stamp (st q1) (format_time E (ob_now (rd_obs r))) m \<in> W" using ok by (simp add: encodable_def)
      have n3: "s_NextSeq (st q3) = Suc (s_NextSeq (st q1))" by (rule Append_NextSeq [OF Inr])
      have "Suc (Suc (s_NextSeq (st q1))) < seq_limit" using Cons.prems(3) q1 by (simp add: budget_def)
      from Append_inv [OF E inv1 W this Inr] Append_abs [OF E inv1 W Inr]
      have "queue_inv W E q3" "grown E q1 [m] q3" by (simp_all add: grown_def)
      moreover have "budget q3 rs" using n3 q1 Cons.prems(3) by (simp add: budget_def)
      ultimately show ?thesis using res env(3) q1 grown_trans [of E q "[]" q1 "[m]" q3] by simp
    next
      case (Inl e)
      show ?thesis
      proof (cases "errors_Is e ErrFull \<and> rd_state r = None \<and> s_ReadySeq (st q2) \<noteq> s_DeliveredSeq (st q2) \<and> rd_wait r = None")
        case True
        then have "batch_append E full rs q2 m = (q', f, rs')"
          using Cons.prems(4) None Inl by (auto simp: q1_def q2_def Let_def)
        from Cons.IH [OF _ env(3) room'(3) this] q2 g2 grown_trans [of E q "[]" q2 _ q'] show ?thesis by auto
      next
        case False
        then have "(q' = q1 \<or> q' = q2) \<and> f \<noteq> Done \<and> rs' = rs"
          using Cons.prems(4) None Inl by (auto simp: q1_def q2_def Let_def split: option.splits if_splits)
        then show ?thesis using q1 q2 g2 env(3) room' by auto
      qed
    qed
  qed
qed

section \<open>Chunks\<close>

definition row_bytes :: "('v, 'b, 'z) qenv_scheme \<Rightarrow> Row \<Rightarrow> int" where
  "row_bytes E row = (case marshal_row E row of Inl _ \<Rightarrow> 0 | Inr raw \<Rightarrow> int (blen E raw))"

abbreviation rows_bytes :: "('v, 'b, 'z) qenv_scheme \<Rightarrow> Row list \<Rightarrow> int" where
  "rows_bytes E rows \<equiv> sum_list (map (row_bytes E) rows)"

text \<open>A message within the limits of the configuration.\<close>

definition chunk_ok :: "('v, 'b, 'z) qenv_scheme \<Rightarrow> Config \<Rightarrow> Message \<Rightarrow> bool" where
  "chunk_ok E cfg m \<longleftrightarrow> m_Rows m \<noteq> [] \<and> int (length (m_Rows m)) \<le> cfg_BatchRows cfg \<and>
     (rows_bytes E (m_Rows m) \<le> cfg_BatchBytes cfg \<or> length (m_Rows m) = 1) \<and>
     (\<forall>row\<in>set (m_Rows m). row_bytes E row \<le> cfg_MaxRowBytes cfg)"

text \<open>What a batcher holds between two calls.\<close>

definition batcher_ok :: "('v, 'b, 'z) qenv_scheme \<Rightarrow> Config \<Rightarrow> 'b batcher \<Rightarrow> bool" where
  "batcher_ok E cfg b \<longleftrightarrow> bt_size b = rows_bytes E (m_Rows (bt_msg b)) \<and>
     int (length (m_Rows (bt_msg b))) < cfg_BatchRows cfg \<and> bt_size b < cfg_BatchBytes cfg \<and>
     (\<forall>row\<in>set (m_Rows (bt_msg b)). row_bytes E row \<le> cfg_MaxRowBytes cfg)"

text \<open>From \<open>b\<close> to \<open>b'\<close> the rows \<open>new\<close> were taken and the messages \<open>ms\<close> written: nothing is lost,
  reordered or repeated, and the chunks are numbered consecutively.\<close>

definition emitted :: "'b batcher \<Rightarrow> Row list \<Rightarrow> Message list \<Rightarrow> 'b batcher \<Rightarrow> bool" where
  "emitted b new ms b' \<longleftrightarrow>
     concat (map m_Rows ms) @ m_Rows (bt_msg b') = m_Rows (bt_msg b) @ new \<and>
     m_Chunk (bt_msg b) \<le> m_Chunk (bt_msg b') \<and>
     map m_Chunk ms = [m_Chunk (bt_msg b)..<m_Chunk (bt_msg b')] \<and>
     (\<forall>m\<in>set ms. m = (bt_msg b)\<lparr>m_Rows := m_Rows m, m_Chunk := m_Chunk m\<rparr>) \<and>
     bt_msg b' = (bt_msg b)\<lparr>m_Rows := m_Rows (bt_msg b'), m_Chunk := m_Chunk (bt_msg b')\<rparr>"

lemma emitted_refl [simp]: "emitted b [] [] b"
  by (simp add: emitted_def)

lemma emitted_trans:
  assumes "emitted b new ms b1" "emitted b1 new' ms' b2"
  shows "emitted b (new @ new') (ms @ ms') b2"
proof -
  note e1 = assms(1) [unfolded emitted_def] and e2 = assms(2) [unfolded emitted_def]
  obtain r1 c1 where m1: "bt_msg b1 = (bt_msg b)\<lparr>m_Rows := r1, m_Chunk := c1\<rparr>" using e1 by blast
  have "m = (bt_msg b)\<lparr>m_Rows := m_Rows m, m_Chunk := m_Chunk m\<rparr>" if "m \<in> set ms'" for m
    using e2 that by (simp add: m1)
  moreover have "bt_msg b2 = (bt_msg b)\<lparr>m_Rows := m_Rows (bt_msg b2), m_Chunk := m_Chunk (bt_msg b2)\<rparr>"
    using e2 by (simp add: m1)
  ultimately show ?thesis using e1 e2 upt_split [of "m_Chunk (bt_msg b)" "m_Chunk (bt_msg b1)" "m_Chunk (bt_msg b2)"]
    unfolding emitted_def by (simp add: Ball_def)
qed

lemma emitted_frame:
  assumes "emitted b new ms b'" "x \<in> set ms"
  shows "m_Kind x = m_Kind (bt_msg b) \<and> m_Transaction x = m_Transaction (bt_msg b) \<and> m_LSN x = m_LSN (bt_msg b)"
proof -
  have eq: "x = (bt_msg b)\<lparr>m_Rows := m_Rows x, m_Chunk := m_Chunk x\<rparr>" using assms by (simp add: emitted_def)
  show ?thesis by (subst (1 2 3) eq) simp
qed

text \<open>The messages that a batcher may write from the rows in \<open>R\<close> can be encoded.\<close>

definition writable :: "Message set \<Rightarrow> Row set \<Rightarrow> Message \<Rightarrow> bool" where
  "writable W R m \<longleftrightarrow> (\<forall>rows chunk. set rows \<subseteq> R \<longrightarrow> encodable W (m\<lparr>m_Rows := rows, m_Chunk := chunk\<rparr>))"

definition sound_batcher ::
  "Message set \<Rightarrow> Row set \<Rightarrow> ('v, 'b, 'z) qenv_scheme \<Rightarrow> 'b batcher \<Rightarrow> 'b round list \<Rightarrow> bool" where
  "sound_batcher W R E b rs \<longleftrightarrow> bolt_ok E \<and> codec_ok W E \<and> queue_inv W E (bt_q b) \<and> rounds_ok W E rs \<and>
     budget (bt_q b) rs \<and> writable W R (bt_msg b) \<and> set (m_Rows (bt_msg b)) \<subseteq> R"

lemma batch_flush_spec:
  assumes s: "sound_batcher W R E b rs" and fl: "batch_flush E full rs b = (b', Done, rs')"
  shows "\<exists>ms. grown E (bt_q b) ms (bt_q b') \<and> emitted b [] ms b' \<and> sound_batcher W R E b' rs' \<and>
     m_Rows (bt_msg b') = [] \<and> (m_Rows (bt_msg b) = [] \<longrightarrow> b' = b) \<and> (m_Rows (bt_msg b) \<noteq> [] \<longrightarrow> ms = [bt_msg b] \<and> bt_size b' = 0)"
proof (cases "m_Rows (bt_msg b) = []")
  case True
  with fl s show ?thesis by (auto simp: batch_flush_def intro: exI [of _ "[]"])
next
  case False
  then obtain q where app: "batch_append E full rs (bt_q b) (bt_msg b) = (q, Done, rs')"
    and b': "b' = b\<lparr>bt_q := q, bt_msg := (bt_msg b)\<lparr>m_Rows := [], m_Chunk := m_Chunk (bt_msg b) + 1\<rparr>, bt_size := 0\<rparr>"
    using fl by (auto simp: batch_flush_def split: prod.splits flow.splits)
  have "encodable W ((bt_msg b)\<lparr>m_Rows := m_Rows (bt_msg b), m_Chunk := m_Chunk (bt_msg b)\<rparr>)"
    using s unfolding sound_batcher_def writable_def by blast
  then have ok: "encodable W (bt_msg b)" by simp
  have pre: "bolt_ok E" "codec_ok W E" "queue_inv W E (bt_q b)" "rounds_ok W E rs" "budget (bt_q b) rs"
    using s by (auto simp: sound_batcher_def)
  note spec = batch_append_spec [OF pre(1,2) ok pre(3-5) app]
  have "sound_batcher W R E b' rs'"
    using spec s by (simp add: sound_batcher_def b' writable_def)
  moreover have "emitted b [] [bt_msg b] b'" by (simp add: emitted_def b')
  ultimately show ?thesis using spec False by (intro exI [of _ "[bt_msg b]"]) (simp add: b')
qed

lemma take_row_emitted: "emitted b [row] [] (take_row b row n)"
  by (simp add: emitted_def take_row_def)

lemma row_bytes_Inr: "marshal_row E row = Inr raw \<Longrightarrow> row_bytes E row = int (blen E raw)"
  by (simp add: row_bytes_def)

text \<open>Both tests before taking a row cut the batch when the bytes would exceed the limit, and never cut an
  empty one.\<close>

definition fair_cut :: "(Config \<Rightarrow> 'b batcher \<Rightarrow> nat \<Rightarrow> bool) \<Rightarrow> bool" where
  "fair_cut early \<longleftrightarrow> (\<forall>cfg b n. \<not> early cfg b n \<longrightarrow> m_Rows (bt_msg b) \<noteq> [] \<longrightarrow> bt_size b + int n \<le> cfg_BatchBytes cfg)"

lemma fair_cuts: "fair_cut pg_cut" "fair_cut size_cut"
  by (auto simp: fair_cut_def pg_cut_def size_cut_def)

lemma chunk_ok_batcher: "batcher_ok E cfg b \<Longrightarrow> m_Rows (bt_msg b) \<noteq> [] \<Longrightarrow> chunk_ok E cfg (bt_msg b)"
  by (auto simp: batcher_ok_def chunk_ok_def)

lemma cut_row_spec:
  assumes s: "sound_batcher W R E b rs" and b: "batcher_ok E cfg b" and early: "fair_cut early"
    and lim: "1 \<le> cfg_BatchRows cfg" "1 \<le> cfg_BatchBytes cfg"
    and pre: "(if early cfg b n then batch_flush E full rs b else (b, Done, rs)) = (b1, Done, rs1)"
  shows "\<exists>ms. grown E (bt_q b) ms (bt_q b1) \<and> emitted b [] ms b1 \<and> (\<forall>m\<in>set ms. chunk_ok E cfg m) \<and>
    sound_batcher W R E b1 rs1 \<and> batcher_ok E cfg b1 \<and>
    (m_Rows (bt_msg b1) \<noteq> [] \<longrightarrow> bt_size b1 + int n \<le> cfg_BatchBytes cfg)"
proof (cases "early cfg b n")
  case False
  then have "b1 = b" "rs1 = rs" using pre by auto
  then show ?thesis using s b early False by (intro exI [of _ "[]"]) (auto simp: fair_cut_def)
next
  case True
  then have fl: "batch_flush E full rs b = (b1, Done, rs1)" using pre by simp
  show ?thesis
  proof (cases "m_Rows (bt_msg b) = []")
    case True
    with batch_flush_spec [OF s fl] have "b1 = b" "m_Rows (bt_msg b1) = []" "sound_batcher W R E b1 rs1" by auto
    then show ?thesis using b by (intro exI [of _ "[]"]) auto
  next
    case False
    with batch_flush_spec [OF s fl] have "grown E (bt_q b) [bt_msg b] (bt_q b1)" "emitted b [] [bt_msg b] b1"
      "sound_batcher W R E b1 rs1" "m_Rows (bt_msg b1) = []" "bt_size b1 = 0" by auto
    moreover have "batcher_ok E cfg b1" using calculation(4,5) lim by (simp add: batcher_ok_def)
    ultimately show ?thesis using chunk_ok_batcher [OF b False] by (intro exI [of _ "[bt_msg b]"]) simp
  qed
qed

lemma batch_add_spec:
  assumes s: "sound_batcher W R E b rs" and b: "batcher_ok E cfg b" and early: "fair_cut early"
    and lim: "1 \<le> cfg_BatchRows cfg" "1 \<le> cfg_BatchBytes cfg"
    and ap: "Apply fe cfg row0 = Inr row" "row \<in> R"
    and add: "batch_add E fe cfg early full rs b row0 = (b', Done, rs')"
  shows "\<exists>ms. grown E (bt_q b) ms (bt_q b') \<and> emitted b [row] ms b' \<and> (\<forall>m\<in>set ms. chunk_ok E cfg m) \<and>
     sound_batcher W R E b' rs' \<and> batcher_ok E cfg b'"
proof -
  from add ap(1) obtain raw b1 rs1 where raw: "marshal_row E row = Inr raw" "int (blen E raw) \<le> cfg_MaxRowBytes cfg"
    and pre: "(if early cfg b (blen E raw) then batch_flush E full rs b else (b, Done, rs)) = (b1, Done, rs1)"
    and post: "(if bt_size (take_row b1 row (blen E raw)) \<ge> cfg_BatchBytes cfg \<or>
         int (length (m_Rows (bt_msg (take_row b1 row (blen E raw))))) \<ge> cfg_BatchRows cfg
       then batch_flush E full rs1 (take_row b1 row (blen E raw)) else (take_row b1 row (blen E raw), Done, rs1)) = (b', Done, rs')"
    by (auto simp: batch_add_def Let_def split: sum.splits if_splits prod.splits flow.splits)
  let ?b2 = "take_row b1 row (blen E raw)"
  obtain ms1 where m1: "grown E (bt_q b) ms1 (bt_q b1)" "emitted b [] ms1 b1" "\<forall>m\<in>set ms1. chunk_ok E cfg m"
    and s1: "sound_batcher W R E b1 rs1" and b1: "batcher_ok E cfg b1"
    and fits: "m_Rows (bt_msg b1) \<noteq> [] \<longrightarrow> bt_size b1 + int (blen E raw) \<le> cfg_BatchBytes cfg"
    using cut_row_spec [OF s b early lim pre] by blast
  have c2: "chunk_ok E cfg (bt_msg ?b2)"
    using b1 fits raw by (cases "m_Rows (bt_msg b1)")
      (auto simp: chunk_ok_def take_row_def batcher_ok_def row_bytes_Inr [OF raw(1)])
  have s2: "sound_batcher W R E ?b2 rs1" using s1 ap(2) by (auto simp: sound_batcher_def take_row_def writable_def)
  have m2: "grown E (bt_q b) ms1 (bt_q ?b2)" using m1(1) by (simp add: take_row_def)
  have e2: "emitted b [row] ms1 ?b2" using emitted_trans [OF m1(2) take_row_emitted] by simp
  show ?thesis
  proof (cases "bt_size ?b2 \<ge> cfg_BatchBytes cfg \<or> int (length (m_Rows (bt_msg ?b2))) \<ge> cfg_BatchRows cfg")
    case True
    with post have fl: "batch_flush E full rs1 ?b2 = (b', Done, rs')" by simp
    have "m_Rows (bt_msg ?b2) \<noteq> []" by (simp add: take_row_def)
    with batch_flush_spec [OF s2 fl] have m3: "grown E (bt_q ?b2) [bt_msg ?b2] (bt_q b')" "emitted ?b2 [] [bt_msg ?b2] b'"
      "sound_batcher W R E b' rs'" "m_Rows (bt_msg b') = []" "bt_size b' = 0" by auto
    have "batcher_ok E cfg b'" using m3(4,5) lim by (simp add: batcher_ok_def)
    moreover have "emitted b [row] (ms1 @ [bt_msg ?b2]) b'" using emitted_trans [OF e2 m3(2)] by simp
    ultimately show ?thesis
      using grown_trans [OF m2 m3(1)] m1(3) c2 m3(3) by (intro exI [of _ "ms1 @ [bt_msg ?b2]"]) simp
  next
    case False
    with post have "b' = ?b2" "rs' = rs1" by auto
    moreover have "batcher_ok E cfg ?b2"
      using False b1 raw by (auto simp: batcher_ok_def take_row_def row_bytes_Inr [OF raw(1)])
    ultimately show ?thesis using m2 e2 m1(3) s2 by blast
  qed
qed

lemma add_rows_spec:
  assumes early: "fair_cut early" and lim: "1 \<le> cfg_BatchRows cfg" "1 \<le> cfg_BatchBytes cfg"
    and ap: "list_all2 (\<lambda>r0 r. Apply fe cfg r0 = Inr r) rows0 rows" "set rows \<subseteq> R"
    and s: "sound_batcher W R E b rs" and b: "batcher_ok E cfg b"
    and add: "add_rows E fe cfg early full rs b rows0 = (b', Done, rs')"
  shows "\<exists>ms. grown E (bt_q b) ms (bt_q b') \<and> emitted b rows ms b' \<and> (\<forall>m\<in>set ms. chunk_ok E cfg m) \<and>
     sound_batcher W R E b' rs' \<and> batcher_ok E cfg b'"
  using ap s b add
proof (induction rows0 arbitrary: rows rs b)
  case Nil
  then show ?case by (intro exI [of _ "[]"]) auto
next
  case (Cons r0 rows0)
  from Cons.prems(1) obtain r rows1 where r: "rows = r # rows1" "Apply fe cfg r0 = Inr r"
    "list_all2 (\<lambda>r0 r. Apply fe cfg r0 = Inr r) rows0 rows1" by (auto simp: list_all2_Cons1)
  with Cons.prems(2) have R: "r \<in> R" "set rows1 \<subseteq> R" by auto
  from Cons.prems(5) obtain b1 rs1 where b1: "batch_add E fe cfg early full rs b r0 = (b1, Done, rs1)"
    "add_rows E fe cfg early full rs1 b1 rows0 = (b', Done, rs')"
    by (auto split: prod.splits flow.splits)
  from batch_add_spec [OF Cons.prems(3,4) early lim r(2) R(1) b1(1)] obtain ms where
    ms: "grown E (bt_q b) ms (bt_q b1)" "emitted b [r] ms b1" "\<forall>m\<in>set ms. chunk_ok E cfg m"
      "sound_batcher W R E b1 rs1" "batcher_ok E cfg b1" by blast
  from Cons.IH [OF r(3) R(2) ms(4,5) b1(2)] obtain ms' where
    ms': "grown E (bt_q b1) ms' (bt_q b')" "emitted b1 rows1 ms' b'" "\<forall>m\<in>set ms'. chunk_ok E cfg m"
      "sound_batcher W R E b' rs'" "batcher_ok E cfg b'" by blast
  from grown_trans [OF ms(1) ms'(1)] emitted_trans [OF ms(2) ms'(2)] ms(3) ms'(3-5) show ?case
    by (intro exI [of _ "ms @ ms'"]) (auto simp: r(1))
qed

lemma flush_complete:
  assumes e: "emitted b rows ms b1" "m_Rows (bt_msg b) = []" and ok: "\<forall>m\<in>set ms. chunk_ok E cfg m"
    and s: "sound_batcher W R E b1 rs1" "batcher_ok E cfg b1" and fl: "batch_flush E full rs1 b1 = (b2, Done, rs2)"
  shows "\<exists>ms'. grown E (bt_q b1) ms' (bt_q b2) \<and> concat (map m_Rows (ms @ ms')) = rows \<and>
     m_Chunk (bt_msg b2) = m_Chunk (bt_msg b) + length (ms @ ms') \<and>
     map m_Chunk (ms @ ms') = [m_Chunk (bt_msg b)..<m_Chunk (bt_msg b2)] \<and>
     (\<forall>x\<in>set (ms @ ms'). chunk_ok E cfg x \<and> m_Kind x = m_Kind (bt_msg b) \<and>
        m_Transaction x = m_Transaction (bt_msg b) \<and> m_LSN x = m_LSN (bt_msg b)) \<and>
     sound_batcher W R E b2 rs2 \<and> bt_size b2 = 0"
proof -
  from batch_flush_spec [OF s(1) fl] obtain ms' where
    ms': "grown E (bt_q b1) ms' (bt_q b2)" "emitted b1 [] ms' b2" "m_Rows (bt_msg b2) = []" "sound_batcher W R E b2 rs2"
      "m_Rows (bt_msg b1) = [] \<longrightarrow> b2 = b1" "m_Rows (bt_msg b1) \<noteq> [] \<longrightarrow> ms' = [bt_msg b1] \<and> bt_size b2 = 0" by blast
  have "(\<forall>x\<in>set ms'. chunk_ok E cfg x) \<and> bt_size b2 = 0"
  proof (cases "m_Rows (bt_msg b1) = []")
    case True
    with ms'(2,5) s(2) show ?thesis by (simp add: emitted_def batcher_ok_def)
  qed (use ms'(6) chunk_ok_batcher [OF s(2)] in simp)
  with ok have all: "\<forall>x\<in>set (ms @ ms'). chunk_ok E cfg x" "bt_size b2 = 0" by auto
  have e2: "emitted b rows (ms @ ms') b2" using emitted_trans [OF e(1) ms'(2)] by simp
  then have chunks: "map m_Chunk (ms @ ms') = [m_Chunk (bt_msg b)..<m_Chunk (bt_msg b2)]" by (simp add: emitted_def)
  then have "m_Chunk (bt_msg b2) = m_Chunk (bt_msg b) + length (ms @ ms')"
    using e2 by (auto simp: emitted_def dest: arg_cong [of _ _ length])
  moreover have "concat (map m_Rows (ms @ ms')) = rows" using e2 e(2) ms'(3) by (simp add: emitted_def)
  ultimately show ?thesis using ms'(1,4) all chunks emitted_frame [OF e2] by blast
qed

section \<open>Properties\<close>


definition sample_round :: "(string \<times> Message) list round" where
  "sample_round = \<lparr>rd_ctx = None, rd_before = id, rd_obs = sample_obs, rd_between = id, rd_state = None, rd_wait = None\<rparr>"

definition small_config :: Config where
  "small_config = Defaults\<lparr>cfg_BatchRows := 2, cfg_BatchBytes := 1024, cfg_MaxRowBytes := 1024\<rparr>"

lemma sample_rounds_ok: "rounds_ok W sample_env [sample_round]"
  by (auto simp: rounds_ok_def only_acks_def sample_round_def intro!: exI [of _ "[]"] qrun.start)

lemma sample_adds:
  "add_rows sample_env fe small_config pg_cut pg_full [sample_round] \<lparr>bt_q = sample_store, bt_msg = kind_msg ''snapshot_rows'', bt_size = 0\<rparr> [sample_row] =
   (\<lparr>bt_q = sample_store, bt_msg = (kind_msg ''snapshot_rows'')\<lparr>m_Rows := [sample_row]\<rparr>, bt_size = 150\<rparr>, Done, [sample_round])"
  by (simp add: batch_add_def Apply_def small_config_def Defaults_def pg_cut_def take_row_def kind_msg_def zero_Message_def
      sample_env_def)

definition sample_flushed :: "(string \<times> Message) list batcher" where
  "sample_flushed = fst (batch_flush sample_env pg_full [sample_round]
     \<lparr>bt_q = sample_store, bt_msg = (kind_msg ''snapshot_rows'')\<lparr>m_Rows := [sample_row]\<rparr>, bt_size = 150\<rparr>)"

lemma sample_flush:
  "batch_flush sample_env pg_full [sample_round]
     \<lparr>bt_q = sample_store, bt_msg = (kind_msg ''snapshot_rows'')\<lparr>m_Rows := [sample_row]\<rparr>, bt_size = 150\<rparr> =
   (sample_flushed, Done, [])"
  by (simp add: sample_flushed_def batch_flush_def sample_round_def Append_def Update_def Let_def sample_defs stamp_def)


text \<open>The batcher of the SQL Server collector follows the same rules as that of the PostgreSQL collector:
  in every state that a batcher can be in between two calls, adding a row gives the same result.\<close>

theorem batchers_agree:
  assumes "batcher_ok E cfg b"
  shows "sqlserver_add E fe cfg rs b row = capture_add E fe cfg rs b row"
proof -
  have "size_cut cfg b = pg_cut cfg b" using assms by (auto simp: batcher_ok_def size_cut_def pg_cut_def fun_eq_iff)
  then show ?thesis by (simp add: sqlserver_add_def capture_add_def batch_add_def split: sum.split)
qed

theorem batchers_agree_witness:
  "sqlserver_add sample_env sample_fenv small_config [sample_round] \<lparr>bt_q = sample_store, bt_msg = kind_msg ''snapshot_rows'', bt_size = 0\<rparr> sample_row =
   capture_add sample_env sample_fenv small_config [sample_round] \<lparr>bt_q = sample_store, bt_msg = kind_msg ''snapshot_rows'', bt_size = 0\<rparr> sample_row"
  by (rule batchers_agree) (simp add: batcher_ok_def kind_msg_def zero_Message_def small_config_def)

end
