(* ===== verification/Decode.thy ===== *)
theory Decode
  imports Batch
begin

text \<open>
  The decoder of the PostgreSQL replication stream, \<open>capture/decode.go\<close>, with the table descriptions
  of \<open>capture/postgres.go\<close>.  The third-party parser of log positions and the decoding of a frame into
  wal2json records are the record \<open>denv\<close>.  Calls that touch the queue take the next round, as in the
  batcher.
\<close>

section \<open>Tables and records\<close>

record CaptureColumn =
  cc_Name :: string
  cc_Type :: string
  cc_OID :: nat
  cc_NotNull :: bool
  cc_Default :: "string option"
  cc_Primary :: bool

record CaptureTable =
  ct_RowIdentity :: string
  ct_Schema :: string
  ct_Name :: string
  ct_OID :: nat
  ct_Identity :: string
  ct_Columns :: "CaptureColumn list"

definition KeyNames :: "CaptureTable \<Rightarrow> string list" where
  "KeyNames t = map cc_Name (filter cc_Primary (ct_Columns t))"

record wireColumn =
  w_Name :: string
  w_Type :: string
  w_OID :: nat
  w_Value :: string

record wal_record =
  wr_Action :: string
  wr_XID :: nat
  wr_LSN :: string
  wr_NextLSN :: string
  wr_Schema :: string
  wr_Table :: string
  wr_Columns :: "wireColumn list"
  wr_Identity :: "wireColumn list"

record 'b decoder =
  d_b :: "'b batcher"
  d_tables :: "Table \<rightharpoonup> CaptureTable"
  d_durable :: nat
  d_active :: bool
  d_skip :: bool
  d_end :: nat
  d_xid :: nat
  d_ordinal :: nat

text \<open>\<open>decode_stream\<close> gives the records of a frame and whether the frame ended after the last one.\<close>

record denv =
  parse_lsn :: "string \<Rightarrow> nat option"
  decode_stream :: "string \<Rightarrow> wal_record list \<times> bool"

definition newDecoder :: "'b Store \<Rightarrow> CaptureTable list \<Rightarrow> nat \<Rightarrow> 'b decoder" where
  "newDecoder q tables start =
     \<lparr>d_b = \<lparr>bt_q = q, bt_msg = zero_Message, bt_size = 0\<rparr>,
      d_tables = foldl (\<lambda>m t. m(\<lparr>tb_Schema = ct_Schema t, tb_Name = ct_Name t\<rparr> \<mapsto> t)) Map.empty tables,
      d_durable = start, d_active = False, d_skip = False, d_end = 0, d_xid = 0, d_ordinal = 0\<rparr>"

section \<open>Converting a row\<close>

definition operation_of :: "string \<Rightarrow> string" where
  "operation_of action =
     (if action = ''I'' then ''insert'' else if action = ''U'' then ''update''
      else if action = ''D'' then ''delete'' else '''')"

text \<open>The closure \<open>decode\<close>: \<open>known\<close> are the columns of the table, \<open>seen\<close> the names so far.\<close>

fun decode_columns ::
  "('v, 'z) codec_scheme \<Rightarrow> (string \<rightharpoonup> CaptureColumn) \<Rightarrow> string set \<Rightarrow> wireColumn list \<Rightarrow> Column list res" where
  "decode_columns J known seen [] = Inr []"
| "decode_columns J known seen (col # cols) =
     (case known (w_Name col) of
        None \<Rightarrow> Inl ErrSchemaMismatch
      | Some expected \<Rightarrow>
          if w_Name col \<in> seen \<or> cc_Type expected \<noteq> w_Type col \<or> cc_OID expected \<noteq> w_OID col
          then Inl ErrSchemaMismatch
          else (case Text J (w_Value col) of
                  Inl e \<Rightarrow> Inl e
                | Inr v \<Rightarrow>
                    (case decode_columns J known (insert (w_Name col) seen) cols of
                       Inl e \<Rightarrow> Inl e
                     | Inr out \<Rightarrow>
                         Inr (zero_Column\<lparr>c_Name := w_Name col, c_Type := cc_Type expected,
                               c_Value := (if w_OID col = 17 then map_option (\<lambda>s. CHR 0x5C # CHR ''x'' # s) v else v)\<rparr> # out))))"

definition by_name :: "Column list \<Rightarrow> string \<rightharpoonup> Column" where
  "by_name cs = map_of (rev (map (\<lambda>c. (c_Name c, c)) cs))"

definition known_columns :: "CaptureTable \<Rightarrow> string \<rightharpoonup> CaptureColumn" where
  "known_columns t = map_of (rev (map (\<lambda>c. (cc_Name c, c)) (ct_Columns t)))"

text \<open>One column of a table without a key: the whole row identifies itself.\<close>

definition full_row_step ::
  "string \<Rightarrow> (string \<rightharpoonup> Column) \<Rightarrow> (string \<rightharpoonup> Column) \<Rightarrow> Row \<Rightarrow> CaptureColumn \<Rightarrow> Row res" where
  "full_row_step action values oldValues row col =
     (let previous = (case oldValues (cc_Name col) of None \<Rightarrow> zero_Column | Some c \<Rightarrow> c) in
      if action = ''D'' then Inr (row\<lparr>r_Key := r_Key row @ [previous]\<rparr>)
      else case values (cc_Name col) of
          None \<Rightarrow>
            if action \<noteq> ''U'' then Inl (Wrap ''insert column count differs from schema'' ErrSchemaMismatch)
            else Inr (row\<lparr>r_Key := r_Key row @ [previous], r_OldKey := r_OldKey row @ [previous]\<rparr>)
        | Some value \<Rightarrow>
            Inr (row\<lparr>r_Key := r_Key row @ [value],
                     r_OldKey := (if action = ''U'' then r_OldKey row @ [previous] else r_OldKey row)\<rparr>))"

definition key_step ::
  "string \<Rightarrow> (string \<rightharpoonup> Column) \<Rightarrow> (string \<rightharpoonup> Column) \<Rightarrow> Row \<Rightarrow> string \<Rightarrow> Row res" where
  "key_step action values oldValues row name =
     (if action = ''D'' then
        (case oldValues name of
           None \<Rightarrow> Inl (Err ''delete missing primary key'')
         | Some v \<Rightarrow> if c_Value v = None then Inl (Err ''delete missing primary key'')
                     else Inr (row\<lparr>r_Key := r_Key row @ [v]\<rparr>))
      else
        (case values name of
           None \<Rightarrow> Inl (Err ''row missing primary key'')
         | Some v \<Rightarrow>
             if c_Value v = None then Inl (Err ''row missing primary key'')
             else if action = ''U'' then
               (case oldValues name of
                  None \<Rightarrow> Inl (Err ''update missing old primary key'')
                | Some ov \<Rightarrow>
                    if c_Value ov = None then Inl (Err ''update missing old primary key'')
                    else Inr (row\<lparr>r_Key := r_Key row @ [v], r_OldKey := r_OldKey row @ [ov]\<rparr>))
             else Inr (row\<lparr>r_Key := r_Key row @ [v]\<rparr>)))"

definition convert :: "('v, 'z) codec_scheme \<Rightarrow> wal_record \<Rightarrow> CaptureTable \<Rightarrow> Row res" where
  "convert J r t =
     (case decode_columns J (known_columns t) {} (wr_Columns r) of
        Inl e \<Rightarrow> Inl e
      | Inr cols \<Rightarrow>
          (case decode_columns J (known_columns t) {} (wr_Identity r) of
             Inl e \<Rightarrow> Inl e
           | Inr old \<Rightarrow>
               (let row = zero_Row\<lparr>r_Schema := wr_Schema r, r_Table := wr_Table r,
                                   r_Operation := operation_of (wr_Action r), r_Columns := cols\<rparr> in
                if ct_RowIdentity t = ''full_row'' then
                  (if (wr_Action r = ''U'' \<or> wr_Action r = ''D'') \<and> length (remdups (map c_Name old)) \<noteq> length (ct_Columns t)
                   then Inl (Err ''full-row identity missing columns; refusing partial row matching'')
                   else foldM (full_row_step (wr_Action r) (by_name cols) (by_name old))
                          (row\<lparr>r_Identity := ''full_row''\<rparr>) (ct_Columns t))
                else
                  (case foldM (key_step (wr_Action r) (by_name cols) (by_name old)) row (KeyNames t) of
                     Inl e \<Rightarrow> Inl e
                   | Inr row' \<Rightarrow>
                       if wr_Action r = ''I'' \<and> length (r_Columns row') \<noteq> length (ct_Columns t)
                       then Inl (Wrap ''insert column count differs from schema'' ErrSchemaMismatch)
                       else Inr row'))))"

section \<open>The stream\<close>

fun capture_publish ::
  "'b round list \<Rightarrow> 'b Store \<Rightarrow> string \<Rightarrow> bool \<Rightarrow> 'b Store \<times> flow \<times> 'b round list" where
  "capture_publish [] q lsn sl = (q, Blocked, [])"
| "capture_publish (r # rs) q lsn sl =
     (case Publish (rd_obs r) (rd_before r q) lsn sl of
        Inl e \<Rightarrow> (rd_before r q, Failed e, rs)
      | Inr q' \<Rightarrow> (q', Done, rs))"

definition transaction_begin :: "string \<Rightarrow> Message" where
  "transaction_begin lsn = (kind_msg ''transaction_rows'')\<lparr>m_Transaction := lsn, m_LSN := lsn\<rparr>"

definition transaction_end :: "string \<Rightarrow> nat \<Rightarrow> Message" where
  "transaction_end lsn chunk = (kind_msg ''transaction_end'')\<lparr>m_Transaction := lsn, m_LSN := lsn, m_Chunk := chunk\<rparr>"

definition begin_record ::
  "denv \<Rightarrow> 'b decoder \<Rightarrow> wal_record \<Rightarrow> 'b decoder \<times> flow" where
  "begin_record de d r =
     (if d_active d then (d, Failed (Err ''nested transaction''))
      else case parse_lsn de (wr_NextLSN r) of
          None \<Rightarrow> (d, Failed (Err ''begin missing transaction end lsn''))
        | Some end \<Rightarrow>
            if end = 0 then (d, Failed (Err ''begin missing transaction end lsn''))
            else (d\<lparr>d_active := True, d_end := end, d_xid := wr_XID r, d_ordinal := 0, d_skip := end \<le> d_durable d,
                    d_b := (d_b d)\<lparr>bt_msg := transaction_begin (wr_NextLSN r)\<rparr>\<rparr>, Done))"

definition commit_record ::
  "('v, 'b, 'z) qenv_scheme \<Rightarrow> denv \<Rightarrow> 'b round list \<Rightarrow> 'b decoder \<Rightarrow> wal_record \<Rightarrow> 'b decoder \<times> flow \<times> 'b round list" where
  "commit_record E de rs d r =
     (if \<not> d_active d \<or> wr_XID r \<noteq> d_xid d then (d, Failed (Err ''commit without matching begin''), rs)
      else if parse_lsn de (wr_NextLSN r) \<noteq> Some (d_end d) then (d, Failed (Err ''commit lsn mismatch''), rs)
      else if d_skip d then (d\<lparr>d_active := False\<rparr>, Done, rs)
      else
        (case capture_flush E rs (d_b d) of
           (b1, Done, rs1) \<Rightarrow>
             (case capture_append E rs1 (bt_q b1) (transaction_end (wr_NextLSN r) (m_Chunk (bt_msg b1))) of
                (q2, Done, rs2) \<Rightarrow>
                  (case capture_publish rs2 q2 (wr_NextLSN r) False of
                     (q3, Done, rs3) \<Rightarrow>
                       (d\<lparr>d_b := b1\<lparr>bt_q := q3\<rparr>, d_durable := d_end d, d_active := False\<rparr>, Done, rs3)
                   | (q3, f, rs3) \<Rightarrow> (d\<lparr>d_b := b1\<lparr>bt_q := q3\<rparr>\<rparr>, f, rs3))
              | (q2, f, rs2) \<Rightarrow> (d\<lparr>d_b := b1\<lparr>bt_q := q2\<rparr>\<rparr>, f, rs2))
         | (b1, f, rs1) \<Rightarrow> (d\<lparr>d_b := b1\<rparr>, f, rs1)))"

definition row_record ::
  "('v, 'b, 'z) qenv_scheme \<Rightarrow> fenv \<Rightarrow> Config \<Rightarrow> 'b round list \<Rightarrow> 'b decoder \<Rightarrow> wal_record \<Rightarrow> 'b decoder \<times> flow \<times> 'b round list" where
  "row_record E fe cfg rs d r =
     (if \<not> d_active d \<or> wr_XID r \<noteq> d_xid d then (d, Failed (Err ''row outside matching transaction''), rs)
      else if d_skip d then (d, Done, rs)
      else
        (let d1 = d\<lparr>d_ordinal := d_ordinal d + 1\<rparr> in
         case d_tables d1 \<lparr>tb_Schema = wr_Schema r, tb_Name = wr_Table r\<rparr> of
           None \<Rightarrow> (d1, Failed (Err ''unexpected table in replication stream''), rs)
         | Some t \<Rightarrow>
             (case convert E r t of
                Inl e \<Rightarrow> (d1, Failed e, rs)
              | Inr row \<Rightarrow>
                  (case capture_add E fe cfg rs (d_b d1) (row\<lparr>r_Ordinal := d_ordinal d1\<rparr>) of
                     (b, f, rs') \<Rightarrow> (d1\<lparr>d_b := b\<rparr>, f, rs')))))"

definition record_step ::
  "('v, 'b, 'z) qenv_scheme \<Rightarrow> denv \<Rightarrow> fenv \<Rightarrow> Config \<Rightarrow> 'b round list \<Rightarrow> 'b decoder \<Rightarrow> wal_record \<Rightarrow>
   'b decoder \<times> flow \<times> 'b round list" where
  "record_step E de fe cfg rs d r =
     (if wr_Action r = ''B'' then (case begin_record de d r of (d', f) \<Rightarrow> (d', f, rs))
      else if wr_Action r = ''C'' then commit_record E de rs d r
      else if wr_Action r = ''I'' \<or> wr_Action r = ''U'' \<or> wr_Action r = ''D'' then row_record E fe cfg rs d r
      else if wr_Action r = ''T'' then (d, Failed (Err ''truncate requires explicit reinitialization''), rs)
      else if wr_Action r = ''M'' then (d, Failed (Err ''unexpected logical message''), rs)
      else (d, Failed (Err (''unknown wal2json action '' @ wr_Action r)), rs))"

fun consume_records ::
  "('v, 'b, 'z) qenv_scheme \<Rightarrow> denv \<Rightarrow> fenv \<Rightarrow> Config \<Rightarrow> 'b round list \<Rightarrow> 'b decoder \<Rightarrow> wal_record list \<Rightarrow>
   'b decoder \<times> flow \<times> 'b round list" where
  "consume_records E de fe cfg rs d [] = (d, Done, rs)"
| "consume_records E de fe cfg rs d (r # recs) =
     (case record_step E de fe cfg rs d r of
        (d1, Done, rs1) \<Rightarrow> consume_records E de fe cfg rs1 d1 recs
      | other \<Rightarrow> other)"

definition consume ::
  "('v, 'b, 'z) qenv_scheme \<Rightarrow> denv \<Rightarrow> fenv \<Rightarrow> Config \<Rightarrow> 'b round list \<Rightarrow> 'b decoder \<Rightarrow> string \<Rightarrow>
   'b decoder \<times> flow \<times> 'b round list" where
  "consume E de fe cfg rs d data =
     (if int (length data) > wrap64 (cfg_MaxRowBytes cfg * 2) then (d, Failed (Err ''wal record exceeds hard limit''), rs)
      else case decode_stream de data of
          (recs, complete) \<Rightarrow>
            (case consume_records E de fe cfg rs d recs of
               (d', Done, rs') \<Rightarrow> (d', if complete then Done else Failed (Err ''invalid wal2json record''), rs')
             | other \<Rightarrow> other))"

section \<open>Transactions\<close>

text \<open>A transaction as the stream delivers it: a begin, the rows, a commit.\<close>

record wal_tx =
  tx_LSN :: string
  tx_XID :: nat
  tx_Rows :: "wal_record list"

definition empty_record :: wal_record where
  "empty_record = \<lparr>wr_Action = '''', wr_XID = 0, wr_LSN = '''', wr_NextLSN = '''', wr_Schema = '''',
     wr_Table = '''', wr_Columns = [], wr_Identity = []\<rparr>"

definition tx_stream :: "wal_tx \<Rightarrow> wal_record list" where
  "tx_stream t =
     empty_record\<lparr>wr_Action := ''B'', wr_XID := tx_XID t, wr_NextLSN := tx_LSN t\<rparr> # tx_Rows t @
     [empty_record\<lparr>wr_Action := ''C'', wr_XID := tx_XID t, wr_NextLSN := tx_LSN t\<rparr>]"

definition tx_ok :: "denv \<Rightarrow> wal_tx \<Rightarrow> bool" where
  "tx_ok de t \<longleftrightarrow> (\<exists>n. parse_lsn de (tx_LSN t) = Some n \<and> n \<noteq> 0) \<and>
     (\<forall>r\<in>set (tx_Rows t). wr_XID r = tx_XID t \<and> wr_Action r \<in> {''I'', ''U'', ''D''})"

definition tx_end :: "denv \<Rightarrow> wal_tx \<Rightarrow> nat" where
  "tx_end de t = the (parse_lsn de (tx_LSN t))"

text \<open>The rows of a transaction as they are stored: converted, numbered from one, files embedded.\<close>

fun convert_all ::
  "('v, 'b, 'z) qenv_scheme \<Rightarrow> fenv \<Rightarrow> Config \<Rightarrow> (Table \<rightharpoonup> CaptureTable) \<Rightarrow> nat \<Rightarrow> wal_record list \<Rightarrow> Row list option" where
  "convert_all E fe cfg tabs k [] = Some []"
| "convert_all E fe cfg tabs k (r # recs) =
     (case tabs \<lparr>tb_Schema = wr_Schema r, tb_Name = wr_Table r\<rparr> of
        None \<Rightarrow> None
      | Some t \<Rightarrow>
          (case convert E r t of
             Inl _ \<Rightarrow> None
           | Inr row \<Rightarrow>
               (case Apply fe cfg (row\<lparr>r_Ordinal := k + 1\<rparr>) of
                  Inl _ \<Rightarrow> None
                | Inr row' \<Rightarrow> map_option (\<lambda>rows. row' # rows) (convert_all E fe cfg tabs (k + 1) recs))))"

text \<open>The messages that belong to a transaction.\<close>

definition tx_group ::
  "('v, 'b, 'z) qenv_scheme \<Rightarrow> fenv \<Rightarrow> Config \<Rightarrow> (Table \<rightharpoonup> CaptureTable) \<Rightarrow> wal_tx \<Rightarrow> Message list \<Rightarrow> bool" where
  "tx_group E fe cfg tabs t ms \<longleftrightarrow>
     (\<exists>rows chunks. convert_all E fe cfg tabs 0 (tx_Rows t) = Some rows \<and>
        ms = map payload chunks @ [payload (transaction_end (tx_LSN t) (length chunks))] \<and>
        concat (map m_Rows chunks) = rows \<and> map m_Chunk chunks = [0..<length chunks] \<and>
        (\<forall>x\<in>set chunks. chunk_ok E cfg x \<and> m_Kind x = ''transaction_rows'' \<and> m_Transaction x = tx_LSN t \<and> m_LSN x = tx_LSN t))"

lemma consume_records_Cons:
  assumes "consume_records E de fe cfg rs d (r # recs) = (d', Done, rs')"
  obtains d1 rs1 where "record_step E de fe cfg rs d r = (d1, Done, rs1)"
    "consume_records E de fe cfg rs1 d1 recs = (d', Done, rs')"
  using assms by (auto split: prod.splits flow.splits)

lemma row_record_Done:
  assumes "record_step E de fe cfg rs d r = (d1, Done, rs1)" "wr_Action r \<in> {''I'', ''U'', ''D''}"
    and "d_active d" "\<not> d_skip d"
  obtains t row0 b where "d_tables d \<lparr>tb_Schema = wr_Schema r, tb_Name = wr_Table r\<rparr> = Some t" "convert E r t = Inr row0"
    "capture_add E fe cfg rs (d_b d) (row0\<lparr>r_Ordinal := d_ordinal d + 1\<rparr>) = (b, Done, rs1)"
    "d1 = d\<lparr>d_b := b, d_ordinal := d_ordinal d + 1\<rparr>"
proof -
  have "row_record E fe cfg rs d r = (d1, Done, rs1)" using assms(1,2) by (auto simp: record_step_def)
  then show ?thesis using assms(3,4) that
    by (auto simp: row_record_def Let_def split: if_splits option.splits sum.splits prod.splits)
qed

lemma batch_add_Apply: "batch_add E fe cfg early full rs b row0 = (b', Done, rs') \<Longrightarrow> \<exists>row. Apply fe cfg row0 = Inr row"
  by (auto simp: batch_add_def split: sum.splits)

lemma row_records_convert:
  assumes "\<forall>r\<in>set recs. wr_Action r \<in> {''I'', ''U'', ''D''}"
    and "d_active d" "\<not> d_skip d" "consume_records E de fe cfg rs d (recs @ rest) = (d', Done, rs')"
  shows "\<exists>rows. convert_all E fe cfg (d_tables d) (d_ordinal d) recs = Some rows"
  using assms
proof (induction recs arbitrary: d rs)
  case (Cons r recs)
  from Cons.prems(4) [unfolded append_Cons] obtain d1 rs1 where st: "record_step E de fe cfg rs d r = (d1, Done, rs1)"
    and run: "consume_records E de fe cfg rs1 d1 (recs @ rest) = (d', Done, rs')"
    by (rule consume_records_Cons)
  from Cons.prems(1) have act: "wr_Action r \<in> {''I'', ''U'', ''D''}" by simp
  obtain t row0 b where r: "d_tables d \<lparr>tb_Schema = wr_Schema r, tb_Name = wr_Table r\<rparr> = Some t" "convert E r t = Inr row0"
    "capture_add E fe cfg rs (d_b d) (row0\<lparr>r_Ordinal := d_ordinal d + 1\<rparr>) = (b, Done, rs1)"
    "d1 = d\<lparr>d_b := b, d_ordinal := d_ordinal d + 1\<rparr>"
    by (rule row_record_Done [OF st act Cons.prems(2,3)])
  obtain row where "Apply fe cfg (row0\<lparr>r_Ordinal := d_ordinal d + 1\<rparr>) = Inr row"
    using batch_add_Apply r(3) unfolding capture_add_def by blast
  moreover obtain rows where "convert_all E fe cfg (d_tables d) (d_ordinal d + 1) recs = Some rows"
    using Cons.IH [of d1 rs1] Cons.prems run r(4) by auto
  ultimately show ?case using r(1,2) by simp
qed simp

lemma row_records_spec:
  assumes lim: "1 \<le> cfg_BatchRows cfg" "1 \<le> cfg_BatchBytes cfg"
    and recs: "\<forall>r\<in>set recs. wr_Action r \<in> {''I'', ''U'', ''D''}"
    and act: "d_active d" "\<not> d_skip d" and s: "sound_batcher W R E (d_b d) rs" and b: "batcher_ok E cfg (d_b d)"
    and rows: "convert_all E fe cfg (d_tables d) (d_ordinal d) recs = Some rows" "set rows \<subseteq> R"
    and run: "consume_records E de fe cfg rs d (recs @ rest) = (d', Done, rs')"
  shows "\<exists>ms d1 rs1. grown E (bt_q (d_b d)) ms (bt_q (d_b d1)) \<and> emitted (d_b d) rows ms (d_b d1) \<and>
     (\<forall>m\<in>set ms. chunk_ok E cfg m) \<and> sound_batcher W R E (d_b d1) rs1 \<and> batcher_ok E cfg (d_b d1) \<and>
     d1 = d\<lparr>d_b := d_b d1, d_ordinal := d_ordinal d1\<rparr> \<and> consume_records E de fe cfg rs1 d1 rest = (d', Done, rs')"
  using recs act s b rows run
proof (induction recs arbitrary: d rs rows)
  case Nil
  then show ?case by (intro exI [of _ "[]"] exI [of _ d] exI [of _ rs]) simp
next
  case (Cons r recs)
  from Cons.prems(8) [unfolded append_Cons] obtain d1 rs1 where st: "record_step E de fe cfg rs d r = (d1, Done, rs1)"
    and run: "consume_records E de fe cfg rs1 d1 (recs @ rest) = (d', Done, rs')"
    by (rule consume_records_Cons)
  from Cons.prems(1) have act: "wr_Action r \<in> {''I'', ''U'', ''D''}" by simp
  obtain t row0 b where r: "d_tables d \<lparr>tb_Schema = wr_Schema r, tb_Name = wr_Table r\<rparr> = Some t" "convert E r t = Inr row0"
    "capture_add E fe cfg rs (d_b d) (row0\<lparr>r_Ordinal := d_ordinal d + 1\<rparr>) = (b, Done, rs1)"
    "d1 = d\<lparr>d_b := b, d_ordinal := d_ordinal d + 1\<rparr>"
    by (rule row_record_Done [OF st act Cons.prems(2,3)])
  from Cons.prems(6) r(1,2) obtain row rows1 where row: "Apply fe cfg (row0\<lparr>r_Ordinal := d_ordinal d + 1\<rparr>) = Inr row"
    and rows1: "convert_all E fe cfg (d_tables d1) (d_ordinal d1) recs = Some rows1" "rows = row # rows1"
    by (auto simp: r(4) split: sum.splits)
  then have R: "row \<in> R" "set rows1 \<subseteq> R" using Cons.prems(7) by auto
  from batch_add_spec [OF Cons.prems(4,5) fair_cuts(1) lim row R(1) r(3) [unfolded capture_add_def]]
  obtain ms where ms: "grown E (bt_q (d_b d)) ms (bt_q b)" "emitted (d_b d) [row] ms b" "\<forall>m\<in>set ms. chunk_ok E cfg m"
    "sound_batcher W R E b rs1" "batcher_ok E cfg b" by blast
  have d1: "d_active d1" "\<not> d_skip d1" "d_b d1 = b" using Cons.prems(2,3) by (simp_all add: r(4))
  have recs: "\<forall>r\<in>set recs. wr_Action r \<in> {''I'', ''U'', ''D''}" using Cons.prems(1) by simp
  from Cons.IH [OF recs d1(1,2) _ _ rows1(1) R(2) run] ms(4,5) d1(3)
  obtain ms' d2 rs2 where m2: "grown E (bt_q b) ms' (bt_q (d_b d2))" "emitted b rows1 ms' (d_b d2)" "\<forall>m\<in>set ms'. chunk_ok E cfg m"
    "sound_batcher W R E (d_b d2) rs2" "batcher_ok E cfg (d_b d2)" "d2 = d1\<lparr>d_b := d_b d2, d_ordinal := d_ordinal d2\<rparr>"
    "consume_records E de fe cfg rs2 d2 rest = (d', Done, rs')" by auto
  have "d2 = d\<lparr>d_b := d_b d2, d_ordinal := d_ordinal d2\<rparr>" using m2(6) by (simp add: r(4))
  moreover have "emitted (d_b d) rows (ms @ ms') (d_b d2)" using emitted_trans [OF ms(2) m2(2)] by (simp add: rows1(2))
  ultimately show ?case using grown_trans [OF ms(1) m2(1)] ms(3) m2(3,4,5,7)
    by (intro exI [of _ "ms @ ms'"] exI [of _ d2] exI [of _ rs2]) auto
qed

text \<open>A decoder between two transactions.\<close>

definition decoder_ok ::
  "Message set \<Rightarrow> ('v, 'b, 'z) qenv_scheme \<Rightarrow> 'b decoder \<Rightarrow> 'b round list \<Rightarrow> bool" where
  "decoder_ok W E d rs \<longleftrightarrow> bolt_ok E \<and> codec_ok W E \<and> queue_inv W E (bt_q (d_b d)) \<and> rounds_ok W E rs \<and>
     budget (bt_q (d_b d)) rs \<and> staged E (bt_q (d_b d)) = [] \<and> \<not> d_active d \<and> bt_size (d_b d) = 0"

text \<open>The messages of a transaction can be encoded.\<close>

definition tx_encodable ::
  "Message set \<Rightarrow> ('v, 'b, 'z) qenv_scheme \<Rightarrow> fenv \<Rightarrow> Config \<Rightarrow> (Table \<rightharpoonup> CaptureTable) \<Rightarrow> wal_tx \<Rightarrow> bool" where
  "tx_encodable W E fe cfg tabs t \<longleftrightarrow>
     (\<forall>rows. convert_all E fe cfg tabs 0 (tx_Rows t) = Some rows \<longrightarrow> writable W (set rows) (transaction_begin (tx_LSN t))) \<and>
     (\<forall>chunk. encodable W (transaction_end (tx_LSN t) chunk))"

abbreviation pub_payload :: "('v, 'b, 'z) qenv_scheme \<Rightarrow> 'b decoder \<Rightarrow> Message list" where
  "pub_payload E d \<equiv> map payload (published E (bt_q (d_b d)))"

lemma map_suffix: "suffix xs ys \<Longrightarrow> suffix (map f xs) (map f ys)"
  by (auto simp: suffix_def)

lemma suffix_append_same: "suffix xs ys \<Longrightarrow> suffix (xs @ zs) (ys @ zs)"
  by (auto simp: suffix_def)

lemma capture_publish_spec:
  assumes E: "bolt_ok E" "codec_ok W E" and q: "queue_inv W E q" and rs: "rounds_ok W E rs" and room: "budget q rs"
    and p: "capture_publish rs q lsn sl = (q', Done, rs')"
  shows "queue_inv W E q' \<and> rounds_ok W E rs' \<and> budget q' rs' \<and> staged E q' = [] \<and>
     suffix (map payload (published E q')) (map payload (published E q) @ map payload (staged E q)) \<and> s_DurableLSN (st q') = lsn"
proof (cases rs)
  case Nil
  with p show ?thesis by simp
next
  case (Cons r rs1)
  define q1 where "q1 = rd_before r q"
  have p': "PublishSource (rd_obs r) q1 lsn sl '''' = Inr q'" "rs' = rs1"
    using p by (auto simp: Cons q1_def Publish_def split: sum.splits)
  note q1 = only_acksD [OF E _ q, of "rd_before r", folded q1_def]
  have env: "only_acks W E (rd_before r)" "rounds_ok W E rs1" using rs by (auto simp: Cons rounds_ok_Cons)
  have inv1: "queue_inv W E q1" using q1 [OF env(1)] by simp
  have st: "items q' = items q1" "s_DeliveredSeq (st q') = s_DeliveredSeq (st q1)" "s_NextSeq (st q') = s_NextSeq (st q1)"
    "s_ReadySeq (st q') = s_NextSeq (st q1)" "s_DurableLSN (st q') = lsn"
    using p'(1) by (auto simp: PublishSource_def split: if_splits)
  note pub = publish_abs [OF inv1 st(1-4)]
  have g: "map payload (staged E q1) = map payload (staged E q)" "suffix (published E q1) (published E q)"
    using q1 [OF env(1)] by (auto simp: grown_def)
  have "suffix (map payload (published E q')) (map payload (published E q) @ map payload (staged E q))"
    using suffix_append_same [OF map_suffix [OF g(2), of payload], of "map payload (staged E q1)"] g(1) pub(1) by simp
  then show ?thesis
    using PublishSource_inv [OF inv1 p'(1)] env(2) room q1 [OF env(1)] st pub(2) by (simp add: budget_def Cons p'(2))
qed

lemma begin_record_Done:
  assumes "record_step E de fe cfg rs d (empty_record\<lparr>wr_Action := ''B'', wr_XID := x, wr_NextLSN := l\<rparr>) = (d1, Done, rs1)"
    and "parse_lsn de l = Some n"
  shows "rs1 = rs \<and> \<not> d_active d \<and> d1 = d\<lparr>d_active := True, d_end := n, d_xid := x, d_ordinal := 0, d_skip := n \<le> d_durable d,
     d_b := (d_b d)\<lparr>bt_msg := transaction_begin l\<rparr>\<rparr>"
  using assms by (auto simp: record_step_def begin_record_def empty_record_def split: if_splits)

lemma commit_record_Done:
  assumes "record_step E de fe cfg rs d (empty_record\<lparr>wr_Action := ''C'', wr_XID := x, wr_NextLSN := l\<rparr>) = (d1, Done, rs1)"
    and "\<not> d_skip d"
  obtains b1 rsa q2 rsb q3 where "capture_flush E rs (d_b d) = (b1, Done, rsa)"
    "capture_append E rsa (bt_q b1) (transaction_end l (m_Chunk (bt_msg b1))) = (q2, Done, rsb)"
    "capture_publish rsb q2 l False = (q3, Done, rs1)"
    "d1 = d\<lparr>d_b := b1\<lparr>bt_q := q3\<rparr>, d_durable := d_end d, d_active := False\<rparr>"
  using assms by (auto simp: record_step_def commit_record_def empty_record_def split: if_splits prod.splits flow.splits)

lemma grown_payload: "grown E q ms q' \<Longrightarrow> map payload (staged E q') = map payload (staged E q) @ map payload ms"
  by (simp add: grown_def)

text \<open>The commit record: the pending rows and the end of the transaction are appended and the whole group
  becomes visible.\<close>

lemma tx_commit:
  assumes E: "bolt_ok E" "codec_ok W E" and q: "staged E q = []"
    and msg0: "bt_msg b0 = transaction_begin l"
    and r1: "grown E q ms (bt_q (d_b d1))" "emitted b0 rows ms (d_b d1)" "\<forall>m\<in>set ms. chunk_ok E cfg m"
      "sound_batcher W (set rows) E (d_b d1) rs1" "batcher_ok E cfg (d_b d1)"
    and fin: "\<forall>chunk. encodable W (transaction_end l chunk)" and skip: "\<not> d_skip d1"
    and c: "record_step E de fe cfg rs1 d1 (empty_record\<lparr>wr_Action := ''C'', wr_XID := x, wr_NextLSN := l\<rparr>) = (d2, Done, rs2)"
  obtains chunks where "concat (map m_Rows chunks) = rows" "map m_Chunk chunks = [0..<length chunks]"
    "\<forall>x\<in>set chunks. chunk_ok E cfg x \<and> m_Kind x = ''transaction_rows'' \<and> m_Transaction x = l \<and> m_LSN x = l"
    "suffix (pub_payload E d2) (map payload (published E q) @ map payload chunks @ [payload (transaction_end l (length chunks))])"
    "decoder_ok W E d2 rs2" "d_durable d2 = d_end d1" "s_DurableLSN (st (bt_q (d_b d2))) = l" "d_tables d2 = d_tables d1"
proof -
  have rows0: "m_Rows (bt_msg b0) = []" by (simp add: msg0 transaction_begin_def kind_msg_def zero_Message_def)
  obtain b1 rsa q2 rsb q3 where cm: "capture_flush E rs1 (d_b d1) = (b1, Done, rsa)"
    "capture_append E rsa (bt_q b1) (transaction_end l (m_Chunk (bt_msg b1))) = (q2, Done, rsb)"
    "capture_publish rsb q2 l False = (q3, Done, rs2)"
    "d2 = d1\<lparr>d_b := b1\<lparr>bt_q := q3\<rparr>, d_durable := d_end d1, d_active := False\<rparr>"
    by (rule commit_record_Done [OF c skip])
  from flush_complete [OF r1(2) rows0 r1(3,4,5) cm(1) [unfolded capture_flush_def]] obtain ms' where
    fl: "grown E (bt_q (d_b d1)) ms' (bt_q b1)" "concat (map m_Rows (ms @ ms')) = rows" "m_Chunk (bt_msg b1) = length (ms @ ms')"
      "map m_Chunk (ms @ ms') = [0..<length (ms @ ms')]" "sound_batcher W (set rows) E b1 rsa" "bt_size b1 = 0"
      "\<forall>x\<in>set (ms @ ms'). chunk_ok E cfg x \<and> m_Kind x = ''transaction_rows'' \<and> m_Transaction x = l \<and> m_LSN x = l"
    unfolding msg0 by (auto simp: transaction_begin_def kind_msg_def zero_Message_def)
  let ?fin = "transaction_end l (length (ms @ ms'))"
  have "encodable W ?fin" using fin by simp
  from batch_append_spec [OF E this _ _ _ cm(2) [unfolded capture_append_def fl(3)]] fl(5)
  have ap: "queue_inv W E q2" "grown E (bt_q b1) [?fin] q2" "rounds_ok W E rsb" "budget q2 rsb" by (auto simp: sound_batcher_def)
  note pb = capture_publish_spec [OF E ap(1,3,4) cm(3)]
  have gr: "grown E q ((ms @ ms') @ [?fin]) q2"
    using grown_trans [OF grown_trans [OF r1(1) fl(1)] ap(2)] by simp
  have "suffix (map payload (published E q3)) (map payload (published E q) @ map payload (ms @ ms') @ [payload ?fin])"
    using pb grown_payload [OF gr] q gr map_suffix [of "published E q2" "published E q" payload]
      suffix_append_same [of "map payload (published E q2)" "map payload (published E q)" "map payload (staged E q2)"]
    by (auto simp: grown_def intro: suffix_order.trans)
  with fl(2,4,7) show ?thesis
    using E pb fl(6) by (intro that [of "ms @ ms'"]) (simp_all add: decoder_ok_def cm(4))
qed

lemma tx_new:
  assumes lim: "1 \<le> cfg_BatchRows cfg" "1 \<le> cfg_BatchBytes cfg"
    and ok: "decoder_ok W E d rs" and t: "tx_ok de t" "tx_encodable W E fe cfg (d_tables d) t"
    and new: "d_durable d < tx_end de t"
    and run: "consume_records E de fe cfg rs d (tx_stream t @ rest) = (d', Done, rs')"
  shows "\<exists>g d1 rs1. tx_group E fe cfg (d_tables d) t g \<and> decoder_ok W E d1 rs1 \<and>
     suffix (pub_payload E d1) (pub_payload E d @ g) \<and> d_durable d1 = tx_end de t \<and>
     s_DurableLSN (st (bt_q (d_b d1))) = tx_LSN t \<and> d_tables d1 = d_tables d \<and>
     consume_records E de fe cfg rs1 d1 rest = (d', Done, rs')"
proof -
  let ?C = "empty_record\<lparr>wr_Action := ''C'', wr_XID := tx_XID t, wr_NextLSN := tx_LSN t\<rparr>"
  obtain n where n: "parse_lsn de (tx_LSN t) = Some n" using t(1) by (auto simp: tx_ok_def)
  have pre: "bolt_ok E" "codec_ok W E" "queue_inv W E (bt_q (d_b d))" "rounds_ok W E rs" "budget (bt_q (d_b d)) rs"
    "staged E (bt_q (d_b d)) = []" "bt_size (d_b d) = 0" using ok by (auto simp: decoder_ok_def)
  from run obtain d0 rs0 where b: "record_step E de fe cfg rs d (empty_record\<lparr>wr_Action := ''B'', wr_XID := tx_XID t, wr_NextLSN := tx_LSN t\<rparr>) = (d0, Done, rs0)"
    and run0: "consume_records E de fe cfg rs0 d0 (tx_Rows t @ ?C # rest) = (d', Done, rs')"
    unfolding tx_stream_def append_Cons append_assoc append_Nil by (rule consume_records_Cons)
  have d0: "rs0 = rs" "d_active d0" "\<not> d_skip d0" "d_tables d0 = d_tables d" "d_ordinal d0 = 0" "d_end d0 = n"
    "d_b d0 = (d_b d)\<lparr>bt_msg := transaction_begin (tx_LSN t)\<rparr>"
    using begin_record_Done [OF b n] new n by (auto simp: tx_end_def)
  have acts: "\<forall>r\<in>set (tx_Rows t). wr_Action r \<in> {''I'', ''U'', ''D''}" using t(1) by (simp add: tx_ok_def)
  obtain rows where rows: "convert_all E fe cfg (d_tables d) 0 (tx_Rows t) = Some rows"
    using row_records_convert [OF acts d0(2,3) run0] d0(4,5) by auto
  have msg0: "bt_msg (d_b d0) = transaction_begin (tx_LSN t)" "bt_q (d_b d0) = bt_q (d_b d)" "m_Rows (bt_msg (d_b d0)) = []"
    by (simp_all add: d0(7) transaction_begin_def kind_msg_def zero_Message_def)
  have s0: "sound_batcher W (set rows) E (d_b d0) rs0"
    using pre t(2) rows msg0 by (simp add: sound_batcher_def tx_encodable_def d0(1))
  have b0: "batcher_ok E cfg (d_b d0)" using lim pre(7) msg0 by (simp add: batcher_ok_def d0(7))
  obtain ms d1 rs1 where r1: "grown E (bt_q (d_b d)) ms (bt_q (d_b d1))" "emitted (d_b d0) rows ms (d_b d1)"
    "\<forall>m\<in>set ms. chunk_ok E cfg m" "sound_batcher W (set rows) E (d_b d1) rs1" "batcher_ok E cfg (d_b d1)"
    "d1 = d0\<lparr>d_b := d_b d1, d_ordinal := d_ordinal d1\<rparr>" "consume_records E de fe cfg rs1 d1 (?C # rest) = (d', Done, rs')"
    using row_records_spec [OF lim acts d0(2,3) s0 b0 _ subset_refl run0] rows by (auto simp: d0(4,5) msg0(2))
  from r1(7) obtain d2 rs2 where c: "record_step E de fe cfg rs1 d1 ?C = (d2, Done, rs2)"
    and run2: "consume_records E de fe cfg rs2 d2 rest = (d', Done, rs')" by (rule consume_records_Cons)
  have d1: "\<not> d_skip d1" "d_end d1 = n" "d_tables d1 = d_tables d"
    using d0 arg_cong [OF r1(6), of d_skip] arg_cong [OF r1(6), of d_end] arg_cong [OF r1(6), of d_tables] by simp_all
  have fin: "\<forall>chunk. encodable W (transaction_end (tx_LSN t) chunk)" using t(2) by (simp add: tx_encodable_def)
  obtain chunks where ch: "concat (map m_Rows chunks) = rows" "map m_Chunk chunks = [0..<length chunks]"
    "\<forall>x\<in>set chunks. chunk_ok E cfg x \<and> m_Kind x = ''transaction_rows'' \<and> m_Transaction x = tx_LSN t \<and> m_LSN x = tx_LSN t"
    "suffix (pub_payload E d2) (pub_payload E d @ map payload chunks @ [payload (transaction_end (tx_LSN t) (length chunks))])"
    "decoder_ok W E d2 rs2" "d_durable d2 = d_end d1" "s_DurableLSN (st (bt_q (d_b d2))) = tx_LSN t" "d_tables d2 = d_tables d1"
    by (rule tx_commit [OF pre(1,2,6) msg0(1) r1(1-5) fin d1(1) c])
  have "tx_group E fe cfg (d_tables d) t (map payload chunks @ [payload (transaction_end (tx_LSN t) (length chunks))])"
    unfolding tx_group_def using rows ch(1-3) by blast
  with ch(4-8) run2 d1 n show ?thesis by (auto simp: tx_end_def)
qed

text \<open>A transaction that was already published is skipped: nothing is written for it.\<close>

lemma skipped_rows:
  assumes "\<forall>r\<in>set recs. wr_Action r \<in> {''I'', ''U'', ''D''}" "d_active d" "d_skip d"
    and "consume_records E de fe cfg rs d (recs @ rest) = (d', Done, rs')"
  shows "consume_records E de fe cfg rs d rest = (d', Done, rs')"
  using assms
proof (induction recs)
  case (Cons r recs)
  then have "record_step E de fe cfg rs d r = (d, Done, rs) \<or> (\<exists>e. record_step E de fe cfg rs d r = (d, Failed e, rs))"
    by (auto simp: record_step_def row_record_def)
  with Cons show ?case by auto
qed simp

lemma tx_replayed:
  assumes ok: "decoder_ok W E d rs" and t: "tx_ok de t" and old: "tx_end de t \<le> d_durable d"
    and run: "consume_records E de fe cfg rs d (tx_stream t @ rest) = (d', Done, rs')"
  shows "\<exists>d1. decoder_ok W E d1 rs \<and> bt_q (d_b d1) = bt_q (d_b d) \<and> d_durable d1 = d_durable d \<and>
     d_tables d1 = d_tables d \<and> consume_records E de fe cfg rs d1 rest = (d', Done, rs')"
proof -
  let ?C = "empty_record\<lparr>wr_Action := ''C'', wr_XID := tx_XID t, wr_NextLSN := tx_LSN t\<rparr>"
  obtain n where n: "parse_lsn de (tx_LSN t) = Some n" using t by (auto simp: tx_ok_def)
  from run obtain d0 rs0 where b: "record_step E de fe cfg rs d (empty_record\<lparr>wr_Action := ''B'', wr_XID := tx_XID t, wr_NextLSN := tx_LSN t\<rparr>) = (d0, Done, rs0)"
    and run0: "consume_records E de fe cfg rs0 d0 (tx_Rows t @ ?C # rest) = (d', Done, rs')"
    unfolding tx_stream_def append_Cons append_assoc append_Nil by (rule consume_records_Cons)
  have d0: "rs0 = rs" "d_active d0" "d_skip d0" "d_tables d0 = d_tables d" "d_durable d0 = d_durable d"
    "d_b d0 = (d_b d)\<lparr>bt_msg := transaction_begin (tx_LSN t)\<rparr>"
    using begin_record_Done [OF b n] old n by (auto simp: tx_end_def)
  have acts: "\<forall>r\<in>set (tx_Rows t). wr_Action r \<in> {''I'', ''U'', ''D''}" using t by (simp add: tx_ok_def)
  from skipped_rows [OF acts d0(2,3) run0] obtain d1 rs1 where c: "record_step E de fe cfg rs0 d0 ?C = (d1, Done, rs1)"
    and run1: "consume_records E de fe cfg rs1 d1 rest = (d', Done, rs')" by (rule consume_records_Cons)
  have "d1 = d0\<lparr>d_active := False\<rparr>" "rs1 = rs"
    using c d0(1,3) by (auto simp: record_step_def commit_record_def empty_record_def split: if_splits)
  then show ?thesis using run1 ok d0 by (intro exI [of _ d1]) (simp add: decoder_ok_def)
qed

section \<open>Properties\<close>

lemma filter_all: "(\<And>x. x \<in> set xs \<Longrightarrow> P x) \<Longrightarrow> filter P xs = xs"
  by (induction xs) auto

lemma decoder_stream:
  assumes lim: "1 \<le> cfg_BatchRows cfg" "1 \<le> cfg_BatchBytes cfg"
    and ok: "decoder_ok W E d rs" and ts: "\<forall>t\<in>set ts. tx_ok de t \<and> tx_encodable W E fe cfg (d_tables d) t"
    and order: "sorted_wrt (<) (map (tx_end de) ts)"
    and run: "consume_records E de fe cfg rs d (concat (map tx_stream ts)) = (d', Done, rs')"
  shows "\<exists>groups. list_all2 (tx_group E fe cfg (d_tables d)) (filter (\<lambda>t. d_durable d < tx_end de t) ts) groups \<and>
     suffix (pub_payload E d') (pub_payload E d @ concat groups) \<and> decoder_ok W E d' rs'"
  using ok ts order run
proof (induction ts arbitrary: d rs)
  case Nil
  then show ?case by (intro exI [of _ "[]"]) simp
next
  case (Cons t ts)
  have t: "tx_ok de t" "tx_encodable W E fe cfg (d_tables d) t" and order: "sorted_wrt (<) (map (tx_end de) ts)"
    using Cons.prems(2,3) by auto
  have run: "consume_records E de fe cfg rs d (tx_stream t @ concat (map tx_stream ts)) = (d', Done, rs')"
    using Cons.prems(4) by simp
  show ?case
  proof (cases "d_durable d < tx_end de t")
    case True
    from tx_new [OF lim Cons.prems(1) t True run] obtain g d1 rs1 where
      g: "tx_group E fe cfg (d_tables d) t g" "decoder_ok W E d1 rs1" "suffix (pub_payload E d1) (pub_payload E d @ g)"
        "d_durable d1 = tx_end de t" "d_tables d1 = d_tables d"
        "consume_records E de fe cfg rs1 d1 (concat (map tx_stream ts)) = (d', Done, rs')" by blast
    have ts1: "\<forall>t\<in>set ts. tx_ok de t \<and> tx_encodable W E fe cfg (d_tables d1) t" using Cons.prems(2) g(5) by simp
    have later: "\<And>u. u \<in> set ts \<Longrightarrow> tx_end de t < tx_end de u" using Cons.prems(3) by auto
    from Cons.IH [OF g(2) ts1 order g(6)] obtain groups where
      gs: "list_all2 (tx_group E fe cfg (d_tables d)) ts groups" "suffix (pub_payload E d') (pub_payload E d1 @ concat groups)"
        "decoder_ok W E d' rs'"
      using later by (auto simp: g(4,5) filter_all)
    have "filter (\<lambda>t. d_durable d < tx_end de t) (t # ts) = t # ts"
      using True later by (intro filter_all) (auto intro: order.strict_trans)
    moreover have "suffix (pub_payload E d') (pub_payload E d @ concat (g # groups))"
      using gs(2) suffix_append_same [OF g(3), of "concat groups"] by (auto intro: suffix_order.trans)
    ultimately show ?thesis using g(1) gs(1,3) by (intro exI [of _ "g # groups"]) simp
  next
    case False
    then have old: "tx_end de t \<le> d_durable d" by simp
    from tx_replayed [OF Cons.prems(1) t(1) old run] obtain d1 where
      d1: "decoder_ok W E d1 rs" "bt_q (d_b d1) = bt_q (d_b d)" "d_durable d1 = d_durable d" "d_tables d1 = d_tables d"
        "consume_records E de fe cfg rs d1 (concat (map tx_stream ts)) = (d', Done, rs')" by blast
    have ts1: "\<forall>t\<in>set ts. tx_ok de t \<and> tx_encodable W E fe cfg (d_tables d1) t" using Cons.prems(2) d1(4) by simp
    from Cons.IH [OF d1(1) ts1 order d1(5)] False show ?thesis by (simp add: d1(2,3,4))
  qed
qed

text \<open>The decoder publishes every committed transaction once: reading a stream of transactions in
  commit order, those that end after the durable position are published as one group each, in order,
  with all their rows, and those at or before it (a replay after a restart) add nothing.  Messages
  missing at the front were acknowledged in the meantime.\<close>

theorem decoder_publishes_once:
  assumes "1 \<le> cfg_BatchRows cfg" "1 \<le> cfg_BatchBytes cfg" "decoder_ok W E d rs"
    and "\<forall>t\<in>set ts. tx_ok de t \<and> tx_encodable W E fe cfg (d_tables d) t" "sorted_wrt (<) (map (tx_end de) ts)"
    and "consume_records E de fe cfg rs d (concat (map tx_stream ts)) = (d', Done, rs')"
  shows "\<exists>groups. list_all2 (tx_group E fe cfg (d_tables d)) (filter (\<lambda>t. d_durable d < tx_end de t) ts) groups \<and>
     suffix (map payload (published E (bt_q (d_b d')))) (map payload (published E (bt_q (d_b d))) @ concat groups) \<and>
     staged E (bt_q (d_b d')) = []"
  using decoder_stream [OF assms] by (auto simp: decoder_ok_def)

definition sample_denv :: denv where
  "sample_denv = \<lparr>parse_lsn = (\<lambda>s. Some (length s)), decode_stream = (\<lambda>_. ([], True))\<rparr>"

definition sample_table :: CaptureTable where
  "sample_table = \<lparr>ct_RowIdentity = '''', ct_Schema = ''public'', ct_Name = ''t'', ct_OID = 1, ct_Identity = ''d'',
     ct_Columns = [\<lparr>cc_Name = ''id'', cc_Type = ''integer'', cc_OID = 23, cc_NotNull = True, cc_Default = None, cc_Primary = True\<rparr>]\<rparr>"

definition sample_insert :: wal_record where
  "sample_insert = empty_record\<lparr>wr_Action := ''I'', wr_XID := 9, wr_Schema := ''public'', wr_Table := ''t'',
     wr_Columns := [\<lparr>w_Name = ''id'', w_Type = ''integer'', w_OID = 23, w_Value = ''1''\<rparr>]\<rparr>"

definition old_tx :: wal_tx where
  "old_tx = \<lparr>tx_LSN = ''0/1'', tx_XID = 8, tx_Rows = [sample_insert\<lparr>wr_XID := 8\<rparr>]\<rparr>"

definition new_tx :: wal_tx where
  "new_tx = \<lparr>tx_LSN = ''0/123'', tx_XID = 9, tx_Rows = [sample_insert]\<rparr>"

definition sample_decoder :: "(string \<times> Message) list decoder" where
  "sample_decoder = newDecoder sample_store [sample_table] 3"

abbreviation three_rounds :: "(string \<times> Message) list round list" where
  "three_rounds \<equiv> [sample_round, sample_round, sample_round]"

definition sample_decoded :: "(string \<times> Message) list decoder" where
  "sample_decoded = fst (consume_records sample_env sample_denv sample_fenv small_config three_rounds sample_decoder
     (concat (map tx_stream [old_tx, new_tx])))"

lemma sample_consume:
  "consume_records sample_env sample_denv sample_fenv small_config three_rounds sample_decoder (concat (map tx_stream [old_tx, new_tx])) =
   (sample_decoded, Done, [])"
  by (simp add: sample_decoded_def sample_decoder_def newDecoder_def tx_stream_def old_tx_def new_tx_def record_step_def begin_record_def
      row_record_def commit_record_def empty_record_def sample_denv_def sample_insert_def convert_def known_columns_def sample_table_def
      Text_def KeyNames_def key_step_def by_name_def capture_add_def batch_add_def Apply_def small_config_def Defaults_def pg_cut_def
      take_row_def capture_flush_def batch_flush_def capture_append_def capture_publish.simps Publish_def PublishSource_def
      sample_round_def Append_def Update_def Let_def sample_defs stamp_def transaction_begin_def transaction_end_def zero_Column_def operation_of_def)

theorem decoder_publishes_once_witness:
  "\<exists>g. tx_group sample_env sample_fenv small_config (d_tables sample_decoder) new_tx g \<and>
     suffix (map payload (published sample_env (bt_q (d_b sample_decoded)))) g"
proof -
  have q: "bt_q (d_b sample_decoder) = sample_store" "d_durable sample_decoder = 3"
    by (simp_all add: sample_decoder_def newDecoder_def)
  have "published sample_env sample_store = []" "staged sample_env sample_store = []"
    by (simp_all add: published_def staged_def sample_store_def zero_State_def)
  moreover have "decoder_ok UNIV sample_env sample_decoder three_rounds"
    using sample_rounds_ok [of UNIV] sample_store_inv calculation sample_bolt sample_codec sample_store_next
    by (simp add: decoder_ok_def q budget_def seq_limit_def rounds_ok_def) (simp add: sample_decoder_def newDecoder_def)
  moreover have "\<forall>t\<in>set [old_tx, new_tx]. tx_ok sample_denv t \<and> tx_encodable UNIV sample_env sample_fenv small_config (d_tables sample_decoder) t"
    by (simp add: tx_ok_def tx_encodable_def writable_def encodable_def old_tx_def new_tx_def sample_denv_def sample_insert_def empty_record_def)
  moreover have ends: "tx_end sample_denv old_tx = 3" "tx_end sample_denv new_tx = 5"
    by (simp_all add: tx_end_def sample_denv_def old_tx_def new_tx_def)
  moreover have "1 \<le> cfg_BatchRows small_config" "1 \<le> cfg_BatchBytes small_config" by (simp_all add: small_config_def)
  ultimately obtain groups where "list_all2 (tx_group sample_env sample_fenv small_config (d_tables sample_decoder)) [new_tx] groups"
    "suffix (map payload (published sample_env (bt_q (d_b sample_decoded)))) (concat groups)"
    using decoder_publishes_once [OF _ _ _ _ _ sample_consume, of UNIV] by (auto simp: q)
  then show ?thesis by (auto simp: list_all2_Cons1)
qed

lemma decode_columns_names:
  "decode_columns J known seen cols = Inr out \<Longrightarrow>
   distinct (map c_Name out) \<and> set (map c_Name out) \<subseteq> dom known \<and> set (map c_Name out) \<inter> seen = {}"
proof (induction J known seen cols arbitrary: out rule: decode_columns.induct)
  case (2 J known seen col cols)
  from "2.prems" obtain expected v out' where k: "known (w_Name col) = Some expected" "w_Name col \<notin> seen"
    and out': "decode_columns J known (insert (w_Name col) seen) cols = Inr out'"
    and conds: "\<not> (w_Name col \<in> seen \<or> cc_Type expected \<noteq> w_Type col \<or> cc_OID expected \<noteq> w_OID col)" "Text J (w_Value col) = Inr v"
    and out: "map c_Name out = w_Name col # map c_Name out'"
    by (auto split: option.splits if_splits sum.splits)
  from "2.IH" [OF k(1) conds out'] k show ?case by (auto simp: out)
qed simp

lemma by_name_Some: "by_name cs n = Some c \<Longrightarrow> c_Name c = n \<and> c \<in> set cs"
  by (auto simp: by_name_def dest: map_of_SomeD)

lemma by_name_None: "by_name cs n = None \<longleftrightarrow> n \<notin> set (map c_Name cs)"
  by (simp add: by_name_def map_of_eq_None_iff image_image)

lemma known_columns_dom: "dom (known_columns t) = set (map cc_Name (ct_Columns t))"
  by (simp add: known_columns_def dom_map_of_conv_image_fst image_image)

lemma full_row_names:
  assumes "foldM (full_row_step action values oldValues) row cols = Inr row'"
    and "\<And>n c. values n = Some c \<Longrightarrow> c_Name c = n" "\<And>n c. oldValues n = Some c \<Longrightarrow> c_Name c = n"
    and "action = ''U'' \<or> action = ''D'' \<Longrightarrow> \<forall>c\<in>set cols. oldValues (cc_Name c) \<noteq> None"
  shows "map c_Name (r_Key row') = map c_Name (r_Key row) @ map cc_Name cols \<and>
    (action = ''U'' \<longrightarrow> map c_Name (r_OldKey row') = map c_Name (r_OldKey row) @ map cc_Name cols) \<and>
    r_Identity row' = r_Identity row"
  using assms(1,4)
proof (induction cols arbitrary: row)
  case (Cons c cols)
  from Cons.prems(1) obtain row1 where row1: "full_row_step action values oldValues row c = Inr row1"
    "foldM (full_row_step action values oldValues) row1 cols = Inr row'" by (auto split: sum.splits)
  have "map c_Name (r_Key row1) = map c_Name (r_Key row) @ [cc_Name c] \<and>
      (action = ''U'' \<longrightarrow> map c_Name (r_OldKey row1) = map c_Name (r_OldKey row) @ [cc_Name c]) \<and> r_Identity row1 = r_Identity row"
    using row1(1) assms(2,3) Cons.prems(2) by (auto simp: full_row_step_def Let_def split: if_splits option.splits)
  with Cons.IH [OF row1(2)] Cons.prems(2) show ?case by auto
qed simp

lemma key_step_Inr:
  assumes "key_step action values oldValues row n = Inr row1"
  shows "\<exists>v. (values n = Some v \<or> oldValues n = Some v) \<and> c_Value v \<noteq> None \<and> r_Key row1 = r_Key row @ [v] \<and>
     ((action \<noteq> ''U'' \<and> r_OldKey row1 = r_OldKey row) \<or>
      (\<exists>ov. oldValues n = Some ov \<and> c_Value ov \<noteq> None \<and> r_OldKey row1 = r_OldKey row @ [ov]))"
proof (cases "action = ''D''")
  case True
  then show ?thesis using assms by (cases "oldValues n") (auto simp: key_step_def split: if_splits)
next
  case False
  then show ?thesis using assms
    by (cases "values n"; cases "oldValues n"; cases "action = ''U''") (auto simp: key_step_def split: if_splits)
qed

lemma key_names:
  assumes "foldM (key_step action values oldValues) row names = Inr row'"
    and "\<And>n c. values n = Some c \<Longrightarrow> c_Name c = n" "\<And>n c. oldValues n = Some c \<Longrightarrow> c_Name c = n"
  shows "map c_Name (r_Key row') = map c_Name (r_Key row) @ names \<and>
    (action = ''U'' \<longrightarrow> map c_Name (r_OldKey row') = map c_Name (r_OldKey row) @ names) \<and>
    ((\<forall>c\<in>set (r_Key row). c_Value c \<noteq> None) \<longrightarrow> (\<forall>c\<in>set (r_Key row'). c_Value c \<noteq> None)) \<and>
    ((\<forall>c\<in>set (r_OldKey row). c_Value c \<noteq> None) \<longrightarrow> (\<forall>c\<in>set (r_OldKey row'). c_Value c \<noteq> None))"
  using assms(1)
proof (induction names arbitrary: row)
  case (Cons n names)
  from Cons.prems(1) obtain row1 where row1: "key_step action values oldValues row n = Inr row1"
    "foldM (key_step action values oldValues) row1 names = Inr row'" by (auto split: sum.splits)
  from key_step_Inr [OF row1(1)] obtain v where v0: "values n = Some v \<or> oldValues n = Some v"
    and v: "c_Value v \<noteq> None" "r_Key row1 = r_Key row @ [v]"
    and old: "(action \<noteq> ''U'' \<and> r_OldKey row1 = r_OldKey row) \<or>
     (\<exists>ov. oldValues n = Some ov \<and> c_Value ov \<noteq> None \<and> r_OldKey row1 = r_OldKey row @ [ov])"
    by (elim exE conjE)
  have name: "c_Name v = n" using v0 by (elim disjE) (erule assms(2), erule assms(3))
  note IH = Cons.IH [OF row1(2)]
  have key: "map c_Name (r_Key row1) = map c_Name (r_Key row) @ [n]"
    "(\<forall>c\<in>set (r_Key row). c_Value c \<noteq> None) \<longrightarrow> (\<forall>c\<in>set (r_Key row1). c_Value c \<noteq> None)"
    using v name by (simp_all only: map_append list.map set_append ball_Un) simp_all
  have oldkey: "action = ''U'' \<longrightarrow> map c_Name (r_OldKey row1) = map c_Name (r_OldKey row) @ [n]"
    "(\<forall>c\<in>set (r_OldKey row). c_Value c \<noteq> None) \<longrightarrow> (\<forall>c\<in>set (r_OldKey row1). c_Value c \<noteq> None)"
    using old assms(3) by auto
  show ?case using IH key oldkey by (metis append_Cons append_Nil append_assoc)
qed simp

text \<open>A converted row identifies its row completely: in a table with a primary key its key (and for an
  update its old key) has a value for every key column; in a table without one the key covers every
  column, for updates and deletes from the complete old row.\<close>

theorem convert_identity:
  assumes conv: "convert E r t = Inr row" and names: "distinct (map cc_Name (ct_Columns t))"
  shows "if ct_RowIdentity t = ''full_row''
     then r_Identity row = ''full_row'' \<and> map c_Name (r_Key row) = map cc_Name (ct_Columns t) \<and>
          (wr_Action r = ''U'' \<longrightarrow> map c_Name (r_OldKey row) = map cc_Name (ct_Columns t))
     else map c_Name (r_Key row) = KeyNames t \<and> (\<forall>c\<in>set (r_Key row). c_Value c \<noteq> None) \<and>
          (wr_Action r = ''U'' \<longrightarrow> map c_Name (r_OldKey row) = KeyNames t) \<and> (\<forall>c\<in>set (r_OldKey row). c_Value c \<noteq> None)"
proof -
  from conv obtain cols old where cols: "decode_columns E (known_columns t) {} (wr_Columns r) = Inr cols"
    and old: "decode_columns E (known_columns t) {} (wr_Identity r) = Inr old" by (auto simp: convert_def split: sum.splits)
  let ?row = "zero_Row\<lparr>r_Schema := wr_Schema r, r_Table := wr_Table r, r_Operation := operation_of (wr_Action r), r_Columns := cols\<rparr>"
  have by_name: "\<And>n c. by_name cols n = Some c \<Longrightarrow> c_Name c = n" "\<And>n c. by_name old n = Some c \<Longrightarrow> c_Name c = n"
    using by_name_Some by auto
  have row0: "r_Key ?row = []" "r_OldKey ?row = []" by (simp_all add: zero_Row_def)
  show ?thesis
  proof (cases "ct_RowIdentity t = ''full_row''")
    case True
    with conv cols old have run: "foldM (full_row_step (wr_Action r) (by_name cols) (by_name old)) (?row\<lparr>r_Identity := ''full_row''\<rparr>) (ct_Columns t) = Inr row"
      and len: "wr_Action r = ''U'' \<or> wr_Action r = ''D'' \<longrightarrow> length (remdups (map c_Name old)) = length (ct_Columns t)"
      by (auto simp: convert_def Let_def split: if_splits)
    have "\<forall>c\<in>set (ct_Columns t). by_name old (cc_Name c) \<noteq> None" if "wr_Action r = ''U'' \<or> wr_Action r = ''D''"
    proof -
      have o: "distinct (map c_Name old)" "set (map c_Name old) \<subseteq> set (map cc_Name (ct_Columns t))"
        using decode_columns_names [OF old] by (auto simp: known_columns_dom)
      then have "card (set (map c_Name old)) = card (set (map cc_Name (ct_Columns t)))"
        using len that names by (simp only: distinct_remdups_id distinct_card length_map simp_thms)
      with o(2) have "set (map c_Name old) = set (map cc_Name (ct_Columns t))" by (simp add: card_subset_eq)
      then show ?thesis by (auto simp: by_name_None image_iff set_eq_iff)
    qed
    from full_row_names [OF run by_name this] True row0 show ?thesis by simp
  next
    case False
    with conv cols old have "foldM (key_step (wr_Action r) (by_name cols) (by_name old)) ?row (KeyNames t) = Inr row"
      by (auto simp: convert_def Let_def split: if_splits sum.splits)
    from key_names [OF this by_name] False row0 show ?thesis by simp
  qed
qed

theorem convert_identity_witness:
  "\<exists>row. convert sample_env sample_insert sample_table = Inr row \<and> map c_Name (r_Key row) = [''id'']"
proof -
  have conv: "\<exists>row. convert sample_env sample_insert sample_table = Inr row"
    by (simp add: convert_def known_columns_def sample_table_def sample_insert_def empty_record_def Text_def sample_env_def KeyNames_def
        key_step_def by_name_def zero_Column_def Let_def)
  then obtain row where row: "convert sample_env sample_insert sample_table = Inr row" by blast
  have "distinct (map cc_Name (ct_Columns sample_table))" "KeyNames sample_table = [''id'']" "ct_RowIdentity sample_table = ''''"
    by (simp_all add: sample_table_def KeyNames_def)
  with convert_identity [OF row] row show ?thesis by auto
qed

end
