(* ===== verification/ServerConfig.thy ===== *)
theory ServerConfig
  imports Config
begin

text \<open>
  The configuration of the server, \<open>internal/serverconfig/config.go\<close>: the records, the defaults, the
  checks of \<open>Validate\<close> and the lookups that the target uses.  \<open>Validate\<close> takes the configuration by
  value but reaches the syncers through the shared slice, so its defaults (metadata schema, backend in
  lower case, events, file size) stay in the configuration of the caller: here it returns the updated
  configuration with the error.  Certificates, time zones and what \<^typ>\<open>cenv\<close> holds are parameters.
\<close>

record ServerGRPC =
  sg_ListenAddr :: string
  sg_TLSCertFile :: string
  sg_TLSKeyFile :: string
  sg_MaxMessageBytes :: int

record VictoriaMetrics =
  vm_URL :: string
  vm_Interval :: string
  vm_Timeout :: string
  vm_Headers :: "(string \<times> string) list"

record Postgres =
  pg_DSN :: string
  pg_TargetSchema :: string
  pg_MetadataSchema :: string

record TargetTable =
  tt_SourceSchema :: string
  tt_Name :: string

record TargetFileColumn =
  tf_SourceSchema :: string
  tf_Table :: string
  tf_SourceColumn :: string
  tf_ContentColumn :: string

record FileStorage =
  fs_Backend :: string
  fs_Directory :: string
  fs_Endpoint :: string
  fs_Region :: string
  fs_Bucket :: string
  fs_Prefix :: string
  fs_AccessKey :: string
  fs_SecretKey :: string
  fs_SessionToken :: string
  fs_Secure :: bool
  fs_Events :: "string list"
  fs_MaxFileBytes :: int

record Syncer =
  sy_ID :: string
  sy_Token :: string
  sy_Postgres :: Postgres
  sy_Tables :: "TargetTable list"
  sy_FileColumns :: "TargetFileColumn list"
  sy_AutoAddColumns :: bool
  sy_FileStorage :: FileStorage

record ReconcileConfig =
  rc_Enabled :: bool
  rc_DailyAt :: string
  rc_Timezone :: string
  rc_Buckets :: int
  rc_Timeout :: string
  rc_RepairMinInterval :: string
  rc_AutoRepair :: bool
  rc_DryRun :: bool

record ServerConfig =
  sc_GRPC :: ServerGRPC
  sc_AdminToken :: string
  sc_MetricsAddr :: string
  sc_VictoriaMetrics :: VictoriaMetrics
  sc_Reconcile :: ReconcileConfig
  sc_Log :: Log
  sc_Syncers :: "Syncer list"

definition server_Defaults :: ServerConfig where
  "server_Defaults =
     \<lparr>sc_GRPC = \<lparr>sg_ListenAddr = '':7443'', sg_TLSCertFile = '''', sg_TLSKeyFile = '''', sg_MaxMessageBytes = 32 * 2 ^ 20\<rparr>,
      sc_AdminToken = '''', sc_MetricsAddr = ''127.0.0.1:9100'',
      sc_VictoriaMetrics = \<lparr>vm_URL = '''', vm_Interval = ''30s'', vm_Timeout = ''15s'', vm_Headers = []\<rparr>,
      sc_Reconcile = \<lparr>rc_Enabled = True, rc_DailyAt = ''02:00'', rc_Timezone = ''Asia/Shanghai'', rc_Buckets = 256,
                      rc_Timeout = ''30m'', rc_RepairMinInterval = ''24h'', rc_AutoRepair = True, rc_DryRun = False\<rparr>,
      sc_Log = \<lparr>lg_File = '''', lg_Level = ''info'', lg_MaxSizeMB = 100, lg_MaxBackups = 10, lg_MaxAgeDays = 30,
                lg_Compress = True\<rparr>,
      sc_Syncers = []\<rparr>"

text \<open>\<open>LoadX509\<close> is \<open>tls.LoadX509KeyPair\<close>, \<open>LoadLocation\<close> says whether a time zone exists, and
  \<open>timeout_first\<close> is the order in which Go visits the map of two durations in \<open>Reconcile.validate\<close>.\<close>

record senv = cenv +
  LoadX509 :: "string \<Rightarrow> string \<Rightarrow> err option"
  LoadLocation :: "string \<Rightarrow> bool"
  timeout_first :: bool

section \<open>Lookups\<close>

definition Allows :: "Syncer \<Rightarrow> string \<Rightarrow> string \<Rightarrow> bool" where
  "Allows s schema table \<longleftrightarrow> list_ex (\<lambda>t. tt_SourceSchema t = schema \<and> tt_Name t = table) (sy_Tables s)"

definition FileMapping :: "Syncer \<Rightarrow> string \<Rightarrow> string \<Rightarrow> string \<Rightarrow> string option" where
  "FileMapping s schema table column =
     map_option tf_ContentColumn
       (find (\<lambda>r. tf_SourceSchema r = schema \<and> tf_Table r = table \<and> tf_SourceColumn r = column) (sy_FileColumns s))"

definition AllowsFileOperation :: "Syncer \<Rightarrow> string \<Rightarrow> bool" where
  "AllowsFileOperation s operation \<longleftrightarrow>
     fs_Backend (sy_FileStorage s) \<noteq> '''' \<and> operation \<in> set (fs_Events (sy_FileStorage s))"

definition StaticEqual :: "ServerConfig \<Rightarrow> ServerConfig \<Rightarrow> bool" where
  "StaticEqual c d \<longleftrightarrow>
     sg_ListenAddr (sc_GRPC c) = sg_ListenAddr (sc_GRPC d) \<and> sg_MaxMessageBytes (sc_GRPC c) = sg_MaxMessageBytes (sc_GRPC d) \<and>
     sc_MetricsAddr c = sc_MetricsAddr d \<and> lg_File (sc_Log c) = lg_File (sc_Log d) \<and>
     lg_MaxSizeMB (sc_Log c) = lg_MaxSizeMB (sc_Log d) \<and> lg_MaxBackups (sc_Log c) = lg_MaxBackups (sc_Log d) \<and>
     lg_MaxAgeDays (sc_Log c) = lg_MaxAgeDays (sc_Log d) \<and> lg_Compress (sc_Log c) = lg_Compress (sc_Log d)"

definition server_Hash :: "(string \<Rightarrow> string) \<Rightarrow> (ServerConfig \<Rightarrow> string) \<Rightarrow> ServerConfig \<Rightarrow> string" where
  "server_Hash sha256 json c = hex_EncodeToString (sha256 (json c))"

section \<open>Checks\<close>

definition has_crlf :: "string \<Rightarrow> bool" where
  "has_crlf s \<longleftrightarrow> CHR 0x0D \<in> set s \<or> CHR 0x0A \<in> set s"

fun contains_dots :: "string \<Rightarrow> bool" where
  "contains_dots (a # b # s) = ((a = CHR ''.'' \<and> b = CHR ''.'') \<or> contains_dots (b # s))"
| "contains_dots s = False"

definition trim_slashes :: "string \<Rightarrow> string" where
  "trim_slashes s = rev (dropWhile (\<lambda>c. c = CHR ''/'') (rev (dropWhile (\<lambda>c. c = CHR ''/'') s)))"

text \<open>\<open>time.Parse\<close> with the layout \<open>15:04\<close>: an hour of one or two digits, a minute of two.\<close>

definition hour_minute :: "string \<Rightarrow> string \<Rightarrow> bool" where
  "hour_minute h m \<longleftrightarrow> list_all is_digit h \<and> list_all is_digit m \<and> length h \<in> set [1, 2] \<and> length m = 2 \<and>
     undec h < 24 \<and> undec m < 60"

definition parse_daily :: "string \<Rightarrow> bool" where
  "parse_daily s \<longleftrightarrow> (case split_on (CHR '':'') s of [h, m] \<Rightarrow> hour_minute h m | _ \<Rightarrow> False)"

definition Reconcile_validate :: "senv \<Rightarrow> ReconcileConfig \<Rightarrow> err option" where
  "Reconcile_validate se r =
     (let timeout = reject (\<not> duration_at_least (cenv.truncate se) 60000000000 (rc_Timeout r)) ''reconcile.timeout must be at least 1m'';
          interval = reject (\<not> duration_at_least (cenv.truncate se) 60000000000 (rc_RepairMinInterval r))
            ''reconcile.repair_min_interval must be at least 1m''
      in first_error
       [reject (\<not> parse_daily (rc_DailyAt r)) ''reconcile.daily_at must use HH:MM'',
        reject (\<not> LoadLocation se (rc_Timezone r)) ''reconcile.timezone is invalid'',
        reject (rc_Buckets r < 1 \<or> rc_Buckets r > 65536) ''reconcile.buckets must be between 1 and 65536'',
        (if timeout_first se then timeout else interval), (if timeout_first se then interval else timeout),
        reject (rc_DryRun r \<and> rc_AutoRepair r) ''reconcile.dry_run and reconcile.auto_repair cannot both be true''])"

definition identifier_ok :: "string \<Rightarrow> bool" where
  "identifier_ok s \<longleftrightarrow>
     (case s of [] \<Rightarrow> False
      | c # cs \<Rightarrow> (is_upper c \<or> is_lower c \<or> c = CHR ''_'') \<and> length cs \<le> 62 \<and>
          list_all (\<lambda>c. is_upper c \<or> is_lower c \<or> is_numeral c \<or> c = CHR ''_'' \<or> c = CHR ''$'') cs)"

definition http_url_ok :: "senv \<Rightarrow> string \<Rightarrow> bool" where
  "http_url_ok se s \<longleftrightarrow>
     (case url_Parse se s of None \<Rightarrow> False
      | Some (scheme, host, user) \<Rightarrow> host \<noteq> '''' \<and> (scheme = ''http'' \<or> scheme = ''https'') \<and> \<not> user)"

text \<open>\<open>FileStorage.validate\<close>: the defaults are kept also when a check fails.\<close>

fun storage_events :: "string set \<Rightarrow> string list \<Rightarrow> bool" where
  "storage_events seen [] = True"
| "storage_events seen (e # es) =
     (e \<in> set [''create'', ''update'', ''delete''] \<and> e \<notin> seen \<and> storage_events (insert e seen) es)"

definition storage_defaults :: "FileStorage \<Rightarrow> FileStorage" where
  "storage_defaults f =
     f\<lparr>fs_Backend := ToLower (fs_Backend f),
       fs_Events := (if fs_Events f = [] then [''create'', ''update'', ''delete''] else fs_Events f),
       fs_MaxFileBytes := (if fs_MaxFileBytes f = 0 then 2 ^ 30 else fs_MaxFileBytes f)\<rparr>"

definition backend_error :: "senv \<Rightarrow> FileStorage \<Rightarrow> err option" where
  "backend_error se f =
     (if fs_Backend f = ''directory'' then
        reject (\<not> IsAbs (fs_Directory f)) ''file_storage.directory must be absolute''
      else if fs_Backend f = ''s3'' \<or> fs_Backend f = ''oss'' then
        first_error
         [reject (fs_Endpoint f = '''' \<or> fs_Bucket f = '''' \<or> fs_AccessKey f = '''' \<or> fs_SecretKey f = '''')
            ''object storage requires endpoint, bucket, access_key and secret_key'',
          reject (has_crlf (fs_AccessKey f @ fs_SecretKey f @ fs_SessionToken f)) ''invalid object storage credentials'',
          reject (has_crlf (fs_Endpoint f)) ''invalid object storage endpoint'',
          reject (fs_Backend f = ''oss'' \<and> \<not> http_url_ok se (fs_Endpoint f))
            ''OSS endpoint must be an http(s) URL without credentials'']
      else Some (Err ''file_storage.backend must be directory, s3 or oss''))"

definition FileStorage_validate :: "senv \<Rightarrow> FileStorage \<Rightarrow> FileStorage \<times> err option" where
  "FileStorage_validate se f0 =
     (if fs_Backend f0 = '''' then (f0, None)
      else
        (let f = storage_defaults f0 in
         (f, first_error
           [reject (fs_MaxFileBytes f < 2 ^ 20 \<or> fs_MaxFileBytes f > 2 ^ 40)
              ''file_storage.max_file_bytes must be between 1 MiB and 1 TiB'',
            reject (\<not> storage_events {} (fs_Events f)) ''invalid or duplicate file_storage event'',
            reject (has_nul (fs_Prefix f @ fs_Directory f @ fs_Endpoint f @ fs_Bucket f) \<or> IsAbs (fs_Prefix f) \<or>
                    contains_dots (fs_Prefix f)) ''invalid file_storage paths'',
            backend_error se f])))"

definition fileStorageKey :: "FileStorage \<Rightarrow> string" where
  "fileStorageKey f =
     (if fs_Backend f = ''directory''
      then ''directory'' @ [CHR 0x00] @ Clean (path_Join (fs_Directory f) (fs_Prefix f))
      else ''object'' @ [CHR 0x00] @ ToLower (fs_Endpoint f) @ [CHR 0x00] @ fs_Bucket f @ [CHR 0x00] @
        Clean (''/'' @ fs_Prefix f))"

definition filePathsOverlap :: "string \<Rightarrow> string \<Rightarrow> bool" where
  "filePathsOverlap a b \<longleftrightarrow> path_contains a b \<or> path_contains b a"

definition storageKeysOverlap :: "string \<Rightarrow> string \<Rightarrow> bool" where
  "storageKeysOverlap a b \<longleftrightarrow>
     (let aParts = split_on (CHR 0x00) a; bParts = split_on (CHR 0x00) b in
      if length aParts \<noteq> length bParts \<or> butlast aParts \<noteq> butlast bParts then False
      else if hd aParts = ''directory'' then filePathsOverlap (last aParts) (last bParts)
      else (let aPrefix = trim_slashes (last aParts); bPrefix = trim_slashes (last bParts) in
        aPrefix = bPrefix \<or> has_prefix aPrefix (bPrefix @ ''/'') \<or> has_prefix bPrefix (aPrefix @ ''/'')))"

section \<open>Validate\<close>

text \<open>What the loop over the syncers has seen: the identifiers, the owner of every target table and
  the owner of every storage location.\<close>

record seen =
  sn_IDs :: "string set"
  sn_Targets :: "(string \<times> string) list"
  sn_Files :: "(string \<times> string) list"

definition target_key :: "Postgres \<Rightarrow> string \<Rightarrow> string" where
  "target_key p name = pg_DSN p @ [CHR 0x00] @ pg_TargetSchema p @ [CHR 0x00] @ name"

fun syncer_tables ::
  "string \<Rightarrow> Postgres \<Rightarrow> string set \<Rightarrow> (string \<times> string) list \<Rightarrow> TargetTable list \<Rightarrow> (string set \<times> (string \<times> string) list) res" where
  "syncer_tables sid p names targets [] = Inr (names, targets)"
| "syncer_tables sid p names targets (t # ts) =
     (if \<not> identifier_ok (tt_SourceSchema t) \<or> \<not> identifier_ok (tt_Name t) then Inl (Err ''invalid table'')
      else if tt_Name t \<in> names then Inl (Err ''duplicate target table'')
      else case map_of targets (target_key p (tt_Name t)) of
        Some other \<Rightarrow> Inl (Err ''syncers share a target table'')
      | None \<Rightarrow> syncer_tables sid p (insert (tt_Name t) names) ((target_key p (tt_Name t), sid) # targets) ts)"

fun syncer_rules :: "string set \<Rightarrow> TargetFileColumn list \<Rightarrow> err option" where
  "syncer_rules names [] = None"
| "syncer_rules names (r # rs) =
     (if \<not> identifier_ok (tf_SourceSchema r) \<or> \<not> identifier_ok (tf_Table r) \<or> \<not> identifier_ok (tf_SourceColumn r) \<or>
         \<not> identifier_ok (tf_ContentColumn r) then Some (Err ''invalid file column mapping'')
      else if tf_Table r \<notin> names \<or> tf_SourceColumn r = tf_ContentColumn r
      then Some (Err ''file mapping references an invalid table or column'')
      else syncer_rules names rs)"

definition with_metadata :: "Syncer \<Rightarrow> Syncer" where
  "with_metadata s =
     (if pg_MetadataSchema (sy_Postgres s) = ''''
      then s\<lparr>sy_Postgres := (sy_Postgres s)\<lparr>pg_MetadataSchema := ''go_sync_meta''\<rparr>\<rparr> else s)"

definition storage_claim :: "string \<Rightarrow> FileStorage \<Rightarrow> (string \<times> string) list \<Rightarrow> (string \<times> string) list res" where
  "storage_claim sid f files =
     (if fs_Backend f = '''' then Inr files
      else if list_ex (\<lambda>(existing, owner). storageKeysOverlap existing (fileStorageKey f)) files
      then Inl (Err ''syncers have overlapping file storage'')
      else Inr ((fileStorageKey f, sid) # files))"

definition validate_syncer :: "senv \<Rightarrow> seen \<Rightarrow> Syncer \<Rightarrow> Syncer \<times> seen res" where
  "validate_syncer se sn s =
     (if \<not> source_id_ok (sy_ID s) \<or> sy_Token s = '''' \<or> pg_DSN (sy_Postgres s) = '''' \<or> has_crlf (sy_Token s) \<or>
         length (sy_Token s) > 4096
      then (s, Inl (Err ''each syncer requires a valid id, token and postgres.dsn''))
      else if sy_ID s \<in> sn_IDs sn then (s, Inl (Err ''duplicate syncer id''))
      else
        (let s1 = with_metadata s; p = sy_Postgres s1 in
         if \<not> identifier_ok (pg_TargetSchema p) \<or> \<not> identifier_ok (pg_MetadataSchema p)
         then (s1, Inl (Err ''invalid PostgreSQL schema''))
         else if sy_Tables s1 = [] \<and> fs_Backend (sy_FileStorage s1) = '''' then (s1, Inl (Err ''no tables''))
         else
           (let (f, e) = FileStorage_validate se (sy_FileStorage s1); s2 = s1\<lparr>sy_FileStorage := f\<rparr> in
            case e of Some e \<Rightarrow> (s2, Inl e)
            | None \<Rightarrow>
                (case storage_claim (sy_ID s) f (sn_Files sn) of
                   Inl e \<Rightarrow> (s2, Inl e)
                 | Inr files \<Rightarrow>
                     (case syncer_tables (sy_ID s) p {} (sn_Targets sn) (sy_Tables s2) of
                        Inl e \<Rightarrow> (s2, Inl e)
                      | Inr (names, targets) \<Rightarrow>
                          (case syncer_rules names (sy_FileColumns s2) of
                             Some e \<Rightarrow> (s2, Inl e)
                           | None \<Rightarrow> (s2, Inr \<lparr>sn_IDs = insert (sy_ID s) (sn_IDs sn), sn_Targets = targets, sn_Files = files\<rparr>)))))))"

fun validate_syncers :: "senv \<Rightarrow> seen \<Rightarrow> Syncer list \<Rightarrow> Syncer list \<times> err option" where
  "validate_syncers se sn [] = ([], None)"
| "validate_syncers se sn (s # ss) =
     (case validate_syncer se sn s of
        (s', Inl e) \<Rightarrow> (s' # ss, Some e)
      | (s', Inr sn') \<Rightarrow> (let (ss', e) = validate_syncers se sn' ss in (s' # ss', e)))"

definition server_checks :: "senv \<Rightarrow> ServerConfig \<Rightarrow> err option" where
  "server_checks se c =
     first_error
      [reject (SplitPort se (sg_ListenAddr (sc_GRPC c)) = None) ''grpc.listen_addr must be host:port'',
       reject (sg_MaxMessageBytes (sc_GRPC c) < 2 ^ 20) ''grpc.max_message_bytes must be at least 1 MiB'',
       reject (sg_TLSCertFile (sc_GRPC c) = '''' \<or> sg_TLSKeyFile (sc_GRPC c) = '''') ''grpc TLS certificate and key are required'',
       map_option (Wrap ''load grpc TLS key pair'') (LoadX509 se (sg_TLSCertFile (sc_GRPC c)) (sg_TLSKeyFile (sc_GRPC c))),
       reject (has_nul (sg_TLSCertFile (sc_GRPC c) @ sg_TLSKeyFile (sc_GRPC c))) ''grpc TLS paths must not contain nul'',
       reject (sc_AdminToken c = '''') ''admin_token is required'',
       reject (has_crlf (sc_AdminToken c) \<or> length (sc_AdminToken c) > 4096) ''admin_token is invalid'',
       reject (sc_MetricsAddr c \<noteq> '''' \<and> SplitPort se (sc_MetricsAddr c) = None) ''metrics_addr must be host:port'',
       (if vm_URL (sc_VictoriaMetrics c) = '''' then None
        else first_error
         [reject (\<not> http_url_ok se (vm_URL (sc_VictoriaMetrics c))) ''victoria_metrics.url must be an http(s) URL without credentials'',
          reject (\<not> list_all (duration_at_least (cenv.truncate se) 1000000000) [vm_Interval (sc_VictoriaMetrics c), vm_Timeout (sc_VictoriaMetrics c)])
            ''VictoriaMetrics interval and timeout must be at least 1s'']),
       reject (list_ex (\<lambda>(name, value). name = '''' \<or> has_crlf (name @ value)) (vm_Headers (sc_VictoriaMetrics c)))
         ''VictoriaMetrics headers are invalid'',
       Reconcile_validate se (sc_Reconcile c)]"

definition server_Validate :: "senv \<Rightarrow> ServerConfig \<Rightarrow> ServerConfig \<times> err option" where
  "server_Validate se c =
     (case server_checks se c of
        Some e \<Rightarrow> (c, Some e)
      | None \<Rightarrow> (let (ss, e) = validate_syncers se \<lparr>sn_IDs = {}, sn_Targets = [], sn_Files = []\<rparr> (sc_Syncers c)
                 in (c\<lparr>sc_Syncers := ss\<rparr>, e)))"

section \<open>Loading\<close>

definition expand_syncer :: "(string \<Rightarrow> string) \<Rightarrow> Syncer \<Rightarrow> Syncer" where
  "expand_syncer expand s =
     s\<lparr>sy_Token := expand (sy_Token s),
       sy_Postgres := (sy_Postgres s)\<lparr>pg_DSN := expand (pg_DSN (sy_Postgres s))\<rparr>,
       sy_FileStorage := (sy_FileStorage s)\<lparr>fs_AccessKey := expand (fs_AccessKey (sy_FileStorage s)),
         fs_SecretKey := expand (fs_SecretKey (sy_FileStorage s)),
         fs_SessionToken := expand (fs_SessionToken (sy_FileStorage s))\<rparr>\<rparr>"

definition expand_server :: "(string \<Rightarrow> string) \<Rightarrow> ServerConfig \<Rightarrow> ServerConfig" where
  "expand_server expand c =
     c\<lparr>sc_AdminToken := expand (sc_AdminToken c), sc_Syncers := map (expand_syncer expand) (sc_Syncers c),
       sc_VictoriaMetrics := (sc_VictoriaMetrics c)\<lparr>vm_Headers := map (\<lambda>(k, v). (k, expand v)) (vm_Headers (sc_VictoriaMetrics c))\<rparr>\<rparr>"

text \<open>As for the collector: \<open>content\<close> is the opened file, \<open>decode\<close> reads the first JSON value over the
  defaults, \<open>at_end\<close> says that nothing follows and \<open>expand\<close> is \<open>os.ExpandEnv\<close>.\<close>

definition server_Load ::
  "senv \<Rightarrow> string res \<Rightarrow> (ServerConfig \<Rightarrow> string \<Rightarrow> (ServerConfig \<times> string) res) \<Rightarrow> (string \<Rightarrow> bool) \<Rightarrow> (string \<Rightarrow> string) \<Rightarrow> ServerConfig res" where
  "server_Load se content decode at_end expand =
     (case content of
        Inl e \<Rightarrow> Inl e
      | Inr text \<Rightarrow>
          (case decode server_Defaults text of
             Inl e \<Rightarrow> Inl (Wrap ''server config'' e)
           | Inr (c, rest) \<Rightarrow>
               if \<not> at_end rest then Inl (Err ''server config: trailing JSON'')
               else (case server_Validate se (expand_server expand c) of
                       (c', Some e) \<Rightarrow> Inl e
                     | (c', None) \<Rightarrow> Inr c')))"

section \<open>Facts\<close>

text \<open>Two syncers are apart: no table of one is a table of the other, and their storage locations do
  not overlap.\<close>

definition tables_apart :: "Syncer \<Rightarrow> Syncer \<Rightarrow> bool" where
  "tables_apart a b \<longleftrightarrow>
     (\<forall>t\<in>set (sy_Tables a). \<forall>u\<in>set (sy_Tables b).
        (pg_DSN (sy_Postgres a), pg_TargetSchema (sy_Postgres a), tt_Name t) \<noteq>
        (pg_DSN (sy_Postgres b), pg_TargetSchema (sy_Postgres b), tt_Name u))"

definition storage_apart :: "Syncer \<Rightarrow> Syncer \<Rightarrow> bool" where
  "storage_apart a b \<longleftrightarrow>
     (fs_Backend (sy_FileStorage a) \<noteq> '''' \<longrightarrow> fs_Backend (sy_FileStorage b) \<noteq> '''' \<longrightarrow>
      \<not> storageKeysOverlap (fileStorageKey (sy_FileStorage a)) (fileStorageKey (sy_FileStorage b)))"

text \<open>What the checks establish for one syncer.\<close>

definition storage_ok :: "FileStorage \<Rightarrow> bool" where
  "storage_ok f \<longleftrightarrow>
     fs_Backend f \<in> {''directory'', ''s3'', ''oss''} \<and> 2 ^ 20 \<le> fs_MaxFileBytes f \<and> fs_MaxFileBytes f \<le> 2 ^ 40 \<and>
     fs_Events f \<noteq> [] \<and> \<not> has_nul (fs_Prefix f) \<and> \<not> has_nul (fs_Directory f) \<and> \<not> has_nul (fs_Endpoint f) \<and>
     \<not> has_nul (fs_Bucket f) \<and> \<not> IsAbs (fs_Prefix f) \<and> \<not> contains_dots (fs_Prefix f) \<and>
     (fs_Backend f = ''directory'' \<longrightarrow> IsAbs (fs_Directory f))"

definition syncer_ok :: "Syncer \<Rightarrow> bool" where
  "syncer_ok s \<longleftrightarrow>
     source_id_ok (sy_ID s) \<and> identifier_ok (pg_TargetSchema (sy_Postgres s)) \<and> identifier_ok (pg_MetadataSchema (sy_Postgres s)) \<and>
     distinct (map tt_Name (sy_Tables s)) \<and> (\<forall>t\<in>set (sy_Tables s). identifier_ok (tt_SourceSchema t) \<and> identifier_ok (tt_Name t)) \<and>
     (\<forall>r\<in>set (sy_FileColumns s). identifier_ok (tf_ContentColumn r) \<and> tf_SourceColumn r \<noteq> tf_ContentColumn r \<and>
        tf_Table r \<in> tt_Name ` set (sy_Tables s)) \<and>
     (fs_Backend (sy_FileStorage s) \<noteq> '''' \<longrightarrow> storage_ok (sy_FileStorage s))"

lemma identifier_no_nul: "identifier_ok s \<Longrightarrow> CHR 0x00 \<notin> set s"
  by (cases s) (auto simp: identifier_ok_def list_all_iff is_upper_def is_lower_def is_numeral_def ascii_between_def less_eq_char_def)

lemma append_sep_inject: "c \<notin> set v \<Longrightarrow> c \<notin> set w \<Longrightarrow> a @ c # v = b @ c # w \<longleftrightarrow> a = b \<and> v = w"
proof
  assume no: "c \<notin> set v" "c \<notin> set w" and eq: "a @ c # v = b @ c # w"
  have "rev v @ c # rev a = rev w @ c # rev b" using arg_cong [OF eq, of rev] by simp
  then have "takeWhile (\<lambda>x. x \<noteq> c) (rev v @ c # rev a) = takeWhile (\<lambda>x. x \<noteq> c) (rev w @ c # rev b)" by simp
  moreover have "takeWhile (\<lambda>x. x \<noteq> c) (rev v @ c # rev a) = rev v" "takeWhile (\<lambda>x. x \<noteq> c) (rev w @ c # rev b) = rev w"
    using no by (auto simp: takeWhile_append)
  ultimately have "v = w" by simp
  with eq show "a = b \<and> v = w" by simp
qed simp

lemma target_key_inject:
  assumes "identifier_ok (pg_TargetSchema p)" "identifier_ok (pg_TargetSchema q)" "identifier_ok n" "identifier_ok m"
  shows "target_key p n = target_key q m \<longleftrightarrow> pg_DSN p = pg_DSN q \<and> pg_TargetSchema p = pg_TargetSchema q \<and> n = m"
  using assms append_sep_inject [of "CHR 0x00" n m "pg_DSN p @ CHR 0x00 # pg_TargetSchema p" "pg_DSN q @ CHR 0x00 # pg_TargetSchema q"]
    append_sep_inject [of "CHR 0x00" "pg_TargetSchema p" "pg_TargetSchema q" "pg_DSN p" "pg_DSN q"]
  by (auto simp: target_key_def identifier_no_nul)

lemma syncer_tables_Inr:
  "syncer_tables sid p names targets ts = Inr (names', targets') \<Longrightarrow>
   distinct (map tt_Name ts) \<and> names' = names \<union> tt_Name ` set ts \<and>
   dom (map_of targets') = dom (map_of targets) \<union> (\<lambda>t. target_key p (tt_Name t)) ` set ts \<and>
   (\<forall>t\<in>set ts. identifier_ok (tt_SourceSchema t) \<and> identifier_ok (tt_Name t) \<and> tt_Name t \<notin> names \<and>
      target_key p (tt_Name t) \<notin> dom (map_of targets))"
proof (induction ts arbitrary: names targets)
  case (Cons t ts)
  then have t: "identifier_ok (tt_SourceSchema t)" "identifier_ok (tt_Name t)" "tt_Name t \<notin> names"
      "map_of targets (target_key p (tt_Name t)) = None"
    and rest: "syncer_tables sid p (insert (tt_Name t) names) ((target_key p (tt_Name t), sid) # targets) ts = Inr (names', targets')"
    by (auto split: if_splits option.splits)
  from Cons.IH [OF rest] t show ?case by auto
qed simp

lemma syncer_rules_None:
  "syncer_rules names rs = None \<Longrightarrow>
   \<forall>r\<in>set rs. identifier_ok (tf_ContentColumn r) \<and> tf_SourceColumn r \<noteq> tf_ContentColumn r \<and> tf_Table r \<in> names"
  by (induction rs) (auto split: if_splits)

lemma storage_claim_Inr:
  "storage_claim sid f files = Inr files' \<Longrightarrow>
   (fs_Backend f \<noteq> '''' \<longrightarrow> (\<forall>k\<in>fst ` set files. \<not> storageKeysOverlap k (fileStorageKey f)) \<and> fileStorageKey f \<in> fst ` set files') \<and>
   fst ` set files \<subseteq> fst ` set files'"
  by (auto simp: storage_claim_def list_ex_iff split: if_splits)

lemma storage_defaults_simps [simp]:
  "fs_Prefix (storage_defaults f) = fs_Prefix f" "fs_Directory (storage_defaults f) = fs_Directory f"
  "fs_Endpoint (storage_defaults f) = fs_Endpoint f" "fs_Bucket (storage_defaults f) = fs_Bucket f"
  "fs_Events (storage_defaults f) \<noteq> []"
  by (simp_all add: storage_defaults_def)

lemma FileStorage_validate_None:
  assumes "FileStorage_validate se f0 = (f, None)" "fs_Backend f \<noteq> ''''"
  shows "storage_ok f"
proof -
  have f: "f = storage_defaults f0" using assms by (auto simp: FileStorage_validate_def Let_def split: if_splits)
  have c: "\<not> (fs_MaxFileBytes f < 2 ^ 20 \<or> fs_MaxFileBytes f > 2 ^ 40)"
    "\<not> (has_nul (fs_Prefix f @ fs_Directory f @ fs_Endpoint f @ fs_Bucket f) \<or> IsAbs (fs_Prefix f) \<or> contains_dots (fs_Prefix f))"
    "backend_error se f = None"
    using assms by (auto simp: FileStorage_validate_def Let_def split: if_splits)
  have "fs_Backend f \<in> {''directory'', ''s3'', ''oss''}" "fs_Backend f = ''directory'' \<longrightarrow> IsAbs (fs_Directory f)"
    using c(3) by (auto simp: backend_error_def split: if_splits)
  with c(1,2) f show ?thesis by (simp add: storage_ok_def has_nul_def)
qed

lemma with_metadata_simps [simp]:
  "sy_ID (with_metadata s) = sy_ID s" "sy_Tables (with_metadata s) = sy_Tables s"
  "sy_FileColumns (with_metadata s) = sy_FileColumns s" "sy_FileStorage (with_metadata s) = sy_FileStorage s"
  by (simp_all add: with_metadata_def)

lemma validate_syncer_Inr:
  assumes "validate_syncer se sn s = (s', Inr sn')"
  obtains files names targets where "source_id_ok (sy_ID s)" "sy_ID s \<notin> sn_IDs sn" "sy_ID s' = sy_ID s"
    "identifier_ok (pg_TargetSchema (sy_Postgres s'))" "identifier_ok (pg_MetadataSchema (sy_Postgres s'))"
    "FileStorage_validate se (sy_FileStorage s) = (sy_FileStorage s', None)"
    "storage_claim (sy_ID s) (sy_FileStorage s') (sn_Files sn) = Inr files"
    "syncer_tables (sy_ID s) (sy_Postgres s') {} (sn_Targets sn) (sy_Tables s') = Inr (names, targets)"
    "syncer_rules names (sy_FileColumns s') = None"
    "sn' = \<lparr>sn_IDs = insert (sy_ID s) (sn_IDs sn), sn_Targets = targets, sn_Files = files\<rparr>"
  using assms by (auto simp: validate_syncer_def Let_def split: if_splits prod.splits option.splits sum.splits)

lemma validate_syncer_ok:
  assumes "validate_syncer se sn s = (s', Inr sn')"
  shows "syncer_ok s'"
proof -
  from assms obtain files names targets where v: "source_id_ok (sy_ID s)" "sy_ID s' = sy_ID s"
    "identifier_ok (pg_TargetSchema (sy_Postgres s'))" "identifier_ok (pg_MetadataSchema (sy_Postgres s'))"
    "FileStorage_validate se (sy_FileStorage s) = (sy_FileStorage s', None)"
    "syncer_tables (sy_ID s) (sy_Postgres s') {} (sn_Targets sn) (sy_Tables s') = Inr (names, targets)"
    "syncer_rules names (sy_FileColumns s') = None"
    by (rule validate_syncer_Inr)
  note t = syncer_tables_Inr [OF v(6)]
  show ?thesis
    unfolding syncer_ok_def using v t FileStorage_validate_None [OF v(5)] syncer_rules_None [OF v(7)] by auto
qed

text \<open>The loop: \<open>prev\<close> are the syncers before the current one.\<close>

definition seen_covers :: "seen \<Rightarrow> Syncer list \<Rightarrow> bool" where
  "seen_covers sn prev \<longleftrightarrow> sy_ID ` set prev \<subseteq> sn_IDs sn \<and>
     (\<forall>a\<in>set prev. \<forall>t\<in>set (sy_Tables a). target_key (sy_Postgres a) (tt_Name t) \<in> dom (map_of (sn_Targets sn))) \<and>
     (\<forall>a\<in>set prev. fs_Backend (sy_FileStorage a) \<noteq> '''' \<longrightarrow> fileStorageKey (sy_FileStorage a) \<in> fst ` set (sn_Files sn))"

definition syncers_apart :: "Syncer list \<Rightarrow> bool" where
  "syncers_apart ss \<longleftrightarrow> distinct (map sy_ID ss) \<and> sorted_wrt (\<lambda>a b. tables_apart a b \<and> storage_apart a b) ss"

lemma validate_syncer_apart:
  assumes v: "validate_syncer se sn s = (s', Inr sn')" and cov: "seen_covers sn prev" and apart: "syncers_apart prev"
  shows "syncers_apart (prev @ [s']) \<and> seen_covers sn' (prev @ [s'])"
proof -
  from v obtain files names targets where w: "sy_ID s \<notin> sn_IDs sn" "sy_ID s' = sy_ID s"
    "storage_claim (sy_ID s) (sy_FileStorage s') (sn_Files sn) = Inr files"
    "syncer_tables (sy_ID s) (sy_Postgres s') {} (sn_Targets sn) (sy_Tables s') = Inr (names, targets)"
    "sn' = \<lparr>sn_IDs = insert (sy_ID s) (sn_IDs sn), sn_Targets = targets, sn_Files = files\<rparr>"
    by (rule validate_syncer_Inr)
  note t = syncer_tables_Inr [OF w(4)] and f = storage_claim_Inr [OF w(3)]
  have "tables_apart a s'" if a: "a \<in> set prev" for a
    unfolding tables_apart_def
  proof (intro ballI notI)
    fix x y assume x: "x \<in> set (sy_Tables a)" and y: "y \<in> set (sy_Tables s')"
      and eq: "(pg_DSN (sy_Postgres a), pg_TargetSchema (sy_Postgres a), tt_Name x) =
        (pg_DSN (sy_Postgres s'), pg_TargetSchema (sy_Postgres s'), tt_Name y)"
    then have "target_key (sy_Postgres a) (tt_Name x) = target_key (sy_Postgres s') (tt_Name y)" by (simp add: target_key_def)
    moreover have "target_key (sy_Postgres a) (tt_Name x) \<in> dom (map_of (sn_Targets sn))" using cov x a by (simp add: seen_covers_def)
    moreover have "target_key (sy_Postgres s') (tt_Name y) \<notin> dom (map_of (sn_Targets sn))" using t y by blast
    ultimately show False by simp
  qed
  moreover have "storage_apart a s'" if "a \<in> set prev" for a
    using f cov that unfolding storage_apart_def seen_covers_def by blast
  moreover have "sy_ID s' \<notin> sy_ID ` set prev" using w(1,2) cov by (auto simp: seen_covers_def)
  moreover have "seen_covers sn' (prev @ [s'])"
    using cov t f unfolding seen_covers_def w(5) by (auto simp: w(2))
  ultimately show ?thesis using apart by (auto simp: syncers_apart_def sorted_wrt_append)
qed

lemma validate_syncers_spec:
  "validate_syncers se sn ss = (ss', None) \<Longrightarrow> seen_covers sn prev \<Longrightarrow> syncers_apart prev \<Longrightarrow>
   syncers_apart (prev @ ss') \<and> (\<forall>a\<in>set ss'. syncer_ok a)"
proof (induction ss arbitrary: sn prev ss')
  case (Cons s ss)
  then obtain s1 sn1 rest where v: "validate_syncer se sn s = (s1, Inr sn1)" "validate_syncers se sn1 ss = (rest, None)" "ss' = s1 # rest"
    by (auto split: prod.splits sum.splits)
  have "syncer_ok s1" by (rule validate_syncer_ok [OF v(1)])
  with validate_syncer_apart [OF v(1) Cons.prems(2,3)] show ?case
    using Cons.IH [OF v(2), of "prev @ [s1]"] v(3) by simp
qed simp


lemma server_Validate_None:
  assumes "server_Validate se c = (c', None)"
  shows "server_checks se c = None" "syncers_apart (sc_Syncers c')" "\<forall>s\<in>set (sc_Syncers c'). syncer_ok s"
proof -
  obtain ss where v: "server_checks se c = None"
    "validate_syncers se \<lparr>sn_IDs = {}, sn_Targets = [], sn_Files = []\<rparr> (sc_Syncers c) = (ss, None)" "c' = c\<lparr>sc_Syncers := ss\<rparr>"
    using assms by (auto simp: server_Validate_def split: option.splits prod.splits)
  have "syncers_apart ([] @ ss) \<and> (\<forall>a\<in>set ss. syncer_ok a)"
    by (rule validate_syncers_spec [OF v(2)]) (simp_all add: seen_covers_def syncers_apart_def)
  with v(1,3) show "server_checks se c = None" "syncers_apart (sc_Syncers c')" "\<forall>s\<in>set (sc_Syncers c'). syncer_ok s" by simp_all
qed

lemma Allows_unique:
  assumes "syncer_ok s" "Allows s a t" "Allows s b t"
  shows "a = b"
proof -
  obtain x y where x: "x \<in> set (sy_Tables s)" "tt_SourceSchema x = a" "tt_Name x = t"
    and y: "y \<in> set (sy_Tables s)" "tt_SourceSchema y = b" "tt_Name y = t"
    using assms(2,3) by (auto simp: Allows_def list_ex_iff)
  have "inj_on tt_Name (set (sy_Tables s))" using assms(1) by (simp add: syncer_ok_def distinct_map)
  then have "x = y" using x y by (auto dest: inj_onD)
  with x y show ?thesis by simp
qed

section \<open>Properties\<close>


definition sample_senv :: senv where
  "sample_senv = cenv.extend (sample_cenv\<lparr>ParseDuration := (\<lambda>v. Some 60000000000)\<rparr>)
     (senv.fields (\<lambda>_ _. None) (\<lambda>_. True) True)"

definition no_storage :: FileStorage where
  "no_storage = \<lparr>fs_Backend = '''', fs_Directory = '''', fs_Endpoint = '''', fs_Region = '''', fs_Bucket = '''', fs_Prefix = '''',
     fs_AccessKey = '''', fs_SecretKey = '''', fs_SessionToken = '''', fs_Secure = False, fs_Events = [], fs_MaxFileBytes = 0\<rparr>"

definition sample_syncer :: "string \<Rightarrow> string \<Rightarrow> FileStorage \<Rightarrow> Syncer" where
  "sample_syncer sid table f = \<lparr>sy_ID = sid, sy_Token = ''secret'',
     sy_Postgres = \<lparr>pg_DSN = ''postgres://warehouse'', pg_TargetSchema = ''public'', pg_MetadataSchema = ''''\<rparr>,
     sy_Tables = [\<lparr>tt_SourceSchema = ''public'', tt_Name = table\<rparr>], sy_FileColumns = [], sy_AutoAddColumns = True, sy_FileStorage = f\<rparr>"

definition sample_server :: "FileStorage \<Rightarrow> FileStorage \<Rightarrow> ServerConfig" where
  "sample_server f g = server_Defaults\<lparr>sc_GRPC := (sc_GRPC server_Defaults)\<lparr>sg_TLSCertFile := ''cert.pem'', sg_TLSKeyFile := ''key.pem''\<rparr>,
     sc_AdminToken := ''admin'', sc_Syncers := [sample_syncer ''one'' ''t'' f, sample_syncer ''two'' ''u'' g]\<rparr>"

definition with_meta :: "Syncer \<Rightarrow> Syncer" where
  "with_meta s = s\<lparr>sy_Postgres := (sy_Postgres s)\<lparr>pg_MetadataSchema := ''go_sync_meta''\<rparr>\<rparr>"

lemmas char_class_simps = is_lower_def is_upper_def is_numeral_def ascii_between_def less_eq_char_def

lemma sample_server_checks: "server_checks sample_senv (sample_server f g) = None"
  by (simp add: server_checks_def sample_senv_def sample_cenv_def sample_server_def server_Defaults_def cenv.defs senv.defs has_nul_def
      has_crlf_def Reconcile_validate_def Let_def duration_at_least_def parse_daily_def hour_minute_def is_digit_def undec_def)

lemma sample_identifiers:
  "identifier_ok ''public''" "identifier_ok ''t''" "identifier_ok ''u''" "identifier_ok ''go_sync_meta''"
  "source_id_ok ''one''" "source_id_ok ''two''"
  by (simp_all add: identifier_ok_def source_id_ok_def char_class_simps)

lemma sample_syncer_valid:
  assumes "source_id_ok sid" "identifier_ok t" "sid \<notin> sn_IDs sn" "FileStorage_validate se f = (f', None)"
    "storage_claim sid f' (sn_Files sn) = Inr files" "map_of (sn_Targets sn) (''postgres://warehouse'' @ [CHR 0x00] @ ''public'' @ [CHR 0x00] @ t) = None"
  shows "validate_syncer se sn (sample_syncer sid t f) = (with_meta (sample_syncer sid t f'),
     Inr \<lparr>sn_IDs = insert sid (sn_IDs sn), sn_Targets = (''postgres://warehouse'' @ [CHR 0x00] @ ''public'' @ [CHR 0x00] @ t, sid) # sn_Targets sn,
       sn_Files = files\<rparr>)"
  using assms
  by (simp add: validate_syncer_def sample_syncer_def with_metadata_def with_meta_def sample_identifiers has_crlf_def Let_def target_key_def)

lemma sample_server_valid:
  assumes "FileStorage_validate sample_senv f = (f', None)" "FileStorage_validate sample_senv g = (g', None)"
    "storage_claim ''one'' f' [] = Inr files" "storage_claim ''two'' g' files = Inr files'"
  shows "server_Validate sample_senv (sample_server f g) =
     ((sample_server f g)\<lparr>sc_Syncers := [with_meta (sample_syncer ''one'' ''t'' f'), with_meta (sample_syncer ''two'' ''u'' g')]\<rparr>, None)"
  using assms unfolding server_Validate_def sample_server_checks
  by (simp add: sample_server_def sample_syncer_valid sample_identifiers)

lemma no_storage_valid: "FileStorage_validate se no_storage = (no_storage, None)" "storage_claim sid no_storage files = Inr files"
  by (simp_all add: FileStorage_validate_def storage_claim_def no_storage_def)


end
