(* ===== verification/FileStore.thy ===== *)
theory FileStore
  imports ServerConfig
begin

text \<open>
  The file destinations of the server, \<open>internal/filestore/store.go\<close>: opening a store, the names of
  objects, and \<open>Put\<close> and \<open>Delete\<close> of the three backends.  The files below the root of a directory store
  are a map from cleaned relative paths; every system call may fail as the argument \<open>fail\<close> says, before
  it has an effect.  The clients of the object stores are parameters.
\<close>

datatype store =
    DirectoryStore string
  | S3Store string bool string string
  | OSSStore string string string

section \<open>Opening\<close>

text \<open>The endpoint and the transport that the S3 client is given.\<close>

definition s3_endpoint :: "FileStorage \<Rightarrow> string \<times> bool" where
  "s3_endpoint f =
     (if has_prefix (fs_Endpoint f) ''https://'' then (trim_prefix (fs_Endpoint f) ''https://'', True)
      else if has_prefix (fs_Endpoint f) ''http://'' then (trim_prefix (fs_Endpoint f) ''http://'', False)
      else (fs_Endpoint f, fs_Secure f))"

definition filestore_Open :: "(string \<Rightarrow> err option) \<Rightarrow> FileStorage \<Rightarrow> store res" where
  "filestore_Open fail f =
     (if fs_Backend f = ''directory'' then
        guarded (fail ''mkdir'') (guarded (fail ''open root'') (Inr (DirectoryStore (trim_slashes (fs_Prefix f)))))
      else if fs_Backend f = ''s3'' then
        (let (endpoint, secure) = s3_endpoint f in
         guarded (fail ''client'') (Inr (S3Store endpoint secure (fs_Bucket f) (fs_Prefix f))))
      else if fs_Backend f = ''oss'' then
        guarded (fail ''client'') (guarded (fail ''bucket'') (Inr (OSSStore (fs_Endpoint f) (fs_Bucket f) (fs_Prefix f))))
      else Inl (Err ''file storage is not configured''))"

definition objectName :: "string \<Rightarrow> string \<Rightarrow> string res" where
  "objectName pfx name =
     (if name = '''' \<or> \<not> IsLocal name \<or> has_nul name then Inl (Err ''file path is not local'')
      else Inr (path_Join (trim_slashes pfx) name))"

section \<open>Copying\<close>

text \<open>
  One round of the loop of \<open>copyContext\<close>: the state of the context, what \<open>Read\<close> delivers, and what
  \<open>Write\<close> reports.  The result is \<^const>\<open>None\<close> while the rounds given do not end the loop.
\<close>

datatype read_end = More | Eof | ReadError err

record copy_round =
  cr_ctx :: "err option"
  cr_data :: string
  cr_end :: read_end
  cr_written :: nat
  cr_error :: "err option"

definition copy_write :: "copy_round \<Rightarrow> string \<times> nat \<Rightarrow> (string \<times> nat) \<times> err option" where
  "copy_write r st =
     (if cr_data r = [] then (st, None)
      else
        (let st' = (fst st @ take (cr_written r) (cr_data r), snd st + cr_written r) in
         (st', case cr_error r of Some e \<Rightarrow> Some e
               | None \<Rightarrow> if cr_written r \<noteq> length (cr_data r) then Some (Err ''short write'') else None)))"

fun copyContext :: "copy_round list \<Rightarrow> string \<times> nat \<Rightarrow> ((string \<times> nat) \<times> err option) option" where
  "copyContext [] st = None"
| "copyContext (r # rs) st =
     (case cr_ctx r of
        Some e \<Rightarrow> Some (st, Some e)
      | None \<Rightarrow>
          (case copy_write r st of
             (st', Some e) \<Rightarrow> Some (st', Some e)
           | (st', None) \<Rightarrow>
               (case cr_end r of
                  Eof \<Rightarrow> Some (st', None)
                | ReadError e \<Rightarrow> Some (st', Some (Wrap ''read source'' e))
                | More \<Rightarrow> copyContext rs st')))"

section \<open>The directory store\<close>

record fsfile =
  ff_data :: string
  ff_mode :: nat
  ff_time :: int

type_synonym files = "string \<rightharpoonup> fsfile"

text \<open>The parts of the environment of one \<open>Put\<close>.\<close>

record put_env =
  pe_fail :: "string \<Rightarrow> err option"
  pe_uuid :: string
  pe_now :: int
  pe_windows :: bool
  pe_rounds :: "copy_round list"

definition temp_name :: "put_env \<Rightarrow> string" where
  "temp_name pe = path_Join ''.go-sync-tmp'' (pe_uuid pe)"

definition move :: "string \<Rightarrow> string \<Rightarrow> files \<Rightarrow> files" where
  "move a b fs = (fs(b := fs a))(a := None)"

definition joined :: "err option \<Rightarrow> err option \<Rightarrow> err option" where
  "joined a b = (case a of None \<Rightarrow> b | Some x \<Rightarrow> (case b of None \<Rightarrow> Some x | Some y \<Rightarrow> Some (Join x y)))"

text \<open>The steps after the copy.\<close>

definition put_publish :: "put_env \<Rightarrow> string \<Rightarrow> nat \<Rightarrow> int \<Rightarrow> files \<Rightarrow> files \<times> err option" where
  "put_publish pe rel mode modified fs =
     (let temp = temp_name pe;
          perm = (if mode mod 512 = 0 then 416 else mode mod 512);
          chmoded = fs(temp := map_option (\<lambda>f. f\<lparr>ff_mode := perm\<rparr>) (fs temp));
          timed = chmoded(temp := map_option (\<lambda>f. f\<lparr>ff_time := modified\<rparr>) (chmoded temp)) in
      case pe_fail pe ''sync'' of Some e \<Rightarrow> (fs, joined (Some e) (pe_fail pe ''close'')) | None \<Rightarrow>
      case pe_fail pe ''close'' of Some e \<Rightarrow> (fs, Some e) | None \<Rightarrow>
      case pe_fail pe ''chmod'' of Some e \<Rightarrow> (fs, Some e) | None \<Rightarrow>
      case pe_fail pe ''chtimes'' of Some e \<Rightarrow> (chmoded, Some e) | None \<Rightarrow>
      case pe_fail pe ''rename'' of None \<Rightarrow> (move temp rel timed, None) | Some e \<Rightarrow>
        if \<not> pe_windows pe then (timed, Some e)
        else (case pe_fail pe ''remove destination'' of Some e' \<Rightarrow> (timed, Some e') | None \<Rightarrow>
          (case pe_fail pe ''rename again'' of
             Some e' \<Rightarrow> (timed(rel := None), Some e')
           | None \<Rightarrow> (move temp rel (timed(rel := None)), None))))"

text \<open>Everything after the temporary file exists, without the deferred removal.\<close>

definition put_body :: "put_env \<Rightarrow> string \<Rightarrow> nat \<Rightarrow> int \<Rightarrow> files \<Rightarrow> (files \<times> err option) option" where
  "put_body pe rel mode modified fs =
     (case pe_fail pe ''open source'' of Some e \<Rightarrow> Some (fs, joined (Some e) (pe_fail pe ''close''))
      | None \<Rightarrow>
          (case copyContext (pe_rounds pe) ('''', 0) of
             None \<Rightarrow> None
           | Some ((data, n), e) \<Rightarrow>
               (let fs' = fs(temp_name pe \<mapsto> \<lparr>ff_data = data, ff_mode = 384, ff_time = pe_now pe\<rparr>) in
                case e of Some e \<Rightarrow> Some (fs', joined (Some e) (pe_fail pe ''close''))
                | None \<Rightarrow> Some (put_publish pe rel mode modified fs'))))"

definition directory_Put :: "put_env \<Rightarrow> string \<Rightarrow> files \<Rightarrow> string \<Rightarrow> nat \<Rightarrow> int \<Rightarrow> (files \<times> err option) option" where
  "directory_Put pe pfx fs name mode modified =
     (case objectName pfx name of
        Inl e \<Rightarrow> Some (fs, Some e)
      | Inr rel \<Rightarrow>
          (case pe_fail pe ''mkdir'' of Some e \<Rightarrow> Some (fs, Some e) | None \<Rightarrow>
           case pe_fail pe ''mkdir temp'' of Some e \<Rightarrow> Some (fs, Some e) | None \<Rightarrow>
           case pe_fail pe ''create'' of Some e \<Rightarrow> Some (fs, Some e) | None \<Rightarrow>
           if fs (temp_name pe) \<noteq> None then Some (fs, Some (Err ''file exists''))
           else
             (case put_body pe rel mode modified (fs(temp_name pe \<mapsto> \<lparr>ff_data = '''', ff_mode = 384, ff_time = pe_now pe\<rparr>)) of
                None \<Rightarrow> None
              | Some (fs', e) \<Rightarrow>
                  if fs' (temp_name pe) = None then Some (fs', e)
                  else (case pe_fail pe ''remove temp'' of
                          Some e' \<Rightarrow> Some (fs', joined e (Some e'))
                        | None \<Rightarrow> Some (fs'(temp_name pe := None), e)))))"

definition directory_Delete :: "(string \<Rightarrow> err option) \<Rightarrow> string \<Rightarrow> files \<Rightarrow> string \<Rightarrow> files \<times> err option" where
  "directory_Delete fail pfx fs name =
     (case objectName pfx name of
        Inl e \<Rightarrow> (fs, Some e)
      | Inr rel \<Rightarrow> if fs rel = None then (fs, None)
          else (case fail ''remove'' of Some e \<Rightarrow> (fs, Some e) | None \<Rightarrow> (fs(rel := None), None)))"

section \<open>The object stores\<close>

text \<open>The clients: \<open>oc_put\<close> is \<open>FPutObject\<close> and \<open>PutObjectFromFile\<close>, \<open>oc_upload\<close> the multipart
  \<open>UploadFile\<close>, \<open>oc_remove\<close> the removal of an object, each on a bucket, a key and a local file.\<close>

record 'o object_client =
  oc_put :: "'o \<Rightarrow> string \<Rightarrow> string \<Rightarrow> string \<Rightarrow> 'o res"
  oc_upload :: "'o \<Rightarrow> string \<Rightarrow> string \<Rightarrow> string \<Rightarrow> 'o res"
  oc_remove :: "'o \<Rightarrow> string \<Rightarrow> string \<Rightarrow> 'o res"
  oc_stat :: "string \<Rightarrow> int res"

definition s3_Put :: "'o object_client \<Rightarrow> string \<Rightarrow> string \<Rightarrow> 'o \<Rightarrow> string \<Rightarrow> string \<Rightarrow> 'o res" where
  "s3_Put cl bucket pfx ob name source =
     (case objectName pfx name of Inl e \<Rightarrow> Inl e | Inr key \<Rightarrow> oc_put cl ob bucket key source)"

definition s3_Delete :: "'o object_client \<Rightarrow> string \<Rightarrow> string \<Rightarrow> 'o \<Rightarrow> string \<Rightarrow> 'o res" where
  "s3_Delete cl bucket pfx ob name =
     (case objectName pfx name of Inl e \<Rightarrow> Inl e | Inr key \<Rightarrow> oc_remove cl ob bucket key)"

definition oss_Put :: "'o object_client \<Rightarrow> string \<Rightarrow> string \<Rightarrow> 'o \<Rightarrow> string \<Rightarrow> string \<Rightarrow> 'o res" where
  "oss_Put cl bucket pfx ob name source =
     (case objectName pfx name of
        Inl e \<Rightarrow> Inl e
      | Inr key \<Rightarrow>
          (case oc_stat cl source of
             Inl e \<Rightarrow> Inl e
           | Inr bytes \<Rightarrow> if bytes \<le> 100 * 2 ^ 20 then oc_put cl ob bucket key source else oc_upload cl ob bucket key source))"

definition oss_Delete :: "'o object_client \<Rightarrow> string \<Rightarrow> string \<Rightarrow> 'o \<Rightarrow> string \<Rightarrow> 'o res" where
  "oss_Delete cl bucket pfx ob name =
     (case objectName pfx name of Inl e \<Rightarrow> Inl e | Inr key \<Rightarrow> oc_remove cl ob bucket key)"

section \<open>Copies are complete or reported\<close>

text \<open>The rounds read \<open>content\<close> to its end.\<close>

fun reads :: "string \<Rightarrow> copy_round list \<Rightarrow> bool" where
  "reads content [] = False"
| "reads content (r # rs) =
     (case cr_end r of
        Eof \<Rightarrow> cr_data r = content
      | ReadError e \<Rightarrow> True
      | More \<Rightarrow> \<exists>rest. content = cr_data r @ rest \<and> reads rest rs)"

lemma copy_write_None:
  "copy_write r st = (st', None) \<Longrightarrow> st' = (fst st @ cr_data r, snd st + length (cr_data r))"
  by (auto simp: copy_write_def Let_def split: if_splits option.splits)

lemma copyContext_complete:
  "copyContext rs st = Some (st', None) \<Longrightarrow> reads content rs \<Longrightarrow> st' = (fst st @ content, snd st + length content)"
proof (induction rs arbitrary: st content)
  case (Cons r rs)
  then obtain st1 where w: "copy_write r st = (st1, None)" "cr_ctx r = None"
    by (auto split: option.splits prod.splits)
  note st1 = copy_write_None [OF w(1)]
  show ?case
  proof (cases "cr_end r")
    case More
    with Cons.prems w obtain rest where r: "content = cr_data r @ rest" "reads rest rs" "copyContext rs st1 = Some (st', None)" by auto
    from Cons.IH [OF r(3,2)] show ?thesis by (simp add: st1 r(1))
  qed (use Cons.prems w st1 in auto)
qed simp


text \<open>What the steps of \<open>Put\<close> leave behind on a system where renaming replaces the destination.\<close>

lemma put_publish_spec:
  assumes "\<not> pe_windows pe" "put_publish pe rel mode modified fs = (fs', e)" "fs (temp_name pe) = Some f" "rel \<noteq> temp_name pe"
  shows "\<forall>p. p \<noteq> rel \<longrightarrow> p \<noteq> temp_name pe \<longrightarrow> fs' p = fs p"
    "e = None \<Longrightarrow> fs' rel = Some (f\<lparr>ff_mode := (if mode mod 512 = 0 then 416 else mode mod 512), ff_time := modified\<rparr>) \<and> fs' (temp_name pe) = None"
    "e \<noteq> None \<Longrightarrow> fs' rel = fs rel \<and> fs' (temp_name pe) \<noteq> None"
  using assms by (auto simp: put_publish_def Let_def move_def joined_def split: option.splits if_splits)

lemma put_body_spec:
  assumes "\<not> pe_windows pe" "put_body pe rel mode modified fs = Some (fs', e)" "fs (temp_name pe) \<noteq> None" "rel \<noteq> temp_name pe"
    "reads content (pe_rounds pe)"
  shows "\<forall>p. p \<noteq> rel \<longrightarrow> p \<noteq> temp_name pe \<longrightarrow> fs' p = fs p"
    "e = None \<Longrightarrow> fs' rel = Some \<lparr>ff_data = content, ff_mode = (if mode mod 512 = 0 then 416 else mode mod 512), ff_time = modified\<rparr> \<and>
       fs' (temp_name pe) = None"
    "e \<noteq> None \<Longrightarrow> fs' rel = fs rel \<and> fs' (temp_name pe) \<noteq> None"
proof -
  have "(\<forall>p. p \<noteq> rel \<longrightarrow> p \<noteq> temp_name pe \<longrightarrow> fs' p = fs p) \<and>
    (e = None \<longrightarrow> fs' rel = Some \<lparr>ff_data = content, ff_mode = (if mode mod 512 = 0 then 416 else mode mod 512), ff_time = modified\<rparr> \<and>
       fs' (temp_name pe) = None) \<and> (e \<noteq> None \<longrightarrow> fs' rel = fs rel \<and> fs' (temp_name pe) \<noteq> None)"
  proof (cases "pe_fail pe ''open source''")
    case (Some x)
    then have "fs' = fs" "e = joined (Some x) (pe_fail pe ''close'')" using assms(2) by (simp_all add: put_body_def)
    then have "fs' = fs" "e \<noteq> None" by (simp_all add: joined_def split: option.splits)
    with assms(3) show ?thesis by auto
  next
    case None
    with assms(2) obtain data n ce where c: "copyContext (pe_rounds pe) ('''', 0) = Some ((data, n), ce)"
      by (auto simp: put_body_def split: option.splits)
    let ?fs = "fs(temp_name pe \<mapsto> \<lparr>ff_data = data, ff_mode = 384, ff_time = pe_now pe\<rparr>)"
    show ?thesis
    proof (cases ce)
      case (Some x)
      then have "fs' = ?fs" "e \<noteq> None" using assms(2) c None by (auto simp: put_body_def joined_def Let_def split: option.splits)
      with assms(4) show ?thesis by auto
    next
      case ce: None
      then have "data = content" using copyContext_complete [of "pe_rounds pe" "('''', 0)" "(data, n)" content] c assms(5) by simp
      moreover have p: "put_publish pe rel mode modified ?fs = (fs', e)" using assms(2) c None ce by (simp add: put_body_def Let_def)
      ultimately show ?thesis
        using put_publish_spec [OF assms(1) p fun_upd_same assms(4)] assms(3,4) by auto
    qed
  qed
  then show "\<forall>p. p \<noteq> rel \<longrightarrow> p \<noteq> temp_name pe \<longrightarrow> fs' p = fs p"
    "e = None \<Longrightarrow> fs' rel = Some \<lparr>ff_data = content, ff_mode = (if mode mod 512 = 0 then 416 else mode mod 512), ff_time = modified\<rparr> \<and>
       fs' (temp_name pe) = None"
    "e \<noteq> None \<Longrightarrow> fs' rel = fs rel \<and> fs' (temp_name pe) \<noteq> None" by simp_all
qed

section \<open>Names of objects\<close>

lemma path_parts_append_slash: "path_parts (a @ ''/'' @ b) = path_parts a @ path_parts b"
  by (simp add: path_parts_def split_on_snoc_sep)

lemma path_parts_leading: "path_parts (dropWhile (\<lambda>c. c = CHR ''/'') s) = path_parts s"
  by (induction s) auto

lemma path_parts_trailing: "path_parts (s @ replicate n (CHR ''/'')) = path_parts s"
proof (induction n)
  case (Suc n)
  have "path_parts ((s @ replicate n (CHR ''/'')) @ ''/'' @ []) = path_parts (s @ replicate n (CHR ''/''))"
    by (subst path_parts_append_slash) (simp add: path_parts_def)
  then show ?case using Suc by (simp add: replicate_append_same)
qed simp

lemma trim_slashes_parts: "path_parts (trim_slashes s) = path_parts s"
proof -
  let ?P = "\<lambda>c. c = CHR ''/''" and ?t = "dropWhile (\<lambda>c. c = CHR ''/'') s"
  have "takeWhile ?P (rev ?t) = replicate (length (takeWhile ?P (rev ?t))) (CHR ''/'')"
    by (rule replicate_eqI) (auto dest: set_takeWhileD)
  then have "?t = trim_slashes s @ replicate (length (takeWhile ?P (rev ?t))) (CHR ''/'')"
    unfolding trim_slashes_def by (metis rev_append rev_replicate rev_rev_ident takeWhile_dropWhile_id)
  then show ?thesis using path_parts_trailing path_parts_leading by metis
qed

lemma trim_slashes_relative: "\<not> IsAbs (trim_slashes s)"
proof
  let ?t = "dropWhile (\<lambda>c. c = CHR ''/'') s"
  assume abs: "IsAbs (trim_slashes s)"
  obtain u where u: "?t = trim_slashes s @ u"
    unfolding trim_slashes_def by (metis rev_append rev_rev_ident takeWhile_dropWhile_id)
  with abs have "?t \<noteq> []" "hd ?t = CHR ''/''" by (auto simp: IsAbs_def)
  with hd_dropWhile [of "\<lambda>c. c = CHR ''/''" s] show False by simp
qed

lemma foldl_clean_plain: "''..'' \<notin> set ws \<Longrightarrow> foldl (clean_step r) out ws = out @ filter (\<lambda>w. w \<noteq> ''.'') ws"
  by (induction ws arbitrary: out) (auto simp: clean_step_def)

lemma join_infix: "w \<in> set ws \<Longrightarrow> \<exists>a b. join_with sep ws = a @ w @ b"
proof (induction sep ws rule: join_with.induct)
  case (3 sep w' v vs)
  show ?case
  proof (cases "w = w'")
    case False
    with 3 obtain a b where "join_with sep (v # vs) = a @ w @ b" by auto
    then have "join_with sep (w' # v # vs) = (w' @ sep @ a) @ w @ b" by simp
    then show ?thesis by blast
  qed (auto intro: exI [of _ "[]"])
qed (auto intro: exI [of _ "[]"])

lemma contains_dots_infix: "contains_dots (a @ CHR ''.'' # CHR ''.'' # b)"
proof (induction a)
  case (Cons x a)
  then show ?case by (cases a) auto
qed simp

lemma no_dots_parts: "\<not> contains_dots s \<Longrightarrow> ''..'' \<notin> set (path_parts s)"
  using join_infix [of "''..''" "split_on (CHR ''/'') s" "''/''"] contains_dots_infix
  by (auto simp: path_parts_def join_split)

text \<open>The elements that a prefix contributes.\<close>

definition prefix_parts :: "string \<Rightarrow> string list" where
  "prefix_parts p = filter (\<lambda>w. w \<noteq> ''.'') (path_parts p)"

lemma clean_parts_below_any:
  assumes "d \<noteq> []" "''..'' \<notin> set (foldl (clean_step False) [] (path_parts k))"
  shows "clean_parts (d @ ''/'' @ k) = clean_parts d @ foldl (clean_step False) [] (path_parts k)"
  using foldl_clean_below [OF assms(2), of "IsAbs d" "clean_parts d"] assms(1)
  unfolding clean_parts_def path_parts_append_slash by (cases d) (auto simp: IsAbs_def)

lemma objectName_parts:
  assumes "objectName pfx name = Inr k" "\<not> contains_dots pfx"
  shows "clean_parts k = prefix_parts pfx @ clean_parts name" "\<not> IsAbs k" "Clean k = k" "''..'' \<notin> set (clean_parts k)"
proof -
  have loc: "IsLocal name" and k: "k = path_Join (trim_slashes pfx) name"
    using assms(1) by (auto simp: objectName_def split: if_splits)
  have pre: "foldl (clean_step False) [] (path_parts pfx) = prefix_parts pfx"
    using foldl_clean_plain [OF no_dots_parts [OF assms(2)], of False "[]"] by (simp add: prefix_parts_def)
  then have trim: "clean_parts (trim_slashes pfx) = prefix_parts pfx"
    by (simp add: clean_parts_def trim_slashes_parts trim_slashes_relative)
  show parts: "clean_parts k = prefix_parts pfx @ clean_parts name"
  proof (cases "trim_slashes pfx = []")
    case True
    then have "prefix_parts pfx = []" using trim by (simp add: clean_parts_def path_parts_def)
    with True k loc show ?thesis by (simp add: path_Join_def IsLocal_def)
  next
    case False
    with k show ?thesis using clean_parts_below [OF loc False] by (simp add: path_Join_def trim)
  qed
  show "\<not> IsAbs k" using k loc trim_slashes_relative [of pfx]
    by (cases "trim_slashes pfx") (auto simp: path_Join_def IsLocal_def IsAbs_def [of "_ # _"] IsAbs_def [of "_ @ _"])
  show "Clean k = k" using k loc by (auto simp: path_Join_def Clean_idem IsLocal_def)
  show "''..'' \<notin> set (clean_parts k)"
    using parts IsLocal_parts(2) [OF loc] no_dots_parts [OF assms(2)] by (auto simp: prefix_parts_def)
qed


lemma clean_parts_plain: "\<not> contains_dots p \<Longrightarrow> \<not> IsAbs p \<Longrightarrow> clean_parts p = prefix_parts p"
  using foldl_clean_plain [OF no_dots_parts, of p False "[]"] by (simp add: clean_parts_def prefix_parts_def)

lemma objectName_location:
  assumes "objectName pfx name = Inr k" "\<not> contains_dots pfx" "d \<noteq> []"
  shows "clean_parts (d @ ''/'' @ k) = clean_parts d @ prefix_parts pfx @ clean_parts name"
proof -
  note k = objectName_parts [OF assms(1,2)]
  then have "foldl (clean_step False) [] (path_parts k) = clean_parts k" by (simp add: clean_parts_def)
  then show ?thesis using clean_parts_below_any [OF assms(3), of k] k(1,4) by simp
qed

section \<open>Keys of storage locations\<close>

lemma join_set: "set (join_with ''/'' ws) \<subseteq> insert (CHR ''/'') (\<Union> (set ` set ws))"
  by (induction "''/''" ws rule: join_with.induct) auto

lemma foldl_clean_set: "set (foldl (clean_step r) out ws) \<subseteq> insert ''..'' (set out \<union> set ws)"
proof (induction ws arbitrary: out)
  case (Cons w ws)
  have "set (clean_step r out w) \<subseteq> insert ''..'' (set out \<union> {w})"
    by (auto simp: clean_step_def dest: in_set_butlastD)
  with Cons.IH [of "clean_step r out w"] show ?case by auto
qed auto

lemma split_on_chars: "w \<in> set (split_on c s) \<Longrightarrow> set w \<subseteq> set s"
  using join_infix [of w "split_on c s" "[c]"] by (auto simp: join_split)

lemma Clean_no_nul:
  assumes "\<not> has_nul s"
  shows "\<not> has_nul (Clean s)"
proof -
  have "CHR 0x00 \<notin> set w" if "w \<in> set (clean_parts s)" for w
  proof -
    from that have "w = ''..'' \<or> w \<in> set (path_parts s)"
      using foldl_clean_set [of "IsAbs s" "[]" "path_parts s"] by (auto simp: clean_parts_def)
    then show ?thesis using assms split_on_chars [of w "CHR ''/''" s] by (auto simp: path_parts_def has_nul_def)
  qed
  then have "CHR 0x00 \<notin> set (join_with ''/'' (clean_parts s))" using join_set [of "clean_parts s"] by auto
  then show ?thesis by (simp add: has_nul_def Clean_def path_of_def)
qed

lemma ToLower_no_nul: "\<not> has_nul s \<Longrightarrow> \<not> has_nul (ToLower s)"
proof -
  have up: "is_upper a \<Longrightarrow> char_of (of_char a + (32::nat)) \<noteq> (CHR 0x00 :: char)" for a
  proof
    assume "is_upper a" "char_of (of_char a + (32::nat)) = (CHR 0x00 :: char)"
    then have "(of_char a :: nat) + 32 < 256" "of_char (char_of (of_char a + (32::nat)) :: char) = (0::nat)"
      by (auto simp: is_upper_def ascii_between_def less_eq_char_def)
    then show False by simp
  qed
  show "\<not> has_nul s \<Longrightarrow> \<not> has_nul (ToLower s)"
    by (induction s rule: ToLower.induct) (auto simp: has_nul_def dest: up)
qed

lemma directory_keys:
  assumes "storage_ok f" "storage_ok g" "fs_Backend f = ''directory''" "fs_Backend g = ''directory''"
  shows "storageKeysOverlap (fileStorageKey f) (fileStorageKey g) \<longleftrightarrow>
    (let a = clean_parts (fs_Directory f) @ prefix_parts (fs_Prefix f);
         b = clean_parts (fs_Directory g) @ prefix_parts (fs_Prefix g) in prefix a b \<or> prefix b a)"
proof -
  have key: "split_on (CHR 0x00) (fileStorageKey h) = [''directory'', Clean (path_Join (fs_Directory h) (fs_Prefix h))] \<and>
      IsAbs (Clean (path_Join (fs_Directory h) (fs_Prefix h))) \<and>
      clean_parts (Clean (path_Join (fs_Directory h) (fs_Prefix h))) = clean_parts (fs_Directory h) @ prefix_parts (fs_Prefix h)"
    if h: "storage_ok h" "fs_Backend h = ''directory''" for h
  proof -
    have d: "IsAbs (fs_Directory h)" "fs_Directory h \<noteq> []" "\<not> has_nul (fs_Directory h)" "\<not> has_nul (fs_Prefix h)"
      "\<not> contains_dots (fs_Prefix h)"
      using h by (auto simp: storage_ok_def IsAbs_def)
    have j: "path_Join (fs_Directory h) (fs_Prefix h) = Clean (fs_Directory h @ ''/'' @ fs_Prefix h)"
      using d(2) by (simp add: path_Join_def)
    have "\<not> has_nul (Clean (path_Join (fs_Directory h) (fs_Prefix h)))"
      unfolding j using d(3,4) by (intro Clean_no_nul) (simp add: has_nul_def)
    then have "split_on (CHR 0x00) (fileStorageKey h) = [''directory'', Clean (path_Join (fs_Directory h) (fs_Prefix h))]"
      using split_on_append [of "CHR 0x00" "''directory''"] by (simp add: fileStorageKey_def h(2) split_on_no_sep has_nul_def)
    moreover have "IsAbs (fs_Directory h @ ''/'' @ fs_Prefix h)" using d(1,2) by (simp add: IsAbs_def)
    moreover have "clean_parts (fs_Directory h @ ''/'' @ fs_Prefix h) = clean_parts (fs_Directory h) @ prefix_parts (fs_Prefix h)"
      using clean_parts_below_any [OF d(2), of "fs_Prefix h"] foldl_clean_plain [OF no_dots_parts [OF d(5)], of False "[]"]
        no_dots_parts [OF d(5)] by (simp add: prefix_parts_def)
    ultimately show ?thesis by (simp add: j)
  qed
  show ?thesis using key [OF assms(1,3)] key [OF assms(2,4)]
    by (simp add: storageKeysOverlap_def Let_def filePathsOverlap_def path_contains_iff)
qed


lemma join_last: "ws \<noteq> [] \<Longrightarrow> \<forall>w\<in>set ws. part_ok w \<Longrightarrow> join_with ''/'' ws \<noteq> [] \<and> last (join_with ''/'' ws) \<noteq> CHR ''/''"
proof (induction "''/''" ws rule: join_with.induct)
  case (2 w)
  then show ?case by (auto simp: part_ok_def) (metis last_in_set)
qed auto

lemma trim_slashes_id: "s \<noteq> [] \<Longrightarrow> hd s \<noteq> CHR ''/'' \<Longrightarrow> last s \<noteq> CHR ''/'' \<Longrightarrow> trim_slashes (CHR ''/'' # s) = s"
proof -
  assume s: "s \<noteq> []" "hd s \<noteq> CHR ''/''" "last s \<noteq> CHR ''/''"
  have "dropWhile (\<lambda>c. c = CHR ''/'') s = s" using s(1,2) by (cases s) auto
  moreover have "dropWhile (\<lambda>c. c = CHR ''/'') (rev s) = rev s" using s(1,3) by (cases s rule: rev_cases) auto
  ultimately show ?thesis by (simp add: trim_slashes_def)
qed

lemma prefix_parts_ok: "w \<in> set (prefix_parts p) \<Longrightarrow> part_ok w"
  using path_parts_ok by (auto simp: prefix_parts_def)

lemma trim_object_prefix:
  assumes "\<not> contains_dots p"
  shows "trim_slashes (Clean (''/'' @ p)) = join_with ''/'' (prefix_parts p)"
proof -
  have "clean_parts (''/'' @ p) = prefix_parts p"
    using foldl_clean_plain [OF no_dots_parts [OF assms], of True "[]"] by (simp add: clean_parts_def prefix_parts_def IsAbs_def)
  then have c: "Clean (''/'' @ p) = CHR ''/'' # join_with ''/'' (prefix_parts p)" by (simp add: Clean_def path_of_def IsAbs_def)
  show ?thesis
  proof (cases "prefix_parts p")
    case Nil
    then show ?thesis by (simp only: c) (simp add: trim_slashes_def)
  next
    case (Cons w ws)
    have all: "\<forall>w\<in>set (prefix_parts p). part_ok w" using prefix_parts_ok by blast
    then have "part_ok w" by (simp add: Cons)
    with all show ?thesis
      unfolding c using join_hd [of w ws] join_last [of "prefix_parts p"] by (intro trim_slashes_id) (simp_all add: Cons)
  qed
qed

lemma object_key_split:
  assumes "storage_ok f" "fs_Backend f \<noteq> ''directory''"
  shows "split_on (CHR 0x00) (fileStorageKey f) = [''object'', ToLower (fs_Endpoint f), fs_Bucket f, Clean (''/'' @ fs_Prefix f)]"
proof -
  have n: "\<not> has_nul (ToLower (fs_Endpoint f))" "\<not> has_nul (fs_Bucket f)" "\<not> has_nul (''/'' @ fs_Prefix f)"
    using assms(1) by (auto simp: storage_ok_def ToLower_no_nul) (auto simp: has_nul_def)
  from Clean_no_nul [OF n(3)] have n: "\<not> has_nul (ToLower (fs_Endpoint f))" "\<not> has_nul (fs_Bucket f)" "\<not> has_nul (Clean (''/'' @ fs_Prefix f))"
    using n(1,2) by simp_all
  then show ?thesis
    using split_on_append [of "CHR 0x00" "''object''"] split_on_append [of "CHR 0x00" "ToLower (fs_Endpoint f)"]
      split_on_append [of "CHR 0x00" "fs_Bucket f"]
    by (simp add: fileStorageKey_def assms(2) has_nul_def split_on_no_sep)
qed

lemma join_prefix:
  assumes "prefix vs ws" "vs \<noteq> []"
  shows "join_with ''/'' ws = join_with ''/'' vs \<or> has_prefix (join_with ''/'' ws) (join_with ''/'' vs @ ''/'')"
proof -
  obtain us where ws: "ws = vs @ us" using assms(1) by (auto simp: prefix_def)
  have "us \<noteq> [] \<Longrightarrow> join_with ''/'' (vs @ us) = (join_with ''/'' vs @ ''/'') @ join_with ''/'' us"
    using assms(2)
  proof (induction "''/''" vs rule: join_with.induct)
    case (2 w)
    then show ?case by (cases us) auto
  qed auto
  then show ?thesis using ws by (cases "us = []") (auto simp del: append_assoc)
qed

lemma object_keys:
  assumes "storage_ok f" "storage_ok g" "fs_Backend f \<noteq> ''directory''" "fs_Backend g \<noteq> ''directory''"
    and "ToLower (fs_Endpoint f) = ToLower (fs_Endpoint g)" "fs_Bucket f = fs_Bucket g"
    and "prefix_parts (fs_Prefix f) \<noteq> []" "prefix_parts (fs_Prefix g) \<noteq> []"
    and "prefix (prefix_parts (fs_Prefix f)) (prefix_parts (fs_Prefix g)) \<or> prefix (prefix_parts (fs_Prefix g)) (prefix_parts (fs_Prefix f))"
  shows "storageKeysOverlap (fileStorageKey f) (fileStorageKey g)"
proof -
  have "\<not> contains_dots (fs_Prefix f)" "\<not> contains_dots (fs_Prefix g)" using assms(1,2) by (auto simp: storage_ok_def)
  then show ?thesis
    using join_prefix [of "prefix_parts (fs_Prefix f)" "prefix_parts (fs_Prefix g)"]
      join_prefix [of "prefix_parts (fs_Prefix g)" "prefix_parts (fs_Prefix f)"] assms(5-9)
    by (auto simp: storageKeysOverlap_def Let_def object_key_split assms(1-4) trim_object_prefix simp del: append_Cons append_Nil)
qed

section \<open>Properties\<close>



definition sample_put :: "string \<Rightarrow> put_env" where
  "sample_put failing = \<lparr>pe_fail = (\<lambda>c. if c = failing then Some (Err failing) else None), pe_uuid = ''u1'', pe_now = 7, pe_windows = False,
     pe_rounds = [\<lparr>cr_ctx = None, cr_data = ''ab'', cr_end = More, cr_written = 2, cr_error = None\<rparr>,
                  \<lparr>cr_ctx = None, cr_data = ''c'', cr_end = Eof, cr_written = 1, cr_error = None\<rparr>]\<rparr>"

definition old_file :: fsfile where
  "old_file = \<lparr>ff_data = ''old'', ff_mode = 416, ff_time = 1\<rparr>"

lemmas path_eval_simps = path_Join_def Clean_def path_of_def clean_parts_def path_parts_def clean_step_def IsAbs_def IsLocal_def

lemma sample_object: "objectName ''in'' ''d/x'' = Inr ''in/d/x''" "temp_name (sample_put e) = ''.go-sync-tmp/u1''"
  by (simp_all add: objectName_def temp_name_def sample_put_def path_eval_simps trim_slashes_def has_nul_def has_prefix_def)

lemma sample_put_simps:
  "pe_fail (sample_put e) c = (if c = e then Some (Err e) else None)" "pe_now (sample_put e) = 7" "\<not> pe_windows (sample_put e)"
  "copyContext (pe_rounds (sample_put e)) ('''', 0) = Some ((''abc'', 3), None)" "reads ''abc'' (pe_rounds (sample_put e))"
  by (simp_all add: sample_put_def copy_write_def)


text \<open>Files of two syncers of an accepted configuration never meet: two directory stores write below
  different paths, and two stores in the same bucket write different keys provided that both have a
  prefix.\<close>

theorem storage_names_disjoint:
  assumes "server_Validate se c = (c', None)" "i < j" "j < length (sc_Syncers c')"
    and f: "f = sy_FileStorage (sc_Syncers c' ! i)" "fs_Backend f \<noteq> ''''"
    and g: "g = sy_FileStorage (sc_Syncers c' ! j)" "fs_Backend g \<noteq> ''''"
    and names: "objectName (fs_Prefix f) n = Inr x" "objectName (fs_Prefix g) m = Inr y"
  shows "(fs_Backend f = ''directory'' \<longrightarrow> fs_Backend g = ''directory'' \<longrightarrow>
      clean_parts (fs_Directory f @ ''/'' @ x) \<noteq> clean_parts (fs_Directory g @ ''/'' @ y)) \<and>
    (fs_Backend f \<noteq> ''directory'' \<longrightarrow> fs_Backend g \<noteq> ''directory'' \<longrightarrow>
      ToLower (fs_Endpoint f) = ToLower (fs_Endpoint g) \<longrightarrow> fs_Bucket f = fs_Bucket g \<longrightarrow>
      clean_parts (fs_Prefix f) \<noteq> [] \<longrightarrow> clean_parts (fs_Prefix g) \<noteq> [] \<longrightarrow> x \<noteq> y)"
proof -
  note v = server_Validate_None [OF assms(1)]
  have ok: "storage_ok f" "storage_ok g" using v(3) assms(2,3) f g by (auto simp: syncer_ok_def)
  have "storage_apart (sc_Syncers c' ! i) (sc_Syncers c' ! j)"
    using v(2) assms(2,3) sorted_wrt_nth_less [of "\<lambda>a b. tables_apart a b \<and> storage_apart a b" "sc_Syncers c'" i j]
    by (simp add: syncers_apart_def)
  then have apart: "\<not> storageKeysOverlap (fileStorageKey f) (fileStorageKey g)" using f g by (simp add: storage_apart_def)
  have dots: "\<not> contains_dots (fs_Prefix f)" "\<not> IsAbs (fs_Prefix f)" "\<not> contains_dots (fs_Prefix g)" "\<not> IsAbs (fs_Prefix g)"
    using ok by (auto simp: storage_ok_def)
  have "clean_parts (fs_Directory f @ ''/'' @ x) \<noteq> clean_parts (fs_Directory g @ ''/'' @ y)"
    if d: "fs_Backend f = ''directory''" "fs_Backend g = ''directory''"
  proof
    have ne: "fs_Directory f \<noteq> []" "fs_Directory g \<noteq> []" using ok d by (auto simp: storage_ok_def IsAbs_def)
    assume "clean_parts (fs_Directory f @ ''/'' @ x) = clean_parts (fs_Directory g @ ''/'' @ y)"
    then have "(clean_parts (fs_Directory f) @ prefix_parts (fs_Prefix f)) @ clean_parts n =
        (clean_parts (fs_Directory g) @ prefix_parts (fs_Prefix g)) @ clean_parts m"
      using objectName_location [OF names(1) dots(1) ne(1)] objectName_location [OF names(2) dots(3) ne(2)] by simp
    then have "prefix (clean_parts (fs_Directory f) @ prefix_parts (fs_Prefix f)) (clean_parts (fs_Directory g) @ prefix_parts (fs_Prefix g)) \<or>
        prefix (clean_parts (fs_Directory g) @ prefix_parts (fs_Prefix g)) (clean_parts (fs_Directory f) @ prefix_parts (fs_Prefix f))"
      by (metis prefixI prefix_same_cases)
    with apart show False by (simp add: directory_keys ok d Let_def)
  qed
  moreover have "x \<noteq> y"
    if o: "fs_Backend f \<noteq> ''directory''" "fs_Backend g \<noteq> ''directory''" "ToLower (fs_Endpoint f) = ToLower (fs_Endpoint g)"
      "fs_Bucket f = fs_Bucket g" and ne: "clean_parts (fs_Prefix f) \<noteq> []" "clean_parts (fs_Prefix g) \<noteq> []"
  proof
    assume "x = y"
    then have "prefix_parts (fs_Prefix f) @ clean_parts n = prefix_parts (fs_Prefix g) @ clean_parts m"
      using objectName_parts(1) [OF names(1) dots(1)] objectName_parts(1) [OF names(2) dots(3)] by simp
    then have "prefix (prefix_parts (fs_Prefix f)) (prefix_parts (fs_Prefix g)) \<or> prefix (prefix_parts (fs_Prefix g)) (prefix_parts (fs_Prefix f))"
      by (metis prefixI prefix_same_cases)
    with apart object_keys [OF ok o] ne dots show False by (simp add: clean_parts_plain)
  qed
  ultimately show ?thesis by blast
qed

definition sample_bucket :: "string \<Rightarrow> string \<Rightarrow> FileStorage" where
  "sample_bucket endpoint pfx = no_storage\<lparr>fs_Backend := ''s3'', fs_Endpoint := endpoint, fs_Bucket := ''b'', fs_Prefix := pfx,
     fs_AccessKey := ''k'', fs_SecretKey := ''s'', fs_Secure := True, fs_Events := [''create''], fs_MaxFileBytes := 2 ^ 20\<rparr>"

lemma sample_bucket_valid:
  assumes "endpoint \<noteq> []" "\<not> has_nul endpoint" "\<not> has_crlf endpoint" "\<not> has_nul pfx" "\<not> IsAbs pfx" "\<not> contains_dots pfx"
  shows "FileStorage_validate se (sample_bucket endpoint pfx) = (sample_bucket endpoint pfx, None)"
proof -
  have "storage_defaults (sample_bucket endpoint pfx) = sample_bucket endpoint pfx"
    by (simp add: storage_defaults_def sample_bucket_def no_storage_def char_class_simps)
  with assms show ?thesis
    by (simp add: FileStorage_validate_def Let_def) (simp add: sample_bucket_def no_storage_def backend_error_def has_nul_def has_crlf_def)
qed

definition bucket_server :: "FileStorage \<Rightarrow> FileStorage \<Rightarrow> ServerConfig" where
  "bucket_server f g = (sample_server f g)\<lparr>sc_Syncers := [with_meta (sample_syncer ''one'' ''t'' f), with_meta (sample_syncer ''two'' ''u'' g)]\<rparr>"

lemma bucket_server_valid:
  assumes "FileStorage_validate sample_senv f = (f, None)" "FileStorage_validate sample_senv g = (g, None)"
    "fs_Backend f \<noteq> ''''" "fs_Backend g \<noteq> ''''" "\<not> storageKeysOverlap (fileStorageKey f) (fileStorageKey g)"
  shows "server_Validate sample_senv (sample_server f g) = (bucket_server f g, None)"
proof -
  have "storage_claim ''one'' f [] = Inr [(fileStorageKey f, ''one'')]"
    "storage_claim ''two'' g [(fileStorageKey f, ''one'')] = Inr [(fileStorageKey g, ''two''), (fileStorageKey f, ''one'')]"
    using assms(3-5) by (simp_all add: storage_claim_def)
  then show ?thesis unfolding bucket_server_def by (rule sample_server_valid [OF assms(1,2)])
qed

lemmas key_eval_simps = storageKeysOverlap_def fileStorageKey_def sample_bucket_def no_storage_def char_class_simps trim_slashes_def
  has_prefix_def path_eval_simps

theorem storage_names_disjoint_witness: "\<exists>x y. objectName ''a'' ''x'' = Inr x \<and> objectName ''b'' ''x'' = Inr y \<and> x \<noteq> y"
proof -
  have n: "objectName ''a'' ''x'' = Inr ''a/x''" "objectName ''b'' ''x'' = Inr ''b/x''"
    by (simp_all add: objectName_def path_eval_simps trim_slashes_def has_nul_def has_prefix_def)
  have v: "server_Validate sample_senv (sample_server (sample_bucket ''h'' ''a'') (sample_bucket ''h'' ''b'')) =
      (bucket_server (sample_bucket ''h'' ''a'') (sample_bucket ''h'' ''b''), None)"
    by (rule bucket_server_valid; (rule sample_bucket_valid)?) (simp_all add: key_eval_simps has_nul_def has_crlf_def)
  have "''a/x'' \<noteq> ''b/x''"
    using storage_names_disjoint [OF v, of 0 1 "sample_bucket ''h'' ''a''" "sample_bucket ''h'' ''b''" "''x''" "''a/x''" "''x''" "''b/x''"]
    by (simp add: bucket_server_def with_meta_def sample_syncer_def sample_bucket_def no_storage_def n clean_parts_def path_parts_def clean_step_def)
  with n show ?thesis by blast
qed


end
