(* ===== verification/Schema.thy ===== *)
theory Schema
  imports Config
begin

text \<open>
  The column types of \<open>internal/server/schema.go\<close>: the records of a source schema and the mapping of
  PostgreSQL, MySQL and SQL Server types to the types that the server may add to a target table.  The
  regular expressions are written as executable matchers.
\<close>

record sourceSchemaColumn =
  xc_Name :: string
  xc_Type :: string
  xc_ColumnType :: string
  xc_BaseType :: string
  xc_NotNull :: bool
  xc_Nullable :: "bool option"
  xc_Primary :: bool

record sourceSchemaTable =
  xt_SourceType :: string
  xt_Schema :: string
  xt_Name :: string
  xt_Engine :: string
  xt_Columns :: "sourceSchemaColumn list"

section \<open>Trimming\<close>

text \<open>\<open>strings.TrimSpace\<close>: the encodings of the white space characters of Unicode.\<close>

definition white_space :: "string list" where
  "white_space =
     [[CHR 0x09], [CHR 0x0A], [CHR 0x0B], [CHR 0x0C], [CHR 0x0D], [CHR 0x20],
      [CHR 0xC2, CHR 0x85], [CHR 0xC2, CHR 0xA0], [CHR 0xE1, CHR 0x9A, CHR 0x80],
      [CHR 0xE2, CHR 0x80, CHR 0xA8], [CHR 0xE2, CHR 0x80, CHR 0xA9], [CHR 0xE2, CHR 0x80, CHR 0xAF],
      [CHR 0xE2, CHR 0x81, CHR 0x9F], [CHR 0xE3, CHR 0x80, CHR 0x80]] @
     map (\<lambda>n. [CHR 0xE2, CHR 0x80, char_of (128 + n)]) [0..<11]"

fun strip_words :: "nat \<Rightarrow> string list \<Rightarrow> string \<Rightarrow> string" where
  "strip_words 0 ws s = s"
| "strip_words (Suc n) ws s =
     (case find (has_prefix s) ws of None \<Rightarrow> s | Some w \<Rightarrow> strip_words n ws (drop (length w) s))"

text \<open>Every word that is stripped has a byte, so the length of the text bounds the rounds.\<close>

definition TrimSpace :: "string \<Rightarrow> string" where
  "TrimSpace s =
     (let t = strip_words (length s) white_space s in
      rev (strip_words (length t) (map rev white_space) (rev t)))"

section \<open>Matchers\<close>

text \<open>A text between two fixed words.\<close>

definition between :: "string \<Rightarrow> string \<Rightarrow> string \<Rightarrow> string option" where
  "between a b s =
     (if length a + length b \<le> length s \<and> take (length a) s = a \<and> drop (length s - length b) s = b
      then Some (take (length s - length a - length b) (drop (length a) s)) else None)"

text \<open>The classes \<open>[0-9]{lo,hi}\<close> and \<open>[1-9][0-9]{0,n}\<close>.\<close>

definition digits_between :: "nat \<Rightarrow> nat \<Rightarrow> string \<Rightarrow> bool" where
  "digits_between lo hi s \<longleftrightarrow> lo \<le> length s \<and> length s \<le> hi \<and> list_all is_numeral s"

definition positive_digits :: "nat \<Rightarrow> string \<Rightarrow> bool" where
  "positive_digits n s \<longleftrightarrow> digits_between 1 (Suc n) s \<and> hd s \<noteq> CHR ''0''"

definition simple_types :: "string list" where
  "simple_types = [''smallint'', ''integer'', ''bigint'', ''real'', ''double precision'', ''boolean'', ''text'', ''bytea'',
     ''date'', ''uuid'', ''json'', ''jsonb'']"

definition numeric_type :: "string \<Rightarrow> bool" where
  "numeric_type s \<longleftrightarrow> s = ''numeric'' \<or>
     (case between ''numeric('' '')'' s of None \<Rightarrow> False
      | Some t \<Rightarrow> (case split_on (CHR '','') t of
          [p] \<Rightarrow> positive_digits 3 p
        | [p, n] \<Rightarrow> positive_digits 3 p \<and> digits_between 1 4 n
        | _ \<Rightarrow> False))"

definition character_type :: "string \<Rightarrow> bool" where
  "character_type s \<longleftrightarrow>
     (case between ''character('' '')'' s of Some t \<Rightarrow> positive_digits 6 t | None \<Rightarrow> False) \<or>
     (case between ''character varying('' '')'' s of Some t \<Rightarrow> positive_digits 6 t | None \<Rightarrow> False)"

definition zoned :: "string \<Rightarrow> bool" where
  "zoned s \<longleftrightarrow> s = '' with time zone'' \<or> s = '' without time zone''"

definition time_type :: "string \<Rightarrow> string \<Rightarrow> bool" where
  "time_type base s \<longleftrightarrow> has_prefix s base \<and>
     (let t = drop (length base) s in
      zoned t \<or> (take 1 t = ''('' \<and> take 1 (drop 2 t) = '')'' \<and> list_all (\<lambda>c. ascii_between (CHR ''0'') (CHR ''6'') c) (take 1 (drop 1 t)) \<and>
        zoned (drop 3 t)))"

definition postgresType :: "string \<Rightarrow> bool" where
  "postgresType s \<longleftrightarrow> s \<in> set simple_types \<or> numeric_type s \<or> character_type s \<or> time_type ''timestamp'' s \<or> time_type ''time'' s"

text \<open>The two groups of \<open>sizedType\<close>; an absent second group is the empty text.\<close>

definition sizedType :: "string \<Rightarrow> (string \<times> string) option" where
  "sizedType s =
     (let word = takeWhile is_lower s in
      if word = [] then None
      else (case between (word @ ''('') '')'' s of
          None \<Rightarrow> None
        | Some t \<Rightarrow> (case split_on (CHR '','') t of
            [p] \<Rightarrow> if positive_digits 6 p then Some (p, '''') else None
          | [p, n] \<Rightarrow> if positive_digits 6 p \<and> digits_between 1 4 n then Some (p, n) else None
          | _ \<Rightarrow> None)))"

section \<open>Type mapping\<close>

definition unsupported :: "string \<Rightarrow> 'a res" where
  "unsupported what = Inl (Err (what @ '' is not in the automatic-add allowlist''))"

definition numericTargetType :: "string \<Rightarrow> string res" where
  "numericTargetType source =
     (case sizedType (ToLower source) of
        None \<Rightarrow> Inl (Err ''unsupported numeric type'')
      | Some (p, n) \<Rightarrow>
          (let precision = undec p; scale = (if n = '''' then 0 else undec n) in
           if precision > 1000 \<or> scale > precision then Inl (Err ''invalid numeric precision or scale'')
           else Inr (''numeric('' @ dec precision @ '','' @ dec scale @ '')'')))"

definition mysqlTargetType :: "sourceSchemaColumn \<Rightarrow> string res" where
  "mysqlTargetType c =
     (let base = ToLower (xc_Type c) in
      if base \<in> set [''tinyint'', ''smallint''] then Inr ''smallint''
      else if base \<in> set [''mediumint'', ''int'', ''integer''] then Inr ''integer''
      else if base = ''bigint'' then Inr ''bigint''
      else if base = ''float'' then Inr ''real''
      else if base = ''double'' then Inr ''double precision''
      else if base \<in> set [''decimal'', ''numeric''] then numericTargetType (xc_ColumnType c)
      else if base \<in> set [''char'', ''varchar''] then
        (case sizedType (ToLower (xc_ColumnType c)) of
           None \<Rightarrow> Inl (Err ''unsupported MySQL character type'')
         | Some (p, _) \<Rightarrow> if base = ''char'' then Inr (''character('' @ dec (undec p) @ '')'')
             else Inr (''character varying('' @ dec (undec p) @ '')''))
      else if base \<in> set [''tinytext'', ''text'', ''mediumtext'', ''longtext''] then Inr ''text''
      else if base \<in> set [''tinyblob'', ''blob'', ''mediumblob'', ''longblob'', ''binary'', ''varbinary''] then Inr ''bytea''
      else if base = ''date'' then Inr ''date''
      else if base \<in> set [''datetime'', ''timestamp''] then Inr ''timestamp without time zone''
      else if base = ''time'' then Inr ''time without time zone''
      else if base = ''json'' then Inr ''jsonb''
      else unsupported ''MySQL source type'')"

definition sqlServerTargetType :: "sourceSchemaColumn \<Rightarrow> string res" where
  "sqlServerTargetType c =
     (let base = ToLower (xc_BaseType c) in
      if base \<in> set [''tinyint'', ''smallint''] then Inr ''smallint''
      else if base = ''int'' then Inr ''integer''
      else if base = ''bigint'' then Inr ''bigint''
      else if base = ''bit'' then Inr ''boolean''
      else if base = ''real'' then Inr ''real''
      else if base = ''float'' then Inr ''double precision''
      else if base \<in> set [''text'', ''ntext'', ''varchar'', ''nvarchar'', ''char'', ''nchar''] then Inr ''text''
      else if base \<in> set [''binary'', ''varbinary'', ''image'', ''timestamp'', ''rowversion''] then Inr ''bytea''
      else if base \<in> set [''decimal'', ''numeric''] then numericTargetType (xc_Type c)
      else if base = ''money'' then Inr ''numeric(19,4)''
      else if base = ''smallmoney'' then Inr ''numeric(10,4)''
      else if base = ''uniqueidentifier'' then Inr ''uuid''
      else if base = ''date'' then Inr ''date''
      else if base \<in> set [''datetime'', ''datetime2'', ''smalldatetime''] then Inr ''timestamp without time zone''
      else if base = ''time'' then Inr ''time without time zone''
      else unsupported ''SQL Server source type'')"

definition safeTargetType :: "sourceSchemaTable \<Rightarrow> sourceSchemaColumn \<Rightarrow> string res" where
  "safeTargetType t c =
     (if xt_Engine t \<noteq> '''' then mysqlTargetType c
      else if xt_SourceType t = ''sqlserver'' \<or> xt_SourceType t = ''sqlserver_legacy'' then sqlServerTargetType c
      else (let typeName = ToLower (TrimSpace (xc_Type c)) in
        if \<not> postgresType typeName then unsupported ''PostgreSQL source type'' else Inr typeName))"

section \<open>Facts\<close>

lemma between_Some: "between a b s = Some t \<longleftrightarrow> s = a @ t @ b"
proof
  assume "between a b s = Some t"
  then have s: "length a + length b \<le> length s" "take (length a) s = a" "drop (length s - length b) s = b"
    and t: "t = take (length s - length a - length b) (drop (length a) s)" by (auto simp: between_def split: if_splits)
  have "drop (length a) s = t @ drop (length s - length a - length b) (drop (length a) s)" by (simp only: t append_take_drop_id)
  also have "drop (length s - length a - length b) (drop (length a) s) = drop (length s - length b) s" using s(1) by simp
  finally show "s = a @ t @ b" using s(2,3) by (metis append_take_drop_id)
qed (simp add: between_def)

lemma is_numeral_digit: "d < 10 \<Longrightarrow> is_numeral (digit d)"
  by (simp add: is_numeral_def ascii_between_def less_eq_char_def digit_def)

lemma dec_numerals: "list_all is_numeral (dec n)"
proof (induction n rule: dec.induct)
  case (1 n)
  show ?case
  proof (cases "n < 10")
    case True
    then show ?thesis by (subst dec.simps) (simp add: is_numeral_digit)
  next
    case False
    with 1 show ?thesis by (subst dec.simps) (simp add: is_numeral_digit)
  qed
qed

lemma length_dec: "n < 10 ^ k \<Longrightarrow> 0 < k \<Longrightarrow> length (dec n) \<le> k"
proof (induction n arbitrary: k rule: dec.induct)
  case (1 n)
  show ?case
  proof (cases "n < 10")
    case True
    then show ?thesis using 1(3) by (subst dec.simps) simp
  next
    case False
    then obtain j where k: "k = Suc j" "0 < j" using 1(2,3) by (cases k; cases "k - 1") auto
    have "n div 10 < 10 ^ j" using 1(2) by (simp add: k(1) less_mult_imp_div_less)
    with 1(1) [OF False _ k(2)] have "length (dec (n div 10)) \<le> j" by simp
    with False show ?thesis by (subst dec.simps) (simp add: k(1))
  qed
qed

lemma hd_dec: "0 < n \<Longrightarrow> hd (dec n) \<noteq> CHR ''0''"
proof (induction n rule: dec.induct)
  case (1 n)
  show ?case
  proof (cases "n < 10")
    case True
    have "(of_char CHR ''0'' :: nat) = 48" by simp
    with True 1(2) have "digit n \<noteq> CHR ''0''" using of_char_digit [of n] by fastforce
    with True show ?thesis by (subst dec.simps) simp
  next
    case False
    then have "hd (dec (n div 10)) \<noteq> CHR ''0''" by (intro 1) auto
    with False show ?thesis by (subst dec.simps) simp
  qed
qed

lemma positive_dec: "0 < n \<Longrightarrow> n < 10 ^ Suc k \<Longrightarrow> positive_digits k (dec n)"
  using length_dec [of n "Suc k"] hd_dec [of n] dec_numerals [of n]
  by (simp add: positive_digits_def digits_between_def Suc_le_eq)

lemma digits_dec: "n < 10 ^ k \<Longrightarrow> 0 < k \<Longrightarrow> digits_between 1 k (dec n)"
  using length_dec [of n k] dec_numerals [of n] by (simp add: digits_between_def Suc_le_eq)


text \<open>The characters of a type name that is spliced into a statement.\<close>

definition type_char :: "char \<Rightarrow> bool" where
  "type_char c \<longleftrightarrow> is_lower c \<or> is_numeral c \<or> c \<in> set '' (),''"

lemma type_char_digits: "list_all is_numeral s \<Longrightarrow> list_all type_char s"
  by (auto simp: list_all_iff type_char_def)

lemma digits_type_char: "digits_between lo hi s \<Longrightarrow> list_all type_char s" "positive_digits n s \<Longrightarrow> list_all type_char s"
  by (auto simp: digits_between_def positive_digits_def type_char_digits)

lemma simple_type_chars: "list_all (list_all type_char) (simple_types @ [''numeric'', ''numeric('', ''character('', ''character varying('', ''timestamp'', ''time'', '')'', ''('', '','', '' with time zone'', '' without time zone''])"
  by (simp add: simple_types_def type_char_def is_lower_def is_numeral_def ascii_between_def less_eq_char_def)

lemma numeric_type_chars:
  assumes "numeric_type s"
  shows "list_all type_char s"
proof (cases "s = ''numeric''")
  case True
  then show ?thesis using simple_type_chars by simp
next
  case False
  with assms obtain t where s: "s = ''numeric('' @ t @ '')''" and t: "case split_on (CHR '','') t of
      [p] \<Rightarrow> positive_digits 3 p | [p, n] \<Rightarrow> positive_digits 3 p \<and> digits_between 1 4 n | _ \<Rightarrow> False"
    by (auto simp: numeric_type_def between_Some split: option.splits)
  have "list_all type_char (join_with '','' (split_on (CHR '','') t))"
    using t simple_type_chars by (auto split: list.splits dest: digits_type_char)
  then have "list_all type_char t" by (simp only: join_split)
  with s simple_type_chars show ?thesis by simp
qed

lemma character_type_chars: "character_type s \<Longrightarrow> list_all type_char s"
  using simple_type_chars by (auto simp: character_type_def between_Some dest!: digits_type_char split: option.splits)

lemma time_type_chars:
  assumes "time_type base s" "list_all type_char base"
  shows "list_all type_char s"
proof -
  let ?t = "drop (length base) s"
  have z: "zoned u \<Longrightarrow> list_all type_char u" for u using simple_type_chars by (auto simp: zoned_def)
  have s: "s = base @ ?t" using assms(1) by (metis append_take_drop_id has_prefix_def time_type_def)
  have "list_all type_char ?t"
  proof (cases "zoned ?t")
    case False
    with assms(1) have p: "take 1 ?t = ''(''" "take 1 (drop 2 ?t) = '')''" "zoned (drop 3 ?t)"
      "list_all (\<lambda>c. ascii_between (CHR ''0'') (CHR ''6'') c) (take 1 (drop 1 ?t))"
      by (auto simp: time_type_def Let_def)
    have split: "?t = take 1 ?t @ take 1 (drop 1 ?t) @ take 1 (drop 2 ?t) @ drop 3 ?t"
      by (metis One_nat_def Suc_1 append_take_drop_id drop_drop numeral_3_eq_3 plus_1_eq_Suc)
    have "list_all type_char (take 1 (drop 1 ?t))"
      using p(4) by (auto simp: list_all_iff type_char_def is_numeral_def ascii_between_def less_eq_char_def)
    then have "list_all type_char (take 1 ?t @ take 1 (drop 1 ?t) @ take 1 (drop 2 ?t) @ drop 3 ?t)"
      unfolding p(1,2) using z [OF p(3)] simple_type_chars by simp
    then show ?thesis by (rule ssubst [OF split])
  qed (rule z)
  with assms(2) s show ?thesis by (metis list_all_append)
qed

lemma postgresType_chars:
  assumes "postgresType s"
  shows "list_all type_char s"
proof -
  have all: "list_all (list_all type_char) simple_types" "list_all type_char ''timestamp''" "list_all type_char ''time''"
    using simple_type_chars by simp_all
  from assms show ?thesis
    unfolding postgresType_def
    by (elim disjE) (use all in \<open>auto simp only: list_all_iff [of "list_all type_char"] numeric_type_chars character_type_chars intro: time_type_chars\<close>)
qed

lemma sizedType_Some: "sizedType s = Some (p, n) \<Longrightarrow> positive_digits 6 p"
  by (auto simp: sizedType_def Let_def split: if_splits option.splits list.splits)

lemma is_numeral_range: "is_numeral c \<longleftrightarrow> 48 \<le> (of_char c :: nat) \<and> (of_char c :: nat) \<le> 57"
  by (simp add: is_numeral_def ascii_between_def less_eq_char_def)

lemma digits_below: "list_all is_numeral s \<Longrightarrow> undec s < 10 ^ length s"
proof (induction s rule: rev_induct)
  case (snoc c s)
  then have "is_numeral c" by simp
  then have "of_char c - 48 < (10::nat)" unfolding is_numeral_range by linarith
  with snoc show ?case by simp
qed (simp add: undec_def)

lemma undec_pos:
  assumes "positive_digits k s"
  shows "0 < undec s" "undec s < 10 ^ Suc k"
proof -
  have s: "s \<noteq> []" "list_all is_numeral s" "hd s \<noteq> CHR ''0''" "length s \<le> Suc k"
    using assms by (auto simp: positive_digits_def digits_between_def)
  have "undec s < 10 ^ length s" by (rule digits_below [OF s(2)])
  also have "\<dots> \<le> 10 ^ Suc k" using s(4) by (intro power_increasing) auto
  finally show "undec s < 10 ^ Suc k" .
  have gen: "0 < a \<Longrightarrow> 0 < foldl (\<lambda>n c. 10 * n + (of_char c - 48)) a cs" for a :: nat and cs :: string
    by (induction cs arbitrary: a) auto
  obtain c cs where c: "s = c # cs" using s(1) by (cases s) auto
  have "c \<noteq> CHR ''0''" using s(3) c by simp
  then have "(of_char c :: nat) \<noteq> of_char CHR ''0''" by (metis char_of_char)
  then have "0 < (of_char c :: nat) - 48" using s(2) c by (auto simp: is_numeral_range)
  then show "0 < undec s" using gen [of "of_char c - 48" cs] by (simp add: c undec_def)
qed

lemma split_pair: "CHR '','' \<notin> set p \<Longrightarrow> CHR '','' \<notin> set n \<Longrightarrow> split_on (CHR '','') (p @ '','' @ n) = [p, n]"
  using split_on_append [of "CHR '',''" p n] by (simp add: split_on_no_sep)

lemma numeral_no_comma: "list_all is_numeral s \<Longrightarrow> CHR '','' \<notin> set s"
  by (auto simp: list_all_iff is_numeral_def ascii_between_def less_eq_char_def)

lemma numeric_type_dec:
  assumes "0 < p" "p \<le> 1000" "n \<le> p"
  shows "numeric_type (''numeric('' @ dec p @ '','' @ dec n @ '')'')"
proof -
  have b: "between ''numeric('' '')'' (''numeric('' @ dec p @ '','' @ dec n @ '')'') = Some (dec p @ '','' @ dec n)"
    by (simp add: between_Some)
  have "positive_digits 3 (dec p)" "digits_between 1 4 (dec n)" using assms positive_dec [of p 3] digits_dec [of n 4] by simp_all
  moreover have "split_on (CHR '','') (dec p @ '','' @ dec n) = [dec p, dec n]"
    by (rule split_pair) (simp_all add: numeral_no_comma dec_numerals)
  ultimately show ?thesis unfolding numeric_type_def b by simp
qed

lemma numericTargetType_safe:
  assumes "numericTargetType s = Inr t"
  shows "postgresType t"
proof -
  obtain p n where z: "sizedType (ToLower s) = Some (p, n)"
    using assms by (cases "sizedType (ToLower s)") (auto simp: numericTargetType_def)
  define k where "k = (if n = '''' then 0 else undec n)"
  have le: "undec p \<le> 1000" "k \<le> undec p" and t: "t = ''numeric('' @ dec (undec p) @ '','' @ dec k @ '')''"
    using assms unfolding numericTargetType_def z option.case prod.case Let_def k_def [symmetric]
    by (auto simp only: sum.inject sum.distinct not_less de_Morgan_disj split: if_splits)
  have "numeric_type t" unfolding t by (rule numeric_type_dec [OF undec_pos(1) [OF sizedType_Some [OF z]] le])
  then show ?thesis by (simp only: postgresType_def simp_thms)
qed

lemma character_type_dec:
  assumes "positive_digits 6 p"
  shows "character_type (''character('' @ dec (undec p) @ '')'')" "character_type (''character varying('' @ dec (undec p) @ '')'')"
proof -
  have "positive_digits 6 (dec (undec p))" using undec_pos [OF assms] by (intro positive_dec) simp_all
  moreover have "between ''character('' '')'' (''character('' @ dec (undec p) @ '')'') = Some (dec (undec p))"
    "between ''character varying('' '')'' (''character varying('' @ dec (undec p) @ '')'') = Some (dec (undec p))"
    by (simp_all add: between_Some)
  ultimately show "character_type (''character('' @ dec (undec p) @ '')'')" "character_type (''character varying('' @ dec (undec p) @ '')'')"
    unfolding character_type_def by (simp_all only: option.case simp_thms)
qed


lemma simple_allowed: "s \<in> set (simple_types @ [''numeric(19,4)'', ''numeric(10,4)'', ''timestamp without time zone'', ''time without time zone'']) \<Longrightarrow> postgresType s"
proof -
  assume s: "s \<in> set (simple_types @ [''numeric(19,4)'', ''numeric(10,4)'', ''timestamp without time zone'', ''time without time zone''])"
  have "between ''numeric('' '')'' ''numeric(19,4)'' = Some ''19,4''" "between ''numeric('' '')'' ''numeric(10,4)'' = Some ''10,4''"
    by (simp_all add: between_Some)
  then have "numeric_type ''numeric(19,4)''" "numeric_type ''numeric(10,4)''"
    by (simp_all add: numeric_type_def positive_digits_def digits_between_def is_numeral_range)
  moreover have "time_type ''timestamp'' ''timestamp without time zone''" "time_type ''time'' ''time without time zone''"
    by (simp_all add: time_type_def has_prefix_def zoned_def)
  ultimately show ?thesis using s by (auto simp: postgresType_def)
qed

lemma mysqlTargetType_safe:
  assumes "mysqlTargetType c = Inr t"
  shows "postgresType t"
proof (cases "t \<in> set (simple_types @ [''numeric(19,4)'', ''numeric(10,4)'', ''timestamp without time zone'', ''time without time zone''])")
  case False
  then have ne: "t \<noteq> ''smallint''" "t \<noteq> ''integer''" "t \<noteq> ''bigint''" "t \<noteq> ''real''" "t \<noteq> ''double precision''" "t \<noteq> ''text''" "t \<noteq> ''bytea''"
    "t \<noteq> ''date''" "t \<noteq> ''timestamp without time zone''" "t \<noteq> ''time without time zone''" "t \<noteq> ''jsonb''" by (auto simp: simple_types_def)
  have "numericTargetType (xc_ColumnType c) = Inr t \<or> (\<exists>p n. sizedType (ToLower (xc_ColumnType c)) = Some (p, n) \<and>
      (t = ''character('' @ dec (undec p) @ '')'' \<or> t = ''character varying('' @ dec (undec p) @ '')''))"
    using assms ne unfolding mysqlTargetType_def Let_def unsupported_def by (simp only: sum.inject sum.distinct split: if_splits option.splits prod.splits) auto
  then show ?thesis
    using numericTargetType_safe character_type_dec sizedType_Some unfolding postgresType_def by metis
qed (rule simple_allowed)

lemma sqlServerTargetType_safe:
  assumes "sqlServerTargetType c = Inr t"
  shows "postgresType t"
proof (cases "t \<in> set (simple_types @ [''numeric(19,4)'', ''numeric(10,4)'', ''timestamp without time zone'', ''time without time zone''])")
  case False
  then have ne: "t \<noteq> ''smallint''" "t \<noteq> ''integer''" "t \<noteq> ''bigint''" "t \<noteq> ''real''" "t \<noteq> ''double precision''" "t \<noteq> ''text''" "t \<noteq> ''bytea''"
    "t \<noteq> ''date''" "t \<noteq> ''timestamp without time zone''" "t \<noteq> ''time without time zone''" "t \<noteq> ''boolean''" "t \<noteq> ''uuid''"
    "t \<noteq> ''numeric(19,4)''" "t \<noteq> ''numeric(10,4)''" by (auto simp: simple_types_def)
  have "numericTargetType (xc_Type c) = Inr t"
    using assms ne unfolding sqlServerTargetType_def Let_def unsupported_def by (simp only: sum.inject sum.distinct split: if_splits)
  then show ?thesis by (rule numericTargetType_safe)
qed (rule simple_allowed)


section \<open>Properties\<close>

text \<open>C24. Whatever a source calls its types, the name that the server splices unquoted into
  \<open>ALTER TABLE ... ADD COLUMN\<close> is one of the allowed PostgreSQL types, so it consists of lower-case
  letters, digits, blanks, commas and parentheses only.\<close>

theorem safeTargetType_allowlisted:
  assumes "safeTargetType t c = Inr ty"
  shows "postgresType ty \<and> list_all type_char ty"
proof -
  have "postgresType ty"
    using assms mysqlTargetType_safe [of c ty] sqlServerTargetType_safe [of c ty]
    unfolding safeTargetType_def Let_def unsupported_def by (auto simp only: sum.inject sum.distinct split: if_splits)
  then show ?thesis using postgresType_chars by blast
qed

definition sample_column :: "string \<Rightarrow> string \<Rightarrow> sourceSchemaColumn" where
  "sample_column name type = \<lparr>xc_Name = name, xc_Type = type, xc_ColumnType = ''VARCHAR(20)'', xc_BaseType = '''', xc_NotNull = False,
     xc_Nullable = None, xc_Primary = False\<rparr>"

definition sample_schema :: "string \<Rightarrow> sourceSchemaColumn list \<Rightarrow> sourceSchemaTable" where
  "sample_schema engine columns = \<lparr>xt_SourceType = '''', xt_Schema = ''public'', xt_Name = ''t'', xt_Engine = engine, xt_Columns = columns\<rparr>"

theorem safeTargetType_allowlisted_witness:
  "\<exists>ty. safeTargetType (sample_schema ''InnoDB'' []) (sample_column ''c'' ''VarChar'') = Inr ty \<and> postgresType ty"
proof -
  have low: "ToLower ''VarChar'' = ''varchar''" "ToLower ''VARCHAR(20)'' = ''varchar(20)''"
    by (simp_all add: is_upper_def ascii_between_def less_eq_char_def char_of_def bit_0)
  have "takeWhile is_lower ''varchar(20)'' = ''varchar''" by (simp add: is_lower_def ascii_between_def less_eq_char_def)
  moreover have "between ''varchar('' '')'' ''varchar(20)'' = Some ''20''" by (simp add: between_Some)
  ultimately have "sizedType ''varchar(20)'' = Some (''20'', '''')"
    by (simp add: sizedType_def positive_digits_def digits_between_def is_numeral_range)
  then have "safeTargetType (sample_schema ''InnoDB'' []) (sample_column ''c'' ''VarChar'') = Inr (''character varying('' @ dec (undec ''20'') @ '')'')"
    by (simp add: safeTargetType_def mysqlTargetType_def sample_schema_def sample_column_def low del: ToLower.simps)
  with safeTargetType_allowlisted [OF this] show ?thesis by blast
qed

end
