(* ===== verification/Target.thy ===== *)
theory Target
  imports FileStore Schema Event "HOL-Library.Product_Lexorder"
begin

text \<open>
  The target of the server, \<open>internal/server/target.go\<close> and the staging part of
  \<open>internal/server/schema.go\<close>: one message at a time is checked against the progress of the syncer,
  applied in one database transaction and recorded.

  The metadata tables are lists of rows of this syncer.  The target tables are an abstract value \<open>'d\<close>
  on which the database executes the statements that the code builds, as text with arguments.  Every
  statement and every file operation may fail: the \<open>n\<close>-th of a call fails when \<open>si_fail n\<close> says so; a failure
  while the rows of a query are read, or a chunk is written to the temporary file, is a failure of that query.  The
  answer to a commit may be lost after it took effect (\<open>si_lost\<close>), and reading the column types may break
  off (\<open>si_trunc\<close>).  When the transaction is not committed, metadata and tables are as before; the cache of
  column types and the stored files are not part of it.
\<close>

section \<open>State\<close>

record SyncState =
  y_Generation :: string
  y_Received :: nat
  y_Applied :: nat
  y_Phase :: string
  y_Open :: string
  y_SchemaVersion :: string
  y_Pending :: string
  y_Repair :: bool

record 'v inbox_row =
  ib_Generation :: string
  ib_Seq :: nat
  ib_ID :: string
  ib_Payload :: 'v

record scope_row =
  sp_Schema :: string
  sp_Name :: string
  sp_Ordinal :: nat

record 'v staged_row =
  sr_Generation :: string
  sr_Seq :: nat
  sr_Ordinal :: nat
  sr_Payload :: 'v

record stage_row =
  sg_Generation :: string
  sg_Version :: string
  sg_Schema :: string
  sg_Table :: string
  sg_Payload :: string

record 'v meta =
  mt_State :: "SyncState option"
  mt_Inbox :: "'v inbox_row list"
  mt_Scope :: "scope_row list"
  mt_Rows :: "'v staged_row list"
  mt_Hash :: "((string \<times> nat) \<times> string) list"
  mt_Stage :: "stage_row list"

type_synonym types = "string \<rightharpoonup> string"

record ('v, 'd, 'f) target =
  tg_Cfg :: Syncer
  tg_Meta :: "'v meta"
  tg_Db :: 'd
  tg_Types :: "string \<rightharpoonup> types"
  tg_Files :: "'f option"

text \<open>What a call works on: the metadata and tables inside the transaction, the cache, the files and the
  number of operations so far.\<close>

record ('v, 'd, 'f) work =
  wk_Meta :: "'v meta"
  wk_Db :: 'd
  wk_Types :: "string \<rightharpoonup> types"
  wk_Files :: "'f option"
  wk_Clock :: nat

record sio =
  si_fail :: "nat \<Rightarrow> err option"
  si_trunc :: "nat \<Rightarrow> (nat \<times> err) option"
  si_lost :: bool

text \<open>Arguments of a statement: a text or NULL, or bytes or NULL.\<close>

datatype arg = TextArg "string option" | BytesArg "string option"

text \<open>The environment: \<open>te_exec\<close> executes a statement and counts the rows, \<open>te_columns\<close> lists the columns of
  a table with their types, \<open>te_rank\<close> is the collation of the database, \<open>te_sha\<close> and \<open>te_digest\<close> hash a
  payload and a text, \<open>te_schema\<close> decodes a schema payload, \<open>te_put\<close> and \<open>te_delete\<close> are the operations of
  the file store, given the content of the temporary file.\<close>

record ('v, 'd, 'f) tenv = "'v codec" +
  te_exec :: "'d \<Rightarrow> string \<Rightarrow> arg list \<Rightarrow> ('d \<times> nat) res"
  te_columns :: "'d \<Rightarrow> string \<Rightarrow> string \<Rightarrow> (string \<times> string) list"
  te_rank :: "string \<times> string \<Rightarrow> nat"
  te_sha :: "'v \<Rightarrow> string"
  te_digest :: "string \<Rightarrow> string"
  te_schema :: "string \<Rightarrow> sourceSchemaTable res"
  te_put :: "'f \<Rightarrow> string \<Rightarrow> string \<Rightarrow> nat \<Rightarrow> int \<Rightarrow> 'f \<times> err option"
  te_delete :: "'f \<Rightarrow> string \<Rightarrow> 'f \<times> err option"

section \<open>Statements\<close>

definition ticked :: "('v, 'd, 'f) work \<Rightarrow> ('v, 'd, 'f) work" where
  "ticked w = w\<lparr>wk_Clock := Suc (wk_Clock w)\<rparr>"

definition stmt :: "sio \<Rightarrow> ('v, 'd, 'f) work step \<Rightarrow> ('v, 'd, 'f) work step" where
  "stmt io act w = (case si_fail io (wk_Clock w) of Some e \<Rightarrow> (ticked w, Some e) | None \<Rightarrow> act (ticked w))"

definition meta_stmt :: "sio \<Rightarrow> ('v meta \<Rightarrow> 'v meta res) \<Rightarrow> ('v, 'd, 'f) work step" where
  "meta_stmt io g = stmt io (\<lambda>w. case g (wk_Meta w) of Inl e \<Rightarrow> (w, Some e) | Inr m \<Rightarrow> (w\<lparr>wk_Meta := m\<rparr>, None))"

definition unique_violation :: err where
  "unique_violation = Err ''duplicate key value violates unique constraint''"

definition insert_inbox :: "'v inbox_row \<Rightarrow> 'v meta \<Rightarrow> 'v meta res" where
  "insert_inbox r m =
     (if list_ex (\<lambda>x. ib_Generation x = ib_Generation r \<and> ib_Seq x = ib_Seq r) (mt_Inbox m) then Inl unique_violation
      else Inr (m\<lparr>mt_Inbox := mt_Inbox m @ [r]\<rparr>))"

definition insert_scope :: "scope_row \<Rightarrow> 'v meta \<Rightarrow> 'v meta res" where
  "insert_scope r m =
     (if list_ex (\<lambda>x. sp_Schema x = sp_Schema r \<and> sp_Name x = sp_Name r) (mt_Scope m) then Inl unique_violation
      else Inr (m\<lparr>mt_Scope := mt_Scope m @ [r]\<rparr>))"

definition insert_staged :: "'v staged_row \<Rightarrow> 'v meta \<Rightarrow> 'v meta res" where
  "insert_staged r m =
     (if list_ex (\<lambda>x. sr_Generation x = sr_Generation r \<and> sr_Seq x = sr_Seq r \<and> sr_Ordinal x = sr_Ordinal r) (mt_Rows m)
      then Inl unique_violation else Inr (m\<lparr>mt_Rows := mt_Rows m @ [r]\<rparr>))"

definition insert_stage :: "stage_row \<Rightarrow> 'v meta \<Rightarrow> 'v meta res" where
  "insert_stage r m =
     (if list_ex (\<lambda>x. sg_Generation x = sg_Generation r \<and> sg_Version x = sg_Version r \<and> sg_Schema x = sg_Schema r \<and> sg_Table x = sg_Table r)
           (mt_Stage m)
      then Inl unique_violation else Inr (m\<lparr>mt_Stage := mt_Stage m @ [r]\<rparr>))"

definition insert_hash :: "string \<Rightarrow> nat \<Rightarrow> string \<Rightarrow> 'v meta \<Rightarrow> 'v meta res" where
  "insert_hash g n h m =
     (case map_of (mt_Hash m) (g, n) of Some _ \<Rightarrow> Inl unique_violation | None \<Rightarrow> Inr (m\<lparr>mt_Hash := ((g, n), h) # mt_Hash m\<rparr>))"

section \<open>Rows\<close>

definition quote :: "string \<Rightarrow> string" where
  "quote name = [CHR 0x22] @ concat (map (\<lambda>c. if c = CHR 0x22 then [c, c] else [c]) name) @ [CHR 0x22]"

record appliedColumn =
  ac_Name :: string
  ac_Value :: arg
  ac_Binary :: bool

definition text_column :: "string \<Rightarrow> string option \<Rightarrow> appliedColumn" where
  "text_column name v = \<lparr>ac_Name = name, ac_Value = TextArg v, ac_Binary = False\<rparr>"

definition decode_content :: "string option \<Rightarrow> string option res" where
  "decode_content v =
     (case v of None \<Rightarrow> Inr None
      | Some s \<Rightarrow> (case b64_decode b64_std True s of None \<Rightarrow> Inl (Err ''illegal base64 data'') | Some d \<Rightarrow> Inr (Some d)))"

fun transform :: "Syncer \<Rightarrow> Row \<Rightarrow> Column list \<Rightarrow> appliedColumn list res" where
  "transform cfg row [] = Inr []"
| "transform cfg row (c # cs) =
     (case FileMapping cfg (r_Schema row) (r_Table row) (c_Name c) of
        Some content \<Rightarrow>
          if c_Encoding c = ''base64'' then
            (case decode_content (c_Value c) of
               Inl e \<Rightarrow> Inl (Wrap ''decode embedded file column'' e)
             | Inr d \<Rightarrow> (case transform cfg row cs of
                 Inl e \<Rightarrow> Inl e
               | Inr rest \<Rightarrow> Inr (text_column (c_Name c) (c_SourceValue c) #
                   \<lparr>ac_Name = content, ac_Value = BytesArg d, ac_Binary = True\<rparr> # rest)))
          else (case transform cfg row cs of Inl e \<Rightarrow> Inl e | Inr rest \<Rightarrow> Inr (text_column (c_Name c) (c_Value c) # rest))
      | None \<Rightarrow> (case transform cfg row cs of Inl e \<Rightarrow> Inl e | Inr rest \<Rightarrow> Inr (text_column (c_Name c) (c_Value c) # rest)))"

text \<open>The value of one column as SQL text with its argument.\<close>

definition placeholder :: "nat \<Rightarrow> string" where
  "placeholder n = ''$'' @ dec n"

definition expression :: "types \<Rightarrow> nat \<Rightarrow> appliedColumn \<Rightarrow> (string \<times> arg) res" where
  "expression ty n c =
     (case ty (ac_Name c) of
        None \<Rightarrow> Inl (Err (''target column '' @ ac_Name c @ '' does not exist''))
      | Some typeName \<Rightarrow>
          if ac_Binary c then
            (if typeName \<noteq> ''bytea'' then Inl (Err (''file content column '' @ ac_Name c @ '' must be bytea''))
             else Inr (placeholder n @ ''::bytea'', ac_Value c))
          else (case ac_Value c of
              TextArg (Some v) \<Rightarrow>
                if typeName = ''bytea'' \<and> has_prefix v ''0x'' then
                  (case hex_DecodeString (drop 2 v) of
                     None \<Rightarrow> Inl (Err (''invalid binary value for '' @ ac_Name c))
                   | Some d \<Rightarrow> Inr (placeholder n @ ''::bytea'', BytesArg (Some d)))
                else Inr (placeholder n @ ''::text::'' @ typeName, ac_Value c)
            | _ \<Rightarrow> Inr (placeholder n @ ''::text::'' @ typeName, ac_Value c)))"

fun expressions :: "types \<Rightarrow> nat \<Rightarrow> appliedColumn list \<Rightarrow> (string \<times> string \<times> arg) list res" where
  "expressions ty n [] = Inr []"
| "expressions ty n (c # cs) =
     (case expression ty n c of
        Inl e \<Rightarrow> Inl e
      | Inr (v, a) \<Rightarrow> (case expressions ty (Suc n) cs of Inl e \<Rightarrow> Inl e | Inr rest \<Rightarrow> Inr ((quote (ac_Name c), v, a) # rest)))"

definition predicates :: "types \<Rightarrow> nat \<Rightarrow> appliedColumn list \<Rightarrow> (string \<times> arg list) res" where
  "predicates ty n cs =
     (case expressions ty n cs of
        Inl e \<Rightarrow> Inl e
      | Inr es \<Rightarrow> Inr (join_with '' AND '' (map (\<lambda>(name, v, a). name @ '' IS NOT DISTINCT FROM '' @ v) es), map (\<lambda>(name, v, a). a) es))"

text \<open>The statement for a row, with the message when it must change exactly one row.\<close>

definition row_statement ::
  "string \<Rightarrow> types \<Rightarrow> string \<Rightarrow> appliedColumn list \<Rightarrow> appliedColumn list \<Rightarrow> (string \<times> arg list \<times> string option) res" where
  "row_statement table ty operation columns keys =
     (if operation = ''read'' \<or> operation = ''insert'' then
        (if columns = [] then Inl (Err ''insert has no columns'')
         else (case expressions ty 1 columns of
             Inl e \<Rightarrow> Inl e
           | Inr es \<Rightarrow> Inr (''INSERT INTO '' @ table @ '' ('' @ join_with '','' (map fst es) @ '') VALUES ('' @
               join_with '','' (map (fst \<circ> snd) es) @ '')'', map (snd \<circ> snd) es, None)))
      else if operation = ''update'' then
        (if columns = [] \<or> keys = [] then Inl (Err ''update requires changed columns and identity'')
         else (case expressions ty 1 columns of
             Inl e \<Rightarrow> Inl e
           | Inr es \<Rightarrow> (case predicates ty (Suc (length es)) keys of
               Inl e \<Rightarrow> Inl e
             | Inr (cond, args) \<Rightarrow> Inr (''UPDATE '' @ table @ '' SET '' @ join_with '','' (map (\<lambda>(name, v, a). name @ ''='' @ v) es) @
                 '' WHERE ctid IN (SELECT ctid FROM '' @ table @ '' WHERE '' @ cond @ '' LIMIT 1)'', map (snd \<circ> snd) es @ args,
                 Some ''update identity did not match exactly one row''))))
      else if operation = ''delete'' then
        (if keys = [] then Inl (Err ''delete requires identity'')
         else (case predicates ty 1 keys of
             Inl e \<Rightarrow> Inl e
           | Inr (cond, args) \<Rightarrow> Inr (''DELETE FROM '' @ table @ '' WHERE ctid IN (SELECT ctid FROM '' @ table @ '' WHERE '' @ cond @
               '' LIMIT 1)'', args, Some ''delete identity did not match exactly one row'')))
      else Inl (Err (''unsupported row operation '' @ operation)))"

definition target_name :: "Syncer \<Rightarrow> string \<Rightarrow> string" where
  "target_name cfg table = quote (pg_TargetSchema (sy_Postgres cfg)) @ ''.'' @ quote table"

text \<open>\<open>columnTypes\<close>: the cache, or the columns that the pool sees, outside of the transaction.\<close>

definition columnTypes ::
  "('v, 'd, 'f, 'z) tenv_scheme \<Rightarrow> sio \<Rightarrow> 'd \<Rightarrow> Syncer \<Rightarrow> string \<Rightarrow> ('v, 'd, 'f) work \<Rightarrow> ('v, 'd, 'f) work \<times> types res" where
  "columnTypes E io pool cfg table w =
     (case wk_Types w table of
        Some ty \<Rightarrow> (w, Inr ty)
      | None \<Rightarrow>
          (case si_fail io (wk_Clock w) of
             Some e \<Rightarrow> (ticked w, Inl e)
           | None \<Rightarrow>
               (let cols = te_columns E pool (pg_TargetSchema (sy_Postgres cfg)) table;
                    (got, e) = (case si_trunc io (wk_Clock w) of None \<Rightarrow> (cols, None) | Some (n, e) \<Rightarrow> (take n cols, Some e));
                    w' = (ticked w)\<lparr>wk_Types := (wk_Types w)(table \<mapsto> map_of (rev got))\<rparr> in
                if got = [] then (ticked w, Inl (Err ''target table does not exist''))
                else (case e of None \<Rightarrow> (w', Inr (map_of (rev got))) | Some e \<Rightarrow> (w', Inl e)))))"

definition exec_stmt ::
  "('v, 'd, 'f, 'z) tenv_scheme \<Rightarrow> sio \<Rightarrow> string \<Rightarrow> arg list \<Rightarrow> string option \<Rightarrow> ('v, 'd, 'f) work step" where
  "exec_stmt E io sql args one = stmt io (\<lambda>w.
     case te_exec E (wk_Db w) sql args of
       Inl e \<Rightarrow> (w, Some e)
     | Inr (d, n) \<Rightarrow> (w\<lparr>wk_Db := d\<rparr>, case one of None \<Rightarrow> None | Some text \<Rightarrow> if n \<noteq> 1 then Some (Err text) else None))"

definition applyRow :: "('v, 'd, 'f, 'z) tenv_scheme \<Rightarrow> sio \<Rightarrow> 'd \<Rightarrow> Syncer \<Rightarrow> Row \<Rightarrow> ('v, 'd, 'f) work step" where
  "applyRow E io pool cfg row w =
     (if \<not> Allows cfg (r_Schema row) (r_Table row) then (w, Some (Err ''row references unconfigured table''))
      else case columnTypes E io pool cfg (r_Table row) w of
        (w1, Inl e) \<Rightarrow> (w1, Some e)
      | (w1, Inr ty) \<Rightarrow>
          (case transform cfg row (r_Columns row) of
             Inl e \<Rightarrow> (w1, Some e)
           | Inr columns \<Rightarrow>
               (case transform cfg row (if r_Operation row = ''update'' \<and> r_OldKey row \<noteq> [] then r_OldKey row else r_Key row) of
                  Inl e \<Rightarrow> (w1, Some e)
                | Inr keys \<Rightarrow>
                    (case row_statement (target_name cfg (r_Table row)) ty (r_Operation row) columns keys of
                       Inl e \<Rightarrow> (w1, Some e)
                     | Inr (sql, args, one) \<Rightarrow> exec_stmt E io sql args one w1))))"

section \<open>Schema staging\<close>

definition stageSchema :: "('v, 'd, 'f, 'z) tenv_scheme \<Rightarrow> sio \<Rightarrow> Syncer \<Rightarrow> Message \<Rightarrow> ('v, 'd, 'f) work step" where
  "stageSchema E io cfg m w =
     (case te_schema E (m_Schema m) of
        Inl e \<Rightarrow> (w, Some (Err ''invalid schema payload''))
      | Inr s \<Rightarrow>
          if xt_Schema s = '''' \<or> xt_Name s = '''' \<or> \<not> Allows cfg (xt_Schema s) (xt_Name s)
          then (w, Some (Err ''schema references unconfigured table''))
          else if xt_Columns s = [] then (w, Some (Err ''schema has no columns''))
          else meta_stmt io (insert_stage \<lparr>sg_Generation = m_Generation m, sg_Version = m_SchemaVersion m, sg_Schema = xt_Schema s,
                 sg_Table = xt_Name s, sg_Payload = m_Schema m\<rparr>) w)"

definition staged_for :: "string \<Rightarrow> string \<Rightarrow> stage_row \<Rightarrow> bool" where
  "staged_for g v r \<longleftrightarrow> sg_Generation r = g \<and> sg_Version r = v"

fun decode_schemas :: "(string \<Rightarrow> sourceSchemaTable res) \<Rightarrow> stage_row list \<Rightarrow> sourceSchemaTable list res" where
  "decode_schemas f [] = Inr []"
| "decode_schemas f (r # rs) =
     (case f (sg_Payload r) of
        Inl e \<Rightarrow> Inl (Err ''invalid staged schema payload'')
      | Inr s \<Rightarrow> (case decode_schemas f rs of Inl e \<Rightarrow> Inl e | Inr ss \<Rightarrow> Inr (s # ss)))"

definition column_nullable :: "sourceSchemaColumn \<Rightarrow> bool" where
  "column_nullable c = (case xc_Nullable c of None \<Rightarrow> \<not> xc_NotNull c | Some b \<Rightarrow> b)"

fun add_columns ::
  "('v, 'd, 'f, 'z) tenv_scheme \<Rightarrow> sio \<Rightarrow> Syncer \<Rightarrow> sourceSchemaTable \<Rightarrow> types \<Rightarrow> sourceSchemaColumn list \<Rightarrow> ('v, 'd, 'f) work step" where
  "add_columns E io cfg s ty [] w = (w, None)"
| "add_columns E io cfg s ty (c # cs) w =
     (if ty (xc_Name c) \<noteq> None then add_columns E io cfg s ty cs w
      else if \<not> sy_AutoAddColumns cfg \<or> \<not> column_nullable c \<or> xc_Primary c
      then (w, Some (Err ''target column is missing and cannot be added safely''))
      else (case safeTargetType s c of
          Inl e \<Rightarrow> (w, Some (Wrap ''target column'' e))
        | Inr typeName \<Rightarrow>
            (case exec_stmt E io (''ALTER TABLE '' @ target_name cfg (xt_Name s) @ '' ADD COLUMN '' @ quote (xc_Name c) @ '' '' @ typeName) [] None w of
               (w', Some e) \<Rightarrow> (w', Some e)
             | (w', None) \<Rightarrow> add_columns E io cfg s (ty(xc_Name c \<mapsto> typeName)) cs w')))"

text \<open>\<open>targetColumnTypes\<close> reads inside the transaction.\<close>

definition apply_schema ::
  "('v, 'd, 'f, 'z) tenv_scheme \<Rightarrow> sio \<Rightarrow> Syncer \<Rightarrow> sourceSchemaTable \<Rightarrow> ('v, 'd, 'f) work step" where
  "apply_schema E io cfg s = stmt io (\<lambda>w.
     let cols = te_columns E (wk_Db w) (pg_TargetSchema (sy_Postgres cfg)) (xt_Name s) in
     if cols = [] then (w, Some (Err ''target table does not exist''))
     else add_columns E io cfg s (map_of (rev cols)) (xt_Columns s) w)"

definition applyStagedSchemas ::
  "('v, 'd, 'f, 'z) tenv_scheme \<Rightarrow> sio \<Rightarrow> Syncer \<Rightarrow> string \<Rightarrow> string \<Rightarrow> ('v, 'd, 'f) work step" where
  "applyStagedSchemas E io cfg g v = stmt io (\<lambda>w.
     case decode_schemas (te_schema E)
        (sort_key (\<lambda>r. te_rank E (sg_Schema r, sg_Table r)) (filter (staged_for g v) (mt_Stage (wk_Meta w)))) of
       Inl e \<Rightarrow> (w, Some e)
     | Inr schemas \<Rightarrow>
         if length schemas \<noteq> length (sy_Tables cfg) then (w, Some (Err ''schema refresh has the wrong number of tables''))
         else andthen (each (apply_schema E io cfg) schemas)
                (meta_stmt io (\<lambda>m. Inr (m\<lparr>mt_Stage := filter (\<lambda>r. \<not> staged_for g v r) (mt_Stage m)\<rparr>))) w)"

section \<open>Applying transactions and snapshots\<close>

definition applyPageSize :: nat where
  "applyPageSize = 512"

definition inbox_page :: "string \<Rightarrow> int \<Rightarrow> 'v meta \<Rightarrow> 'v inbox_row list" where
  "inbox_page g lastSeq m =
     take applyPageSize (sort_key ib_Seq (filter (\<lambda>r. ib_Generation r = g \<and> lastSeq < int (ib_Seq r)) (mt_Inbox m)))"

fun decode_chunks :: "('v \<Rightarrow> Message res) \<Rightarrow> 'v inbox_row list \<Rightarrow> (nat \<times> Message) list res" where
  "decode_chunks f [] = Inr []"
| "decode_chunks f (r # rs) =
     (case f (ib_Payload r) of
        Inl e \<Rightarrow> Inl e
      | Inr m \<Rightarrow> (case decode_chunks f rs of Inl e \<Rightarrow> Inl e | Inr ms \<Rightarrow> Inr ((ib_Seq r, m) # ms)))"

definition delete_inbox :: "(string \<Rightarrow> nat \<Rightarrow> bool) \<Rightarrow> 'v meta \<Rightarrow> 'v meta res" where
  "delete_inbox P m = Inr (m\<lparr>mt_Inbox := filter (\<lambda>r. \<not> P (ib_Generation r) (ib_Seq r)) (mt_Inbox m)\<rparr>)"

definition apply_chunk ::
  "('v, 'd, 'f, 'z) tenv_scheme \<Rightarrow> sio \<Rightarrow> 'd \<Rightarrow> Syncer \<Rightarrow> Message \<Rightarrow> nat \<times> Message \<Rightarrow> ('v, 'd, 'f) work step" where
  "apply_chunk E io pool cfg m item w =
     (if m_Transaction (snd item) \<noteq> m_Transaction m then (w, None)
      else andthen (each (applyRow E io pool cfg) (m_Rows (snd item)))
             (meta_stmt io (delete_inbox (\<lambda>g n. g = m_Generation m \<and> n = fst item))) w)"

text \<open>What a step leaves of the inbox, for the termination of the loop over its pages.\<close>

definition inbox_shrinks :: "('v, 'd, 'f) work \<Rightarrow> ('v, 'd, 'f) work \<Rightarrow> bool" where
  "inbox_shrinks w w' \<longleftrightarrow> (\<exists>P. mt_Inbox (wk_Meta w') = filter P (mt_Inbox (wk_Meta w)))"

lemma inbox_shrinks_same: "mt_Inbox (wk_Meta w') = mt_Inbox (wk_Meta w) \<Longrightarrow> inbox_shrinks w w'"
  by (auto simp: inbox_shrinks_def intro: exI [of _ "\<lambda>_. True"])

lemma inbox_shrinks_trans: "inbox_shrinks a b \<Longrightarrow> inbox_shrinks b c \<Longrightarrow> inbox_shrinks a c"
  by (auto simp: inbox_shrinks_def)

lemma ticked_simps [simp]:
  "wk_Meta (ticked w) = wk_Meta w" "wk_Db (ticked w) = wk_Db w" "wk_Types (ticked w) = wk_Types w" "wk_Files (ticked w) = wk_Files w"
  by (simp_all add: ticked_def)

lemma columnTypes_frame:
  "wk_Meta (fst (columnTypes E io pool cfg t w)) = wk_Meta w" "wk_Db (fst (columnTypes E io pool cfg t w)) = wk_Db w"
  "wk_Files (fst (columnTypes E io pool cfg t w)) = wk_Files w"
  by (auto simp: columnTypes_def Let_def split: option.splits prod.splits)

lemma exec_stmt_frame:
  "wk_Meta (fst (exec_stmt E io sql args one w)) = wk_Meta w" "wk_Types (fst (exec_stmt E io sql args one w)) = wk_Types w"
  "wk_Files (fst (exec_stmt E io sql args one w)) = wk_Files w"
  by (auto simp: exec_stmt_def stmt_def split: option.splits sum.splits)

lemma applyRow_frame: "wk_Meta (fst (applyRow E io pool cfg r w)) = wk_Meta w" "wk_Files (fst (applyRow E io pool cfg r w)) = wk_Files w"
  using columnTypes_frame [of E io pool cfg "r_Table r" w]
  by (auto simp: applyRow_def exec_stmt_frame split: prod.splits sum.splits)

lemma each_applyRow_frame:
  "wk_Meta (fst (each (applyRow E io pool cfg) rows w)) = wk_Meta w" "wk_Files (fst (each (applyRow E io pool cfg) rows w)) = wk_Files w"
  by (rule each_keeps [of "\<lambda>x. wk_Meta x = wk_Meta w"]; simp add: applyRow_frame)
     (rule each_keeps [of "\<lambda>x. wk_Files x = wk_Files w"]; simp add: applyRow_frame)

lemma apply_chunk_shrinks: "inbox_shrinks w (fst (apply_chunk E io pool cfg m item w))"
proof -
  let ?w = "fst (each (applyRow E io pool cfg) (m_Rows (snd item)) w)"
  have "inbox_shrinks w ?w" by (rule inbox_shrinks_same) (simp add: each_applyRow_frame)
  moreover have "inbox_shrinks ?w (fst (meta_stmt io (delete_inbox (\<lambda>g n. g = m_Generation m \<and> n = fst item)) ?w))"
    by (auto simp: meta_stmt_def stmt_def delete_inbox_def inbox_shrinks_def split: option.splits intro: exI [of _ "\<lambda>_. True"])
  ultimately show ?thesis
    by (auto simp: apply_chunk_def andthen_def inbox_shrinks_same split: prod.splits option.splits intro: inbox_shrinks_trans)
qed

lemma each_chunk_shrinks: "inbox_shrinks w (fst (each (apply_chunk E io pool cfg m) items w))"
  by (rule each_keeps [of "inbox_shrinks w"]) (auto simp: inbox_shrinks_same intro: inbox_shrinks_trans apply_chunk_shrinks)

lemma length_decode_chunks: "decode_chunks f rs = Inr ms \<Longrightarrow> length ms = length rs"
  by (induction rs arbitrary: ms) (auto split: sum.splits)

text \<open>The rows of a generation after a position.\<close>

definition pending :: "string \<Rightarrow> int \<Rightarrow> 'v inbox_row list \<Rightarrow> nat" where
  "pending g n rs = length (filter (\<lambda>r. ib_Generation r = g \<and> n < int (ib_Seq r)) rs)"

lemma filter_filter_le: "length (filter B (filter P xs)) \<le> length (filter B xs)"
  by (induction xs) auto

lemma page_progress:
  assumes "inbox_page g n m \<noteq> []" "inbox_shrinks w w'" "wk_Meta w = m"
  shows "pending g (int (ib_Seq (last (inbox_page g n m)))) (mt_Inbox (wk_Meta w')) < pending g n (mt_Inbox m)"
proof -
  let ?r = "last (inbox_page g n m)"
  obtain P where P: "mt_Inbox (wk_Meta w') = filter P (mt_Inbox m)" using assms(2,3) by (auto simp: inbox_shrinks_def)
  have r: "?r \<in> set (mt_Inbox m)" "ib_Generation ?r = g" "n < int (ib_Seq ?r)"
    using last_in_set [OF assms(1)] by (auto simp: inbox_page_def dest: in_set_takeD)
  let ?A = "\<lambda>r. ib_Generation r = g \<and> n < int (ib_Seq r)" and ?B = "\<lambda>r. ib_Generation r = g \<and> int (ib_Seq ?r) < int (ib_Seq r)"
  have "length (filter ?B (filter P (mt_Inbox m))) \<le> length (filter ?B (mt_Inbox m))"
    by (rule filter_filter_le)
  also have "\<dots> = length (filter ?B (filter ?A (mt_Inbox m)))" using r(3) by (auto simp: filter_filter intro!: arg_cong [of _ _ length] filter_cong)
  also have "\<dots> < length (filter ?A (mt_Inbox m))" by (rule length_filter_less [of ?r]) (use r in auto)
  finally show ?thesis by (simp add: pending_def P)
qed

function apply_inbox ::
  "('v, 'd, 'f, 'z) tenv_scheme \<Rightarrow> sio \<Rightarrow> 'd \<Rightarrow> Syncer \<Rightarrow> Message \<Rightarrow> int \<Rightarrow> ('v, 'd, 'f) work step" where
  "apply_inbox E io pool cfg m lastSeq w =
     (case si_fail io (wk_Clock w) of
        Some e \<Rightarrow> (ticked w, Some e)
      | None \<Rightarrow>
          (case decode_chunks (unmarshal E) (inbox_page (m_Generation m) lastSeq (wk_Meta w)) of
             Inl e \<Rightarrow> (ticked w, Some e)
           | Inr batch \<Rightarrow>
               (case each (apply_chunk E io pool cfg m) batch (ticked w) of
                  (w', Some e) \<Rightarrow> (w', Some e)
                | (w', None) \<Rightarrow>
                    if length batch < applyPageSize then (w', None)
                    else apply_inbox E io pool cfg m (int (ib_Seq (last (inbox_page (m_Generation m) lastSeq (wk_Meta w))))) w')))"
  by pat_completeness auto
termination
proof (relation "measure (\<lambda>(E, io, pool, cfg, m, n, w). pending (m_Generation m) n (mt_Inbox (wk_Meta w)))", goal_cases)
  case (2 E io pool cfg m n w batch w')
  let ?page = "inbox_page (m_Generation m) n (wk_Meta w)"
  have "length ?page = length batch" using length_decode_chunks [OF 2(2)] by simp
  then have "?page \<noteq> []" using 2(5) by (auto simp: applyPageSize_def)
  moreover have "inbox_shrinks w w'"
    using each_chunk_shrinks [of "ticked w" E io pool cfg m batch] 2(3) [symmetric] 2(4) by (simp add: inbox_shrinks_def)
  ultimately show ?case using page_progress [of "m_Generation m" n "wk_Meta w" w w'] by simp
qed simp

declare apply_inbox.simps [simp del]

text \<open>The staged rows of a snapshot, in pages by sequence and row number.\<close>

definition rows_page :: "string \<Rightarrow> int \<times> int \<Rightarrow> 'v meta \<Rightarrow> 'v staged_row list" where
  "rows_page g pos m =
     take applyPageSize (sort_key (\<lambda>r. (sr_Seq r, sr_Ordinal r))
       (filter (\<lambda>r. sr_Generation r = g \<and> pos < (int (sr_Seq r), int (sr_Ordinal r))) (mt_Rows m)))"

fun decode_rows :: "('v \<Rightarrow> Row res) \<Rightarrow> 'v staged_row list \<Rightarrow> Row list res" where
  "decode_rows f [] = Inr []"
| "decode_rows f (r # rs) =
     (case f (sr_Payload r) of
        Inl e \<Rightarrow> Inl e
      | Inr x \<Rightarrow> (case decode_rows f rs of Inl e \<Rightarrow> Inl e | Inr xs \<Rightarrow> Inr (x # xs)))"

definition as_insert :: "Row \<Rightarrow> Row" where
  "as_insert r = r\<lparr>r_Operation := ''insert''\<rparr>"

definition row_position :: "'v staged_row \<Rightarrow> int \<times> int" where
  "row_position r = (int (sr_Seq r), int (sr_Ordinal r))"

definition pending_rows :: "string \<Rightarrow> int \<times> int \<Rightarrow> 'v staged_row list \<Rightarrow> nat" where
  "pending_rows g pos rs = length (filter (\<lambda>r. sr_Generation r = g \<and> pos < row_position r) rs)"

lemma length_decode_rows: "decode_rows f rs = Inr xs \<Longrightarrow> length xs = length rs"
  by (induction rs arbitrary: xs) (auto split: sum.splits)

lemma rows_page_progress:
  assumes "rows_page g pos m \<noteq> []"
  shows "pending_rows g (row_position (last (rows_page g pos m))) (mt_Rows m) < pending_rows g pos (mt_Rows m)"
proof -
  let ?r = "last (rows_page g pos m)"
  let ?A = "\<lambda>r. sr_Generation r = g \<and> pos < row_position r" and ?B = "\<lambda>r. sr_Generation r = g \<and> row_position ?r < row_position r"
  have r: "?r \<in> set (mt_Rows m)" "sr_Generation ?r = g" "pos < row_position ?r"
    using last_in_set [OF assms] by (auto simp: rows_page_def row_position_def dest: in_set_takeD)
  have "length (filter ?B (mt_Rows m)) = length (filter ?B (filter ?A (mt_Rows m)))"
    using r(3) by (auto simp: filter_filter intro!: arg_cong [of _ _ length] filter_cong)
  also have "\<dots> < length (filter ?A (mt_Rows m))" by (rule length_filter_less [of ?r]) (use r in auto)
  finally show ?thesis by (simp add: pending_rows_def)
qed

function apply_snapshot ::
  "('v, 'd, 'f, 'z) tenv_scheme \<Rightarrow> sio \<Rightarrow> 'd \<Rightarrow> Syncer \<Rightarrow> string \<Rightarrow> int \<times> int \<Rightarrow> ('v, 'd, 'f) work step" where
  "apply_snapshot E io pool cfg g pos w =
     (case si_fail io (wk_Clock w) of
        Some e \<Rightarrow> (ticked w, Some e)
      | None \<Rightarrow>
          (case decode_rows (unmarshal_row E) (rows_page g pos (wk_Meta w)) of
             Inl e \<Rightarrow> (ticked w, Some e)
           | Inr batch \<Rightarrow>
               (case each (applyRow E io pool cfg) (map as_insert batch) (ticked w) of
                  (w', Some e) \<Rightarrow> (w', Some e)
                | (w', None) \<Rightarrow>
                    if length batch < applyPageSize then (w', None)
                    else apply_snapshot E io pool cfg g (row_position (last (rows_page g pos (wk_Meta w)))) w')))"
  by pat_completeness auto
termination
proof (relation "measure (\<lambda>(E, io, pool, cfg, g, pos, w). pending_rows g pos (mt_Rows (wk_Meta w)))", goal_cases)
  case (2 E io pool cfg g pos w batch w')
  have "length (rows_page g pos (wk_Meta w)) = length batch" using length_decode_rows [OF 2(2)] by simp
  then have "rows_page g pos (wk_Meta w) \<noteq> []" using 2(5) by (auto simp: applyPageSize_def)
  moreover have "wk_Meta w' = wk_Meta w"
    using each_applyRow_frame(1) [of E io pool cfg "map as_insert batch" "ticked w"] 2(3) [symmetric] 2(4) by simp
  ultimately show ?case using rows_page_progress [of g pos "wk_Meta w"] by simp
qed simp

declare apply_snapshot.simps [simp del]

definition clear_table :: "('v, 'd, 'f, 'z) tenv_scheme \<Rightarrow> sio \<Rightarrow> Syncer \<Rightarrow> scope_row \<Rightarrow> ('v, 'd, 'f) work step" where
  "clear_table E io cfg r = exec_stmt E io (''DELETE FROM '' @ target_name cfg (sp_Name r)) [] None"

text \<open>\<open>snapshot_end\<close>: the tables of the scope are cleared in reverse order, the staged rows are inserted and
  the staging tables emptied.\<close>

definition snapshot_end ::
  "('v, 'd, 'f, 'z) tenv_scheme \<Rightarrow> sio \<Rightarrow> 'd \<Rightarrow> Syncer \<Rightarrow> Message \<Rightarrow> ('v, 'd, 'f) work step" where
  "snapshot_end E io pool cfg m =
     andthen (if m_SchemaVersion m \<noteq> '''' then applyStagedSchemas E io cfg (m_Generation m) (m_SchemaVersion m) else check None)
       (stmt io (\<lambda>w.
          andthen (each (clear_table E io cfg) (rev (sort_key sp_Ordinal (mt_Scope (wk_Meta w)))))
         (andthen (apply_snapshot E io pool cfg (m_Generation m) (-1, -1))
         (andthen (meta_stmt io (\<lambda>x. Inr (x\<lparr>mt_Rows := []\<rparr>)))
                  (meta_stmt io (\<lambda>x. Inr (x\<lparr>mt_Scope := []\<rparr>))))) w))"

section \<open>Files\<close>

definition validateFileMessage :: "Syncer \<Rightarrow> bool \<Rightarrow> Message \<Rightarrow> err option" where
  "validateFileMessage cfg has_files m =
     (case m_File m of
        None \<Rightarrow> Some (Err ''file event has an invalid or unconfigured path'')
      | Some f \<Rightarrow>
          if \<not> has_files \<or> f_Path f = '''' \<or> \<not> IsLocal (f_Path f) \<or> has_nul (f_Path f)
          then Some (Err ''file event has an invalid or unconfigured path'')
          else if m_Kind m = ''file_delete'' then
            (if f_Operation f \<noteq> ''delete'' \<or> m_Transaction m \<noteq> '''' \<or> f_Data f \<noteq> '''' then Some (Err ''invalid file_delete envelope'') else None)
          else if m_Kind m \<in> set [''file_begin'', ''file_chunk'', ''file_end''] then
            (if f_Operation f \<noteq> ''create'' \<and> f_Operation f \<noteq> ''update'' then Some (Err ''file batch operation must be create or update'')
             else if m_Transaction m = '''' \<or> f_Size f < 0 \<or> f_Size f > fs_MaxFileBytes (sy_FileStorage cfg) \<or> f_Chunks f = 0
             then Some (Err ''file batch metadata exceeds configured limits'')
             else if (case hex_DecodeString (f_SHA256 f) of None \<Rightarrow> True | Some d \<Rightarrow> length d \<noteq> 32) then Some (Err ''file batch SHA-256 is invalid'')
             else if m_Kind m \<noteq> ''file_chunk'' \<and> f_Data f \<noteq> '''' then Some (Err ''file content is only allowed in file_chunk'')
             else None)
          else Some (Err ''unsupported file message''))"

text \<open>The loop of \<open>applyFile\<close> over the batch: whether the beginning was seen, the number of the next chunk and
  the content written to the temporary file.\<close>

type_synonym assembly = "bool \<times> nat \<times> string"

definition same_file :: "Message \<Rightarrow> FileChange \<Rightarrow> Message \<Rightarrow> bool" where
  "same_file fin f m \<longleftrightarrow> m_Transaction m = m_Transaction fin \<and>
     (case m_File m of None \<Rightarrow> False
      | Some x \<Rightarrow> f_Path x = f_Path f \<and> f_Operation x = f_Operation f \<and> f_Size x = f_Size f \<and> f_SHA256 x = f_SHA256 f \<and> f_Chunks x = f_Chunks f)"

definition assemble_chunk :: "Syncer \<Rightarrow> Message \<Rightarrow> FileChange \<Rightarrow> assembly \<Rightarrow> Message \<Rightarrow> assembly res" where
  "assemble_chunk cfg fin f st m =
     (case st of (seen, expected, content) \<Rightarrow>
        if \<not> same_file fin f m then Inl (Err ''file batch metadata is inconsistent'')
        else if m_Kind m = ''file_begin'' then
          (if seen \<or> expected \<noteq> 0 then Inl (Err ''file batch has duplicate begin'') else Inr (True, expected, content))
        else if m_Kind m = ''file_chunk'' then
          (case m_File m of None \<Rightarrow> Inl (Err ''file batch metadata is inconsistent'')
           | Some x \<Rightarrow>
               if \<not> seen \<or> f_Chunk x \<noteq> expected \<or> expected \<ge> f_Chunks f then Inl (Err ''file chunks are not contiguous'')
               else (case b64_decode b64_std True (f_Data x) of
                   None \<Rightarrow> Inl (Err ''file chunk is not valid base64'')
                 | Some d \<Rightarrow>
                     if int (length d) + int (length content) > fs_MaxFileBytes (sy_FileStorage cfg)
                     then Inl (Err ''file content exceeds configured limit'')
                     else Inr (seen, Suc expected, content @ d)))
        else Inl (Err ''unexpected message in file batch''))"

fun assemble :: "('v \<Rightarrow> Message res) \<Rightarrow> Syncer \<Rightarrow> Message \<Rightarrow> FileChange \<Rightarrow> assembly \<Rightarrow> 'v inbox_row list \<Rightarrow> assembly res" where
  "assemble um cfg fin f st [] = Inr st"
| "assemble um cfg fin f st (r # rs) =
     (case um (ib_Payload r) of
        Inl e \<Rightarrow> Inl e
      | Inr m \<Rightarrow> (case assemble_chunk cfg fin f st m of Inl e \<Rightarrow> Inl e | Inr st' \<Rightarrow> assemble um cfg fin f st' rs))"

definition put_file :: "('v, 'd, 'f, 'z) tenv_scheme \<Rightarrow> FileChange \<Rightarrow> string \<Rightarrow> ('v, 'd, 'f) work step" where
  "put_file E f content w =
     (case wk_Files w of
        None \<Rightarrow> (w, None)
      | Some s \<Rightarrow> (case te_put E s (f_Path f) content (f_Mode f) (f_ModTimeUnixNano f) of (s', e) \<Rightarrow> (w\<lparr>wk_Files := Some s'\<rparr>, e)))"

definition applyFile :: "('v, 'd, 'f, 'z) tenv_scheme \<Rightarrow> sio \<Rightarrow> Syncer \<Rightarrow> Message \<Rightarrow> FileChange \<Rightarrow> ('v, 'd, 'f) work step" where
  "applyFile E io cfg fin f w =
     (if f_Operation f \<noteq> ''create'' \<and> f_Operation f \<noteq> ''update'' then (w, Some (Err ''file_end operation must be create or update''))
      else if f_Size f < 0 \<or> f_Size f > fs_MaxFileBytes (sy_FileStorage cfg) \<or> f_SHA256 f = '''' \<or> f_Chunks f = 0
      then (w, Some (Err ''file metadata exceeds configured limits''))
      else andthen (stmt io (check None))
        (\<lambda>w. case stmt io (\<lambda>w.
            case assemble (unmarshal E) cfg fin f (False, 0, '''')
                   (sort_key ib_Seq (filter (\<lambda>r. ib_Generation r = m_Generation fin) (mt_Inbox (wk_Meta w)))) of
              Inl e \<Rightarrow> (w, Some e)
            | Inr (seen, expected, content) \<Rightarrow>
                if \<not> seen \<or> expected \<noteq> f_Chunks f \<or> int (length content) \<noteq> f_Size f \<or>
                   hex_EncodeToString (te_digest E content) \<noteq> f_SHA256 f
                then (w, Some (Err ''file size, chunk count or SHA-256 does not match''))
                else andthen (stmt io (check None)) (andthen (stmt io (check None))
                  (if \<not> AllowsFileOperation cfg (f_Operation f) then check None else put_file E f content)) w) w of
           (w', e) \<Rightarrow> (case si_fail io (wk_Clock w') of
                        None \<Rightarrow> (ticked w', e)
                      | Some e' \<Rightarrow> (ticked w', joined e (Some e')))) w)"

section \<open>Messages\<close>

definition scope_rows :: "TableRef list \<Rightarrow> scope_row list" where
  "scope_rows ts = map (\<lambda>(i, t). \<lparr>sp_Schema = tr_Schema t, sp_Name = tr_Name t, sp_Ordinal = i\<rparr>) (enumerate 0 ts)"

definition add_scope :: "sio \<Rightarrow> Syncer \<Rightarrow> scope_row \<Rightarrow> ('v, 'd, 'f) work step" where
  "add_scope io cfg r w =
     (if \<not> Allows cfg (sp_Schema r) (sp_Name r) then (w, Some (Err ''snapshot contains unconfigured table''))
      else meta_stmt io (insert_scope r) w)"

fun encode_rows :: "(Row \<Rightarrow> 'v res) \<Rightarrow> Message \<Rightarrow> nat \<Rightarrow> Row list \<Rightarrow> 'v staged_row list res" where
  "encode_rows f m i [] = Inr []"
| "encode_rows f m i (r # rs) =
     (case f r of
        Inl e \<Rightarrow> Inl e
      | Inr v \<Rightarrow> (case encode_rows f m (Suc i) rs of
          Inl e \<Rightarrow> Inl e
        | Inr xs \<Rightarrow> Inr (\<lparr>sr_Generation = m_Generation m, sr_Seq = m_Seq m, sr_Ordinal = i, sr_Payload = v\<rparr> # xs)))"

definition inbox_entry :: "Message \<Rightarrow> 'v \<Rightarrow> 'v inbox_row" where
  "inbox_entry m raw = \<lparr>ib_Generation = m_Generation m, ib_Seq = m_Seq m, ib_ID = m_ID m, ib_Payload = raw\<rparr>"

definition applyMessage ::
  "('v, 'd, 'f, 'z) tenv_scheme \<Rightarrow> sio \<Rightarrow> 'd \<Rightarrow> Syncer \<Rightarrow> Message \<Rightarrow> 'v \<Rightarrow> string \<Rightarrow> ('v, 'd, 'f) work step" where
  "applyMessage E io pool cfg m raw phase w =
     (if m_Kind m = ''snapshot_begin'' then
        andthen (meta_stmt io (\<lambda>x. Inr (x\<lparr>mt_Rows := []\<rparr>)))
       (andthen (meta_stmt io (\<lambda>x. Inr (x\<lparr>mt_Scope := []\<rparr>)))
                (each (add_scope io cfg) (scope_rows (m_Tables m)))) w
      else if m_Kind m = ''schema'' then
        (if phase \<noteq> ''snapshot'' \<and> phase \<noteq> ''stream'' then (w, Some (Err ''schema received outside a synchronization phase''))
         else if m_SchemaVersion m \<noteq> '''' then stageSchema E io cfg m w else (w, None))
      else if m_Kind m = ''snapshot_rows'' then
        (if phase \<noteq> ''snapshot'' then (w, Some (Err ''snapshot rows received outside snapshot''))
         else (case encode_rows (marshal_row E) m 0 (m_Rows m) of
             Inl e \<Rightarrow> (w, Some e)
           | Inr rs \<Rightarrow> each (\<lambda>r. meta_stmt io (insert_staged r)) rs w))
      else if m_Kind m = ''snapshot_end'' then
        (if phase \<noteq> ''snapshot'' then (w, Some (Err ''snapshot_end received outside snapshot'')) else snapshot_end E io pool cfg m w)
      else if m_Kind m = ''schema_end'' then
        (if phase \<noteq> ''stream'' then (w, Some (Err ''schema_end received outside stream''))
         else applyStagedSchemas E io cfg (m_Generation m) (m_SchemaVersion m) w)
      else if m_Kind m = ''transaction_rows'' then
        (if phase \<noteq> ''stream'' then (w, Some (Err ''transaction rows received before snapshot publication''))
         else meta_stmt io (insert_inbox (inbox_entry m raw)) w)
      else if m_Kind m = ''transaction_end'' then
        (if phase \<noteq> ''stream'' then (w, Some (Err ''transaction end received before snapshot publication''))
         else apply_inbox E io pool cfg m (-1) w)
      else if m_Kind m = ''file_begin'' \<or> m_Kind m = ''file_chunk'' then
        (if phase \<noteq> ''stream'' \<or> wk_Files w = None then (w, Some (Err ''file event received before snapshot or without file storage''))
         else meta_stmt io (insert_inbox (inbox_entry m raw)) w)
      else if m_Kind m = ''file_end'' then
        (case m_File m of
           None \<Rightarrow> (w, Some (Err ''file_end received before snapshot or without file storage''))
         | Some f \<Rightarrow>
             if phase \<noteq> ''stream'' \<or> wk_Files w = None then (w, Some (Err ''file_end received before snapshot or without file storage''))
             else andthen (applyFile E io cfg m f) (meta_stmt io (delete_inbox (\<lambda>g n. g = m_Generation m))) w)
      else if m_Kind m = ''file_delete'' then
        (case (m_File m, wk_Files w) of
           (Some f, Some s) \<Rightarrow>
             if phase \<noteq> ''stream'' \<or> f_Operation f \<noteq> ''delete'' then (w, Some (Err ''invalid file_delete event''))
             else if \<not> AllowsFileOperation cfg ''delete'' then (w, None)
             else (case te_delete E s (f_Path f) of (s', e) \<Rightarrow> (w\<lparr>wk_Files := Some s'\<rparr>, e))
         | _ \<Rightarrow> (w, Some (Err ''invalid file_delete event'')))
      else (w, Some (Err (''unsupported message kind '' @ m_Kind m))))"

definition phase_after :: "Message \<Rightarrow> string \<Rightarrow> string" where
  "phase_after m phase =
     (if m_Kind m = ''snapshot_begin'' then ''snapshot'' else if m_Kind m = ''snapshot_end'' then ''stream'' else phase)"

section \<open>Storing a message\<close>

definition bigint_limit :: nat where
  "bigint_limit = 2 ^ 63"

text \<open>The barrier around a schema refresh.\<close>

definition schema_barrier :: "Message \<Rightarrow> SyncState \<Rightarrow> SyncState res" where
  "schema_barrier m y =
     (if m_Kind m = ''schema'' \<and> y_Phase y = ''stream'' then
        (if m_SchemaVersion m = '''' then Inl (Err ''stream schema refresh requires schema_version'')
         else if y_Pending y = '''' then Inr (y\<lparr>y_Pending := m_SchemaVersion m\<rparr>)
         else if y_Pending y \<noteq> m_SchemaVersion m then Inl (Err ''schema refresh version changed before schema_end'')
         else Inr y)
      else if m_Kind m = ''schema_end'' then
        (if y_Phase y \<noteq> ''stream'' \<or> m_SchemaVersion m = '''' \<or> m_SchemaVersion m \<noteq> y_Pending y
         then Inl (Err ''schema_end does not match pending schema refresh'') else Inr y)
      else if y_Pending y \<noteq> '''' then Inl (Err ''schema refresh must finish before row delivery'')
      else if m_SchemaVersion m \<noteq> y_SchemaVersion y then Inl (Err ''message schema_version does not match active version'')
      else Inr y)"

text \<open>Which messages fit the open transaction.\<close>

definition join_open :: "Message \<Rightarrow> SyncState \<Rightarrow> SyncState res" where
  "join_open m y =
     (if y_Open y = '''' then Inr (y\<lparr>y_Open := m_Transaction m\<rparr>)
      else if y_Open y \<noteq> m_Transaction m then Inl (Err ''transaction is still open'')
      else Inr y)"

definition open_guard :: "Message \<Rightarrow> SyncState \<Rightarrow> SyncState res" where
  "open_guard m y =
     (if m_Kind m = ''transaction_rows'' then
        (if m_Transaction m = '''' then Inl (Err ''transaction_rows requires a transaction identifier'') else join_open m y)
      else if m_Kind m = ''transaction_end'' then
        (if m_Transaction m = '''' \<or> y_Open y \<noteq> m_Transaction m then Inl (Err ''transaction_end does not match open transaction'') else Inr y)
      else if m_Kind m = ''file_begin'' \<or> m_Kind m = ''file_chunk'' then
        (if m_Transaction m = '''' \<or> m_File m = None then Inl (Err ''file batch requires a transaction and file payload'') else join_open m y)
      else if m_Kind m = ''file_end'' then
        (if m_Transaction m = '''' \<or> m_File m = None \<or> y_Open y \<noteq> m_Transaction m then Inl (Err ''file_end does not match the open file batch'')
         else Inr y)
      else if m_Kind m = ''file_delete'' then
        (if m_File m = None \<or> y_Open y \<noteq> '''' then Inl (Err ''file_delete requires a payload and no open batch'') else Inr y)
      else if m_Kind m = ''schema'' then
        (if y_Open y \<noteq> '''' then Inl (Err ''schema cannot be applied inside a transaction'') else Inr y)
      else Inr y)"

definition store_checks :: "Syncer \<Rightarrow> bool \<Rightarrow> Message \<Rightarrow> SyncState \<Rightarrow> SyncState res" where
  "store_checks cfg has_files m y =
     (case (if has_prefix (m_Kind m) ''file_'' then validateFileMessage cfg has_files m else None) of
        Some e \<Rightarrow> Inl e
      | None \<Rightarrow> (case schema_barrier m y of Inl e \<Rightarrow> Inl e | Inr y' \<Rightarrow> open_guard m y'))"

text \<open>The progress that is recorded after the message was applied.\<close>

definition applies :: "Message \<Rightarrow> bool" where
  "applies m \<longleftrightarrow> m_Kind m \<in> set [''snapshot_end'', ''transaction_end'', ''schema_end'', ''file_end'', ''file_delete'']"

definition advance :: "Message \<Rightarrow> SyncState \<Rightarrow> SyncState" where
  "advance m y =
     (let y1 = (if m_Kind m = ''transaction_end'' \<or> m_Kind m = ''file_end'' then y\<lparr>y_Open := ''''\<rparr> else y);
          y2 = (if m_Kind m = ''schema_end'' then y1\<lparr>y_SchemaVersion := y_Pending y1, y_Pending := ''''\<rparr> else y1) in
      y2\<lparr>y_Generation := m_Generation m, y_Received := m_Seq m, y_Applied := (if applies m then m_Seq m else y_Applied y),
         y_Phase := phase_after m (y_Phase y)\<rparr>)"

definition fresh_state :: "Message \<Rightarrow> SyncState \<Rightarrow> SyncState" where
  "fresh_state m y = y\<lparr>y_Generation := m_Generation m, y_Received := 0, y_Applied := 0, y_Phase := '''', y_Open := '''',
     y_SchemaVersion := m_SchemaVersion m, y_Pending := ''''\<rparr>"

text \<open>The new generation: the rows of the old one are deleted table by table.\<close>

definition clear_generation :: "sio \<Rightarrow> ('v, 'd, 'f) work step" where
  "clear_generation io =
     andthen (meta_stmt io (\<lambda>x. Inr (x\<lparr>mt_Inbox := []\<rparr>)))
    (andthen (meta_stmt io (\<lambda>x. Inr (x\<lparr>mt_Rows := []\<rparr>)))
    (andthen (meta_stmt io (\<lambda>x. Inr (x\<lparr>mt_Scope := []\<rparr>)))
    (andthen (meta_stmt io (\<lambda>x. Inr (x\<lparr>mt_Hash := []\<rparr>)))
             (meta_stmt io (\<lambda>x. Inr (x\<lparr>mt_Stage := []\<rparr>))))))"

definition store_new ::
  "('v, 'd, 'f, 'z) tenv_scheme \<Rightarrow> sio \<Rightarrow> 'd \<Rightarrow> Syncer \<Rightarrow> Message \<Rightarrow> 'v \<Rightarrow> SyncState \<Rightarrow> ('v, 'd, 'f) work step" where
  "store_new E io pool cfg m raw y w =
     (if m_Seq m \<noteq> Suc (y_Received y) then (w, Some (Err ''non-contiguous message''))
      else (case store_checks cfg (wk_Files w \<noteq> None) m y of
          Inl e \<Rightarrow> (w, Some e)
        | Inr y' \<Rightarrow>
            andthen (applyMessage E io pool cfg m raw (y_Phase y'))
           (andthen (meta_stmt io (insert_hash (m_Generation m) (m_Seq m) (te_sha E raw)))
                    (meta_stmt io (\<lambda>x. Inr (x\<lparr>mt_State := Some (advance m y')\<rparr>)))) w))"

definition store_duplicate ::
  "('v, 'd, 'f, 'z) tenv_scheme \<Rightarrow> sio \<Rightarrow> Message \<Rightarrow> 'v \<Rightarrow> ('v, 'd, 'f) work step" where
  "store_duplicate E io m raw = stmt io (\<lambda>w.
     case map_of (mt_Hash (wk_Meta w)) (m_Generation m, m_Seq m) of
       None \<Rightarrow> (w, None)
     | Some h \<Rightarrow> (w, if h \<noteq> te_sha E raw then Some (Err ''sequence was already stored with a different payload'') else None))"

text \<open>The body of the transaction; the result says whether the message was new.\<close>

definition store_body ::
  "('v, 'd, 'f, 'z) tenv_scheme \<Rightarrow> sio \<Rightarrow> 'd \<Rightarrow> Syncer \<Rightarrow> Message \<Rightarrow> 'v \<Rightarrow> ('v, 'd, 'f) work step" where
  "store_body E io pool cfg m raw = stmt io (\<lambda>w.
     case mt_State (wk_Meta w) of
       None \<Rightarrow> (w, Some ErrNoRows)
     | Some y \<Rightarrow>
         if m_Generation m \<noteq> y_Generation y then
           (if m_Seq m \<noteq> 1 \<or> m_Kind m \<noteq> ''snapshot_begin'' then (w, Some (Err ''new generation must begin with snapshot_begin sequence 1''))
            else andthen (clear_generation io) (store_new E io pool cfg m raw (fresh_state m y)) w)
         else if m_Seq m \<le> y_Received y then store_duplicate E io m raw w
         else store_new E io pool cfg m raw y w)"

definition work_of :: "('v, 'd, 'f) target \<Rightarrow> ('v, 'd, 'f) work" where
  "work_of t = \<lparr>wk_Meta = tg_Meta t, wk_Db = tg_Db t, wk_Types = tg_Types t, wk_Files = tg_Files t, wk_Clock = 0\<rparr>"

definition rolled_back :: "('v, 'd, 'f) target \<Rightarrow> ('v, 'd, 'f) work \<Rightarrow> ('v, 'd, 'f) target" where
  "rolled_back t w = t\<lparr>tg_Types := wk_Types w, tg_Files := wk_Files w\<rparr>"

definition committed :: "('v, 'd, 'f) target \<Rightarrow> ('v, 'd, 'f) work \<Rightarrow> ('v, 'd, 'f) target" where
  "committed t w = t\<lparr>tg_Meta := wk_Meta w, tg_Db := wk_Db w, tg_Types := wk_Types w, tg_Files := wk_Files w\<rparr>"

definition invalidateTypes :: "('v, 'd, 'f) target \<Rightarrow> ('v, 'd, 'f) target" where
  "invalidateTypes t = t\<lparr>tg_Types := Map.empty\<rparr>"

definition is_duplicate :: "('v, 'd, 'f) target \<Rightarrow> Message \<Rightarrow> bool" where
  "is_duplicate t m \<longleftrightarrow> (case mt_State (tg_Meta t) of None \<Rightarrow> False
     | Some y \<Rightarrow> m_Generation m = y_Generation y \<and> m_Seq m \<le> y_Received y)"

definition target_store ::
  "('v, 'd, 'f, 'z) tenv_scheme \<Rightarrow> sio \<Rightarrow> Message \<Rightarrow> 'v \<Rightarrow> ('v, 'd, 'f) target step" where
  "target_store E io m raw t =
     (if m_Seq m \<ge> bigint_limit then (t, Some (Err ''message sequence exceeds PostgreSQL bigint''))
      else (case andthen (stmt io (check None)) (store_body E io (tg_Db t) (tg_Cfg t) m raw) (work_of t) of
          (w, Some e) \<Rightarrow> (rolled_back t w, Some e)
        | (w, None) \<Rightarrow>
            (case si_fail io (wk_Clock w) of
               Some e \<Rightarrow> (if si_lost io then committed t w else rolled_back t w, Some e)
             | None \<Rightarrow> (if \<not> is_duplicate t m \<and> (m_Kind m = ''snapshot_end'' \<or> m_Kind m = ''schema_end'')
                        then invalidateTypes (committed t w) else committed t w, None))))"


end
