(* ===== verification/Target_Sample.thy ===== *)
theory Target_Sample
  imports Target
begin

text \<open>
  One instance of the parameters of the target: payloads are messages, the database keeps the statements
  it executed, and the table \<open>t\<close> has a column \<open>id\<close> and, once a column was added, a column \<open>note\<close>.
\<close>

type_synonym statement_log = "(string \<times> arg list) list"

type_synonym content_map = "string \<rightharpoonup> string"

definition sample_tenv :: "(Message, statement_log, content_map) tenv" where
  "sample_tenv =
     \<lparr>marshal = Inr, unmarshal = Inr, blen = (\<lambda>m. 100), unmarshal_created = (\<lambda>m. Inr (m_CreatedAt m)),
      marshal_row = (\<lambda>r. Inr (zero_Message\<lparr>m_Rows := [r]\<rparr>)), unmarshal_row = (\<lambda>m. Inr (hd (m_Rows m))),
      json_string = Inr, json_Valid = (\<lambda>s. s \<noteq> []),
      te_exec = (\<lambda>d sql args. Inr (d @ [(sql, args)], 1)),
      te_columns = (\<lambda>d schema table. if table = ''t'' then [(''id'', ''integer'')] @
         (if list_ex (\<lambda>x. has_prefix (fst x) ''ALTER'') d then [(''note'', ''text'')] else []) else []),
      te_rank = (\<lambda>_. 0), te_sha = m_Kind, te_digest = (\<lambda>s. s),
      te_schema = (\<lambda>s. Inr (sample_schema '''' [sample_column ''id'' ''integer'', sample_column ''note'' ''text''])),
      te_put = (\<lambda>f p c mode time. (f(p \<mapsto> c), None)), te_delete = (\<lambda>f p. (f(p := None), None))\<rparr>"

definition sample_sync :: "string \<Rightarrow> string \<Rightarrow> SyncState" where
  "sample_sync phase txn = \<lparr>y_Generation = ''g1'', y_Received = 3, y_Applied = 3, y_Phase = phase, y_Open = txn,
     y_SchemaVersion = ''v1'', y_Pending = '''', y_Repair = False\<rparr>"

definition sample_meta :: "SyncState \<Rightarrow> Message meta" where
  "sample_meta y = \<lparr>mt_State = Some y, mt_Inbox = [], mt_Scope = [], mt_Rows = [],
     mt_Hash = [((''g1'', 1), ''snapshot_begin''), ((''g1'', 2), ''schema''), ((''g1'', 3), ''snapshot_end'')], mt_Stage = []\<rparr>"

definition sample_target :: "Message meta \<Rightarrow> (Message, statement_log, content_map) target" where
  "sample_target meta = \<lparr>tg_Cfg = sample_syncer ''one'' ''t'' no_storage, tg_Meta = meta, tg_Db = [], tg_Types = Map.empty, tg_Files = None\<rparr>"

definition sample_msg :: "string \<Rightarrow> nat \<Rightarrow> Message" where
  "sample_msg kind seq = (kind_msg kind)\<lparr>m_Generation := ''g1'', m_SchemaVersion := ''v1'', m_Seq := seq\<rparr>"

definition chunk_msg :: Message where
  "chunk_msg = (sample_msg ''transaction_rows'' 4)\<lparr>m_Transaction := ''7''\<rparr>"

definition streaming :: "(Message, statement_log, content_map) target" where
  "streaming = sample_target (sample_meta (sample_sync ''stream'' ''''))"

definition failing_at :: "nat \<Rightarrow> sio" where
  "failing_at k = \<lparr>si_fail = (\<lambda>n. if n = k then Some ErrCanceled else None), si_trunc = (\<lambda>_. None), si_lost = False\<rparr>"

lemmas sample_target_defs = sample_tenv_def sample_sync_def sample_meta_def sample_target_def sample_msg_def sample_syncer_def no_storage_def
  kind_msg_def zero_Message_def failing_at_def

lemmas target_eval_simps = andthen_def stmt_def meta_stmt_def ticked_def work_of_def rolled_back_def committed_def invalidateTypes_def
  is_duplicate_def store_body_def store_new_def store_duplicate_def store_checks_def schema_barrier_def open_guard_def join_open_def
  advance_def applies_def phase_after_def applyMessage_def check_def

lemma small_seq: "n \<le> 1000 \<Longrightarrow> n < bigint_limit"
proof -
  assume "n \<le> 1000"
  then have "n < 2 ^ 10" by simp
  also have "(2::nat) ^ 10 < 2 ^ 63" by (rule power_strict_increasing) simp_all
  finally show ?thesis by (simp only: bigint_limit_def)
qed

end
