(* ===== verification/Target_Faults.thy ===== *)
theory Target_Faults
  imports Target_Sample
begin

text \<open>
  Failures of the target: a call that reports no error did exactly what it does when nothing fails, and
  a call that reports one left metadata and tables alone, or its commit took effect although the answer
  was lost.
\<close>

section \<open>Calls in which nothing fails\<close>

definition calm :: sio where
  "calm = \<lparr>si_fail = (\<lambda>_. None), si_trunc = (\<lambda>_. None), si_lost = False\<rparr>"

lemma calm_simps [simp]: "si_fail calm n = None" "si_trunc calm n = None" "\<not> si_lost calm"
  by (simp_all add: calm_def)

text \<open>\<open>tames f g\<close>: when \<open>f\<close> succeeds, \<open>g\<close> does the same.\<close>

definition tames :: "'s step \<Rightarrow> 's step \<Rightarrow> bool" where
  "tames f g \<longleftrightarrow> (\<forall>s s'. f s = (s', None) \<longrightarrow> g s = (s', None))"

named_theorems tame "successful steps are the calm steps"

lemma tamesD: "tames f g \<Longrightarrow> f s = (s', None) \<Longrightarrow> g s = (s', None)"
  by (simp add: tames_def)

lemma tames_refl [tame]: "tames f f"
  by (simp add: tames_def)

lemma tames_andthen [tame]: "tames f f' \<Longrightarrow> tames g g' \<Longrightarrow> tames (andthen f g) (andthen f' g')"
  by (auto simp: tames_def)

lemma tames_each [tame]: "(\<And>x. tames (f x) (g x)) \<Longrightarrow> tames (each f xs) (each g xs)"
  unfolding tames_def
proof (intro allI)
  fix s s'
  assume f: "\<And>x. \<forall>s s'. f x s = (s', None) \<longrightarrow> g x s = (s', None)"
  show "each f xs s = (s', None) \<longrightarrow> each g xs s = (s', None)"
    using f by (induction xs arbitrary: s) (auto simp: each_Cons_None simp del: each.simps(2))
qed

lemma tames_stmt [tame]: "tames f g \<Longrightarrow> tames (stmt io f) (stmt calm g)"
  by (auto simp: tames_def stmt_def split: option.splits)

lemma tames_meta_stmt [tame]: "tames (meta_stmt io g) (meta_stmt calm g)"
  unfolding meta_stmt_def by (intro tame)

lemma tames_exec_stmt [tame]: "tames (exec_stmt E io sql args one) (exec_stmt E calm sql args one)"
  unfolding exec_stmt_def by (intro tame)

lemma columnTypes_calm: "columnTypes E io pool cfg t w = (w', Inr ty) \<Longrightarrow> columnTypes E calm pool cfg t w = (w', Inr ty)"
  by (auto simp: columnTypes_def Let_def split: option.splits prod.splits if_splits)

lemma tames_applyRow [tame]: "tames (applyRow E io pool cfg r) (applyRow E calm pool cfg r)"
  unfolding tames_def
proof (intro allI impI)
  fix w w'
  assume a: "applyRow E io pool cfg r w = (w', None)"
  then obtain w1 ty columns keys sql args one where s:
    "Allows cfg (r_Schema r) (r_Table r)" "columnTypes E io pool cfg (r_Table r) w = (w1, Inr ty)" "transform cfg r (r_Columns r) = Inr columns"
    "transform cfg r (if r_Operation r = ''update'' \<and> r_OldKey r \<noteq> [] then r_OldKey r else r_Key r) = Inr keys"
    "row_statement (target_name cfg (r_Table r)) ty (r_Operation r) columns keys = Inr (sql, args, one)" "exec_stmt E io sql args one w1 = (w', None)"
    unfolding applyRow_def by (simp split: if_split_asm prod.splits sum.splits)
  from tamesD [OF tames_exec_stmt s(6)] columnTypes_calm [OF s(2)] s(1,3-5)
  show "applyRow E calm pool cfg r w = (w', None)" by (simp add: applyRow_def)
qed

lemma tames_apply_chunk [tame]: "tames (apply_chunk E io pool cfg m item) (apply_chunk E calm pool cfg m item)"
proof -
  have "tames (andthen (each (applyRow E io pool cfg) (m_Rows (snd item))) (meta_stmt io (delete_inbox (\<lambda>g n. g = m_Generation m \<and> n = fst item))))
    (andthen (each (applyRow E calm pool cfg) (m_Rows (snd item))) (meta_stmt calm (delete_inbox (\<lambda>g n. g = m_Generation m \<and> n = fst item))))"
    by (intro tame)
  then show ?thesis by (auto simp: tames_def apply_chunk_def)
qed

lemma apply_inbox_calm: "apply_inbox E io pool cfg m n w = (w', None) \<Longrightarrow> apply_inbox E calm pool cfg m n w = (w', None)"
proof (induction E io pool cfg m n w rule: apply_inbox.induct)
  case (1 E io pool cfg m n w)
  let ?page = "inbox_page (m_Generation m) n (wk_Meta w)"
  from 1(2) obtain batch w1 where b: "si_fail io (wk_Clock w) = None" "decode_chunks (unmarshal E) ?page = Inr batch"
    "each (apply_chunk E io pool cfg m) batch (ticked w) = (w1, None)"
    "(if length batch < applyPageSize then (w1, None) else apply_inbox E io pool cfg m (int (ib_Seq (last ?page))) w1) = (w', None)"
    by (subst (asm) apply_inbox.simps) (auto split: option.splits sum.splits prod.splits)
  have "tames (each (apply_chunk E io pool cfg m) batch) (each (apply_chunk E calm pool cfg m) batch)" by (intro tame)
  from tamesD [OF this b(3)] have c: "each (apply_chunk E calm pool cfg m) batch (ticked w) = (w1, None)" .
  show ?case
  proof (cases "length batch < applyPageSize")
    case True
    with b c show ?thesis by (subst apply_inbox.simps) simp
  next
    case False
    with 1(1) [OF b(1,2) b(3) [symmetric] refl False] b c show ?thesis by (subst apply_inbox.simps) simp
  qed
qed

lemma apply_snapshot_calm: "apply_snapshot E io pool cfg g pos w = (w', None) \<Longrightarrow> apply_snapshot E calm pool cfg g pos w = (w', None)"
proof (induction E io pool cfg g pos w rule: apply_snapshot.induct)
  case (1 E io pool cfg g pos w)
  let ?page = "rows_page g pos (wk_Meta w)"
  from 1(2) obtain batch w1 where b: "si_fail io (wk_Clock w) = None" "decode_rows (unmarshal_row E) ?page = Inr batch"
    "each (applyRow E io pool cfg) (map as_insert batch) (ticked w) = (w1, None)"
    "(if length batch < applyPageSize then (w1, None) else apply_snapshot E io pool cfg g (row_position (last ?page)) w1) = (w', None)"
    by (subst (asm) apply_snapshot.simps) (auto split: option.splits sum.splits prod.splits)
  have "tames (each (applyRow E io pool cfg) (map as_insert batch)) (each (applyRow E calm pool cfg) (map as_insert batch))" by (intro tame)
  from tamesD [OF this b(3)] have c: "each (applyRow E calm pool cfg) (map as_insert batch) (ticked w) = (w1, None)" .
  show ?case
  proof (cases "length batch < applyPageSize")
    case True
    with b c show ?thesis by (subst apply_snapshot.simps) simp
  next
    case False
    with 1(1) [OF b(1,2) b(3) [symmetric] refl False] b c show ?thesis by (subst apply_snapshot.simps) simp
  qed
qed

lemma tames_loops [tame]:
  "tames (apply_inbox E io pool cfg m n) (apply_inbox E calm pool cfg m n)"
  "tames (apply_snapshot E io pool cfg g pos) (apply_snapshot E calm pool cfg g pos)"
  by (auto simp: tames_def apply_inbox_calm apply_snapshot_calm)

lemma tames_add_columns [tame]: "tames (add_columns E io cfg s ty cs) (add_columns E calm cfg s ty cs)"
  unfolding tames_def
proof (intro allI impI)
  fix w w'
  assume "add_columns E io cfg s ty cs w = (w', None)"
  then show "add_columns E calm cfg s ty cs w = (w', None)"
  proof (induction E io cfg s ty cs w rule: add_columns.induct)
    case (2 E io cfg s ty c cs w)
    show ?case
    proof (cases "ty (xc_Name c) = None")
      case True
      let ?sql = "\<lambda>tn. ''ALTER TABLE '' @ target_name cfg (xt_Name s) @ '' ADD COLUMN '' @ quote (xc_Name c) @ '' '' @ tn"
      from 2(3) True obtain tn w1 where a: "\<not> (\<not> sy_AutoAddColumns cfg \<or> \<not> column_nullable c \<or> xc_Primary c)" "safeTargetType s c = Inr tn"
        "exec_stmt E io (?sql tn) [] None w = (w1, None)" "add_columns E io cfg s (ty(xc_Name c \<mapsto> tn)) cs w1 = (w', None)"
        by (auto split: if_splits sum.splits prod.splits option.splits)
      have "add_columns E calm cfg s (ty(xc_Name c \<mapsto> tn)) cs w1 = (w', None)"
        using 2(2) [OF _ a(1,2) a(3) [symmetric] refl a(4)] True by (simp add: fun_upd_def)
      with a(1,2) True tamesD [OF tames_exec_stmt a(3)] show ?thesis by simp
    next
      case False
      with 2(1,3) show ?thesis by simp
    qed
  qed simp
qed

lemma tames_schemas [tame]: "tames (applyStagedSchemas E io cfg g v) (applyStagedSchemas E calm cfg g v)"
proof -
  have s: "tames (apply_schema E io cfg s) (apply_schema E calm cfg s)" for s
    unfolding apply_schema_def by (intro tame) (auto simp: tames_def Let_def intro: tamesD [OF tames_add_columns])
  have "tames (andthen (each (apply_schema E io cfg) ss) (meta_stmt io f)) (andthen (each (apply_schema E calm cfg) ss) (meta_stmt calm f))" for ss f
    by (intro tame s)
  then show ?thesis
    unfolding applyStagedSchemas_def by (intro tame) (auto simp only: tames_def split: sum.splits if_splits)
qed

lemma tames_file [tame]: "tames (applyFile E io cfg m f) (applyFile E calm cfg m f)"
proof -
  define body where "body = (\<lambda>io. stmt io (\<lambda>w.
      case assemble (unmarshal E) cfg m f (False, 0, '''')
             (sort_key ib_Seq (filter (\<lambda>r. ib_Generation r = m_Generation m) (mt_Inbox (wk_Meta w)))) of
        Inl e \<Rightarrow> (w, Some e)
      | Inr (seen, expected, content) \<Rightarrow>
          if \<not> seen \<or> expected \<noteq> f_Chunks f \<or> int (length content) \<noteq> f_Size f \<or> hex_EncodeToString (te_digest E content) \<noteq> f_SHA256 f
          then (w, Some (Err ''file size, chunk count or SHA-256 does not match''))
          else andthen (stmt io (check None)) (andthen (stmt io (check None))
            (if \<not> AllowsFileOperation cfg (f_Operation f) then check None else put_file E f content)) w))"
  have inner: "tames (andthen (stmt io (check None)) (andthen (stmt io (check None)) g)) (andthen (stmt calm (check None)) (andthen (stmt calm (check None)) g))" for g
    by (intro tame)
  have b: "tames (body io) (body calm)"
    unfolding body_def
    by (intro tames_stmt) (auto simp only: tames_def prod.case split: sum.splits prod.splits if_splits dest: tamesD [OF inner])
  have "tames (\<lambda>w. case body io w of (w', e) \<Rightarrow> (case si_fail io (wk_Clock w') of None \<Rightarrow> (ticked w', e) | Some e' \<Rightarrow> (ticked w', joined e (Some e'))))
     (\<lambda>w. case body calm w of (w', e) \<Rightarrow> (case si_fail calm (wk_Clock w') of None \<Rightarrow> (ticked w', e) | Some e' \<Rightarrow> (ticked w', joined e (Some e'))))"
    using b by (auto simp: tames_def joined_def split: prod.splits option.splits)
  then have "tames (andthen (stmt io (check None)) (\<lambda>w. case body io w of (w', e) \<Rightarrow> (case si_fail io (wk_Clock w') of None \<Rightarrow> (ticked w', e) | Some e' \<Rightarrow> (ticked w', joined e (Some e')))))
     (andthen (stmt calm (check None)) (\<lambda>w. case body calm w of (w', e) \<Rightarrow> (case si_fail calm (wk_Clock w') of None \<Rightarrow> (ticked w', e) | Some e' \<Rightarrow> (ticked w', joined e (Some e')))))"
    by (intro tames_andthen tames_stmt tames_refl)
  then show ?thesis unfolding tames_def applyFile_def body_def by (auto split: if_splits)
qed

lemma tames_add_scope [tame]: "tames (add_scope io cfg r) (add_scope calm cfg r)"
  using tamesD [OF tames_meta_stmt] by (auto simp: tames_def add_scope_def)

lemma tames_stageSchema [tame]: "tames (stageSchema E io cfg m) (stageSchema E calm cfg m)"
  using tamesD [OF tames_meta_stmt] by (fastforce simp: tames_def stageSchema_def split: sum.splits)

lemma tames_snapshot_end [tame]: "tames (snapshot_end E io pool cfg m) (snapshot_end E calm pool cfg m)"
proof -
  have c: "tames (clear_table E io cfg r) (clear_table E calm cfg r)" for r unfolding clear_table_def by (intro tame)
  have i: "tames (andthen (each (clear_table E io cfg) rs) (andthen (apply_snapshot E io pool cfg g p) (andthen (meta_stmt io a) (meta_stmt io b))))
     (andthen (each (clear_table E calm cfg) rs) (andthen (apply_snapshot E calm pool cfg g p) (andthen (meta_stmt calm a) (meta_stmt calm b))))"
    for rs g p a b by (intro tame c)
  have "tames (\<lambda>w. andthen (each (clear_table E io cfg) (rs w)) (andthen (apply_snapshot E io pool cfg g p) (andthen (meta_stmt io a) (meta_stmt io b))) w)
     (\<lambda>w. andthen (each (clear_table E calm cfg) (rs w)) (andthen (apply_snapshot E calm pool cfg g p) (andthen (meta_stmt calm a) (meta_stmt calm b))) w)"
    for rs g p a b unfolding tames_def by (blast intro: tamesD [OF i])
  then show ?thesis unfolding snapshot_end_def by (intro tames_andthen tames_stmt) (auto intro: tame)
qed

lemma tames_cases:
  "tames f f' \<Longrightarrow> tames g g' \<Longrightarrow> tames (\<lambda>w. if b w then f w else g w) (\<lambda>w. if b w then f' w else g' w)"
  "tames f f' \<Longrightarrow> (\<And>x. tames (h x) (h' x)) \<Longrightarrow>
     tames (\<lambda>w. case o1 w of None \<Rightarrow> f w | Some x \<Rightarrow> h x w) (\<lambda>w. case o1 w of None \<Rightarrow> f' w | Some x \<Rightarrow> h' x w)"
  "(\<And>x. tames (k x) (k' x)) \<Longrightarrow> (\<And>x. tames (l x) (l' x)) \<Longrightarrow>
     tames (\<lambda>w. case s1 w of Inl x \<Rightarrow> k x w | Inr x \<Rightarrow> l x w) (\<lambda>w. case s1 w of Inl x \<Rightarrow> k' x w | Inr x \<Rightarrow> l' x w)"
  "(\<And>x y. tames (q x y) (q' x y)) \<Longrightarrow>
     tames (\<lambda>w. case p w of (x, y) \<Rightarrow> q x y w) (\<lambda>w. case p w of (x, y) \<Rightarrow> q' x y w)"
  by (auto simp: tames_def split: option.splits sum.splits prod.splits)

lemma tames_applyMessage [tame]: "tames (applyMessage E io pool cfg m raw phase) (applyMessage E calm pool cfg m raw phase)"
  unfolding applyMessage_def [abs_def] by (intro tames_cases tame)

lemma tames_store_body [tame]: "tames (store_body E io pool cfg m raw) (store_body E calm pool cfg m raw)"
proof -
  have n: "tames (store_new E io pool cfg m raw y) (store_new E calm pool cfg m raw y)" for y
    unfolding store_new_def [abs_def] by (intro tames_cases tame)
  have d: "tames (store_duplicate E io m raw) (store_duplicate E calm m raw)"
    unfolding store_duplicate_def by (intro tame)
  have c: "tames (clear_generation io) (clear_generation calm)" unfolding clear_generation_def by (intro tame)
  show ?thesis unfolding store_body_def by (intro tames_stmt tames_cases tames_andthen tames_refl n d c)
qed

lemma target_store_cases:
  assumes "target_store E io m raw t = (t', r)"
  obtains (refused) "m_Seq m \<ge> bigint_limit" "t' = t" "r \<noteq> None"
    | (failed) w e where "m_Seq m < bigint_limit"
        "andthen (stmt io (check None)) (store_body E io (tg_Db t) (tg_Cfg t) m raw) (work_of t) = (w, Some e)" "t' = rolled_back t w" "r = Some e"
    | (uncommitted) w e where "m_Seq m < bigint_limit"
        "andthen (stmt io (check None)) (store_body E io (tg_Db t) (tg_Cfg t) m raw) (work_of t) = (w, None)"
        "si_fail io (wk_Clock w) = Some e" "t' = (if si_lost io then committed t w else rolled_back t w)" "r = Some e"
    | (stored) w where "m_Seq m < bigint_limit"
        "andthen (stmt io (check None)) (store_body E io (tg_Db t) (tg_Cfg t) m raw) (work_of t) = (w, None)"
        "si_fail io (wk_Clock w) = None" "r = None"
        "t' = (if \<not> is_duplicate t m \<and> (m_Kind m = ''snapshot_end'' \<or> m_Kind m = ''schema_end'') then invalidateTypes (committed t w) else committed t w)"
proof (cases "m_Seq m < bigint_limit")
  case False
  then show ?thesis using assms by (intro refused) (auto simp: target_store_def)
next
  case True
  let ?run = "andthen (stmt io (check None)) (store_body E io (tg_Db t) (tg_Cfg t) m raw) (work_of t)"
  obtain w e0 where run: "?run = (w, e0)" by (cases ?run) simp
  note d = assms [unfolded target_store_def run prod.case] and lt = True [unfolded not_le [symmetric]]
  show ?thesis
  proof (cases e0)
    case (Some e)
    with d lt run True show ?thesis by (intro failed [of w e]) simp_all
  next
    case None
    note ok = None
    show ?thesis
    proof (cases "si_fail io (wk_Clock w)")
      case (Some e)
      with d lt run True ok show ?thesis by (intro uncommitted [of w e]) simp_all
    next
      case None
      with d lt run True ok show ?thesis by (intro stored [of w]) simp_all
    qed
  qed
qed

lemma outcome_simps [simp]:
  "tg_Meta (rolled_back t w) = tg_Meta t" "tg_Db (rolled_back t w) = tg_Db t" "tg_Cfg (rolled_back t w) = tg_Cfg t"
  "tg_Meta (committed t w) = wk_Meta w" "tg_Db (committed t w) = wk_Db w" "tg_Cfg (committed t w) = tg_Cfg t"
  "tg_Meta (invalidateTypes t) = tg_Meta t" "tg_Db (invalidateTypes t) = tg_Db t" "tg_Cfg (invalidateTypes t) = tg_Cfg t"
  "tg_Types (committed t w) = wk_Types w" "tg_Types (rolled_back t w) = wk_Types w" "tg_Types (invalidateTypes t) = Map.empty"
  "tg_Files (committed t w) = wk_Files w" "tg_Files (rolled_back t w) = wk_Files w" "tg_Files (invalidateTypes t) = tg_Files t"
  "wk_Meta (work_of t) = tg_Meta t" "wk_Db (work_of t) = tg_Db t" "wk_Types (work_of t) = tg_Types t" "wk_Files (work_of t) = tg_Files t"
  by (simp_all add: rolled_back_def committed_def invalidateTypes_def work_of_def)

lemma target_store_calm:
  assumes "andthen (stmt io (check None)) (store_body E io (tg_Db t) (tg_Cfg t) m raw) (work_of t) = (w, None)" "m_Seq m < bigint_limit"
  shows "\<exists>tc. target_store E calm m raw t = (tc, None) \<and> tg_Meta tc = wk_Meta w \<and> tg_Db tc = wk_Db w"
proof -
  have "tames (andthen (stmt io (check None)) (store_body E io (tg_Db t) (tg_Cfg t) m raw))
     (andthen (stmt calm (check None)) (store_body E calm (tg_Db t) (tg_Cfg t) m raw))" by (intro tame)
  note r = tamesD [OF this assms(1)]
  show ?thesis unfolding target_store_def r using assms(2) by simp
qed

section \<open>Properties\<close>

text \<open>C14. Storing a message is all or nothing.  Whatever statement, file operation or commit fails, the
  metadata and the tables are either as before, and an error is returned, or exactly those that a run
  without any failure produces; the second is the case whenever no error is returned.\<close>

theorem store_all_or_nothing:
  assumes "target_store E io m raw t = (t', r)"
  shows "(tg_Meta t' = tg_Meta t \<and> tg_Db t' = tg_Db t \<and> r \<noteq> None) \<or>
    (\<exists>tc. target_store E calm m raw t = (tc, None) \<and> tg_Meta t' = tg_Meta tc \<and> tg_Db t' = tg_Db tc)"
  using assms
proof (cases rule: target_store_cases)
  case (uncommitted w e)
  then show ?thesis using target_store_calm [OF uncommitted(2,1)] by (cases "si_lost io") auto
next
  case (stored w)
  then show ?thesis using target_store_calm [OF stored(2,1)] by auto
qed auto

lemma sample_lost_commit:
  "\<exists>t'. target_store sample_tenv (failing_at 5\<lparr>si_lost := True\<rparr>) chunk_msg chunk_msg streaming = (t', Some ErrCanceled) \<and>
     tg_Meta t' \<noteq> tg_Meta streaming"
  using small_seq [of 4]
  by (simp add: target_store_def target_eval_simps sample_target_defs chunk_msg_def streaming_def has_prefix_def insert_inbox_def insert_hash_def inbox_entry_def)

theorem store_all_or_nothing_witness:
  "\<exists>t' tc. target_store sample_tenv (failing_at 5\<lparr>si_lost := True\<rparr>) chunk_msg chunk_msg streaming = (t', Some ErrCanceled) \<and>
     target_store sample_tenv calm chunk_msg chunk_msg streaming = (tc, None) \<and> tg_Meta t' = tg_Meta tc"
  using sample_lost_commit store_all_or_nothing [of sample_tenv "failing_at 5\<lparr>si_lost := True\<rparr>" chunk_msg chunk_msg streaming] by fastforce

end
