(* ===== verification/Target_Spec.thy ===== *)
theory Target_Spec
  imports Target_Faults
begin

text \<open>
  What the target promises, without statements, metadata tables, pages, caches and failures: the view of a
  target holds the data, the messages of the open transaction, the staged snapshot and the staged schemas,
  and every message has an effect on it.  Storing a message refines that effect, errors included.
\<close>

section \<open>Effects on the data\<close>

definition table_types :: "('v, 'd, 'f, 'z) tenv_scheme \<Rightarrow> Syncer \<Rightarrow> 'd \<Rightarrow> string \<Rightarrow> types res" where
  "table_types E cfg pool table =
     (let cols = te_columns E pool (pg_TargetSchema (sy_Postgres cfg)) table in
      if cols = [] then Inl (Err ''target table does not exist'') else Inr (map_of (rev cols)))"

definition exec_effect :: "('v, 'd, 'f, 'z) tenv_scheme \<Rightarrow> string \<Rightarrow> arg list \<Rightarrow> string option \<Rightarrow> 'd \<Rightarrow> 'd res" where
  "exec_effect E sql args one d =
     (case te_exec E d sql args of
        Inl e \<Rightarrow> Inl e
      | Inr (d', n) \<Rightarrow> (case one of None \<Rightarrow> Inr d' | Some text \<Rightarrow> if n \<noteq> 1 then Inl (Err text) else Inr d'))"

definition row_effect :: "('v, 'd, 'f, 'z) tenv_scheme \<Rightarrow> Syncer \<Rightarrow> 'd \<Rightarrow> 'd \<Rightarrow> Row \<Rightarrow> 'd res" where
  "row_effect E cfg pool d row =
     (if \<not> Allows cfg (r_Schema row) (r_Table row) then Inl (Err ''row references unconfigured table'')
      else case table_types E cfg pool (r_Table row) of
        Inl e \<Rightarrow> Inl e
      | Inr ty \<Rightarrow>
          (case transform cfg row (r_Columns row) of
             Inl e \<Rightarrow> Inl e
           | Inr columns \<Rightarrow>
               (case transform cfg row (if r_Operation row = ''update'' \<and> r_OldKey row \<noteq> [] then r_OldKey row else r_Key row) of
                  Inl e \<Rightarrow> Inl e
                | Inr keys \<Rightarrow>
                    (case row_statement (target_name cfg (r_Table row)) ty (r_Operation row) columns keys of
                       Inl e \<Rightarrow> Inl e
                     | Inr (sql, args, one) \<Rightarrow> exec_effect E sql args one d))))"

fun columns_effect ::
  "('v, 'd, 'f, 'z) tenv_scheme \<Rightarrow> Syncer \<Rightarrow> sourceSchemaTable \<Rightarrow> types \<Rightarrow> sourceSchemaColumn list \<Rightarrow> 'd \<Rightarrow> 'd res" where
  "columns_effect E cfg s ty [] d = Inr d"
| "columns_effect E cfg s ty (c # cs) d =
     (if ty (xc_Name c) \<noteq> None then columns_effect E cfg s ty cs d
      else if \<not> sy_AutoAddColumns cfg \<or> \<not> column_nullable c \<or> xc_Primary c
      then Inl (Err ''target column is missing and cannot be added safely'')
      else (case safeTargetType s c of
          Inl e \<Rightarrow> Inl (Wrap ''target column'' e)
        | Inr typeName \<Rightarrow>
            (case exec_effect E (''ALTER TABLE '' @ target_name cfg (xt_Name s) @ '' ADD COLUMN '' @ quote (xc_Name c) @ '' '' @ typeName) [] None d of
               Inl e \<Rightarrow> Inl e
             | Inr d' \<Rightarrow> columns_effect E cfg s (ty(xc_Name c \<mapsto> typeName)) cs d')))"

definition schema_effect :: "('v, 'd, 'f, 'z) tenv_scheme \<Rightarrow> Syncer \<Rightarrow> 'd \<Rightarrow> sourceSchemaTable \<Rightarrow> 'd res" where
  "schema_effect E cfg d s =
     (case table_types E cfg d (xt_Name s) of Inl e \<Rightarrow> Inl e | Inr ty \<Rightarrow> columns_effect E cfg s ty (xt_Columns s) d)"

definition schemas_effect :: "('v, 'd, 'f, 'z) tenv_scheme \<Rightarrow> Syncer \<Rightarrow> sourceSchemaTable list \<Rightarrow> 'd \<Rightarrow> 'd res" where
  "schemas_effect E cfg schemas d =
     (if length schemas \<noteq> length (sy_Tables cfg) then Inl (Err ''schema refresh has the wrong number of tables'')
      else foldM (schema_effect E cfg) d (sort_key (\<lambda>s. te_rank E (xt_Schema s, xt_Name s)) schemas))"

definition clear_effect :: "('v, 'd, 'f, 'z) tenv_scheme \<Rightarrow> Syncer \<Rightarrow> 'd \<Rightarrow> string \<times> string \<Rightarrow> 'd res" where
  "clear_effect E cfg d table = exec_effect E (''DELETE FROM '' @ target_name cfg (snd table)) [] None d"

section \<open>The view of a target\<close>

record 'd view =
  v_State :: SyncState
  v_Db :: 'd
  v_Held :: "Message list"
  v_Rows :: "Row list"
  v_Scope :: "(string \<times> string) list"
  v_Schemas :: "sourceSchemaTable list"

definition scope_effect :: "Syncer \<Rightarrow> (string \<times> string) list \<Rightarrow> TableRef \<Rightarrow> (string \<times> string) list res" where
  "scope_effect cfg scope t =
     (if \<not> Allows cfg (tr_Schema t) (tr_Name t) then Inl (Err ''snapshot contains unconfigured table'')
      else if (tr_Schema t, tr_Name t) \<in> set scope then Inl unique_violation
      else Inr (scope @ [(tr_Schema t, tr_Name t)]))"

definition stage_effect :: "('v, 'd, 'f, 'z) tenv_scheme \<Rightarrow> Syncer \<Rightarrow> Message \<Rightarrow> sourceSchemaTable list \<Rightarrow> sourceSchemaTable list res" where
  "stage_effect E cfg m schemas =
     (case te_schema E (m_Schema m) of
        Inl e \<Rightarrow> Inl (Err ''invalid schema payload'')
      | Inr s \<Rightarrow>
          if xt_Schema s = '''' \<or> xt_Name s = '''' \<or> \<not> Allows cfg (xt_Schema s) (xt_Name s) then Inl (Err ''schema references unconfigured table'')
          else if xt_Columns s = [] then Inl (Err ''schema has no columns'')
          else if (xt_Schema s, xt_Name s) \<in> set (map (\<lambda>s. (xt_Schema s, xt_Name s)) schemas) then Inl unique_violation
          else Inr (schemas @ [s]))"

definition snapshot_effect :: "('v, 'd, 'f, 'z) tenv_scheme \<Rightarrow> Syncer \<Rightarrow> Message \<Rightarrow> 'd view \<Rightarrow> 'd res" where
  "snapshot_effect E cfg m v =
     (case (if m_SchemaVersion m \<noteq> '''' then schemas_effect E cfg (v_Schemas v) (v_Db v) else Inr (v_Db v)) of
        Inl e \<Rightarrow> Inl e
      | Inr d1 \<Rightarrow> (case foldM (clear_effect E cfg) d1 (rev (v_Scope v)) of
          Inl e \<Rightarrow> Inl e
        | Inr d2 \<Rightarrow> foldM (row_effect E cfg (v_Db v)) d2 (map as_insert (v_Rows v))))"

definition transaction_effect :: "('v, 'd, 'f, 'z) tenv_scheme \<Rightarrow> Syncer \<Rightarrow> 'd view \<Rightarrow> 'd res" where
  "transaction_effect E cfg v = foldM (row_effect E cfg (v_Db v)) (v_Db v) (concat (map m_Rows (v_Held v)))"

text \<open>The content of a finished file.\<close>

definition file_content :: "('v, 'd, 'f, 'z) tenv_scheme \<Rightarrow> Syncer \<Rightarrow> Message \<Rightarrow> FileChange \<Rightarrow> Message list \<Rightarrow> string option" where
  "file_content E cfg m f held =
     (case foldM (assemble_chunk cfg m f) (False, 0, '''') held of
        Inl e \<Rightarrow> None
      | Inr (seen, n, content) \<Rightarrow>
          if seen \<and> n = f_Chunks f \<and> int (length content) = f_Size f \<and> hex_EncodeToString (te_digest E content) = f_SHA256 f
          then Some content else None)"

definition message_effect ::
  "('v, 'd, 'f, 'z) tenv_scheme \<Rightarrow> Syncer \<Rightarrow> bool \<Rightarrow> Message \<Rightarrow> string \<Rightarrow> 'd view \<Rightarrow> 'd view res" where
  "message_effect E cfg has_files m phase v =
     (if m_Kind m = ''snapshot_begin'' then
        (case foldM (scope_effect cfg) [] (m_Tables m) of Inl e \<Rightarrow> Inl e | Inr scope \<Rightarrow> Inr (v\<lparr>v_Rows := [], v_Scope := scope\<rparr>))
      else if m_Kind m = ''schema'' then
        (if phase \<noteq> ''snapshot'' \<and> phase \<noteq> ''stream'' then Inl (Err ''schema received outside a synchronization phase'')
         else if m_SchemaVersion m = '''' then Inr v
         else (case stage_effect E cfg m (v_Schemas v) of Inl e \<Rightarrow> Inl e | Inr ss \<Rightarrow> Inr (v\<lparr>v_Schemas := ss\<rparr>)))
      else if m_Kind m = ''snapshot_rows'' then
        (if phase \<noteq> ''snapshot'' then Inl (Err ''snapshot rows received outside snapshot'') else Inr (v\<lparr>v_Rows := v_Rows v @ m_Rows m\<rparr>))
      else if m_Kind m = ''snapshot_end'' then
        (if phase \<noteq> ''snapshot'' then Inl (Err ''snapshot_end received outside snapshot'')
         else (case snapshot_effect E cfg m v of Inl e \<Rightarrow> Inl e | Inr d \<Rightarrow> Inr (v\<lparr>v_Db := d, v_Rows := [], v_Scope := [], v_Schemas := []\<rparr>)))
      else if m_Kind m = ''schema_end'' then
        (if phase \<noteq> ''stream'' then Inl (Err ''schema_end received outside stream'')
         else (case schemas_effect E cfg (v_Schemas v) (v_Db v) of Inl e \<Rightarrow> Inl e | Inr d \<Rightarrow> Inr (v\<lparr>v_Db := d, v_Schemas := []\<rparr>)))
      else if m_Kind m = ''transaction_rows'' then
        (if phase \<noteq> ''stream'' then Inl (Err ''transaction rows received before snapshot publication'') else Inr (v\<lparr>v_Held := v_Held v @ [m]\<rparr>))
      else if m_Kind m = ''transaction_end'' then
        (if phase \<noteq> ''stream'' then Inl (Err ''transaction end received before snapshot publication'')
         else (case transaction_effect E cfg v of Inl e \<Rightarrow> Inl e | Inr d \<Rightarrow> Inr (v\<lparr>v_Db := d, v_Held := []\<rparr>)))
      else if m_Kind m = ''file_begin'' \<or> m_Kind m = ''file_chunk'' then
        (if phase \<noteq> ''stream'' \<or> \<not> has_files then Inl (Err ''file event received before snapshot or without file storage'')
         else Inr (v\<lparr>v_Held := v_Held v @ [m]\<rparr>))
      else if m_Kind m = ''file_end'' then
        (case m_File m of
           None \<Rightarrow> Inl (Err ''file_end received before snapshot or without file storage'')
         | Some f \<Rightarrow>
             if phase \<noteq> ''stream'' \<or> \<not> has_files then Inl (Err ''file_end received before snapshot or without file storage'')
             else (case file_content E cfg m f (v_Held v) of
                 None \<Rightarrow> Inl (Err ''file size, chunk count or SHA-256 does not match'')
               | Some content \<Rightarrow> Inr (v\<lparr>v_Held := []\<rparr>)))
      else if m_Kind m = ''file_delete'' then
        (if phase \<noteq> ''stream'' \<or> \<not> has_files then Inl (Err ''invalid file_delete event'') else Inr v)
      else Inl (Err (''unsupported message kind '' @ m_Kind m)))"

definition spec_new :: "('v, 'd, 'f, 'z) tenv_scheme \<Rightarrow> Syncer \<Rightarrow> bool \<Rightarrow> Message \<Rightarrow> 'd view \<Rightarrow> 'd view res" where
  "spec_new E cfg has_files m v =
     (if m_Seq m \<noteq> Suc (y_Received (v_State v)) then Inl (Err ''non-contiguous message'')
      else (case store_checks cfg has_files m (v_State v) of
          Inl e \<Rightarrow> Inl e
        | Inr y \<Rightarrow> (case message_effect E cfg has_files m (y_Phase y) v of Inl e \<Rightarrow> Inl e | Inr v' \<Rightarrow> Inr (v'\<lparr>v_State := advance m y\<rparr>))))"

definition spec_store :: "('v, 'd, 'f, 'z) tenv_scheme \<Rightarrow> Syncer \<Rightarrow> bool \<Rightarrow> Message \<Rightarrow> 'd view \<Rightarrow> 'd view res" where
  "spec_store E cfg has_files m v =
     (if m_Seq m \<ge> bigint_limit then Inl (Err ''message sequence exceeds PostgreSQL bigint'')
      else if m_Generation m = y_Generation (v_State v) then spec_new E cfg has_files m v
      else if m_Seq m \<noteq> 1 \<or> m_Kind m \<noteq> ''snapshot_begin'' then Inl (Err ''new generation must begin with snapshot_begin sequence 1'')
      else spec_new E cfg has_files m
        (v\<lparr>v_State := fresh_state m (v_State v), v_Held := [], v_Rows := [], v_Scope := [], v_Schemas := []\<rparr>))"

text \<open>The view that the metadata and the tables represent.\<close>

definition view_at :: "('v, 'd, 'f, 'z) tenv_scheme \<Rightarrow> SyncState \<Rightarrow> 'v meta \<Rightarrow> 'd \<Rightarrow> 'd view" where
  "view_at E y M d =
     \<lparr>v_State = y, v_Db = d, v_Held = map (\<lambda>r. projr (unmarshal E (ib_Payload r))) (mt_Inbox M),
      v_Rows = map (\<lambda>r. projr (unmarshal_row E (sr_Payload r))) (mt_Rows M),
      v_Scope = map (\<lambda>r. (sp_Schema r, sp_Name r)) (mt_Scope M),
      v_Schemas = map (\<lambda>r. projr (te_schema E (sg_Payload r))) (mt_Stage M)\<rparr>"

definition view_of :: "('v, 'd, 'f, 'z) tenv_scheme \<Rightarrow> ('v, 'd, 'f) target \<Rightarrow> 'd view" where
  "view_of E t = view_at E (the (mt_State (tg_Meta t))) (tg_Meta t) (tg_Db t)"

text \<open>The invariant of the metadata: the rows of every table are in order and belong to the generation, the
  open transaction, the phase and the schema version of the progress.\<close>

definition inbox_ok :: "('v, 'd, 'f, 'z) tenv_scheme \<Rightarrow> SyncState \<Rightarrow> 'v inbox_row list \<Rightarrow> bool" where
  "inbox_ok E y rs \<longleftrightarrow> sorted_wrt (<) (map ib_Seq rs) \<and>
     (\<forall>r\<in>set rs. ib_Generation r = y_Generation y \<and> ib_Seq r \<le> y_Received y \<and> y_Open y \<noteq> '''' \<and>
        (\<exists>m. unmarshal E (ib_Payload r) = Inr m \<and> m_Transaction m = y_Open y))"

definition rows_ok :: "('v, 'd, 'f, 'z) tenv_scheme \<Rightarrow> SyncState \<Rightarrow> 'v staged_row list \<Rightarrow> bool" where
  "rows_ok E y rs \<longleftrightarrow> sorted_wrt (<) (map (\<lambda>r. (sr_Seq r, sr_Ordinal r)) rs) \<and> (y_Phase y = ''snapshot'' \<or> rs = []) \<and>
     (\<forall>r\<in>set rs. sr_Generation r = y_Generation y \<and> sr_Seq r \<le> y_Received y \<and> (\<exists>x. unmarshal_row E (sr_Payload r) = Inr x))"

definition stage_version :: "SyncState \<Rightarrow> string" where
  "stage_version y = (if y_Phase y = ''stream'' then y_Pending y else y_SchemaVersion y)"

definition stage_ok :: "('v, 'd, 'f, 'z) tenv_scheme \<Rightarrow> SyncState \<Rightarrow> stage_row list \<Rightarrow> bool" where
  "stage_ok E y rs \<longleftrightarrow>
     (\<forall>r\<in>set rs. sg_Generation r = y_Generation y \<and> sg_Version r = stage_version y \<and> sg_Version r \<noteq> '''' \<and>
        (\<exists>s. te_schema E (sg_Payload r) = Inr s \<and> xt_Schema s = sg_Schema r \<and> xt_Name s = sg_Table r))"

definition hash_ok :: "SyncState \<Rightarrow> ((string \<times> nat) \<times> string) list \<Rightarrow> bool" where
  "hash_ok y hs \<longleftrightarrow> fst ` set hs = Pair (y_Generation y) ` {1..y_Received y}"

definition progress_ok :: "SyncState \<Rightarrow> bool" where
  "progress_ok y \<longleftrightarrow> y_Applied y \<le> y_Received y \<and> (y_Pending y \<noteq> '''' \<longrightarrow> y_Phase y = ''stream'' \<and> y_Open y = '''')"

definition tables_ok :: "('v, 'd, 'f, 'z) tenv_scheme \<Rightarrow> SyncState \<Rightarrow> 'v meta \<Rightarrow> bool" where
  "tables_ok E y M \<longleftrightarrow> progress_ok y \<and> inbox_ok E y (mt_Inbox M) \<and> rows_ok E y (mt_Rows M) \<and>
     sorted_wrt (<) (map sp_Ordinal (mt_Scope M)) \<and> stage_ok E y (mt_Stage M)"

definition meta_inv :: "('v, 'd, 'f, 'z) tenv_scheme \<Rightarrow> 'v meta \<Rightarrow> bool" where
  "meta_inv E M \<longleftrightarrow> (\<exists>y. mt_State M = Some y \<and> tables_ok E y M \<and> hash_ok y (mt_Hash M))"

definition cache_ok :: "('v, 'd, 'f, 'z) tenv_scheme \<Rightarrow> Syncer \<Rightarrow> 'd \<Rightarrow> (string \<rightharpoonup> types) \<Rightarrow> bool" where
  "cache_ok E cfg pool cache \<longleftrightarrow> (\<forall>table ty. cache table = Some ty \<longrightarrow> table_types E cfg pool table = Inr ty)"

section \<open>Steps and effects\<close>

text \<open>\<open>agrees r Q x\<close>: the outcome of a step is the result of an effect, and a good end satisfies \<open>Q\<close>.\<close>

definition agrees :: "'d res \<Rightarrow> (('v, 'd, 'f) work \<Rightarrow> bool) \<Rightarrow> ('v, 'd, 'f) work \<times> err option \<Rightarrow> bool" where
  "agrees r Q x \<longleftrightarrow> (case r of Inl e \<Rightarrow> snd x = Some e | Inr d \<Rightarrow> snd x = None \<and> wk_Db (fst x) = d \<and> Q (fst x))"

lemma agrees_simps [simp]:
  "agrees (Inl e) Q x \<longleftrightarrow> snd x = Some e" "agrees (Inr d) Q x \<longleftrightarrow> snd x = None \<and> wk_Db (fst x) = d \<and> Q (fst x)"
  by (simp_all add: agrees_def)

lemma agrees_andthen:
  assumes "agrees r Q (f w)" "\<And>w'. Q w' \<Longrightarrow> agrees (g (wk_Db w')) R (h w')"
  shows "agrees (case r of Inl e \<Rightarrow> Inl e | Inr d \<Rightarrow> g d) R (andthen f h w)"
  using assms(1) assms(2) [of "fst (f w)"] by (cases "f w"; cases r) (auto simp: andthen_def)

lemma agrees_each:
  assumes "Q w" "\<And>x w. x \<in> set xs \<Longrightarrow> Q w \<Longrightarrow> agrees (g (wk_Db w) x) Q (f x w)"
  shows "agrees (foldM g (wk_Db w) xs) Q (each f xs w)"
  using assms
proof (induction xs arbitrary: w)
  case (Cons x xs)
  obtain w' e where f: "f x w = (w', e)" by (cases "f x w")
  have "agrees (g (wk_Db w) x) Q (w', e)" using Cons.prems(2) [of x w] Cons.prems(1) f by simp
  then show ?case using Cons.IH [of w'] Cons.prems(2) f by (cases e) (auto simp: agrees_def split: sum.splits)
qed (simp add: agrees_def)

lemma agrees_mono: "agrees r Q x \<Longrightarrow> (\<And>w. Q w \<Longrightarrow> R w) \<Longrightarrow> agrees r R x"
  by (auto simp: agrees_def split: sum.splits)

lemma stmt_calm [simp]: "stmt calm act w = act (ticked w)"
  by (simp add: stmt_def)

text \<open>What the steps on the data keep.\<close>

definition steady :: "('v, 'd, 'f, 'z) tenv_scheme \<Rightarrow> Syncer \<Rightarrow> 'd \<Rightarrow> 'v meta \<Rightarrow> 'f option \<Rightarrow> ('v, 'd, 'f) work \<Rightarrow> bool" where
  "steady E cfg pool M F w \<longleftrightarrow> wk_Meta w = M \<and> wk_Files w = F \<and> cache_ok E cfg pool (wk_Types w)"

lemma steady_ticked [simp]: "steady E cfg pool M F (ticked w) = steady E cfg pool M F w"
  by (simp add: steady_def)

lemma exec_stmt_agrees:
  assumes "steady E cfg pool M F w"
  shows "agrees (exec_effect E sql args one (wk_Db w)) (steady E cfg pool M F) (exec_stmt E calm sql args one w)"
  using assms by (auto simp: agrees_def exec_effect_def exec_stmt_def steady_def split: sum.splits option.splits)

lemma columnTypes_agrees:
  assumes "steady E cfg pool M F w" "columnTypes E calm pool cfg table w = (w', r)"
  shows "r = table_types E cfg pool table" "wk_Db w' = wk_Db w" "steady E cfg pool M F w'"
  using assms columnTypes_frame [of E calm pool cfg table w]
  by (auto simp: columnTypes_def table_types_def steady_def cache_ok_def Let_def split: option.splits if_splits)

lemma applyRow_agrees:
  assumes "steady E cfg pool M F w"
  shows "agrees (row_effect E cfg pool (wk_Db w) row) (steady E cfg pool M F) (applyRow E calm pool cfg row w)"
proof -
  obtain w' r where c: "columnTypes E calm pool cfg (r_Table row) w = (w', r)" by (cases "columnTypes E calm pool cfg (r_Table row) w")
  note d = columnTypes_agrees [OF assms c]
  have x: "\<And>sql args one. agrees (exec_effect E sql args one (wk_Db w)) (steady E cfg pool M F) (exec_stmt E calm sql args one w')"
    using exec_stmt_agrees [OF d(3)] d(2) by simp
  show ?thesis unfolding applyRow_def row_effect_def c d(1) [symmetric]
    by (cases r) (auto split: sum.splits intro: x)
qed

lemma each_applyRow_agrees:
  assumes "steady E cfg pool M F w"
  shows "agrees (foldM (row_effect E cfg pool) (wk_Db w) rows) (steady E cfg pool M F) (each (applyRow E calm pool cfg) rows w)"
  using assms by (intro agrees_each applyRow_agrees)

lemma add_columns_agrees:
  assumes "steady E cfg pool M F w"
  shows "agrees (columns_effect E cfg s ty cs (wk_Db w)) (steady E cfg pool M F) (add_columns E calm cfg s ty cs w)"
  using assms
proof (induction cs arbitrary: ty w)
  case (Cons c cs)
  show ?case
  proof (cases "ty (xc_Name c) = None \<and> \<not> (\<not> sy_AutoAddColumns cfg \<or> \<not> column_nullable c \<or> xc_Primary c)")
    case True
    note guards = True
    show ?thesis
    proof (cases "safeTargetType s c")
      case (Inr t)
      let ?sql = "''ALTER TABLE '' @ target_name cfg (xt_Name s) @ '' ADD COLUMN '' @ quote (xc_Name c) @ '' '' @ t"
      obtain w' e where x: "exec_stmt E calm ?sql [] None w = (w', e)" by (cases "exec_stmt E calm ?sql [] None w")
      have a: "agrees (exec_effect E ?sql [] None (wk_Db w)) (steady E cfg pool M F) (w', e)"
        using exec_stmt_agrees [OF Cons.prems, of ?sql "[]" None] x by simp
      show ?thesis
      proof (cases "exec_effect E ?sql [] None (wk_Db w)")
        case (Inr d)
        then have d: "e = None" "wk_Db w' = d" "steady E cfg pool M F w'" using a by simp_all
        have "agrees (columns_effect E cfg s (ty(xc_Name c \<mapsto> t)) cs d) (steady E cfg pool M F) (add_columns E calm cfg s (ty(xc_Name c \<mapsto> t)) cs w')"
          using Cons.IH [OF d(3), of "ty(xc_Name c \<mapsto> t)"] unfolding d(2) .
        then show ?thesis using guards \<open>safeTargetType s c = Inr t\<close> x Inr d(1) by simp
      qed (use a guards Inr x in simp)
    qed (use guards in \<open>simp add: agrees_def\<close>)
  next
    case False
    then show ?thesis using Cons.IH [OF Cons.prems, of ty] by auto
  qed
qed (simp add: agrees_def)

lemma apply_schema_agrees:
  assumes "steady E cfg pool M F w"
  shows "agrees (schema_effect E cfg (wk_Db w) s) (steady E cfg pool M F) (apply_schema E calm cfg s w)"
  using assms add_columns_agrees [of E cfg pool M F "ticked w"]
  by (simp add: schema_effect_def apply_schema_def table_types_def Let_def)

lemma clear_table_agrees:
  assumes "steady E cfg pool M F w"
  shows "agrees (clear_effect E cfg (wk_Db w) (sp_Schema r, sp_Name r)) (steady E cfg pool M F) (clear_table E calm cfg r w)"
  using exec_stmt_agrees [OF assms] by (simp add: clear_effect_def clear_table_def)

section \<open>Pages\<close>

lemma filter_after:
  fixes k :: "'a \<Rightarrow> 'b::linorder"
  assumes "sorted_wrt (<) (map k xs)" "0 < n" "n \<le> length xs"
  shows "filter (\<lambda>x. k (last (take n xs)) < k x) xs = drop n xs"
proof -
  let ?a = "take n xs" and ?b = "drop n xs"
  have ab: "sorted_wrt (<) (map k ?a @ map k ?b)" using assms(1) by (simp add: map_append [symmetric] del: map_append)
  have ne: "?a \<noteq> []" using assms(2,3) by auto
  then obtain p where p: "?a = p @ [last ?a]" by (metis append_butlast_last_id)
  have "\<forall>x\<in>set ?a. \<not> k (last ?a) < k x"
  proof -
    have "sorted_wrt (<) (map k (p @ [last ?a]))" using ab p by (metis sorted_wrt_append)
    then have "\<forall>x\<in>set (p @ [last ?a]). \<not> k (last ?a) < k x" by (auto simp: sorted_wrt_append)
    then show ?thesis using p by metis
  qed
  moreover have "\<forall>x\<in>set ?b. k (last ?a) < k x"
    using ab last_in_set [OF ne] by (auto simp: sorted_wrt_append)
  ultimately have "filter (\<lambda>x. k (last ?a) < k x) (?a @ ?b) = ?b" by (subst filter_append) (simp add: filter_empty_conv filter_id_conv)
  then show ?thesis by simp
qed

lemma sort_key_strict: "sorted_wrt (<) (map k xs) \<Longrightarrow> sort_key k xs = xs"
  by (simp add: sort_key_id_if_sorted strict_sorted_imp_sorted)

lemma sorted_wrt_map_filter: "sorted_wrt R (map k xs) \<Longrightarrow> sorted_wrt R (map k (filter P xs))"
  by (induction xs) auto

lemma row_position_less: "row_position a < row_position b \<longleftrightarrow> (sr_Seq a, sr_Ordinal a) < (sr_Seq b, sr_Ordinal b)"
  by (auto simp: row_position_def)

lemma decode_rows_Inr:
  "\<forall>r\<in>set rs. \<exists>x. f (sr_Payload r) = Inr x \<Longrightarrow> decode_rows f rs = Inr (map (\<lambda>r. projr (f (sr_Payload r))) rs)"
  by (induction rs) auto

lemma decode_chunks_Inr:
  "\<forall>r\<in>set rs. \<exists>x. f (ib_Payload r) = Inr x \<Longrightarrow> decode_chunks f rs = Inr (map (\<lambda>r. (ib_Seq r, projr (f (ib_Payload r)))) rs)"
  by (induction rs) auto

lemma applyPageSize_pos: "0 < applyPageSize"
  by (simp add: applyPageSize_def)

lemma foldM_page:
  "foldM f d (map h (take n xs)) = r \<Longrightarrow> foldM f d (map h xs) = (case r of Inl e \<Rightarrow> Inl e | Inr d' \<Rightarrow> foldM f d' (map h (drop n xs)))"
  by (metis append_take_drop_id foldM_append map_append)

abbreviation staged_rows :: "('v, 'd, 'f, 'z) tenv_scheme \<Rightarrow> 'v staged_row list \<Rightarrow> Row list" where
  "staged_rows E rs \<equiv> map (\<lambda>r. projr (unmarshal_row E (sr_Payload r))) rs"

lemma apply_snapshot_agrees:
  assumes "steady E cfg pool M F w" "sorted_wrt (<) (map (\<lambda>r. (sr_Seq r, sr_Ordinal r)) (mt_Rows M))"
    "\<forall>r\<in>set (mt_Rows M). sr_Generation r = g \<and> (\<exists>x. unmarshal_row E (sr_Payload r) = Inr x)"
  shows "agrees (foldM (row_effect E cfg pool) (wk_Db w) (map as_insert (staged_rows E (filter (\<lambda>r. pos < row_position r) (mt_Rows M)))))
    (steady E cfg pool M F) (apply_snapshot E calm pool cfg g pos w)"
  using assms(1)
proof (induction "pending_rows g pos (mt_Rows M)" arbitrary: pos w rule: less_induct)
  case less
  let ?rest = "filter (\<lambda>r. pos < row_position r) (mt_Rows M)" and ?k = "\<lambda>r. (sr_Seq r, sr_Ordinal r)"
  let ?h = "\<lambda>r. as_insert (projr (unmarshal_row E (sr_Payload r)))"
  have M: "wk_Meta w = M" using less.prems by (simp add: steady_def)
  have sorted: "sorted_wrt (<) (map ?k ?rest)" using assms(2) by (rule sorted_wrt_map_filter)
  have "filter (\<lambda>r. sr_Generation r = g \<and> pos < (int (sr_Seq r), int (sr_Ordinal r))) (mt_Rows M) = ?rest"
    using assms(3) by (intro filter_cong) (auto simp: row_position_def)
  then have page: "rows_page g pos M = take applyPageSize ?rest" by (simp add: rows_page_def sort_key_strict [OF sorted])
  have dec: "decode_rows (unmarshal_row E) (rows_page g pos M) = Inr (map (\<lambda>r. projr (unmarshal_row E (sr_Payload r))) (take applyPageSize ?rest))"
    unfolding page using assms(3) by (intro decode_rows_Inr) (auto dest: in_set_takeD)
  obtain w' e where x: "each (applyRow E calm pool cfg) (map ?h (take applyPageSize ?rest)) (ticked w) = (w', e)"
    by (cases "each (applyRow E calm pool cfg) (map ?h (take applyPageSize ?rest)) (ticked w)")
  have a: "agrees (foldM (row_effect E cfg pool) (wk_Db w) (map ?h (take applyPageSize ?rest))) (steady E cfg pool M F) (w', e)"
    using each_applyRow_agrees [of E cfg pool M F "ticked w" "map ?h (take applyPageSize ?rest)"] less.prems x by simp
  show ?case
  proof (cases "foldM (row_effect E cfg pool) (wk_Db w) (map ?h (take applyPageSize ?rest))")
    case (Inl d)
    then have "e = Some d" using a by simp
    then show ?thesis using dec x foldM_page [OF Inl]
      by (subst apply_snapshot.simps) (simp add: M o_def)
  next
    case (Inr d)
    then have d: "e = None" "wk_Db w' = d" "steady E cfg pool M F w'" using a by simp_all
    show ?thesis
    proof (cases "length ?rest < applyPageSize")
      case True
      then show ?thesis using dec x d Inr by (subst apply_snapshot.simps) (simp add: M o_def)
    next
      case False
      let ?pos = "row_position (last (rows_page g pos M))"
      have ne: "rows_page g pos M \<noteq> []" unfolding page using False applyPageSize_pos by auto
      have pos: "pos < ?pos" using last_in_set [OF ne] unfolding page by (auto dest!: in_set_takeD)
      have "filter (\<lambda>r. ?pos < row_position r) (mt_Rows M) = filter (\<lambda>r. ?k (last (take applyPageSize ?rest)) < ?k r) ?rest"
        unfolding filter_filter row_position_less [symmetric] using pos unfolding page by (intro filter_cong) (auto dest: less_trans)
      also have "\<dots> = drop applyPageSize ?rest" using False applyPageSize_pos by (intro filter_after [OF sorted]) auto
      finally have rest: "filter (\<lambda>r. ?pos < row_position r) (mt_Rows M) = drop applyPageSize ?rest" .
      have "agrees (foldM (row_effect E cfg pool) d (map ?h (drop applyPageSize ?rest))) (steady E cfg pool M F) (apply_snapshot E calm pool cfg g ?pos w')"
        using less.hyps [of ?pos w', OF rows_page_progress [OF ne] d(3)] rest d(2) by (simp add: o_def)
      then show ?thesis using dec x d(1) foldM_page [OF Inr] False
        by (subst apply_snapshot.simps) (simp add: M o_def)
    qed
  qed
qed


text \<open>The loop over the inbox applies the rows of all its messages in order and leaves it empty.\<close>

definition inbox_for :: "('v, 'd, 'f, 'z) tenv_scheme \<Rightarrow> string \<Rightarrow> string \<Rightarrow> 'v inbox_row list \<Rightarrow> bool" where
  "inbox_for E g txn rs \<longleftrightarrow> sorted_wrt (<) (map ib_Seq rs) \<and>
     (\<forall>r\<in>set rs. ib_Generation r = g \<and> (\<exists>x. unmarshal E (ib_Payload r) = Inr x \<and> m_Transaction x = txn))"

abbreviation held :: "('v, 'd, 'f, 'z) tenv_scheme \<Rightarrow> 'v inbox_row \<Rightarrow> Message" where
  "held E r \<equiv> projr (unmarshal E (ib_Payload r))"

lemma inbox_for_append: "inbox_for E g txn (xs @ ys) \<Longrightarrow> inbox_for E g txn ys"
  by (auto simp: inbox_for_def sorted_wrt_append)

lemma delete_head:
  assumes "inbox_for E g txn (r # rs)"
  shows "filter (\<lambda>x. \<not> (ib_Generation x = g \<and> ib_Seq x = ib_Seq r)) (r # rs) = rs"
proof -
  have "\<forall>x\<in>set rs. ib_Seq r < ib_Seq x" "ib_Generation r = g" using assms by (auto simp: inbox_for_def)
  moreover from this have "filter (\<lambda>x. \<not> (ib_Generation x = g \<and> ib_Seq x = ib_Seq r)) rs = rs"
    unfolding filter_id_conv by (metis nat_neq_iff)
  ultimately show ?thesis by simp
qed

lemma apply_chunk_agrees:
  assumes "steady E cfg pool (M\<lparr>mt_Inbox := r # rs\<rparr>) F w" "inbox_for E (m_Generation m) (m_Transaction m) (r # rs)"
  shows "agrees (foldM (row_effect E cfg pool) (wk_Db w) (m_Rows (held E r))) (steady E cfg pool (M\<lparr>mt_Inbox := rs\<rparr>) F)
    (apply_chunk E calm pool cfg m (ib_Seq r, held E r) w)"
proof -
  have t: "m_Transaction (held E r) = m_Transaction m" using assms(2) by (auto simp: inbox_for_def)
  have "agrees (case foldM (row_effect E cfg pool) (wk_Db w) (m_Rows (held E r)) of Inl e \<Rightarrow> Inl e | Inr d \<Rightarrow> Inr d) (steady E cfg pool (M\<lparr>mt_Inbox := rs\<rparr>) F)
      (andthen (each (applyRow E calm pool cfg) (m_Rows (held E r)))
        (meta_stmt calm (delete_inbox (\<lambda>g n. g = m_Generation m \<and> n = ib_Seq r))) w)"
    by (rule agrees_andthen [where f = "each (applyRow E calm pool cfg) (m_Rows (held E r))" and w = w, OF each_applyRow_agrees [OF assms(1)]]) (use delete_head [OF assms(2)] in \<open>simp add: meta_stmt_def delete_inbox_def steady_def\<close>)
  then show ?thesis by (simp add: apply_chunk_def t split: sum.splits)
qed

lemma each_chunk_agrees:
  assumes "steady E cfg pool (M\<lparr>mt_Inbox := ps @ rs\<rparr>) F w" "inbox_for E (m_Generation m) (m_Transaction m) (ps @ rs)"
  shows "agrees (foldM (row_effect E cfg pool) (wk_Db w) (concat (map (\<lambda>r. m_Rows (held E r)) ps))) (steady E cfg pool (M\<lparr>mt_Inbox := rs\<rparr>) F)
    (each (apply_chunk E calm pool cfg m) (map (\<lambda>r. (ib_Seq r, held E r)) ps) w)"
  using assms
proof (induction ps arbitrary: w)
  case (Cons p ps)
  let ?f = "apply_chunk E calm pool cfg m (ib_Seq p, held E p)"
  have a: "agrees (foldM (row_effect E cfg pool) (wk_Db w) (m_Rows (held E p))) (steady E cfg pool (M\<lparr>mt_Inbox := ps @ rs\<rparr>) F) (?f w)"
    using Cons.prems apply_chunk_agrees [of E cfg pool p "ps @ rs" M F w m] by simp
  have "inbox_for E (m_Generation m) (m_Transaction m) (ps @ rs)" using Cons.prems(2) inbox_for_append [of E _ _ "[p]" "ps @ rs"] by simp
  note ih = Cons.IH [OF _ this]
  have "agrees (case foldM (row_effect E cfg pool) (wk_Db w) (m_Rows (held E p)) of Inl e \<Rightarrow> Inl e
       | Inr d \<Rightarrow> foldM (row_effect E cfg pool) d (concat (map (\<lambda>r. m_Rows (held E r)) ps))) (steady E cfg pool (M\<lparr>mt_Inbox := rs\<rparr>) F)
      (andthen ?f (each (apply_chunk E calm pool cfg m) (map (\<lambda>r. (ib_Seq r, held E r)) ps)) w)"
    by (rule agrees_andthen, rule a) (rule ih)
  then show ?case by (simp add: foldM_append andthen_def o_def)
qed simp

lemma apply_inbox_agrees:
  assumes "steady E cfg pool (M\<lparr>mt_Inbox := rs\<rparr>) F w" "inbox_for E (m_Generation m) (m_Transaction m) rs"
    "\<forall>r\<in>set rs. n < int (ib_Seq r)"
  shows "agrees (foldM (row_effect E cfg pool) (wk_Db w) (concat (map (\<lambda>r. m_Rows (held E r)) rs))) (steady E cfg pool (M\<lparr>mt_Inbox := []\<rparr>) F)
    (apply_inbox E calm pool cfg m n w)"
  using assms
proof (induction "length rs" arbitrary: rs n w rule: less_induct)
  case less
  let ?p = "take applyPageSize rs" and ?r = "drop applyPageSize rs" and ?rows = "\<lambda>r. m_Rows (held E r)"
  let ?items = "map (\<lambda>r. (ib_Seq r, held E r)) ?p"
  have M: "mt_Inbox (wk_Meta w) = rs" using less.prems(1) by (simp add: steady_def)
  have sorted: "sorted_wrt (<) (map ib_Seq rs)" using less.prems(2) by (simp add: inbox_for_def)
  have page: "inbox_page (m_Generation m) n (wk_Meta w) = ?p"
    using less.prems(2,3) by (simp add: inbox_page_def M filter_id_conv [THEN iffD2] inbox_for_def sort_key_strict [OF sorted])
  have dec: "decode_chunks (unmarshal E) ?p = Inr ?items"
    using less.prems(2) by (intro decode_chunks_Inr) (auto simp: inbox_for_def dest: in_set_takeD)
  obtain w' e where x: "each (apply_chunk E calm pool cfg m) ?items (ticked w) = (w', e)"
    by (cases "each (apply_chunk E calm pool cfg m) ?items (ticked w)")
  have a: "agrees (foldM (row_effect E cfg pool) (wk_Db w) (concat (map ?rows ?p))) (steady E cfg pool (M\<lparr>mt_Inbox := ?r\<rparr>) F) (w', e)"
    using each_chunk_agrees [of E cfg pool ?p ?r M F "ticked w" m] less.prems(1,2) x by simp
  have run: "apply_inbox E calm pool cfg m n w =
      (case e of Some e' \<Rightarrow> (w', Some e')
       | None \<Rightarrow> if length rs < applyPageSize then (w', None) else apply_inbox E calm pool cfg m (int (ib_Seq (last ?p))) w')"
    by (subst apply_inbox.simps) (simp add: page dec x min_def split: option.splits)
  have split: "foldM (row_effect E cfg pool) (wk_Db w) (concat (map ?rows rs)) =
      (case foldM (row_effect E cfg pool) (wk_Db w) (concat (map ?rows ?p)) of Inl e \<Rightarrow> Inl e
       | Inr d \<Rightarrow> foldM (row_effect E cfg pool) d (concat (map ?rows ?r)))"
    by (metis append_take_drop_id concat_append foldM_append map_append)
  show ?case
  proof (cases "foldM (row_effect E cfg pool) (wk_Db w) (concat (map ?rows ?p))")
    case (Inl d)
    then show ?thesis using a run split by simp
  next
    case (Inr d)
    then have d: "e = None" "wk_Db w' = d" "steady E cfg pool (M\<lparr>mt_Inbox := ?r\<rparr>) F w'" using a by simp_all
    show ?thesis
    proof (cases "length rs < applyPageSize")
      case True
      then show ?thesis using d run split Inr by simp
    next
      case False
      have "?r = filter (\<lambda>r. ib_Seq (last ?p) < ib_Seq r) rs"
        using False applyPageSize_pos by (intro filter_after [OF sorted, symmetric]) auto
      then have "set ?r \<subseteq> {r. ib_Seq (last ?p) < ib_Seq r}" by (metis (no_types, lifting) mem_Collect_eq set_filter subsetI)
      then have "\<forall>r\<in>set ?r. int (ib_Seq (last ?p)) < int (ib_Seq r)" by auto
      moreover have "length ?r < length rs" using False applyPageSize_pos by simp
      moreover have "inbox_for E (m_Generation m) (m_Transaction m) ?r" using inbox_for_append [of E _ _ ?p ?r] less.prems(2) by simp
      ultimately show ?thesis using less.hyps [of ?r w', OF _ d(3)] run split Inr d(1,2) False by simp
    qed
  qed
qed

end
