(* ===== verification/Target_Refine.thy ===== *)
theory Target_Refine
  imports Target_Spec
begin

text \<open>
  Storing a message refines its effect on the view of the target and keeps the invariant of the metadata,
  for every kind of message.
\<close>

section \<open>Messages\<close>

text \<open>What the checks establish of the progress under which a message is applied.\<close>

lemma schema_barrier_Inr:
  assumes "schema_barrier m y = Inr y'"
  shows "(m_Kind m = ''schema'' \<and> y_Phase y = ''stream'' \<and> m_SchemaVersion m \<noteq> '''' \<and> y_Pending y \<in> {'''', m_SchemaVersion m} \<and>
       y' = y\<lparr>y_Pending := m_SchemaVersion m\<rparr>) \<or>
     (m_Kind m = ''schema_end'' \<and> y_Phase y = ''stream'' \<and> m_SchemaVersion m \<noteq> '''' \<and> y_Pending y = m_SchemaVersion m \<and> y' = y) \<or>
     (\<not> (m_Kind m = ''schema'' \<and> y_Phase y = ''stream'') \<and> m_Kind m \<noteq> ''schema_end'' \<and> y_Pending y = '''' \<and>
       m_SchemaVersion m = y_SchemaVersion y \<and> y' = y)"
proof (cases "m_Kind m = ''schema'' \<and> y_Phase y = ''stream''")
  case True
  then show ?thesis using assms by (cases y) (auto simp: schema_barrier_def split: if_splits)
next
  case False
  then show ?thesis using assms unfolding schema_barrier_def if_not_P [OF False] by (cases "m_Kind m = ''schema_end''") (auto split: if_splits)
qed

lemma join_open_Inr:
  "join_open m y = Inr y' \<Longrightarrow> y_Open y \<in> {'''', m_Transaction m} \<and> y' = y\<lparr>y_Open := m_Transaction m\<rparr>"
  by (cases y) (auto simp: join_open_def split: if_splits)

definition joins :: "Message \<Rightarrow> bool" where
  "joins m \<longleftrightarrow> m_Kind m = ''transaction_rows'' \<or> m_Kind m = ''file_begin'' \<or> m_Kind m = ''file_chunk''"

lemma open_guard_joins:
  assumes "open_guard m y = Inr y'" "joins m"
  shows "m_Transaction m \<noteq> ''''" "y_Open y \<in> {'''', m_Transaction m}" "y' = y\<lparr>y_Open := m_Transaction m\<rparr>"
  using assms by (auto simp: joins_def open_guard_def split: if_splits dest: join_open_Inr)

lemma open_guard_same: "open_guard m y = Inr y' \<Longrightarrow> \<not> joins m \<Longrightarrow> y' = y"
  unfolding open_guard_def joins_def by (simp split: if_split_asm)

lemma open_guard_open:
  assumes "open_guard m y = Inr y'"
  shows "m_Kind m = ''transaction_end'' \<Longrightarrow> m_Transaction m \<noteq> '''' \<and> y_Open y = m_Transaction m"
    "m_Kind m = ''file_end'' \<Longrightarrow> m_Transaction m \<noteq> '''' \<and> y_Open y = m_Transaction m \<and> m_File m \<noteq> None"
    "m_Kind m = ''file_delete'' \<Longrightarrow> y_Open y = '''' \<and> m_File m \<noteq> None"
    "m_Kind m = ''schema'' \<Longrightarrow> y_Open y = ''''"
  using assms by (auto simp: open_guard_def split: if_splits)

lemma store_checks_Inr:
  assumes "store_checks cfg hf m y0 = Inr y"
  obtains y1 where "schema_barrier m y0 = Inr y1" "open_guard m y1 = Inr y"
    "has_prefix (m_Kind m) ''file_'' \<Longrightarrow> validateFileMessage cfg hf m = None"
  using assms by (auto simp only: store_checks_def split: option.splits sum.splits if_splits)

lemma store_checks_frame:
  assumes "store_checks cfg hf m y0 = Inr y"
  shows "y_Generation y = y_Generation y0" "y_Received y = y_Received y0" "y_Applied y = y_Applied y0" "y_Phase y = y_Phase y0"
    "y_SchemaVersion y = y_SchemaVersion y0" "y_Repair y = y_Repair y0"
proof -
  obtain y1 where y1: "schema_barrier m y0 = Inr y1" "open_guard m y1 = Inr y" using store_checks_Inr [OF assms] by blast
  have a: "y1 = y0 \<or> y1 = y0\<lparr>y_Pending := m_SchemaVersion m\<rparr>" using schema_barrier_Inr [OF y1(1)] by auto
  have b: "y = y1 \<or> y = y1\<lparr>y_Open := m_Transaction m\<rparr>" using open_guard_same [OF y1(2)] open_guard_joins(3) [OF y1(2)] by blast
  show "y_Generation y = y_Generation y0" "y_Received y = y_Received y0" "y_Applied y = y_Applied y0" "y_Phase y = y_Phase y0"
    "y_SchemaVersion y = y_SchemaVersion y0" "y_Repair y = y_Repair y0" using a b by auto
qed

text \<open>The invariant of the tables holds for the progress that the checks return.\<close>

lemma tables_ok_checks:
  assumes "store_checks cfg hf m y0 = Inr y" "tables_ok E y0 M"
  shows "tables_ok E y M"
proof -
  obtain y1 where y1: "schema_barrier m y0 = Inr y1" "open_guard m y1 = Inr y" using store_checks_Inr [OF assms(1)] by blast
  have 1: "inbox_ok E y1 (mt_Inbox M)" "rows_ok E y1 (mt_Rows M)" "stage_ok E y1 (mt_Stage M)"
    using schema_barrier_Inr [OF y1(1)] assms(2) by (auto simp: tables_ok_def inbox_ok_def rows_ok_def stage_ok_def stage_version_def)
  have 2: "progress_ok y1 \<or> (m_Kind m = ''schema'' \<and> y_Phase y1 = ''stream'' \<and> y_Applied y1 \<le> y_Received y1)"
    using schema_barrier_Inr [OF y1(1)] assms(2) by (auto simp: tables_ok_def progress_ok_def)
  show ?thesis
  proof (cases "joins m")
    case True
    note j = open_guard_joins [OF y1(2) True]
    have "m_Kind m \<noteq> ''schema''" "m_Kind m \<noteq> ''schema_end''" using True by (auto simp: joins_def)
    then have "y_Pending y1 = ''''" using schema_barrier_Inr [OF y1(1)] by auto
    then have "progress_ok y" using 2 j(3) \<open>m_Kind m \<noteq> ''schema''\<close> by (simp add: progress_ok_def)
    moreover have "rows_ok E y (mt_Rows M)" using 1(2) j(3) by (simp add: rows_ok_def)
    moreover have "stage_ok E y (mt_Stage M)" using 1(3) j(3) by (auto simp: stage_ok_def stage_version_def)
    moreover have "inbox_ok E y (mt_Inbox M)"
    proof (cases "y_Open y1 = ''''")
      case True
      then have "mt_Inbox M = []" using 1(1) by (cases "mt_Inbox M") (auto simp: inbox_ok_def)
      then show ?thesis by (simp add: inbox_ok_def)
    next
      case False
      then show ?thesis using 1(1) j(2,3) by (simp add: inbox_ok_def)
    qed
    ultimately show ?thesis using assms(2) by (simp add: tables_ok_def)
  next
    case False
    then have "y = y1" by (rule open_guard_same [OF y1(2)])
    then show ?thesis using 1 2 open_guard_open(4) [OF y1(2)] assms(2) by (auto simp: tables_ok_def progress_ok_def)
  qed
qed


definition refreshes :: "Message \<Rightarrow> SyncState \<Rightarrow> bool" where
  "refreshes m y \<longleftrightarrow> m_Kind m = ''schema_end'' \<or> (m_Kind m = ''schema'' \<and> y_Phase y = ''stream'')"

definition closes :: "Message \<Rightarrow> bool" where
  "closes m \<longleftrightarrow> m_Kind m = ''transaction_end'' \<or> m_Kind m = ''file_end''"

definition fits :: "Message \<Rightarrow> SyncState \<Rightarrow> bool" where
  "fits m y \<longleftrightarrow> m_Generation m = y_Generation y \<and> m_Seq m = Suc (y_Received y) \<and>
     (if refreshes m y then y_Phase y = ''stream'' \<and> y_Pending y = m_SchemaVersion m \<and> m_SchemaVersion m \<noteq> ''''
      else y_Pending y = '''' \<and> m_SchemaVersion m = y_SchemaVersion y) \<and>
     (joins m \<or> closes m \<longrightarrow> m_Transaction m = y_Open y \<and> y_Open y \<noteq> '''') \<and> (m_Kind m = ''schema'' \<longrightarrow> y_Open y = '''')"

lemma closes_joins: "closes m \<Longrightarrow> \<not> joins m"
  by (auto simp: closes_def joins_def)

lemma checks_fit:
  assumes "store_checks cfg hf m y0 = Inr y" "m_Generation m = y_Generation y0" "m_Seq m = Suc (y_Received y0)"
  shows "fits m y"
proof -
  obtain y1 where y1: "schema_barrier m y0 = Inr y1" "open_guard m y1 = Inr y" using store_checks_Inr [OF assms(1)] by blast
  have j: "joins m \<Longrightarrow> m_Transaction m \<noteq> '''' \<and> y = y1\<lparr>y_Open := m_Transaction m\<rparr>" using open_guard_joins [OF y1(2)] by blast
  have n: "\<not> joins m \<Longrightarrow> y = y1" by (rule open_guard_same [OF y1(2)])
  have p: "y_Pending y = y_Pending y1" using j n by (cases "joins m") auto
  have "if refreshes m y then y_Phase y = ''stream'' \<and> y_Pending y = m_SchemaVersion m \<and> m_SchemaVersion m \<noteq> ''''
      else y_Pending y = '''' \<and> m_SchemaVersion m = y_SchemaVersion y"
    using schema_barrier_Inr [OF y1(1)] store_checks_frame(4,5) [OF assms(1)] p unfolding refreshes_def by auto
  moreover have "closes m \<Longrightarrow> m_Transaction m = y_Open y \<and> y_Open y \<noteq> ''''"
    using n [OF closes_joins] open_guard_open(1,2) [OF y1(2)] unfolding closes_def by metis
  moreover have "joins m \<Longrightarrow> m_Transaction m = y_Open y \<and> y_Open y \<noteq> ''''" using j by simp
  moreover have "m_Kind m = ''schema'' \<Longrightarrow> y_Open y = ''''"
    using n open_guard_open(4) [OF y1(2)] by (simp add: joins_def)
  ultimately show ?thesis using store_checks_frame(1,2) [OF assms(1)] assms(2,3) unfolding fits_def by metis
qed

lemma advance_simps [simp]:
  "y_Generation (advance m y) = m_Generation m" "y_Received (advance m y) = m_Seq m"
  "y_Applied (advance m y) = (if applies m then m_Seq m else y_Applied y)" "y_Phase (advance m y) = phase_after m (y_Phase y)"
  "y_Open (advance m y) = (if closes m then '''' else y_Open y)"
  "y_SchemaVersion (advance m y) = (if m_Kind m = ''schema_end'' then y_Pending y else y_SchemaVersion y)"
  "y_Pending (advance m y) = (if m_Kind m = ''schema_end'' then '''' else y_Pending y)"
  "y_Repair (advance m y) = y_Repair y"
  by (simp_all add: advance_def Let_def closes_def)

text \<open>How the parts of the invariant carry over to the advanced progress.\<close>

lemma progress_advance:
  assumes "fits m y" "progress_ok y"
  shows "progress_ok (advance m y)"
proof -
  have "m_Kind m \<noteq> ''schema_end'' \<Longrightarrow> y_Pending y \<noteq> '''' \<Longrightarrow> m_Kind m = ''schema'' \<and> y_Phase y = ''stream'' \<and> y_Open y = ''''"
    using assms unfolding fits_def refreshes_def by (auto split: if_splits)
  then have "y_Pending (advance m y) \<noteq> '''' \<Longrightarrow> y_Phase (advance m y) = ''stream'' \<and> y_Open (advance m y) = ''''"
    by (auto simp: phase_after_def split: if_splits)
  moreover have "y_Applied (advance m y) \<le> y_Received (advance m y)" using assms by (simp add: progress_ok_def fits_def)
  ultimately show ?thesis unfolding progress_ok_def by blast
qed

lemma inbox_advance:
  assumes "fits m y" "inbox_ok E y rs" "\<not> closes m"
  shows "inbox_ok E (advance m y) rs"
  using assms by (auto simp: inbox_ok_def fits_def)

lemma inbox_advance_add:
  assumes "fits m y" "inbox_ok E y rs" "joins m" "unmarshal E raw = Inr m"
  shows "inbox_ok E (advance m y) (rs @ [inbox_entry m raw])"
proof -
  have "\<not> closes m" using assms(3) closes_joins by blast
  then show ?thesis using assms by (auto simp: inbox_ok_def fits_def sorted_wrt_append inbox_entry_def less_Suc_eq_le)
qed

lemma inbox_ok_Nil [simp]: "inbox_ok E y []" and stage_ok_Nil [simp]: "stage_ok E y []" and rows_ok_Nil [simp]: "rows_ok E y []"
  by (simp_all add: inbox_ok_def stage_ok_def rows_ok_def)

lemma rows_advance:
  assumes "fits m y" "rows_ok E y rs" "m_Kind m \<noteq> ''snapshot_end''"
  shows "rows_ok E (advance m y) rs"
  using assms by (auto simp: rows_ok_def fits_def phase_after_def)

lemma stage_advance:
  assumes "fits m y" "stage_ok E y rs" "m_Kind m \<noteq> ''snapshot_end''" "m_Kind m \<noteq> ''schema_end''"
  shows "stage_ok E (advance m y) rs"
proof (cases "m_Kind m = ''snapshot_begin'' \<and> y_Phase y = ''stream''")
  case True
  then have "y_Pending y = ''''" using assms(1) by (simp add: fits_def refreshes_def)
  then have "rs = []" using assms(2) True by (cases rs) (auto simp: stage_ok_def stage_version_def)
  then show ?thesis by simp
next
  case False
  then have "stage_version (advance m y) = stage_version y" using assms(3,4) by (auto simp: stage_version_def phase_after_def)
  moreover have "m_Generation m = y_Generation y" using assms(1) by (simp add: fits_def)
  ultimately show ?thesis using assms(2) unfolding stage_ok_def by (simp only: advance_simps)
qed


section \<open>The kinds of messages\<close>

text \<open>\<open>follows\<close>: the outcome of applying a message is its effect, and the tables fit the advanced progress.\<close>

definition follows ::
  "('v, 'd, 'f, 'z) tenv_scheme \<Rightarrow> Message \<Rightarrow> SyncState \<Rightarrow> SyncState \<Rightarrow> ('v, 'd, 'f) work \<Rightarrow> 'd view res \<Rightarrow> ('v, 'd, 'f) work \<times> err option \<Rightarrow> bool" where
  "follows E m y0 y w r x \<longleftrightarrow>
     (case r of
        Inl e \<Rightarrow> snd x = Some e
      | Inr v \<Rightarrow> snd x = None \<and> view_at E y0 (wk_Meta (fst x)) (wk_Db (fst x)) = v \<and> tables_ok E (advance m y) (wk_Meta (fst x)) \<and>
          mt_Hash (wk_Meta (fst x)) = mt_Hash (wk_Meta w) \<and> (wk_Files (fst x) = None) = (wk_Files w = None))"

lemma follows_simps [simp]:
  "follows E m y0 y w (Inl e) x \<longleftrightarrow> snd x = Some e"
  "follows E m y0 y w (Inr v) x \<longleftrightarrow> snd x = None \<and> view_at E y0 (wk_Meta (fst x)) (wk_Db (fst x)) = v \<and> tables_ok E (advance m y) (wk_Meta (fst x)) \<and>
     mt_Hash (wk_Meta (fst x)) = mt_Hash (wk_Meta w) \<and> (wk_Files (fst x) = None) = (wk_Files w = None)"
  by (simp_all add: follows_def)

definition with_scope :: "scope_row list \<Rightarrow> 'v meta \<Rightarrow> 'v meta" where
  "with_scope sc M = M\<lparr>mt_Scope := sc\<rparr>"

abbreviation scope_names :: "scope_row list \<Rightarrow> (string \<times> string) list" where
  "scope_names \<equiv> map (\<lambda>r. (sp_Schema r, sp_Name r))"

lemma add_scope_each:
  assumes "wk_Meta w = with_scope sc M" "sorted_wrt (<) (map sp_Ordinal sc)" "\<forall>r\<in>set sc. sp_Ordinal r < i"
  shows "case foldM (scope_effect cfg) (scope_names sc) ts of
      Inl e \<Rightarrow> snd (each (add_scope calm cfg) (map (\<lambda>(i, t). \<lparr>sp_Schema = tr_Schema t, sp_Name = tr_Name t, sp_Ordinal = i\<rparr>) (enumerate i ts)) w) = Some e
    | Inr names \<Rightarrow> \<exists>w' sc'. each (add_scope calm cfg) (map (\<lambda>(i, t). \<lparr>sp_Schema = tr_Schema t, sp_Name = tr_Name t, sp_Ordinal = i\<rparr>) (enumerate i ts)) w = (w', None) \<and>
        wk_Meta w' = with_scope sc' M \<and> scope_names sc' = names \<and> sorted_wrt (<) (map sp_Ordinal sc') \<and> wk_Db w' = wk_Db w \<and> wk_Files w' = wk_Files w"
  using assms
proof (induction ts arbitrary: w sc i)
  case (Cons t ts)
  let ?r = "\<lparr>sp_Schema = tr_Schema t, sp_Name = tr_Name t, sp_Ordinal = i\<rparr>"
  let ?w = "(ticked w)\<lparr>wk_Meta := with_scope (sc @ [?r]) M\<rparr>"
  have dup: "list_ex (\<lambda>x. sp_Schema x = sp_Schema ?r \<and> sp_Name x = sp_Name ?r) sc \<longleftrightarrow> (tr_Schema t, tr_Name t) \<in> set (scope_names sc)"
    by (simp add: list_ex_iff image_iff) metis
  show ?case
  proof (cases "Allows cfg (tr_Schema t) (tr_Name t) \<and> (tr_Schema t, tr_Name t) \<notin> set (scope_names sc)")
    case True
    then have "add_scope calm cfg ?r w = (?w, None)"
      using Cons.prems(1) dup by (simp add: add_scope_def meta_stmt_def insert_scope_def with_scope_def)
    moreover have "scope_effect cfg (scope_names sc) t = Inr (scope_names (sc @ [?r]))" using True by (simp add: scope_effect_def)
    ultimately show ?thesis using Cons.IH [of ?w "sc @ [?r]" "Suc i"] Cons.prems(2,3)
      by (simp add: sorted_wrt_append less_Suc_eq split: sum.splits)
  next
    case False
    then show ?thesis using Cons.prems(1) dup
      by (auto simp: add_scope_def meta_stmt_def insert_scope_def with_scope_def scope_effect_def)
  qed
qed auto

lemma snapshot_begin_follows:
  assumes "m_Kind m = ''snapshot_begin''" "fits m y" "tables_ok E y (wk_Meta w)"
  shows "follows E m y0 y w (message_effect E cfg (wk_Files w \<noteq> None) m (y_Phase y) (view_at E y0 (wk_Meta w) (wk_Db w))) (applyMessage E calm pool cfg m raw (y_Phase y) w)"
proof -
  let ?M = "wk_Meta w" and ?T = "(wk_Meta w)\<lparr>mt_Rows := []\<rparr>"
  let ?w = "(ticked (ticked w))\<lparr>wk_Meta := with_scope [] ?T\<rparr>"
  have run: "applyMessage E calm pool cfg m raw (y_Phase y) w = each (add_scope calm cfg) (scope_rows (m_Tables m)) ?w"
    using assms(1) by (simp add: applyMessage_def andthen_def meta_stmt_def ticked_def with_scope_def)
  have ok: "tables_ok E (advance m y) (with_scope sc ?T)" if "sorted_wrt (<) (map sp_Ordinal sc)" for sc
    using assms that progress_advance [OF assms(2)] inbox_advance [OF assms(2)] stage_advance [OF assms(2)]
    by (auto simp: tables_ok_def with_scope_def closes_def)
  show ?thesis
    unfolding run scope_rows_def using add_scope_each [of ?w "[]" ?T 0 cfg "m_Tables m"] assms(1)
    by (auto simp: message_effect_def view_at_def ok [unfolded with_scope_def] with_scope_def split: sum.splits)
qed


lemma schema_follows:
  assumes "m_Kind m = ''schema''" "fits m y" "tables_ok E y (wk_Meta w)"
  shows "follows E m y0 y w (message_effect E cfg (wk_Files w \<noteq> None) m (y_Phase y) (view_at E y0 (wk_Meta w) (wk_Db w))) (applyMessage E calm pool cfg m raw (y_Phase y) w)"
proof -
  let ?M = "wk_Meta w"
  have ok: "progress_ok (advance m y)" "inbox_ok E (advance m y) (mt_Inbox ?M)" "rows_ok E (advance m y) (mt_Rows ?M)"
      "stage_ok E (advance m y) (mt_Stage ?M)" "sorted_wrt (<) (map sp_Ordinal (mt_Scope ?M))"
    using assms progress_advance [OF assms(2)] inbox_advance [OF assms(2)] rows_advance [OF assms(2)] stage_advance [OF assms(2)]
    by (auto simp: tables_ok_def closes_def)
  have v: "m_Generation m = y_Generation y" "y_Phase y = ''snapshot'' \<or> y_Phase y = ''stream'' \<Longrightarrow> stage_version y = m_SchemaVersion m"
    using assms(1,2) by (auto simp: fits_def stage_version_def refreshes_def)
  show ?thesis
  proof (cases "(y_Phase y = ''snapshot'' \<or> y_Phase y = ''stream'') \<and> m_SchemaVersion m \<noteq> ''''")
    case False
    then show ?thesis using assms(1) ok by (auto simp: applyMessage_def message_effect_def view_at_def tables_ok_def)
  next
    case True
    have run: "applyMessage E calm pool cfg m raw (y_Phase y) w = stageSchema E calm cfg m w"
      using assms(1) True by (auto simp: applyMessage_def)
    have eff: "message_effect E cfg (wk_Files w \<noteq> None) m (y_Phase y) (view_at E y0 ?M (wk_Db w)) =
        (case stage_effect E cfg m (v_Schemas (view_at E y0 ?M (wk_Db w))) of Inl e \<Rightarrow> Inl e | Inr ss \<Rightarrow> Inr ((view_at E y0 ?M (wk_Db w))\<lparr>v_Schemas := ss\<rparr>))"
      using assms(1) True by (auto simp: message_effect_def)
    have dup: "list_ex (\<lambda>x. sg_Generation x = m_Generation m \<and> sg_Version x = m_SchemaVersion m \<and> sg_Schema x = a \<and> sg_Table x = b) (mt_Stage ?M) \<longleftrightarrow>
        (a, b) \<in> (\<lambda>r. (xt_Schema (projr (te_schema E (sg_Payload r))), xt_Name (projr (te_schema E (sg_Payload r))))) ` set (mt_Stage ?M)" for a b
    proof -
      have "\<forall>r\<in>set (mt_Stage ?M). sg_Generation r = m_Generation m \<and> sg_Version r = m_SchemaVersion m \<and>
          xt_Schema (projr (te_schema E (sg_Payload r))) = sg_Schema r \<and> xt_Name (projr (te_schema E (sg_Payload r))) = sg_Table r"
        using assms(3) v True by (auto simp: tables_ok_def stage_ok_def)
      then show ?thesis by (auto simp: list_ex_iff image_iff)
    qed
    have add: "stage_ok E (advance m y) (mt_Stage ?M @ [\<lparr>sg_Generation = m_Generation m, sg_Version = m_SchemaVersion m, sg_Schema = xt_Schema s,
         sg_Table = xt_Name s, sg_Payload = m_Schema m\<rparr>])" if "te_schema E (m_Schema m) = Inr s" for s
      using ok(4) that True v assms(1) by (auto simp: stage_ok_def stage_version_def phase_after_def)
    show ?thesis unfolding run eff
      using ok add dup
      by (auto simp: stageSchema_def stage_effect_def meta_stmt_def insert_stage_def view_at_def tables_ok_def split: sum.splits)
  qed
qed


text \<open>The rows of a message come back from their encoding.\<close>

definition rows_codec :: "('v, 'd, 'f, 'z) tenv_scheme \<Rightarrow> Message \<Rightarrow> bool" where
  "rows_codec E m \<longleftrightarrow> (\<forall>row\<in>set (m_Rows m). \<exists>raw. marshal_row E row = Inr raw \<and> unmarshal_row E raw = Inr row)"

lemma encode_rows_ok:
  assumes "\<forall>row\<in>set rows. \<exists>raw. marshal_row E row = Inr raw \<and> unmarshal_row E raw = Inr row"
  obtains rs where "encode_rows (marshal_row E) m i rows = Inr rs" "staged_rows E rs = rows" "sorted_wrt (<) (map (\<lambda>r. (sr_Seq r, sr_Ordinal r)) rs)"
    "\<forall>r\<in>set rs. sr_Generation r = m_Generation m \<and> sr_Seq r = m_Seq m \<and> i \<le> sr_Ordinal r \<and> (\<exists>x. unmarshal_row E (sr_Payload r) = Inr x)"
  using assms
proof (induction rows arbitrary: i thesis)
  case (Cons row rows)
  obtain raw where raw: "marshal_row E row = Inr raw" "unmarshal_row E raw = Inr row" using Cons.prems(2) by auto
  obtain rs where rs: "encode_rows (marshal_row E) m (Suc i) rows = Inr rs" "staged_rows E rs = rows" "sorted_wrt (<) (map (\<lambda>r. (sr_Seq r, sr_Ordinal r)) rs)"
    "\<forall>r\<in>set rs. sr_Generation r = m_Generation m \<and> sr_Seq r = m_Seq m \<and> Suc i \<le> sr_Ordinal r \<and> (\<exists>x. unmarshal_row E (sr_Payload r) = Inr x)"
    using Cons.IH [of "Suc i"] Cons.prems(2) by auto
  show ?case
    by (rule Cons.prems(1) [of "\<lparr>sr_Generation = m_Generation m, sr_Seq = m_Seq m, sr_Ordinal = i, sr_Payload = raw\<rparr> # rs"])
      (use raw rs in auto)
qed simp

lemma insert_staged_each:
  assumes "sorted_wrt (<) (map (\<lambda>r. (sr_Seq r, sr_Ordinal r)) (mt_Rows (wk_Meta w) @ rs))"
  shows "\<exists>w'. each (\<lambda>r. meta_stmt calm (insert_staged r)) rs w = (w', None) \<and> wk_Meta w' = (wk_Meta w)\<lparr>mt_Rows := mt_Rows (wk_Meta w) @ rs\<rparr> \<and>
    wk_Db w' = wk_Db w \<and> wk_Files w' = wk_Files w"
  using assms
proof (induction rs arbitrary: w)
  case (Cons r rs)
  let ?w = "(ticked w)\<lparr>wk_Meta := (wk_Meta w)\<lparr>mt_Rows := mt_Rows (wk_Meta w) @ [r]\<rparr>\<rparr>"
  have "\<forall>x\<in>set (mt_Rows (wk_Meta w)). (sr_Seq x, sr_Ordinal x) < (sr_Seq r, sr_Ordinal r)" using Cons.prems by (auto simp: sorted_wrt_append)
  then have "\<not> list_ex (\<lambda>x. sr_Generation x = sr_Generation r \<and> sr_Seq x = sr_Seq r \<and> sr_Ordinal x = sr_Ordinal r) (mt_Rows (wk_Meta w))"
    by (auto simp: list_ex_iff)
  then have "meta_stmt calm (insert_staged r) w = (?w, None)" by (simp add: meta_stmt_def insert_staged_def)
  then show ?case using Cons.IH [of ?w] Cons.prems by auto
qed simp

lemma snapshot_rows_follows:
  assumes "m_Kind m = ''snapshot_rows''" "fits m y" "tables_ok E y (wk_Meta w)" "rows_codec E m"
  shows "follows E m y0 y w (message_effect E cfg (wk_Files w \<noteq> None) m (y_Phase y) (view_at E y0 (wk_Meta w) (wk_Db w))) (applyMessage E calm pool cfg m raw (y_Phase y) w)"
proof (cases "y_Phase y = ''snapshot''")
  case True
  let ?M = "wk_Meta w" and ?k = "\<lambda>r. (sr_Seq r, sr_Ordinal r)"
  obtain rs where rs: "encode_rows (marshal_row E) m 0 (m_Rows m) = Inr rs" "staged_rows E rs = m_Rows m" "sorted_wrt (<) (map ?k rs)"
    "\<forall>r\<in>set rs. sr_Generation r = m_Generation m \<and> sr_Seq r = m_Seq m \<and> 0 \<le> sr_Ordinal r \<and> (\<exists>x. unmarshal_row E (sr_Payload r) = Inr x)"
    using encode_rows_ok [of "m_Rows m" E m 0] assms(4) unfolding rows_codec_def by blast
  have old: "rows_ok E y (mt_Rows ?M)" using assms(3) by (simp add: tables_ok_def)
  have "\<forall>a\<in>set (mt_Rows ?M). \<forall>b\<in>set rs. ?k a < ?k b" using old rs(4) assms(2) by (auto simp: rows_ok_def fits_def less_Suc_eq_le)
  then have sorted: "sorted_wrt (<) (map ?k (mt_Rows ?M @ rs))" using old rs(3) by (simp add: sorted_wrt_append rows_ok_def)
  have new: "rows_ok E (advance m y) (mt_Rows ?M @ rs)"
    unfolding rows_ok_def using sorted old rs(4) assms(1,2) True by (auto simp: rows_ok_def fits_def phase_after_def)
  have ok: "progress_ok (advance m y)" "inbox_ok E (advance m y) (mt_Inbox ?M)" "stage_ok E (advance m y) (mt_Stage ?M)"
      "sorted_wrt (<) (map sp_Ordinal (mt_Scope ?M))"
    using assms progress_advance [OF assms(2)] inbox_advance [OF assms(2)] stage_advance [OF assms(2)] by (auto simp: tables_ok_def closes_def)
  show ?thesis
    using insert_staged_each [OF sorted] ok new rs(1,2) assms(1) True
    by (auto simp: applyMessage_def message_effect_def view_at_def tables_ok_def)
qed (use assms(1) in \<open>simp add: applyMessage_def message_effect_def\<close>)


lemma insort_key_map: "insort_key f (h x) (map h ys) = map h (insort_key (\<lambda>x. f (h x)) x ys)"
  by (induction ys) auto

lemma sort_key_map: "sort_key f (map h xs) = map h (sort_key (\<lambda>x. f (h x)) xs)"
  by (induction xs) (auto simp: insort_key_map)

lemma insort_key_same: "\<forall>z\<in>set (x # ys). f z = g z \<Longrightarrow> insort_key f x ys = insort_key g x ys"
  by (induction ys) auto

lemma sort_key_same: "\<forall>x\<in>set xs. f x = g x \<Longrightarrow> sort_key f xs = sort_key g xs"
proof (induction xs)
  case (Cons x xs)
  then show ?case using insort_key_same [of x "sort_key g xs" f g] by simp
qed simp

lemma foldM_map: "foldM f s (map h xs) = foldM (\<lambda>s x. f s (h x)) s xs"
  by (induction xs arbitrary: s) (auto split: sum.splits)

lemma decode_schemas_Inr:
  "\<forall>r\<in>set rs. \<exists>s. f (sg_Payload r) = Inr s \<Longrightarrow> decode_schemas f rs = Inr (map (\<lambda>r. projr (f (sg_Payload r))) rs)"
  by (induction rs) auto

lemma meta_stmt_steady:
  assumes "steady E cfg pool M F w" "g M = Inr M'"
  shows "agrees (Inr (wk_Db w)) (steady E cfg pool M' F) (meta_stmt calm g w)"
  using assms by (auto simp: meta_stmt_def steady_def)

abbreviation staged_schemas :: "('v, 'd, 'f, 'z) tenv_scheme \<Rightarrow> stage_row list \<Rightarrow> sourceSchemaTable list" where
  "staged_schemas E rs \<equiv> map (\<lambda>r. projr (te_schema E (sg_Payload r))) rs"

lemma applyStagedSchemas_agrees:
  assumes "steady E cfg pool M F w" "stage_ok E y (mt_Stage M)" "g = y_Generation y" "v = stage_version y"
  shows "agrees (schemas_effect E cfg (staged_schemas E (mt_Stage M)) (wk_Db w)) (steady E cfg pool (M\<lparr>mt_Stage := []\<rparr>) F) (applyStagedSchemas E calm cfg g v w)"
proof -
  let ?s = "mt_Stage M" and ?rank = "\<lambda>r. te_rank E (sg_Schema r, sg_Table r)"
  let ?sorted = "staged_schemas E (sort_key ?rank ?s)"
  have all: "filter (staged_for g v) ?s = ?s" "filter (\<lambda>r. \<not> staged_for g v r) ?s = []"
    using assms(2-4) by (auto simp: filter_id_conv filter_empty_conv stage_ok_def staged_for_def)
  have dec: "decode_schemas (te_schema E) (sort_key ?rank ?s) = Inr ?sorted"
    using assms(2) by (intro decode_schemas_Inr) (auto simp: stage_ok_def)
  have "sort_key (\<lambda>r. te_rank E (xt_Schema (projr (te_schema E (sg_Payload r))), xt_Name (projr (te_schema E (sg_Payload r))))) ?s = sort_key ?rank ?s"
    using assms(2) by (intro sort_key_same) (auto simp: stage_ok_def)
  then have order: "sort_key (\<lambda>s. te_rank E (xt_Schema s, xt_Name s)) (staged_schemas E ?s) = ?sorted" by (simp add: sort_key_map)
  have run: "applyStagedSchemas E calm cfg g v w = (if length ?s \<noteq> length (sy_Tables cfg) then (ticked w, Some (Err ''schema refresh has the wrong number of tables''))
      else andthen (each (apply_schema E calm cfg) ?sorted)
                (meta_stmt calm (\<lambda>m. Inr (m\<lparr>mt_Stage := filter (\<lambda>r. \<not> staged_for g v r) (mt_Stage m)\<rparr>))) (ticked w))"
    using assms(1) all dec by (simp add: applyStagedSchemas_def steady_def)
  have "agrees (foldM (schema_effect E cfg) (wk_Db (ticked w)) ?sorted) (steady E cfg pool M F) (each (apply_schema E calm cfg) ?sorted (ticked w))"
    using assms(1) by (intro agrees_each apply_schema_agrees) simp_all
  then have a: "agrees (foldM (schema_effect E cfg) (wk_Db w) ?sorted) (steady E cfg pool M F) (each (apply_schema E calm cfg) ?sorted (ticked w))" by simp
  have "agrees (case foldM (schema_effect E cfg) (wk_Db w) ?sorted of Inl e \<Rightarrow> Inl e | Inr d \<Rightarrow> Inr d) (steady E cfg pool (M\<lparr>mt_Stage := []\<rparr>) F)
      (andthen (each (apply_schema E calm cfg) ?sorted) (meta_stmt calm (\<lambda>m. Inr (m\<lparr>mt_Stage := filter (\<lambda>r. \<not> staged_for g v r) (mt_Stage m)\<rparr>))) (ticked w))"
    by (rule agrees_andthen, rule a) (rule meta_stmt_steady, assumption, simp add: all)
  then show ?thesis unfolding run schemas_effect_def order by (auto split: sum.splits)
qed

lemma clear_scope_agrees:
  assumes "steady E cfg pool M F w"
  shows "agrees (foldM (clear_effect E cfg) (wk_Db w) (scope_names rs)) (steady E cfg pool M F) (each (clear_table E calm cfg) rs w)"
  unfolding foldM_map using assms by (intro agrees_each clear_table_agrees)


lemma view_at_simps [simp]:
  "v_State (view_at E y M d) = y" "v_Db (view_at E y M d) = d" "v_Held (view_at E y M d) = map (held E) (mt_Inbox M)"
  "v_Rows (view_at E y M d) = staged_rows E (mt_Rows M)" "v_Scope (view_at E y M d) = scope_names (mt_Scope M)"
  "v_Schemas (view_at E y M d) = staged_schemas E (mt_Stage M)"
  by (simp_all add: view_at_def)

lemma agrees_follows:
  assumes "agrees r (steady E cfg pool M' F) x" "F = wk_Files w" "mt_Hash M' = mt_Hash (wk_Meta w)"
    "\<And>d. tables_ok E (advance m y) M'" "\<And>d. view_at E y0 M' d = g d"
  shows "follows E m y0 y w (case r of Inl e \<Rightarrow> Inl e | Inr d \<Rightarrow> Inr (g d)) x"
  using assms by (auto simp: steady_def split: sum.splits)

lemma case_res_id: "(case r of Inl e \<Rightarrow> Inl e | Inr d \<Rightarrow> Inr d) = r"
  by (cases r) auto

lemma schema_end_follows:
  assumes "m_Kind m = ''schema_end''" "fits m y" "tables_ok E y (wk_Meta w)" "cache_ok E cfg pool (wk_Types w)"
  shows "follows E m y0 y w (message_effect E cfg (wk_Files w \<noteq> None) m (y_Phase y) (view_at E y0 (wk_Meta w) (wk_Db w))) (applyMessage E calm pool cfg m raw (y_Phase y) w)"
proof -
  let ?M = "wk_Meta w"
  have p: "y_Phase y = ''stream''" "m_SchemaVersion m = stage_version y" "m_Generation m = y_Generation y"
    using assms(1,2) by (auto simp: fits_def refreshes_def stage_version_def)
  have ok: "tables_ok E (advance m y) (?M\<lparr>mt_Stage := []\<rparr>)"
    using assms progress_advance [OF assms(2)] inbox_advance [OF assms(2)] rows_advance [OF assms(2)] by (auto simp: tables_ok_def closes_def)
  have a: "agrees (schemas_effect E cfg (staged_schemas E (mt_Stage ?M)) (wk_Db w)) (steady E cfg pool (?M\<lparr>mt_Stage := []\<rparr>) (wk_Files w))
      (applyStagedSchemas E calm cfg (m_Generation m) (m_SchemaVersion m) w)"
    using assms(3,4) p by (intro applyStagedSchemas_agrees) (auto simp: steady_def tables_ok_def)
  have "follows E m y0 y w (case schemas_effect E cfg (staged_schemas E (mt_Stage ?M)) (wk_Db w) of Inl e \<Rightarrow> Inl e
        | Inr d \<Rightarrow> Inr ((view_at E y0 ?M (wk_Db w))\<lparr>v_Db := d, v_Schemas := []\<rparr>)) (applyStagedSchemas E calm cfg (m_Generation m) (m_SchemaVersion m) w)"
    by (rule agrees_follows [OF a]) (simp_all add: ok view_at_def)
  then show ?thesis using assms(1) p(1) by (simp add: applyMessage_def message_effect_def)
qed

lemma snapshot_end_agrees:
  assumes "m_SchemaVersion m = stage_version y" "m_Generation m = y_Generation y" "tables_ok E y M" "steady E cfg (wk_Db w) M F w"
  shows "agrees (snapshot_effect E cfg m (view_at E y0 M (wk_Db w))) (steady E cfg (wk_Db w) (M\<lparr>mt_Stage := [], mt_Rows := [], mt_Scope := []\<rparr>) F)
    (snapshot_end E calm (wk_Db w) cfg m w)"
proof -
  let ?pool = "wk_Db w" and ?M = "M\<lparr>mt_Stage := []\<rparr>"
  let ?steady = "steady E cfg ?pool" and ?rows = "map as_insert (staged_rows E (mt_Rows M))"
  let ?schemas = "if m_SchemaVersion m \<noteq> '''' then applyStagedSchemas E calm cfg (m_Generation m) (m_SchemaVersion m) else check None"
  let ?sr = "if m_SchemaVersion m \<noteq> '''' then schemas_effect E cfg (staged_schemas E (mt_Stage M)) ?pool else Inr ?pool"
  let ?rest = "\<lambda>w. andthen (each (clear_table E calm cfg) (rev (sort_key sp_Ordinal (mt_Scope (wk_Meta w)))))
         (andthen (apply_snapshot E calm ?pool cfg (m_Generation m) (-1, -1))
         (andthen (meta_stmt calm (\<lambda>x. Inr (x\<lparr>mt_Rows := []\<rparr>)))
                  (meta_stmt calm (\<lambda>x. Inr (x\<lparr>mt_Scope := []\<rparr>))))) w"
  let ?fin = "?M\<lparr>mt_Rows := [], mt_Scope := []\<rparr>"
  have 1: "agrees ?sr (?steady ?M F) (?schemas w)"
  proof (cases "m_SchemaVersion m = ''''")
    case True
    then have "mt_Stage M = []" using assms(1,3) by (cases "mt_Stage M") (auto simp: tables_ok_def stage_ok_def)
    then have "?M = M" by simp
    then show ?thesis using True assms(4) by simp
  next
    case False
    then show ?thesis using assms by (simp add: applyStagedSchemas_agrees [where y = y] tables_ok_def)
  qed
  have ends: "agrees (Inr (wk_Db u)) (?steady ?fin F) (andthen (meta_stmt calm (\<lambda>x. Inr (x\<lparr>mt_Rows := []\<rparr>))) (meta_stmt calm (\<lambda>x. Inr (x\<lparr>mt_Scope := []\<rparr>))) u)"
    if "?steady ?M F u" for u using that by (auto simp: andthen_def meta_stmt_def steady_def)
  have insert: "agrees (foldM (row_effect E cfg ?pool) (wk_Db u) ?rows) (?steady ?M F) (apply_snapshot E calm ?pool cfg (m_Generation m) (-1, -1) u)"
    if "?steady ?M F u" for u
  proof -
    have "filter (\<lambda>r. (-1, -1) < row_position r) (mt_Rows ?M) = mt_Rows M" by (auto simp: filter_id_conv row_position_def)
    moreover have "rows_ok E y (mt_Rows M)" using assms(3) by (simp add: tables_ok_def)
    ultimately show ?thesis using apply_snapshot_agrees [OF that, of "m_Generation m" "(-1, -1)"] assms(2) by (simp add: rows_ok_def)
  qed
  have tail: "agrees (case foldM (row_effect E cfg ?pool) (wk_Db u) ?rows of Inl e \<Rightarrow> Inl e | Inr d \<Rightarrow> Inr d) (?steady ?fin F)
      (andthen (apply_snapshot E calm ?pool cfg (m_Generation m) (-1, -1))
         (andthen (meta_stmt calm (\<lambda>x. Inr (x\<lparr>mt_Rows := []\<rparr>))) (meta_stmt calm (\<lambda>x. Inr (x\<lparr>mt_Scope := []\<rparr>)))) u)"
    if "?steady ?M F u" for u by (rule agrees_andthen, rule insert [OF that], rule ends)
  have rest: "agrees (case foldM (clear_effect E cfg) (wk_Db u) (rev (scope_names (mt_Scope M))) of Inl e \<Rightarrow> Inl e
        | Inr d \<Rightarrow> (case foldM (row_effect E cfg ?pool) d ?rows of Inl e \<Rightarrow> Inl e | Inr d \<Rightarrow> Inr d)) (?steady ?fin F) (?rest (ticked u))"
    if "?steady ?M F u" for u
  proof -
    have order: "rev (sort_key sp_Ordinal (mt_Scope (wk_Meta (ticked u)))) = rev (mt_Scope M)"
      using that assms(3) by (simp add: sort_key_strict tables_ok_def steady_def)
    have u: "?steady ?M F (ticked u)" using that by simp
    have c: "agrees (foldM (clear_effect E cfg) (wk_Db u) (scope_names (rev (mt_Scope M)))) (?steady ?M F) (each (clear_table E calm cfg) (rev (mt_Scope M)) (ticked u))"
      using clear_scope_agrees [OF u, of "rev (mt_Scope M)"] by simp
    show ?thesis unfolding order rev_map by (rule agrees_andthen, rule c, rule tail)
  qed
  have "agrees (case ?sr of Inl e \<Rightarrow> Inl e | Inr d \<Rightarrow> (case foldM (clear_effect E cfg) d (rev (scope_names (mt_Scope M))) of Inl e \<Rightarrow> Inl e
        | Inr d \<Rightarrow> (case foldM (row_effect E cfg ?pool) d ?rows of Inl e \<Rightarrow> Inl e | Inr d \<Rightarrow> Inr d))) (?steady ?fin F) (andthen ?schemas (stmt calm ?rest) w)"
    by (rule agrees_andthen, rule 1) (unfold stmt_calm, rule rest)
  then show ?thesis unfolding snapshot_end_def snapshot_effect_def view_at_simps case_res_id .
qed


lemma snapshot_end_follows:
  assumes "m_Kind m = ''snapshot_end''" "fits m y" "tables_ok E y (wk_Meta w)" "cache_ok E cfg (wk_Db w) (wk_Types w)"
  shows "follows E m y0 y w (message_effect E cfg (wk_Files w \<noteq> None) m (y_Phase y) (view_at E y0 (wk_Meta w) (wk_Db w)))
    (applyMessage E calm (wk_Db w) cfg m raw (y_Phase y) w)"
proof (cases "y_Phase y = ''snapshot''")
  case True
  let ?M = "wk_Meta w" and ?fin = "(wk_Meta w)\<lparr>mt_Stage := [], mt_Rows := [], mt_Scope := []\<rparr>"
  have p: "m_SchemaVersion m = stage_version y" "m_Generation m = y_Generation y"
    using assms(1,2) True by (auto simp: fits_def refreshes_def stage_version_def)
  have ok: "tables_ok E (advance m y) ?fin"
    using assms progress_advance [OF assms(2)] inbox_advance [OF assms(2)] by (auto simp: tables_ok_def closes_def)
  have "steady E cfg (wk_Db w) ?M (wk_Files w) w" using assms(4) by (simp add: steady_def)
  note a = snapshot_end_agrees [OF p assms(3) this, of y0]
  have "follows E m y0 y w (case snapshot_effect E cfg m (view_at E y0 ?M (wk_Db w)) of Inl e \<Rightarrow> Inl e
      | Inr d \<Rightarrow> Inr ((view_at E y0 ?M (wk_Db w))\<lparr>v_Db := d, v_Rows := [], v_Scope := [], v_Schemas := []\<rparr>)) (snapshot_end E calm (wk_Db w) cfg m w)"
    by (rule agrees_follows [OF a]) (simp_all add: ok view_at_def)
  then show ?thesis using assms(1) True by (simp add: applyMessage_def message_effect_def)
qed (use assms(1) in \<open>simp add: applyMessage_def message_effect_def\<close>)

lemma joins_follows:
  assumes "joins m" "fits m y" "tables_ok E y (wk_Meta w)" "unmarshal E raw = Inr m"
  shows "follows E m y0 y w (message_effect E cfg (wk_Files w \<noteq> None) m (y_Phase y) (view_at E y0 (wk_Meta w) (wk_Db w))) (applyMessage E calm pool cfg m raw (y_Phase y) w)"
proof -
  let ?M = "wk_Meta w"
  let ?w = "(ticked w)\<lparr>wk_Meta := ?M\<lparr>mt_Inbox := mt_Inbox ?M @ [inbox_entry m raw]\<rparr>\<rparr>"
  have k: "m_Kind m \<noteq> ''snapshot_end''" "m_Kind m \<noteq> ''schema_end''" "m_Kind m \<noteq> ''snapshot_begin''" using assms(1) by (auto simp: joins_def)
  have old: "inbox_ok E y (mt_Inbox ?M)" using assms(3) by (simp add: tables_ok_def)
  note new = inbox_advance_add [OF assms(2) old assms(1,4)]
  have fresh: "\<forall>r\<in>set (mt_Inbox ?M). ib_Seq r < m_Seq m" using old assms(2) by (auto simp: inbox_ok_def fits_def less_Suc_eq_le)
  have run: "meta_stmt calm (insert_inbox (inbox_entry m raw)) w = (?w, None)"
    using fresh by (auto simp: meta_stmt_def insert_inbox_def list_ex_iff inbox_entry_def)
  have ok: "tables_ok E (advance m y) (wk_Meta ?w)"
    using assms k new progress_advance [OF assms(2)] rows_advance [OF assms(2)] stage_advance [OF assms(2)] by (auto simp: tables_ok_def)
  have v: "view_at E y0 (wk_Meta ?w) (wk_Db ?w) = (view_at E y0 ?M (wk_Db w))\<lparr>v_Held := v_Held (view_at E y0 ?M (wk_Db w)) @ [m]\<rparr>"
    by (simp add: view_at_def inbox_entry_def assms(4))
  show ?thesis using assms(1) unfolding joins_def
  proof (elim disjE)
    assume "m_Kind m = ''transaction_rows''"
    then show ?thesis using run ok v by (simp add: applyMessage_def message_effect_def)
  next
    assume "m_Kind m = ''file_begin''"
    then show ?thesis using run ok v by (simp add: applyMessage_def message_effect_def)
  next
    assume "m_Kind m = ''file_chunk''"
    then show ?thesis using run ok v by (simp add: applyMessage_def message_effect_def)
  qed
qed

lemma transaction_end_follows:
  assumes "m_Kind m = ''transaction_end''" "fits m y" "tables_ok E y (wk_Meta w)" "cache_ok E cfg (wk_Db w) (wk_Types w)"
  shows "follows E m y0 y w (message_effect E cfg (wk_Files w \<noteq> None) m (y_Phase y) (view_at E y0 (wk_Meta w) (wk_Db w)))
    (applyMessage E calm (wk_Db w) cfg m raw (y_Phase y) w)"
proof (cases "y_Phase y = ''stream''")
  case True
  let ?M = "wk_Meta w" and ?rs = "mt_Inbox (wk_Meta w)"
  have p: "m_Transaction m = y_Open y" "m_Generation m = y_Generation y" using assms(1,2) by (auto simp: fits_def closes_def)
  have ok: "tables_ok E (advance m y) (?M\<lparr>mt_Inbox := []\<rparr>)"
    using assms progress_advance [OF assms(2)] rows_advance [OF assms(2)] stage_advance [OF assms(2)] by (auto simp: tables_ok_def)
  have "inbox_for E (m_Generation m) (m_Transaction m) ?rs" using assms(3) p by (auto simp: tables_ok_def inbox_ok_def inbox_for_def)
  then have "agrees (foldM (row_effect E cfg (wk_Db w)) (wk_Db w) (concat (map (\<lambda>r. m_Rows (held E r)) ?rs)))
      (steady E cfg (wk_Db w) (?M\<lparr>mt_Inbox := []\<rparr>) (wk_Files w)) (apply_inbox E calm (wk_Db w) cfg m (-1) w)"
    using assms(4) by (intro apply_inbox_agrees [of E cfg _ ?rs]) (auto simp: steady_def)
  then have a: "agrees (transaction_effect E cfg (view_at E y0 ?M (wk_Db w)))
      (steady E cfg (wk_Db w) (?M\<lparr>mt_Inbox := []\<rparr>) (wk_Files w)) (apply_inbox E calm (wk_Db w) cfg m (-1) w)"
    by (simp add: transaction_effect_def o_def)
  have "follows E m y0 y w (case transaction_effect E cfg (view_at E y0 ?M (wk_Db w)) of Inl e \<Rightarrow> Inl e
      | Inr d \<Rightarrow> Inr ((view_at E y0 ?M (wk_Db w))\<lparr>v_Db := d, v_Held := []\<rparr>)) (apply_inbox E calm (wk_Db w) cfg m (-1) w)"
    by (rule agrees_follows [OF a]) (simp_all add: ok view_at_def)
  then show ?thesis using assms(1) True by (simp add: applyMessage_def message_effect_def)
qed (use assms(1) in \<open>simp add: applyMessage_def message_effect_def\<close>)


lemma assemble_foldM:
  "\<forall>r\<in>set rs. \<exists>x. um (ib_Payload r) = Inr x \<Longrightarrow>
   assemble um cfg fin f st rs = foldM (assemble_chunk cfg fin f) st (map (\<lambda>r. projr (um (ib_Payload r))) rs)"
  by (induction rs arbitrary: st) (auto split: sum.splits)

lemma stmt_check_calm [simp]: "stmt calm (check None) w = (ticked w, None)"
  by simp

text \<open>A file is stored only with its declared size and digest, and with the content of its chunks.\<close>

lemma applyFile_stores:
  assumes "applyFile E calm cfg fin f w = (w', None)" "inbox_ok E y (mt_Inbox (wk_Meta w))" "m_Generation fin = y_Generation y"
  obtains content where "file_content E cfg fin f (map (held E) (mt_Inbox (wk_Meta w))) = Some content" "wk_Meta w' = wk_Meta w" "wk_Db w' = wk_Db w"
    "if AllowsFileOperation cfg (f_Operation f) \<and> wk_Files w \<noteq> None
     then \<exists>s'. te_put E (the (wk_Files w)) (f_Path f) content (f_Mode f) (f_ModTimeUnixNano f) = (s', None) \<and> wk_Files w' = Some s'
     else wk_Files w' = wk_Files w"
proof -
  let ?rs = "mt_Inbox (wk_Meta w)"
  have all: "sort_key ib_Seq (filter (\<lambda>r. ib_Generation r = m_Generation fin) ?rs) = ?rs"
    using assms(2,3) by (simp add: inbox_ok_def filter_id_conv [THEN iffD2] sort_key_strict)
  have dec: "assemble (unmarshal E) cfg fin f st ?rs = foldM (assemble_chunk cfg fin f) st (map (held E) ?rs)" for st
    using assms(2) by (intro assemble_foldM) (auto simp: inbox_ok_def)
  have run: "\<exists>seen n content. foldM (assemble_chunk cfg fin f) (False, 0, '''') (map (held E) ?rs) = Inr (seen, n, content) \<and>
      seen \<and> n = f_Chunks f \<and> int (length content) = f_Size f \<and> hex_EncodeToString (te_digest E content) = f_SHA256 f \<and>
      (\<exists>w1. (if \<not> AllowsFileOperation cfg (f_Operation f) then check None else put_file E f content) (ticked (ticked (ticked (ticked w)))) = (w1, None) \<and> w' = ticked w1)"
    using assms(1) unfolding applyFile_def
    by (simp add: all dec andthen_def split: if_split_asm sum.splits prod.splits option.splits) (rule exI [of _ True], simp)+
  then obtain seen n content w1 where r: "foldM (assemble_chunk cfg fin f) (False, 0, '''') (map (held E) ?rs) = Inr (seen, n, content)"
      "seen" "n = f_Chunks f" "int (length content) = f_Size f" "hex_EncodeToString (te_digest E content) = f_SHA256 f"
    and put: "(if \<not> AllowsFileOperation cfg (f_Operation f) then check None else put_file E f content) (ticked (ticked (ticked (ticked w)))) = (w1, None)" "w' = ticked w1"
    by blast
  have "wk_Meta w1 = wk_Meta w \<and> wk_Db w1 = wk_Db w \<and>
     (if AllowsFileOperation cfg (f_Operation f) \<and> wk_Files w \<noteq> None
     then \<exists>s'. te_put E (the (wk_Files w)) (f_Path f) content (f_Mode f) (f_ModTimeUnixNano f) = (s', None) \<and> wk_Files w1 = Some s'
     else wk_Files w1 = wk_Files w)"
    using put(1) by (auto simp: put_file_def split: if_splits option.splits prod.splits)
  then show thesis using r put(2) by (intro that [of content]) (simp_all add: file_content_def)
qed


text \<open>The two kinds that change the file store: when they succeed, they do what they should.\<close>

lemma file_end_follows:
  assumes "m_Kind m = ''file_end''" "fits m y" "tables_ok E y (wk_Meta w)" "applyMessage E calm pool cfg m raw (y_Phase y) w = (w', None)"
  shows "follows E m y0 y w (message_effect E cfg (wk_Files w \<noteq> None) m (y_Phase y) (view_at E y0 (wk_Meta w) (wk_Db w))) (w', None)"
proof -
  let ?M = "wk_Meta w"
  have g: "m_Generation m = y_Generation y" using assms(2) by (simp add: fits_def)
  have inbox: "inbox_ok E y (mt_Inbox ?M)" using assms(3) by (simp add: tables_ok_def)
  obtain f where f: "m_File m = Some f" "y_Phase y = ''stream''" "wk_Files w \<noteq> None"
      "andthen (applyFile E calm cfg m f) (meta_stmt calm (delete_inbox (\<lambda>g n. g = m_Generation m))) w = (w', None)"
    using assms(1,4) by (auto simp: applyMessage_def simp del: andthen_None split: option.splits if_splits)
  then obtain w1 where w1: "applyFile E calm cfg m f w = (w1, None)" "meta_stmt calm (delete_inbox (\<lambda>g n. g = m_Generation m)) w1 = (w', None)"
    by auto
  obtain content where c: "file_content E cfg m f (map (held E) (mt_Inbox ?M)) = Some content" "wk_Meta w1 = ?M" "wk_Db w1 = wk_Db w"
      "wk_Files w1 \<noteq> None"
    using applyFile_stores [OF w1(1) inbox g] f(3) by (metis option.distinct(1))
  have none: "filter (\<lambda>r. ib_Generation r \<noteq> m_Generation m) (mt_Inbox ?M) = []" using inbox g by (auto simp: filter_empty_conv inbox_ok_def)
  have w': "wk_Meta w' = ?M\<lparr>mt_Inbox := []\<rparr>" "wk_Db w' = wk_Db w" "wk_Files w' = wk_Files w1"
    using w1(2) c(2,3) none by (auto simp: meta_stmt_def delete_inbox_def)
  have ok: "tables_ok E (advance m y) (?M\<lparr>mt_Inbox := []\<rparr>)"
    using assms progress_advance [OF assms(2)] rows_advance [OF assms(2)] stage_advance [OF assms(2)] by (auto simp: tables_ok_def)
  show ?thesis using assms(1) f(1-3) c w' ok by (auto simp: message_effect_def view_at_def)
qed

lemma file_delete_follows:
  assumes "m_Kind m = ''file_delete''" "fits m y" "tables_ok E y (wk_Meta w)" "applyMessage E calm pool cfg m raw (y_Phase y) w = (w', None)"
  shows "follows E m y0 y w (message_effect E cfg (wk_Files w \<noteq> None) m (y_Phase y) (view_at E y0 (wk_Meta w) (wk_Db w))) (w', None)"
proof -
  have w': "y_Phase y = ''stream''" "wk_Files w \<noteq> None" "wk_Meta w' = wk_Meta w" "wk_Db w' = wk_Db w" "wk_Files w' \<noteq> None"
    using assms(1,4) by (auto simp: applyMessage_def split: option.splits if_splits prod.splits)
  have "tables_ok E (advance m y) (wk_Meta w)"
    using assms progress_advance [OF assms(2)] inbox_advance [OF assms(2)] rows_advance [OF assms(2)] stage_advance [OF assms(2)]
    by (auto simp: tables_ok_def closes_def)
  then show ?thesis using assms(1) w' by (auto simp: message_effect_def)
qed

definition file_effect :: "Message \<Rightarrow> bool" where
  "file_effect m \<longleftrightarrow> m_Kind m = ''file_end'' \<or> m_Kind m = ''file_delete''"

lemma applyMessage_follows:
  assumes "fits m y" "tables_ok E y (wk_Meta w)" "cache_ok E cfg (wk_Db w) (wk_Types w)" "unmarshal E raw = Inr m" "rows_codec E m"
    "file_effect m \<Longrightarrow> snd (applyMessage E calm (wk_Db w) cfg m raw (y_Phase y) w) = None"
  shows "follows E m y0 y w (message_effect E cfg (wk_Files w \<noteq> None) m (y_Phase y) (view_at E y0 (wk_Meta w) (wk_Db w)))
    (applyMessage E calm (wk_Db w) cfg m raw (y_Phase y) w)"
proof -
  consider "m_Kind m = ''snapshot_begin''" | "m_Kind m = ''schema''" | "m_Kind m = ''snapshot_rows''" | "m_Kind m = ''snapshot_end''"
    | "m_Kind m = ''schema_end''" | "joins m" | "m_Kind m = ''transaction_end''" | "m_Kind m = ''file_end''" | "m_Kind m = ''file_delete''"
    | "\<not> joins m" "m_Kind m \<notin> {''snapshot_begin'', ''schema'', ''snapshot_rows'', ''snapshot_end'', ''schema_end'', ''transaction_end'', ''file_end'', ''file_delete''}"
    by blast
  then show ?thesis
  proof cases
    case 1
    then show ?thesis by (rule snapshot_begin_follows [OF _ assms(1,2)])
  next
    case 2
    then show ?thesis by (rule schema_follows [OF _ assms(1,2)])
  next
    case 3
    then show ?thesis by (rule snapshot_rows_follows [OF _ assms(1,2,5)])
  next
    case 4
    then show ?thesis by (rule snapshot_end_follows [OF _ assms(1-3)])
  next
    case 5
    then show ?thesis by (rule schema_end_follows [OF _ assms(1-3)])
  next
    case 6
    then show ?thesis by (rule joins_follows [OF _ assms(1,2,4)])
  next
    case 7
    then show ?thesis by (rule transaction_end_follows [OF _ assms(1-3)])
  next
    case 8
    then show ?thesis using assms(6) file_end_follows [OF 8 assms(1,2), of "wk_Db w" cfg raw] by (cases "applyMessage E calm (wk_Db w) cfg m raw (y_Phase y) w") (simp add: file_effect_def)
  next
    case 9
    then show ?thesis using assms(6) file_delete_follows [OF 9 assms(1,2), of "wk_Db w" cfg raw] by (cases "applyMessage E calm (wk_Db w) cfg m raw (y_Phase y) w") (simp add: file_effect_def)
  next
    case 10
    then show ?thesis by (auto simp: applyMessage_def message_effect_def joins_def)
  qed
qed

end
