(* ===== verification/Target_Cache.thy ===== *)
theory Target_Cache
  imports Target_Refine
begin

text \<open>
  What a call keeps whether it succeeds or fails: the cache of column types agrees with the committed tables as long
  as no answer breaks off, and a target with a file store keeps having one.
\<close>

definition keeps :: "('s \<Rightarrow> bool) \<Rightarrow> 's step \<Rightarrow> bool" where
  "keeps P f \<longleftrightarrow> (\<forall>s. P s \<longrightarrow> P (fst (f s)))"

named_theorems keep "steps that keep the cache"

lemma keepsD: "keeps P f \<Longrightarrow> P s \<Longrightarrow> P (fst (f s))"
  by (simp add: keeps_def)

lemma keeps_andthen [keep]: "keeps P f \<Longrightarrow> keeps P g \<Longrightarrow> keeps P (andthen f g)"
  unfolding keeps_def by (metis andthen_keeps)

lemma keeps_each [keep]: "(\<And>x. keeps P (f x)) \<Longrightarrow> keeps P (each f xs)"
  unfolding keeps_def by (metis each_keeps)

lemma keeps_check [keep]: "keeps P (check e)"
  by (simp add: keeps_def check_def)

lemma keeps_cases:
  "keeps P f \<Longrightarrow> keeps P g \<Longrightarrow> keeps P (\<lambda>w. if b w then f w else g w)"
  "keeps P f \<Longrightarrow> (\<And>x. keeps P (h x)) \<Longrightarrow> keeps P (\<lambda>w. case o1 w of None \<Rightarrow> f w | Some x \<Rightarrow> h x w)"
  "(\<And>x. keeps P (k x)) \<Longrightarrow> (\<And>x. keeps P (l x)) \<Longrightarrow> keeps P (\<lambda>w. case s1 w of Inl x \<Rightarrow> k x w | Inr x \<Rightarrow> l x w)"
  "(\<And>x y. keeps P (q x y)) \<Longrightarrow> keeps P (\<lambda>w. case p w of (x, y) \<Rightarrow> q x y w)"
  "keeps P (\<lambda>w. (w, e w))"
  by (auto simp: keeps_def split: option.splits sum.splits prod.splits)

lemma keeps_dep: "(\<And>x. keeps P (f x)) \<Longrightarrow> keeps P (\<lambda>w. f (g w) w)"
  by (auto simp: keeps_def)

text \<open>The cache agrees with the tables \<open>pool\<close>, and there is a file store or there is none.\<close>

definition kept :: "('v, 'd, 'f, 'z) tenv_scheme \<Rightarrow> Syncer \<Rightarrow> 'd \<Rightarrow> bool \<Rightarrow> ('v, 'd, 'f) work \<Rightarrow> bool" where
  "kept E cfg pool none w \<longleftrightarrow> cache_ok E cfg pool (wk_Types w) \<and> (wk_Files w = None) = none"

definition unbroken :: "sio \<Rightarrow> bool" where
  "unbroken io \<longleftrightarrow> (\<forall>n. si_trunc io n = None)"

lemma keeps_stmt [keep]: "keeps (kept E cfg pool b) f \<Longrightarrow> keeps (kept E cfg pool b) (stmt io f)"
  by (auto simp: keeps_def stmt_def kept_def split: option.splits)

lemma keeps_meta_stmt [keep]: "keeps (kept E cfg pool b) (meta_stmt io g)"
  unfolding meta_stmt_def by (intro keeps_stmt) (simp add: keeps_def kept_def split: sum.splits)

lemma keeps_exec_stmt [keep]: "keeps (kept E cfg pool b) (exec_stmt E' io sql args one)"
  by (simp add: keeps_def kept_def exec_stmt_frame)

lemma cache_ok_upd: "cache_ok E cfg pool c \<Longrightarrow> table_types E cfg pool t = Inr ty \<Longrightarrow> cache_ok E cfg pool (c(t \<mapsto> ty))"
  by (auto simp: cache_ok_def)

lemma columnTypes_kept:
  assumes "unbroken io" "kept E cfg pool b w"
  shows "kept E cfg pool b (fst (columnTypes E io pool cfg table w))"
proof -
  let ?cols = "te_columns E pool (pg_TargetSchema (sy_Postgres cfg)) table"
  have "?cols \<noteq> [] \<Longrightarrow> table_types E cfg pool table = Inr (map_of (rev ?cols))" by (simp add: table_types_def)
  then have "?cols \<noteq> [] \<Longrightarrow> cache_ok E cfg pool ((wk_Types w)(table \<mapsto> map_of (rev ?cols)))"
    using assms(2) by (intro cache_ok_upd) (simp_all add: kept_def)
  then show ?thesis using assms by (simp add: columnTypes_def kept_def unbroken_def Let_def split: option.splits)
qed

lemma keeps_applyRow [keep]: "unbroken io \<Longrightarrow> keeps (kept E cfg pool b) (applyRow E io pool cfg row)"
  unfolding keeps_def
proof (intro allI impI)
  fix w
  assume "unbroken io" "kept E cfg pool b w"
  from columnTypes_kept [OF this, of "r_Table row"] this(2) show "kept E cfg pool b (fst (applyRow E io pool cfg row w))"
    by (cases "columnTypes E io pool cfg (r_Table row) w") (simp add: applyRow_def keepsD [OF keeps_exec_stmt] split: sum.splits)
qed

lemma keeps_add_columns [keep]: "keeps (kept E cfg pool b) (add_columns E' io cfg' s ty cs)"
proof (induction cs arbitrary: ty)
  case (Cons c cs)
  have "keeps (kept E cfg pool b) (\<lambda>w. case exec_stmt E' io sql [] None w of (w', Some e) \<Rightarrow> (w', Some e) | (w', None) \<Rightarrow> add_columns E' io cfg' s (ty(xc_Name c \<mapsto> t)) cs w')" for sql t
  proof -
    have "(\<lambda>w. case exec_stmt E' io sql [] None w of (w', Some e) \<Rightarrow> (w', Some e) | (w', None) \<Rightarrow> add_columns E' io cfg' s (ty(xc_Name c \<mapsto> t)) cs w') =
        andthen (exec_stmt E' io sql [] None) (add_columns E' io cfg' s (ty(xc_Name c \<mapsto> t)) cs)"
      by (auto simp: fun_eq_iff andthen_def split: prod.splits option.splits)
    then show ?thesis by (simp add: keeps_andthen keeps_exec_stmt Cons.IH)
  qed
  then show ?case unfolding add_columns.simps [abs_def] by (intro keeps_cases(1-3,5) Cons.IH)
qed (simp add: keeps_def)

lemma keeps_schemas [keep]: "keeps (kept E cfg pool b) (applyStagedSchemas E' io cfg' g v)"
proof -
  have "keeps (kept E cfg pool b) (apply_schema E' io cfg' s)" for s
    unfolding apply_schema_def Let_def
    by (rule keeps_stmt, rule keeps_cases(1), rule keeps_cases(5))
      (rule keeps_dep [of _ "\<lambda>ty. add_columns E' io cfg' s ty (xt_Columns s)"], rule keeps_add_columns)
  then show ?thesis unfolding applyStagedSchemas_def by (intro keeps_cases keep)
qed

lemma keeps_chunk [keep]: "unbroken io \<Longrightarrow> keeps (kept E cfg pool b) (apply_chunk E io pool cfg m item)"
  unfolding apply_chunk_def [abs_def] by (intro keeps_cases keep)

lemma apply_inbox_kept: "unbroken io \<Longrightarrow> kept E cfg pool b w \<Longrightarrow> kept E cfg pool b (fst (apply_inbox E io pool cfg m n w))"
proof (induction E io pool cfg m n w rule: apply_inbox.induct)
  case (1 E io pool cfg m n w)
  have "keeps (kept E cfg pool b) (each (apply_chunk E io pool cfg m) items)" for items using 1(2) by (intro keep)
  from keepsD [OF this, of "ticked w"] 1(3) have e: "kept E cfg pool b (fst (each (apply_chunk E io pool cfg m) items (ticked w)))" for items
    by (simp add: kept_def)
  show ?case using e 1 by (subst apply_inbox.simps) (auto simp: kept_def [of E cfg pool b "ticked w"] split: option.splits sum.splits prod.splits, (metis fst_conv kept_def)+)
qed


lemma apply_snapshot_kept: "unbroken io \<Longrightarrow> kept E cfg pool b w \<Longrightarrow> kept E cfg pool b (fst (apply_snapshot E io pool cfg g pos w))"
proof (induction E io pool cfg g pos w rule: apply_snapshot.induct)
  case (1 E io pool cfg g pos w)
  have "keeps (kept E cfg pool b) (each (applyRow E io pool cfg) rows)" for rows using 1(2) by (intro keep)
  from keepsD [OF this, of "ticked w"] 1(3) have e: "kept E cfg pool b (fst (each (applyRow E io pool cfg) rows (ticked w)))" for rows
    by (simp add: kept_def)
  show ?case using e 1 by (subst apply_snapshot.simps) (auto simp: kept_def [of E cfg pool b "ticked w"] split: option.splits sum.splits prod.splits, (metis fst_conv kept_def)+)
qed

lemma keeps_loops [keep]:
  "unbroken io \<Longrightarrow> keeps (kept E cfg pool b) (apply_inbox E io pool cfg m n)"
  "unbroken io \<Longrightarrow> keeps (kept E cfg pool b) (apply_snapshot E io pool cfg g pos)"
  by (simp_all add: keeps_def apply_inbox_kept apply_snapshot_kept)

lemma keeps_snapshot_end [keep]:
  assumes "unbroken io"
  shows "keeps (kept E cfg pool b) (snapshot_end E io pool cfg m)"
proof -
  have "keeps (kept E cfg pool b) (clear_table E io cfg r)" for r unfolding clear_table_def by (intro keep)
  then have "keeps (kept E cfg pool b) (andthen (each (clear_table E io cfg) rs) (andthen (apply_snapshot E io pool cfg g p) (andthen (meta_stmt io f) (meta_stmt io h))))"
    for rs g p f h using assms by (intro keep)
  then have "keeps (kept E cfg pool b) (\<lambda>w. andthen (each (clear_table E io cfg) (rs w)) (andthen (apply_snapshot E io pool cfg g p) (andthen (meta_stmt io f) (meta_stmt io h))) w)"
    for rs g p f h by (rule keeps_dep)
  moreover have "keeps (kept E cfg pool b) (if c then applyStagedSchemas E io cfg g v else check None)" for c g v
    by (cases c) (auto intro: keep)
  ultimately show ?thesis unfolding snapshot_end_def by (intro keeps_andthen keeps_stmt)
qed

lemma keeps_put_file [keep]: "keeps (kept E cfg pool b) (put_file E' f content)"
  by (auto simp: keeps_def kept_def put_file_def split: option.splits prod.splits)

lemma keeps_applyFile [keep]: "keeps (kept E cfg pool b) (applyFile E' io cfg' m f)"
proof -
  have c: "keeps (kept E cfg pool b) (if \<not> a then check None else put_file E' f content)" for a content by (cases a) (auto intro: keep)
  have inner: "keeps (kept E cfg pool b) (andthen (stmt io (check None)) (andthen (stmt io (check None)) (if \<not> a then check None else put_file E' f content)))"
    for a content by (intro keep c)
  have close: "keeps (kept E cfg pool b) (\<lambda>w. case g w of (w', e) \<Rightarrow> (case si_fail io (wk_Clock w') of None \<Rightarrow> (ticked w', e) | Some e' \<Rightarrow> (ticked w', joined e (Some e'))))"
    if "keeps (kept E cfg pool b) g" for g
    unfolding keeps_def
  proof (intro allI impI)
    fix w
    assume "kept E cfg pool b w"
    then have "kept E cfg pool b (fst (g w))" by (rule keepsD [OF that])
    then show "kept E cfg pool b (fst (case g w of (w', e) \<Rightarrow> (case si_fail io (wk_Clock w') of None \<Rightarrow> (ticked w', e) | Some e' \<Rightarrow> (ticked w', joined e (Some e')))))"
      by (auto simp: kept_def split: prod.splits option.splits)
  qed
  show ?thesis unfolding applyFile_def [abs_def]
    by (intro keeps_cases(1) keeps_cases(5) keeps_andthen close keeps_stmt keeps_check keeps_cases(3,4) inner)
qed

lemma keeps_applyMessage [keep]:
  assumes "unbroken io"
  shows "keeps (kept E cfg pool b) (applyMessage E io pool cfg m raw phase)"
proof -
  have s: "keeps (kept E cfg pool b) (add_scope io cfg r)" for r unfolding add_scope_def [abs_def] by (intro keeps_cases keep)
  have t: "keeps (kept E cfg pool b) (stageSchema E io cfg m)" unfolding stageSchema_def [abs_def] by (intro keeps_cases keep)
  have d: "keeps (kept E cfg pool b) (\<lambda>w. case (m_File m, wk_Files w) of
           (Some f, Some s) \<Rightarrow>
             if phase \<noteq> ''stream'' \<or> f_Operation f \<noteq> ''delete'' then (w, Some (Err ''invalid file_delete event''))
             else if \<not> AllowsFileOperation cfg ''delete'' then (w, None)
             else (case te_delete E s (f_Path f) of (s', e) \<Rightarrow> (w\<lparr>wk_Files := Some s'\<rparr>, e))
         | _ \<Rightarrow> (w, Some (Err ''invalid file_delete event'')))"
    by (auto simp: keeps_def kept_def split: option.splits prod.splits)
  show ?thesis unfolding applyMessage_def [abs_def] using assms by (intro d keeps_cases(1,2,3,5) s t keep)
qed

lemma keeps_store_body [keep]:
  assumes "unbroken io"
  shows "keeps (kept E cfg pool b) (store_body E io pool cfg m raw)"
proof -
  have n: "keeps (kept E cfg pool b) (store_new E io pool cfg m raw y)" for y
    unfolding store_new_def [abs_def] using assms by (intro keeps_cases(1,2,3,5) keep)
  have d: "keeps (kept E cfg pool b) (store_duplicate E io m raw)"
    unfolding store_duplicate_def by (intro keeps_stmt keeps_cases(1,2,3,5))
  have c: "keeps (kept E cfg pool b) (clear_generation io)" unfolding clear_generation_def by (intro keep)
  show ?thesis unfolding store_body_def by (intro keeps_stmt keeps_cases(1,2,3,5) keeps_andthen n d c)
qed

end
