(* ===== verification/Target_Run.thy ===== *)
theory Target_Run
  imports Target_Cache "HOL-Library.Sublist"
begin

text \<open>
  Calls of the target: a single one against the specification, and any sequence of them with failures,
  repetitions, lost answers and restarts.
\<close>

section \<open>One call\<close>

lemma hash_ok_new:
  assumes "hash_ok y hs" "m_Generation m = y_Generation y" "m_Seq m = Suc (y_Received y)"
  shows "map_of hs (m_Generation m, m_Seq m) = None" "hash_ok (advance m y') (((m_Generation m, m_Seq m), h) # hs)"
proof -
  have "(m_Generation m, m_Seq m) \<notin> fst ` set hs" using assms unfolding hash_ok_def by auto
  then show "map_of hs (m_Generation m, m_Seq m) = None" by (simp add: map_of_eq_None_iff)
  have "{1..Suc (y_Received y)} = insert (Suc (y_Received y)) {1..y_Received y}" by auto
  then show "hash_ok (advance m y') (((m_Generation m, m_Seq m), h) # hs)" using assms unfolding hash_ok_def by simp
qed

lemma store_new_follows:
  assumes "tables_ok E y0 (wk_Meta w)" "hash_ok y0 (mt_Hash (wk_Meta w))" "cache_ok E cfg (wk_Db w) (wk_Types w)"
    "unmarshal E raw = Inr m" "rows_codec E m" "m_Generation m = y_Generation y0"
    "file_effect m \<Longrightarrow> snd (store_new E calm (wk_Db w) cfg m raw y0 w) = None"
  shows "case spec_new E cfg (wk_Files w \<noteq> None) m (view_at E y0 (wk_Meta w) (wk_Db w)) of
      Inl e \<Rightarrow> snd (store_new E calm (wk_Db w) cfg m raw y0 w) = Some e
    | Inr v \<Rightarrow> \<exists>w'. store_new E calm (wk_Db w) cfg m raw y0 w = (w', None) \<and> meta_inv E (wk_Meta w') \<and> mt_State (wk_Meta w') = Some (v_State v) \<and>
        view_at E (v_State v) (wk_Meta w') (wk_Db w') = v \<and> (wk_Files w' = None) = (wk_Files w = None)"
proof (cases "m_Seq m = Suc (y_Received y0)")
  case True
  note seq = True
  show ?thesis
  proof (cases "store_checks cfg (wk_Files w \<noteq> None) m y0")
    case (Inl e)
    then show ?thesis using seq by (simp add: spec_new_def store_new_def)
  next
    case (Inr y)
    note fit = checks_fit [OF Inr assms(6) seq] and ok = tables_ok_checks [OF Inr assms(1)]
    let ?x = "applyMessage E calm (wk_Db w) cfg m raw (y_Phase y) w" and ?hash = "insert_hash (m_Generation m) (m_Seq m) (te_sha E raw)"
    have run: "store_new E calm (wk_Db w) cfg m raw y0 w = andthen (applyMessage E calm (wk_Db w) cfg m raw (y_Phase y))
           (andthen (meta_stmt calm ?hash) (meta_stmt calm (\<lambda>x. Inr (x\<lparr>mt_State := Some (advance m y)\<rparr>)))) w"
      using seq Inr by (simp add: store_new_def)
    have "file_effect m \<Longrightarrow> snd ?x = None" using assms(7) unfolding run by (auto simp: andthen_def split: prod.splits option.splits)
    note f = applyMessage_follows [OF fit ok assms(3-5) this, of y0]
    have spec: "spec_new E cfg (wk_Files w \<noteq> None) m (view_at E y0 (wk_Meta w) (wk_Db w)) =
        (case message_effect E cfg (wk_Files w \<noteq> None) m (y_Phase y) (view_at E y0 (wk_Meta w) (wk_Db w)) of Inl e \<Rightarrow> Inl e | Inr v' \<Rightarrow> Inr (v'\<lparr>v_State := advance m y\<rparr>))"
      using seq Inr by (simp add: spec_new_def)
    obtain w1 e where x: "?x = (w1, e)" by (cases ?x)
    show ?thesis
    proof (cases "message_effect E cfg (wk_Files w \<noteq> None) m (y_Phase y) (view_at E y0 (wk_Meta w) (wk_Db w))")
      case (Inl e')
      then show ?thesis using f x unfolding run spec by (simp add: andthen_def)
    next
      case (Inr v)
      then have w1: "e = None" "view_at E y0 (wk_Meta w1) (wk_Db w1) = v" "tables_ok E (advance m y) (wk_Meta w1)"
        "mt_Hash (wk_Meta w1) = mt_Hash (wk_Meta w)" "(wk_Files w1 = None) = (wk_Files w = None)" using f x by simp_all
      let ?M = "(wk_Meta w1)\<lparr>mt_Hash := ((m_Generation m, m_Seq m), te_sha E raw) # mt_Hash (wk_Meta w), mt_State := Some (advance m y)\<rparr>"
      let ?w = "(ticked (ticked w1))\<lparr>wk_Meta := ?M\<rparr>"
      note h = hash_ok_new [OF assms(2,6) seq]
      have "andthen (meta_stmt calm ?hash) (meta_stmt calm (\<lambda>x. Inr (x\<lparr>mt_State := Some (advance m y)\<rparr>))) w1 = (?w, None)"
        using h(1) w1(4) by (simp add: meta_stmt_def insert_hash_def andthen_def ticked_def)
      then have "store_new E calm (wk_Db w) cfg m raw y0 w = (?w, None)" unfolding run using x w1(1) by (simp add: andthen_def)
      moreover have "meta_inv E ?M" using w1(3) h(2) by (simp add: meta_inv_def tables_ok_def)
      moreover have "view_at E (advance m y) ?M (wk_Db w1) = v\<lparr>v_State := advance m y\<rparr>" using w1(2) by (auto simp: view_at_def)
      ultimately show ?thesis unfolding spec using Inr w1(5) by simp
    qed
  qed
qed (simp add: spec_new_def store_new_def)


definition sound_target :: "('v, 'd, 'f, 'z) tenv_scheme \<Rightarrow> ('v, 'd, 'f) target \<Rightarrow> bool" where
  "sound_target E t \<longleftrightarrow> meta_inv E (tg_Meta t) \<and> cache_ok E (tg_Cfg t) (tg_Db t) (tg_Types t)"

definition readable :: "('v, 'd, 'f, 'z) tenv_scheme \<Rightarrow> Message \<Rightarrow> 'v \<Rightarrow> bool" where
  "readable E m raw \<longleftrightarrow> unmarshal E raw = Inr m \<and> rows_codec E m"

definition spec_of :: "('v, 'd, 'f, 'z) tenv_scheme \<Rightarrow> ('v, 'd, 'f) target \<Rightarrow> Message \<Rightarrow> 'd view \<Rightarrow> 'd view res" where
  "spec_of E t = spec_store E (tg_Cfg t) (tg_Files t \<noteq> None)"

text \<open>What the body of a call on a new message does, without failures.\<close>

lemma store_body_follows:
  assumes "sound_target E t" "readable E m raw" "\<not> is_duplicate t m" "m_Seq m < bigint_limit"
    "file_effect m \<Longrightarrow> snd (store_body E calm (tg_Db t) (tg_Cfg t) m raw w) = None"
    "wk_Meta w = tg_Meta t" "wk_Db w = tg_Db t" "wk_Types w = tg_Types t" "wk_Files w = tg_Files t"
  shows "case spec_of E t m (view_of E t) of
      Inl e \<Rightarrow> snd (store_body E calm (tg_Db t) (tg_Cfg t) m raw w) = Some e
    | Inr v \<Rightarrow> \<exists>w'. store_body E calm (tg_Db t) (tg_Cfg t) m raw w = (w', None) \<and> meta_inv E (wk_Meta w') \<and> mt_State (wk_Meta w') = Some (v_State v) \<and>
        view_at E (v_State v) (wk_Meta w') (wk_Db w') = v \<and> (wk_Files w' = None) = (tg_Files t = None)"
proof -
  let ?cfg = "tg_Cfg t"
  obtain y where y: "mt_State (tg_Meta t) = Some y" "tables_ok E y (tg_Meta t)" "hash_ok y (mt_Hash (tg_Meta t))"
    using assms(1) by (auto simp: sound_target_def meta_inv_def)
  have cache: "cache_ok E ?cfg (tg_Db t) (tg_Types t)" using assms(1) by (simp add: sound_target_def)
  have raw: "unmarshal E raw = Inr m" "rows_codec E m" using assms(2) by (simp_all add: readable_def)
  have view: "view_of E t = view_at E y (tg_Meta t) (tg_Db t)" using y(1) by (simp add: view_of_def)
  show ?thesis
  proof (cases "m_Generation m = y_Generation y")
    case True
    have fresh: "\<not> m_Seq m \<le> y_Received y" using assms(3) True y(1) by (simp add: is_duplicate_def)
    have run: "store_body E calm (tg_Db t) ?cfg m raw w = store_new E calm (wk_Db (ticked w)) ?cfg m raw y (ticked w)"
      using assms(6,7) y(1) True fresh by (simp add: store_body_def)
    have spec: "spec_of E t m (view_of E t) = spec_new E ?cfg (wk_Files (ticked w) \<noteq> None) m (view_at E y (wk_Meta (ticked w)) (wk_Db (ticked w)))"
      using True assms(4,6,7,9) view by (simp add: spec_of_def spec_store_def)
    show ?thesis unfolding spec run
      using store_new_follows [of E y "ticked w" ?cfg raw m] y cache raw True assms(5-9) unfolding run by (simp split: sum.splits)
  next
    case False
    show ?thesis
    proof (cases "m_Seq m \<noteq> 1 \<or> m_Kind m \<noteq> ''snapshot_begin''")
      case True
      then show ?thesis using False y(1) view assms(4,6) by (simp add: store_body_def spec_of_def spec_store_def)
    next
      case start: False
      let ?y = "fresh_state m y" and ?M = "(tg_Meta t)\<lparr>mt_Inbox := [], mt_Rows := [], mt_Scope := [], mt_Hash := [], mt_Stage := []\<rparr>"
      let ?w = "(ticked (ticked (ticked (ticked (ticked (ticked w))))))\<lparr>wk_Meta := ?M\<rparr>"
      have "clear_generation calm (ticked w) = (?w, None)" using assms(6) by (simp add: clear_generation_def andthen_def meta_stmt_def ticked_def)
      then have run: "store_body E calm (tg_Db t) ?cfg m raw w = store_new E calm (wk_Db ?w) ?cfg m raw ?y ?w"
        using assms(6,7) y(1) False start by (simp add: store_body_def andthen_def)
      have ok: "tables_ok E ?y ?M" "hash_ok ?y (mt_Hash ?M)"
        by (simp_all add: tables_ok_def progress_ok_def fresh_state_def hash_ok_def)
      have spec: "spec_of E t m (view_of E t) = spec_new E ?cfg (wk_Files ?w \<noteq> None) m (view_at E ?y (wk_Meta ?w) (wk_Db ?w))"
        using False start assms(4,7,9) view by (simp add: spec_of_def spec_store_def view_at_def)
      have "m_Generation m = y_Generation ?y" by (simp add: fresh_state_def)
      then show ?thesis unfolding spec run
        using store_new_follows [of E ?y ?w ?cfg raw m] ok cache raw assms(5,7-9) unfolding run by (simp split: sum.splits)
    qed
  qed
qed


lemma store_body_success:
  assumes "sound_target E t" "readable E m raw" "\<not> is_duplicate t m" "m_Seq m < bigint_limit"
    "andthen (stmt io (check None)) (store_body E io (tg_Db t) (tg_Cfg t) m raw) (work_of t) = (w, None)"
  shows "spec_of E t m (view_of E t) = Inr (view_at E (the (mt_State (wk_Meta w))) (wk_Meta w) (wk_Db w)) \<and> meta_inv E (wk_Meta w)"
proof -
  have "tames (andthen (stmt io (check None)) (store_body E io (tg_Db t) (tg_Cfg t) m raw))
     (andthen (stmt calm (check None)) (store_body E calm (tg_Db t) (tg_Cfg t) m raw))" by (intro tame)
  from tamesD [OF this assms(5)] have "store_body E calm (tg_Db t) (tg_Cfg t) m raw (ticked (work_of t)) = (w, None)" by simp
  then show ?thesis using store_body_follows [OF assms(1-4), of "ticked (work_of t)"] by (auto split: sum.splits)
qed

lemma store_body_duplicate:
  assumes "is_duplicate t m" "andthen (stmt io (check None)) (store_body E io (tg_Db t) (tg_Cfg t) m raw) (work_of t) = (w, None)"
  shows "wk_Meta w = tg_Meta t \<and> wk_Db w = tg_Db t \<and> wk_Types w = tg_Types t \<and> wk_Files w = tg_Files t"
proof -
  have "tames (andthen (stmt io (check None)) (store_body E io (tg_Db t) (tg_Cfg t) m raw))
     (andthen (stmt calm (check None)) (store_body E calm (tg_Db t) (tg_Cfg t) m raw))" by (intro tame)
  from tamesD [OF this assms(2)] have "store_body E calm (tg_Db t) (tg_Cfg t) m raw (ticked (work_of t)) = (w, None)" by simp
  then show ?thesis using assms(1)
    by (auto simp: is_duplicate_def store_body_def store_duplicate_def split: option.splits if_splits)
qed

text \<open>Statements on rows leave the columns of the tables alone.\<close>

definition rows_keep_columns :: "('v, 'd, 'f, 'z) tenv_scheme \<Rightarrow> bool" where
  "rows_keep_columns E \<longleftrightarrow> (\<forall>d sql args d' n. te_exec E d sql args = Inr (d', n) \<longrightarrow>
     has_prefix sql ''INSERT '' \<or> has_prefix sql ''UPDATE '' \<or> has_prefix sql ''DELETE '' \<longrightarrow> te_columns E d' = te_columns E d)"

lemma row_statement_prefix:
  "row_statement table ty oper columns keys = Inr (sql, args, one) \<Longrightarrow>
   has_prefix sql ''INSERT '' \<or> has_prefix sql ''UPDATE '' \<or> has_prefix sql ''DELETE ''"
  by (auto simp: row_statement_def has_prefix_def split: if_splits sum.splits prod.splits)

lemma row_effect_columns:
  assumes "rows_keep_columns E" "row_effect E cfg pool d row = Inr d'"
  shows "te_columns E d' = te_columns E d"
proof -
  obtain sql args one ty columns keys where s: "row_statement (target_name cfg (r_Table row)) ty (r_Operation row) columns keys = Inr (sql, args, one)"
      "exec_effect E sql args one d = Inr d'"
    using assms(2) by (auto simp: row_effect_def split: if_splits sum.splits)
  then obtain n where "te_exec E d sql args = Inr (d', n)" by (auto simp: exec_effect_def split: sum.splits option.splits if_splits)
  with row_statement_prefix [OF s(1)] assms(1) show ?thesis unfolding rows_keep_columns_def by blast
qed

definition alters :: "Message \<Rightarrow> bool" where
  "alters m \<longleftrightarrow> m_Kind m = ''snapshot_end'' \<or> m_Kind m = ''schema_end''"

lemma message_effect_columns:
  assumes "rows_keep_columns E" "message_effect E cfg hf m phase v = Inr v'" "\<not> alters m"
  shows "te_columns E (v_Db v') = te_columns E (v_Db v)"
proof (cases "m_Kind m = ''transaction_end''")
  case True
  then obtain d where d: "transaction_effect E cfg v = Inr d" "v_Db v' = d"
    using assms(2) by (auto simp: message_effect_def split: if_splits sum.splits)
  have "te_columns E d = te_columns E (v_Db v)"
    using d(1) unfolding transaction_effect_def
    by (rule foldM_invariant) (auto dest: row_effect_columns [OF assms(1)])
  then show ?thesis using d(2) by simp
next
  case False
  then have "v_Db v' = v_Db v" using assms(2,3) unfolding message_effect_def alters_def by (auto split: if_split_asm sum.split_asm option.split_asm)
  then show ?thesis by simp
qed

lemma spec_new_Inr:
  assumes "spec_new E cfg hf m v = Inr v'"
  obtains y v1 where "m_Seq m = Suc (y_Received (v_State v))" "store_checks cfg hf m (v_State v) = Inr y"
    "message_effect E cfg hf m (y_Phase y) v = Inr v1" "v' = v1\<lparr>v_State := advance m y\<rparr>"
  using assms by (auto simp: spec_new_def split: if_splits sum.splits)

lemma spec_of_Inr:
  assumes "spec_of E t m v = Inr v'"
  obtains v0 where "spec_new E (tg_Cfg t) (tg_Files t \<noteq> None) m v0 = Inr v'" "v_Db v0 = v_Db v"
  using assms by (auto simp: spec_of_def spec_store_def split: if_splits)

lemma spec_columns:
  assumes "rows_keep_columns E" "spec_of E t m v = Inr v'" "\<not> alters m"
  shows "te_columns E (v_Db v') = te_columns E (v_Db v)"
proof -
  obtain v0 where v0: "spec_new E (tg_Cfg t) (tg_Files t \<noteq> None) m v0 = Inr v'" "v_Db v0 = v_Db v" by (rule spec_of_Inr [OF assms(2)])
  from v0(1) show ?thesis
    by (rule spec_new_Inr) (use message_effect_columns [OF assms(1) _ assms(3)] v0(2) in auto)
qed

text \<open>A call leaves metadata and tables alone, or its message has its effect; the target stays sound.\<close>

definition careful :: "sio \<Rightarrow> Message \<Rightarrow> bool" where
  "careful io m \<longleftrightarrow> unbroken io \<and> (si_lost io \<longrightarrow> \<not> alters m)"

lemma cache_ok_columns: "te_columns E d' = te_columns E d \<Longrightarrow> cache_ok E cfg d' c = cache_ok E cfg d c"
  by (simp add: cache_ok_def table_types_def)

lemma store_kept:
  assumes "sound_target E t" "unbroken io" "andthen (stmt io (check None)) (store_body E io (tg_Db t) (tg_Cfg t) m raw) (work_of t) = (w, r)"
  shows "cache_ok E (tg_Cfg t) (tg_Db t) (wk_Types w)" "(wk_Files w = None) = (tg_Files t = None)"
proof -
  have "keeps (kept E (tg_Cfg t) (tg_Db t) (tg_Files t = None)) (andthen (stmt io (check None)) (store_body E io (tg_Db t) (tg_Cfg t) m raw))"
    using assms(2) by (intro keep)
  from keepsD [OF this, of "work_of t"] assms(1,3)
  show "cache_ok E (tg_Cfg t) (tg_Db t) (wk_Types w)" "(wk_Files w = None) = (tg_Files t = None)" by (simp_all add: kept_def sound_target_def)
qed

lemma committed_sound:
  assumes "sound_target E t" "readable E m raw" "m_Seq m < bigint_limit" "rows_keep_columns E" "unbroken io"
    "andthen (stmt io (check None)) (store_body E io (tg_Db t) (tg_Cfg t) m raw) (work_of t) = (w, None)"
  shows "view_of E (committed t w) = view_of E t \<or> spec_of E t m (view_of E t) = Inr (view_of E (committed t w))"
    "meta_inv E (wk_Meta w)" "is_duplicate t m \<or> \<not> alters m \<Longrightarrow> cache_ok E (tg_Cfg t) (wk_Db w) (wk_Types w)"
proof -
  note k = store_kept [OF assms(1,5,6)]
  have "(view_of E (committed t w) = view_of E t \<or> spec_of E t m (view_of E t) = Inr (view_of E (committed t w))) \<and> meta_inv E (wk_Meta w) \<and>
     (is_duplicate t m \<or> \<not> alters m \<longrightarrow> cache_ok E (tg_Cfg t) (wk_Db w) (wk_Types w))"
  proof (cases "is_duplicate t m")
    case True
    then show ?thesis using store_body_duplicate [OF True assms(6)] k(1) assms(1) by (simp add: view_of_def sound_target_def)
  next
    case False
    note s = store_body_success [OF assms(1,2) False assms(3,6)]
    have "\<not> alters m \<Longrightarrow> te_columns E (wk_Db w) = te_columns E (tg_Db t)"
      using spec_columns [OF assms(4), of t m "view_of E t"] s by (simp add: view_of_def)
    then have "\<not> alters m \<Longrightarrow> cache_ok E (tg_Cfg t) (wk_Db w) (wk_Types w)" using k(1) by (metis cache_ok_columns)
    then show ?thesis using s False by (simp add: view_of_def [of E "committed t w"])
  qed
  then show "view_of E (committed t w) = view_of E t \<or> spec_of E t m (view_of E t) = Inr (view_of E (committed t w))"
    "meta_inv E (wk_Meta w)" "is_duplicate t m \<or> \<not> alters m \<Longrightarrow> cache_ok E (tg_Cfg t) (wk_Db w) (wk_Types w)" by blast+
qed

lemma rolled_back_sound:
  assumes "sound_target E t" "unbroken io" "andthen (stmt io (check None)) (store_body E io (tg_Db t) (tg_Cfg t) m raw) (work_of t) = (w, r)"
  shows "view_of E (rolled_back t w) = view_of E t" "sound_target E (rolled_back t w)"
  using store_kept [OF assms] assms(1) by (simp_all add: view_of_def sound_target_def)

lemma store_step:
  assumes "target_store E io m raw t = (t', r)" "sound_target E t" "readable E m raw" "careful io m" "rows_keep_columns E"
  shows "view_of E t' = view_of E t \<or> spec_of E t m (view_of E t) = Inr (view_of E t')" "sound_target E t'" "tg_Cfg t' = tg_Cfg t"
    "(tg_Files t' = None) = (tg_Files t = None)" "r = None \<Longrightarrow> \<not> is_duplicate t m \<Longrightarrow> spec_of E t m (view_of E t) = Inr (view_of E t')"
proof -
  have io: "unbroken io" using assms(4) by (simp add: careful_def)
  have "(view_of E t' = view_of E t \<or> spec_of E t m (view_of E t) = Inr (view_of E t')) \<and> sound_target E t' \<and> tg_Cfg t' = tg_Cfg t \<and>
     (tg_Files t' = None) = (tg_Files t = None) \<and> (r = None \<longrightarrow> \<not> is_duplicate t m \<longrightarrow> spec_of E t m (view_of E t) = Inr (view_of E t'))"
    using assms(1)
  proof (cases rule: target_store_cases)
    case refused
    then show ?thesis using assms(2) by auto
  next
    case (failed w e)
    then show ?thesis using rolled_back_sound [OF assms(2) io failed(2)] store_kept(2) [OF assms(2) io failed(2)] by simp
  next
    case (uncommitted w e)
    note c = committed_sound [OF assms(2,3) uncommitted(1) assms(5) io uncommitted(2)]
    have "si_lost io \<Longrightarrow> \<not> alters m" using assms(4) by (simp add: careful_def)
    then show ?thesis using c uncommitted rolled_back_sound [OF assms(2) io uncommitted(2)] store_kept(2) [OF assms(2) io uncommitted(2)]
      by (cases "si_lost io") (auto simp: sound_target_def)
  next
    case (stored w)
    note c = committed_sound [OF assms(2,3) stored(1) assms(5) io stored(2)]
    have empty: "cache_ok E cfg d Map.empty" for cfg d by (simp add: cache_ok_def)
    have v: "view_of E t' = view_of E (committed t w)" "tg_Files t' = wk_Files w" using stored(5) by (auto simp: view_of_def)
    have "sound_target E t'" using c(2,3) stored(5) empty by (auto simp: sound_target_def alters_def)
    moreover have "\<not> is_duplicate t m \<Longrightarrow> spec_of E t m (view_of E t) = Inr (view_of E (committed t w))"
      using store_body_success [OF assms(2,3) _ stored(1,2)] by (simp add: view_of_def)
    ultimately show ?thesis using c(1) v stored(5) store_kept(2) [OF assms(2) io stored(2)] by auto
  qed
  then show "view_of E t' = view_of E t \<or> spec_of E t m (view_of E t) = Inr (view_of E t')" "sound_target E t'" "tg_Cfg t' = tg_Cfg t"
    "(tg_Files t' = None) = (tg_Files t = None)" "r = None \<Longrightarrow> \<not> is_duplicate t m \<Longrightarrow> spec_of E t m (view_of E t) = Inr (view_of E t')" by blast+
qed


section \<open>Sequences of calls\<close>

text \<open>A call with its failures, or a restart of the server, which empties the cache.\<close>

datatype 'v call = Call sio Message 'v | Restart

fun target_run :: "('v, 'd, 'f, 'z) tenv_scheme \<Rightarrow> 'v call list \<Rightarrow> ('v, 'd, 'f) target \<Rightarrow> ('v, 'd, 'f) target" where
  "target_run E [] t = t"
| "target_run E (Call io m raw # cs) t = target_run E cs (fst (target_store E io m raw t))"
| "target_run E (Restart # cs) t = target_run E cs (invalidateTypes t)"

fun call_messages :: "'v call list \<Rightarrow> Message list" where
  "call_messages [] = []"
| "call_messages (Call io m raw # cs) = m # call_messages cs"
| "call_messages (Restart # cs) = call_messages cs"

fun calls_ok :: "('v, 'd, 'f, 'z) tenv_scheme \<Rightarrow> 'v call list \<Rightarrow> bool" where
  "calls_ok E [] \<longleftrightarrow> True"
| "calls_ok E (Call io m raw # cs) \<longleftrightarrow> readable E m raw \<and> careful io m \<and> calls_ok E cs"
| "calls_ok E (Restart # cs) \<longleftrightarrow> calls_ok E cs"

lemma invalidateTypes_sound: "sound_target E t \<Longrightarrow> sound_target E (invalidateTypes t)" "view_of E (invalidateTypes t) = view_of E t"
  by (simp_all add: sound_target_def view_of_def cache_ok_def)

lemma spec_of_same: "tg_Cfg t' = tg_Cfg t \<Longrightarrow> (tg_Files t' = None) = (tg_Files t = None) \<Longrightarrow> spec_of E t' = spec_of E t"
  by (auto simp: spec_of_def)

lemma target_run_replays:
  assumes "calls_ok E cs" "sound_target E t" "rows_keep_columns E"
  shows "\<exists>ms. subseq ms (call_messages cs) \<and> foldM (\<lambda>v m. spec_of E t m v) (view_of E t) ms = Inr (view_of E (target_run E cs t)) \<and>
    sound_target E (target_run E cs t)"
  using assms
proof (induction E cs t rule: target_run.induct)
  case (1 E t)
  then show ?case by (intro exI [of _ "[]"]) simp
next
  case (2 E io m raw cs t)
  obtain t' r where t': "target_store E io m raw t = (t', r)" by (cases "target_store E io m raw t")
  have ok: "readable E m raw" "careful io m" "calls_ok E cs" using 2(2) by simp_all
  note s = store_step [OF t' 2(3) ok(1,2) 2(4)]
  obtain ms where ms: "subseq ms (call_messages cs)" "foldM (\<lambda>v m. spec_of E t' m v) (view_of E t') ms = Inr (view_of E (target_run E cs t'))"
      "sound_target E (target_run E cs t')"
    using 2(1) [OF _ _ 2(4)] ok(3) s(2) t' by auto
  note ms' = ms(2) [unfolded spec_of_same [OF s(3,4), of E]]
  from s(1) show ?case
  proof
    assume "view_of E t' = view_of E t"
    then show ?thesis using ms(1,3) ms' t' by (intro exI [of _ ms]) auto
  next
    assume "spec_of E t m (view_of E t) = Inr (view_of E t')"
    then show ?thesis using ms(1,3) ms' t' by (intro exI [of _ "m # ms"]) simp
  qed
next
  case (3 E cs t)
  then show ?case using invalidateTypes_sound [of E t] spec_of_same [of "invalidateTypes t" t E] by simp
qed

end
