(* ===== verification/Target_Props.thy ===== *)
theory Target_Props
  imports Target_Run
begin

text \<open>
  The properties of the target: what single calls and sequences of calls do to tables, metadata and files,
  and where the code departs from what it promises.
\<close>

section \<open>Samples\<close>

definition id_column :: "string \<Rightarrow> Column" where
  "id_column v = zero_Column\<lparr>c_Name := ''id'', c_Value := Some v\<rparr>"

definition insert_row :: "Column list \<Rightarrow> Row" where
  "insert_row cs = zero_Row\<lparr>r_Schema := ''public'', r_Table := ''t'', r_Operation := ''insert'', r_Columns := cs\<rparr>"

definition rows_msg :: "nat \<Rightarrow> Row list \<Rightarrow> Message" where
  "rows_msg n rows = (sample_msg ''transaction_rows'' n)\<lparr>m_Transaction := ''7'', m_Rows := rows\<rparr>"

definition end_msg :: "nat \<Rightarrow> Message" where
  "end_msg n = (sample_msg ''transaction_end'' n)\<lparr>m_Transaction := ''7''\<rparr>"

lemma sample_readable: "readable sample_tenv m m"
  by (auto simp: readable_def rows_codec_def sample_tenv_def)

lemma has_prefix_hd: "has_prefix s (c # cs) \<Longrightarrow> \<exists>r. s = c # r"
  by (cases s) (auto simp: has_prefix_def)

lemma sample_rows_keep_columns: "rows_keep_columns sample_tenv"
  by (auto simp: rows_keep_columns_def sample_tenv_def fun_eq_iff dest!: has_prefix_hd)

lemma streaming_sound: "sound_target sample_tenv streaming"
proof -
  have "{Suc 0..3} = {1, 2, 3::nat}" by auto
  then have "hash_ok (sample_sync ''stream'' '''') (mt_Hash (tg_Meta streaming))"
    by (auto simp: hash_ok_def streaming_def sample_target_def sample_meta_def sample_sync_def image_iff)
  then show ?thesis
    by (auto simp: sound_target_def meta_inv_def tables_ok_def progress_ok_def streaming_def sample_target_def sample_meta_def sample_sync_def cache_ok_def)
qed

section \<open>Sequences of calls\<close>



section \<open>Single calls\<close>

lemma store_calm_spec:
  assumes "target_store E calm m raw t = (t', r)" "sound_target E t" "readable E m raw" "\<not> is_duplicate t m" "file_effect m \<Longrightarrow> r = None"
  shows "case spec_of E t m (view_of E t) of Inl e \<Rightarrow> r = Some e | Inr v \<Rightarrow> r = None \<and> view_of E t' = v"
proof (cases "m_Seq m < bigint_limit")
  case True
  let ?x = "store_body E calm (tg_Db t) (tg_Cfg t) m raw (ticked (work_of t))"
  have run: "target_store E calm m raw t = (case ?x of (w, Some e) \<Rightarrow> (rolled_back t w, Some e)
      | (w, None) \<Rightarrow> (if alters m then invalidateTypes (committed t w) else committed t w, None))"
    using True assms(4) by (simp add: target_store_def andthen_def alters_def split: prod.splits option.splits)
  have "file_effect m \<Longrightarrow> snd ?x = None" using assms(1,5) run by (auto split: prod.splits option.splits)
  note f = store_body_follows [OF assms(2-4) True this]
  show ?thesis using f assms(1) unfolding run by (cases "?x") (auto simp: view_of_def split: sum.splits option.splits if_splits)
next
  case False
  then show ?thesis using assms(1) by (simp add: target_store_def spec_of_def spec_store_def)
qed


lemma store_calm_accepts:
  assumes "spec_of E t m (view_of E t) = Inr v" "sound_target E t" "readable E m raw" "\<not> is_duplicate t m" "\<not> file_effect m"
  shows "\<exists>t'. target_store E calm m raw t = (t', None) \<and> view_of E t' = v"
  using store_calm_spec [OF _ assms(2-4)] assms(1,5) by (cases "target_store E calm m raw t") auto


lemma small_message [simp]: "m_Seq (rows_msg n rows) = n" "m_Seq (end_msg n) = n" "m_Kind (end_msg n) = ''transaction_end''"
  "m_Kind (rows_msg n rows) = ''transaction_rows''" "m_Transaction (end_msg n) = ''7''" "m_Transaction (rows_msg n rows) = ''7''"
  "m_Generation (end_msg n) = ''g1''" "m_Generation (rows_msg n rows) = ''g1''" "m_Rows (rows_msg n rows) = rows"
  "m_SchemaVersion (end_msg n) = ''v1''" "m_SchemaVersion (rows_msg n rows) = ''v1''"
  by (simp_all add: rows_msg_def end_msg_def sample_msg_def kind_msg_def)

text \<open>The target with one message of the open transaction in the inbox.\<close>

definition holding :: "Row list \<Rightarrow> (Message, statement_log, content_map) target" where
  "holding rows = sample_target \<lparr>mt_State = Some ((sample_sync ''stream'' ''7'')\<lparr>y_Received := 4\<rparr>),
     mt_Inbox = [\<lparr>ib_Generation = ''g1'', ib_Seq = 4, ib_ID = '''', ib_Payload = rows_msg 4 rows\<rparr>], mt_Scope = [], mt_Rows = [],
     mt_Hash = [((''g1'', 4), ''transaction_rows''), ((''g1'', 1), ''snapshot_begin''), ((''g1'', 2), ''schema''), ((''g1'', 3), ''snapshot_end'')], mt_Stage = []\<rparr>"

lemma holding_simps [simp]:
  "tg_Cfg (holding rows) = sample_syncer ''one'' ''t'' no_storage" "tg_Db (holding rows) = []" "tg_Types (holding rows) = Map.empty" "tg_Files (holding rows) = None"
  "mt_State (tg_Meta (holding rows)) = Some ((sample_sync ''stream'' ''7'')\<lparr>y_Received := 4\<rparr>)" "\<not> is_duplicate (holding rows) (end_msg 5)"
  "v_Held (view_of sample_tenv (holding rows)) = [rows_msg 4 rows]" "v_State (view_of sample_tenv (holding rows)) = (sample_sync ''stream'' ''7'')\<lparr>y_Received := 4\<rparr>"
  "v_Db (view_of sample_tenv (holding rows)) = []"
  by (simp_all add: holding_def sample_target_def is_duplicate_def view_of_def view_at_def sample_tenv_def)

lemma holding_sound: "sound_target sample_tenv (holding rows)"
proof -
  let ?y = "(sample_sync ''stream'' ''7'')\<lparr>y_Received := 4\<rparr>"
  have "{Suc 0..4} = {1, 2, 3, 4::nat}" by auto
  then have h: "hash_ok ?y (mt_Hash (tg_Meta (holding rows)))" by (auto simp: hash_ok_def holding_def sample_target_def sample_sync_def image_iff)
  have "inbox_ok sample_tenv ?y (mt_Inbox (tg_Meta (holding rows)))"
    by (simp add: inbox_ok_def holding_def sample_target_def sample_sync_def sample_tenv_def)
  then have "tables_ok sample_tenv ?y (tg_Meta (holding rows))"
    by (simp add: tables_ok_def progress_ok_def sample_sync_def holding_def sample_target_def)
  then show ?thesis using h by (simp add: sound_target_def meta_inv_def cache_ok_def)
qed

lemma sample_types: "table_types sample_tenv (sample_syncer ''one'' ''t'' no_storage) [] ''t'' = Inr [''id'' \<mapsto> ''integer'']"
  by (simp add: table_types_def sample_tenv_def fun_eq_iff)

lemma sample_allows: "Allows (sample_syncer ''one'' ''t'' no_storage) ''public'' ''t''" "FileMapping (sample_syncer ''one'' ''t'' no_storage) a b c = None"
  by (simp_all add: Allows_def FileMapping_def sample_syncer_def)

lemma sample_insert_effect:
  "row_effect sample_tenv (sample_syncer ''one'' ''t'' no_storage) [] d (insert_row [id_column ''1'']) =
   Inr (d @ [(''INSERT INTO '' @ target_name (sample_syncer ''one'' ''t'' no_storage) ''t'' @ '' ('' @ quote ''id'' @ '') VALUES ($1::text::integer)'', [TextArg (Some ''1'')])])"
proof -
  have "row_statement (target_name (sample_syncer ''one'' ''t'' no_storage) ''t'') [''id'' \<mapsto> ''integer''] ''insert'' [text_column ''id'' (Some ''1'')] [] =
     Inr (''INSERT INTO '' @ target_name (sample_syncer ''one'' ''t'' no_storage) ''t'' @ '' ('' @ quote ''id'' @ '') VALUES ($1::text::integer)'', [TextArg (Some ''1'')], None)"
    by (simp add: row_statement_def expression_def text_column_def placeholder_def dec.simps digit_def char_of_def bit_0)
  then show ?thesis
    by (simp add: row_effect_def insert_row_def id_column_def zero_Row_def zero_Column_def sample_allows sample_types exec_effect_def) (simp add: sample_tenv_def)
qed


lemma sample_transaction:
  "\<exists>t'. target_store sample_tenv calm (end_msg 5) (end_msg 5) (holding [insert_row [id_column ''1'']]) = (t', None) \<and> length (tg_Db t') = 1"
proof -
  let ?t = "holding [insert_row [id_column ''1'']]" and ?cfg = "sample_syncer ''one'' ''t'' no_storage"
  have "store_checks ?cfg False (end_msg 5) ((sample_sync ''stream'' ''7'')\<lparr>y_Received := 4\<rparr>) = Inr ((sample_sync ''stream'' ''7'')\<lparr>y_Received := 4\<rparr>)"
    by (simp add: store_checks_def has_prefix_def schema_barrier_def open_guard_def sample_sync_def)
  then have "\<exists>v. spec_of sample_tenv ?t (end_msg 5) (view_of sample_tenv ?t) = Inr v \<and> length (v_Db v) = 1"
    using small_seq [of 5] sample_insert_effect
    by (simp add: spec_of_def spec_store_def spec_new_def message_effect_def transaction_effect_def sample_sync_def)
  moreover have "\<not> file_effect (end_msg 5)" by (simp add: file_effect_def)
  ultimately obtain t' v where "target_store sample_tenv calm (end_msg 5) (end_msg 5) ?t = (t', None)" "view_of sample_tenv t' = v" "length (v_Db v) = 1"
    using store_calm_accepts [OF _ holding_sound sample_readable] by fastforce
  then show ?thesis by (auto simp: view_of_def)
qed

lemma store_checks_same:
  assumes "store_checks cfg hf m y0 = Inr y" "\<not> joins m" "m_Kind m \<noteq> ''schema''"
  shows "y = y0"
proof -
  obtain y1 where y1: "schema_barrier m y0 = Inr y1" "open_guard m y1 = Inr y" using store_checks_Inr [OF assms(1)] by blast
  show ?thesis using schema_barrier_Inr [OF y1(1)] open_guard_same [OF y1(2) assms(2)] assms(3) by auto
qed

text \<open>The effect of a message that was stored.\<close>

lemma stored_effect:
  assumes "target_store E io m raw t = (t', None)" "sound_target E t" "readable E m raw" "\<not> is_duplicate t m" "m_Kind m \<noteq> ''snapshot_begin''"
  obtains y v1 where "m_Generation m = y_Generation (v_State (view_of E t))" "m_Seq m = Suc (y_Received (v_State (view_of E t)))" "store_checks (tg_Cfg t) (tg_Files t \<noteq> None) m (v_State (view_of E t)) = Inr y"
    "message_effect E (tg_Cfg t) (tg_Files t \<noteq> None) m (y_Phase y) (view_of E t) = Inr v1" "view_of E t' = v1\<lparr>v_State := advance m y\<rparr>"
proof -
  have lt: "m_Seq m < bigint_limit" and run: "\<exists>w. andthen (stmt io (check None)) (store_body E io (tg_Db t) (tg_Cfg t) m raw) (work_of t) = (w, None) \<and> tg_Meta t' = wk_Meta w \<and> tg_Db t' = wk_Db w"
    using assms(1) by (cases rule: target_store_cases; auto)+
  then obtain w where w: "andthen (stmt io (check None)) (store_body E io (tg_Db t) (tg_Cfg t) m raw) (work_of t) = (w, None)" "tg_Meta t' = wk_Meta w" "tg_Db t' = wk_Db w"
    by blast
  note s = store_body_success [OF assms(2-4) lt w(1)]
  have g: "m_Generation m = y_Generation (v_State (view_of E t))" using s assms(5) by (auto simp: spec_of_def spec_store_def split: if_splits)
  then have "spec_new E (tg_Cfg t) (tg_Files t \<noteq> None) m (view_of E t) = Inr (view_of E t')"
    using s lt w by (simp add: spec_of_def spec_store_def view_of_def)
  then show thesis by (rule spec_new_Inr) (rule that [OF g])
qed

text \<open>C11. When the end of a transaction is stored, the rows of all its messages were applied to the tables in their
  order, the rows of a message in theirs, and the inbox is empty.\<close>

theorem transaction_end_applies:
  assumes "target_store E io m raw t = (t', None)" "sound_target E t" "readable E m raw" "\<not> is_duplicate t m" "m_Kind m = ''transaction_end''"
  shows "foldM (row_effect E (tg_Cfg t) (tg_Db t)) (tg_Db t) (concat (map m_Rows (v_Held (view_of E t)))) = Inr (tg_Db t') \<and> mt_Inbox (tg_Meta t') = []"
proof -
  have k: "m_Kind m \<noteq> ''snapshot_begin''" using assms(5) by simp
  obtain y v1 where v1: "message_effect E (tg_Cfg t) (tg_Files t \<noteq> None) m (y_Phase y) (view_of E t) = Inr v1" "view_of E t' = v1\<lparr>v_State := advance m y\<rparr>"
    by (rule stored_effect [OF assms(1-4) k])
  then have "transaction_effect E (tg_Cfg t) (view_of E t) = Inr (v_Db (view_of E t'))" "v_Held (view_of E t') = []"
    using assms(5) by (auto simp: message_effect_def split: if_splits sum.splits)
  then show ?thesis by (simp add: transaction_effect_def view_of_def)
qed

theorem transaction_end_applies_witness:
  "\<exists>t'. target_store sample_tenv calm (end_msg 5) (end_msg 5) (holding [insert_row [id_column ''1'']]) = (t', None) \<and> length (tg_Db t') = 1 \<and>
     foldM (row_effect sample_tenv (sample_syncer ''one'' ''t'' no_storage) []) [] [insert_row [id_column ''1'']] = Inr (tg_Db t')"
proof -
  obtain t' where t': "target_store sample_tenv calm (end_msg 5) (end_msg 5) (holding [insert_row [id_column ''1'']]) = (t', None)" "length (tg_Db t') = 1"
    using sample_transaction by blast
  from transaction_end_applies [OF t'(1) holding_sound sample_readable] t' show ?thesis by simp
qed


text \<open>C13. When the end of a snapshot is stored, the missing columns were added, the tables of the scope cleared in reverse order
  and the rows of the snapshot inserted in their order, and nothing of the snapshot is left in the staging tables.\<close>

theorem snapshot_end_publishes:
  assumes "target_store E io m raw t = (t', None)" "sound_target E t" "readable E m raw" "\<not> is_duplicate t m" "m_Kind m = ''snapshot_end''"
  shows "snapshot_effect E (tg_Cfg t) m (view_of E t) = Inr (tg_Db t') \<and> mt_Rows (tg_Meta t') = [] \<and> mt_Scope (tg_Meta t') = [] \<and> mt_Stage (tg_Meta t') = [] \<and>
    v_State (view_of E t') = (v_State (view_of E t))\<lparr>y_Received := m_Seq m, y_Applied := m_Seq m, y_Phase := ''stream''\<rparr>"
proof -
  have k: "m_Kind m \<noteq> ''snapshot_begin''" using assms(5) by simp
  obtain y v1 where s: "m_Generation m = y_Generation (v_State (view_of E t))" "store_checks (tg_Cfg t) (tg_Files t \<noteq> None) m (v_State (view_of E t)) = Inr y"
    "message_effect E (tg_Cfg t) (tg_Files t \<noteq> None) m (y_Phase y) (view_of E t) = Inr v1" "view_of E t' = v1\<lparr>v_State := advance m y\<rparr>"
    by (rule stored_effect [OF assms(1-4) k])
  have "y = v_State (view_of E t)" by (rule store_checks_same [OF s(2)]) (simp_all add: assms(5) joins_def)
  moreover have "applies m" "phase_after m p = ''stream''" for p using assms(5) by (simp_all add: applies_def phase_after_def)
  ultimately have "advance m y = (v_State (view_of E t))\<lparr>y_Received := m_Seq m, y_Applied := m_Seq m, y_Phase := ''stream''\<rparr>"
    using s(1) assms(5) by (simp add: advance_def Let_def)
  moreover have "snapshot_effect E (tg_Cfg t) m (view_of E t) = Inr (v_Db (view_of E t'))" "v_Rows (view_of E t') = []" "v_Scope (view_of E t') = []" "v_Schemas (view_of E t') = []"
    using s(3,4) assms(5) by (auto simp: message_effect_def split: if_splits sum.splits)
  ultimately show ?thesis using s(4) by (simp add: view_of_def)
qed


definition snapshot_msg :: Message where
  "snapshot_msg = sample_msg ''snapshot_end'' 5"

definition snapshotting :: "Row list \<Rightarrow> (Message, statement_log, content_map) target" where
  "snapshotting rows = sample_target \<lparr>mt_State = Some ((sample_sync ''snapshot'' '''')\<lparr>y_Received := 4\<rparr>), mt_Inbox = [],
     mt_Scope = [\<lparr>sp_Schema = ''public'', sp_Name = ''t'', sp_Ordinal = 0\<rparr>],
     mt_Rows = map (\<lambda>row. \<lparr>sr_Generation = ''g1'', sr_Seq = 4, sr_Ordinal = 0, sr_Payload = zero_Message\<lparr>m_Rows := [row]\<rparr>\<rparr>) (take 1 rows),
     mt_Hash = [((''g1'', 4), ''snapshot_rows''), ((''g1'', 1), ''snapshot_begin''), ((''g1'', 2), ''schema''), ((''g1'', 3), ''schema'')],
     mt_Stage = [\<lparr>sg_Generation = ''g1'', sg_Version = ''v1'', sg_Schema = ''public'', sg_Table = ''t'', sg_Payload = ''''\<rparr>]\<rparr>"

abbreviation sample_cfg :: Syncer where
  "sample_cfg \<equiv> sample_syncer ''one'' ''t'' no_storage"

lemma snapshotting_simps [simp]:
  "tg_Cfg (snapshotting rows) = sample_cfg" "tg_Db (snapshotting rows) = []" "tg_Types (snapshotting rows) = Map.empty" "tg_Files (snapshotting rows) = None"
  "\<not> is_duplicate (snapshotting rows) snapshot_msg" "v_State (view_of sample_tenv (snapshotting rows)) = (sample_sync ''snapshot'' '''')\<lparr>y_Received := 4\<rparr>"
  "v_Db (view_of sample_tenv (snapshotting rows)) = []" "v_Rows (view_of sample_tenv (snapshotting rows)) = take 1 rows"
  "v_Scope (view_of sample_tenv (snapshotting rows)) = [(''public'', ''t'')]"
  "v_Schemas (view_of sample_tenv (snapshotting rows)) = [sample_schema '''' [sample_column ''id'' ''integer'', sample_column ''note'' ''text'']]"
  "m_Kind snapshot_msg = ''snapshot_end''" "m_Seq snapshot_msg = 5" "m_Generation snapshot_msg = ''g1''" "m_SchemaVersion snapshot_msg = ''v1''"
  by (simp_all add: snapshotting_def sample_target_def is_duplicate_def view_of_def view_at_def sample_tenv_def snapshot_msg_def sample_msg_def kind_msg_def
      sample_sync_def zero_Message_def o_def)

lemma snapshotting_sound: "sound_target sample_tenv (snapshotting rows)"
proof -
  let ?y = "(sample_sync ''snapshot'' '''')\<lparr>y_Received := 4\<rparr>"
  have "{Suc 0..4} = {1, 2, 3, 4::nat}" by auto
  then have h: "hash_ok ?y (mt_Hash (tg_Meta (snapshotting rows)))" by (auto simp: hash_ok_def snapshotting_def sample_target_def sample_sync_def image_iff)
  have "rows_ok sample_tenv ?y (mt_Rows (tg_Meta (snapshotting rows)))"
    by (cases rows) (simp_all add: rows_ok_def snapshotting_def sample_target_def sample_sync_def sample_tenv_def)
  moreover have "stage_ok sample_tenv ?y (mt_Stage (tg_Meta (snapshotting rows)))"
    by (simp add: stage_ok_def stage_version_def snapshotting_def sample_target_def sample_sync_def sample_tenv_def sample_schema_def)
  ultimately have "tables_ok sample_tenv ?y (tg_Meta (snapshotting rows))"
    by (simp add: tables_ok_def progress_ok_def sample_sync_def snapshotting_def sample_target_def)
  then show ?thesis using h by (simp add: sound_target_def meta_inv_def cache_ok_def snapshotting_def sample_target_def)
qed

lemma sample_text_type: "safeTargetType (sample_schema '''' cs) (sample_column ''note'' ''text'') = Inr ''text''"
proof -
  have "TrimSpace ''text'' = ''text''" by (simp add: TrimSpace_def white_space_def has_prefix_def upt_rec numeral_eq_Suc)
  moreover have "ToLower ''text'' = ''text''" by (simp add: is_upper_def ascii_between_def less_eq_char_def)
  moreover have "postgresType ''text''" by (simp add: postgresType_def simple_types_def)
  ultimately show ?thesis by (simp add: safeTargetType_def sample_schema_def sample_column_def del: ToLower.simps)
qed

definition added :: statement_log where
  "added = [(''ALTER TABLE '' @ target_name sample_cfg ''t'' @ '' ADD COLUMN '' @ quote ''note'' @ '' text'', []), (''DELETE FROM '' @ target_name sample_cfg ''t'', [])]"

lemma sample_snapshot_effect:
  "snapshot_effect sample_tenv sample_cfg snapshot_msg (view_of sample_tenv (snapshotting rows)) =
   foldM (row_effect sample_tenv sample_cfg []) added (map as_insert (take 1 rows))"
proof -
  let ?s = "sample_schema '''' [sample_column ''id'' ''integer'', sample_column ''note'' ''text'']"
  have "columns_effect sample_tenv sample_cfg ?s [''id'' \<mapsto> ''integer''] [sample_column ''id'' ''integer'', sample_column ''note'' ''text''] [] = Inr (butlast added)"
    using sample_text_type
    by (simp add: sample_column_def column_nullable_def exec_effect_def added_def) (simp add: sample_syncer_def sample_tenv_def sample_schema_def)
  moreover have "xt_Name ?s = ''t''" "xt_Columns ?s = [sample_column ''id'' ''integer'', sample_column ''note'' ''text'']"
    by (simp_all add: sample_schema_def)
  ultimately have "schema_effect sample_tenv sample_cfg [] ?s = Inr (butlast added)" by (simp only: schema_effect_def sample_types sum.case)
  then have "schemas_effect sample_tenv sample_cfg [?s] [] = Inr (butlast added)"
    by (simp add: schemas_effect_def) (simp add: sample_syncer_def)
  moreover have "clear_effect sample_tenv sample_cfg (butlast added) (''public'', ''t'') = Inr added"
    by (simp add: clear_effect_def exec_effect_def added_def) (simp add: sample_tenv_def)
  ultimately show ?thesis by (simp add: snapshot_effect_def)
qed


lemma sample_snapshot_spec:
  "spec_of sample_tenv (snapshotting rows) snapshot_msg (view_of sample_tenv (snapshotting rows)) =
   (case foldM (row_effect sample_tenv sample_cfg []) added (map as_insert (take 1 rows)) of Inl e \<Rightarrow> Inl e
    | Inr d \<Rightarrow> Inr ((view_of sample_tenv (snapshotting rows))\<lparr>v_Db := d, v_Rows := [], v_Scope := [], v_Schemas := [],
        v_State := advance snapshot_msg ((sample_sync ''snapshot'' '''')\<lparr>y_Received := 4\<rparr>)\<rparr>))"
proof -
  have "store_checks sample_cfg False snapshot_msg ((sample_sync ''snapshot'' '''')\<lparr>y_Received := 4\<rparr>) = Inr ((sample_sync ''snapshot'' '''')\<lparr>y_Received := 4\<rparr>)"
    by (simp add: store_checks_def has_prefix_def schema_barrier_def open_guard_def sample_sync_def)
  then show ?thesis using small_seq [of 5] sample_snapshot_effect [of rows]
    by (simp add: spec_of_def spec_store_def spec_new_def message_effect_def sample_sync_def split: sum.splits)
qed

lemma sample_snapshot_insert:
  "\<exists>d. foldM (row_effect sample_tenv sample_cfg []) added (map as_insert [insert_row [id_column ''1'']]) = Inr d \<and> length d = 3"
proof -
  have "as_insert (insert_row [id_column ''1'']) = insert_row [id_column ''1'']" by (simp add: as_insert_def insert_row_def)
  then show ?thesis using sample_insert_effect [of added] by (simp add: added_def)
qed

theorem snapshot_end_publishes_witness:
  "\<exists>t'. target_store sample_tenv calm snapshot_msg snapshot_msg (snapshotting [insert_row [id_column ''1'']]) = (t', None) \<and> length (tg_Db t') = 3 \<and>
     snapshot_effect sample_tenv sample_cfg snapshot_msg (view_of sample_tenv (snapshotting [insert_row [id_column ''1'']])) = Inr (tg_Db t')"
proof -
  let ?t = "snapshotting [insert_row [id_column ''1'']]"
  obtain d where d: "foldM (row_effect sample_tenv sample_cfg []) added (map as_insert (take 1 [insert_row [id_column ''1'']])) = Inr d" "length d = 3"
    using sample_snapshot_insert by auto
  have "\<not> file_effect snapshot_msg" by (simp add: file_effect_def)
  then obtain t' where t': "target_store sample_tenv calm snapshot_msg snapshot_msg ?t = (t', None)" "v_Db (view_of sample_tenv t') = d"
    using store_calm_accepts [OF _ snapshotting_sound sample_readable] sample_snapshot_spec [of "[insert_row [id_column ''1'']]"] d(1) by fastforce
  then have "length (tg_Db t') = 3" using d(2) by (simp add: view_of_def)
  with snapshot_end_publishes [OF t'(1) snapshotting_sound sample_readable] t' show ?thesis by auto
qed

definition note_row :: Row where
  "note_row = insert_row [id_column ''1'', zero_Column\<lparr>c_Name := ''note'', c_Value := Some ''x''\<rparr>]"

lemma sample_note_effect: "row_effect sample_tenv sample_cfg [] d (as_insert note_row) = Inl (Err ''target column note does not exist'')"
proof -
  have "row_statement table [''id'' \<mapsto> ''integer''] ''insert'' [text_column ''id'' (Some ''1''), text_column ''note'' (Some ''x'')] [] =
     Inl (Err ''target column note does not exist'')" for table
    by (simp add: row_statement_def expression_def text_column_def)
  then show ?thesis
    by (simp add: row_effect_def as_insert_def note_row_def insert_row_def id_column_def zero_Row_def zero_Column_def sample_allows sample_types)
qed

lemma snapshot_stuck:
  assumes "sound_target sample_tenv t" "view_of sample_tenv t = view_of sample_tenv (snapshotting [note_row])" "tg_Cfg t = sample_cfg" "tg_Files t = None"
  shows "\<exists>t'. target_store sample_tenv calm snapshot_msg snapshot_msg t = (t', Some (Err ''target column note does not exist'')) \<and>
    sound_target sample_tenv t' \<and> view_of sample_tenv t' = view_of sample_tenv t \<and> tg_Cfg t' = sample_cfg \<and> tg_Files t' = None"
proof -
  obtain t' r where t': "target_store sample_tenv calm snapshot_msg snapshot_msg t = (t', r)" by (cases "target_store sample_tenv calm snapshot_msg snapshot_msg t")
  have "the (mt_State (tg_Meta t)) = (sample_sync ''snapshot'' '''')\<lparr>y_Received := 4\<rparr>"
    using arg_cong [OF assms(2), of v_State] by (simp add: view_of_def [of _ t])
  then have "y_Received (the (mt_State (tg_Meta t))) = 4" by simp
  then have dup: "\<not> is_duplicate t snapshot_msg" by (auto simp: is_duplicate_def split: option.splits)
  have fe: "\<not> file_effect snapshot_msg" by (simp add: file_effect_def)
  have "spec_of sample_tenv t = spec_of sample_tenv (snapshotting [note_row])" using assms(3,4) by (intro spec_of_same) simp_all
  then have err: "spec_of sample_tenv t snapshot_msg (view_of sample_tenv t) = Inl (Err ''target column note does not exist'')"
    using assms(2) sample_snapshot_spec [of "[note_row]"] sample_note_effect by simp
  have r: "r = Some (Err ''target column note does not exist'')" using store_calm_spec [OF t' assms(1) sample_readable dup] fe err by simp
  have c: "careful calm snapshot_msg" by (simp add: careful_def unbroken_def)
  note s = store_step [OF t' assms(1) sample_readable c sample_rows_keep_columns]
  show ?thesis using t' r s(1-4) err assms(3,4) by auto
qed



text \<open>A message that was stored before changes nothing, and is acknowledged only when its payload is the stored one.\<close>

theorem duplicate_changes_nothing:
  assumes "target_store E io m raw t = (t', r)" "meta_inv E (tg_Meta t)" "is_duplicate t m" "1 \<le> m_Seq m" "m_Seq m < bigint_limit"
  shows "t' = t \<and> (\<exists>h. map_of (mt_Hash (tg_Meta t)) (m_Generation m, m_Seq m) = Some h \<and> (h \<noteq> te_sha E raw \<longrightarrow> r \<noteq> None) \<and>
    (h = te_sha E raw \<longrightarrow> io = calm \<longrightarrow> r = None))"
proof -
  obtain y where y: "mt_State (tg_Meta t) = Some y" "hash_ok y (mt_Hash (tg_Meta t))" "m_Generation m = y_Generation y" "m_Seq m \<le> y_Received y"
    using assms(2,3) by (auto simp: meta_inv_def is_duplicate_def)
  then have "(m_Generation m, m_Seq m) \<in> fst ` set (mt_Hash (tg_Meta t))" using assms(4) by (auto simp: hash_ok_def)
  then obtain h where h: "map_of (mt_Hash (tg_Meta t)) (m_Generation m, m_Seq m) = Some h"
    by (meson map_of_eq_None_iff not_None_eq)
  have same: "rolled_back t w = t" "committed t w = t" if "wk_Meta w = tg_Meta t" "wk_Db w = tg_Db t" "wk_Types w = tg_Types t" "wk_Files w = tg_Files t" for w
    using that by (simp_all add: rolled_back_def committed_def)
  show ?thesis
    using assms(1,3,5) y h by (auto simp: target_store_def andthen_def stmt_def store_body_def store_duplicate_def same split: option.splits if_splits prod.splits) metis+
qed

theorem duplicate_changes_nothing_witness:
  "target_store sample_tenv calm (sample_msg ''snapshot_end'' 3) (sample_msg ''snapshot_end'' 3) streaming = (streaming, None) \<and>
   snd (target_store sample_tenv calm (sample_msg ''snapshot_end'' 2) (sample_msg ''snapshot_end'' 2) streaming) \<noteq> None"
proof -
  have i: "meta_inv sample_tenv (tg_Meta streaming)" using streaming_sound by (simp add: sound_target_def)
  have d: "is_duplicate streaming (sample_msg k n)" if "n \<le> 3" for k n
    using that by (simp add: is_duplicate_def streaming_def sample_target_def sample_meta_def sample_sync_def sample_msg_def)
  have h: "map_of (mt_Hash (tg_Meta streaming)) (''g1'', 3) = Some ''snapshot_end''" "map_of (mt_Hash (tg_Meta streaming)) (''g1'', 2) = Some ''schema''"
    by (simp_all add: streaming_def sample_target_def sample_meta_def)
  obtain t3 r3 where 3: "target_store sample_tenv calm (sample_msg ''snapshot_end'' 3) (sample_msg ''snapshot_end'' 3) streaming = (t3, r3)" by fastforce
  obtain t2 r2 where 2: "target_store sample_tenv calm (sample_msg ''snapshot_end'' 2) (sample_msg ''snapshot_end'' 2) streaming = (t2, r2)" by fastforce
  have m: "m_Generation (sample_msg k n) = ''g1''" "m_Seq (sample_msg k n) = n" "te_sha sample_tenv (sample_msg k n) = k" for k n
    by (simp_all add: sample_msg_def sample_tenv_def kind_msg_def)
  show ?thesis
    using duplicate_changes_nothing [OF 3 i d] duplicate_changes_nothing [OF 2 i d] small_seq [of 3] small_seq [of 2] h 2 3 by (simp add: m)
qed

text \<open>C31. The end of a transaction without rows is refused in every state and by every repetition, since no transaction is open:
  metadata and tables stay as they are, although the protocol announces such messages.\<close>

theorem empty_transaction_refused:
  assumes "mt_State (tg_Meta t) = Some y" "y_Open y = ''''" "m_Kind m = ''transaction_end''" "\<not> is_duplicate t m"
    "target_store E io m raw t = (t', r)"
  shows "r \<noteq> None \<and> tg_Meta t' = tg_Meta t \<and> tg_Db t' = tg_Db t"
proof -
  have "store_checks cfg hf m y \<noteq> Inr y'" for cfg hf y'
  proof
    assume "store_checks cfg hf m y = Inr y'"
    then obtain y1 where y1: "schema_barrier m y = Inr y1" "open_guard m y1 = Inr y'" by (rule store_checks_Inr)
    have "y_Open y1 = y_Open y" using schema_barrier_Inr [OF y1(1)] by auto
    then show False using open_guard_open(1) [OF y1(2) assms(3)] assms(2) by simp
  qed
  then have "snd (store_new E io (tg_Db t) (tg_Cfg t) m raw y w) \<noteq> None" for w
    by (auto simp: store_new_def split: sum.splits)
  then have body: "snd (store_body E io (tg_Db t) (tg_Cfg t) m raw w) \<noteq> None" if "wk_Meta w = tg_Meta t" for w
    using that assms(1,3,4) by (simp add: store_body_def stmt_def is_duplicate_def split: option.splits)
  have no: "andthen (stmt io (check None)) (store_body E io (tg_Db t) (tg_Cfg t) m raw) (work_of t) \<noteq> (w', None)" for w'
    using body [of "ticked (work_of t)"] by (auto simp: stmt_def simp del: not_None_eq split: option.splits)
  from assms(5) show ?thesis
    by (cases rule: target_store_cases) (use no in auto)
qed

theorem empty_transaction_refused_witness:
  "\<exists>t' e. target_store sample_tenv calm (end_msg 4) (end_msg 4) streaming = (t', Some e) \<and> tg_Meta t' = tg_Meta streaming"
proof -
  obtain t' r where "target_store sample_tenv calm (end_msg 4) (end_msg 4) streaming = (t', r)" by fastforce
  moreover from empty_transaction_refused [OF _ _ _ _ this, of "sample_sync ''stream'' ''''"] have "r \<noteq> None \<and> tg_Meta t' = tg_Meta streaming"
    by (simp add: streaming_def sample_target_def sample_meta_def is_duplicate_def sample_sync_def)
  ultimately show ?thesis by auto
qed


section \<open>Files\<close>

definition chunk_data :: "Message \<Rightarrow> string" where
  "chunk_data m = (if m_Kind m = ''file_chunk'' then the (b64_decode b64_std True (f_Data (the (m_File m)))) else '''')"

lemma assemble_chunk_content:
  "assemble_chunk cfg fin f (seen, n, c) m = Inr (seen', n', c') \<Longrightarrow> c' = c @ chunk_data m"
  by (auto simp: assemble_chunk_def chunk_data_def split: if_splits option.splits)

lemma assemble_content:
  "foldM (assemble_chunk cfg fin f) (seen, n, c) ms = Inr (seen', n', c') \<Longrightarrow> c' = c @ concat (map chunk_data ms)"
proof (induction ms arbitrary: seen n c)
  case (Cons m ms)
  then obtain s1 n1 c1 where s1: "assemble_chunk cfg fin f (seen, n, c) m = Inr (s1, n1, c1)" "foldM (assemble_chunk cfg fin f) (s1, n1, c1) ms = Inr (seen', n', c')"
    by (auto split: sum.splits)
  show ?case using Cons.IH [OF s1(2)] assemble_chunk_content [OF s1(1)] by simp
qed simp

lemma stored_applies:
  assumes "target_store E io m raw t = (t', None)" "\<not> is_duplicate t m" "mt_State (tg_Meta t) = Some y" "m_Kind m \<noteq> ''snapshot_begin''"
  obtains y' w1 where "store_checks (tg_Cfg t) (tg_Files t \<noteq> None) m y = Inr y'" "m_Generation m = y_Generation y" "m_Seq m = Suc (y_Received y)"
    "applyMessage E calm (tg_Db t) (tg_Cfg t) m raw (y_Phase y') (ticked (ticked (work_of t))) = (w1, None)" "tg_Files t' = wk_Files w1" "tg_Db t' = wk_Db w1"
    "mt_Inbox (tg_Meta t') = mt_Inbox (wk_Meta w1)"
proof -
  obtain w where w: "andthen (stmt io (check None)) (store_body E io (tg_Db t) (tg_Cfg t) m raw) (work_of t) = (w, None)"
      "tg_Meta t' = wk_Meta w" "tg_Files t' = wk_Files w" "tg_Db t' = wk_Db w"
    using assms(1) by (cases rule: target_store_cases) auto
  have "tames (andthen (stmt io (check None)) (store_body E io (tg_Db t) (tg_Cfg t) m raw))
     (andthen (stmt calm (check None)) (store_body E calm (tg_Db t) (tg_Cfg t) m raw))" by (intro tame)
  from tamesD [OF this w(1)] have body: "store_body E calm (tg_Db t) (tg_Cfg t) m raw (ticked (work_of t)) = (w, None)" by simp
  have g: "m_Generation m = y_Generation y" using body assms(3,4) by (auto simp: store_body_def split: if_splits)
  then have "store_new E calm (tg_Db t) (tg_Cfg t) m raw y (ticked (ticked (work_of t))) = (w, None)"
    using body assms(2,3) by (simp add: store_body_def is_duplicate_def)
  then obtain y' w1 where s: "m_Seq m = Suc (y_Received y)" "store_checks (tg_Cfg t) (tg_Files t \<noteq> None) m y = Inr y'"
      "applyMessage E calm (tg_Db t) (tg_Cfg t) m raw (y_Phase y') (ticked (ticked (work_of t))) = (w1, None)"
      "andthen (meta_stmt calm (insert_hash (m_Generation m) (m_Seq m) (te_sha E raw))) (meta_stmt calm (\<lambda>x. Inr (x\<lparr>mt_State := Some (advance m y')\<rparr>))) w1 = (w, None)"
    by (auto simp: store_new_def split: if_splits sum.splits)
  from s(4) have "wk_Files w = wk_Files w1 \<and> wk_Db w = wk_Db w1 \<and> mt_Inbox (wk_Meta w) = mt_Inbox (wk_Meta w1)"
    by (auto simp: meta_stmt_def insert_hash_def split: sum.splits option.splits)
  then show thesis using that [OF s(2) g s(1,3)] w(2-4) by simp
qed

text \<open>C19. When the end of a file is stored, the file store was given exactly the content of the chunks in their order, and that
  content has the declared size and digest; the chunks are then gone from the inbox.\<close>

theorem file_end_stores:
  assumes "target_store E io m raw t = (t', None)" "meta_inv E (tg_Meta t)" "\<not> is_duplicate t m" "m_Kind m = ''file_end''"
    "m_File m = Some f" "AllowsFileOperation (tg_Cfg t) (f_Operation f)" "tg_Files t = Some s"
  shows "\<exists>s' content. te_put E s (f_Path f) content (f_Mode f) (f_ModTimeUnixNano f) = (s', None) \<and> tg_Files t' = Some s' \<and>
    content = concat (map chunk_data (v_Held (view_of E t))) \<and> int (length content) = f_Size f \<and> hex_EncodeToString (te_digest E content) = f_SHA256 f \<and>
    mt_Inbox (tg_Meta t') = []"
proof -
  obtain y where y: "mt_State (tg_Meta t) = Some y" "inbox_ok E y (mt_Inbox (tg_Meta t))" using assms(2) by (auto simp: meta_inv_def tables_ok_def)
  have k: "m_Kind m \<noteq> ''snapshot_begin''" using assms(4) by simp
  obtain y' :: SyncState and w1 where s: "m_Generation m = y_Generation y" "applyMessage E calm (tg_Db t) (tg_Cfg t) m raw (y_Phase y') (ticked (ticked (work_of t))) = (w1, None)"
      "tg_Files t' = wk_Files w1" "mt_Inbox (tg_Meta t') = mt_Inbox (wk_Meta w1)"
    by (rule stored_applies [OF assms(1,3) y(1) k]) blast
  let ?w = "ticked (ticked (work_of t))"
  obtain w2 where w2: "applyFile E calm (tg_Cfg t) m f ?w = (w2, None)" "meta_stmt calm (delete_inbox (\<lambda>g n. g = m_Generation m)) w2 = (w1, None)"
    using s(2) assms(4,5) by (auto simp: applyMessage_def split: if_splits)
  have inbox: "inbox_ok E y (mt_Inbox (wk_Meta ?w))" using y(2) by simp
  obtain content where c: "file_content E (tg_Cfg t) m f (map (held E) (mt_Inbox (wk_Meta ?w))) = Some content" "wk_Meta w2 = wk_Meta ?w"
    "if AllowsFileOperation (tg_Cfg t) (f_Operation f) \<and> wk_Files ?w \<noteq> None
     then \<exists>s'. te_put E (the (wk_Files ?w)) (f_Path f) content (f_Mode f) (f_ModTimeUnixNano f) = (s', None) \<and> wk_Files w2 = Some s'
     else wk_Files w2 = wk_Files ?w"
    by (rule applyFile_stores [OF w2(1) inbox s(1)]) blast
  obtain seen n where "foldM (assemble_chunk (tg_Cfg t) m f) (False, 0, '''') (map (held E) (mt_Inbox (wk_Meta ?w))) = Inr (seen, n, content)"
      "int (length content) = f_Size f" "hex_EncodeToString (te_digest E content) = f_SHA256 f"
    using c(1) by (auto simp: file_content_def split: sum.splits if_splits)
  moreover from assemble_content [OF this(1)] have "content = concat (map chunk_data (v_Held (view_of E t)))" by (simp add: view_of_def)
  moreover have "wk_Files w1 = wk_Files w2" "mt_Inbox (wk_Meta w1) = []"
    using w2(2) c(2) y(2) s(1) by (auto simp: meta_stmt_def delete_inbox_def filter_empty_conv inbox_ok_def)
  ultimately show ?thesis using c(3) assms(6,7) s(3,4) by auto
qed


definition sample_digest :: string where
  "sample_digest = replicate 32 (CHR ''h'')"

lemma sample_digest_length [simp]: "length sample_digest = 32"
  by (simp add: sample_digest_def)

definition file_env :: "(Message, statement_log, content_map) tenv" where
  "file_env = sample_tenv\<lparr>te_digest := \<lambda>s. sample_digest\<rparr>"

definition file_change :: FileChange where
  "file_change = \<lparr>f_Path = ''a'', f_Operation = ''create'', f_Size = 2, f_ModTimeUnixNano = 0, f_Mode = 420,
     f_SHA256 = hex_EncodeToString sample_digest, f_Chunk = 0, f_Chunks = 1, f_Data = ''''\<rparr>"

definition file_msg :: "string \<Rightarrow> nat \<Rightarrow> string \<Rightarrow> Message" where
  "file_msg kind n content = (sample_msg kind n)\<lparr>m_Transaction := ''f1'', m_File := Some (file_change\<lparr>f_Data := b64_encode b64_std True content\<rparr>)\<rparr>"

definition file_cfg :: Syncer where
  "file_cfg = sample_syncer ''one'' ''t'' (no_storage\<lparr>fs_Backend := ''directory'', fs_Events := [''create''], fs_MaxFileBytes := 100\<rparr>)"

definition uploading :: "(Message, statement_log, content_map) target" where
  "uploading = \<lparr>tg_Cfg = file_cfg, tg_Meta = \<lparr>mt_State = Some ((sample_sync ''stream'' ''f1'')\<lparr>y_Received := 5\<rparr>),
     mt_Inbox = [\<lparr>ib_Generation = ''g1'', ib_Seq = 4, ib_ID = '''', ib_Payload = file_msg ''file_begin'' 4 ''''\<rparr>,
       \<lparr>ib_Generation = ''g1'', ib_Seq = 5, ib_ID = '''', ib_Payload = file_msg ''file_chunk'' 5 ''hi''\<rparr>], mt_Scope = [], mt_Rows = [],
     mt_Hash = map (\<lambda>n. ((''g1'', n), '''')) [1, 2, 3, 4, 5], mt_Stage = []\<rparr>, tg_Db = [], tg_Types = Map.empty, tg_Files = Some Map.empty\<rparr>"

lemma uploading_inv: "meta_inv file_env (tg_Meta uploading)"
proof -
  let ?y = "(sample_sync ''stream'' ''f1'')\<lparr>y_Received := 5\<rparr>"
  have "{Suc 0..5} = {1, 2, 3, 4, 5::nat}" by auto
  then have h: "hash_ok ?y (mt_Hash (tg_Meta uploading))" by (auto simp: hash_ok_def uploading_def sample_sync_def image_iff)
  have "inbox_ok file_env ?y (mt_Inbox (tg_Meta uploading))"
    by (simp add: inbox_ok_def uploading_def sample_sync_def file_env_def sample_tenv_def file_msg_def)
  then have "tables_ok file_env ?y (tg_Meta uploading)"
    by (simp add: tables_ok_def progress_ok_def sample_sync_def uploading_def)
  then show ?thesis using h by (simp add: meta_inv_def uploading_def)
qed

lemma file_msg_simps [simp]: "m_Kind (file_msg k n c) = k" "m_Seq (file_msg k n c) = n" "m_Generation (file_msg k n c) = ''g1''" "m_Transaction (file_msg k n c) = ''f1''"
  "m_File (file_msg k n c) = Some (file_change\<lparr>f_Data := b64_encode b64_std True c\<rparr>)" "m_SchemaVersion (file_msg k n c) = ''v1''"
  by (simp_all add: file_msg_def sample_msg_def kind_msg_def)

lemma file_cfg_simps [simp]: "fs_MaxFileBytes (sy_FileStorage file_cfg) = 100" "AllowsFileOperation file_cfg ''create''"
  by (simp_all add: file_cfg_def sample_syncer_def no_storage_def AllowsFileOperation_def)

lemma uploading_file_end: "\<exists>t'. target_store file_env calm (file_msg ''file_end'' 6 '''') (file_msg ''file_end'' 6 '''') uploading = (t', None)"
proof -
  have path: "IsLocal ''a''" "\<not> has_nul ''a''" by code_simp+
  have valid: "validateFileMessage file_cfg True (file_msg ''file_end'' 6 '''') = None"
    by (simp add: validateFileMessage_def file_change_def path)
  let ?m = "file_msg ''file_end'' 6 ''''" and ?y = "(sample_sync ''stream'' ''f1'')\<lparr>y_Received := 5\<rparr>"
  have checks: "store_checks file_cfg True ?m ?y = Inr ?y"
    using valid by (simp add: store_checks_def schema_barrier_def open_guard_def sample_sync_def)
  have held: "foldM (assemble_chunk file_cfg ?m (file_change\<lparr>f_Data := ''''\<rparr>)) (False, 0, '''') [file_msg ''file_begin'' 4 '''', file_msg ''file_chunk'' 5 ''hi''] = Inr (True, 1, ''hi'')"
    by (simp add: assemble_chunk_def same_file_def file_change_def b64_roundtrip [OF b64_std_alphabet] del: b64_encode.simps)
  have put: "\<exists>w'. applyFile file_env calm file_cfg ?m (file_change\<lparr>f_Data := ''''\<rparr>) w = (w', None) \<and> wk_Meta w' = wk_Meta w"
    if "wk_Meta w = tg_Meta uploading" "wk_Files w = Some fs" for w fs
  proof -
    have rows: "sort_key ib_Seq (filter (\<lambda>r. ib_Generation r = ''g1'') (mt_Inbox (tg_Meta uploading))) = mt_Inbox (tg_Meta uploading)"
      by (simp add: uploading_def)
    have asm: "assemble (unmarshal file_env) file_cfg ?m (file_change\<lparr>f_Data := ''''\<rparr>) (False, 0, '''') (mt_Inbox (tg_Meta uploading)) = Inr (True, 1, ''hi'')"
      using held by (subst assemble_foldM) (simp_all add: uploading_def file_env_def sample_tenv_def)
    have d: "te_digest file_env ''hi'' = sample_digest" "te_put file_env s p c md tm = (s(p \<mapsto> c), None)" for s p c md tm
      by (simp_all add: file_env_def sample_tenv_def)
    have ne: "hex_EncodeToString sample_digest \<noteq> ''''" using length_hex [of sample_digest] by (auto simp del: length_hex)
    show ?thesis
      unfolding applyFile_def using that ne by (simp add: rows asm d andthen_def put_file_def) (simp add: file_change_def ne)
  qed
  let ?w = "ticked (ticked (work_of uploading))"
  have u: "tg_Cfg uploading = file_cfg" "tg_Files uploading = Some Map.empty" "mt_State (tg_Meta uploading) = Some ?y" "\<not> is_duplicate uploading ?m"
    "map_of (mt_Hash (tg_Meta uploading)) (''g1'', 6) = None"
    by (simp_all add: uploading_def is_duplicate_def sample_sync_def)
  obtain w' where w': "applyFile file_env calm file_cfg ?m (file_change\<lparr>f_Data := ''''\<rparr>) ?w = (w', None)" "wk_Meta w' = wk_Meta ?w" using put [of ?w] u(2) by auto
  have y: "y_Received ?y = 5" "y_Generation ?y = ''g1''" "y_Phase ?y = ''stream''" by (simp_all add: sample_sync_def)
  have "\<exists>w''. applyMessage file_env calm (tg_Db uploading) file_cfg ?m ?m ''stream'' ?w = (w'', None) \<and> mt_Hash (wk_Meta w'') = mt_Hash (tg_Meta uploading)"
    using w' u(2) by (simp add: applyMessage_def andthen_def meta_stmt_def delete_inbox_def del: andthen_None)
  then have "\<exists>w''. store_new file_env calm (tg_Db uploading) file_cfg ?m ?m ?y ?w = (w'', None)"
    using checks u y by (auto simp: store_new_def meta_stmt_def insert_hash_def)
  then have "\<exists>w''. store_body file_env calm (tg_Db uploading) file_cfg ?m ?m (ticked (work_of uploading)) = (w'', None)"
    using u y by (simp add: store_body_def)
  then show ?thesis using u small_seq [of 6] by (auto simp: target_store_def andthen_def)
qed

theorem file_end_stores_witness:
  "\<exists>t' s'. target_store file_env calm (file_msg ''file_end'' 6 '''') (file_msg ''file_end'' 6 '''') uploading = (t', None) \<and> tg_Files t' = Some s' \<and> s' ''a'' = Some ''hi''"
proof -
  obtain t' where t': "target_store file_env calm (file_msg ''file_end'' 6 '''') (file_msg ''file_end'' 6 '''') uploading = (t', None)" using uploading_file_end by blast
  have u: "tg_Cfg uploading = file_cfg" "tg_Files uploading = Some Map.empty" "\<not> is_duplicate uploading (file_msg ''file_end'' 6 '''')"
    by (simp_all add: uploading_def is_duplicate_def sample_sync_def)
  have h: "concat (map chunk_data (v_Held (view_of file_env uploading))) = ''hi''"
    by (simp add: view_of_def view_at_def uploading_def file_env_def sample_tenv_def chunk_data_def b64_roundtrip [OF b64_std_alphabet] del: b64_encode.simps)
  from file_end_stores [OF t' uploading_inv u(3), of "file_change\<lparr>f_Data := ''''\<rparr>" Map.empty] u(1,2) h
  obtain s' where "te_put file_env Map.empty ''a'' ''hi'' 420 0 = (s', None)" "tg_Files t' = Some s'" by (auto simp: file_change_def)
  then show ?thesis using t' by (auto simp: file_env_def sample_tenv_def)
qed


section \<open>Stale column types\<close>

definition broken :: sio where
  "broken = calm\<lparr>si_trunc := \<lambda>n. Some (1, ErrCanceled)\<rparr>"

definition noted :: "(Message, statement_log, content_map) target" where
  "noted = (holding [note_row])\<lparr>tg_Db := added\<rparr>"

abbreviation old_types :: types where
  "old_types \<equiv> [''id'' \<mapsto> ''integer'']"

lemma noted_columns: "te_columns sample_tenv added ''public'' ''t'' = [(''id'', ''integer''), (''note'', ''text'')]"
  by (simp add: sample_tenv_def added_def has_prefix_def)

lemma note_statement:
  "transform sample_cfg note_row (r_Columns note_row) = Inr [text_column ''id'' (Some ''1''), text_column ''note'' (Some ''x'')]"
  "r_Schema note_row = ''public''" "r_Table note_row = ''t''" "r_Operation note_row = ''insert''" "r_Key note_row = []"
  by (simp_all add: note_row_def insert_row_def id_column_def zero_Row_def zero_Column_def sample_allows)

lemma stale_row:
  assumes "wk_Types w ''t'' = Some old_types"
  shows "applyRow sample_tenv calm pool sample_cfg note_row w = (w, Some (Err ''target column note does not exist''))"
proof -
  have "row_statement table old_types ''insert'' [text_column ''id'' (Some ''1''), text_column ''note'' (Some ''x'')] [] =
     Inl (Err ''target column note does not exist'')" for table
    by (simp add: row_statement_def expression_def text_column_def)
  then show ?thesis using assms unfolding applyRow_def by (simp add: note_statement sample_allows columnTypes_def)
qed

lemma broken_row:
  assumes "wk_Types w ''t'' = None"
  shows "applyRow sample_tenv broken added sample_cfg note_row w = ((ticked w)\<lparr>wk_Types := (wk_Types w)(''t'' \<mapsto> old_types)\<rparr>, Some ErrCanceled)"
proof -
  have "pg_TargetSchema (sy_Postgres sample_cfg) = ''public''" by (simp add: sample_syncer_def)
  then show ?thesis using assms noted_columns unfolding applyRow_def by (simp add: note_statement sample_allows columnTypes_def broken_def)
qed

lemma holding_error:
  assumes "tg_Meta t = tg_Meta (holding [row])" "tg_Cfg t = sample_cfg" "tg_Files t = None" "\<And>n. si_fail io n = None"
    "applyRow sample_tenv io (tg_Db t) sample_cfg row (ticked (ticked (ticked (work_of t)))) = (w, Some e)"
  shows "target_store sample_tenv io (end_msg 5) (end_msg 5) t = (rolled_back t w, Some e)"
proof -
  let ?y = "(sample_sync ''stream'' ''7'')\<lparr>y_Received := 4\<rparr>"
  have m: "mt_State (tg_Meta t) = Some ?y" "mt_Inbox (tg_Meta t) = [\<lparr>ib_Generation = ''g1'', ib_Seq = 4, ib_ID = '''', ib_Payload = rows_msg 4 [row]\<rparr>]"
    using assms(1) by (simp_all add: holding_def sample_target_def)
  have y: "y_Received ?y = 4" "y_Generation ?y = ''g1''" "y_Phase ?y = ''stream''" by (simp_all add: sample_sync_def)
  have checks: "store_checks sample_cfg False (end_msg 5) ?y = Inr ?y"
    by (simp add: store_checks_def has_prefix_def schema_barrier_def open_guard_def sample_sync_def)
  have s: "stmt io act w = act (ticked w)" for act and w :: "(Message, statement_log, content_map) work" using assms(4) by (simp add: stmt_def)
  have page: "inbox_page ''g1'' (- 1) (tg_Meta t) = mt_Inbox (tg_Meta t)" by (simp add: inbox_page_def m applyPageSize_def)
  have dec: "decode_chunks (unmarshal sample_tenv) (mt_Inbox (tg_Meta t)) = Inr [(4, rows_msg 4 [row])]" by (simp add: m sample_tenv_def)
  have "apply_inbox sample_tenv io (tg_Db t) sample_cfg (end_msg 5) (-1) (ticked (ticked (work_of t))) = (w, Some e)"
    using assms(4,5) by (subst apply_inbox.simps) (simp add: page dec apply_chunk_def andthen_def)
  then have "store_new sample_tenv io (tg_Db t) sample_cfg (end_msg 5) (end_msg 5) ?y (ticked (ticked (work_of t))) = (w, Some e)"
    using checks assms(3) y by (simp add: store_new_def applyMessage_def andthen_def)
  then show ?thesis using small_seq [of 5] assms(2) y by (simp add: target_store_def store_body_def andthen_def s m)
qed


lemma noted_sound: "sound_target sample_tenv noted" "tg_Cfg noted = sample_cfg" "tg_Files noted = None" "tg_Db noted = added" "tg_Types noted = Map.empty"
  "tg_Meta noted = tg_Meta (holding [note_row])"
  using holding_sound [of "[note_row]"] by (simp_all add: sound_target_def noted_def cache_ok_def)

lemma noted_accepts: "\<exists>t'. target_store sample_tenv calm (end_msg 5) (end_msg 5) noted = (t', None)"
proof -
  let ?y = "(sample_sync ''stream'' ''7'')\<lparr>y_Received := 4\<rparr>"
  have types: "table_types sample_tenv sample_cfg added ''t'' = Inr (map_of (rev [(''id'', ''integer''), (''note'', ''text'')]))"
    using noted_columns by (simp add: table_types_def) (simp add: sample_syncer_def)
  obtain sql args where "row_statement (target_name sample_cfg ''t'') [''id'' \<mapsto> ''integer'', ''note'' \<mapsto> ''text''] ''insert''
      [text_column ''id'' (Some ''1''), text_column ''note'' (Some ''x'')] [] = Inr (sql, args, None)"
    by (simp add: row_statement_def expression_def text_column_def)
  then have "\<exists>d'. row_effect sample_tenv sample_cfg added added note_row = Inr d'"
    unfolding row_effect_def by (simp add: note_statement sample_allows types exec_effect_def) (simp add: sample_tenv_def)
  moreover have v: "v_Held (view_of sample_tenv noted) = [rows_msg 4 [note_row]]" "v_State (view_of sample_tenv noted) = ?y" "v_Db (view_of sample_tenv noted) = added"
    by (simp_all add: view_of_def view_at_def noted_def holding_def sample_target_def sample_tenv_def)
  moreover have "store_checks sample_cfg False (end_msg 5) ?y = Inr ?y"
    by (simp add: store_checks_def has_prefix_def schema_barrier_def open_guard_def sample_sync_def)
  ultimately have "\<exists>v. spec_of sample_tenv noted (end_msg 5) (view_of sample_tenv noted) = Inr v"
    using small_seq [of 5] noted_sound(2,3)
    by (auto simp: spec_of_def spec_store_def spec_new_def message_effect_def transaction_effect_def sample_sync_def split: sum.splits)
  moreover have "\<not> is_duplicate noted (end_msg 5)" by (simp add: is_duplicate_def noted_def holding_def sample_target_def sample_sync_def)
  moreover have "\<not> file_effect (end_msg 5)" by (simp add: file_effect_def)
  ultimately show ?thesis using store_calm_accepts [OF _ noted_sound(1) sample_readable] by metis
qed

definition refresh_msg :: Message where
  "refresh_msg = (sample_msg ''schema_end'' 4)\<lparr>m_SchemaVersion := ''v2''\<rparr>"

definition refreshing :: "(Message, statement_log, content_map) target" where
  "refreshing = (sample_target ((sample_meta ((sample_sync ''stream'' '''')\<lparr>y_Pending := ''v2''\<rparr>))\<lparr>
     mt_Stage := [\<lparr>sg_Generation = ''g1'', sg_Version = ''v2'', sg_Schema = ''public'', sg_Table = ''t'', sg_Payload = ''''\<rparr>]\<rparr>))\<lparr>tg_Types := [''t'' \<mapsto> old_types]\<rparr>"

lemma sample_exec: "te_exec sample_tenv [] q [] = Inr ([(q, [])], 1)"
  by (simp add: sample_tenv_def)

lemma refresh_run:
  assumes "mt_Stage (wk_Meta w) = [\<lparr>sg_Generation = ''g1'', sg_Version = ''v2'', sg_Schema = ''public'', sg_Table = ''t'', sg_Payload = ''''\<rparr>]" "wk_Db w = []"
  shows "applyStagedSchemas sample_tenv io sample_cfg ''g1'' ''v2'' w =
      andthen (stmt io (check None)) (andthen (stmt io (check None)) (andthen (exec_stmt sample_tenv io (''ALTER TABLE '' @ target_name sample_cfg ''t'' @ '' ADD COLUMN '' @ quote ''note'' @ '' text'') [] None)
        (meta_stmt io (\<lambda>m. Inr (m\<lparr>mt_Stage := filter (\<lambda>r. \<not> staged_for ''g1'' ''v2'' r) (mt_Stage m)\<rparr>))))) w"
proof -
  have add: "add_columns sample_tenv io sample_cfg (sample_schema '''' [sample_column ''id'' ''integer'', sample_column ''note'' ''text'']) old_types [sample_column ''id'' ''integer'', sample_column ''note'' ''text''] w =
     exec_stmt sample_tenv io (''ALTER TABLE '' @ target_name sample_cfg ''t'' @ '' ADD COLUMN '' @ quote ''note'' @ '' text'') [] None w" for io w
    using sample_text_type
    by (simp add: sample_column_def column_nullable_def split: prod.splits option.splits) (simp add: sample_syncer_def sample_schema_def)
  let ?S = "sample_schema '''' [sample_column ''id'' ''integer'', sample_column ''note'' ''text'']"
  have schema: "xt_Name ?S = ''t''" "xt_Columns ?S = [sample_column ''id'' ''integer'', sample_column ''note'' ''text'']" by (simp_all add: sample_schema_def)
  have env: "te_schema sample_tenv p = Inr ?S" "te_columns sample_tenv [] (pg_TargetSchema (sy_Postgres sample_cfg)) ''t'' = [(''id'', ''integer'')]"
    "te_exec sample_tenv [] q [] = Inr ([(q, [])], 1)" "length (sy_Tables sample_cfg) = 1" for p q
    by (simp_all add: sample_tenv_def) (simp add: sample_syncer_def)
  show ?thesis
    using assms by (simp add: applyStagedSchemas_def apply_schema_def stmt_def andthen_def env schema add staged_for_def del: add_columns.simps split: option.splits prod.splits)
qed

lemma refreshing_lost:
  "\<exists>t'. target_store sample_tenv (failing_at 8\<lparr>si_lost := True\<rparr>) refresh_msg refresh_msg refreshing = (t', Some ErrCanceled) \<and>
     tg_Types t' = [''t'' \<mapsto> old_types] \<and> tg_Db t' = butlast added \<and> (\<exists>y. mt_State (tg_Meta t') = Some y \<and> y_Generation y = ''g1'' \<and> y_Received y = 4) \<and>
     map_of (mt_Hash (tg_Meta t')) (''g1'', 4) = Some ''schema_end''"
proof -
  let ?io = "failing_at 8\<lparr>si_lost := True\<rparr>" and ?y = "(sample_sync ''stream'' '''')\<lparr>y_Pending := ''v2''\<rparr>"
  let ?w = "ticked (ticked (work_of refreshing))"
  have io: "si_fail (failing_at 8) n = (if n = 8 then Some ErrCanceled else None)" for n by (simp add: failing_at_def)
  have t: "tg_Cfg refreshing = sample_cfg" "tg_Db refreshing = []" "tg_Types refreshing = [''t'' \<mapsto> old_types]" "tg_Files refreshing = None" "mt_State (tg_Meta refreshing) = Some ?y"
    "mt_Stage (tg_Meta refreshing) = [\<lparr>sg_Generation = ''g1'', sg_Version = ''v2'', sg_Schema = ''public'', sg_Table = ''t'', sg_Payload = ''''\<rparr>]"
    "map_of (mt_Hash (tg_Meta refreshing)) (''g1'', 4) = None"
    by (simp_all add: refreshing_def sample_target_def sample_meta_def)
  have m: "m_Kind refresh_msg = ''schema_end''" "m_Seq refresh_msg = 4" "m_Generation refresh_msg = ''g1''" "m_SchemaVersion refresh_msg = ''v2''" "te_sha sample_tenv refresh_msg = ''schema_end''"
    by (simp_all add: refresh_msg_def sample_msg_def kind_msg_def sample_tenv_def)
  have y: "y_Received ?y = 3" "y_Generation ?y = ''g1''" "y_Phase ?y = ''stream''" by (simp_all add: sample_sync_def)
  have checks: "store_checks sample_cfg False refresh_msg ?y = Inr ?y"
    by (simp add: store_checks_def has_prefix_def schema_barrier_def open_guard_def sample_sync_def m)
  have clock: "wk_Clock (ticked w) = Suc (wk_Clock w)" "wk_Clock (work_of t) = 0" for w t
    by (simp_all add: ticked_def work_of_def)
  have "\<exists>w1. applyMessage sample_tenv ?io [] sample_cfg refresh_msg refresh_msg ''stream'' ?w = (w1, None) \<and> wk_Clock w1 = 6 \<and> wk_Types w1 = [''t'' \<mapsto> old_types] \<and>
      wk_Db w1 = butlast added \<and> mt_Hash (wk_Meta w1) = mt_Hash (tg_Meta refreshing) \<and> wk_Files w1 = None"
    using t by (simp add: applyMessage_def m refresh_run andthen_def stmt_def io clock exec_stmt_def sample_exec meta_stmt_def added_def)
  then obtain w1 where w1: "applyMessage sample_tenv ?io [] sample_cfg refresh_msg refresh_msg ''stream'' ?w = (w1, None)" "wk_Clock w1 = 6" "wk_Types w1 = [''t'' \<mapsto> old_types]"
      "wk_Db w1 = butlast added" "mt_Hash (wk_Meta w1) = mt_Hash (tg_Meta refreshing)" by blast
  have "\<exists>w2. store_new sample_tenv ?io [] sample_cfg refresh_msg refresh_msg ?y ?w = (w2, None) \<and> wk_Clock w2 = 8 \<and> wk_Types w2 = [''t'' \<mapsto> old_types] \<and> wk_Db w2 = butlast added \<and>
      mt_State (wk_Meta w2) = Some (advance refresh_msg ?y) \<and> map_of (mt_Hash (wk_Meta w2)) (''g1'', 4) = Some ''schema_end''"
    using t w1 checks y by (simp add: store_new_def m andthen_def meta_stmt_def stmt_def io clock insert_hash_def)
  then obtain w2 where w2: "store_new sample_tenv ?io [] sample_cfg refresh_msg refresh_msg ?y ?w = (w2, None)" "wk_Clock w2 = 8" "wk_Types w2 = [''t'' \<mapsto> old_types]" "wk_Db w2 = butlast added"
      "mt_State (wk_Meta w2) = Some (advance refresh_msg ?y)" "map_of (mt_Hash (wk_Meta w2)) (''g1'', 4) = Some ''schema_end''" by blast
  have "target_store sample_tenv ?io refresh_msg refresh_msg refreshing = (committed refreshing w2, Some ErrCanceled)"
    using small_seq [of 4] t w2(1,2) y by (simp add: target_store_def store_body_def andthen_def stmt_def io clock m)
  then show ?thesis using w2 by (simp add: m)
qed


end
