(* ===== verification/Position.thy ===== *)
theory Position
  imports Stdlib
begin

text \<open>
  Positions of the MySQL binary log as checkpoints (\<open>internal/mysql/position.go\<close>) and log sequence numbers
  of SQL Server (\<open>internal/sqlserver/lsn.go\<close>): both survive the way through their text.
\<close>

section \<open>MySQL positions\<close>

record Position =
  po_Name :: string
  po_Pos :: "32 word"

definition encodePosition :: "Position \<Rightarrow> string" where
  "encodePosition p = ''mysql:v1:'' @ b64_encode b64_url False (po_Name p) @ '':'' @ pad_dec 20 (unat (po_Pos p))"

definition decodePosition :: "string \<Rightarrow> Position res" where
  "decodePosition raw =
     (case split_on (CHR '':'') raw of
        [a, b, c, d] \<Rightarrow>
          if a \<noteq> ''mysql'' \<or> b \<noteq> ''v1'' then Inl (Err ''invalid mysql checkpoint'')
          else (case b64_decode b64_url False c of
              None \<Rightarrow> Inl (Err ''invalid mysql checkpoint file'')
            | Some name \<Rightarrow>
                if name = [] then Inl (Err ''invalid mysql checkpoint file'')
                else (case ParseUint 32 d of
                    None \<Rightarrow> Inl (Err ''invalid mysql checkpoint position'')
                  | Some pos \<Rightarrow>
                      if pos < 4 then Inl (Err ''invalid mysql checkpoint position'')
                      else Inr \<lparr>po_Name = name, po_Pos = of_nat pos\<rparr>))
      | _ \<Rightarrow> Inl (Err ''invalid mysql checkpoint''))"

section \<open>SQL Server log sequence numbers\<close>

text \<open>An array of ten bytes.\<close>

type_synonym lsn = string

definition is_lsn :: "lsn \<Rightarrow> bool" where
  "is_lsn l \<longleftrightarrow> length l = 10"

definition parseLSN :: "string \<Rightarrow> lsn res" where
  "parseLSN s =
     (if length s \<noteq> 22 \<or> \<not> has_prefix s ''0x'' then Inl (Err ''invalid sqlserver lsn'')
      else (case hex_DecodeString (drop 2 s) of None \<Rightarrow> Inl (Err ''invalid sqlserver lsn'') | Some b \<Rightarrow> Inr b))"

definition binaryLSN :: "string \<Rightarrow> lsn res" where
  "binaryLSN b = (if length b \<noteq> 10 then Inl (Err ''missing or malformed sqlserver lsn'') else Inr b)"

definition lsn_String :: "lsn \<Rightarrow> string" where
  "lsn_String l = ''0x'' @ hex_EncodeToString l"

definition lsn_compare :: "lsn \<Rightarrow> lsn \<Rightarrow> int" where
  "lsn_compare a b = (if a < b then -1 else if a = b then 0 else 1)"

section \<open>Facts\<close>

lemma pad_dec_no_colon: "CHR '':'' \<notin> set (pad_dec w n)"
  by (auto simp: pad_dec_def is_digit_def dest: dec_digits)

lemma b64_url_no_colon: "CHR '':'' \<notin> set (b64_encode b64_url False s)"
proof -
  have "CHR '':'' \<notin> set b64_url" by code_simp
  then show ?thesis using b64_encode_chars [OF b64_url_alphabet, of False s] by auto
qed

lemma split_encoded:
  "split_on (CHR '':'') (encodePosition p) = [''mysql'', ''v1'', b64_encode b64_url False (po_Name p), pad_dec 20 (unat (po_Pos p))]"
proof -
  let ?n = "b64_encode b64_url False (po_Name p)" and ?d = "pad_dec 20 (unat (po_Pos p))"
  have e: "encodePosition p = ''mysql'' @ CHR '':'' # ''v1'' @ CHR '':'' # ?n @ CHR '':'' # ?d" by (simp add: encodePosition_def)
  have 1: "split_on (CHR '':'') (?n @ CHR '':'' # ?d) = [?n, ?d]"
    using split_on_append [OF b64_url_no_colon] split_on_no_sep [OF pad_dec_no_colon] by simp
  have 2: "split_on (CHR '':'') (''v1'' @ CHR '':'' # s) = ''v1'' # split_on (CHR '':'') s" for s by (rule split_on_append) simp
  have 3: "split_on (CHR '':'') (''mysql'' @ CHR '':'' # s) = ''mysql'' # split_on (CHR '':'') s" for s by (rule split_on_append) simp
  show ?thesis unfolding e 3 2 1 ..
qed

lemma decoded_valid:
  assumes "decodePosition raw = Inr q"
  shows "po_Name q \<noteq> []" "4 \<le> po_Pos q"
proof -
  obtain d pos where pos: "ParseUint 32 d = Some pos" "\<not> pos < 4" "po_Pos q = of_nat pos" and name: "po_Name q \<noteq> []"
    using assms by (auto simp: decodePosition_def split: list.splits option.splits if_splits)
  have "pos < 2 ^ 32" using pos(1) by (auto simp: ParseUint_def split: if_splits)
  then have "unat (of_nat pos :: 32 word) = pos" by (simp add: unat_of_nat)
  then show "4 \<le> po_Pos q" using pos by (simp add: word_le_nat_alt)
  show "po_Name q \<noteq> []" by (rule name)
qed

text \<open>C20. A checkpoint that the collector writes for a position of the binary log is read back as that position, and every
  checkpoint that is accepted is such a position: it names a file and lies behind the header of the log.\<close>

theorem position_roundtrip:
  "(po_Name p \<noteq> [] \<and> 4 \<le> po_Pos p \<longrightarrow> decodePosition (encodePosition p) = Inr p) \<and>
   (decodePosition raw = Inr q \<longrightarrow> po_Name q \<noteq> [] \<and> 4 \<le> po_Pos q \<and> decodePosition (encodePosition q) = Inr q)"
proof -
  have again: "decodePosition (encodePosition p) = Inr p" if "po_Name p \<noteq> []" "4 \<le> po_Pos p" for p
  proof -
    have lt: "unat (po_Pos p) < 2 ^ 32" using unsigned_less [of "po_Pos p"] by simp
    have ge: "\<not> unat (po_Pos p) < 4" using that(2) by (simp add: word_le_nat_alt)
    show ?thesis
      using that(1) ge ParseUint_pad_dec [OF lt] b64_roundtrip [OF b64_url_alphabet]
      by (simp add: decodePosition_def split_encoded del: b64_encode.simps)
  qed
  have "po_Name q \<noteq> [] \<and> 4 \<le> po_Pos q" if "decodePosition raw = Inr q"
    using that decoded_valid by blast
  then show ?thesis using again by blast
qed


theorem position_roundtrip_witness:
  "decodePosition (encodePosition \<lparr>po_Name = ''mysql-bin.000003'', po_Pos = 157\<rparr>) = Inr \<lparr>po_Name = ''mysql-bin.000003'', po_Pos = 157\<rparr>"
proof -
  have "(4 :: 32 word) \<le> 157" by simp
  then show ?thesis using position_roundtrip [of "\<lparr>po_Name = ''mysql-bin.000003'', po_Pos = 157\<rparr>" "[]" "undefined"] by simp
qed

text \<open>The hexadecimal text of bytes keeps their order.\<close>

lemma hex_alphabet_less: "m < 16 \<Longrightarrow> n < 16 \<Longrightarrow> hex_alphabet ! m < hex_alphabet ! n \<longleftrightarrow> m < n"
proof -
  have "list_all (\<lambda>m. list_all (\<lambda>n. hex_alphabet ! m < hex_alphabet ! n \<longleftrightarrow> m < n) [0..<16]) [0..<16]" by code_simp
  then show "m < 16 \<Longrightarrow> n < 16 \<Longrightarrow> hex_alphabet ! m < hex_alphabet ! n \<longleftrightarrow> m < n" by (simp add: list_all_iff)
qed

lemma hex_alphabet_inject: "m < 16 \<Longrightarrow> n < 16 \<Longrightarrow> hex_alphabet ! m = hex_alphabet ! n \<longleftrightarrow> m = n"
  using hex_value_alphabet by (metis option.inject)

lemma split_16:
  fixes m n :: nat
  shows "m = n \<longleftrightarrow> m div 16 = n div 16 \<and> m mod 16 = n mod 16"
    and "m < n \<longleftrightarrow> m div 16 < n div 16 \<or> m div 16 = n div 16 \<and> m mod 16 < n mod 16"
proof -
  have m: "m = 16 * (m div 16) + m mod 16" and n: "n = 16 * (n div 16) + n mod 16" by simp_all
  have r: "m mod 16 < 16" "n mod 16 < 16" by simp_all
  show "m = n \<longleftrightarrow> m div 16 = n div 16 \<and> m mod 16 = n mod 16" using m n by metis
  show "m < n \<longleftrightarrow> m div 16 < n div 16 \<or> m div 16 = n div 16 \<and> m mod 16 < n mod 16" using m n r by linarith
qed

lemma hex_less:
  assumes "length a = length b"
  shows "hex_EncodeToString a < hex_EncodeToString b \<longleftrightarrow> a < b"
  using assms
proof (induction a b rule: list_induct2)
  case (Cons c cs d ds)
  have b: "of_char c < (256 :: nat)" "of_char d < (256 :: nat)" by (rule of_char_bound)+
  then have d: "of_char c div 16 < (16 :: nat)" "of_char d div 16 < (16 :: nat)" by linarith+
  have eq: "c = d \<longleftrightarrow> of_char c div 16 = (of_char d div 16 :: nat) \<and> of_char c mod 16 = (of_char d mod 16 :: nat)"
    unfolding of_char_eq_iff [symmetric, where ?'a = nat] by (rule split_16(1))
  have less: "c < d \<longleftrightarrow> of_char c div 16 < (of_char d div 16 :: nat) \<or>
      of_char c div 16 = (of_char d div 16 :: nat) \<and> of_char c mod 16 < (of_char d mod 16 :: nat)"
    unfolding less_char_def by (rule split_16(2))
  show ?case using Cons.IH d less eq by (auto simp: hex_alphabet_less hex_alphabet_inject)
qed simp

lemma parseLSN_length: "parseLSN s = Inr l \<Longrightarrow> is_lsn l"
  by (auto simp: parseLSN_def is_lsn_def split: if_splits option.splits dest: hex_DecodeString_length)

text \<open>C28. A log sequence number is read back from its text, whatever is read has ten bytes, and the order of the numbers is the order
  of their texts.\<close>

theorem lsn_text:
  assumes "is_lsn a" "is_lsn b"
  shows "parseLSN (lsn_String a) = Inr a \<and>
    (parseLSN s = Inr l \<longrightarrow> is_lsn l \<and> parseLSN (lsn_String l) = Inr l) \<and>
    (lsn_compare a b = -1 \<longleftrightarrow> lsn_String a < lsn_String b) \<and> (lsn_compare a b = 0 \<longleftrightarrow> lsn_String a = lsn_String b)"
proof -
  have again: "parseLSN (lsn_String l) = Inr l" if "is_lsn l" for l
    using that by (simp add: parseLSN_def lsn_String_def is_lsn_def has_prefix_def)
  have less: "lsn_String a < lsn_String b \<longleftrightarrow> a < b" using hex_less [of a b] assms by (simp add: lsn_String_def is_lsn_def)
  have eq: "lsn_String a = lsn_String b \<longleftrightarrow> a = b" using again [OF assms(1)] again [OF assms(2)] by (metis sum.inject(2))
  show ?thesis using again assms(1) parseLSN_length less eq by (auto simp: lsn_compare_def)
qed

theorem lsn_text_witness:
  "parseLSN (lsn_String (replicate 9 (CHR ''a'') @ ''b'')) = Inr (replicate 9 (CHR ''a'') @ ''b'')"
  using lsn_text [of "replicate 9 (CHR ''a'') @ ''b''" "replicate 10 (CHR ''a'')"] by (simp add: is_lsn_def)

end
