(* ===== verification/Wire.thy ===== *)
theory Wire
  imports Queue
begin

text \<open>
  The frames of the replication stream (\<open>proto/sync.proto\<close>, generated as \<open>internal/rpc/syncv1/sync.pb.go\<close>).
  A frame is a oneof: one constructor per body and \<open>NoBody\<close> for a frame with none.
  The payload of an event is the encoded message, of the type \<open>'v\<close> of encoded texts.
\<close>

record Hello =
  hl_SyncerId :: string
  hl_Generation :: string
  hl_EarliestSeq :: nat
  hl_ReadySeq :: nat
  hl_ProtocolVersion :: string
  hl_ReconcileSupported :: bool

record 'v Event =
  ev_Seq :: nat
  ev_MessageId :: string
  ev_Json :: 'v

record ReplayUnavailable =
  ru_RequestedSeq :: nat
  ru_EarliestSeq :: nat

record Pull =
  pl_Generation :: string
  pl_Seq :: nat

record wire_Ack =
  ak_Generation :: string
  ak_Seq :: nat
  ak_MessageId :: string

record ReconcileRequest =
  rq_RequestId :: string
  rq_SourceSchema :: string
  rq_Table :: string
  rq_Buckets :: "32 word"
  rq_AllBuckets :: bool
  rq_Bucket :: "32 word"
  rq_IncludeRows :: bool
  rq_TimeoutSeconds :: "32 word"

record BucketDigest =
  bd_Bucket :: "32 word"
  bd_Rows :: "64 word"
  bd_Digest :: string

record ReconcileResult =
  rr_RequestId :: string
  rr_SourceSchema :: string
  rr_Table :: string
  rr_Columns :: "string list"
  rr_PrimaryKeys :: "string list"
  rr_Digests :: "BucketDigest list"
  rr_RowsJson :: string
  rr_Error :: string
  rr_ColumnTypes :: "string list"

record RepairRequest =
  rp_RequestId :: string
  rp_Reason :: string

record Metrics =
  mx_PrometheusText :: string
  mx_CollectedAtUnixMilli :: int

datatype 'v CollectorFrame =
    HelloFrame Hello
  | EventFrame "'v Event"
  | ReplayUnavailableFrame ReplayUnavailable
  | MetricsFrame Metrics
  | IdleFrame nat
  | ReconcileResultFrame ReconcileResult
  | RepairAcceptedFrame string
  | ResumeAcceptedFrame string
  | NoCollectorBody

datatype ServerFrame =
    PullFrame Pull
  | AckFrame wire_Ack
  | ReconcileFrame ReconcileRequest
  | RepairFrame RepairRequest
  | ResumeFrame string
  | NoServerBody

definition empty_result :: "ReconcileRequest \<Rightarrow> string \<Rightarrow> ReconcileResult" where
  "empty_result q e = \<lparr>rr_RequestId = rq_RequestId q, rr_SourceSchema = rq_SourceSchema q, rr_Table = rq_Table q, rr_Columns = [],
     rr_PrimaryKeys = [], rr_Digests = [], rr_RowsJson = '''', rr_Error = e, rr_ColumnTypes = []\<rparr>"

end
