(* ===== verification/Controller.thy ===== *)
theory Controller
  imports Wire
begin

text \<open>
  The controller of the capture goroutine, \<open>internal/app/reconcile.go\<close>.  A run of the capture is the number of the
  \<open>startLocked\<close> that started it; \<open>cc_Alive\<close> are the runs whose goroutine has not returned and \<open>cc_Cancelled\<close> those
  whose context was cancelled.  \<open>cc_Cancel\<close> is the field \<open>cancel\<close>, the run it cancels or nil, and \<open>cc_Done\<close> the run that
  closes the channel \<open>done\<close>.
\<close>

section \<open>State and operations\<close>

record captureController =
  cc_Parent :: bool
  cc_Runs :: nat
  cc_Alive :: "nat set"
  cc_Cancelled :: "nat set"
  cc_Cancel :: "nat option"
  cc_Done :: nat
  cc_PausedFor :: string
  cc_Fatal :: "err option"

text \<open>\<open>cc_Parent\<close> says that the parent context was cancelled.\<close>

definition startLocked :: "captureController \<Rightarrow> captureController" where
  "startLocked c = c\<lparr>cc_Runs := Suc (cc_Runs c), cc_Alive := insert (cc_Runs c) (cc_Alive c), cc_Cancel := Some (cc_Runs c), cc_Done := cc_Runs c\<rparr>"

definition newCaptureController :: "bool \<Rightarrow> captureController" where
  "newCaptureController parent = startLocked \<lparr>cc_Parent = parent, cc_Runs = 0, cc_Alive = {}, cc_Cancelled = {}, cc_Cancel = None, cc_Done = 0,
     cc_PausedFor = '''', cc_Fatal = None\<rparr>"

text \<open>The end of the goroutine of run \<open>n\<close>, with the result of the capture.\<close>

definition run_returns :: "nat \<Rightarrow> err option \<Rightarrow> captureController \<Rightarrow> captureController" where
  "run_returns n r c = c\<lparr>cc_Alive := cc_Alive c - {n},
     cc_Fatal := (case r of None \<Rightarrow> cc_Fatal c | Some e \<Rightarrow>
       if \<not> errors_Is e ErrCanceled \<and> n \<notin> cc_Cancelled c \<and> \<not> cc_Parent c \<and> cc_Fatal c = None then Some e else cc_Fatal c)\<rparr>"

text \<open>The select at the end of \<open>stop\<close>: the run closed its channel, returning \<open>r\<close> if it had not returned before, or the
  context of the request ended first.\<close>

datatype awaited = Returned "err option" | TimedOut

definition stop :: "awaited \<Rightarrow> captureController step" where
  "stop w c =
     (case cc_Cancel c of
        None \<Rightarrow> (c, None)
      | Some n \<Rightarrow>
          let c1 = c\<lparr>cc_Cancel := None, cc_Cancelled := insert n (cc_Cancelled c)\<rparr> in
          (case w of
             TimedOut \<Rightarrow> (c1, Some (Err ''context deadline exceeded''))
           | Returned r \<Rightarrow> (if cc_Done c \<in> cc_Alive c then run_returns (cc_Done c) r c1 else c1, None)))"

definition Resume :: "string \<Rightarrow> captureController step" where
  "Resume requestID c =
     (if cc_PausedFor c \<noteq> requestID then (c, Some (Err ''reconciliation request is no longer active''))
      else let c1 = c\<lparr>cc_PausedFor := ''''\<rparr> in
        (if \<not> cc_Parent c \<and> cc_Cancel c = None then startLocked c1 else c1, None))"

definition Reconcile ::
  "(ReconcileRequest \<Rightarrow> ReconcileResult option res) option \<Rightarrow> awaited \<Rightarrow> 'b Store \<Rightarrow> ReconcileRequest \<Rightarrow>
   captureController \<Rightarrow> captureController \<times> ReconcileResult option res" where
  "Reconcile scan w q request c =
     (case scan of
        None \<Rightarrow> (c, Inl (Err ''source engine does not support reconciliation''))
      | Some scan \<Rightarrow>
          if cc_PausedFor c \<noteq> '''' \<and> cc_PausedFor c \<noteq> rq_RequestId request then (c, Inl (Err ''another reconciliation is active''))
          else (case stop w (c\<lparr>cc_PausedFor := rq_RequestId request\<rparr>) of
              (c1, Some e) \<Rightarrow> (c1, Inl e)
            | (c1, None) \<Rightarrow>
                if s_NextSeq (st q) \<noteq> s_ReadySeq (st q) \<or> s_DeliveredSeq (st q) \<noteq> s_ReadySeq (st q)
                then (fst (Resume (rq_RequestId request) c1), Inl ErrNotDrained)
                else (c1, scan request)))"

definition Repair :: "('v, 'b, 'z) qenv_scheme \<Rightarrow> obs \<Rightarrow> string \<Rightarrow> captureController \<times> 'b Store \<Rightarrow> (captureController \<times> 'b Store) \<times> err option" where
  "Repair E ob requestID x =
     (case x of (c, q) \<Rightarrow>
      if cc_PausedFor c \<noteq> requestID \<or> cc_Cancel c \<noteq> None
      then ((c, q), Some (Err ''repair requires the matching paused reconciliation''))
      else (case ResetForSnapshot E ob q of
          Inl e \<Rightarrow> ((c, q), Some e)
        | Inr q' \<Rightarrow> let c1 = c\<lparr>cc_PausedFor := ''''\<rparr> in ((if \<not> cc_Parent c then startLocked c1 else c1, q'), None)))"

definition Wait_fatal :: "captureController \<Rightarrow> err option option" where
  "Wait_fatal c = (if cc_Parent c then Some None else map_option Some (cc_Fatal c))"

section \<open>Runs of the controller\<close>

text \<open>The queue is read and reset by the controller and changed by the capture and the delivery at any time.\<close>

inductive cc_step :: "('v, 'b, 'z) qenv_scheme \<Rightarrow> captureController \<times> 'b Store \<Rightarrow> bool \<Rightarrow> captureController \<times> 'b Store \<Rightarrow> bool" for E where
  returns: "n \<in> cc_Alive c \<Longrightarrow> cc_step E (c, q) False (run_returns n r c, q)"
| reconcile: "Reconcile scan w q request c = (c', r) \<Longrightarrow> rq_RequestId request \<noteq> '''' \<Longrightarrow> cc_step E (c, q) (w = TimedOut) (c', q)"
| resume: "Resume requestID c = (c', r) \<Longrightarrow> cc_step E (c, q) False (c', q)"
| repair: "Repair E ob requestID (c, q) = (x', r) \<Longrightarrow> requestID \<noteq> '''' \<Longrightarrow> cc_step E (c, q) False x'"
| shutdown: "cc_step E (c, q) False (c\<lparr>cc_Parent := True\<rparr>, q)"
| others: "cc_step E (c, q) False (c, q')"

inductive_simps cc_step_simps: "cc_step E (c, q) late (c', q')"

inductive cc_run :: "('v, 'b, 'z) qenv_scheme \<Rightarrow> captureController \<times> 'b Store \<Rightarrow> bool list \<Rightarrow> captureController \<times> 'b Store \<Rightarrow> bool" for E x where
  start: "cc_run E x [] x"
| step: "cc_run E x ls x1 \<Longrightarrow> cc_step E x1 l x2 \<Longrightarrow> cc_run E x (ls @ [l]) x2"

text \<open>Of all runs at most the one that \<open>cancel\<close> belongs to is alive.\<close>

definition single :: "captureController \<Rightarrow> bool" where
  "single c \<longleftrightarrow> (case cc_Cancel c of None \<Rightarrow> cc_Alive c = {} | Some n \<Rightarrow> cc_Alive c \<subseteq> {n} \<and> cc_Done c = n)"

lemma single_start: "cc_Alive c = {} \<Longrightarrow> single (startLocked c)"
  by (simp add: single_def startLocked_def)

lemma single_new: "single (newCaptureController p)"
  unfolding newCaptureController_def by (rule single_start) simp

lemma single_paused [simp]: "single (c\<lparr>cc_PausedFor := p\<rparr>) = single c" "single (c\<lparr>cc_Parent := b\<rparr>) = single c"
  by (auto simp: single_def split: option.splits)

lemma single_returns: "single c \<Longrightarrow> single (run_returns n r c)"
  by (auto simp: single_def run_returns_def split: option.splits)

lemma stop_stops:
  assumes "stop w c = (c', r)" "single c" "w \<noteq> TimedOut"
  shows "single c' \<and> cc_Alive c' = {} \<and> cc_Cancel c' = None \<and> r = None \<and> cc_PausedFor c' = cc_PausedFor c \<and> cc_Parent c' = cc_Parent c"
  using assms by (auto simp: stop_def single_def run_returns_def Let_def split: option.splits awaited.splits if_splits)

lemma single_resume: "Resume i c = (c', r) \<Longrightarrow> single c \<Longrightarrow> single c'"
  by (auto simp: Resume_def Let_def split: if_splits intro!: single_start) (auto simp: single_def)

lemma single_reconcile:
  assumes "Reconcile scan w q request c = (c', r)" "single c" "w \<noteq> TimedOut"
  shows "single c'"
proof -
  obtain c1 e where c1: "stop w (c\<lparr>cc_PausedFor := rq_RequestId request\<rparr>) = (c1, e)" by fastforce
  have "single c1" using stop_stops [OF c1 _ assms(3)] assms(2) by simp
  then have "single (fst (Resume i c1))" for i using single_resume [of i c1] by (cases "Resume i c1") simp
  with \<open>single c1\<close> show ?thesis using assms(1,2) c1
    by (auto simp: Reconcile_def split: option.splits if_splits)
qed

lemma single_step:
  assumes "cc_step E (c, q) False (c', q')" "single c"
  shows "single c'"
  using assms(1)
proof cases
  case (repair ob i r)
  then show ?thesis using assms(2)
    by (auto simp: Repair_def Let_def split: if_splits sum.splits intro!: single_start) (auto simp: single_def)
qed (use assms(2) in \<open>auto intro: single_returns single_resume single_reconcile\<close>)

lemma single_run:
  assumes "cc_run E x ls y" "single (fst x)" "True \<notin> set ls"
  shows "single (fst y)"
  using assms
proof (induction rule: cc_run.induct)
  case (step ls x1 l x2)
  then show ?case using single_step [of E "fst x1" "snd x1" "fst x2" "snd x2"] by auto
qed


section \<open>Properties\<close>

definition drained :: "'b Store \<Rightarrow> bool" where
  "drained q \<longleftrightarrow> s_NextSeq (st q) = s_ReadySeq (st q) \<and> s_DeliveredSeq (st q) = s_ReadySeq (st q)"

lemma reconcile_scans:
  assumes "Reconcile scan w q request c = (c', Inr r)" "single c" "w \<noteq> TimedOut"
  shows "cc_Alive c' = {} \<and> drained q"
proof -
  obtain c1 e where c1: "stop w (c\<lparr>cc_PausedFor := rq_RequestId request\<rparr>) = (c1, e)" by fastforce
  have "cc_Alive c1 = {}" using stop_stops [OF c1 _ assms(3)] assms(2) by simp
  then show ?thesis using assms(1) c1
    by (auto simp: Reconcile_def drained_def split: option.splits if_splits)
qed

text \<open>C21. As long as no request times out while the capture is being stopped, at most one capture runs at any time, and the source is scanned
  for a reconciliation only while none runs and every captured message is published and delivered.\<close>

theorem capture_exclusive:
  assumes "cc_run E (newCaptureController p, q0) ls (c, q)" "True \<notin> set ls"
  shows "card (cc_Alive c) \<le> 1 \<and>
    (Reconcile scan (Returned e) q request c = (c', Inr r) \<longrightarrow> cc_Alive c' = {} \<and> drained q)"
proof -
  have s: "single c" using single_run [OF assms(1)] assms(2) single_new by simp
  have "\<exists>n. cc_Alive c \<subseteq> {n}" using s by (auto simp: single_def split: option.splits)
  then have "card (cc_Alive c) \<le> 1" using card_mono [of "{n}" "cc_Alive c" for n] by fastforce
  then show ?thesis using reconcile_scans [of scan "Returned e" q request c c' r] s by simp
qed

definition idle_queue :: "unit Store" where
  "idle_queue = \<lparr>st = zero_State, items = (), maxBytes = 0, reserve = 0, replayAge = 0, replayBytes = 0\<rparr>"

definition some_request :: ReconcileRequest where
  "some_request = \<lparr>rq_RequestId = ''r1'', rq_SourceSchema = ''public'', rq_Table = ''t'', rq_Buckets = 16, rq_AllBuckets = True, rq_Bucket = 0,
     rq_IncludeRows = False, rq_TimeoutSeconds = 60\<rparr>"

theorem capture_exclusive_witness:
  "\<exists>c'. Reconcile (Some (\<lambda>q. Inr (Some (empty_result q '''')))) (Returned None) idle_queue some_request (newCaptureController False) =
     (c', Inr (Some (empty_result some_request ''''))) \<and> cc_Alive c' = {} \<and> drained idle_queue"
proof -
  let ?x = "Reconcile (Some (\<lambda>q. Inr (Some (empty_result q '''')))) (Returned None) idle_queue some_request (newCaptureController False)"
  have "snd ?x = Inr (Some (empty_result some_request ''''))"
    by (simp add: Reconcile_def newCaptureController_def startLocked_def stop_def run_returns_def Let_def idle_queue_def zero_State_def some_request_def)
  then obtain c' where x: "?x = (c', Inr (Some (empty_result some_request '''')))" by (cases ?x) simp
  show ?thesis using capture_exclusive [OF cc_run.start, THEN conjunct2, rule_format, OF _ x] x by auto
qed



end
