(* ===== verification/Grpc.thy ===== *)
theory Grpc
  imports Wire
begin

text \<open>
  The collector's side of the replication stream, \<open>internal/delivery/grpc.go\<close>.  One call of \<open>connect\<close> is a session: it says
  hello with the bounds of the queue and then answers one frame of the server after the other.  The
  session is cut at its receives: \<open>connect_open\<close> is the code up to the loop, \<open>connect_step\<close> the body of the loop for one
  frame, with the frames it sends, and \<open>connect_close\<close> the deferred function.  No state changes after the last frame
  that a body sends, so a send that fails is a session that ends after the body.
\<close>

section \<open>The controller\<close>

text \<open>The interface \<open>ReconcileController\<close>: its operations work on the state \<open>'k\<close> of the controller and on the queue.\<close>

record ('b, 'k) ReconcileController =
  ct_Reconcile :: "ReconcileRequest \<Rightarrow> 'k \<times> 'b Store \<Rightarrow> ('k \<times> 'b Store) \<times> ReconcileResult option res"
  ct_Resume :: "string \<Rightarrow> ('k \<times> 'b Store) step"
  ct_Repair :: "string \<Rightarrow> ('k \<times> 'b Store) step"

section \<open>The session\<close>

text \<open>\<open>sn_Metrics\<close> says whether metrics are attached, \<open>sn_Every\<close> is their interval and \<open>sn_Controller\<close> the controller or nil.\<close>

record ('b, 'k) GRPCSender =
  sn_SourceID :: string
  sn_Metrics :: bool
  sn_Every :: int
  sn_Controller :: "('b, 'k) ReconcileController option"

record ('b, 'k) collector =
  co_Queue :: "'b Store"
  co_Ctl :: 'k
  co_Active :: string
  co_LastMetrics :: "int option"

text \<open>What one body observes: the clock and the disk for the queue, the text of the metrics and the time it was gathered.\<close>

record cobs =
  cb_Obs :: obs
  cb_Gather :: "string res"
  cb_Now :: int

definition connect_open :: "('b, 'k) GRPCSender \<Rightarrow> 'b Store \<Rightarrow> 'v CollectorFrame res" where
  "connect_open s q =
     (case Bounds q of (generation, first, ready) \<Rightarrow>
        if generation = '''' then Inl (Err ''capture generation is not ready'')
        else Inr (HelloFrame \<lparr>hl_SyncerId = sn_SourceID s, hl_Generation = generation, hl_EarliestSeq = first, hl_ReadySeq = ready,
          hl_ProtocolVersion = ''v2'', hl_ReconcileSupported = (sn_Controller s \<noteq> None)\<rparr>))"

definition sendMetrics :: "('b, 'k) GRPCSender \<Rightarrow> cobs \<Rightarrow> int option \<Rightarrow> (int option \<times> 'v CollectorFrame list) res" where
  "sendMetrics s ob lastMetrics =
     (if \<not> sn_Metrics s \<or> (case lastMetrics of None \<Rightarrow> False | Some t \<Rightarrow> cb_Now ob - t < sn_Every s) then Inr (lastMetrics, [])
      else (case cb_Gather ob of
          Inl e \<Rightarrow> Inl e
        | Inr body \<Rightarrow> Inr (Some (cb_Now ob), [MetricsFrame \<lparr>mx_PrometheusText = body, mx_CollectedAtUnixMilli = cb_Now ob div 1000000\<rparr>])))"

definition with_metrics :: "('b, 'k) GRPCSender \<Rightarrow> cobs \<Rightarrow> 'v CollectorFrame list \<Rightarrow> ('b, 'k) collector \<Rightarrow> ('b, 'k) collector \<times> 'v CollectorFrame list \<times> err option" where
  "with_metrics s ob frames c =
     (case sendMetrics s ob (co_LastMetrics c) of
        Inl e \<Rightarrow> (c, [], Some e)
      | Inr (lastMetrics, sent) \<Rightarrow> (c\<lparr>co_LastMetrics := lastMetrics\<rparr>, sent @ frames, None))"

definition on_reconcile :: "('b, 'k) GRPCSender \<Rightarrow> ReconcileRequest \<Rightarrow> ('b, 'k) collector \<Rightarrow> ('b, 'k) collector \<times> ReconcileResult" where
  "on_reconcile s request c =
     (case sn_Controller s of
        None \<Rightarrow> (c, empty_result request ''collector does not support reconciliation'')
      | Some k \<Rightarrow>
          (case ct_Reconcile k request (co_Ctl c, co_Queue c) of ((ctl, q), r) \<Rightarrow>
            (c\<lparr>co_Ctl := ctl, co_Queue := q\<rparr>,
             case r of
               Inl _ \<Rightarrow> empty_result request ''source reconciliation failed''
             | Inr None \<Rightarrow> empty_result request ''collector returned an invalid reconciliation result''
             | Inr (Some computed) \<Rightarrow>
                 if rr_RequestId computed \<noteq> rq_RequestId request then empty_result request ''collector returned an invalid reconciliation result''
                 else computed)))"

definition on_ack :: "('v, 'b, 'z) qenv_scheme \<Rightarrow> cobs \<Rightarrow> wire_Ack \<Rightarrow> 'b Store \<Rightarrow> 'b Store res" where
  "on_ack E ob ack q =
     (if ak_Generation ack \<noteq> s_Generation (st q) \<or> ak_Seq ack > s_DeliveredSeq (st q) + 1
      then Inl (Err ''grpc server returned a non-contiguous acknowledgement'')
      else if ak_Seq ack = s_DeliveredSeq (st q) + 1 then Ack E (cb_Obs ob) q (ak_Seq ack) (ak_MessageId ack)
      else Inr q)"

definition on_pull ::
  "('v, 'b, 'z) qenv_scheme \<Rightarrow> ('b, 'k) GRPCSender \<Rightarrow> cobs \<Rightarrow> Pull \<Rightarrow> ('b, 'k) collector \<Rightarrow> ('b, 'k) collector \<times> 'v CollectorFrame list \<times> err option" where
  "on_pull E s ob pull c =
     (case Bounds (co_Queue c) of (generation, first, ready) \<Rightarrow>
        if pl_Generation pull \<noteq> '''' \<and> pl_Generation pull \<noteq> generation then (c, [], Some (Err ''grpc server requested an unknown generation''))
        else if pl_Seq pull < first then
          (c, [ReplayUnavailableFrame \<lparr>ru_RequestedSeq = pl_Seq pull, ru_EarliestSeq = first\<rparr>], None)
        else if pl_Seq pull > ready then with_metrics s ob [IdleFrame ready] c
        else (case Get E (co_Queue c) (pl_Seq pull) of
            Inl e \<Rightarrow> (c, [], Some e)
          | Inr (message, raw) \<Rightarrow> (c, [EventFrame \<lparr>ev_Seq = m_Seq message, ev_MessageId = m_ID message, ev_Json = raw\<rparr>], None)))"

definition connect_step ::
  "('v, 'b, 'z) qenv_scheme \<Rightarrow> ('b, 'k) GRPCSender \<Rightarrow> cobs \<Rightarrow> ServerFrame \<Rightarrow> ('b, 'k) collector \<Rightarrow> ('b, 'k) collector \<times> 'v CollectorFrame list \<times> err option" where
  "connect_step E s ob frame c =
     (case frame of
        ReconcileFrame request \<Rightarrow>
          (case on_reconcile s request (c\<lparr>co_Active := rq_RequestId request\<rparr>) of (c', result) \<Rightarrow> (c', [ReconcileResultFrame result], None))
      | ResumeFrame request \<Rightarrow>
          (case sn_Controller s of
             None \<Rightarrow> (c, [], Some (Err ''grpc server requested reconciliation resume from an unsupported collector''))
           | Some k \<Rightarrow>
               (case ct_Resume k request (co_Ctl c, co_Queue c) of
                  ((ctl, q), Some e) \<Rightarrow> (c\<lparr>co_Ctl := ctl, co_Queue := q\<rparr>, [], Some e)
                | ((ctl, q), None) \<Rightarrow> (c\<lparr>co_Ctl := ctl, co_Queue := q, co_Active := ''''\<rparr>, [ResumeAcceptedFrame request], None)))
      | RepairFrame request \<Rightarrow>
          (case sn_Controller s of
             None \<Rightarrow> (c, [], Some (Err ''grpc server requested repair from an unsupported collector''))
           | Some k \<Rightarrow>
               (case ct_Repair k (rp_RequestId request) (co_Ctl c, co_Queue c) of
                  ((ctl, q), Some e) \<Rightarrow> (c\<lparr>co_Ctl := ctl, co_Queue := q\<rparr>, [], Some e)
                | ((ctl, q), None) \<Rightarrow>
                    (c\<lparr>co_Ctl := ctl, co_Queue := q, co_Active := ''''\<rparr>, [RepairAcceptedFrame (rp_RequestId request)], Some ErrRepairRestart)))
      | AckFrame ack \<Rightarrow>
          (case on_ack E ob ack (co_Queue c) of
             Inl e \<Rightarrow> (c, [], Some e)
           | Inr q \<Rightarrow> with_metrics s ob [] (c\<lparr>co_Queue := q\<rparr>))
      | PullFrame pull \<Rightarrow> on_pull E s ob pull c
      | NoServerBody \<Rightarrow> (c, [], Some (Err ''grpc server sent an empty frame'')))"

definition connect_close :: "('b, 'k) GRPCSender \<Rightarrow> ('b, 'k) collector \<Rightarrow> ('b, 'k) collector" where
  "connect_close s c =
     (case sn_Controller s of
        Some k \<Rightarrow>
          if co_Active c \<noteq> '''' then (case ct_Resume k (co_Active c) (co_Ctl c, co_Queue c) of ((ctl, q), _) \<Rightarrow> c\<lparr>co_Ctl := ctl, co_Queue := q\<rparr>)
          else c
      | None \<Rightarrow> c)"

section \<open>Reconnecting\<close>

text \<open>\<open>time.Duration\<close> is a signed integer of 64 bits; doubling one wraps around.\<close>

definition doubled :: "int \<Rightarrow> int" where
  "doubled d = sint (word_of_int (d * 2) :: 64 word)"

definition fatal_status :: "err \<Rightarrow> bool" where
  "fatal_status e = (case e of Status code _ \<Rightarrow> code \<in> set [''Unauthenticated'', ''PermissionDenied'', ''InvalidArgument''] | _ \<Rightarrow> False)"

text \<open>The loop of \<open>Run\<close> over the sessions it makes: each ends with an error, or the context of the collector ends during the session
  or during the wait after it.  The result is the list of waits and the value that \<open>Run\<close> returns, if it does.\<close>

datatype session_end = Failed err | Cancelled | CancelledWaiting err

fun grpc_Run :: "int \<Rightarrow> int \<Rightarrow> session_end list \<Rightarrow> int list \<times> err option option" where
  "grpc_Run maxDelay delay [] = ([], None)"
| "grpc_Run maxDelay delay (Cancelled # es) = ([], Some None)"
| "grpc_Run maxDelay delay (CancelledWaiting e # es) = (if fatal_status e then ([], Some (Some e)) else ([delay], Some None))"
| "grpc_Run maxDelay delay (Failed e # es) =
     (if fatal_status e then ([], Some (Some e))
      else (case grpc_Run maxDelay (min maxDelay (doubled delay)) es of (waits, r) \<Rightarrow> (delay # waits, r)))"


section \<open>Facts\<close>

lemma doubled_small: "0 \<le> d \<Longrightarrow> d < 2 ^ 62 \<Longrightarrow> doubled d = 2 * d"
proof -
  assume "0 \<le> d" "d < 2 ^ 62"
  then have "signed_take_bit 63 (d * 2) = d * 2" by (intro signed_take_bit_int_eq_self) auto
  then show ?thesis unfolding doubled_def signed_of_int by simp
qed

definition backoff :: "int \<Rightarrow> int \<Rightarrow> nat \<Rightarrow> int" where
  "backoff lo hi n = min hi (lo * 2 ^ n)"

lemma backoff_Suc:
  assumes "0 \<le> lo" "lo \<le> hi" "hi < 2 ^ 62"
  shows "min hi (doubled (backoff lo hi n)) = backoff lo hi (Suc n)"
proof -
  have "0 \<le> backoff lo hi n" "backoff lo hi n < 2 ^ 62" using assms by (auto simp: backoff_def min_def)
  then show ?thesis using assms by (auto simp: doubled_small backoff_def min_def)
qed

lemma grpc_Run_waits:
  assumes "0 \<le> lo" "lo \<le> hi" "hi < 2 ^ 62" "\<forall>e\<in>set es. \<not> fatal_status e"
  shows "grpc_Run hi (backoff lo hi n) (map Failed es) = (map (backoff lo hi) [n..<n + length es], None)"
  using assms(4)
proof (induction es arbitrary: n)
  case (Cons e es)
  show ?case using Cons.IH [of "Suc n"] Cons.prems by (simp add: backoff_Suc [OF assms(1-3)] upt_conv_Cons [of n] del: upt_Suc)
qed simp

text \<open>C40. The waits between sessions grow from the smallest to the largest delay and stay there: however long the sessions between
  two failures lasted and whatever they delivered, the delay never returns to the smallest.\<close>

theorem grpc_backoff_never_resets:
  assumes "0 \<le> lo" "lo \<le> hi" "hi < 2 ^ 62" "\<forall>e\<in>set es. \<not> fatal_status e"
  shows "grpc_Run hi lo (map Failed es) = (map (\<lambda>n. min hi (lo * 2 ^ n)) [0..<length es], None)"
proof -
  have "lo = backoff lo hi 0" using assms(2) by (simp add: backoff_def)
  with grpc_Run_waits [OF assms, of 0] show ?thesis by (simp add: backoff_def [abs_def])
qed

theorem grpc_backoff_never_resets_witness:
  "grpc_Run 60 1 (map Failed (replicate 8 (Status ''Unavailable'' ''stream closed''))) = ([1, 2, 4, 8, 16, 32, 60, 60], None)"
  using grpc_backoff_never_resets [of 1 60 "replicate 8 (Status ''Unavailable'' ''stream closed'')"] by (simp add: fatal_status_def upt_rec)

end
