(* ===== verification/Registry.thy ===== *)
theory Registry
  imports ServerConfig "HOL-Library.AList"
begin

text \<open>
  The registry of the server, \<open>internal/server/server.go\<close>: which targets are open, which syncers are connected, and the reload of
  the configuration.  A target object is a number, the order in which \<open>openTarget\<close> returned it, so that comparing
  pointers is comparing numbers; \<open>sv_Closed\<close> are the objects whose \<open>Close\<close> was called.  The
  maps of the service are association lists in an order in which the runtime may visit them.  Every definition is one critical
  section of the mutex or the code between two of them.
\<close>

section \<open>State\<close>

type_synonym targets = "(string \<times> nat) list"

record Service =
  sv_Cfg :: ServerConfig
  sv_Targets :: targets
  sv_Connected :: "string set"
  sv_LastErrors :: "string \<Rightarrow> string"
  sv_ReconcileNext :: "string \<rightharpoonup> int"
  sv_ReloadError :: string
  sv_Opened :: nat
  sv_Closed :: "nat set"

section \<open>Sessions\<close>

definition token_of :: "ServerConfig \<Rightarrow> string \<Rightarrow> string" where
  "token_of c i = (case find (\<lambda>s. sy_ID s = i) (sc_Syncers c) of Some s \<Rightarrow> sy_Token s | None \<Rightarrow> '''')"

definition acquire :: "string \<Rightarrow> Service \<Rightarrow> Service \<times> (nat \<times> string) res" where
  "acquire i s =
     (case map_of (sv_Targets s) i of
        None \<Rightarrow> (s, Inl (Status ''PermissionDenied'' ''unknown syncer''))
      | Some t \<Rightarrow>
          if i \<in> sv_Connected s then (s, Inl (Status ''AlreadyExists'' ''syncer already connected''))
          else (s\<lparr>sv_Connected := insert i (sv_Connected s)\<rparr>, Inr (t, token_of (sv_Cfg s) i)))"

definition release :: "string \<Rightarrow> nat \<Rightarrow> Service \<Rightarrow> Service" where
  "release i used s =
     s\<lparr>sv_Connected := sv_Connected s - {i},
       sv_Closed := (if map_of (sv_Targets s) i \<noteq> Some used then insert used (sv_Closed s) else sv_Closed s)\<rparr>"

definition retiring :: "string \<Rightarrow> nat \<Rightarrow> Service \<Rightarrow> bool" where
  "retiring i used s \<longleftrightarrow> map_of (sv_Targets s) i \<noteq> Some used"

text \<open>The values of the authorization header; the constant-time comparison of equally long strings is equality.\<close>

definition bearerMatches :: "string list \<Rightarrow> string \<Rightarrow> bool" where
  "bearerMatches values expected \<longleftrightarrow>
     (case values of
        [v] \<Rightarrow> has_prefix v ''Bearer '' \<and> length (trim_prefix v ''Bearer '') = length expected \<and> trim_prefix v ''Bearer '' = expected
      | _ \<Rightarrow> False)"

definition admin :: "string list \<Rightarrow> Service \<Rightarrow> bool" where
  "admin values s = bearerMatches values (sc_AdminToken (sv_Cfg s))"

definition setSyncerError :: "string \<Rightarrow> string \<Rightarrow> Service \<Rightarrow> Service" where
  "setSyncerError i v s = s\<lparr>sv_LastErrors := (sv_LastErrors s)(i := v)\<rparr>"

section \<open>Opening targets\<close>

text \<open>The target that would be opened has its configuration; \<open>identity\<close> reads the identity of its database.\<close>

definition overlap_key :: "string \<Rightarrow> Syncer \<Rightarrow> TargetTable \<Rightarrow> string" where
  "overlap_key instance_id c t = instance_id @ [CHR 0x00] @ pg_TargetSchema (sy_Postgres c) @ [CHR 0x00] @ tt_Name t"

fun overlap_tables :: "string \<Rightarrow> string \<Rightarrow> Syncer \<Rightarrow> (string \<rightharpoonup> string) \<Rightarrow> TargetTable list \<Rightarrow> (string \<rightharpoonup> string) res" where
  "overlap_tables i instance_id c seen [] = Inr seen"
| "overlap_tables i instance_id c seen (t # ts) =
     (case seen (overlap_key instance_id c t) of
        Some previous \<Rightarrow>
          if previous \<noteq> '''' \<and> previous \<noteq> i then Inl (Err (''syncers '' @ previous @ '' and '' @ i @ '' resolve to the same target table''))
          else overlap_tables i instance_id c (seen(overlap_key instance_id c t \<mapsto> i)) ts
      | None \<Rightarrow> overlap_tables i instance_id c (seen(overlap_key instance_id c t \<mapsto> i)) ts)"

fun overlap_targets :: "(nat \<Rightarrow> string res) \<Rightarrow> (nat \<Rightarrow> Syncer) \<Rightarrow> (string \<rightharpoonup> string) \<Rightarrow> targets \<Rightarrow> err option" where
  "overlap_targets identity cfg seen [] = None"
| "overlap_targets identity cfg seen ((i, t) # ts) =
     (case identity t of
        Inl e \<Rightarrow> Some e
      | Inr instance_id \<Rightarrow>
          (case overlap_tables i instance_id (cfg t) seen (sy_Tables (cfg t)) of
             Inl e \<Rightarrow> Some e
           | Inr seen' \<Rightarrow> overlap_targets identity cfg seen' ts))"

definition validateTargetOverlap :: "(nat \<Rightarrow> string res) \<Rightarrow> (nat \<Rightarrow> Syncer) \<Rightarrow> targets \<Rightarrow> err option" where
  "validateTargetOverlap identity cfg ts = overlap_targets identity cfg Map.empty ts"

text \<open>What a load of the configuration and the opening of targets observe: the candidate, the key pair, the result
  of \<open>openTarget\<close> for a syncer, and of \<open>identity\<close> and the configuration for an object; \<open>re_Text\<close> is the text of an error.\<close>

record renv =
  re_Load :: "ServerConfig res"
  re_KeyPair :: "err option"
  re_Open :: "Syncer \<Rightarrow> err option"
  re_Identity :: "nat \<Rightarrow> string res"
  re_Cfg :: "nat \<Rightarrow> Syncer"
  re_Text :: "err \<Rightarrow> string"

text \<open>The loop over the syncers: a syncer with an unchanged configuration keeps its object.  On an error the objects opened so far are closed.\<close>

definition fresh_of :: "targets \<Rightarrow> targets \<Rightarrow> nat set" where
  "fresh_of old opened = {t. \<exists>i. (i, t) \<in> set opened \<and> map_of old i \<noteq> Some t}"

fun open_syncers :: "renv \<Rightarrow> ServerConfig \<Rightarrow> targets \<Rightarrow> targets \<Rightarrow> nat \<Rightarrow> Syncer list \<Rightarrow> nat \<times> targets \<times> err option" where
  "open_syncers r current old opened n [] = (n, opened, None)"
| "open_syncers r current old opened n (y # ys) =
     (if find (\<lambda>x. sy_ID x = sy_ID y) (sc_Syncers current) = Some y
      then open_syncers r current old (case map_of old (sy_ID y) of Some t \<Rightarrow> AList.update (sy_ID y) t opened | None \<Rightarrow> opened) n ys
      else (case re_Open r y of
          Some e \<Rightarrow> (n, opened, Some (Wrap (''validate syncer '' @ sy_ID y) e))
        | None \<Rightarrow> open_syncers r current old (AList.update (sy_ID y) n opened) (Suc n) ys))"

text \<open>\<open>openTargets\<close> at the start of the server is the same loop with no objects to keep.\<close>

fun open_all :: "renv \<Rightarrow> targets \<Rightarrow> nat \<Rightarrow> Syncer list \<Rightarrow> nat \<times> targets \<times> err option" where
  "open_all r opened n [] = (n, opened, None)"
| "open_all r opened n (y # ys) =
     (case re_Open r y of
        Some e \<Rightarrow> (n, opened, Some (Wrap (''open target for syncer '' @ sy_ID y) e))
      | None \<Rightarrow> open_all r (AList.update (sy_ID y) n opened) (Suc n) ys)"

definition openTargets :: "renv \<Rightarrow> ServerConfig \<Rightarrow> Service step" where
  "openTargets r cfg s =
     (case open_all r [] (sv_Opened s) (sc_Syncers cfg) of
        (n, opened, Some e) \<Rightarrow> (s\<lparr>sv_Opened := n, sv_Closed := sv_Closed s \<union> snd ` set opened\<rparr>, Some e)
      | (n, opened, None) \<Rightarrow>
          (case validateTargetOverlap (re_Identity r) (re_Cfg r) opened of
             Some e \<Rightarrow> (s\<lparr>sv_Opened := n, sv_Closed := sv_Closed s \<union> snd ` set opened\<rparr>, Some e)
           | None \<Rightarrow> (s\<lparr>sv_Opened := n, sv_Targets := opened\<rparr>, None)))"

definition new_Service :: "renv \<Rightarrow> ServerConfig \<Rightarrow> Service \<times> err option" where
  "new_Service r cfg =
     (let s = \<lparr>sv_Cfg = cfg, sv_Targets = [], sv_Connected = {}, sv_LastErrors = (\<lambda>_. ''''), sv_ReconcileNext = Map.empty, sv_ReloadError = '''',
               sv_Opened = 0, sv_Closed = {}\<rparr> in
      case re_KeyPair r of Some e \<Rightarrow> (s, Some e) | None \<Rightarrow> openTargets r cfg s)"

definition Service_Close :: "Service \<Rightarrow> Service" where
  "Service_Close s = s\<lparr>sv_Closed := sv_Closed s \<union> snd ` set (sv_Targets s), sv_Targets := []\<rparr>"

section \<open>Reloading\<close>

definition setReloadError :: "renv \<Rightarrow> err \<Rightarrow> Service \<Rightarrow> Service" where
  "setReloadError r e s = s\<lparr>sv_ReloadError := re_Text r e\<rparr>"

text \<open>A reload that has opened its targets: the configuration and the objects it started from, the candidate and its objects.\<close>

record reloading =
  rl_Current :: ServerConfig
  rl_Old :: targets
  rl_Candidate :: ServerConfig
  rl_Opened :: targets

definition reload_open :: "renv \<Rightarrow> ServerConfig \<Rightarrow> targets \<Rightarrow> Service \<Rightarrow> Service \<times> reloading res" where
  "reload_open r current old s =
     (case re_Load r of
        Inl e \<Rightarrow> (setReloadError r e s, Inl e)
      | Inr candidate \<Rightarrow>
          if \<not> StaticEqual current candidate
          then let e = Err ''listener, metrics address and log output settings require restart'' in (setReloadError r e s, Inl e)
          else (case re_KeyPair r of
              Some e \<Rightarrow> (setReloadError r e s, Inl e)
            | None \<Rightarrow>
                (case open_syncers r current old [] (sv_Opened s) (sc_Syncers candidate) of
                   (n, opened, Some e) \<Rightarrow> (setReloadError r e (s\<lparr>sv_Opened := n, sv_Closed := sv_Closed s \<union> fresh_of old opened\<rparr>), Inl e)
                 | (n, opened, None) \<Rightarrow>
                     (case validateTargetOverlap (re_Identity r) (re_Cfg r) opened of
                        Some e \<Rightarrow> (setReloadError r e (s\<lparr>sv_Opened := n, sv_Closed := sv_Closed s \<union> fresh_of old opened\<rparr>), Inl e)
                      | None \<Rightarrow> (s\<lparr>sv_Opened := n\<rparr>,
                          Inr \<lparr>rl_Current = current, rl_Old = old, rl_Candidate = candidate, rl_Opened = opened\<rparr>)))))"

definition reload_swap :: "reloading \<Rightarrow> Service \<Rightarrow> Service" where
  "reload_swap l s = s\<lparr>sv_Cfg := rl_Candidate l, sv_Targets := rl_Opened l, sv_ReloadError := '''',
     sv_ReconcileNext := (if sc_Reconcile (rl_Current l) \<noteq> sc_Reconcile (rl_Candidate l) then Map.empty else sv_ReconcileNext s)\<rparr>"

text \<open>One iteration of the last loop, over an old target.\<close>

definition reload_retire :: "reloading \<Rightarrow> string \<times> nat \<Rightarrow> Service \<Rightarrow> Service" where
  "reload_retire l old s =
     (case old of (i, t) \<Rightarrow>
        if map_of (rl_Opened l) i \<noteq> Some t \<and> i \<notin> sv_Connected s then s\<lparr>sv_Closed := insert t (sv_Closed s)\<rparr> else s)"

text \<open>A whole reload that nothing interrupts.\<close>

definition reload :: "renv \<Rightarrow> Service step" where
  "reload r s =
     (case reload_open r (sv_Cfg s) (sv_Targets s) s of
        (s1, Inl e) \<Rightarrow> (s1, Some e)
      | (s1, Inr l) \<Rightarrow> (fold (reload_retire l) (rl_Old l) (reload_swap l s1), None))"

section \<open>Administration\<close>

record SyncerStatus =
  ys_Id :: string
  ys_Connected :: bool
  ys_Generation :: string
  ys_ReceivedSeq :: nat
  ys_AppliedSeq :: nat
  ys_Error :: string

record progress =
  pr_Generation :: string
  pr_Received :: nat
  pr_Applied :: nat
  pr_SchemaVersion :: string

definition syncer_status :: "(nat \<Rightarrow> progress res) \<Rightarrow> Service \<Rightarrow> string \<Rightarrow> SyncerStatus" where
  "syncer_status prog s i =
     (case prog (the (map_of (sv_Targets s) i)) of
        Inl _ \<Rightarrow> \<lparr>ys_Id = i, ys_Connected = (i \<in> sv_Connected s), ys_Generation = '''', ys_ReceivedSeq = 0, ys_AppliedSeq = 0,
                  ys_Error = ''target database unavailable''\<rparr>
      | Inr p \<Rightarrow> \<lparr>ys_Id = i, ys_Connected = (i \<in> sv_Connected s), ys_Generation = pr_Generation p, ys_ReceivedSeq = pr_Received p,
                  ys_AppliedSeq = pr_Applied p, ys_Error = sv_LastErrors s i\<rparr>)"

definition ListSyncers ::
  "(ServerConfig \<Rightarrow> string) \<Rightarrow> (nat \<Rightarrow> progress res) \<Rightarrow> string list \<Rightarrow> Service \<Rightarrow> (SyncerStatus list \<times> string \<times> string) res" where
  "ListSyncers hash prog values s =
     (if \<not> admin values s then Inl (Status ''Unauthenticated'' ''invalid administrator credentials'')
      else Inr (map (syncer_status prog s) (sort (map fst (sv_Targets s))), hash (sv_Cfg s), sv_ReloadError s))"

definition ReloadConfig :: "(ServerConfig \<Rightarrow> string) \<Rightarrow> renv \<Rightarrow> string list \<Rightarrow> Service \<Rightarrow> Service \<times> string res" where
  "ReloadConfig hash r values s =
     (if \<not> admin values s then (s, Inl (Status ''Unauthenticated'' ''invalid administrator credentials''))
      else (case reload r s of
          (s', Some e) \<Rightarrow> (s', Inl (Status ''FailedPrecondition'' (re_Text r e)))
        | (s', None) \<Rightarrow> (s', Inr (hash (sv_Cfg s')))))"


section \<open>Interleavings\<close>

text \<open>
  Sessions and reloads run at the same time.  A session is the pair of its syncer and of the object it uses, from \<open>acquire\<close> to
  \<open>release\<close>.  A reload has read the configuration and the targets, has opened its targets, or is closing the old ones.
  The code does not serialise reloads; \<open>serial\<close> restricts the steps to runs in which at most one is under way.
\<close>

datatype reload_at = Reading ServerConfig targets | Opened reloading | Retiring reloading targets

record registry =
  rg_Service :: Service
  rg_Sessions :: "(string \<times> nat) list"
  rg_Reloads :: "reload_at list"

inductive rg_step :: "bool \<Rightarrow> registry \<Rightarrow> registry \<Rightarrow> bool" for serial where
  acquire: "acquire i s = (s', Inr (t, token)) \<Longrightarrow> rg_step serial \<lparr>rg_Service = s, rg_Sessions = ss, rg_Reloads = rs\<rparr>
     \<lparr>rg_Service = s', rg_Sessions = (i, t) # ss, rg_Reloads = rs\<rparr>"
| release: "(i, t) \<in> set ss \<Longrightarrow> rg_step serial \<lparr>rg_Service = s, rg_Sessions = ss, rg_Reloads = rs\<rparr>
     \<lparr>rg_Service = release i t s, rg_Sessions = removeAll (i, t) ss, rg_Reloads = rs\<rparr>"
| report: "rg_step serial \<lparr>rg_Service = s, rg_Sessions = ss, rg_Reloads = rs\<rparr>
     \<lparr>rg_Service = setSyncerError i v s, rg_Sessions = ss, rg_Reloads = rs\<rparr>"
| read: "(serial \<longrightarrow> rs = []) \<Longrightarrow> rg_step serial \<lparr>rg_Service = s, rg_Sessions = ss, rg_Reloads = rs\<rparr>
     \<lparr>rg_Service = s, rg_Sessions = ss, rg_Reloads = rs @ [Reading (sv_Cfg s) (sv_Targets s)]\<rparr>"
| refuse: "reload_open r current old s = (s', Inl e) \<Longrightarrow> rg_step serial \<lparr>rg_Service = s, rg_Sessions = ss, rg_Reloads = as @ Reading current old # bs\<rparr>
     \<lparr>rg_Service = s', rg_Sessions = ss, rg_Reloads = as @ bs\<rparr>"
| opens: "reload_open r current old s = (s', Inr l) \<Longrightarrow> rg_step serial \<lparr>rg_Service = s, rg_Sessions = ss, rg_Reloads = as @ Reading current old # bs\<rparr>
     \<lparr>rg_Service = s', rg_Sessions = ss, rg_Reloads = as @ Opened l # bs\<rparr>"
| swap: "rg_step serial \<lparr>rg_Service = s, rg_Sessions = ss, rg_Reloads = as @ Opened l # bs\<rparr>
     \<lparr>rg_Service = reload_swap l s, rg_Sessions = ss, rg_Reloads = as @ Retiring l (rl_Old l) # bs\<rparr>"
| retire: "rg_step serial \<lparr>rg_Service = s, rg_Sessions = ss, rg_Reloads = as @ Retiring l (x # xs) # bs\<rparr>
     \<lparr>rg_Service = reload_retire l x s, rg_Sessions = ss, rg_Reloads = as @ Retiring l xs # bs\<rparr>"
| finish: "rg_step serial \<lparr>rg_Service = s, rg_Sessions = ss, rg_Reloads = as @ Retiring l [] # bs\<rparr>
     \<lparr>rg_Service = s, rg_Sessions = ss, rg_Reloads = as @ bs\<rparr>"

inductive rg_run :: "bool \<Rightarrow> registry \<Rightarrow> registry \<Rightarrow> bool" for serial g where
  start: "rg_run serial g g"
| step: "rg_run serial g g1 \<Longrightarrow> rg_step serial g1 g2 \<Longrightarrow> rg_run serial g g2"

text \<open>The pairs of a syncer and an object that something refers to.\<close>

fun at_pairs :: "reload_at \<Rightarrow> (string \<times> nat) set" where
  "at_pairs (Reading c old) = {}"
| "at_pairs (Opened l) = set (rl_Opened l)"
| "at_pairs (Retiring l xs) = set xs"

definition rg_pairs :: "registry \<Rightarrow> (string \<times> nat) set" where
  "rg_pairs g = set (sv_Targets (rg_Service g)) \<union> set (rg_Sessions g) \<union> \<Union> (at_pairs ` set (rg_Reloads g))"

definition owned :: "(string \<times> nat) set \<Rightarrow> bool" where
  "owned P \<longleftrightarrow> (\<forall>i j t. (i, t) \<in> P \<longrightarrow> (j, t) \<in> P \<longrightarrow> i = j)"

text \<open>What holds of the one reload under way.\<close>

fun at_ok :: "Service \<Rightarrow> (string \<times> nat) set \<Rightarrow> reload_at \<Rightarrow> bool" where
  "at_ok s S (Reading c old) \<longleftrightarrow> old = sv_Targets s"
| "at_ok s S (Opened l) \<longleftrightarrow> rl_Old l = sv_Targets s \<and> distinct (map fst (rl_Opened l)) \<and> snd ` set (rl_Opened l) \<inter> sv_Closed s = {} \<and>
     set (rl_Opened l) \<inter> S \<subseteq> set (sv_Targets s)"
| "at_ok s S (Retiring l xs) \<longleftrightarrow> rl_Opened l = sv_Targets s"

definition rg_inv :: "registry \<Rightarrow> bool" where
  "rg_inv g \<longleftrightarrow>
     distinct (map fst (sv_Targets (rg_Service g))) \<and> distinct (map fst (rg_Sessions g)) \<and>
     fst ` set (rg_Sessions g) \<subseteq> sv_Connected (rg_Service g) \<and>
     owned (rg_pairs g) \<and> snd ` rg_pairs g \<union> sv_Closed (rg_Service g) \<subseteq> {..<sv_Opened (rg_Service g)} \<and>
     (snd ` set (sv_Targets (rg_Service g)) \<union> snd ` set (rg_Sessions g)) \<inter> sv_Closed (rg_Service g) = {} \<and>
     (\<forall>a\<in>set (rg_Reloads g). at_ok (rg_Service g) (set (rg_Sessions g)) a) \<and> length (rg_Reloads g) \<le> 1"

text \<open>The objects of a reload: those it keeps are in their old place, the others are new and all different.\<close>

definition opened_ok :: "targets \<Rightarrow> nat \<Rightarrow> nat \<Rightarrow> targets \<Rightarrow> bool" where
  "opened_ok old n0 n opened \<longleftrightarrow> n0 \<le> n \<and> distinct (map fst opened) \<and>
     (\<forall>(i, t)\<in>set opened. map_of old i = Some t \<or> n0 \<le> t \<and> t < n) \<and>
     (\<forall>i j t. (i, t) \<in> set opened \<longrightarrow> (j, t) \<in> set opened \<longrightarrow> n0 \<le> t \<longrightarrow> i = j)"

lemma set_update: "distinct (map fst xs) \<Longrightarrow> set (AList.update k v xs) = {(i, t). if i = k then t = v else (i, t) \<in> set xs}"
  by (induction xs) (auto simp: image_iff)

lemma distinct_update: "distinct (map fst xs) \<Longrightarrow> distinct (map fst (AList.update k v xs))"
  by (induction xs) (auto simp: AList.dom_update [unfolded dom_map_of_conv_image_fst] update_keys)

lemma opened_ok_keep:
  assumes "opened_ok old n0 n opened" "map_of old i = Some t" "\<forall>(i, t)\<in>set old. t < n0"
  shows "opened_ok old n0 n (AList.update i t opened)"
  using assms map_of_SomeD [OF assms(2)] unfolding opened_ok_def
  by (auto simp: set_update distinct_update split: if_splits)

lemma opened_ok_new:
  assumes "opened_ok old n0 n opened" "\<forall>(i, t)\<in>set old. t < n0"
  shows "opened_ok old n0 (Suc n) (AList.update i n opened)"
proof -
  have "t \<noteq> n" if "(j, t) \<in> set opened" for j t
    using assms that by (fastforce simp: opened_ok_def dest: map_of_SomeD)
  then show ?thesis using assms(1) unfolding opened_ok_def
    by (auto simp: set_update distinct_update split: if_splits)
qed

lemma open_syncers_ok:
  assumes "open_syncers r current old opened n ys = (n', opened', e)" "opened_ok old n0 n opened" "\<forall>(i, t)\<in>set old. t < n0"
  shows "opened_ok old n0 n' opened'"
  using assms(1,2)
proof (induction ys arbitrary: opened n)
  case (Cons y ys)
  show ?case using Cons.prems Cons.IH opened_ok_keep [OF _ _ assms(3)] opened_ok_new [OF _ assms(3)]
    by (auto split: if_splits option.splits)
qed simp

lemma reload_open_cases:
  assumes "reload_open r current old s = (s', x)"
  obtains (same) e v where "x = Inl e" "s' = s\<lparr>sv_ReloadError := v\<rparr>"
  | (closed) e v n opened where "x = Inl e" "s' = s\<lparr>sv_ReloadError := v, sv_Opened := n, sv_Closed := sv_Closed s \<union> fresh_of old opened\<rparr>"
      "\<forall>(i, t)\<in>set old. t < sv_Opened s \<Longrightarrow> opened_ok old (sv_Opened s) n opened"
  | (opened) n l where "x = Inr l" "s' = s\<lparr>sv_Opened := n\<rparr>" "rl_Old l = old" "\<forall>(i, t)\<in>set old. t < sv_Opened s \<Longrightarrow> opened_ok old (sv_Opened s) n (rl_Opened l)"
      "rl_Current l = current" "open_syncers r current old [] (sv_Opened s) (sc_Syncers (rl_Candidate l)) = (n, rl_Opened l, None)"
      "validateTargetOverlap (re_Identity r) (re_Cfg r) (rl_Opened l) = None"
proof -
  have start: "opened_ok old n n []" for n by (simp add: opened_ok_def)
  note ok = open_syncers_ok [OF _ start]
  show thesis
  proof (cases "\<exists>e. x = Inl e \<and> (\<exists>v. s' = s\<lparr>sv_ReloadError := v\<rparr>)")
    case True
    then show thesis using same by blast
  next
    case False
    then obtain c where c: "re_Load r = Inr c" "StaticEqual current c" "re_KeyPair r = None"
      using assms by (auto simp: reload_open_def setReloadError_def Let_def split: sum.splits if_splits option.splits)
    obtain n os e where os: "open_syncers r current old [] (sv_Opened s) (sc_Syncers c) = (n, os, e)" by (metis prod_cases3)
    show thesis
    proof (cases "e = None \<and> validateTargetOverlap (re_Identity r) (re_Cfg r) os = None")
      case True
      then show thesis using assms c os by (intro opened [of _ n]) (auto simp: reload_open_def dest: ok)
    next
      case no: False
      then obtain e' where "x = Inl e'" "s' = s\<lparr>sv_ReloadError := re_Text r e', sv_Opened := n, sv_Closed := sv_Closed s \<union> fresh_of old os\<rparr>"
        using assms c os by (auto simp: reload_open_def setReloadError_def split: option.splits)
      then show thesis using closed ok [OF os] by blast
    qed
  qed
qed


lemma ownedD: "owned P \<Longrightarrow> (i, t) \<in> P \<Longrightarrow> (j, t) \<in> P \<Longrightarrow> i = j"
  by (auto simp: owned_def)

lemma owned_mono: "owned P \<Longrightarrow> Q \<subseteq> P \<Longrightarrow> owned Q"
  by (auto simp: owned_def)

lemma acquire_Inr:
  assumes "acquire i s = (s', Inr (t, token))"
  shows "map_of (sv_Targets s) i = Some t" "i \<notin> sv_Connected s" "s' = s\<lparr>sv_Connected := insert i (sv_Connected s)\<rparr>" "token = token_of (sv_Cfg s) i"
  using assms by (auto simp: acquire_def split: option.splits if_splits)

lemma at_ok_cong:
  assumes "at_ok s S a" "sv_Targets s' = sv_Targets s" "sv_Closed s' = sv_Closed s" "S' \<subseteq> S \<union> set (sv_Targets s)"
  shows "at_ok s' S' a"
  using assms by (cases a) auto

lemma inv_acquire:
  assumes "rg_inv \<lparr>rg_Service = s, rg_Sessions = ss, rg_Reloads = rs\<rparr>" "acquire i s = (s', Inr (t, token))"
  shows "rg_inv \<lparr>rg_Service = s', rg_Sessions = (i, t) # ss, rg_Reloads = rs\<rparr>"
proof -
  note a = acquire_Inr [OF assms(2)]
  have t: "(i, t) \<in> set (sv_Targets s)" by (rule map_of_SomeD [OF a(1)])
  have i: "i \<notin> fst ` set ss" using assms(1) a(2) by (auto simp: rg_inv_def)
  have pairs: "rg_pairs \<lparr>rg_Service = s', rg_Sessions = (i, t) # ss, rg_Reloads = rs\<rparr> = rg_pairs \<lparr>rg_Service = s, rg_Sessions = ss, rg_Reloads = rs\<rparr>"
    using t by (auto simp: rg_pairs_def a(3))
  have "at_ok s' (set ((i, t) # ss)) a" if "at_ok s (set ss) a" for a
    by (rule at_ok_cong [OF that]) (use t in \<open>auto simp: a(3)\<close>)
  moreover have "t \<notin> sv_Closed s" using assms(1) imageI [OF t, of snd] by (auto simp: rg_inv_def)
  ultimately show ?thesis using assms(1) i unfolding rg_inv_def pairs by (simp add: a(3)) blast
qed

lemma inv_release:
  assumes "rg_inv \<lparr>rg_Service = s, rg_Sessions = ss, rg_Reloads = rs\<rparr>" "(i, t) \<in> set ss"
  shows "rg_inv \<lparr>rg_Service = release i t s, rg_Sessions = removeAll (i, t) ss, rg_Reloads = rs\<rparr>"
proof -
  let ?g = "\<lparr>rg_Service = s, rg_Sessions = ss, rg_Reloads = rs\<rparr>" and ?g' = "\<lparr>rg_Service = release i t s, rg_Sessions = removeAll (i, t) ss, rg_Reloads = rs\<rparr>"
  have inv: "distinct (map fst (sv_Targets s))" "distinct (map fst ss)" "fst ` set ss \<subseteq> sv_Connected s" "owned (rg_pairs ?g)"
    "snd ` rg_pairs ?g \<union> sv_Closed s \<subseteq> {..<sv_Opened s}" "(snd ` set (sv_Targets s) \<union> snd ` set ss) \<inter> sv_Closed s = {}"
    "\<forall>a\<in>set rs. at_ok s (set ss) a" "length rs \<le> 1"
    using assms(1) by (simp_all add: rg_inv_def)
  have pairs: "rg_pairs ?g' \<subseteq> rg_pairs ?g" by (auto simp: rg_pairs_def release_def)
  have mine: "(i, t) \<in> rg_pairs ?g" using assms(2) by (simp add: rg_pairs_def)
  have other: "i \<notin> fst ` set (removeAll (i, t) ss)" using eq_key_imp_eq_value [OF inv(2) assms(2)] by auto
  have own: "j = i" if "(j, t) \<in> rg_pairs ?g" for j by (rule ownedD [OF inv(4) that mine])
  have targets: "map_of (sv_Targets s) i \<noteq> Some t \<Longrightarrow> t \<notin> snd ` set (sv_Targets s)"
    using own [unfolded rg_pairs_def] inv(1) by fastforce
  have sessions: "t \<notin> snd ` set (removeAll (i, t) ss)"
  proof
    assume "t \<in> snd ` set (removeAll (i, t) ss)"
    then obtain j where j: "(j, t) \<in> set (removeAll (i, t) ss)" by (metis imageE prod.collapse)
    then have "j = i" by (intro own) (auto simp: rg_pairs_def)
    with j show False by simp
  qed
  have "at_ok (release i t s) (set (removeAll (i, t) ss)) a" if "a \<in> set rs" for a
  proof (cases a)
    case (Opened l)
    have ok: "at_ok s (set ss) (Opened l)" using inv(7) that unfolding Opened by blast
    have "t \<notin> snd ` set (rl_Opened l)" if "map_of (sv_Targets s) i \<noteq> Some t"
    proof
      assume "t \<in> snd ` set (rl_Opened l)"
      then obtain j where j: "(j, t) \<in> set (rl_Opened l)" by (metis imageE prod.collapse)
      then have "j = i" using \<open>a \<in> set rs\<close> Opened by (intro own) (force simp: rg_pairs_def)
      then have "(i, t) \<in> set (sv_Targets s)" using j ok assms(2) by auto
      then show False using that inv(1) by simp
    qed
    then show ?thesis using ok Opened by (auto simp: release_def)
  qed (use inv(7) that in \<open>auto simp: release_def\<close>)
  moreover have "distinct (map fst (removeAll (i, t) ss))" using inv(2) by (simp add: distinct_map distinct_removeAll inj_on_def)
  moreover have "t < sv_Opened s" using inv(5) imageI [OF mine, of snd] by auto
  moreover have "snd ` rg_pairs ?g' \<subseteq> {..<sv_Opened s}" using inv(5) pairs by auto
  moreover have "owned (rg_pairs ?g')" by (rule owned_mono [OF inv(4) pairs])
  moreover have "fst ` set (removeAll (i, t) ss) \<subseteq> sv_Connected s - {i}" using inv(3) other by auto
  ultimately show ?thesis using inv targets sessions unfolding rg_inv_def by (auto simp: release_def)
qed


lemma old_below: "rg_inv \<lparr>rg_Service = s, rg_Sessions = ss, rg_Reloads = rs\<rparr> \<Longrightarrow> \<forall>(i, t)\<in>set (sv_Targets s). t < sv_Opened s"
  by (fastforce simp: rg_inv_def rg_pairs_def)

lemma fresh_of_new:
  assumes "opened_ok old n0 n opened" "t \<in> fresh_of old opened"
  shows "n0 \<le> t \<and> t < n"
  using assms by (auto simp: opened_ok_def fresh_of_def)

lemma inv_refuse:
  assumes "rg_inv \<lparr>rg_Service = s, rg_Sessions = ss, rg_Reloads = [Reading current old]\<rparr>" "reload_open r current old s = (s', Inl e)"
  shows "rg_inv \<lparr>rg_Service = s', rg_Sessions = ss, rg_Reloads = []\<rparr>"
proof -
  have old: "old = sv_Targets s" using assms(1) by (simp add: rg_inv_def)
  note below = old_below [OF assms(1)]
  from assms(2) show ?thesis
  proof (cases rule: reload_open_cases)
    case (same e v)
    then show ?thesis using assms(1) by (simp add: rg_inv_def rg_pairs_def)
  next
    case (closed e v n opened)
    have ok: "opened_ok old (sv_Opened s) n opened" using closed(3) below old by simp
    note new = fresh_of_new [OF ok]
    have n: "sv_Opened s \<le> n" using ok by (simp add: opened_ok_def)
    have "t \<notin> fresh_of old opened" if "t < sv_Opened s" for t using new [of t] that by auto
    moreover have "snd ` (set (sv_Targets s) \<union> set ss) \<subseteq> {..<sv_Opened s}" using assms(1) by (simp add: rg_inv_def rg_pairs_def)
    ultimately have apart: "snd ` (set (sv_Targets s) \<union> set ss) \<inter> fresh_of old opened = {}" by blast
    have "snd ` (set (sv_Targets s) \<union> set ss) \<subseteq> {..<n}" "sv_Closed s \<subseteq> {..<n}" "fresh_of old opened \<subseteq> {..<n}"
      using assms(1) n new by (fastforce simp: rg_inv_def rg_pairs_def)+
    then show ?thesis using assms(1) closed(2) apart by (auto simp: rg_inv_def rg_pairs_def)
  qed simp
qed

lemma inv_opens:
  assumes "rg_inv \<lparr>rg_Service = s, rg_Sessions = ss, rg_Reloads = [Reading current old]\<rparr>" "reload_open r current old s = (s', Inr l)"
  shows "rg_inv \<lparr>rg_Service = s', rg_Sessions = ss, rg_Reloads = [Opened l]\<rparr>"
proof -
  have old: "old = sv_Targets s" using assms(1) by (simp add: rg_inv_def)
  note below = old_below [OF assms(1)]
  obtain n where s': "s' = s\<lparr>sv_Opened := n\<rparr>" "rl_Old l = old" and ok: "opened_ok old (sv_Opened s) n (rl_Opened l)"
    using assms(2) by (cases rule: reload_open_cases) (use below old in auto)
  have n: "sv_Opened s \<le> n" using ok by (simp add: opened_ok_def)
  have new: "(i, t) \<in> set (sv_Targets s) \<or> sv_Opened s \<le> t \<and> t < n" if "(i, t) \<in> set (rl_Opened l)" for i t
  proof -
    have "map_of old i = Some t \<or> sv_Opened s \<le> t \<and> t < n" using ok that by (auto simp: opened_ok_def)
    then show ?thesis using map_of_SomeD [of old i t] old by auto
  qed
  let ?P = "set (sv_Targets s) \<union> set ss"
  have P: "owned ?P" "snd ` ?P \<subseteq> {..<sv_Opened s}" using assms(1) by (simp_all add: rg_inv_def rg_pairs_def)
  have lt: "t < sv_Opened s" if "(i, t) \<in> ?P" for i t using subsetD [OF P(2) imageI [OF that, of snd]] by simp
  have twice: "i = j" if "(i, t) \<in> set (rl_Opened l)" "(j, t) \<in> set (rl_Opened l)" "sv_Opened s \<le> t" for i j t
    using ok that by (auto simp: opened_ok_def)
  have "owned (?P \<union> set (rl_Opened l))"
    unfolding owned_def using ownedD [OF P(1)] new lt twice by (metis Un_iff linorder_not_less)
  moreover have "snd ` (?P \<union> set (rl_Opened l)) \<subseteq> {..<n}" using new lt n by fastforce
  moreover have "snd ` set (rl_Opened l) \<inter> sv_Closed s = {}"
  proof -
    have c: "t < sv_Opened s" if "t \<in> sv_Closed s" for t using assms(1) that by (auto simp: rg_inv_def)
    have t: "t \<notin> sv_Closed s" if "(i, t) \<in> set (sv_Targets s)" for i t using assms(1) imageI [OF that, of snd] by (auto simp: rg_inv_def)
    show ?thesis using new c t by fastforce
  qed
  moreover have "set (rl_Opened l) \<inter> set ss \<subseteq> set (sv_Targets s)" using new lt by fastforce
  moreover have "distinct (map fst (rl_Opened l))" using ok by (simp add: opened_ok_def)
  moreover have "sv_Closed s \<subseteq> {..<n}" using assms(1) n by (auto simp: rg_inv_def)
  ultimately show ?thesis using assms(1) s' old unfolding rg_inv_def by (simp add: rg_pairs_def)
qed

lemma inv_swap:
  assumes "rg_inv \<lparr>rg_Service = s, rg_Sessions = ss, rg_Reloads = [Opened l]\<rparr>"
  shows "rg_inv \<lparr>rg_Service = reload_swap l s, rg_Sessions = ss, rg_Reloads = [Retiring l (rl_Old l)]\<rparr>"
proof -
  have l: "rl_Old l = sv_Targets s" using assms by (simp add: rg_inv_def)
  have "rg_pairs \<lparr>rg_Service = reload_swap l s, rg_Sessions = ss, rg_Reloads = [Retiring l (rl_Old l)]\<rparr> =
      rg_pairs \<lparr>rg_Service = s, rg_Sessions = ss, rg_Reloads = [Opened l]\<rparr>" using l by (auto simp: rg_pairs_def reload_swap_def)
  then show ?thesis using assms unfolding rg_inv_def by (simp add: reload_swap_def) blast
qed

lemma inv_retire:
  assumes "rg_inv \<lparr>rg_Service = s, rg_Sessions = ss, rg_Reloads = [Retiring l (x # xs)]\<rparr>"
  shows "rg_inv \<lparr>rg_Service = reload_retire l x s, rg_Sessions = ss, rg_Reloads = [Retiring l xs]\<rparr>"
proof -
  obtain i t where x: "x = (i, t)" by (cases x)
  let ?P = "set (sv_Targets s) \<union> set ss \<union> insert (i, t) (set xs)"
  have inv: "distinct (map fst (sv_Targets s))" "fst ` set ss \<subseteq> sv_Connected s" "owned ?P" "snd ` ?P \<subseteq> {..<sv_Opened s}" "rl_Opened l = sv_Targets s"
    using assms by (simp_all add: rg_inv_def rg_pairs_def x)
  have own: "j = i" if "(j, t) \<in> ?P" for j by (rule ownedD [OF inv(3) that]) simp
  have "t \<notin> snd ` set (sv_Targets s) \<union> snd ` set ss" if "map_of (sv_Targets s) i \<noteq> Some t" "i \<notin> sv_Connected s"
  proof
    assume "t \<in> snd ` set (sv_Targets s) \<union> snd ` set ss"
    then obtain j where j: "(j, t) \<in> set (sv_Targets s) \<or> (j, t) \<in> set ss" by (metis UnE imageE prod.collapse)
    then have "j = i" using own by blast
    with j that inv(1,2) show False by force
  qed
  moreover have "owned (set (sv_Targets s) \<union> set ss \<union> set xs)" by (rule owned_mono [OF inv(3)]) auto
  moreover have "t < sv_Opened s" "snd ` (set (sv_Targets s) \<union> set ss \<union> set xs) \<subseteq> {..<sv_Opened s}" using inv(4) by auto
  ultimately show ?thesis using assms inv(5) unfolding rg_inv_def by (auto simp: rg_pairs_def reload_retire_def x)
qed

lemma rg_step_inv:
  assumes "rg_step True g g'" "rg_inv g"
  shows "rg_inv g'"
  using assms
proof cases
  case (read rs s ss)
  then show ?thesis using assms(2) by (simp add: rg_inv_def rg_pairs_def)
next
  case (report s ss rs i v)
  have "at_ok (setSyncerError i v s) S a = at_ok s S a" for S a by (cases a) (simp_all add: setSyncerError_def)
  then show ?thesis using assms(2) report by (simp add: rg_inv_def rg_pairs_def) (simp add: setSyncerError_def)
next
  case (refuse r current old s s' e ss as bs)
  then have "as = []" "bs = []" using assms(2) by (auto simp: rg_inv_def)
  then show ?thesis using refuse assms(2) inv_refuse by simp
next
  case (opens r current old s s' l ss as bs)
  then have "as = []" "bs = []" using assms(2) by (auto simp: rg_inv_def)
  then show ?thesis using opens assms(2) inv_opens by simp
next
  case (swap s ss as l bs)
  then have "as = []" "bs = []" using assms(2) by (auto simp: rg_inv_def)
  then show ?thesis using swap assms(2) inv_swap by simp
next
  case (retire s ss as l x xs bs)
  then have "as = []" "bs = []" using assms(2) by (auto simp: rg_inv_def)
  then show ?thesis using retire assms(2) inv_retire by simp
next
  case (finish s ss as l bs)
  then have "as = []" "bs = []" using assms(2) by (auto simp: rg_inv_def)
  then show ?thesis using finish assms(2) by (simp add: rg_inv_def rg_pairs_def)
qed (use assms(2) inv_acquire inv_release in auto)


section \<open>Properties\<close>

lemma open_all_ok:
  assumes "open_all r opened n ys = (n', opened', e)" "opened_ok [] n0 n opened"
  shows "opened_ok [] n0 n' opened'"
  using assms
proof (induction ys arbitrary: opened n)
  case (Cons y ys)
  show ?case using Cons.prems Cons.IH opened_ok_new [of "[]" n0 n opened] by (auto split: option.splits)
qed simp

definition started :: "Service \<Rightarrow> registry" where
  "started s = \<lparr>rg_Service = s, rg_Sessions = [], rg_Reloads = []\<rparr>"

lemma new_Service_inv:
  assumes "new_Service r cfg = (s, None)"
  shows "rg_inv (started s)"
proof -
  obtain n opened where o: "open_all r [] 0 (sc_Syncers cfg) = (n, opened, None)" and s: "sv_Opened s = n" "sv_Targets s = opened" "sv_Closed s = {}"
    using assms by (auto simp: new_Service_def openTargets_def Let_def split: option.splits prod.splits)
  have ok: "opened_ok [] 0 n opened" by (rule open_all_ok [OF o]) (simp add: opened_ok_def)
  have "owned (set opened)" using ok unfolding owned_def opened_ok_def by blast
  moreover have "snd ` set opened \<subseteq> {..<n}" using ok by (auto simp: opened_ok_def)
  ultimately show ?thesis using ok s by (simp add: rg_inv_def rg_pairs_def started_def opened_ok_def)
qed

lemma rg_run_inv: "rg_run True g g' \<Longrightarrow> rg_inv g \<Longrightarrow> rg_inv g'"
  by (induction rule: rg_run.induct) (auto intro: rg_step_inv)

text \<open>C16. However sessions come and go while the configuration is reloaded, as long as one reload ends before the next begins, the target of a
  session is never closed under it and no target in service is closed.\<close>

theorem targets_in_use_stay_open:
  assumes "new_Service r cfg = (s, None)" "rg_run True (started s) g"
  shows "(snd ` set (sv_Targets (rg_Service g)) \<union> snd ` set (rg_Sessions g)) \<inter> sv_Closed (rg_Service g) = {} \<and>
    distinct (map fst (rg_Sessions g)) \<and> fst ` set (rg_Sessions g) \<subseteq> sv_Connected (rg_Service g)"
  using rg_run_inv [OF assms(2) new_Service_inv [OF assms(1)]] by (simp add: rg_inv_def)

section \<open>Examples\<close>

definition warehouse :: "string \<Rightarrow> ServerConfig" where
  "warehouse token = server_Defaults\<lparr>sc_Syncers := [(sample_syncer ''one'' ''t'' no_storage)\<lparr>sy_Token := token\<rparr>]\<rparr>"

text \<open>Everything can be opened, and the objects are in the same database.\<close>

definition calm_renv :: "ServerConfig \<Rightarrow> renv" where
  "calm_renv c = \<lparr>re_Load = Inr c, re_KeyPair = None, re_Open = (\<lambda>_. None), re_Identity = (\<lambda>_. Inr ''db''), re_Cfg = (\<lambda>_. sample_syncer ''one'' ''t'' no_storage),
     re_Text = (\<lambda>_. '''')\<rparr>"

lemma calm_renv_simps [simp]:
  "re_Load (calm_renv c) = Inr c" "re_KeyPair (calm_renv c) = None" "re_Open (calm_renv c) y = None"
  by (simp_all add: calm_renv_def)

definition serving :: "string \<Rightarrow> nat \<Rightarrow> nat \<Rightarrow> nat set \<Rightarrow> Service" where
  "serving token t n closed = \<lparr>sv_Cfg = warehouse token, sv_Targets = [(''one'', t)], sv_Connected = {}, sv_LastErrors = (\<lambda>_. ''''),
     sv_ReconcileNext = Map.empty, sv_ReloadError = '''', sv_Opened = n, sv_Closed = closed\<rparr>"

lemma serving_simps [simp]:
  "sv_Cfg (serving k t n c) = warehouse k" "sv_Targets (serving k t n c) = [(''one'', t)]" "sv_Opened (serving k t n c) = n" "sv_Closed (serving k t n c) = c"
  "sv_Connected (serving k t n c) = {}"
  by (simp_all add: serving_def)

lemma sample_overlap: "validateTargetOverlap (re_Identity (calm_renv c)) (re_Cfg (calm_renv c)) [(''one'', t)] = None"
  by (simp add: validateTargetOverlap_def calm_renv_def sample_syncer_def)

lemma warehouse_simps [simp]:
  "StaticEqual (warehouse a) (warehouse b)" "sc_Reconcile (warehouse a) = sc_Reconcile (warehouse b)"
  "sc_Syncers (warehouse a) = [(sample_syncer ''one'' ''t'' no_storage)\<lparr>sy_Token := a\<rparr>]"
  by (simp_all add: warehouse_def StaticEqual_def)

lemma warehouse_changed: "(sample_syncer ''one'' ''t'' no_storage)\<lparr>sy_Token := a\<rparr> = (sample_syncer ''one'' ''t'' no_storage)\<lparr>sy_Token := b\<rparr> \<longleftrightarrow> a = b"
  by (simp add: sample_syncer_def)

lemma sample_id [simp]: "sy_ID ((sample_syncer i t f)\<lparr>sy_Token := a\<rparr>) = i"
  by (simp add: sample_syncer_def)

lemma new_warehouse: "new_Service (calm_renv c) (warehouse a) = (serving a 0 1 {}, None)"
  using sample_overlap [of c 0] by (simp add: new_Service_def openTargets_def serving_def)

lemma reload_open_warehouse:
  "reload_open (calm_renv (warehouse b)) (warehouse a) [(''one'', t)] (serving k u n c) =
     (if a = b then (serving k u n c, Inr \<lparr>rl_Current = warehouse a, rl_Old = [(''one'', t)], rl_Candidate = warehouse b, rl_Opened = [(''one'', t)]\<rparr>)
      else (serving k u (Suc n) c, Inr \<lparr>rl_Current = warehouse a, rl_Old = [(''one'', t)], rl_Candidate = warehouse b, rl_Opened = [(''one'', n)]\<rparr>))"
  using sample_overlap [of "warehouse b" t] sample_overlap [of "warehouse b" n]
  by (auto simp: reload_open_def warehouse_changed) (simp add: serving_def)

theorem targets_in_use_stay_open_witness:
  "\<exists>g. rg_run True (started (serving ''x'' 0 1 {})) g \<and> rg_Sessions g = [(''one'', 0)] \<and> sv_Targets (rg_Service g) = [(''one'', 1)] \<and> 0 \<notin> sv_Closed (rg_Service g)"
proof -
  let ?l = "\<lparr>rl_Current = warehouse ''x'', rl_Old = [(''one'', 0)], rl_Candidate = warehouse ''y'', rl_Opened = [(''one'', 1)]\<rparr>"
  let ?s = "(serving ''x'' 0 1 {})\<lparr>sv_Connected := {''one''}\<rparr>"
  have 0: "rg_run True (started (serving ''x'' 0 1 {})) (started (serving ''x'' 0 1 {}))" by (rule rg_run.start)
  have a: "acquire ''one'' (serving ''x'' 0 1 {}) = (?s, Inr (0, token_of (warehouse ''x'') ''one''))" by (simp add: acquire_def)
  note 1 = rg_run.step [OF 0 [unfolded started_def] rg_step.acquire [OF a]]
  note 2 = rg_run.step [OF 1 rg_step.read]
  have o: "reload_open (calm_renv (warehouse ''y'')) (sv_Cfg ?s) (sv_Targets ?s) ?s = (?s\<lparr>sv_Opened := 2\<rparr>, Inr ?l)"
    using sample_overlap [of "warehouse ''y''" 1] by (simp add: reload_open_def warehouse_changed)
  note 3 = rg_run.step [OF 2 [simplified append_Nil] rg_step.opens [OF o, of _ _ "[]" "[]", simplified append_Nil]]
  note 4 = rg_run.step [OF 3 rg_step.swap [of _ _ _ "[]", simplified append_Nil]]
  from targets_in_use_stay_open [OF new_warehouse 4 [folded started_def]] show ?thesis
    using 4 unfolding started_def by (intro exI [where x = "\<lparr>rg_Service = reload_swap ?l (?s\<lparr>sv_Opened := 2\<rparr>), rg_Sessions = [(''one'', 0)], rg_Reloads = [Retiring ?l (rl_Old ?l)]\<rparr>"]) (simp add: reload_swap_def)
qed


text \<open>C37. Reloads are not serialised: when a second one starts before the first has ended, and finds the configuration changed back, it puts the target
  that the first has closed back into service, where every session fails on it, and the target that the first opened is never closed.\<close>

theorem overlapping_reloads_serve_closed_target:
  "\<exists>s g. new_Service (calm_renv (warehouse ''x'')) (warehouse ''x'') = (s, None) \<and> rg_run False (started s) g \<and> rg_Reloads g = [] \<and>
     sv_Targets (rg_Service g) = [(''one'', 0)] \<and> 0 \<in> sv_Closed (rg_Service g) \<and> 1 \<notin> sv_Closed (rg_Service g) \<and> 1 < sv_Opened (rg_Service g)"
proof -
  let ?s = "serving ''x'' 0 1 {}" and ?z = "\<lparr>rl_Current = warehouse ''x'', rl_Old = [(''one'', 0)], rl_Candidate = warehouse ''x'', rl_Opened = [(''one'', 0)]\<rparr>"
  let ?l = "\<lparr>rl_Current = warehouse ''x'', rl_Old = [(''one'', 0)], rl_Candidate = warehouse ''y'', rl_Opened = [(''one'', 1)]\<rparr>"
  let ?r = "Reading (warehouse ''x'') [(''one'', 0)]"
  have 0: "rg_run False (started ?s) \<lparr>rg_Service = ?s, rg_Sessions = [], rg_Reloads = []\<rparr>" using rg_run.start [of False "started ?s"] by (simp add: started_def)
  have 1: "rg_run False (started ?s) \<lparr>rg_Service = ?s, rg_Sessions = [], rg_Reloads = [?r]\<rparr>" using rg_run.step [OF 0 rg_step.read] by simp
  have 2: "rg_run False (started ?s) \<lparr>rg_Service = ?s, rg_Sessions = [], rg_Reloads = [?r, ?r]\<rparr>" using rg_run.step [OF 1 rg_step.read] by simp
  have "reload_open (calm_renv (warehouse ''y'')) (warehouse ''x'') [(''one'', 0)] ?s = (serving ''x'' 0 2 {}, Inr ?l)" by (simp add: reload_open_warehouse numeral_2_eq_2)
  from rg_run.step [OF 2 rg_step.opens [OF this, where as = "[]", unfolded append_Nil]]
  have 3: "rg_run False (started ?s) \<lparr>rg_Service = serving ''x'' 0 2 {}, rg_Sessions = [], rg_Reloads = [Opened ?l, ?r]\<rparr>" by simp
  have "reload_swap ?l (serving ''x'' 0 2 {}) = serving ''y'' 1 2 {}" by (simp add: reload_swap_def serving_def)
  with rg_run.step [OF 3 rg_step.swap [where as = "[]", unfolded append_Nil]]
  have 4: "rg_run False (started ?s) \<lparr>rg_Service = serving ''y'' 1 2 {}, rg_Sessions = [], rg_Reloads = [Retiring ?l [(''one'', 0)], ?r]\<rparr>" by simp
  have "reload_retire ?l (''one'', 0) (serving ''y'' 1 2 {}) = serving ''y'' 1 2 {0}" by (simp add: reload_retire_def serving_def)
  with rg_run.step [OF 4 rg_step.retire [where as = "[]", unfolded append_Nil]]
  have 5: "rg_run False (started ?s) \<lparr>rg_Service = serving ''y'' 1 2 {0}, rg_Sessions = [], rg_Reloads = [Retiring ?l [], ?r]\<rparr>" by simp
  from rg_run.step [OF 5 rg_step.finish [where as = "[]", unfolded append_Nil]]
  have 6: "rg_run False (started ?s) \<lparr>rg_Service = serving ''y'' 1 2 {0}, rg_Sessions = [], rg_Reloads = [?r]\<rparr>" by simp
  have "reload_open (calm_renv (warehouse ''x'')) (warehouse ''x'') [(''one'', 0)] (serving ''y'' 1 2 {0}) = (serving ''y'' 1 2 {0}, Inr ?z)" by (simp add: reload_open_warehouse)
  from rg_run.step [OF 6 rg_step.opens [OF this, where as = "[]", unfolded append_Nil]]
  have 7: "rg_run False (started ?s) \<lparr>rg_Service = serving ''y'' 1 2 {0}, rg_Sessions = [], rg_Reloads = [Opened ?z]\<rparr>" by simp
  have "reload_swap ?z (serving ''y'' 1 2 {0}) = serving ''x'' 0 2 {0}" by (simp add: reload_swap_def serving_def)
  with rg_run.step [OF 7 rg_step.swap [where as = "[]", unfolded append_Nil]]
  have 8: "rg_run False (started ?s) \<lparr>rg_Service = serving ''x'' 0 2 {0}, rg_Sessions = [], rg_Reloads = [Retiring ?z [(''one'', 0)]]\<rparr>" by simp
  have "reload_retire ?z (''one'', 0) (serving ''x'' 0 2 {0}) = serving ''x'' 0 2 {0}" by (simp add: reload_retire_def)
  with rg_run.step [OF 8 rg_step.retire [where as = "[]", unfolded append_Nil]]
  have 9: "rg_run False (started ?s) \<lparr>rg_Service = serving ''x'' 0 2 {0}, rg_Sessions = [], rg_Reloads = [Retiring ?z []]\<rparr>" by simp
  from rg_run.step [OF 9 rg_step.finish [where as = "[]", unfolded append_Nil]]
  have "rg_run False (started ?s) \<lparr>rg_Service = serving ''x'' 0 2 {0}, rg_Sessions = [], rg_Reloads = []\<rparr>" by simp
  then show ?thesis using new_warehouse [of "warehouse ''x''" "''x''"] by fastforce
qed

text \<open>The table of one syncer is not the table of another.\<close>

lemma overlap_tables_Inr:
  assumes "overlap_tables i d c seen ts = Inr seen'" "i \<noteq> ''''" "\<forall>k j. seen k = Some j \<longrightarrow> j \<noteq> ''''"
  shows "seen' = seen ++ (\<lambda>k. if k \<in> overlap_key d c ` set ts then Some i else None) \<and> (\<forall>k\<in>overlap_key d c ` set ts. seen k \<in> {None, Some i})"
  using assms
proof (induction ts arbitrary: seen)
  case (Cons t ts)
  let ?k = "overlap_key d c t"
  have k: "seen ?k \<in> {None, Some i}" and rest: "overlap_tables i d c (seen(?k \<mapsto> i)) ts = Inr seen'"
    using Cons.prems(1,3) by (auto split: option.splits if_splits)
  have "\<forall>k j. (seen(?k \<mapsto> i)) k = Some j \<longrightarrow> j \<noteq> ''''" using Cons.prems(2,3) by simp
  note IH = Cons.IH [OF rest Cons.prems(2) this]
  have "seen' = seen ++ (\<lambda>k. if k \<in> overlap_key d c ` set (t # ts) then Some i else None)"
    using IH by (auto simp: map_add_def fun_eq_iff)
  moreover have "seen k \<in> {None, Some i}" if "k \<in> overlap_key d c ` set ts" for k
    using IH that k by (cases "k = ?k") auto
  ultimately show ?case using k by auto
qed (simp add: map_add_def)

definition table_keys :: "(nat \<Rightarrow> string res) \<Rightarrow> (nat \<Rightarrow> Syncer) \<Rightarrow> nat \<Rightarrow> string set" where
  "table_keys identity cfg t = {k. \<exists>d x. identity t = Inr d \<and> x \<in> set (sy_Tables (cfg t)) \<and> k = overlap_key d (cfg t) x}"

lemma overlap_targets_None:
  assumes "overlap_targets identity cfg seen ts = None" "distinct (map fst ts)" "'''' \<notin> fst ` set ts" "\<forall>k j. seen k = Some j \<longrightarrow> j \<noteq> ''''"
  shows "(\<forall>(j, u)\<in>set ts. \<forall>k\<in>table_keys identity cfg u. seen k \<in> {None, Some j}) \<and>
    (\<forall>i t j u. (i, t) \<in> set ts \<longrightarrow> (j, u) \<in> set ts \<longrightarrow> i \<noteq> j \<longrightarrow> table_keys identity cfg t \<inter> table_keys identity cfg u = {})"
  using assms
proof (induction ts arbitrary: seen)
  case (Cons p ts)
  obtain i t where p: "p = (i, t)" by (cases p)
  from Cons.prems(1) p obtain d seen' where d: "identity t = Inr d" "overlap_tables i d (cfg t) seen (sy_Tables (cfg t)) = Inr seen'"
    and rest: "overlap_targets identity cfg seen' ts = None" by (auto split: sum.splits)
  have i: "i \<noteq> ''''" "i \<notin> fst ` set ts" using Cons.prems(2,3) by (auto simp: p)
  have keys: "table_keys identity cfg t = overlap_key d (cfg t) ` set (sy_Tables (cfg t))" using d(1) by (auto simp: table_keys_def)
  note o = overlap_tables_Inr [OF d(2) i(1) Cons.prems(4), folded keys]
  have "\<forall>k j. seen' k = Some j \<longrightarrow> j \<noteq> ''''" using o i(1) Cons.prems(4) by (auto simp: map_add_def split: if_splits)
  then have IH: "\<forall>(j, u)\<in>set ts. \<forall>k\<in>table_keys identity cfg u. seen' k \<in> {None, Some j}"
      "\<forall>i t j u. (i, t) \<in> set ts \<longrightarrow> (j, u) \<in> set ts \<longrightarrow> i \<noteq> j \<longrightarrow> table_keys identity cfg t \<inter> table_keys identity cfg u = {}"
    using Cons.IH [OF rest] Cons.prems(2,3) by auto
  have tail: "k \<notin> table_keys identity cfg t \<and> seen k \<in> {None, Some j}" if "(j, u) \<in> set ts" "k \<in> table_keys identity cfg u" for j u k
  proof -
    have "j \<noteq> i" using that(1) i(2) by force
    then show ?thesis using IH(1) that o by (fastforce simp: map_add_def split: if_splits)
  qed
  have "\<forall>(j, u)\<in>set (p # ts). \<forall>k\<in>table_keys identity cfg u. seen k \<in> {None, Some j}" using tail o by (auto simp: p)
  moreover have "table_keys identity cfg a \<inter> table_keys identity cfg b = {}" if "(x, a) \<in> set (p # ts)" "(y, b) \<in> set (p # ts)" "x \<noteq> y" for x a y b
    using that IH(2) tail unfolding p by (simp, blast)
  ultimately show ?case by blast
qed simp

text \<open>When the targets pass the check, no table of one database belongs to two syncers.\<close>

theorem overlapping_targets_refused:
  assumes "validateTargetOverlap identity cfg ts = None" "distinct (map fst ts)" "'''' \<notin> fst ` set ts"
    and "(i, t) \<in> set ts" "(j, u) \<in> set ts" "i \<noteq> j" "identity t = Inr d" "identity u = Inr d"
    and "pg_TargetSchema (sy_Postgres (cfg t)) = pg_TargetSchema (sy_Postgres (cfg u))"
  shows "tt_Name ` set (sy_Tables (cfg t)) \<inter> tt_Name ` set (sy_Tables (cfg u)) = {}"
proof -
  have apart: "table_keys identity cfg t \<inter> table_keys identity cfg u = {}"
    using overlap_targets_None [OF assms(1) [unfolded validateTargetOverlap_def] assms(2,3)] assms(4-6) by simp
  have False if x: "x \<in> set (sy_Tables (cfg t))" and y: "y \<in> set (sy_Tables (cfg u))" and "tt_Name x = tt_Name y" for x y
  proof -
    have "overlap_key d (cfg t) x = overlap_key d (cfg u) y" using that(3) assms(9) by (simp add: overlap_key_def)
    then have "overlap_key d (cfg t) x \<in> table_keys identity cfg t \<inter> table_keys identity cfg u"
      using x y assms(7,8) unfolding table_keys_def by auto
    then show False using apart by simp
  qed
  then show ?thesis by blast
qed

lemma open_syncers_keeps:
  assumes "open_syncers r current old opened n ys = (n', opened', None)" "distinct (map sy_ID ys)" "\<forall>y\<in>set ys. map_of opened (sy_ID y) = None"
  shows "(\<forall>i. i \<notin> sy_ID ` set ys \<longrightarrow> map_of opened' i = map_of opened i) \<and>
    (\<forall>y\<in>set ys. find (\<lambda>x. sy_ID x = sy_ID y) (sc_Syncers current) = Some y \<longrightarrow> map_of opened' (sy_ID y) = map_of old (sy_ID y))"
  using assms
proof (induction ys arbitrary: opened n)
  case (Cons y ys)
  let ?same = "find (\<lambda>x. sy_ID x = sy_ID y) (sc_Syncers current) = Some y"
  obtain o1 n1 where o1: "open_syncers r current old o1 n1 ys = (n', opened', None)" "\<forall>i. i \<noteq> sy_ID y \<longrightarrow> map_of o1 i = map_of opened i"
     "?same \<longrightarrow> map_of o1 (sy_ID y) = map_of old (sy_ID y)"
  proof (cases ?same)
    case True
    show thesis
    proof (rule that)
      show "open_syncers r current old (case map_of old (sy_ID y) of Some t \<Rightarrow> AList.update (sy_ID y) t opened | None \<Rightarrow> opened) n ys = (n', opened', None)"
        using True Cons.prems(1) by simp
    qed (use Cons.prems(3) in \<open>simp_all add: update_conv' split: option.split\<close>)
  next
    case False
    show thesis
    proof (rule that)
      show "open_syncers r current old (AList.update (sy_ID y) n opened) (Suc n) ys = (n', opened', None)"
        using Cons.prems(1) unfolding open_syncers.simps(2) if_not_P [OF False] by (cases "re_Open r y") simp_all
    qed (use False in \<open>simp_all add: update_conv'\<close>)
  qed
  have "map_of o1 (sy_ID z) = None" if "z \<in> set ys" for z
  proof -
    have "sy_ID z \<noteq> sy_ID y" using that Cons.prems(2) by (metis distinct.simps(2) imageI list.set_map list.simps(9))
    then show ?thesis using o1(2) Cons.prems(3) that by simp
  qed
  with Cons.IH [OF o1(1)] Cons.prems(2) have IH: "\<forall>i. i \<notin> sy_ID ` set ys \<longrightarrow> map_of opened' i = map_of o1 i"
     "\<forall>y\<in>set ys. find (\<lambda>x. sy_ID x = sy_ID y) (sc_Syncers current) = Some y \<longrightarrow> map_of opened' (sy_ID y) = map_of old (sy_ID y)" by simp_all
  have "map_of opened' (sy_ID y) = map_of o1 (sy_ID y)" using IH(1) Cons.prems(2) by simp
  with IH o1(2,3) show ?case by simp
qed simp

lemma retire_frame:
  "sv_Cfg (fold (reload_retire l) xs s) = sv_Cfg s" "sv_Targets (fold (reload_retire l) xs s) = sv_Targets s"
  "sv_Connected (fold (reload_retire l) xs s) = sv_Connected s"
proof (induction xs arbitrary: s)
  case (Cons x xs)
  { case 1 show ?case using Cons(1) by (simp add: reload_retire_def split: prod.splits) }
  { case 2 show ?case using Cons(2) by (simp add: reload_retire_def split: prod.splits) }
  { case 3 show ?case using Cons(3) by (simp add: reload_retire_def split: prod.splits) }
qed simp_all

text \<open>C23. A reload that is refused leaves configuration, targets and connections as they were and closes nothing but what it opened itself;
  one that succeeds installs the candidate and lets every syncer whose configuration did not change keep its target.\<close>

theorem reload_all_or_nothing:
  assumes "reload r s = (s', e)" "\<forall>(i, t)\<in>set (sv_Targets s). t < sv_Opened s" "sv_Closed s \<subseteq> {..<sv_Opened s}"
  shows "case e of
      Some err \<Rightarrow> sv_Cfg s' = sv_Cfg s \<and> sv_Targets s' = sv_Targets s \<and> sv_Connected s' = sv_Connected s \<and> sv_Closed s' \<inter> {..<sv_Opened s} = sv_Closed s
    | None \<Rightarrow> re_Load r = Inr (sv_Cfg s') \<and> sv_Connected s' = sv_Connected s \<and>
        (distinct (map sy_ID (sc_Syncers (sv_Cfg s'))) \<longrightarrow> (\<forall>y\<in>set (sc_Syncers (sv_Cfg s')).
           find (\<lambda>x. sy_ID x = sy_ID y) (sc_Syncers (sv_Cfg s)) = Some y \<longrightarrow> map_of (sv_Targets s') (sy_ID y) = map_of (sv_Targets s) (sy_ID y)))"
proof -
  obtain s1 x where x: "reload_open r (sv_Cfg s) (sv_Targets s) s = (s1, x)" by fastforce
  from x show ?thesis
  proof (cases rule: reload_open_cases)
    case (same e v)
    then show ?thesis using assms(1,3) x by (auto simp: reload_def)
  next
    case (closed e v n opened)
    have "t \<notin> fresh_of (sv_Targets s) opened" if "t < sv_Opened s" for t using fresh_of_new [OF closed(3) [OF assms(2)], of t] that by auto
    then show ?thesis using closed assms(1,3) x by (auto simp: reload_def)
  next
    case (opened n l)
    have l: "e = None" "re_Load r = Inr (rl_Candidate l)" "sv_Cfg s' = rl_Candidate l" "sv_Targets s' = rl_Opened l" "sv_Connected s' = sv_Connected s"
      using assms(1) x opened(1,2) by (auto simp: reload_def retire_frame reload_swap_def)
        (auto simp: reload_open_def Let_def split: sum.splits if_splits option.splits prod.splits)
    show ?thesis using l open_syncers_keeps [OF opened(6)] by simp
  qed
qed

theorem reload_all_or_nothing_witness:
  "\<exists>s'. reload (calm_renv (warehouse ''x'')) (serving ''x'' 0 1 {}) = (s', None) \<and> map_of (sv_Targets s') ''one'' = Some 0"
proof -
  obtain s' e where r: "reload (calm_renv (warehouse ''x'')) (serving ''x'' 0 1 {}) = (s', e)" by fastforce
  then have e: "e = None" by (auto simp: reload_def reload_open_warehouse)
  from reload_all_or_nothing [OF r] e have "re_Load (calm_renv (warehouse ''x'')) = Inr (sv_Cfg s')" by simp
  then have "sv_Cfg s' = warehouse ''x''" by simp
  with reload_all_or_nothing [OF r] e have "map_of (sv_Targets s') ''one'' = Some 0" by simp
  with r e show ?thesis by simp
qed

theorem overlapping_targets_refused_witness:
  "tt_Name ` set (sy_Tables (sample_syncer ''one'' ''t'' no_storage)) \<inter> tt_Name ` set (sy_Tables (sample_syncer ''two'' ''u'' no_storage)) = {}"
proof -
  let ?cfg = "\<lambda>n. if n = 0 then sample_syncer ''one'' ''t'' no_storage else sample_syncer ''two'' ''u'' no_storage"
  have "validateTargetOverlap (\<lambda>_. Inr ''db'') ?cfg [(''one'', 0), (''two'', 1)] = None"
    by (simp add: validateTargetOverlap_def sample_syncer_def overlap_key_def)
  from overlapping_targets_refused [OF this, of "''one''" 0 "''two''" 1 "''db''"] show ?thesis by (simp add: sample_syncer_def)
qed

end
