(* ===== verification/Digest.thy ===== *)
theory Digest
  imports Schema Event
begin

text \<open>
  The digest of a table, \<open>internal/reconcile/reconcile.go\<close>, which collector and server compute independently: rows are put into
  buckets by their identity, and a bucket accumulates the number of its rows and the exclusive or and the sum of their hashes.
  A byte of a hash is a word of eight bits.  SHA-256 is the parameter \<open>sha\<close>; \<open>big.Rat\<close> and the JSON decoder are the
  functions of the record \<open>canon\<close>, the canonical text of a value or nothing for one that does not parse.
\<close>

unbundle bit_operations_syntax

section \<open>Values\<close>

record canon =
  cn_Rat :: "string \<Rightarrow> string option"
  cn_Json :: "string \<Rightarrow> string option"

definition contains :: "string \<Rightarrow> string \<Rightarrow> bool" where
  "contains s part = (\<exists>k\<in>set [0..<Suc (length s)]. has_prefix (drop k s) part)"

fun replace_first :: "char \<Rightarrow> char \<Rightarrow> string \<Rightarrow> string" where
  "replace_first a b [] = []"
| "replace_first a b (c # cs) = (if c = a then b # cs else c # replace_first a b cs)"

definition or_else :: "string option \<Rightarrow> string \<Rightarrow> string" where
  "or_else x d = (case x of Some v \<Rightarrow> v | None \<Rightarrow> d)"

definition hex_text :: "string \<Rightarrow> string option" where
  "hex_text value =
     (let digits = (if has_prefix value [CHR 0x5C, CHR ''x''] \<or> has_prefix (ToLower value) ''0x'' then drop 2 value else value) in
      map_option (\<lambda>b. ''hex:'' @ hex_EncodeToString b) (hex_DecodeString digits))"

definition bool_text :: "string \<Rightarrow> string option" where
  "bool_text value =
     (if ToLower value \<in> set [''1'', ''t'', ''true''] then Some ''true''
      else if ToLower value \<in> set [''0'', ''f'', ''false''] then Some ''false'' else None)"

definition is_binary :: "string \<Rightarrow> bool" where
  "is_binary t \<longleftrightarrow> contains t ''binary'' \<or> contains t ''blob'' \<or> t \<in> set [''bytea'', ''image'', ''rowversion'']"

definition normalize :: "canon \<Rightarrow> string \<Rightarrow> string \<Rightarrow> string" where
  "normalize C typeName value =
     (let t = ToLower (TrimSpace typeName);
          rest = (if contains t ''datetime'' \<or> has_prefix t ''timestamp'' then replace_first (CHR ''T'') (CHR '' '') value else value);
          json = (if t = ''json'' \<or> t = ''jsonb'' then or_else (cn_Json C value) rest else rest);
          number = (if has_prefix t ''decimal'' \<or> has_prefix t ''numeric'' then or_else (cn_Rat C value) json else json);
          truth = (if t \<in> set [''boolean'', ''bool'', ''bit''] then or_else (bool_text value) number else number) in
      if is_binary t then or_else (hex_text value) truth else truth)"

section \<open>Hashes\<close>

type_synonym bytes = "8 word list"

definition to_bytes :: "string \<Rightarrow> bytes" where
  "to_bytes s = map of_char s"

definition of_bytes :: "bytes \<Rightarrow> string" where
  "of_bytes b = map (\<lambda>w. char_of (unat w)) b"

definition writePart :: "string option \<Rightarrow> string" where
  "writePart value = (case value of None \<Rightarrow> be_bytes 8 (2 ^ 64 - 1) | Some v \<Rightarrow> be_bytes 8 (length v) @ v)"

definition column_part :: "canon \<Rightarrow> Column \<Rightarrow> string" where
  "column_part C c =
     writePart (Some (c_Name c)) @
     (case c_Value c of
        None \<Rightarrow> writePart None
      | Some v \<Rightarrow> writePart (Some [CHR 0x01]) @ writePart (Some (normalize C (c_Type c) v)))"

definition columns_input :: "canon \<Rightarrow> Column list \<Rightarrow> string" where
  "columns_input C columns = concat (map (column_part C) (sort_key c_Name columns))"

definition columnsHash :: "(string \<Rightarrow> string) \<Rightarrow> canon \<Rightarrow> Column list \<Rightarrow> bytes" where
  "columnsHash sha C columns = to_bytes (sha (columns_input C columns))"

definition row_input :: "canon \<Rightarrow> Row \<Rightarrow> string" where
  "row_input C row = writePart (Some (r_Schema row)) @ writePart (Some (r_Table row)) @ columns_input C (r_Columns row)"

definition rowHash :: "(string \<Rightarrow> string) \<Rightarrow> canon \<Rightarrow> Row \<Rightarrow> bytes" where
  "rowHash sha C row = to_bytes (sha (row_input C row))"

section \<open>Accumulators\<close>

record accumulator =
  ac_Rows :: "64 word"
  ac_Xor :: bytes
  ac_Sum :: bytes

definition zero_accumulator :: accumulator where
  "zero_accumulator = \<lparr>ac_Rows = 0, ac_Xor = replicate 32 0, ac_Sum = replicate 32 0\<rparr>"

text \<open>The loop from the last byte to the first, with the carry that leaves it.\<close>

fun add_bytes :: "bytes \<Rightarrow> bytes \<Rightarrow> bytes \<times> nat" where
  "add_bytes (s # ss) (v # vs) =
     (case add_bytes ss vs of (r, carry) \<Rightarrow> let all = unat s + unat v + carry in (of_nat all # r, all div 256))"
| "add_bytes _ _ = ([], 0)"

definition accumulator_add :: "bytes \<Rightarrow> accumulator \<Rightarrow> accumulator" where
  "accumulator_add v a = \<lparr>ac_Rows = ac_Rows a + 1, ac_Xor = map2 (XOR) (ac_Xor a) v, ac_Sum = fst (add_bytes (ac_Sum a) v)\<rparr>"

definition accumulator_digest :: "(string \<Rightarrow> string) \<Rightarrow> accumulator \<Rightarrow> string" where
  "accumulator_digest sha a = hex_EncodeToString (sha (be_bytes 8 (unat (ac_Rows a)) @ of_bytes (ac_Xor a) @ of_bytes (ac_Sum a)))"

record Digest =
  dg_Bucket :: "32 word"
  dg_Rows :: "64 word"
  dg_Hash :: string

definition be_value :: "bytes \<Rightarrow> nat" where
  "be_value = foldl (\<lambda>a w. a * 256 + unat w) 0"

definition Bucket :: "(string \<Rightarrow> string) \<Rightarrow> canon \<Rightarrow> Row \<Rightarrow> 32 word \<Rightarrow> 32 word res" where
  "Bucket sha C row buckets =
     (if buckets = 0 then Inl (Err ''reconcile bucket count must be positive'')
      else let identity = (if r_Identity row = ''full_row'' then r_Columns row else r_Key row) in
        if identity = [] then Inl (Err ''reconcile row has no identity'')
        else Inr (of_nat (be_value (take 8 (columnsHash sha C identity)) mod unat buckets)))"

type_synonym Builder = "accumulator list"

definition NewBuilder :: "32 word \<Rightarrow> Builder res" where
  "NewBuilder buckets =
     (if buckets = 0 then Inl (Err ''reconcile bucket count must be positive'') else Inr (replicate (unat buckets) zero_accumulator))"

definition Builder_Add :: "(string \<Rightarrow> string) \<Rightarrow> canon \<Rightarrow> Builder \<Rightarrow> Row \<Rightarrow> Builder res" where
  "Builder_Add sha C b row =
     (case Bucket sha C row (of_nat (length b)) of
        Inl e \<Rightarrow> Inl e
      | Inr n \<Rightarrow> Inr (b[unat n := accumulator_add (rowHash sha C row) (b ! unat n)]))"

definition Builder_Digests :: "(string \<Rightarrow> string) \<Rightarrow> Builder \<Rightarrow> Digest list" where
  "Builder_Digests sha b =
     map (\<lambda>i. \<lparr>dg_Bucket = of_nat i, dg_Rows = ac_Rows (b ! i), dg_Hash = accumulator_digest sha (b ! i)\<rparr>) [0..<length b]"

definition Digests :: "(string \<Rightarrow> string) \<Rightarrow> canon \<Rightarrow> Row list \<Rightarrow> 32 word \<Rightarrow> Digest list res" where
  "Digests sha C rows buckets =
     (case NewBuilder buckets of
        Inl e \<Rightarrow> Inl e
      | Inr b \<Rightarrow> (case foldM (Builder_Add sha C) b rows of Inl e \<Rightarrow> Inl e | Inr b' \<Rightarrow> Inr (Builder_Digests sha b')))"


section \<open>Sums of bytes\<close>

lemma foldl_value: "foldl (\<lambda>a w. a * 256 + unat w) k ws = k * 256 ^ length ws + be_value ws" for ws :: bytes
proof (induction ws arbitrary: k)
  case (Cons w ws)
  have "be_value (w # ws) = unat w * 256 ^ length ws + be_value ws" using Cons [of "unat w"] by (simp add: be_value_def)
  then show ?case using Cons [of "k * 256 + unat w"] by (simp add: algebra_simps)
qed (simp add: be_value_def)

lemma be_value_simps [simp]: "be_value [] = 0" "be_value (w # ws) = unat w * 256 ^ length ws + be_value ws"
  using foldl_value [of "unat w" ws] by (simp_all add: be_value_def)

lemma byte_less: "unat w < 256" for w :: "8 word"
  using unsigned_less [of w] by simp

lemma be_value_less: "be_value ws < 256 ^ length ws"
proof (induction ws)
  case (Cons w ws)
  have "unat w * 256 ^ length ws \<le> 255 * 256 ^ length ws" using byte_less [of w] by (intro mult_right_mono) auto
  with Cons show ?case unfolding be_value_simps length_Cons power_Suc by linarith
qed simp

lemma be_value_inject: "length a = length b \<Longrightarrow> be_value a = be_value b \<longleftrightarrow> a = b"
proof (induction a b rule: list_induct2)
  case (Cons x xs y ys)
  have "unat x = unat y \<and> be_value xs = be_value ys" if "be_value (x # xs) = be_value (y # ys)"
  proof -
    let ?k = "256 ^ length xs"
    have "be_value xs < ?k" "be_value ys < ?k" using be_value_less [of xs] be_value_less [of ys] Cons.hyps by simp_all
    with that Cons.hyps have "(unat x * ?k + be_value xs) div ?k = (unat y * ?k + be_value ys) div ?k"
      "(unat x * ?k + be_value xs) mod ?k = (unat y * ?k + be_value ys) mod ?k" by simp_all
    with \<open>be_value xs < ?k\<close> \<open>be_value ys < ?k\<close> show ?thesis by simp
  qed
  then show ?case using Cons.IH by (auto simp: Cons.hyps dest: word_unat_eq_iff [THEN iffD2])
qed simp

lemma mod_div_scale: "a mod 256 * k + a div 256 * (256 * k) = a * k" for a k :: nat
proof -
  have "a mod 256 * k + a div 256 * (256 * k) = (a mod 256 + 256 * (a div 256)) * k" unfolding add_mult_distrib by (simp only: ac_simps)
  then show ?thesis by simp
qed

lemma add_bytes_value:
  assumes "length ss = length vs" "add_bytes ss vs = (r, c)"
  shows "length r = length ss \<and> be_value r + c * 256 ^ length ss = be_value ss + be_value vs"
  using assms
proof (induction ss vs arbitrary: r c rule: list_induct2)
  case (Cons s ss v vs)
  obtain r1 c1 where r1: "add_bytes ss vs = (r1, c1)" by fastforce
  note IH = Cons.IH [OF r1]
  let ?a = "unat s + unat v + c1" and ?k = "256 ^ length ss :: nat"
  have r: "r = of_nat ?a # r1" "c = ?a div 256" using Cons.prems r1 by (simp_all add: Let_def)
  have "unat (of_nat ?a :: 8 word) = ?a mod 256" unfolding unat_of_nat by simp
  moreover have "?a mod 256 * ?k + ?a div 256 * (256 * ?k) = ?a * ?k" by (rule mod_div_scale)
  ultimately have "be_value r + c * 256 ^ length (s # ss) = ?a * ?k + be_value r1" using r IH by (simp add: algebra_simps)
  then show ?case using IH r Cons.hyps by (simp add: algebra_simps)
qed simp

lemma add_bytes_mod:
  assumes "length ss = length vs"
  shows "length (fst (add_bytes ss vs)) = length ss" "be_value (fst (add_bytes ss vs)) = (be_value ss + be_value vs) mod 256 ^ length ss"
proof -
  obtain r c where r: "add_bytes ss vs = (r, c)" by fastforce
  note v = add_bytes_value [OF assms r]
  then show "length (fst (add_bytes ss vs)) = length ss" using r by simp
  have "be_value r < 256 ^ length ss" using be_value_less [of r] v by simp
  then have "(be_value r + c * 256 ^ length ss) mod 256 ^ length ss = be_value r" by simp
  then show "be_value (fst (add_bytes ss vs)) = (be_value ss + be_value vs) mod 256 ^ length ss" using v r by simp
qed

lemma accumulate_spec:
  assumes "\<forall>v\<in>set vs. length v = 32" "length (ac_Sum a) = 32"
  shows "ac_Rows (fold accumulator_add vs a) = ac_Rows a + of_nat (length vs) \<and>
    ac_Xor (fold accumulator_add vs a) = fold (\<lambda>v x. map2 (XOR) x v) vs (ac_Xor a) \<and>
    length (ac_Sum (fold accumulator_add vs a)) = 32 \<and>
    be_value (ac_Sum (fold accumulator_add vs a)) = (be_value (ac_Sum a) + sum_list (map be_value vs)) mod 2 ^ 256"
  using assms
proof (induction vs arbitrary: a)
  case Nil
  then show ?case using be_value_less [of "ac_Sum a"] by simp
next
  case (Cons v vs)
  have l: "length (ac_Sum a) = length v" "length v = 32" using Cons.prems by simp_all
  note s = add_bytes_mod [OF l(1)]
  have "256 ^ length v = (2 ^ 256 :: nat)" by (simp add: l(2))
  with s Cons.IH [of "accumulator_add v a"] Cons.prems show ?case by (simp add: accumulator_add_def mod_add_left_eq add.assoc)
qed

lemma xor_order: "mset vs = mset ws \<Longrightarrow> fold (\<lambda>v x. map2 (XOR) x v) vs = fold (\<lambda>v x. map2 (XOR) x v) ws" for vs ws :: "bytes list"
proof (rule fold_multiset_equiv [rotated])
  show "(\<lambda>x. map2 (XOR) x v) \<circ> (\<lambda>x. map2 (XOR) x w) = (\<lambda>x. map2 (XOR) x w) \<circ> (\<lambda>x. map2 (XOR) x v)" for v w :: bytes
    by (auto simp: fun_eq_iff list_eq_iff_nth_eq ac_simps)
qed

lemma accumulate_order:
  assumes "mset vs = mset ws" "\<forall>v\<in>set vs. length v = 32" "length (ac_Sum a) = 32"
  shows "fold accumulator_add vs a = fold accumulator_add ws a"
proof -
  have w: "\<forall>v\<in>set ws. length v = 32" "length vs = length ws" using assms(1,2) by (metis set_mset_mset, metis size_mset)
  note a = accumulate_spec [OF assms(2,3)] and b = accumulate_spec [OF w(1) assms(3)]
  have "sum_list (map be_value vs) = sum_list (map be_value ws)" using assms(1) by (metis mset_map sum_mset_sum_list)
  then have "ac_Sum (fold accumulator_add vs a) = ac_Sum (fold accumulator_add ws a)" using a b be_value_inject by metis
  moreover have "ac_Xor (fold accumulator_add vs a) = ac_Xor (fold accumulator_add ws a)" using a b xor_order [OF assms(1)] by simp
  ultimately show ?thesis using a b w(2) by simp
qed


section \<open>Buckets\<close>

definition has_identity :: "Row \<Rightarrow> bool" where
  "has_identity row \<longleftrightarrow> (if r_Identity row = ''full_row'' then r_Columns row else r_Key row) \<noteq> []"

definition bucket_of :: "(string \<Rightarrow> string) \<Rightarrow> canon \<Rightarrow> nat \<Rightarrow> Row \<Rightarrow> nat" where
  "bucket_of sha C n row =
     be_value (take 8 (columnsHash sha C (if r_Identity row = ''full_row'' then r_Columns row else r_Key row))) mod n"

lemma Bucket_simps:
  assumes "0 < n" "n < 2 ^ 32"
  shows "Bucket sha C row (of_nat n) = (if has_identity row then Inr (of_nat (bucket_of sha C n row)) else Inl (Err ''reconcile row has no identity''))"
proof -
  have "unat (of_nat n :: 32 word) = n" using assms(2) unfolding unat_of_nat by simp
  moreover from this have "(of_nat n :: 32 word) \<noteq> 0" using assms(1) by auto
  ultimately show ?thesis by (simp add: Bucket_def has_identity_def bucket_of_def Let_def)
qed

lemma Builder_Add_simps:
  assumes "0 < length b" "length b < 2 ^ 32"
  shows "Builder_Add sha C b row =
    (if has_identity row then Inr (b[bucket_of sha C (length b) row := accumulator_add (rowHash sha C row) (b ! bucket_of sha C (length b) row)])
     else Inl (Err ''reconcile row has no identity''))"
proof -
  have "bucket_of sha C (length b) row < 2 ^ 32" unfolding bucket_of_def using assms by (intro order.strict_trans [OF mod_less_divisor assms(2)])
  then have "unat (of_nat (bucket_of sha C (length b) row) :: 32 word) = bucket_of sha C (length b) row" unfolding unat_of_nat by simp
  then show ?thesis unfolding Builder_Add_def Bucket_simps [OF assms] by simp
qed

text \<open>The builder after a list of rows, bucket by bucket.\<close>

definition bucket_hashes :: "(string \<Rightarrow> string) \<Rightarrow> canon \<Rightarrow> nat \<Rightarrow> Row list \<Rightarrow> nat \<Rightarrow> bytes list" where
  "bucket_hashes sha C n rows i = map (rowHash sha C) (filter (\<lambda>row. bucket_of sha C n row = i) rows)"

lemma builder_spec:
  assumes "0 < n" "n < 2 ^ 32" "length b = n"
  shows "foldM (Builder_Add sha C) b rows =
    (if list_all has_identity rows then Inr (map (\<lambda>i. fold accumulator_add (bucket_hashes sha C n rows i) (b ! i)) [0..<n])
     else Inl (Err ''reconcile row has no identity''))"
  using assms(3)
proof (induction rows arbitrary: b)
  case Nil
  then show ?case by (auto simp: bucket_hashes_def list_eq_iff_nth_eq)
next
  case (Cons row rows)
  let ?k = "bucket_of sha C n row"
  let ?b = "b[?k := accumulator_add (rowHash sha C row) (b ! ?k)]"
  have k: "?k < n" using assms(1) by (simp add: bucket_of_def)
  have add: "Builder_Add sha C b row = (if has_identity row then Inr ?b else Inl (Err ''reconcile row has no identity''))"
    using Builder_Add_simps [of b sha C row] assms(1,2) Cons.prems by simp
  have "fold accumulator_add (bucket_hashes sha C n rows i) (?b ! i) = fold accumulator_add (bucket_hashes sha C n (row # rows) i) (b ! i)" if "i < n" for i
    using that k Cons.prems by (cases "i = ?k") (auto simp: bucket_hashes_def)
  then show ?case using Cons.IH [of ?b] Cons.prems by (simp add: add)
qed

lemma NewBuilder_spec:
  assumes "buckets \<noteq> 0"
  shows "NewBuilder buckets = Inr (replicate (unat buckets) zero_accumulator)" "0 < unat buckets" "unat buckets < 2 ^ 32"
  using assms unsigned_less [of buckets] by (auto simp: NewBuilder_def unat_gt_0)

lemma rowHash_length: "\<forall>x. length (sha x) = 32 \<Longrightarrow> length (rowHash sha C row) = 32"
  by (simp add: rowHash_def to_bytes_def)

lemma Digests_spec:
  assumes "buckets \<noteq> 0"
  shows "Digests sha C rows buckets = (if list_all has_identity rows
     then Inr (Builder_Digests sha (map (\<lambda>i. fold accumulator_add (bucket_hashes sha C (unat buckets) rows i) zero_accumulator) [0..<unat buckets]))
     else Inl (Err ''reconcile row has no identity''))"
proof -
  note n = NewBuilder_spec [OF assms]
  have "map (\<lambda>i. fold accumulator_add (bucket_hashes sha C (unat buckets) rows i) (replicate (unat buckets) zero_accumulator ! i)) [0..<unat buckets] =
      map (\<lambda>i. fold accumulator_add (bucket_hashes sha C (unat buckets) rows i) zero_accumulator) [0..<unat buckets]" by simp
  note same = this
  show ?thesis unfolding Digests_def n(1) sum.case builder_spec [OF n(2,3) length_replicate] same by simp
qed

text \<open>The digests of a table do not depend on the order in which its rows are read, so that two databases that hold the same rows
  produce the same digests and the same error.\<close>

theorem digests_order_independent:
  assumes "mset rows = mset rows'" "\<forall>x. length (sha x) = 32"
  shows "Digests sha C rows buckets = Digests sha C rows' buckets"
proof (cases "buckets = 0")
  case True
  then show ?thesis by (simp add: Digests_def NewBuilder_def)
next
  case False
  have all: "list_all has_identity rows = list_all has_identity rows'" using assms(1) by (metis list.pred_set set_mset_mset)
  have "fold accumulator_add (bucket_hashes sha C n rows i) zero_accumulator = fold accumulator_add (bucket_hashes sha C n rows' i) zero_accumulator" for n i
  proof (rule accumulate_order)
    show "mset (bucket_hashes sha C n rows i) = mset (bucket_hashes sha C n rows' i)" using assms(1) by (simp add: bucket_hashes_def)
    show "\<forall>v\<in>set (bucket_hashes sha C n rows i). length v = 32" using rowHash_length [OF assms(2)] by (auto simp: bucket_hashes_def)
  qed (simp add: zero_accumulator_def)
  then show ?thesis by (simp add: Digests_spec [OF False] all)
qed

text \<open>The digest of a bucket is the hash of the number of its rows, the exclusive or of their hashes and the sum of their hashes modulo
  two to the power of 256: the loop over the bytes with its carry is that sum.\<close>

theorem digest_is_sum:
  assumes "\<forall>x. length (sha x) = 32" "Digests sha C rows buckets = Inr ds" "i < unat buckets"
  shows "\<exists>hs x s. hs = map (rowHash sha C) (filter (\<lambda>row. bucket_of sha C (unat buckets) row = i) rows) \<and>
    x = fold (\<lambda>v x. map2 (XOR) x v) hs (replicate 32 0) \<and> length s = 32 \<and> be_value s = sum_list (map be_value hs) mod 2 ^ 256 \<and> length ds = unat buckets \<and>
    ds ! i = \<lparr>dg_Bucket = of_nat i, dg_Rows = of_nat (length hs),
      dg_Hash = hex_EncodeToString (sha (be_bytes 8 (length hs mod 2 ^ 64) @ of_bytes x @ of_bytes s))\<rparr>"
proof -
  have b: "buckets \<noteq> 0" using assms(3) by auto
  let ?hs = "bucket_hashes sha C (unat buckets) rows i" and ?a = "fold accumulator_add (bucket_hashes sha C (unat buckets) rows i) zero_accumulator"
  have "\<forall>v\<in>set ?hs. length v = 32" using rowHash_length [OF assms(1)] by (auto simp: bucket_hashes_def)
  note a = accumulate_spec [OF this, of zero_accumulator]
  have z: "be_value (replicate n 0) = 0" for n by (induction n) simp_all
  have ds: "length ds = unat buckets" "ds ! i = \<lparr>dg_Bucket = of_nat i, dg_Rows = ac_Rows ?a, dg_Hash = accumulator_digest sha ?a\<rparr>"
    using assms(2,3) by (auto simp: Digests_spec [OF b] Builder_Digests_def split: if_splits)
  have "unat (of_nat (length ?hs) :: 64 word) = length ?hs mod 2 ^ 64" unfolding unat_of_nat by simp
  then show ?thesis using a ds z
    by (intro exI [of _ ?hs] exI [of _ "ac_Xor ?a"] exI [of _ "ac_Sum ?a"]) (simp add: zero_accumulator_def accumulator_digest_def bucket_hashes_def)
qed


section \<open>What the hashes cover\<close>

text \<open>A part is preceded by its length, so the parts of an input can be read back.\<close>

definition piece_ok :: "string option \<Rightarrow> bool" where
  "piece_ok p \<longleftrightarrow> (case p of None \<Rightarrow> True | Some v \<Rightarrow> length v < 2 ^ 64 - 1)"

lemma writePart_inject:
  assumes "writePart a @ x = writePart b @ y" "piece_ok a" "piece_ok b"
  shows "a = b \<and> x = y"
proof -
  let ?n = "\<lambda>p. case p of None \<Rightarrow> 2 ^ 64 - 1 | Some v \<Rightarrow> length v" and ?v = "\<lambda>p. case p of None \<Rightarrow> [] | Some v \<Rightarrow> v"
  have split: "writePart p = be_bytes 8 (?n p) @ ?v p" for p by (simp add: writePart_def split: option.splits)
  have 1: "be_bytes 8 (?n a) = be_bytes 8 (?n b)" and 2: "?v a @ x = ?v b @ y"
    using assms(1) unfolding split append_assoc by (simp_all add: append_eq_append_conv)
  have "(256 :: nat) ^ 8 = 2 ^ 64" by simp
  then have "?n p < 256 ^ 8" if "piece_ok p" for p using that by (auto simp: piece_ok_def split: option.splits)
  with 1 assms(2,3) be_bytes_inject have n: "?n a = ?n b" by blast
  then show ?thesis using 2 assms(2,3) by (auto simp: piece_ok_def split: option.splits)
qed

definition column_text :: "canon \<Rightarrow> Column \<Rightarrow> string \<times> string option" where
  "column_text C c = (c_Name c, map_option (normalize C (c_Type c)) (c_Value c))"

definition column_sizes :: "canon \<Rightarrow> Column \<Rightarrow> bool" where
  "column_sizes C c \<longleftrightarrow> piece_ok (Some (c_Name c)) \<and> piece_ok (map_option (normalize C (c_Type c)) (c_Value c))"

definition text_part :: "string \<times> string option \<Rightarrow> string" where
  "text_part p = writePart (Some (fst p)) @ (case snd p of None \<Rightarrow> writePart None | Some v \<Rightarrow> writePart (Some [CHR 0x01]) @ writePart (Some v))"

lemma map_part: "map (column_part C) cs = map text_part (map (column_text C) cs)"
  by (simp add: column_text_def text_part_def column_part_def split: option.splits)

lemma column_part_inject:
  assumes "column_part C c @ x = column_part C d @ y" "column_sizes C c" "column_sizes C d"
  shows "column_text C c = column_text C d \<and> x = y"
proof -
  let ?r = "\<lambda>c. case c_Value c of None \<Rightarrow> writePart None | Some v \<Rightarrow> writePart (Some [CHR 0x01]) @ writePart (Some (normalize C (c_Type c) v))"
  have one: "piece_ok (Some [CHR 0x01])" "piece_ok None" by (simp_all add: piece_ok_def)
  have n: "c_Name c = c_Name d" and r: "?r c @ x = ?r d @ y"
    using writePart_inject [of "Some (c_Name c)" "?r c @ x" "Some (c_Name d)" "?r d @ y"] assms by (simp_all add: column_part_def column_sizes_def)
  show ?thesis
  proof (cases "c_Value c")
    case None
    then show ?thesis using n r writePart_inject [of None x "Some [CHR 0x01]"] writePart_inject [of None x None y] one
      by (cases "c_Value d") (auto simp: column_text_def)
  next
    case (Some v)
    then show ?thesis using n r one assms(2,3) writePart_inject [of "Some [CHR 0x01]" _ None y]
      by (cases "c_Value d") (auto simp: column_text_def column_sizes_def dest!: writePart_inject)
  qed
qed

lemma column_part_nonempty: "column_part C c \<noteq> []"
proof -
  have "length (writePart (Some (c_Name c))) \<ge> 8" by (simp add: writePart_def)
  then have "writePart (Some (c_Name c)) \<noteq> []" by auto
  then show ?thesis by (simp add: column_part_def)
qed

lemma concat_parts_inject:
  assumes "concat (map (column_part C) cs) = concat (map (column_part C) ds)" "\<forall>c\<in>set cs \<union> set ds. column_sizes C c"
  shows "map (column_text C) cs = map (column_text C) ds"
  using assms
proof (induction cs arbitrary: ds)
  case Nil
  then show ?case by (cases ds) (auto simp: column_part_nonempty)
next
  case (Cons c cs)
  show ?case
  proof (cases ds)
    case Nil
    then show ?thesis using Cons.prems(1) by (simp add: column_part_nonempty)
  next
    case ds: (Cons d ds')
    have "column_text C c = column_text C d \<and> concat (map (column_part C) cs) = concat (map (column_part C) ds')"
      using Cons.prems ds by (intro column_part_inject) simp_all
    then show ?thesis using Cons.IH [of ds'] Cons.prems(2) ds by simp
  qed
qed

definition row_sizes :: "canon \<Rightarrow> Row \<Rightarrow> bool" where
  "row_sizes C row \<longleftrightarrow> piece_ok (Some (r_Schema row)) \<and> piece_ok (Some (r_Table row)) \<and> (\<forall>c\<in>set (r_Columns row). column_sizes C c)"

text \<open>The input of a row's hash is the same for two rows exactly when they have the same schema and table and, in the order of the column names,
  the same names, the same NULLs and the same normalized values.\<close>

theorem row_input_exact:
  assumes "row_sizes C row" "row_sizes C row'"
  shows "row_input C row = row_input C row' \<longleftrightarrow> r_Schema row = r_Schema row' \<and> r_Table row = r_Table row' \<and>
    map (column_text C) (sort_key c_Name (r_Columns row)) = map (column_text C) (sort_key c_Name (r_Columns row'))"
proof
  show "row_input C row = row_input C row' \<Longrightarrow> r_Schema row = r_Schema row' \<and> r_Table row = r_Table row' \<and>
    map (column_text C) (sort_key c_Name (r_Columns row)) = map (column_text C) (sort_key c_Name (r_Columns row'))"
  proof -
    assume "row_input C row = row_input C row'"
    then have 1: "r_Schema row = r_Schema row'" and 2: "writePart (Some (r_Table row)) @ columns_input C (r_Columns row) = writePart (Some (r_Table row')) @ columns_input C (r_Columns row')"
      using writePart_inject assms unfolding row_input_def row_sizes_def by blast+
    have 3: "r_Table row = r_Table row'" "columns_input C (r_Columns row) = columns_input C (r_Columns row')"
      using writePart_inject [OF 2] assms unfolding row_sizes_def by blast+
    have "\<forall>c\<in>set (sort_key c_Name (r_Columns row)) \<union> set (sort_key c_Name (r_Columns row')). column_sizes C c"
      using assms unfolding row_sizes_def set_sort by blast
    from concat_parts_inject [OF 3(2) [unfolded columns_input_def] this] 1 3(1) show ?thesis by blast
  qed
next
  assume r: "r_Schema row = r_Schema row' \<and> r_Table row = r_Table row' \<and>
    map (column_text C) (sort_key c_Name (r_Columns row)) = map (column_text C) (sort_key c_Name (r_Columns row'))"
  then have "map (column_part C) (sort_key c_Name (r_Columns row)) = map (column_part C) (sort_key c_Name (r_Columns row'))"
    unfolding map_part by simp
  with r show "row_input C row = row_input C row'" by (simp add: row_input_def columns_input_def)
qed


text \<open>C38. The text of a binary value of SQL Server's type timestamp starts with 0x at the source and with a backslash at the target, and unlike those of a
  rowversion the two are not brought to the same form: a table with such a column never matches.\<close>

theorem timestamp_never_matches:
  "normalize C ''rowversion'' (''0x'' @ hex_EncodeToString b) = normalize C ''rowversion'' (CHR 0x5C # CHR ''x'' # hex_EncodeToString b) \<and>
   normalize C ''timestamp'' (''0x'' @ hex_EncodeToString b) \<noteq> normalize C ''timestamp'' (CHR 0x5C # CHR ''x'' # hex_EncodeToString b)"
proof -
  have t: "ToLower (TrimSpace ''rowversion'') = ''rowversion''" "ToLower (TrimSpace ''timestamp'') = ''timestamp''" by code_simp+
  have c: "is_binary ''rowversion''" "\<not> is_binary ''timestamp''" "has_prefix ''timestamp'' ''timestamp''"
    "\<not> has_prefix ''timestamp'' ''decimal''" "\<not> has_prefix ''timestamp'' ''numeric''" by code_simp+
  have low: "has_prefix (ToLower (CHR ''0'' # CHR ''x'' # s)) ''0x''" for s
    by (cases s rule: ToLower.cases) (simp_all add: has_prefix_def is_upper_def ascii_between_def less_eq_char_def)
  have h: "hex_text (''0x'' @ hex_EncodeToString b) = Some (''hex:'' @ hex_EncodeToString b)"
    "hex_text (CHR 0x5C # CHR ''x'' # hex_EncodeToString b) = Some (''hex:'' @ hex_EncodeToString b)"
    using low by (simp_all add: hex_text_def Let_def) (simp_all add: has_prefix_def)
  have "normalize C ''rowversion'' (''0x'' @ hex_EncodeToString b) = normalize C ''rowversion'' (CHR 0x5C # CHR ''x'' # hex_EncodeToString b)"
    unfolding normalize_def t Let_def using c(1) h by (simp add: or_else_def)
  moreover have "normalize C ''timestamp'' v = replace_first (CHR ''T'') (CHR '' '') v" for v
    unfolding normalize_def t Let_def using c(2-5) by simp
  ultimately show ?thesis by simp
qed

section \<open>Examples\<close>

definition flat_sha :: "string \<Rightarrow> string" where
  "flat_sha x = replicate 31 (CHR ''h'') @ [char_of (length x)]"

definition no_canon :: canon where
  "no_canon = \<lparr>cn_Rat = (\<lambda>_. None), cn_Json = (\<lambda>_. None)\<rparr>"

definition keyed_row :: "string \<Rightarrow> Row" where
  "keyed_row v = zero_Row\<lparr>r_Schema := ''public'', r_Table := ''t'', r_Identity := ''full_row'', r_Columns := [zero_Column\<lparr>c_Name := ''id'', c_Value := Some v\<rparr>]\<rparr>"

lemma flat_sha_length: "\<forall>x. length (flat_sha x) = 32"
  by (simp add: flat_sha_def)

theorem digests_order_independent_witness:
  "Digests flat_sha no_canon [keyed_row ''1'', keyed_row ''22''] 16 = Digests flat_sha no_canon [keyed_row ''22'', keyed_row ''1''] 16"
  by (rule digests_order_independent [OF _ flat_sha_length]) simp

theorem digest_is_sum_witness:
  "\<exists>ds. Digests flat_sha no_canon [keyed_row ''1'', keyed_row ''22''] 1 = Inr ds \<and> length ds = 1 \<and> dg_Rows (ds ! 0) = 2"
proof -
  have h: "has_identity (keyed_row v)" for v by (simp add: has_identity_def keyed_row_def zero_Row_def)
  then obtain ds where ds: "Digests flat_sha no_canon [keyed_row ''1'', keyed_row ''22''] 1 = Inr ds" by (simp add: Digests_spec)
  from digest_is_sum [OF flat_sha_length ds, of 0] have "length ds = 1 \<and> dg_Rows (ds ! 0) = 2" by (auto simp: bucket_of_def)
  with ds show ?thesis by blast
qed

theorem row_input_exact_witness: "row_input no_canon (keyed_row ''1'') \<noteq> row_input no_canon (keyed_row ''2'')"
proof -
  have n: "normalize no_canon '''' v = v" for v
  proof -
    have "ToLower (TrimSpace '''') = ''''" by code_simp
    then show ?thesis unfolding normalize_def Let_def by (simp add: is_binary_def contains_def has_prefix_def)
  qed
  have "row_sizes no_canon (keyed_row [c])" for c
    by (simp add: row_sizes_def keyed_row_def zero_Row_def zero_Column_def column_sizes_def piece_ok_def n)
  from row_input_exact [OF this this, of "CHR ''1''" "CHR ''2''"] show ?thesis
    by (simp add: keyed_row_def zero_Row_def zero_Column_def column_text_def n)
qed

end
