(* ===== verification/Session.thy ===== *)
theory Session
  imports Target Wire Registry Digest
begin

text \<open>
  A replication session of the server: \<open>Connect\<close> of \<open>internal/server/server.go\<close>, the reconciliation it runs on an idle stream
  (\<open>internal/server/reconcile.go\<close>) and the operations of the target that it uses besides storing (\<open>internal/server/target.go\<close>).
  The session is cut at its receives: \<open>Connect_open\<close> is the code up to the loop, \<open>serve_step\<close> what the code does with one frame of the
  collector until it receives again, \<open>serve_break\<close> what it does when a receive or a send fails, and \<open>serve_close\<close> the deferred calls.
  The reconciliation waits for answers, so where the session waits is part of its state.
\<close>

section \<open>The site of a target\<close>

text \<open>A target with the audit table of its database and the advisory locks that are held there.\<close>

record audit =
  au_RequestID :: string
  au_Started :: int
  au_Finished :: int
  au_Result :: string
  au_Mismatched :: nat
  au_Detail :: string

record ('v, 'd, 'f) site =
  st_Target :: "('v, 'd, 'f) target"
  st_Audit :: "audit list"
  st_Locks :: "string set"

text \<open>What the operations below use besides the environment of the target: \<open>xe_query\<close> answers a query with rows of texts, \<open>xe_duration\<close>
  parses a duration that passed the validation, and \<open>xe_daily c now k\<close> is the instant at which the clock of the configured time zone
  shows the configured time \<open>k\<close> days after the day of \<open>now\<close>.\<close>

record ('v, 'd, 'f) serv = "('v, 'd, 'f) tenv" +
  xe_query :: "'d \<Rightarrow> string \<Rightarrow> string option list list res"
  xe_sha :: "string \<Rightarrow> string"
  xe_canon :: canon
  xe_duration :: "string \<Rightarrow> int"
  xe_daily :: "ReconcileConfig \<Rightarrow> int \<Rightarrow> nat \<Rightarrow> int"

definition lease_key :: "('v, 'd, 'f) target \<Rightarrow> string" where
  "lease_key t = pg_MetadataSchema (sy_Postgres (tg_Cfg t)) @ '':'' @ sy_ID (tg_Cfg t)"

text \<open>The failures of acquiring a connection and of the query on it.\<close>

definition acquireLease :: "err option \<times> err option \<Rightarrow> ('v, 'd, 'f) site \<Rightarrow> ('v, 'd, 'f) site res" where
  "acquireLease io x =
     guarded (fst io) (guarded (snd io)
       (if lease_key (st_Target x) \<in> st_Locks x then Inl ErrTargetLeaseHeld
        else Inr (x\<lparr>st_Locks := insert (lease_key (st_Target x)) (st_Locks x)\<rparr>)))"

text \<open>Unlocking, or closing the connection when that fails: the lock is gone in both cases.\<close>

definition lease_Close :: "('v, 'd, 'f) site \<Rightarrow> ('v, 'd, 'f) site" where
  "lease_Close x = x\<lparr>st_Locks := st_Locks x - {lease_key (st_Target x)}\<rparr>"

definition Progress :: "err option \<Rightarrow> ('v, 'd, 'f) target \<Rightarrow> progress res" where
  "Progress io t = guarded io
     (case mt_State (tg_Meta t) of
        None \<Rightarrow> Inl ErrNoRows
      | Some y \<Rightarrow> Inr \<lparr>pr_Generation = y_Generation y, pr_Received = y_Received y, pr_Applied = y_Applied y, pr_SchemaVersion = y_SchemaVersion y\<rparr>)"

definition set_repair :: "bool \<Rightarrow> ('v, 'd, 'f) target \<Rightarrow> ('v, 'd, 'f) target" where
  "set_repair b t = t\<lparr>tg_Meta := (tg_Meta t)\<lparr>mt_State := map_option (\<lambda>y. y\<lparr>y_Repair := b\<rparr>) (mt_State (tg_Meta t))\<rparr>\<rparr>"

definition authorizeRepair :: "err option \<Rightarrow> ('v, 'd, 'f) target step" where
  "authorizeRepair io t = (case io of Some e \<Rightarrow> (t, Some e) | None \<Rightarrow> (set_repair True t, None))"

definition consumeRepairAuthorization :: "sio \<Rightarrow> ('v, 'd, 'f) target \<Rightarrow> ('v, 'd, 'f) target \<times> bool res" where
  "consumeRepairAuthorization io t =
     (case si_fail io 0 of Some e \<Rightarrow> (t, Inl e) | None \<Rightarrow>
      case si_fail io 1 of Some e \<Rightarrow> (t, Inl e) | None \<Rightarrow>
      case mt_State (tg_Meta t) of
        None \<Rightarrow> (t, Inl ErrNoRows)
      | Some y \<Rightarrow>
          case si_fail io 2 of Some e \<Rightarrow> (t, Inl e) | None \<Rightarrow>
          if \<not> y_Repair y then (t, Inr False)
          else (case si_fail io 3 of
              Some e \<Rightarrow> (if si_lost io then set_repair False t else t, Inl e)
            | None \<Rightarrow> (set_repair False t, Inr True)))"

definition recordReconcile :: "err option \<Rightarrow> audit \<Rightarrow> ('v, 'd, 'f) site \<Rightarrow> ('v, 'd, 'f) site" where
  "recordReconcile io a x = (case io of Some _ \<Rightarrow> x | None \<Rightarrow> x\<lparr>st_Audit := st_Audit x @ [a]\<rparr>)"

definition repairAllowed :: "err option \<Rightarrow> int \<Rightarrow> int \<Rightarrow> ('v, 'd, 'f) site \<Rightarrow> bool res" where
  "repairAllowed io now minimum x = guarded io (Inr (\<not> list_ex (\<lambda>a. au_Result a = ''repair'' \<and> au_Finished a > now - minimum) (st_Audit x)))"

section \<open>Digests of the target\<close>

definition digest_select :: "string \<Rightarrow> string" where
  "digest_select name = ''CASE WHEN '' @ quote name @ '' IS NULL THEN NULL ELSE '' @ quote name @ ''::text END''"

definition digest_row :: "ReconcileResult \<Rightarrow> string option list \<Rightarrow> Row" where
  "digest_row source raw =
     (let columns = map (\<lambda>(name, type, v). zero_Column\<lparr>c_Name := name, c_Type := type, c_Value := v\<rparr>)
            (zip (rr_Columns source) (zip (rr_ColumnTypes source) raw));
          row = zero_Row\<lparr>r_Schema := rr_SourceSchema source, r_Table := rr_Table source, r_Columns := columns\<rparr> in
      if rr_PrimaryKeys source = [] then row\<lparr>r_Identity := ''full_row'', r_Key := columns\<rparr>
      else row\<lparr>r_Key := filter (\<lambda>c. c_Name c \<in> set (rr_PrimaryKeys source)) columns\<rparr>)"

definition reconcileDigests :: "('v, 'd, 'f, 'z) serv_scheme \<Rightarrow> ('v, 'd, 'f) target \<Rightarrow> ReconcileResult \<Rightarrow> 32 word \<Rightarrow> Digest list res" where
  "reconcileDigests E t source buckets =
     (if rr_SourceSchema source = '''' \<or> rr_Table source = '''' \<or> rr_Columns source = [] then Inl (Err ''source reconciliation schema is incomplete'')
      else if length (rr_ColumnTypes source) \<noteq> length (rr_Columns source) then Inl (Err ''source reconciliation column types are incomplete'')
      else if \<not> Allows (tg_Cfg t) (rr_SourceSchema source) (rr_Table source) then Inl (Err ''source reconciliation table is not configured'')
      else (case xe_query E (tg_Db t) (''SELECT '' @ join_with '','' (map digest_select (rr_Columns source)) @ '' FROM '' @
                quote (pg_TargetSchema (sy_Postgres (tg_Cfg t))) @ ''.'' @ quote (rr_Table source)) of
          Inl e \<Rightarrow> Inl e
        | Inr rows \<Rightarrow> Digests (xe_sha E) (xe_canon E) (map (digest_row source) rows) buckets))"

definition sameDigests :: "BucketDigest list \<Rightarrow> Digest list \<Rightarrow> bool \<times> nat" where
  "sameDigests source own =
     (if length source \<noteq> length own then (False, max (length source) (length own))
      else let mismatches = length (filter (\<lambda>(a, b). bd_Bucket a \<noteq> dg_Bucket b \<or> bd_Rows a \<noteq> dg_Rows b \<or> bd_Digest a \<noteq> dg_Hash b) (zip source own)) in
        (mismatches = 0, mismatches))"

section \<open>The schedule\<close>

definition reconcileDue :: "('v, 'd, 'f, 'z) serv_scheme \<Rightarrow> string \<Rightarrow> int \<Rightarrow> Service \<Rightarrow> Service \<times> bool" where
  "reconcileDue E i now s =
     (let c = sc_Reconcile (sv_Cfg s); today = xe_daily E c now 0 in
      if \<not> rc_Enabled c then (s, False)
      else if (case sv_ReconcileNext s i of None \<Rightarrow> False | Some n \<Rightarrow> now < n) then (s, False)
      else if sv_ReconcileNext s i = None \<and> now < today then (s\<lparr>sv_ReconcileNext := (sv_ReconcileNext s)(i \<mapsto> today)\<rparr>, False)
      else (s\<lparr>sv_ReconcileNext := (sv_ReconcileNext s)(i \<mapsto> (if \<not> now < today then xe_daily E c now 1 else today))\<rparr>, True))"

definition retryReconcile :: "string \<Rightarrow> int \<Rightarrow> Service \<Rightarrow> Service" where
  "retryReconcile i now s = s\<lparr>sv_ReconcileNext := (sv_ReconcileNext s)(i \<mapsto> now + 5 * 60 * 1000000000)\<rparr>"

section \<open>The session\<close>

record recon =
  rn_Request :: string
  rn_Started :: int
  rn_Cfg :: ReconcileConfig
  rn_Mismatches :: nat

datatype phase = Serving | AwaitResult recon TargetTable "TargetTable list" | AwaitRepair recon | AwaitResume recon

record session =
  ss_Hello :: Hello
  ss_Used :: nat
  ss_Generation :: string
  ss_Next :: nat
  ss_OpenBatch :: bool
  ss_Phase :: phase

text \<open>The loop goes on, or \<open>Connect\<close> returns.\<close>

datatype outcome = Continue | Return "err option"

text \<open>What the code observes: the time, the text of an error, the results of the single statements, a new identifier and the state of
  the stream's context when the timer is waited for.\<close>

record sobs =
  so_Now :: int
  so_Text :: "err \<Rightarrow> string"
  so_Lease :: "err option \<times> err option"
  so_Progress :: "err option"
  so_Sio :: sio
  so_Allowed :: "err option"
  so_Authorize :: "err option"
  so_Record :: "err option"
  so_Uuid :: string
  so_Done :: "err option"

definition pull :: "session \<Rightarrow> ServerFrame" where
  "pull ss = PullFrame \<lparr>pl_Generation = ss_Generation ss, pl_Seq = ss_Next ss\<rparr>"

definition serve_close :: "session \<Rightarrow> Service \<times> ('v, 'd, 'f) site \<Rightarrow> Service \<times> ('v, 'd, 'f) site" where
  "serve_close ss x = (case x of (s, d) \<Rightarrow> (release (hl_SyncerId (ss_Hello ss)) (ss_Used ss) s, lease_Close d))"

definition Connect_open ::
  "sobs \<Rightarrow> string list \<Rightarrow> 'v CollectorFrame \<Rightarrow> Service \<times> ('v, 'd, 'f) site \<Rightarrow> (Service \<times> ('v, 'd, 'f) site) \<times> (session \<times> ServerFrame list) res" where
  "Connect_open ob values frame x =
     (case x of (s, d) \<Rightarrow>
      case frame of
        HelloFrame hello \<Rightarrow>
          (case acquire (hl_SyncerId hello) s of
             (s1, Inl e) \<Rightarrow> ((s1, d), Inl e)
           | (s1, Inr (used, token)) \<Rightarrow>
               let leave = release (hl_SyncerId hello) used s1 in
               if \<not> bearerMatches values token then ((leave, d), Inl (Status ''Unauthenticated'' ''invalid syncer credentials''))
               else (case acquireLease (so_Lease ob) d of
                   Inl e \<Rightarrow> ((leave, d), Inl (if errors_Is e ErrTargetLeaseHeld then Status ''AlreadyExists'' (so_Text ob e)
                                             else Status ''Unavailable'' ''target database lease is unavailable''))
                 | Inr d1 \<Rightarrow>
                     (case Progress (so_Progress ob) (st_Target d1) of
                        Inl _ \<Rightarrow> ((leave, lease_Close d1), Inl (Status ''Unavailable'' ''target database unavailable''))
                      | Inr p \<Rightarrow>
                          let start = (\<lambda>n. \<lparr>ss_Hello = hello, ss_Used = used, ss_Generation = hl_Generation hello, ss_Next = n, ss_OpenBatch = False, ss_Phase = Serving\<rparr>) in
                          if pr_Generation p \<noteq> '''' \<and> pr_Generation p \<noteq> hl_Generation hello then
                            (case consumeRepairAuthorization (so_Sio ob) (st_Target d1) of
                               (t, Inl _) \<Rightarrow> ((leave, lease_Close (d1\<lparr>st_Target := t\<rparr>)), Inl (Status ''Unavailable'' ''repair authorization is unavailable''))
                             | (t, Inr False) \<Rightarrow> ((leave, lease_Close (d1\<lparr>st_Target := t\<rparr>)),
                                 Inl (Status ''FailedPrecondition'' ''collector generation differs from target without an authorized repair''))
                             | (t, Inr True) \<Rightarrow> ((s1, d1\<lparr>st_Target := t\<rparr>), Inr (start 1, [pull (start 1)])))
                          else ((s1, d1), Inr (start (Suc (pr_Received p)), [pull (start (Suc (pr_Received p)))])))))
      | _ \<Rightarrow> ((s, d), Inl (Status ''InvalidArgument'' ''first frame must be hello'')))"

type_synonym ('v, 'd, 'f) served = "(Service \<times> ('v, 'd, 'f) site \<times> session) \<times> ServerFrame list \<times> outcome"

definition returned :: "string \<Rightarrow> string \<Rightarrow> Service \<Rightarrow> ('v, 'd, 'f) site \<Rightarrow> session \<Rightarrow> ('v, 'd, 'f) served" where
  "returned code text s d ss = ((s, d, ss), [], Return (Some (Status code text)))"

section \<open>Reconciling\<close>

definition audit_row :: "sobs \<Rightarrow> recon \<Rightarrow> string \<Rightarrow> nat \<Rightarrow> string \<Rightarrow> audit" where
  "audit_row ob r result mismatches detail =
     \<lparr>au_RequestID = rn_Request r, au_Started = rn_Started r, au_Finished = so_Now ob, au_Result = result, au_Mismatched = mismatches, au_Detail = detail\<rparr>"

definition reconcile_request :: "('v, 'd, 'f, 'z) serv_scheme \<Rightarrow> recon \<Rightarrow> TargetTable \<Rightarrow> ServerFrame" where
  "reconcile_request E r t = ReconcileFrame \<lparr>rq_RequestId = rn_Request r, rq_SourceSchema = tt_SourceSchema t, rq_Table = tt_Name t,
     rq_Buckets = of_int (rc_Buckets (rn_Cfg r)), rq_AllBuckets = True, rq_Bucket = 0, rq_IncludeRows = False,
     rq_TimeoutSeconds = of_int (xe_duration E (rc_Timeout (rn_Cfg r)) div 1000000000)\<rparr>"

text \<open>\<open>runReconcile\<close> returned an error: its deferred function records that, and \<open>Connect\<close> schedules a retry and returns.\<close>

definition reconcile_fail :: "sobs \<Rightarrow> recon \<Rightarrow> err \<Rightarrow> Service \<Rightarrow> ('v, 'd, 'f) site \<Rightarrow> session \<Rightarrow> ('v, 'd, 'f) served" where
  "reconcile_fail ob r e s d ss =
     returned ''Unavailable'' ''reconciliation failed''
       (setSyncerError (hl_SyncerId (ss_Hello ss)) (so_Text ob e) (retryReconcile (hl_SyncerId (ss_Hello ss)) (so_Now ob) s))
       (recordReconcile (so_Record ob) (audit_row ob r ''error'' 0 ''reconciliation did not complete'') d) ss"

definition reconcile_resume :: "recon \<Rightarrow> Service \<Rightarrow> ('v, 'd, 'f) site \<Rightarrow> session \<Rightarrow> ('v, 'd, 'f) served" where
  "reconcile_resume r s d ss = ((s, d, ss\<lparr>ss_Phase := AwaitResume r\<rparr>), [ResumeFrame (rn_Request r)], Continue)"

definition reconcile_decide :: "('v, 'd, 'f, 'z) serv_scheme \<Rightarrow> sobs \<Rightarrow> recon \<Rightarrow> Service \<Rightarrow> ('v, 'd, 'f) site \<Rightarrow> session \<Rightarrow> ('v, 'd, 'f) served" where
  "reconcile_decide E ob r s d ss =
     (if rn_Mismatches r > 0 \<and> rc_AutoRepair (rn_Cfg r) \<and> \<not> rc_DryRun (rn_Cfg r) then
        (case repairAllowed (so_Allowed ob) (so_Now ob) (xe_duration E (rc_RepairMinInterval (rn_Cfg r))) d of
           Inl e \<Rightarrow> reconcile_fail ob r e s d ss
         | Inr False \<Rightarrow> reconcile_resume r s d ss
         | Inr True \<Rightarrow>
             (case authorizeRepair (so_Authorize ob) (st_Target d) of
                (t, Some e) \<Rightarrow> reconcile_fail ob r e s d ss
              | (t, None) \<Rightarrow> ((s, d\<lparr>st_Target := t\<rparr>, ss\<lparr>ss_Phase := AwaitRepair r\<rparr>),
                  [RepairFrame \<lparr>rp_RequestId = rn_Request r, rp_Reason = dec (rn_Mismatches r) @ '' mismatched hash buckets''\<rparr>], Continue)))
      else reconcile_resume r s d ss)"

definition reconcile_tables :: "('v, 'd, 'f, 'z) serv_scheme \<Rightarrow> sobs \<Rightarrow> recon \<Rightarrow> TargetTable list \<Rightarrow> Service \<Rightarrow> ('v, 'd, 'f) site \<Rightarrow> session \<Rightarrow> ('v, 'd, 'f) served" where
  "reconcile_tables E ob r tables s d ss =
     (case tables of
        [] \<Rightarrow> reconcile_decide E ob r s d ss
      | t # ts \<Rightarrow> ((s, d, ss\<lparr>ss_Phase := AwaitResult r t ts\<rparr>), [reconcile_request E r t], Continue))"

definition reconcile_begin :: "('v, 'd, 'f, 'z) serv_scheme \<Rightarrow> sobs \<Rightarrow> Service \<Rightarrow> ('v, 'd, 'f) site \<Rightarrow> session \<Rightarrow> ('v, 'd, 'f) served" where
  "reconcile_begin E ob s d ss =
     reconcile_tables E ob \<lparr>rn_Request = so_Uuid ob, rn_Started = so_Now ob, rn_Cfg = sc_Reconcile (sv_Cfg s), rn_Mismatches = 0\<rparr>
       (sy_Tables (tg_Cfg (st_Target d))) s d ss"

definition reconcile_result ::
  "('v, 'd, 'f, 'z) serv_scheme \<Rightarrow> sobs \<Rightarrow> recon \<Rightarrow> TargetTable \<Rightarrow> TargetTable list \<Rightarrow> 'w CollectorFrame \<Rightarrow> Service \<Rightarrow> ('v, 'd, 'f) site \<Rightarrow> session \<Rightarrow> ('v, 'd, 'f) served" where
  "reconcile_result E ob r t ts frame s d ss =
     (case frame of
        ReconcileResultFrame result \<Rightarrow>
          if rr_RequestId result \<noteq> rn_Request r \<or> rr_SourceSchema result \<noteq> tt_SourceSchema t \<or> rr_Table result \<noteq> tt_Name t
          then reconcile_fail ob r (Status ''InvalidArgument'' ''invalid reconciliation response'') s d ss
          else if rr_Error result \<noteq> '''' then reconcile_fail ob r (Err ''collector reconciliation failed'') s d ss
          else (case reconcileDigests E (st_Target d) result (of_int (rc_Buckets (rn_Cfg r))) of
              Inl e \<Rightarrow> reconcile_fail ob r e s d ss
            | Inr own \<Rightarrow> reconcile_tables E ob (r\<lparr>rn_Mismatches := rn_Mismatches r + snd (sameDigests (rr_Digests result) own)\<rparr>) ts s d ss)
      | _ \<Rightarrow> reconcile_fail ob r (Status ''InvalidArgument'' ''invalid reconciliation response'') s d ss)"

text \<open>The end of the idle branch: the timer, then the next pull.\<close>

definition wait_and_pull :: "sobs \<Rightarrow> Service \<Rightarrow> ('v, 'd, 'f) site \<Rightarrow> session \<Rightarrow> ('v, 'd, 'f) served" where
  "wait_and_pull ob s d ss = (case so_Done ob of Some e \<Rightarrow> ((s, d, ss), [], Return (Some e)) | None \<Rightarrow> ((s, d, ss), [pull ss], Continue))"

definition reconcile_repaired :: "sobs \<Rightarrow> recon \<Rightarrow> 'w CollectorFrame \<Rightarrow> Service \<Rightarrow> ('v, 'd, 'f) site \<Rightarrow> session \<Rightarrow> ('v, 'd, 'f) served" where
  "reconcile_repaired ob r frame s d ss =
     (if frame = RepairAcceptedFrame (rn_Request r) then
        ((s, recordReconcile (so_Record ob) (audit_row ob r ''repair'' (rn_Mismatches r) ''full snapshot requested'') d, ss\<lparr>ss_Phase := Serving\<rparr>), [], Return None)
      else reconcile_fail ob r (Status ''InvalidArgument'' ''invalid repair acknowledgement'') s d ss)"

definition reconcile_resumed :: "sobs \<Rightarrow> recon \<Rightarrow> 'w CollectorFrame \<Rightarrow> Service \<Rightarrow> ('v, 'd, 'f) site \<Rightarrow> session \<Rightarrow> ('v, 'd, 'f) served" where
  "reconcile_resumed ob r frame s d ss =
     (if frame = ResumeAcceptedFrame (rn_Request r) then
        wait_and_pull ob s (recordReconcile (so_Record ob) (audit_row ob r (if rn_Mismatches r > 0 then ''mismatch'' else ''match'') (rn_Mismatches r) '''') d)
          (ss\<lparr>ss_Phase := Serving\<rparr>)
      else reconcile_fail ob r (Status ''InvalidArgument'' ''invalid resume acknowledgement'') s d ss)"

section \<open>Serving\<close>

definition batch_after :: "string \<Rightarrow> bool \<Rightarrow> bool" where
  "batch_after kind b =
     (if kind \<in> set [''snapshot_begin'', ''transaction_rows'', ''file_begin'', ''file_chunk''] then True
      else if kind \<in> set [''snapshot_end'', ''transaction_end'', ''file_end''] then False else b)"

definition serve_event :: "('v, 'd, 'f, 'z) serv_scheme \<Rightarrow> sobs \<Rightarrow> 'v Event \<Rightarrow> Service \<Rightarrow> ('v, 'd, 'f) site \<Rightarrow> session \<Rightarrow> ('v, 'd, 'f) served" where
  "serve_event E ob incoming s d ss =
     (let i = hl_SyncerId (ss_Hello ss); n = ss_Next ss; g = ss_Generation ss in
      case unmarshal E (ev_Json incoming) of
        Inl _ \<Rightarrow> returned ''InvalidArgument'' ''event JSON is invalid'' s d ss
      | Inr m \<Rightarrow>
          if ev_Seq incoming \<noteq> n \<or> m_Seq m \<noteq> ev_Seq incoming \<or> m_ID m \<noteq> ev_MessageId incoming \<or> m_SourceID m \<noteq> i \<or> m_Generation m \<noteq> g
          then returned ''InvalidArgument'' ''event envelope does not match requested sequence'' s d ss
          else if m_ID m \<noteq> message_id i g n then returned ''InvalidArgument'' ''event message_id is not canonical'' s d ss
          else (case target_store E (so_Sio ob) m (ev_Json incoming) (st_Target d) of
              (t, Some e) \<Rightarrow> returned ''FailedPrecondition'' ''target apply failed'' (setSyncerError i (so_Text ob e) s) (d\<lparr>st_Target := t\<rparr>) ss
            | (t, None) \<Rightarrow>
                let s1 = setSyncerError i '''' s; b = batch_after (m_Kind m) (ss_OpenBatch ss); ss1 = ss\<lparr>ss_OpenBatch := b, ss_Next := Suc n\<rparr>;
                    ack = AckFrame \<lparr>ak_Generation = g, ak_Seq = n, ak_MessageId = m_ID m\<rparr> in
                if retiring i (ss_Used ss) s1 \<and> \<not> b then ((s1, d\<lparr>st_Target := t\<rparr>, ss1), [ack], Return None)
                else ((s1, d\<lparr>st_Target := t\<rparr>, ss1), [ack, pull ss1], Continue)))"

definition serve_idle :: "('v, 'd, 'f, 'z) serv_scheme \<Rightarrow> sobs \<Rightarrow> Service \<Rightarrow> ('v, 'd, 'f) site \<Rightarrow> session \<Rightarrow> ('v, 'd, 'f) served" where
  "serve_idle E ob s d ss =
     (let i = hl_SyncerId (ss_Hello ss) in
      if retiring i (ss_Used ss) s \<and> \<not> ss_OpenBatch ss then ((s, d, ss), [], Return None)
      else if hl_ReconcileSupported (ss_Hello ss) \<and> \<not> ss_OpenBatch ss then
        (case reconcileDue E i (so_Now ob) s of
           (s1, True) \<Rightarrow> reconcile_begin E ob s1 d ss
         | (s1, False) \<Rightarrow> wait_and_pull ob s1 d ss)
      else wait_and_pull ob s d ss)"

definition serve_frame :: "('v, 'd, 'f, 'z) serv_scheme \<Rightarrow> sobs \<Rightarrow> 'v CollectorFrame \<Rightarrow> Service \<Rightarrow> ('v, 'd, 'f) site \<Rightarrow> session \<Rightarrow> ('v, 'd, 'f) served" where
  "serve_frame E ob frame s d ss =
     (case frame of
        MetricsFrame m \<Rightarrow>
          if int (length (mx_PrometheusText m)) > sg_MaxMessageBytes (sc_GRPC (sv_Cfg s)) then returned ''ResourceExhausted'' ''metrics snapshot too large'' s d ss
          else ((s, d, ss), [], Continue)
      | IdleFrame _ \<Rightarrow> serve_idle E ob s d ss
      | ReplayUnavailableFrame u \<Rightarrow>
          returned ''FailedPrecondition'' ''collector replay history is insufficient; a new snapshot is required''
            (setSyncerError (hl_SyncerId (ss_Hello ss))
              (''replay sequence '' @ dec (ru_RequestedSeq u) @ '' unavailable; earliest is '' @ dec (ru_EarliestSeq u)) s) d ss
      | EventFrame incoming \<Rightarrow> serve_event E ob incoming s d ss
      | _ \<Rightarrow> returned ''InvalidArgument'' ''unexpected collector frame'' s d ss)"

definition serve_step :: "('v, 'd, 'f, 'z) serv_scheme \<Rightarrow> sobs \<Rightarrow> 'v CollectorFrame \<Rightarrow> Service \<times> ('v, 'd, 'f) site \<times> session \<Rightarrow> ('v, 'd, 'f) served" where
  "serve_step E ob frame x =
     (case x of (s, d, ss) \<Rightarrow>
      case ss_Phase ss of
        Serving \<Rightarrow> serve_frame E ob frame s d ss
      | AwaitResult r t ts \<Rightarrow> reconcile_result E ob r t ts frame s d ss
      | AwaitRepair r \<Rightarrow> reconcile_repaired ob r frame s d ss
      | AwaitResume r \<Rightarrow> reconcile_resumed ob r frame s d ss)"

definition serve_break :: "sobs \<Rightarrow> err \<Rightarrow> Service \<times> ('v, 'd, 'f) site \<times> session \<Rightarrow> ('v, 'd, 'f) served" where
  "serve_break ob e x =
     (case x of (s, d, ss) \<Rightarrow>
      case ss_Phase ss of
        Serving \<Rightarrow> ((s, d, ss), [], Return (Some e))
      | AwaitResult r t ts \<Rightarrow> reconcile_fail ob r e s d ss
      | AwaitRepair r \<Rightarrow> reconcile_fail ob r e s d ss
      | AwaitResume r \<Rightarrow> reconcile_fail ob r e s d ss)"

end
