(* ===== verification/Session_Props.thy ===== *)
theory Session_Props
  imports Session Target_Run
begin

text \<open>
  Facts about the sessions of the server: what a session may change in its target, the life of a repair authorization and the
  schedule of the reconciliation.
\<close>

section \<open>The authorization\<close>

lemma set_repair_simps [simp]:
  "tg_Cfg (set_repair b t) = tg_Cfg t" "tg_Db (set_repair b t) = tg_Db t" "tg_Types (set_repair b t) = tg_Types t" "tg_Files (set_repair b t) = tg_Files t"
  "mt_State (tg_Meta (set_repair b t)) = map_option (\<lambda>y. y\<lparr>y_Repair := b\<rparr>) (mt_State (tg_Meta t))"
  by (simp_all add: set_repair_def)

lemma tables_ok_repair: "tables_ok E (y\<lparr>y_Repair := b\<rparr>) M = tables_ok E y M" "hash_ok (y\<lparr>y_Repair := b\<rparr>) hs = hash_ok y hs"
  by (simp_all add: tables_ok_def progress_ok_def inbox_ok_def rows_ok_def stage_ok_def stage_version_def hash_ok_def)

lemma tables_ok_state: "tables_ok E y (M\<lparr>mt_State := z\<rparr>) = tables_ok E y M"
  by (simp add: tables_ok_def)

lemma set_repair_sound:
  assumes "sound_target E t"
  shows "sound_target E (set_repair b t)"
proof -
  obtain y where "mt_State (tg_Meta t) = Some y" "tables_ok E y (tg_Meta t)" "hash_ok y (mt_Hash (tg_Meta t))"
    using assms by (auto simp: sound_target_def meta_inv_def)
  then have "meta_inv E (tg_Meta (set_repair b t))"
    unfolding meta_inv_def by (intro exI [of _ "y\<lparr>y_Repair := b\<rparr>"]) (simp add: set_repair_def tables_ok_repair tables_ok_state)
  then show ?thesis using assms by (simp add: sound_target_def)
qed

text \<open>The view of a target without its authorization.\<close>

definition settled :: "'d view \<Rightarrow> 'd view" where
  "settled v = v\<lparr>v_State := (v_State v)\<lparr>y_Repair := False\<rparr>\<rparr>"

lemma view_set_repair: "sound_target E t \<Longrightarrow> settled (view_of E (set_repair b t)) = settled (view_of E t)"
  by (auto simp: sound_target_def meta_inv_def settled_def view_of_def view_at_def set_repair_def)

lemma advance_repair: "advance m (y\<lparr>y_Repair := b\<rparr>) = (advance m y)\<lparr>y_Repair := b\<rparr>"
  by (simp add: advance_def Let_def)

lemma barrier_repair: "schema_barrier m (y\<lparr>y_Repair := b\<rparr>) = map_sum id (\<lambda>y. y\<lparr>y_Repair := b\<rparr>) (schema_barrier m y)"
  unfolding schema_barrier_def by (simp add: if_distrib [of "map_sum id _"] cong: if_cong)

lemma guard_repair: "open_guard m (y\<lparr>y_Repair := b\<rparr>) = map_sum id (\<lambda>y. y\<lparr>y_Repair := b\<rparr>) (open_guard m y)"
  unfolding open_guard_def join_open_def by (simp add: if_distrib [of "map_sum id _"] cong: if_cong)

lemma checks_repair: "store_checks cfg hf m (y\<lparr>y_Repair := b\<rparr>) = map_sum id (\<lambda>y. y\<lparr>y_Repair := b\<rparr>) (store_checks cfg hf m y)"
  unfolding store_checks_def barrier_repair by (simp add: guard_repair split: option.split sum.split)

lemma map_case_sum: "map_sum f g (case r of Inl e \<Rightarrow> a e | Inr x \<Rightarrow> c x) = (case r of Inl e \<Rightarrow> map_sum f g (a e) | Inr x \<Rightarrow> map_sum f g (c x))"
  by (simp split: sum.split)

lemma map_case_option: "map_sum f g (case r of None \<Rightarrow> a | Some x \<Rightarrow> c x) = (case r of None \<Rightarrow> map_sum f g a | Some x \<Rightarrow> map_sum f g (c x))"
  by (simp split: option.split)

lemma effect_repair: "message_effect E cfg hf m p (v\<lparr>v_State := y\<rparr>) = map_sum id (\<lambda>v. v\<lparr>v_State := y\<rparr>) (message_effect E cfg hf m p v)"
  unfolding message_effect_def by (cases v) (simp add: if_distrib [of "map_sum id _"] map_case_sum map_case_option snapshot_effect_def transaction_effect_def cong: if_cong sum.case_cong option.case_cong)

lemma spec_new_repair: "spec_new E cfg hf m (settled v) = map_sum id settled (spec_new E cfg hf m v)"
  unfolding spec_new_def settled_def
  by (simp add: checks_repair effect_repair advance_repair split: sum.split)

lemma spec_repair: "spec_of E t m (settled v) = map_sum id settled (spec_of E t m v)"
proof -
  have "settled v\<lparr>v_State := fresh_state m (v_State (settled v)), v_Held := [], v_Rows := [], v_Scope := [], v_Schemas := []\<rparr> =
    settled (v\<lparr>v_State := fresh_state m (v_State v), v_Held := [], v_Rows := [], v_Scope := [], v_Schemas := []\<rparr>)"
    by (simp add: settled_def fresh_state_def)
  moreover have "y_Generation (v_State (settled v)) = y_Generation (v_State v)" by (simp add: settled_def)
  ultimately show ?thesis unfolding spec_of_def spec_store_def by (simp add: spec_new_repair)
qed


section \<open>What a frame changes\<close>

text \<open>Apart from an event, no frame touches anything of the target but the authorization, nor the position of the session.\<close>

definition quiet :: "('v, 'd, 'f) site \<Rightarrow> session \<Rightarrow> ('v, 'd, 'f) served \<Rightarrow> bool" where
  "quiet d ss x = (case x of ((s', d', ss'), frames, out) \<Rightarrow>
     (st_Target d' = st_Target d \<or> st_Target d' = set_repair True (st_Target d)) \<and> st_Locks d' = st_Locks d \<and>
     ss_Generation ss' = ss_Generation ss \<and> ss_Next ss' = ss_Next ss \<and> ss_Hello ss' = ss_Hello ss \<and> (\<forall>a. AckFrame a \<notin> set frames))"

named_theorems quiet

lemma quiet_returned [quiet]: "st_Target d' = st_Target d \<or> st_Target d' = set_repair True (st_Target d) \<Longrightarrow> st_Locks d' = st_Locks d \<Longrightarrow> quiet d ss (returned code text s d' ss)"
  by (simp add: quiet_def returned_def)

lemma recordReconcile_simps [simp]: "st_Target (recordReconcile io a d) = st_Target d" "st_Locks (recordReconcile io a d) = st_Locks d"
  by (simp_all add: recordReconcile_def split: option.splits)

lemma quiet_fail [quiet]: "quiet d ss (reconcile_fail ob r e s d ss)"
  unfolding reconcile_fail_def by (intro quiet) simp_all

lemma quiet_resume [quiet]: "quiet d ss (reconcile_resume r s d ss)"
  by (simp add: quiet_def reconcile_resume_def)

lemma quiet_decide [quiet]: "quiet d ss (reconcile_decide E ob r s d ss)"
proof -
  have "quiet d ss ((s, d\<lparr>st_Target := set_repair True (st_Target d)\<rparr>, ss\<lparr>ss_Phase := AwaitRepair r\<rparr>), [RepairFrame f], Continue)" for f
    by (simp add: quiet_def)
  then show ?thesis unfolding reconcile_decide_def authorizeRepair_def by (auto intro!: quiet split: if_splits sum.split bool.split option.split)
qed

lemma quiet_tables [quiet]: "quiet d ss (reconcile_tables E ob r ts s d ss)"
proof (cases ts)
  case (Cons t ts)
  then show ?thesis by (simp add: reconcile_tables_def quiet_def reconcile_request_def)
qed (simp add: reconcile_tables_def quiet)

lemma quiet_result [quiet]: "quiet d ss (reconcile_result E ob r t ts frame s d ss)"
  unfolding reconcile_result_def by (auto intro!: quiet split: CollectorFrame.split sum.split)

lemma quiet_wait: "st_Target d' = st_Target d \<Longrightarrow> st_Locks d' = st_Locks d \<Longrightarrow> quiet d ss (wait_and_pull ob s d' (ss\<lparr>ss_Phase := p\<rparr>))"
  by (auto simp: quiet_def wait_and_pull_def pull_def split: option.split)

lemma quiet_repaired [quiet]: "quiet d ss (reconcile_repaired ob r frame s d ss)"
  unfolding reconcile_repaired_def by (auto intro!: quiet) (simp add: quiet_def)

lemma quiet_resumed [quiet]: "quiet d ss (reconcile_resumed ob r frame s d ss)"
  unfolding reconcile_resumed_def by (auto intro!: quiet quiet_wait)

lemma quiet_idle [quiet]: "quiet d ss (serve_idle E ob s d ss)"
proof -
  have w: "quiet d ss (wait_and_pull ob s1 d ss)" for s1 using quiet_wait [of d d ss ob s1 "ss_Phase ss"] by simp
  have r: "quiet d ss ((s, d, ss), [], Return None)" by (simp add: quiet_def)
  show ?thesis unfolding serve_idle_def reconcile_begin_def Let_def by (auto intro!: w r quiet split: if_splits prod.split bool.split)
qed

lemma serve_event_cases:
  assumes "serve_event E ob ev s d ss = ((s', d', ss'), frames, out)"
  obtains (stored) m t r where "unmarshal E (ev_Json ev) = Inr m" "m_Seq m = ss_Next ss" "m_Generation m = ss_Generation ss" "m_SourceID m = hl_SyncerId (ss_Hello ss)"
      "target_store E (so_Sio ob) m (ev_Json ev) (st_Target d) = (t, r)" "d' = d\<lparr>st_Target := t\<rparr>"
      "r = None \<Longrightarrow> ss' = ss\<lparr>ss_OpenBatch := batch_after (m_Kind m) (ss_OpenBatch ss), ss_Next := Suc (ss_Next ss)\<rparr>"
      "r = None \<Longrightarrow> set frames \<subseteq> {AckFrame \<lparr>ak_Generation = ss_Generation ss, ak_Seq = ss_Next ss, ak_MessageId = m_ID m\<rparr>, pull ss'}"
      "r \<noteq> None \<Longrightarrow> ss' = ss \<and> frames = [] \<and> out \<noteq> Continue"
  | (refused) "quiet d ss ((s', d', ss'), frames, out)"
proof -
  obtain t r where t: "target_store E (so_Sio ob) (projr (unmarshal E (ev_Json ev))) (ev_Json ev) (st_Target d) = (t, r)" by fastforce
  have refused: "quiet d ss ((s', d', ss'), frames, out)" if "returned c x s d ss = ((s', d', ss'), frames, out)" for c x
    using quiet_returned [of d d ss c x s] that by simp
  show ?thesis
  proof (cases "unmarshal E (ev_Json ev)")
    case (Inl e)
    then show ?thesis using assms by (intro that(2) refused) (simp add: serve_event_def)
  next
    case (Inr m)
    show ?thesis
    proof (cases "ev_Seq ev \<noteq> ss_Next ss \<or> m_Seq m \<noteq> ev_Seq ev \<or> m_ID m \<noteq> ev_MessageId ev \<or> m_SourceID m \<noteq> hl_SyncerId (ss_Hello ss) \<or>
        m_Generation m \<noteq> ss_Generation ss \<or> m_ID m \<noteq> message_id (hl_SyncerId (ss_Hello ss)) (ss_Generation ss) (ss_Next ss)")
      case True
      then obtain c x where "returned c x s d ss = ((s', d', ss'), frames, out)" using assms Inr unfolding serve_event_def Let_def by (auto split: if_splits)
      then show ?thesis by (intro that(2) refused)
    next
      case False
      then show ?thesis using assms t Inr unfolding serve_event_def Let_def
        by (intro that(1)) (auto simp: returned_def split: if_splits option.splits)
    qed
  qed
qed

lemma serve_step_cases:
  assumes "serve_step E ob frame (s, d, ss) = ((s', d', ss'), frames, out)"
  obtains (stored) ev m t r where "frame = EventFrame ev" "unmarshal E (ev_Json ev) = Inr m" "m_Seq m = ss_Next ss" "m_Generation m = ss_Generation ss"
      "target_store E (so_Sio ob) m (ev_Json ev) (st_Target d) = (t, r)" "d' = d\<lparr>st_Target := t\<rparr>"
      "r = None \<Longrightarrow> ss' = ss\<lparr>ss_OpenBatch := batch_after (m_Kind m) (ss_OpenBatch ss), ss_Next := Suc (ss_Next ss)\<rparr>"
      "r = None \<Longrightarrow> set frames \<subseteq> {AckFrame \<lparr>ak_Generation = ss_Generation ss, ak_Seq = ss_Next ss, ak_MessageId = m_ID m\<rparr>, pull ss'}"
      "r \<noteq> None \<Longrightarrow> ss' = ss \<and> frames = [] \<and> out \<noteq> Continue"
  | (other) "quiet d ss ((s', d', ss'), frames, out)"
proof (cases "ss_Phase ss = Serving \<and> (\<exists>ev. frame = EventFrame ev)")
  case True
  then obtain ev where ev: "frame = EventFrame ev" "serve_event E ob ev s d ss = ((s', d', ss'), frames, out)"
    using assms by (auto simp: serve_step_def serve_frame_def)
  from ev(2) show ?thesis by (cases rule: serve_event_cases) (use that ev(1) in blast)+
next
  case False
  have c: "quiet d ss ((s, d, ss), [], Continue)" by (simp add: quiet_def)
  have "quiet d ss (serve_step E ob frame (s, d, ss))"
    using False unfolding serve_step_def serve_frame_def by (auto intro!: quiet c split: phase.split CollectorFrame.split)
  then show ?thesis using that(2) assms by simp
qed

lemma serve_break_quiet:
  assumes "serve_break ob e (s, d, ss) = ((s', d', ss'), frames, out)"
  shows "quiet d ss ((s', d', ss'), frames, out)"
proof -
  have "quiet d ss ((s, d, ss), [], Return (Some e))" by (simp add: quiet_def)
  then have "quiet d ss (serve_break ob e (s, d, ss))" unfolding serve_break_def by (auto intro!: quiet split: phase.split)
  then show ?thesis using assms by simp
qed


section \<open>Opening and closing\<close>

lemma consume_cases:
  assumes "consumeRepairAuthorization io t = (t', r)"
  shows "t' = t \<or> t' = set_repair False t" "r = Inr True \<Longrightarrow> t' = set_repair False t \<and> (\<exists>y. mt_State (tg_Meta t) = Some y \<and> y_Repair y)"
    "mt_State (tg_Meta t) = Some y \<Longrightarrow> \<not> y_Repair y \<Longrightarrow> t' = t \<and> r \<noteq> Inr True"
  using assms unfolding consumeRepairAuthorization_def by (auto split: option.splits if_splits)

lemma Progress_Inr: "Progress io t = Inr p \<Longrightarrow> \<exists>y. mt_State (tg_Meta t) = Some y \<and> pr_Generation p = y_Generation y \<and> pr_Received p = y_Received y"
  by (auto simp: Progress_def guarded_def split: option.splits)

lemma acquireLease_Inr: "acquireLease io d = Inr d1 \<Longrightarrow> lease_key (st_Target d) \<notin> st_Locks d \<and> d1 = d\<lparr>st_Locks := insert (lease_key (st_Target d)) (st_Locks d)\<rparr>"
  by (auto simp: acquireLease_def guarded_def split: option.splits if_splits)

lemma lease_key_repair [simp]: "lease_key (set_repair b t) = lease_key t"
  by (simp add: lease_key_def)

lemma Connect_open_Inr:
  assumes "Connect_open ob values frame (s, d) = ((s', d'), Inr (ss, frames))"
  obtains h y where "frame = HelloFrame h" "mt_State (tg_Meta (st_Target d)) = Some y" "lease_key (st_Target d) \<notin> st_Locks d"
    "st_Locks d' = insert (lease_key (st_Target d)) (st_Locks d)" "ss_Hello ss = h" "ss_Generation ss = hl_Generation h" "frames = [pull ss]"
    "(y_Generation y = '''' \<or> y_Generation y = hl_Generation h) \<and> st_Target d' = st_Target d \<and> ss_Next ss = Suc (y_Received y) \<or>
     y_Generation y \<notin> {'''', hl_Generation h} \<and> y_Repair y \<and> st_Target d' = set_repair False (st_Target d) \<and> ss_Next ss = 1"
proof -
  from assms obtain h where h: "frame = HelloFrame h" by (auto simp: Connect_open_def split: CollectorFrame.splits)
  obtain s1 r where a: "acquire (hl_SyncerId h) s = (s1, r)" by fastforce
  then obtain used token where r: "r = Inr (used, token)" using assms h by (cases r) (auto simp: Connect_open_def)
  have b: "bearerMatches values token" using assms h a r by (auto simp: Connect_open_def Let_def split: if_splits)
  obtain d1 where d1: "acquireLease (so_Lease ob) d = Inr d1"
    using assms h a r b by (auto simp: Connect_open_def Let_def split: sum.splits)
  obtain p where p: "Progress (so_Progress ob) (st_Target d1) = Inr p"
    using assms h a r b d1 by (auto simp: Connect_open_def Let_def split: sum.splits)
  note l = acquireLease_Inr [OF d1]
  obtain y where y: "mt_State (tg_Meta (st_Target d)) = Some y" "pr_Generation p = y_Generation y" "pr_Received p = y_Received y"
    using Progress_Inr [OF p] l by auto
  obtain t e where t: "consumeRepairAuthorization (so_Sio ob) (st_Target d) = (t, e)" by fastforce
  show ?thesis
  proof (cases "y_Generation y = '''' \<or> y_Generation y = hl_Generation h")
    case True
    then show ?thesis using assms h a r b d1 p y l by (intro that [OF h y(1)]) (auto simp: Connect_open_def Let_def)
  next
    case False
    then have e: "e = Inr True" using assms h a r b d1 p y l t by (cases e) (auto simp: Connect_open_def Let_def split: bool.splits)
    note c = consume_cases(2) [OF t e]
    show ?thesis using assms False h a r b d1 p y l t e c by (intro that [OF h y(1)]) (auto simp: Connect_open_def Let_def)
  qed
qed

lemma Connect_open_Inl:
  assumes "Connect_open ob values frame (s, d) = ((s', d'), Inl e)"
  shows "(st_Target d' = st_Target d \<or> st_Target d' = set_repair False (st_Target d)) \<and> st_Locks d' = st_Locks d \<and> st_Audit d' = st_Audit d"
proof (cases frame)
  case (HelloFrame h)
  obtain s1 r where a: "acquire (hl_SyncerId h) s = (s1, r)" by fastforce
  show ?thesis
  proof (cases "(\<exists>used token. r = Inr (used, token) \<and> bearerMatches values token) \<and> (\<exists>d1. acquireLease (so_Lease ob) d = Inr d1)")
    case False
    then show ?thesis using assms HelloFrame a by (cases r; cases "acquireLease (so_Lease ob) d") (auto simp: Connect_open_def Let_def split: if_splits)
  next
    case True
    then obtain used token d1 where r: "r = Inr (used, token)" "bearerMatches values token" and d1: "acquireLease (so_Lease ob) d = Inr d1" by blast
    note l = acquireLease_Inr [OF d1]
    obtain t x where t: "consumeRepairAuthorization (so_Sio ob) (st_Target d) = (t, x)" by fastforce
    show ?thesis using assms HelloFrame a r d1 l t consume_cases(1) [OF t]
      by (auto simp: Connect_open_def Let_def lease_Close_def split: sum.splits if_splits bool.splits)
  qed
qed (use assms in \<open>simp_all add: Connect_open_def\<close>)



section \<open>Examples\<close>

definition waiting_state :: SyncState where
  "waiting_state = \<lparr>y_Generation = ''old'', y_Received = 7, y_Applied = 7, y_Phase = ''stream'', y_Open = '''', y_SchemaVersion = '''', y_Pending = '''', y_Repair = True\<rparr>"

definition waiting_site :: "(string, nat, nat) site" where
  "waiting_site = \<lparr>st_Target = \<lparr>tg_Cfg = sample_syncer ''one'' ''t'' no_storage,
     tg_Meta = \<lparr>mt_State = Some waiting_state, mt_Inbox = [], mt_Scope = [], mt_Rows = [], mt_Hash = [], mt_Stage = []\<rparr>, tg_Db = 0, tg_Types = Map.empty, tg_Files = None\<rparr>,
     st_Audit = [], st_Locks = {}\<rparr>"

definition calm_sobs :: sobs where
  "calm_sobs = \<lparr>so_Now = 0, so_Text = (\<lambda>_. ''''), so_Lease = (None, None), so_Progress = None, so_Sio = calm, so_Allowed = None, so_Authorize = None,
     so_Record = None, so_Uuid = ''u'', so_Done = None\<rparr>"

definition new_hello :: Hello where
  "new_hello = \<lparr>hl_SyncerId = ''one'', hl_Generation = ''new'', hl_EarliestSeq = 1, hl_ReadySeq = 3, hl_ProtocolVersion = ''v2'', hl_ReconcileSupported = True\<rparr>"

lemma waiting_opens: "\<exists>x ss frames. Connect_open calm_sobs [''Bearer x''] (HelloFrame new_hello :: string CollectorFrame) (serving ''x'' 0 1 {}, waiting_site) = (x, Inr (ss, frames))"
proof -
  have a: "acquire ''one'' (serving ''x'' 0 1 {}) = ((serving ''x'' 0 1 {})\<lparr>sv_Connected := {''one''}\<rparr>, Inr (0, ''x''))"
    by (simp add: acquire_def token_of_def serving_def warehouse_def)
  have b: "bearerMatches [''Bearer x''] ''x''" by code_simp
  show ?thesis
    by (simp add: Connect_open_def new_hello_def a [unfolded One_nat_def] b acquireLease_def guarded_def calm_sobs_def Progress_def waiting_site_def waiting_state_def consumeRepairAuthorization_def Let_def)
qed


end
