(* ===== verification/Replication.thy ===== *)
theory Replication
  imports Grpc Controller Session_Props Queue_Refinement Target_Props
begin

text \<open>
  Collector and server together: the queue with the capture that fills it, the delivery session of the collector
  (\<open>internal/delivery/grpc.go\<close>), the two directions of the stream, the session of the server (\<open>internal/server/server.go\<close>) and the
  target.  Every step is one of the operations of these components, or a failure: either side may crash at
  any moment, the stream may break and lose what it carries, the lease of the target may be lost, a commit may succeed and report an error.
\<close>

section \<open>The controller's contract\<close>

text \<open>What the delivery session relies on: reconciling and resuming leave the queue alone, and a repair leaves it alone or resets it.\<close>

locale capture_control =
  fixes E :: "('v, 'b, 'z) qenv_scheme" and senders :: "('b, 'k) GRPCSender set"
  assumes reconcile_queue: "G \<in> senders \<Longrightarrow> sn_Controller G = Some K \<Longrightarrow> ct_Reconcile K request (k, q) = ((k', q'), r) \<Longrightarrow> q' = q"
    and resume_queue: "G \<in> senders \<Longrightarrow> sn_Controller G = Some K \<Longrightarrow> ct_Resume K i (k, q) = ((k', q'), e) \<Longrightarrow> q' = q"
    and repair_queue: "G \<in> senders \<Longrightarrow> sn_Controller G = Some K \<Longrightarrow> ct_Repair K i (k, q) = ((k', q'), e) \<Longrightarrow> q' = q \<or> (\<exists>ob. ResetForSnapshot E ob q = Inr q')"
begin

lemma close_queue: "G \<in> senders \<Longrightarrow> co_Queue (connect_close G c) = co_Queue c"
  using resume_queue by (auto simp: connect_close_def split: option.split prod.split)

lemma metrics_queue: "with_metrics G ob fs c = (c', frames, e) \<Longrightarrow> co_Queue c' = co_Queue c \<and> (\<forall>ev. EventFrame ev \<in> set frames \<longrightarrow> EventFrame ev \<in> set fs)"
  by (auto simp: with_metrics_def sendMetrics_def split: sum.splits if_splits option.splits)

lemma step_pull:
  assumes "on_pull E G ob p c = (c', frames, e)"
  shows "co_Queue c' = co_Queue c" "EventFrame ev \<in> set frames \<Longrightarrow> \<exists>m. Get E (co_Queue c) (pl_Seq p) = Inr (m, ev_Json ev)"
  using assms metrics_queue [of G ob "[IdleFrame (s_ReadySeq (st (co_Queue c)))]" c c' frames e]
  by (auto simp: on_pull_def Bounds_def split: if_splits sum.splits)

lemma step_reconcile: "G \<in> senders \<Longrightarrow> on_reconcile G request c = (c', r) \<Longrightarrow> co_Queue c' = co_Queue c"
  using reconcile_queue by (fastforce simp: on_reconcile_def split: option.splits prod.splits)

lemma step_cases:
  assumes "connect_step E G ob f c = (c', frames, e)" "G \<in> senders"
  obtains (same) "co_Queue c' = co_Queue c" "\<And>ev. EventFrame ev \<in> set frames \<Longrightarrow> \<exists>n m. Get E (co_Queue c) n = Inr (m, ev_Json ev)"
  | (reset) ob' where "ResetForSnapshot E ob' (co_Queue c) = Inr (co_Queue c')" "\<And>ev. EventFrame ev \<notin> set frames"
  | (ack) a where "f = AckFrame a" "ak_Generation a = s_Generation (st (co_Queue c))"
      "Ack E (cb_Obs ob) (co_Queue c) (ak_Seq a) (ak_MessageId a) = Inr (co_Queue c')" "\<And>ev. EventFrame ev \<notin> set frames"
proof (cases f)
  case (ReconcileFrame request)
  then show ?thesis using assms step_reconcile [OF assms(2), of request "c\<lparr>co_Active := rq_RequestId request\<rparr>"]
    by (intro same) (auto simp: connect_step_def split: prod.splits)
next
  case (ResumeFrame i)
  show ?thesis
  proof (cases "sn_Controller G")
    case (Some K)
    obtain k q r where K: "ct_Resume K i (co_Ctl c, co_Queue c) = ((k, q), r)" by (metis prod.exhaust)
    then show ?thesis using assms ResumeFrame Some resume_queue [OF assms(2) Some K] by (intro same) (auto simp: connect_step_def split: option.splits)
  qed (use assms ResumeFrame same in \<open>auto simp: connect_step_def\<close>)
next
  case (RepairFrame p)
  show ?thesis
  proof (cases "sn_Controller G")
    case (Some K)
    obtain k q r where K: "ct_Repair K (rp_RequestId p) (co_Ctl c, co_Queue c) = ((k, q), r)" by (metis prod.exhaust)
    have c': "co_Queue c' = q" "\<And>ev. EventFrame ev \<notin> set frames" using assms RepairFrame Some K by (auto simp: connect_step_def split: option.splits)
    from repair_queue [OF assms(2) Some K] show ?thesis
    proof
      assume "q = co_Queue c"
      then show ?thesis using c' by (intro same) blast+
    next
      assume "\<exists>ob. ResetForSnapshot E ob (co_Queue c) = Inr q"
      then show ?thesis using c' reset by blast
    qed
  qed (use assms RepairFrame same in \<open>auto simp: connect_step_def\<close>)
next
  case (AckFrame a)
  show ?thesis
  proof (cases "on_ack E ob a (co_Queue c)")
    case (Inr q)
    then have m: "with_metrics G ob [] (c\<lparr>co_Queue := q\<rparr>) = (c', frames, e)" using assms AckFrame by (simp add: connect_step_def)
    from metrics_queue [OF m] have c': "co_Queue c' = q" "\<And>ev. EventFrame ev \<notin> set frames" by auto
    show ?thesis
    proof (cases "q = co_Queue c")
      case True
      then show ?thesis using c' by (intro same) blast+
    next
      case False
      then have "ak_Generation a = s_Generation (st (co_Queue c))" "Ack E (cb_Obs ob) (co_Queue c) (ak_Seq a) (ak_MessageId a) = Inr q"
        using Inr by (auto simp: on_ack_def split: if_splits)
      then show ?thesis using c' by (intro ack [OF AckFrame]) simp_all
    qed
  qed (use assms AckFrame same in \<open>auto simp: connect_step_def\<close>)
next
  case (PullFrame p)
  then have "on_pull E G ob p c = (c', frames, e)" using assms by (simp add: connect_step_def)
  from step_pull [OF this] show ?thesis by (intro same) blast+
qed (use assms same in \<open>auto simp: connect_step_def\<close>)

end

section \<open>The controller of the application\<close>

definition app_controller ::
  "('v, 'b, 'z) qenv_scheme \<Rightarrow> (ReconcileRequest \<Rightarrow> ReconcileResult option res) option \<Rightarrow> awaited \<Rightarrow> obs \<Rightarrow> ('b, captureController) ReconcileController" where
  "app_controller E scan w ob =
     \<lparr>ct_Reconcile = (\<lambda>request (k, q). case Reconcile scan w q request k of (k', r) \<Rightarrow> ((k', q), r)),
      ct_Resume = (\<lambda>i (k, q). case Resume i k of (k', e) \<Rightarrow> ((k', q), e)),
      ct_Repair = (\<lambda>i. Repair E ob i)\<rparr>"

definition app_senders :: "('v, 'b, 'z) qenv_scheme \<Rightarrow> ('b, captureController) GRPCSender set" where
  "app_senders E = {G. case sn_Controller G of None \<Rightarrow> True | Some K \<Rightarrow> \<exists>scan w ob. K = app_controller E scan w ob}"

interpretation app: capture_control E "app_senders E" for E
proof unfold_locales
  fix G :: "('b, captureController) GRPCSender" and K request k q k' q' r
  assume "G \<in> app_senders E" "sn_Controller G = Some K" "ct_Reconcile K request (k, q) = ((k', q'), r)"
  then show "q' = q" by (auto simp: app_senders_def app_controller_def split: prod.splits)
next
  fix G :: "('b, captureController) GRPCSender" and K i k q k' q' e
  assume "G \<in> app_senders E" "sn_Controller G = Some K" "ct_Resume K i (k, q) = ((k', q'), e)"
  then show "q' = q" by (auto simp: app_senders_def app_controller_def split: prod.splits)
next
  fix G :: "('b, captureController) GRPCSender" and K i k q k' q' e
  assume "G \<in> app_senders E" "sn_Controller G = Some K" "ct_Repair K i (k, q) = ((k', q'), e)"
  then show "q' = q \<or> (\<exists>ob. ResetForSnapshot E ob q = Inr q')"
    by (auto simp: app_senders_def app_controller_def Repair_def Let_def split: prod.splits sum.splits if_splits)
qed


section \<open>What the queue keeps\<close>

text \<open>A published message stays what it is until it is evicted.\<close>

definition keeps_published :: "('v, 'b, 'z) qenv_scheme \<Rightarrow> 'b Store \<Rightarrow> 'b Store \<Rightarrow> bool" where
  "keeps_published E s s' \<longleftrightarrow> earliest (st s) \<le> earliest (st s') \<and>
     (\<forall>n. earliest (st s') \<le> n \<longrightarrow> n \<le> s_ReadySeq (st s) \<longrightarrow> msg_at E (items s') n = msg_at E (items s) n)"

lemma keeps_same: "items s' = items s \<Longrightarrow> earliest (st s') = earliest (st s) \<Longrightarrow> keeps_published E s s'"
  by (simp add: keeps_published_def)

lemma Append_keeps:
  assumes "bolt_ok E" "queue_inv W E s" "Append E ob s m = Inr s'"
  shows "keeps_published E s s' \<and> s_ReadySeq (st s') = s_ReadySeq (st s)"
proof -
  from assms(3) obtain b bucket where put: "bk_put E (items s) (key (Suc (s_NextSeq (st s)))) b = Inr bucket"
    and s': "s' = s\<lparr>items := bucket, st := (st s)\<lparr>s_NextSeq := Suc (s_NextSeq (st s)), s_Bytes := s_Bytes (st s) + int (blen E b)\<rparr>\<rparr>" by (elim Append_Inr)
  have "s_ReadySeq (st s) \<le> s_NextSeq (st s)" "Suc (s_NextSeq (st s)) < seq_limit" using queue_invD(1) [OF assms(2)] by (auto simp: counters_ok_def)
  then have "msg_at E bucket n = msg_at E (items s) n" if "n \<le> s_ReadySeq (st s)" for n
    using that bolt_ok_put [OF assms(1) put] by (intro msg_at_cong) (simp add: key_inject)
  then show ?thesis by (simp add: keeps_published_def s')
qed

lemma Recover_keeps:
  assumes E: "bolt_ok E" and s: "queue_inv W E s" and rec: "Recover E ob s = Inr s'"
  shows "keeps_published E s s' \<and> s_ReadySeq (st s') = s_ReadySeq (st s)"
proof -
  define r where "r = s_ReadySeq (st s)"
  note inv = queue_invD [OF s]
  from rec obtain bytes b where
    loop: "recover_loop E (bk_from E (items s) (key (Suc r))) (s_Bytes (st s)) (items s) = Inr (bytes, b)"
    and s': "s' = s\<lparr>items := b, st := (st s)\<lparr>s_Bytes := bytes, s_NextSeq := r\<rparr>\<rparr>"
    by (auto simp: Recover_def r_def split: sum.splits)
  have bnd: "Suc r < seq_limit" "s_NextSeq (st s) < seq_limit" "earliest (st s) \<le> Suc r"
    using inv(1) by (auto simp: counters_ok_def r_def)
  have "bk_get E b (key n) = bk_get E (items s) (key n)" if "n \<le> r" for n
    using that bnd recover_loop_spec [OF E loop] by (auto simp: seek_contents(1) [OF E inv(2) bnd] key_inject)
  then show ?thesis by (auto simp: keeps_published_def s' r_def intro: msg_at_cong)
qed

lemma Ack_keeps:
  assumes E: "bolt_ok E" and s: "queue_inv W E s" and ack: "Ack E ob s n mid = Inr s'"
  shows "keeps_published E s s' \<and> s_ReadySeq (st s') = s_ReadySeq (st s)"
proof -
  define x e0 where "x = st s" and "e0 = (if s_EarliestSeq x = 0 then 1 else s_EarliestSeq x)"
  note inv = queue_invD [OF s, folded x_def]
  from ack obtain v b e archive where n: "n = Suc (s_DeliveredSeq x)" "n \<le> s_ReadySeq x"
    and ev: "evict E (replayAge s) (replayBytes s) (ob_now ob) n (items s) e0 (s_ArchiveBytes x + int (blen E v)) = Inr (b, e, archive)"
    and s': "s' = s\<lparr>items := b, st := x\<lparr>s_Bytes := s_Bytes x - int (blen E v), s_ArchiveBytes := archive, s_DeliveredSeq := n, s_EarliestSeq := e\<rparr>\<rparr>"
    unfolding x_def e0_def by (elim Ack_Inr)
  have bnd: "earliest x \<le> n" "n \<le> s_NextSeq x" "s_NextSeq x < seq_limit" "Suc n < seq_limit" "e0 \<le> Suc n" "1 \<le> e0" "s_ReadySeq x \<le> s_NextSeq x"
    using inv(1) n by (auto simp: counters_ok_def earliest_def e0_def split: if_splits)
  from evict_spec [OF E bnd(4,5) ev] have e: "e0 \<le> e" "e \<le> Suc n"
    and b: "bk_get E b = (\<lambda>k. if k \<in> key ` {e0..<e} then None else bk_get E (items s) k)"
    and stop: "e \<le> n \<Longrightarrow> bk_get E b (key e) \<noteq> None" by auto
  have lo: "earliest x \<le> e"
  proof (rule ccontr)
    assume "\<not> earliest x \<le> e"
    with absent_below [OF inv(2), of e] bnd stop show False by (auto simp: b split: if_splits)
  qed
  have "msg_at E b i = msg_at E (items s) i" if "e \<le> i" "i \<le> s_ReadySeq x" for i
    using that bnd e by (intro msg_at_cong) (auto simp: b key_inject)
  moreover have "earliest (st s') = e" using e bnd(6) by (simp add: s' earliest_def)
  ultimately show ?thesis using lo by (simp add: keeps_published_def s' x_def)
qed

lemma qstep_keeps:
  assumes E: "bolt_ok E" "codec_ok W E" and s: "queue_inv W E s" and q: "qstep W E s oper s'" "oper \<noteq> QReset"
  shows "keeps_published E s s' \<and> (if oper = QPublish then s_ReadySeq (st s') = s_NextSeq (st s) \<and> items s' = items s else s_ReadySeq (st s') = s_ReadySeq (st s))"
  using q
proof cases
  case (append ob m)
  then show ?thesis using Append_keeps [OF E(1) s append(2)] by simp
next
  case (recover ob)
  then show ?thesis using Recover_keeps [OF E(1) s recover(2)] by simp
next
  case (ack ob n mid)
  then show ?thesis using Ack_keeps [OF E(1) s ack(2)] by simp
next
  case (finalize ob lsn)
  from finalize(2) show ?thesis
  proof (rule FinalizeSnapshotLSN_Inr)
    fix bytes b
    assume r: "s_ReadySeq (st s) = 0" and s': "s' = s\<lparr>items := b, st := (st s)\<lparr>s_Bytes := bytes, s_SnapshotLSN := lsn\<rparr>\<rparr>"
    show ?thesis using r earliest_pos [of "st s'"] finalize(1) by (auto simp: keeps_published_def s')
  qed
qed (auto simp: PublishSource_def PublishSchema_def SnapshotPoint_def ClearSourceCleanup_def ConfigureReplay_def Open_def keeps_published_def
   split: sum.splits if_splits)

lemma qstep_reset:
  assumes "qstep W E s QReset s'"
  shows "s_ReadySeq (st s') = 0 \<and> s_DeliveredSeq (st s') = 0"
  using assms by cases (auto simp: ResetForSnapshot_def Initialize_def split: sum.splits if_splits)


section \<open>Collector and server\<close>

text \<open>
  \<open>nt_Alive\<close> says that the collector has a session, \<open>nt_Dial\<close> is its hello while the server has not answered it, \<open>nt_Sess\<close>
  the session of the server, \<open>nt_Lease\<close> whether that still holds the lease, and \<open>nt_Linked\<close> whether it is the session of the collector's
  stream; the server may serve a stream that the collector has given up.  \<open>nt_Up\<close> and \<open>nt_Down\<close> are the frames under way.
  Two fields record history: \<open>nt_Hist\<close> the messages published in each generation and \<open>nt_Stored\<close> the messages that the target stored.
\<close>

record ('v, 'b, 'k, 'd, 'f) net =
  nt_Coll :: "('b, 'k) collector"
  nt_Alive :: bool
  nt_Dial :: "Hello option"
  nt_Site :: "('v, 'd, 'f) site"
  nt_Sess :: "session option"
  nt_Lease :: bool
  nt_Linked :: bool
  nt_Up :: "'v CollectorFrame list"
  nt_Down :: "ServerFrame list"
  nt_Hist :: "string \<Rightarrow> Message list"
  nt_Stored :: "Message list"

definition queue_of :: "('v, 'b, 'k, 'd, 'f) net \<Rightarrow> 'b Store" where
  "queue_of N = co_Queue (nt_Coll N)"

definition target_of :: "('v, 'b, 'k, 'd, 'f) net \<Rightarrow> ('v, 'd, 'f) target" where
  "target_of N = st_Target (nt_Site N)"

definition progress_of :: "('v, 'd, 'f) site \<Rightarrow> SyncState" where
  "progress_of d = the (mt_State (tg_Meta (st_Target d)))"

text \<open>The message that a step of the server stored: it advanced the progress.\<close>

definition newly :: "('v, 'd, 'f, 'z) serv_scheme \<Rightarrow> 'v CollectorFrame \<Rightarrow> ('v, 'd, 'f) site \<Rightarrow> ('v, 'd, 'f) site \<Rightarrow> Message list" where
  "newly S f d d' = (case f of
     EventFrame ev \<Rightarrow>
       if (y_Generation (progress_of d'), y_Received (progress_of d')) \<noteq> (y_Generation (progress_of d), y_Received (progress_of d))
       then [projr (unmarshal S (ev_Json ev))] else []
   | _ \<Rightarrow> [])"

text \<open>The end of the server's session: the lease is given back, unless it is lost already.\<close>

definition left :: "('v, 'b, 'k, 'd, 'f) net \<Rightarrow> ('v, 'd, 'f) site \<Rightarrow> ('v, 'd, 'f) site" where
  "left N d = (if nt_Lease N then lease_Close d else d)"

definition careful_frame :: "('v, 'd, 'f, 'z) serv_scheme \<Rightarrow> sio \<Rightarrow> 'v CollectorFrame \<Rightarrow> bool" where
  "careful_frame S io f = (case f of EventFrame ev \<Rightarrow> (case unmarshal S (ev_Json ev) of Inl e \<Rightarrow> True | Inr m \<Rightarrow> careful io m) | _ \<Rightarrow> True)"

inductive net_step ::
  "Message set \<Rightarrow> ('v, 'b, 'z) qenv_scheme \<Rightarrow> ('v, 'd, 'f, 'y) serv_scheme \<Rightarrow> ('b, 'k) GRPCSender set \<Rightarrow> ('v, 'b, 'k, 'd, 'f) net \<Rightarrow> ('v, 'b, 'k, 'd, 'f) net \<Rightarrow> bool"
  for W E S senders where
  capture: "qstep W E (queue_of N) oper q \<Longrightarrow> (\<And>n mid. oper \<noteq> QAck n mid) \<Longrightarrow> (oper = QReset \<Longrightarrow> nt_Hist N (s_Generation (st q)) = []) \<Longrightarrow>
     (oper = QPublish \<Longrightarrow> s_Generation (st q) \<noteq> '''') \<Longrightarrow> g = s_Generation (st (queue_of N)) \<Longrightarrow>
     net_step W E S senders N (N\<lparr>nt_Coll := (nt_Coll N)\<lparr>co_Queue := q\<rparr>,
       nt_Hist := (nt_Hist N)(g := nt_Hist N g @ (if oper = QPublish then staged E (queue_of N) else []))\<rparr>)"
| control: "net_step W E S senders N (N\<lparr>nt_Coll := (nt_Coll N)\<lparr>co_Ctl := k\<rparr>\<rparr>)"
| collector_crash: "net_step W E S senders N (N\<lparr>nt_Coll := (nt_Coll N)\<lparr>co_Ctl := k, co_Active := ''''\<rparr>, nt_Alive := False, nt_Dial := None,
     nt_Linked := False, nt_Down := [], nt_Up := take n (nt_Up N)\<rparr>)"
| dial: "\<not> nt_Alive N \<Longrightarrow> G \<in> senders \<Longrightarrow> connect_open G (queue_of N) = Inr (HelloFrame h :: 'v CollectorFrame) \<Longrightarrow>
     net_step W E S senders N (N\<lparr>nt_Coll := (nt_Coll N)\<lparr>co_Active := '''', co_LastMetrics := None\<rparr>, nt_Alive := True, nt_Dial := Some h, nt_Linked := False, nt_Down := []\<rparr>)"
| accept: "nt_Dial N = Some h \<Longrightarrow> Connect_open ob values (HelloFrame h :: 'v CollectorFrame) (s, nt_Site N) = ((s', d), Inr (ss, frames)) \<Longrightarrow>
     net_step W E S senders N (N\<lparr>nt_Dial := None, nt_Site := d, nt_Sess := Some ss, nt_Lease := True, nt_Linked := True, nt_Up := [], nt_Down := frames\<rparr>)"
| refuse: "nt_Dial N = Some h \<Longrightarrow> Connect_open ob values (HelloFrame h :: 'v CollectorFrame) (s, nt_Site N) = ((s', d), Inl e) \<Longrightarrow>
     net_step W E S senders N (N\<lparr>nt_Dial := None, nt_Site := d\<rparr>)"
| serve: "nt_Sess N = Some ss \<Longrightarrow> nt_Up N = f # up \<Longrightarrow> serve_step S ob f (s, nt_Site N, ss) = ((s', d, ss'), frames, Continue) \<Longrightarrow>
     careful_frame S (so_Sio ob) f \<Longrightarrow> (\<not> nt_Lease N \<Longrightarrow> si_fail (so_Sio ob) 0 \<noteq> None) \<Longrightarrow>
     net_step W E S senders N (N\<lparr>nt_Site := d, nt_Sess := Some ss', nt_Up := up, nt_Down := (if nt_Linked N then nt_Down N @ frames else nt_Down N),
       nt_Stored := nt_Stored N @ newly S f (nt_Site N) d\<rparr>)"
| serve_end: "nt_Sess N = Some ss \<Longrightarrow> nt_Up N = f # up \<Longrightarrow> serve_step S ob f (s, nt_Site N, ss) = ((s', d, ss'), frames, Return e) \<Longrightarrow>
     careful_frame S (so_Sio ob) f \<Longrightarrow> (\<not> nt_Lease N \<Longrightarrow> si_fail (so_Sio ob) 0 \<noteq> None) \<Longrightarrow>
     net_step W E S senders N (N\<lparr>nt_Site := left N d, nt_Sess := None, nt_Up := [], nt_Down := (if nt_Linked N then nt_Down N @ frames else nt_Down N),
       nt_Stored := nt_Stored N @ newly S f (nt_Site N) d\<rparr>)"
| serve_broken: "nt_Sess N = Some ss \<Longrightarrow> serve_break ob e (s, nt_Site N, ss) = ((s', d, ss'), frames, out) \<Longrightarrow>
     net_step W E S senders N (N\<lparr>nt_Site := left N d, nt_Sess := None, nt_Up := []\<rparr>)"
| server_crash: "net_step W E S senders N (N\<lparr>nt_Sess := None, nt_Up := [],
     nt_Site := (if nt_Sess N = None then nt_Site N else left N (nt_Site N))\<lparr>st_Target := invalidateTypes (target_of N)\<rparr>\<rparr>)"
| lease_lost: "nt_Sess N = Some ss \<Longrightarrow> net_step W E S senders N (N\<lparr>nt_Site := left N (nt_Site N), nt_Lease := False\<rparr>)"
| receive: "nt_Alive N \<Longrightarrow> nt_Down N = f # down \<Longrightarrow> G \<in> senders \<Longrightarrow> connect_step E G ob f (nt_Coll N) = (c, frames, None) \<Longrightarrow>
     net_step W E S senders N (N\<lparr>nt_Coll := c, nt_Down := down, nt_Up := (if nt_Linked N \<and> nt_Sess N \<noteq> None then nt_Up N @ frames else nt_Up N)\<rparr>)"
| receive_end: "nt_Alive N \<Longrightarrow> nt_Down N = f # down \<Longrightarrow> G \<in> senders \<Longrightarrow> connect_step E G ob f (nt_Coll N) = (c, frames, Some e) \<Longrightarrow>
     net_step W E S senders N (N\<lparr>nt_Coll := connect_close G c, nt_Alive := False, nt_Linked := False, nt_Down := [],
       nt_Up := (if nt_Linked N \<and> nt_Sess N \<noteq> None then nt_Up N @ frames else nt_Up N)\<rparr>)"
| hang_up: "nt_Alive N \<Longrightarrow> G \<in> senders \<Longrightarrow>
     net_step W E S senders N (N\<lparr>nt_Coll := connect_close G (nt_Coll N), nt_Alive := False, nt_Dial := None, nt_Linked := False, nt_Down := [], nt_Up := take n (nt_Up N)\<rparr>)"

inductive net_run ::
  "Message set \<Rightarrow> ('v, 'b, 'z) qenv_scheme \<Rightarrow> ('v, 'd, 'f, 'y) serv_scheme \<Rightarrow> ('b, 'k) GRPCSender set \<Rightarrow> ('v, 'b, 'k, 'd, 'f) net \<Rightarrow> ('v, 'b, 'k, 'd, 'f) net \<Rightarrow> bool"
  for W E S senders N where
  start: "net_run W E S senders N N"
| step: "net_run W E S senders N N1 \<Longrightarrow> net_step W E S senders N1 N2 \<Longrightarrow> net_run W E S senders N N2"

text \<open>A new queue beside a target that holds nothing yet; nobody is connected.\<close>

definition net_init :: "Message set \<Rightarrow> ('v, 'b, 'z) qenv_scheme \<Rightarrow> ('v, 'd, 'f, 'y) serv_scheme \<Rightarrow> ('v, 'b, 'k, 'd, 'f) net \<Rightarrow> bool" where
  "net_init W E S N \<longleftrightarrow> queue_inv W E (queue_of N) \<and> s_ReadySeq (st (queue_of N)) = 0 \<and> sound_target S (target_of N) \<and>
     y_Generation (progress_of (nt_Site N)) = '''' \<and> y_Received (progress_of (nt_Site N)) = 0 \<and>
     \<not> nt_Alive N \<and> nt_Dial N = None \<and> nt_Sess N = None \<and> \<not> nt_Linked N \<and> nt_Up N = [] \<and> nt_Down N = [] \<and>
     nt_Hist N = (\<lambda>_. []) \<and> nt_Stored N = []"

section \<open>The invariant\<close>

text \<open>The queue holds what its generation published.\<close>

definition hist_ok :: "Message set \<Rightarrow> ('v, 'b, 'z) qenv_scheme \<Rightarrow> (string \<Rightarrow> Message list) \<Rightarrow> 'b Store \<Rightarrow> bool" where
  "hist_ok W E H q \<longleftrightarrow> queue_inv W E q \<and> H '''' = [] \<and> length (H (s_Generation (st q))) = s_ReadySeq (st q) \<and>
     (\<forall>n. earliest (st q) \<le> n \<longrightarrow> n \<le> s_ReadySeq (st q) \<longrightarrow> msg_at E (items q) n = H (s_Generation (st q)) ! (n - 1))"

text \<open>The target holds what it stored, and that is a prefix of what its generation published.\<close>

definition target_ok :: "('v, 'd, 'f, 'y) serv_scheme \<Rightarrow> 'd view \<Rightarrow> (string \<Rightarrow> Message list) \<Rightarrow> Message list \<Rightarrow> ('v, 'd, 'f) target \<Rightarrow> SyncState \<Rightarrow> bool" where
  "target_ok S v0 H stored t y \<longleftrightarrow> sound_target S t \<and> y_Received y \<le> length (H (y_Generation y)) \<and>
     (\<exists>pre. stored = pre @ take (y_Received y) (H (y_Generation y))) \<and>
     foldM (\<lambda>v m. spec_of S t m v) v0 stored = Inr (settled (view_of S t))"

definition events_ok :: "Message set \<Rightarrow> ('v, 'b, 'z) qenv_scheme \<Rightarrow> (string \<Rightarrow> Message list) \<Rightarrow> 'v CollectorFrame list \<Rightarrow> bool" where
  "events_ok W E H up \<longleftrightarrow> (\<forall>ev. EventFrame ev \<in> set up \<longrightarrow>
     (\<exists>m\<in>W. unmarshal E (ev_Json ev) = Inr m \<and> 1 \<le> m_Seq m \<and> m_Seq m \<le> length (H (m_Generation m)) \<and> H (m_Generation m) ! (m_Seq m - 1) = m))"

text \<open>The acknowledgements under way are of messages that the target has stored.\<close>

definition acks_ok :: "SyncState \<Rightarrow> session option \<Rightarrow> ServerFrame list \<Rightarrow> bool" where
  "acks_ok y sess down \<longleftrightarrow> (\<forall>a. AckFrame a \<in> set down \<longrightarrow> ak_Generation a = y_Generation y \<and> ak_Seq a \<le> y_Received y \<and>
     (\<forall>ss. sess = Some ss \<longrightarrow> ss_Generation ss = ak_Generation a))"

definition sess_ok :: "SyncState \<Rightarrow> State \<Rightarrow> session option \<Rightarrow> Hello option \<Rightarrow> bool" where
  "sess_ok y x sess hello \<longleftrightarrow>
     (\<forall>ss. sess = Some ss \<longrightarrow> ss_Next ss = (if y_Generation y = ss_Generation ss then Suc (y_Received y) else 1) \<and>
        (ss_Generation ss \<noteq> s_Generation x \<longrightarrow> s_DeliveredSeq x = 0)) \<and>
     (\<forall>h. hello = Some h \<longrightarrow> hl_Generation h \<noteq> s_Generation x \<longrightarrow> s_DeliveredSeq x = 0)"

definition delivered_ok :: "SyncState \<Rightarrow> State \<Rightarrow> bool" where
  "delivered_ok y x \<longleftrightarrow> s_DeliveredSeq x \<le> (if y_Generation y = s_Generation x then y_Received y else 0)"

definition net_inv :: "Message set \<Rightarrow> ('v, 'b, 'z) qenv_scheme \<Rightarrow> ('v, 'd, 'f, 'y) serv_scheme \<Rightarrow> 'd view \<Rightarrow> ('v, 'b, 'k, 'd, 'f) net \<Rightarrow> bool" where
  "net_inv W E S v0 N \<longleftrightarrow> hist_ok W E (nt_Hist N) (queue_of N) \<and>
     target_ok S v0 (nt_Hist N) (nt_Stored N) (target_of N) (progress_of (nt_Site N)) \<and>
     events_ok W E (nt_Hist N) (nt_Up N) \<and> acks_ok (progress_of (nt_Site N)) (nt_Sess N) (nt_Down N) \<and>
     sess_ok (progress_of (nt_Site N)) (st (queue_of N)) (nt_Sess N) (nt_Dial N) \<and>
     delivered_ok (progress_of (nt_Site N)) (st (queue_of N)) \<and> (if nt_Linked N then nt_Dial N = None else nt_Down N = []) \<and>
     (nt_Sess N \<noteq> None \<and> nt_Lease N \<longrightarrow> lease_key (target_of N) \<in> st_Locks (nt_Site N))"


section \<open>Steps of the collector\<close>

lemma extend_target:
  assumes "target_ok S v0 H stored t y"
  shows "target_ok S v0 (H(g := H g @ xs)) stored t y"
  using assms unfolding target_ok_def by auto

lemma extend_events:
  assumes "events_ok W E H up"
  shows "events_ok W E (H(g := H g @ xs)) up"
  unfolding events_ok_def
proof (intro allI impI)
  fix ev
  assume "EventFrame ev \<in> set up"
  then obtain m where "m \<in> W" "unmarshal E (ev_Json ev) = Inr m" "1 \<le> m_Seq m" "m_Seq m \<le> length (H (m_Generation m))" "H (m_Generation m) ! (m_Seq m - 1) = m"
    using assms unfolding events_ok_def by blast
  then show "\<exists>m\<in>W. unmarshal E (ev_Json ev) = Inr m \<and> 1 \<le> m_Seq m \<and> m_Seq m \<le> length ((H(g := H g @ xs)) (m_Generation m)) \<and> (H(g := H g @ xs)) (m_Generation m) ! (m_Seq m - 1) = m"
    by (intro bexI [of _ m]) (auto simp: nth_append)
qed

lemma hist_ok_keep:
  assumes "hist_ok W E H q" "queue_inv W E q'" "keeps_published E q q'" "s_ReadySeq (st q') = s_ReadySeq (st q)" "s_Generation (st q') = s_Generation (st q)"
  shows "hist_ok W E H q'"
  using assms unfolding hist_ok_def keeps_published_def by auto

lemma hist_ok_empty:
  assumes "queue_inv W E q'" "s_ReadySeq (st q') = 0" "H (s_Generation (st q')) = []" "H '''' = []"
  shows "hist_ok W E H q'"
  using assms earliest_pos [of "st q'"] unfolding hist_ok_def by auto

lemma hist_ok_publish:
  assumes E: "bolt_ok E" "codec_ok W E" and h: "hist_ok W E H q" and q: "qstep W E q QPublish q'" and g: "s_Generation (st q) = g" "g \<noteq> ''''"
  shows "hist_ok W E (H(g := H g @ staged E q)) q'"
proof -
  have inv: "queue_inv W E q" "length (H g) = s_ReadySeq (st q)" using h by (auto simp: hist_ok_def g)
  have old: "msg_at E (items q) n = H g ! (n - 1)" if "earliest (st q) \<le> n" "n \<le> s_ReadySeq (st q)" for n
    using h that by (auto simp: hist_ok_def g)
  note k = qstep_keeps [OF E inv(1) q, simplified]
  have id: "s_Generation (st q') = g" using qstep_identity [OF q] g by simp
  have ord: "s_ReadySeq (st q) \<le> s_NextSeq (st q)" using queue_invD(1) [OF inv(1)] by (simp add: counters_ok_def)
  have "msg_at E (items q') n = (H g @ staged E q) ! (n - 1)" if n: "earliest (st q') \<le> n" "n \<le> s_NextSeq (st q)" for n
  proof (cases "n \<le> s_ReadySeq (st q)")
    case True
    have pos: "1 \<le> n" using n(1) earliest_pos [of "st q'"] by simp
    have "earliest (st q) \<le> n" using k n(1) by (auto simp: keeps_published_def)
    then show ?thesis using k old [OF _ True] pos True inv(2) by (simp add: nth_append)
  next
    case False
    then have "staged E q ! (n - 1 - s_ReadySeq (st q)) = msg_at E (items q) n" using n(2) ord unfolding staged_def by (simp add: nth_append del: upt_Suc)
    then show ?thesis using k False inv(2) by (simp add: nth_append)
  qed
  moreover have "length (staged E q) = s_NextSeq (st q) - s_ReadySeq (st q)" by (simp add: staged_def del: upt_Suc)
  ultimately show ?thesis using k id g h qstep_inv [OF E q inv(1)] ord inv(2) unfolding hist_ok_def by simp
qed

lemma capture_inv:
  assumes E: "bolt_ok E" "codec_ok W E" and N: "net_inv W E S v0 N" and q: "qstep W E (queue_of N) oper q" "\<And>n mid. oper \<noteq> QAck n mid"
    and fresh: "oper = QReset \<Longrightarrow> nt_Hist N (s_Generation (st q)) = []" and some: "oper = QPublish \<Longrightarrow> s_Generation (st q) \<noteq> ''''"
    and g: "g = s_Generation (st (queue_of N))"
  shows "net_inv W E S v0 (N\<lparr>nt_Coll := (nt_Coll N)\<lparr>co_Queue := q\<rparr>,
       nt_Hist := (nt_Hist N)(g := nt_Hist N g @ (if oper = QPublish then staged E (queue_of N) else []))\<rparr>)"
proof -
  let ?H = "nt_Hist N" let ?H' = "?H(g := ?H g @ (if oper = QPublish then staged E (queue_of N) else []))"
  have h: "hist_ok W E ?H (queue_of N)" using N by (simp add: net_inv_def)
  have inv: "queue_inv W E (queue_of N)" using h by (simp add: hist_ok_def)
  have q': "queue_inv W E q" by (rule qstep_inv [OF E q(1) inv])
  have rest: "hist_ok W E ?H' q \<and> (s_Generation (st q) = g \<and> s_DeliveredSeq (st q) = s_DeliveredSeq (st (queue_of N)) \<or> s_DeliveredSeq (st q) = 0)"
  proof (cases "oper = QReset")
    case True
    then have "?H' = ?H" by auto
    with True show ?thesis using hist_ok_empty [OF q', of ?H] qstep_reset [of W E "queue_of N" q] q(1) fresh h by (simp add: hist_ok_def)
  next
    case False
    note id = qstep_identity [OF q(1) False] and d = qstep_delivered [OF q(1) False q(2)] and k = qstep_keeps [OF E inv q(1) False]
    show ?thesis
    proof (cases "oper = QPublish")
      case True
      then show ?thesis using hist_ok_publish [OF E h, of q g] q(1) g id d some by simp
    next
      case other: False
      then show ?thesis using hist_ok_keep [OF h q'] k id d g by (simp add: fun_upd_idem)
    qed
  qed
  have "target_ok S v0 ?H' (nt_Stored N) (target_of N) (progress_of (nt_Site N))" using N extend_target unfolding net_inv_def by blast
  moreover have "events_ok W E ?H' (nt_Up N)" using N extend_events unfolding net_inv_def by blast
  moreover have "delivered_ok (progress_of (nt_Site N)) (st q)" using N rest g by (auto simp: net_inv_def delivered_ok_def)
  moreover have "sess_ok (progress_of (nt_Site N)) (st q) (nt_Sess N) (nt_Dial N)" using N rest g by (auto simp: net_inv_def sess_ok_def)
  ultimately show ?thesis using N rest unfolding net_inv_def queue_of_def target_of_def by simp
qed


lemma reset_generation: "ResetForSnapshot E ob q = Inr q' \<Longrightarrow> s_Generation (st q') = ''''"
  by (auto simp: ResetForSnapshot_def split: if_splits sum.splits)

lemma Get_event:
  assumes "hist_ok W E H q" "Get E q n = Inr (m, raw)"
  shows "m \<in> W \<and> unmarshal E raw = Inr m \<and> 1 \<le> m_Seq m \<and> m_Seq m \<le> length (H (m_Generation m)) \<and> H (m_Generation m) ! (m_Seq m - 1) = m"
proof -
  have inv: "queue_inv W E q" and hist: "length (H (s_Generation (st q))) = s_ReadySeq (st q)"
      "\<And>n. earliest (st q) \<le> n \<Longrightarrow> n \<le> s_ReadySeq (st q) \<Longrightarrow> msg_at E (items q) n = H (s_Generation (st q)) ! (n - 1)"
    using assms(1) by (auto simp: hist_ok_def)
  have n: "earliest (st q) \<le> n" "n \<le> s_ReadySeq (st q)" "fetch E (items q) n = Inr (m, raw)" using assms(2) by (auto simp: Get_def split: if_splits)
  then have m: "msg_at E (items q) n = m" "unmarshal E raw = Inr m" by (auto simp: msg_at_def fetch_def split: option.splits sum.splits)
  have "n \<le> s_NextSeq (st q)" using n(2) queue_invD(1) [OF inv] by (auto simp: counters_ok_def)
  note c = msg_at_contents [OF queue_invD(2) [OF inv] n(1) this, unfolded m(1)]
  show ?thesis using c m(2) n hist(1) hist(2) [OF n(1,2)] earliest_pos [of "st q"] m(1) by auto
qed

context capture_control
begin

lemma receive_cases:
  assumes E: "bolt_ok E" "codec_ok W E" and N: "net_inv W E S v0 N" and G: "G \<in> senders"
    and step: "nt_Down N = f # down" "connect_step E G ob f (nt_Coll N) = (c, frames, e)"
  shows "hist_ok W E (nt_Hist N) (co_Queue c) \<and> sess_ok (progress_of (nt_Site N)) (st (co_Queue c)) (nt_Sess N) (nt_Dial N) \<and>
    delivered_ok (progress_of (nt_Site N)) (st (co_Queue c)) \<and> events_ok W E (nt_Hist N) frames"
proof -
  let ?y = "progress_of (nt_Site N)"
  have inv: "hist_ok W E (nt_Hist N) (queue_of N)" "sess_ok ?y (st (queue_of N)) (nt_Sess N) (nt_Dial N)" "delivered_ok ?y (st (queue_of N))"
      "acks_ok ?y (nt_Sess N) (nt_Down N)" "nt_Linked N" "nt_Dial N = None"
    using N step(1) by (auto simp: net_inv_def split: if_splits)
  have q: "queue_inv W E (queue_of N)" and nil: "nt_Hist N '''' = []" using inv(1) by (auto simp: hist_ok_def)
  from step(2) G show ?thesis
  proof (cases rule: step_cases)
    case same
    then have "events_ok W E (nt_Hist N) frames" using Get_event [OF inv(1)] unfolding events_ok_def queue_of_def by blast
    then show ?thesis using same(1) inv by (simp add: queue_of_def)
  next
    case (reset ob')
    have r: "qstep W E (queue_of N) QReset (co_Queue c)" unfolding queue_of_def by (rule qstep.reset [OF reset(1)])
    have "s_Generation (st (co_Queue c)) = ''''" by (rule reset_generation [OF reset(1)])
    then show ?thesis using qstep_reset [OF r] hist_ok_empty [OF qstep_inv [OF E r q], of "nt_Hist N"] nil reset(2) inv(2)
      by (simp add: sess_ok_def delivered_ok_def events_ok_def)
  next
    case (ack a)
    have r: "qstep W E (queue_of N) (QAck (ak_Seq a) (ak_MessageId a)) (co_Queue c)" unfolding queue_of_def by (rule qstep.ack [OF ack(3)])
    note k = Ack_keeps [OF E(1) q ack(3) [folded queue_of_def]] and id = qstep_identity [OF r] and d = qstep_acked [OF E(1) q r]
    have a: "ak_Generation a = y_Generation ?y" "ak_Seq a \<le> y_Received ?y" "\<forall>ss. nt_Sess N = Some ss \<longrightarrow> ss_Generation ss = ak_Generation a"
      using inv(4) step(1) ack(1) by (auto simp: acks_ok_def)
    have "hist_ok W E (nt_Hist N) (co_Queue c)" using hist_ok_keep [OF inv(1) qstep_inv [OF E r q]] k id by simp
    moreover have "sess_ok ?y (st (co_Queue c)) (nt_Sess N) (nt_Dial N)" using inv(2,6) a ack(2) id by (auto simp: sess_ok_def queue_of_def)
    moreover have "delivered_ok ?y (st (co_Queue c))" using a d id ack(2) by (simp add: delivered_ok_def queue_of_def)
    ultimately show ?thesis using ack(4) by (simp add: events_ok_def)
  qed
qed

lemma events_append: "events_ok W E H up \<Longrightarrow> events_ok W E H frames \<Longrightarrow> events_ok W E H (if b then up @ frames else up)"
  by (auto simp: events_ok_def)

lemma acks_tl: "acks_ok y sess (f # down) \<Longrightarrow> acks_ok y sess down" "acks_ok y sess []"
  by (auto simp: acks_ok_def)

lemma receive_inv:
  assumes E: "bolt_ok E" "codec_ok W E" and N: "net_inv W E S v0 N" and G: "G \<in> senders"
    and step: "nt_Down N = f # down" "connect_step E G ob f (nt_Coll N) = (c, frames, e)"
  shows "net_inv W E S v0 (N\<lparr>nt_Coll := c, nt_Down := down, nt_Up := (if b then nt_Up N @ frames else nt_Up N)\<rparr>)"
    "net_inv W E S v0 (N\<lparr>nt_Coll := connect_close G c, nt_Alive := a, nt_Linked := False, nt_Down := [], nt_Up := (if b then nt_Up N @ frames else nt_Up N)\<rparr>)"
proof -
  note r = receive_cases [OF assms]
  have up: "events_ok W E (nt_Hist N) (if b then nt_Up N @ frames else nt_Up N)" using N r events_append unfolding net_inv_def by blast
  show "net_inv W E S v0 (N\<lparr>nt_Coll := c, nt_Down := down, nt_Up := (if b then nt_Up N @ frames else nt_Up N)\<rparr>)"
    using N r up step(1) acks_tl(1) [of _ _ f down] unfolding net_inv_def queue_of_def target_of_def by auto
  show "net_inv W E S v0 (N\<lparr>nt_Coll := connect_close G c, nt_Alive := a, nt_Linked := False, nt_Down := [], nt_Up := (if b then nt_Up N @ frames else nt_Up N)\<rparr>)"
    using N r up acks_tl(2) close_queue [OF G, of c] unfolding net_inv_def queue_of_def target_of_def by auto
qed

end


section \<open>Steps of the server\<close>

lemma view_state [simp]: "v_State (view_of S (st_Target d)) = progress_of d"
  by (simp add: view_of_def view_at_def progress_of_def)

lemma spec_progress:
  assumes "spec_of S t m v = Inr v'"
  shows "y_Generation (v_State v') = m_Generation m \<and> y_Received (v_State v') = m_Seq m \<and>
    m_Seq m = (if m_Generation m = y_Generation (v_State v) then Suc (y_Received (v_State v)) else 1)"
proof -
  have new: "y_Generation (v_State v') = m_Generation m \<and> y_Received (v_State v') = m_Seq m \<and> m_Seq m = Suc (y_Received (v_State u))"
    if "spec_new S (tg_Cfg t) (tg_Files t \<noteq> None) m u = Inr v'" for u
    by (rule spec_new_Inr [OF that]) (simp add: advance_def Let_def)
  show ?thesis using assms new unfolding spec_of_def spec_store_def by (auto simp: fresh_state_def split: if_splits)
qed

lemma target_ok_repair:
  assumes "target_ok S v0 H stored (st_Target d) (progress_of d)" "st_Target d' = st_Target d \<or> st_Target d' = set_repair b (st_Target d)"
  shows "target_ok S v0 H stored (st_Target d') (progress_of d') \<and> y_Generation (progress_of d') = y_Generation (progress_of d) \<and>
    y_Received (progress_of d') = y_Received (progress_of d) \<and> lease_key (st_Target d') = lease_key (st_Target d)"
  using assms(2)
proof
  assume "st_Target d' = st_Target d"
  then show ?thesis using assms(1) by (simp add: progress_of_def)
next
  assume t: "st_Target d' = set_repair b (st_Target d)"
  have sound: "sound_target S (st_Target d)" using assms(1) by (simp add: target_ok_def)
  then obtain y where y: "mt_State (tg_Meta (st_Target d)) = Some y" by (auto simp: sound_target_def meta_inv_def)
  have "spec_of S (set_repair b (st_Target d)) = spec_of S (st_Target d)" by (intro spec_of_same) simp_all
  then show ?thesis using assms(1) set_repair_sound [OF sound, of b] view_set_repair [OF sound, of b] y
    by (simp add: t progress_of_def target_ok_def)
qed

text \<open>A store that has its effect appends its message to what is stored.\<close>

lemma target_ok_store:
  assumes ok: "target_ok S v0 H stored (st_Target d) (progress_of d)" and m: "1 \<le> m_Seq m" "m_Seq m \<le> length (H (m_Generation m))" "H (m_Generation m) ! (m_Seq m - 1) = m"
    and st: "spec_of S (st_Target d) m (view_of S (st_Target d)) = Inr (view_of S (st_Target d'))" "sound_target S (st_Target d')"
      "tg_Cfg (st_Target d') = tg_Cfg (st_Target d)" "(tg_Files (st_Target d') = None) = (tg_Files (st_Target d) = None)"
  shows "target_ok S v0 H (stored @ [m]) (st_Target d') (progress_of d')"
proof -
  let ?y = "progress_of d" and ?y' = "progress_of d'" and ?f = "\<lambda>v m. spec_of S (st_Target d) m v"
  note p = spec_progress [OF st(1), simplified]
  obtain pre where pre: "stored = pre @ take (y_Received ?y) (H (y_Generation ?y))" and fold: "foldM ?f v0 stored = Inr (settled (view_of S (st_Target d)))"
    using ok by (auto simp: target_ok_def)
  have same: "spec_of S (st_Target d') = spec_of S (st_Target d)" by (rule spec_of_same [OF st(3,4)])
  have "foldM ?f v0 (stored @ [m]) = Inr (settled (view_of S (st_Target d')))" using fold spec_repair [of S "st_Target d" m "view_of S (st_Target d)"] st(1) by (simp add: foldM_append)
  moreover have "\<exists>pre. stored @ [m] = pre @ take (y_Received ?y') (H (y_Generation ?y'))"
  proof (cases "m_Generation m = y_Generation ?y")
    case True
    then have r: "m_Seq m = Suc (y_Received ?y)" "y_Received ?y' = Suc (y_Received ?y)" "y_Generation ?y' = y_Generation ?y" using p by auto
    have "take (Suc (y_Received ?y)) (H (y_Generation ?y)) = take (y_Received ?y) (H (y_Generation ?y)) @ [m]"
      using m(2,3) r(1) True by (simp add: take_Suc_conv_app_nth)
    then show ?thesis using pre r by auto
  next
    case False
    then have r: "m_Seq m = 1" "y_Received ?y' = 1" "y_Generation ?y' = m_Generation m" using p by auto
    then have "take 1 (H (m_Generation m)) = [m]" using m(2,3) by (cases "H (m_Generation m)") auto
    then show ?thesis using r by auto
  qed
  ultimately show ?thesis using st(2) p m(2) unfolding target_ok_def same by simp
qed

lemma stored_acks:
  assumes "acks_ok y (Some ss) down" "m_Generation m = ss_Generation ss" "y_Generation y' = m_Generation m" "y_Received y' = m_Seq m"
    and grow: "m_Generation m = y_Generation y \<Longrightarrow> m_Seq m = Suc (y_Received y)" and gen: "ss_Generation ss' = ss_Generation ss"
    and new: "\<And>a. AckFrame a \<in> set frames \<Longrightarrow> ak_Generation a = ss_Generation ss \<and> ak_Seq a = m_Seq m"
  shows "acks_ok y' (Some ss') (if b then down @ frames else down)"
proof -
  have "ak_Generation a = m_Generation m \<and> ak_Seq a \<le> m_Seq m" if "AckFrame a \<in> set down \<union> set frames" for a
    using that
  proof
    assume "AckFrame a \<in> set down"
    then have o: "ak_Generation a = y_Generation y" "ak_Seq a \<le> y_Received y" "ss_Generation ss = ak_Generation a" using assms(1) by (simp_all add: acks_ok_def)
    then have "m_Generation m = y_Generation y" using assms(2) by simp
    then show ?thesis using o grow assms(2) by simp
  next
    assume "AckFrame a \<in> set frames"
    then show ?thesis using new assms(2) by simp
  qed
  then show ?thesis using gen assms(2-4) by (simp add: acks_ok_def)
qed

lemma stored_delivered:
  assumes "sess_ok y x (Some ss) hello" "delivered_ok y x" "m_Generation m = ss_Generation ss" "y_Generation y' = m_Generation m" "y_Received y' = m_Seq m"
    and grow: "m_Generation m = y_Generation y \<Longrightarrow> m_Seq m = Suc (y_Received y)"
  shows "delivered_ok y' x"
proof (cases "ss_Generation ss = s_Generation x")
  case True
  then show ?thesis using assms(2-5) grow by (cases "m_Generation m = y_Generation y") (auto simp: delivered_ok_def split: if_splits)
next
  case False
  then show ?thesis using assms(1) by (simp add: delivered_ok_def sess_ok_def)
qed

lemma serve_cases:
  assumes codec: "unmarshal S = unmarshal E" "\<forall>m\<in>W. rows_codec S m" "rows_keep_columns S" and N: "net_inv W E S v0 N"
    and step: "nt_Sess N = Some ss" "nt_Up N = f # up" "serve_step S ob f (s, nt_Site N, ss) = ((s', d, ss'), frames, out)" "careful_frame S (so_Sio ob) f"
  shows "target_ok S v0 (nt_Hist N) (nt_Stored N @ newly S f (nt_Site N) d) (st_Target d) (progress_of d) \<and>
    acks_ok (progress_of d) (Some ss') (if nt_Linked N then nt_Down N @ frames else nt_Down N) \<and>
    (out = Continue \<longrightarrow> sess_ok (progress_of d) (st (queue_of N)) (Some ss') (nt_Dial N)) \<and>
    delivered_ok (progress_of d) (st (queue_of N)) \<and> st_Locks d = st_Locks (nt_Site N) \<and> lease_key (st_Target d) = lease_key (target_of N)"
proof -
  let ?d = "nt_Site N" let ?y = "progress_of ?d" and ?x = "st (queue_of N)"
  have inv: "target_ok S v0 (nt_Hist N) (nt_Stored N) (st_Target ?d) ?y" "events_ok W E (nt_Hist N) (nt_Up N)" "acks_ok ?y (Some ss) (nt_Down N)"
    "sess_ok ?y ?x (Some ss) (nt_Dial N)" "delivered_ok ?y ?x"
    using N step(1) by (auto simp: net_inv_def target_of_def)
  from step(3) show ?thesis
  proof (cases rule: serve_step_cases)
    case other
    then have o: "st_Target d = st_Target ?d \<or> st_Target d = set_repair True (st_Target ?d)" "st_Locks d = st_Locks ?d" "ss_Generation ss' = ss_Generation ss"
      "ss_Next ss' = ss_Next ss" "\<forall>a. AckFrame a \<notin> set frames" by (simp_all add: quiet_def)
    note t = target_ok_repair [OF inv(1) o(1)]
    have "newly S f ?d d = []" using t by (simp add: newly_def split: CollectorFrame.split)
    moreover have "acks_ok (progress_of d) (Some ss') (if nt_Linked N then nt_Down N @ frames else nt_Down N)" using inv(3) o(3,5) t by (auto simp: acks_ok_def)
    moreover have "sess_ok (progress_of d) ?x (Some ss') (nt_Dial N)" using inv(4) o(3,4) t by (simp add: sess_ok_def)
    moreover have "delivered_ok (progress_of d) ?x" using inv(5) t by (auto simp: delivered_ok_def split: if_splits)
    ultimately show ?thesis using t o(2) by (simp add: target_of_def)
  next
    case (stored ev m t r)
    have m: "m \<in> W" "1 \<le> m_Seq m" "m_Seq m \<le> length (nt_Hist N (m_Generation m))" "nt_Hist N (m_Generation m) ! (m_Seq m - 1) = m"
      using inv(2) step(2) stored(1,2) codec(1) unfolding events_ok_def by auto
    have sound: "sound_target S (st_Target ?d)" using inv(1) by (simp add: target_ok_def)
    have "readable S m (ev_Json ev)" "careful (so_Sio ob) m" using stored(1,2) codec(2) m(1) step(4) by (simp_all add: readable_def careful_frame_def)
    note s = store_step [OF stored(5) sound this codec(3)]
    have t: "st_Target d = t" "st_Locks d = st_Locks ?d" using stored(6) by simp_all
    have nx: "ss_Next ss = (if y_Generation ?y = ss_Generation ss then Suc (y_Received ?y) else 1)" using inv(4) by (simp add: sess_ok_def)
    obtain y0 where y0: "mt_State (tg_Meta (st_Target ?d)) = Some y0" using sound by (auto simp: sound_target_def meta_inv_def)
    have key: "lease_key t = lease_key (st_Target ?d)" using s(3) by (simp add: lease_key_def)
    have fresh: "\<not> is_duplicate (st_Target ?d) m" using y0 nx stored(3,4) by (auto simp: is_duplicate_def progress_of_def)
    from s(1) show ?thesis
    proof
      assume v: "view_of S t = view_of S (st_Target ?d)"
      then have y: "progress_of d = ?y" using view_state [of S d] t(1) by simp
      have "r \<noteq> None"
      proof
        assume "r = None"
        from spec_progress [OF s(5) [OF this fresh], unfolded v view_state] show False by presburger
      qed
      note e = stored(9) [OF this]
      have "spec_of S t = spec_of S (st_Target ?d)" by (rule spec_of_same [OF s(3,4)])
      then have "target_ok S v0 (nt_Hist N) (nt_Stored N) (st_Target d) (progress_of d)" using inv(1) v s(2) y t(1) by (simp add: target_ok_def)
      moreover have "newly S f ?d d = []" using y stored(1) by (simp add: newly_def)
      ultimately show ?thesis using e y inv(3,5) t key by (simp add: target_of_def)
    next
      assume v: "spec_of S (st_Target ?d) m (view_of S (st_Target ?d)) = Inr (view_of S t)"
      note p = spec_progress [OF v [folded t(1)], unfolded view_state]
      have now: "y_Generation (progress_of d) = m_Generation m" "y_Received (progress_of d) = m_Seq m" using p by simp_all
      have grow: "m_Generation m = y_Generation ?y \<Longrightarrow> m_Seq m = Suc (y_Received ?y)" using p by presburger
      have "newly S f ?d d = [m]" using now grow stored(1,2) by (auto simp: newly_def)
      moreover have "target_ok S v0 (nt_Hist N) (nt_Stored N @ [m]) (st_Target d) (progress_of d)"
        by (rule target_ok_store [OF inv(1) m(2-4)]) (use v s t in simp_all)
      moreover have "acks_ok (progress_of d) (Some ss') (if nt_Linked N then nt_Down N @ frames else nt_Down N)"
      proof (rule stored_acks [OF inv(3) stored(4) now grow])
        show "ss_Generation ss' = ss_Generation ss" using stored(7,9) by (cases r) simp_all
        show "ak_Generation a = ss_Generation ss \<and> ak_Seq a = m_Seq m" if "AckFrame a \<in> set frames" for a
          using that stored(3,8,9) by (cases r) (auto simp: pull_def)
      qed
      moreover have "out = Continue \<longrightarrow> sess_ok (progress_of d) ?x (Some ss') (nt_Dial N)"
        using inv(4) now stored(3,4,7,9) by (cases r) (simp_all add: sess_ok_def)
      moreover have "delivered_ok (progress_of d) ?x" by (rule stored_delivered [OF inv(4,5) stored(4) now grow])
      ultimately show ?thesis using t key by (simp add: target_of_def)
    qed
  qed
qed


lemma left_simps [simp]: "st_Target (left N d) = st_Target d" "progress_of (left N d) = progress_of d" "nt_Lease N \<Longrightarrow> st_Locks (left N d) = st_Locks d - {lease_key (st_Target d)}"
  "\<not> nt_Lease N \<Longrightarrow> st_Locks (left N d) = st_Locks d"
  by (simp_all add: left_def lease_Close_def progress_of_def)

lemma acks_forget: "acks_ok y sess down \<Longrightarrow> acks_ok y None down"
  by (auto simp: acks_ok_def)

lemma sess_forget: "sess_ok y x sess hello \<Longrightarrow> sess_ok y' x None hello" "sess_ok y x sess hello \<Longrightarrow> sess_ok y x sess None"
  by (auto simp: sess_ok_def)

lemma accept_inv:
  assumes N: "net_inv W E S v0 N" and step: "nt_Dial N = Some h" "Connect_open ob values (HelloFrame h) (s, nt_Site N) = ((s', d), Inr (ss, frames))"
  shows "net_inv W E S v0 (N\<lparr>nt_Dial := None, nt_Site := d, nt_Sess := Some ss, nt_Lease := True, nt_Linked := True, nt_Up := [], nt_Down := frames\<rparr>)"
proof -
  let ?y = "progress_of (nt_Site N)"
  obtain y where y: "mt_State (tg_Meta (st_Target (nt_Site N))) = Some y" "lease_key (st_Target (nt_Site N)) \<in> st_Locks d" "ss_Generation ss = hl_Generation h" "frames = [pull ss]"
     "st_Target d = st_Target (nt_Site N) \<or> st_Target d = set_repair False (st_Target (nt_Site N))"
     "(y_Generation y = '''' \<or> y_Generation y = hl_Generation h) \<and> ss_Next ss = Suc (y_Received y) \<or> y_Generation y \<noteq> hl_Generation h \<and> ss_Next ss = 1"
    using step(2) by (rule Connect_open_Inr) auto
  have inv: "target_ok S v0 (nt_Hist N) (nt_Stored N) (st_Target (nt_Site N)) ?y" "hist_ok W E (nt_Hist N) (queue_of N)"
    "sess_ok ?y (st (queue_of N)) (nt_Sess N) (nt_Dial N)" "delivered_ok ?y (st (queue_of N))"
    using N by (auto simp: net_inv_def target_of_def)
  note t = target_ok_repair [OF inv(1) y(5)]
  have yp: "?y = y" using y(1) by (simp add: progress_of_def)
  have "y_Received y = 0" if "y_Generation y = ''''" using inv(1,2) that yp by (simp add: target_ok_def hist_ok_def)
  then have nx: "ss_Next ss = (if y_Generation y = hl_Generation h then Suc (y_Received y) else 1)" using y(6) by auto
  have "sess_ok (progress_of d) (st (queue_of N)) (Some ss) None" using inv(3) nx t yp y(3) step(1) by (simp add: sess_ok_def)
  moreover have "acks_ok (progress_of d) (Some ss) frames" by (simp add: y(4) acks_ok_def pull_def)
  moreover have "delivered_ok (progress_of d) (st (queue_of N))" using inv(4) t by (auto simp: delivered_ok_def split: if_splits)
  ultimately show ?thesis using N t y(2) by (simp add: net_inv_def queue_of_def target_of_def events_ok_def)
qed

lemma site_inv:
  assumes N: "net_inv W E S v0 N" and t: "st_Target d = target_of N \<or> st_Target d = set_repair b (target_of N)" and locks: "nt_Sess N \<noteq> None \<and> nt_Lease N \<Longrightarrow> st_Locks d = st_Locks (nt_Site N)"
  shows "net_inv W E S v0 (N\<lparr>nt_Dial := None, nt_Site := d\<rparr>)"
proof -
  have ok: "target_ok S v0 (nt_Hist N) (nt_Stored N) (st_Target (nt_Site N)) (progress_of (nt_Site N))" using N by (simp add: net_inv_def target_of_def)
  note r = target_ok_repair [OF ok t [unfolded target_of_def]]
  have "sess_ok (progress_of d) (st (queue_of N)) (nt_Sess N) None" using N r by (simp add: net_inv_def sess_ok_def)
  moreover have "acks_ok (progress_of d) (nt_Sess N) (nt_Down N)" using N r by (simp add: net_inv_def acks_ok_def)
  moreover have "delivered_ok (progress_of d) (st (queue_of N))" using N r by (auto simp: net_inv_def delivered_ok_def split: if_splits)
  ultimately show ?thesis using N r locks by (auto simp: net_inv_def queue_of_def target_of_def)
qed

lemma leave_inv:
  assumes N: "net_inv W E S v0 N" and t: "st_Target d = target_of N \<or> st_Target d = set_repair b (target_of N)"
  shows "net_inv W E S v0 (N\<lparr>nt_Site := d, nt_Sess := None, nt_Up := []\<rparr>)"
proof -
  have ok: "target_ok S v0 (nt_Hist N) (nt_Stored N) (st_Target (nt_Site N)) (progress_of (nt_Site N))" using N by (simp add: net_inv_def target_of_def)
  note r = target_ok_repair [OF ok t [unfolded target_of_def]]
  have "sess_ok (progress_of d) (st (queue_of N)) None (nt_Dial N)" using N sess_forget(1) by (auto simp: net_inv_def)
  moreover have "acks_ok (progress_of d) None (nt_Down N)" using N r by (simp add: net_inv_def acks_ok_def)
  moreover have "delivered_ok (progress_of d) (st (queue_of N))" using N r by (auto simp: net_inv_def delivered_ok_def split: if_splits)
  ultimately show ?thesis using N r by (auto simp: net_inv_def queue_of_def target_of_def events_ok_def)
qed

lemma invalidate_inv:
  assumes "net_inv W E S v0 N"
  shows "net_inv W E S v0 (N\<lparr>nt_Site := (nt_Site N)\<lparr>st_Target := invalidateTypes (target_of N)\<rparr>\<rparr>)"
proof -
  let ?d = "(nt_Site N)\<lparr>st_Target := invalidateTypes (target_of N)\<rparr>"
  have y: "progress_of ?d = progress_of (nt_Site N)" by (simp add: progress_of_def target_of_def invalidateTypes_def)
  have s: "spec_of S (invalidateTypes (target_of N)) = spec_of S (target_of N)" by (intro spec_of_same) (simp_all add: invalidateTypes_def)
  have "target_ok S v0 (nt_Hist N) (nt_Stored N) (invalidateTypes (target_of N)) (progress_of (nt_Site N))"
    using assms s invalidateTypes_sound [of S "target_of N"] by (simp add: net_inv_def target_ok_def)
  moreover have "lease_key (invalidateTypes (target_of N)) = lease_key (target_of N)" by (simp add: lease_key_def invalidateTypes_def)
  ultimately show ?thesis using assms y by (simp add: net_inv_def queue_of_def target_of_def)
qed


lemma hang_up_inv:
  assumes "net_inv W E S v0 N" "co_Queue c = queue_of N"
  shows "net_inv W E S v0 (N\<lparr>nt_Coll := c, nt_Alive := a, nt_Dial := None, nt_Linked := False, nt_Down := [], nt_Up := take n (nt_Up N)\<rparr>)"
proof -
  have "events_ok W E (nt_Hist N) (take n (nt_Up N))" using assms(1) by (auto simp: net_inv_def events_ok_def dest: in_set_takeD)
  moreover have "acks_ok y sess []" for y sess by (simp add: acks_ok_def)
  ultimately show ?thesis using assms sess_forget(2) unfolding net_inv_def queue_of_def target_of_def by auto
qed

lemma dial_inv:
  assumes "net_inv W E S v0 N" "connect_open G (queue_of N) = Inr (HelloFrame h :: 'v CollectorFrame)" "co_Queue c = queue_of N"
  shows "net_inv W E S v0 (N\<lparr>nt_Coll := c, nt_Alive := True, nt_Dial := Some h, nt_Linked := False, nt_Down := []\<rparr>)"
proof -
  have "hl_Generation h = s_Generation (st (queue_of N))" using assms(2) by (auto simp: connect_open_def Bounds_def split: if_splits)
  then have "sess_ok (progress_of (nt_Site N)) (st (queue_of N)) (nt_Sess N) (Some h)" using assms(1) by (simp add: net_inv_def sess_ok_def)
  moreover have "acks_ok y sess []" for y sess by (simp add: acks_ok_def)
  ultimately show ?thesis using assms(1,3) unfolding net_inv_def queue_of_def target_of_def by auto
qed

lemma serve_inv:
  assumes codec: "unmarshal S = unmarshal E" "\<forall>m\<in>W. rows_codec S m" "rows_keep_columns S" and N: "net_inv W E S v0 N"
    and step: "nt_Sess N = Some ss" "nt_Up N = f # up" "serve_step S ob f (s, nt_Site N, ss) = ((s', d, ss'), frames, out)" "careful_frame S (so_Sio ob) f"
  shows "out = Continue \<Longrightarrow> net_inv W E S v0 (N\<lparr>nt_Site := d, nt_Sess := Some ss', nt_Up := up, nt_Down := (if nt_Linked N then nt_Down N @ frames else nt_Down N),
       nt_Stored := nt_Stored N @ newly S f (nt_Site N) d\<rparr>)"
    "net_inv W E S v0 (N\<lparr>nt_Site := left N d, nt_Sess := None, nt_Up := [], nt_Down := (if nt_Linked N then nt_Down N @ frames else nt_Down N),
       nt_Stored := nt_Stored N @ newly S f (nt_Site N) d\<rparr>)"
proof -
  note c = serve_cases [OF assms]
  have up: "events_ok W E (nt_Hist N) up" "events_ok W E (nt_Hist N) []" using N step(2) by (auto simp: net_inv_def events_ok_def)
  have sess: "sess_ok (progress_of d) (st (queue_of N)) None (nt_Dial N)" using N sess_forget(1) by (auto simp: net_inv_def)
  show "net_inv W E S v0 (N\<lparr>nt_Site := d, nt_Sess := Some ss', nt_Up := up, nt_Down := (if nt_Linked N then nt_Down N @ frames else nt_Down N),
       nt_Stored := nt_Stored N @ newly S f (nt_Site N) d\<rparr>)" if "out = Continue"
    using N c that up(1) step(1) by (simp add: net_inv_def queue_of_def target_of_def split: if_splits)
  show "net_inv W E S v0 (N\<lparr>nt_Site := left N d, nt_Sess := None, nt_Up := [], nt_Down := (if nt_Linked N then nt_Down N @ frames else nt_Down N),
       nt_Stored := nt_Stored N @ newly S f (nt_Site N) d\<rparr>)"
    using N c up(2) sess acks_forget [of "progress_of d" "Some ss'" "if nt_Linked N then nt_Down N @ frames else nt_Down N"]
    by (simp add: net_inv_def queue_of_def target_of_def split: if_splits)
qed

context capture_control
begin

lemma net_step_inv:
  assumes E: "bolt_ok E" "codec_ok W E" and S: "unmarshal S = unmarshal E" "\<forall>m\<in>W. rows_codec S m" "rows_keep_columns S"
    and step: "net_step W E S senders N N'" and N: "net_inv W E S v0 N"
  shows "net_inv W E S v0 N'"
  using step
proof cases
  case (capture oper q g)
  then show ?thesis using capture_inv [OF E N capture(2-5) capture(6)] by simp
next
  case (control k)
  then show ?thesis using N by (simp add: net_inv_def queue_of_def target_of_def)
next
  case (collector_crash k n)
  then show ?thesis using hang_up_inv [OF N] by (simp add: queue_of_def)
next
  case (dial G h)
  then show ?thesis using dial_inv [OF N dial(4)] by (simp add: queue_of_def)
next
  case (accept h ob "values" s s' d ss frames)
  then show ?thesis using accept_inv [OF N accept(2,3)] by simp
next
  case (refuse h ob "values" s s' d e)
  then show ?thesis using Connect_open_Inl [OF refuse(3)] site_inv [OF N, of d False] by (simp add: target_of_def)
next
  case (serve ss f up ob s s' d ss' frames)
  then show ?thesis using serve_inv(1) [OF S N serve(2-5)] by simp
next
  case (serve_end ss f up ob s s' d ss' frames e)
  then show ?thesis using serve_inv(2) [OF S N serve_end(2-5)] by simp
next
  case (serve_broken ss ob e s s' d ss' frames out)
  have "st_Target d = target_of N \<or> st_Target d = set_repair True (target_of N)" using serve_break_quiet [OF serve_broken(3)] by (simp add: quiet_def target_of_def)
  then show ?thesis using leave_inv [OF N, of "left N d" True] serve_broken(1) by simp
next
  case server_crash
  let ?N = "N\<lparr>nt_Site := if nt_Sess N = None then nt_Site N else left N (nt_Site N), nt_Sess := None, nt_Up := []\<rparr>"
  have "net_inv W E S v0 ?N" by (rule leave_inv [OF N, of _ True]) (simp add: target_of_def)
  from invalidate_inv [OF this] show ?thesis by (cases "nt_Sess N") (simp_all add: server_crash target_of_def)
next
  case (lease_lost ss)
  then show ?thesis using N by (simp add: net_inv_def queue_of_def target_of_def)
next
  case (receive f down G ob c frames)
  then show ?thesis using receive_inv(1) [OF E N receive(4) receive(3,5)] by simp
next
  case (receive_end f down G ob c frames e)
  then show ?thesis using receive_inv(2) [OF E N receive_end(4) receive_end(3,5)] by simp
next
  case (hang_up G n)
  then show ?thesis using hang_up_inv [OF N] close_queue [OF hang_up(3)] by (simp add: queue_of_def)
qed

lemma net_run_inv:
  assumes E: "bolt_ok E" "codec_ok W E" and S: "unmarshal S = unmarshal E" "\<forall>m\<in>W. rows_codec S m" "rows_keep_columns S"
    and run: "net_run W E S senders N N'" and N: "net_inv W E S v0 N"
  shows "net_inv W E S v0 N'"
  using run N by (induction rule: net_run.induct) (auto intro: net_step_inv [OF E S])

end

lemma net_init_inv: "net_init W E S N \<Longrightarrow> net_inv W E S (settled (view_of S (target_of N))) N"
  using hist_ok_empty [of W E "queue_of N" "nt_Hist N"] queue_invD(1) [of W E "queue_of N"]
  by (simp add: net_init_def net_inv_def target_ok_def events_ok_def acks_ok_def sess_ok_def delivered_ok_def counters_ok_def)

text \<open>C1. Replication end to end.  Start the capture with a new queue beside an empty target and let collector and server run, with crashes on both
  sides, broken streams, lost leases and lost answers to commits.  At every moment the messages the target holds are in the order of their publication and without a gap: those of
  its generation are the first ones that the collector published, up to the recorded progress, each stored once.  Its tables and
  its staged data are what the specification makes of these messages.  And what the queue counts as delivered is stored: acknowledged
  messages are never lost.\<close>

theorem replication_end_to_end:
  assumes "bolt_ok E" "codec_ok W E" "unmarshal S = unmarshal E" "\<forall>m\<in>W. rows_codec S m" "rows_keep_columns S"
    and "net_init W E S N" "net_run W E S (app_senders E) N N'"
  shows "let q = st (queue_of N'); y = progress_of (nt_Site N'); published = nt_Hist N' (y_Generation y) in
    (\<exists>earlier. nt_Stored N' = earlier @ take (y_Received y) published) \<and> y_Received y \<le> length published \<and>
    foldM (\<lambda>v m. spec_of S (target_of N') m v) (settled (view_of S (target_of N))) (nt_Stored N') = Inr (settled (view_of S (target_of N'))) \<and>
    (if s_Generation q = y_Generation y then s_DeliveredSeq q \<le> y_Received y else s_DeliveredSeq q = 0)"
  using app.net_run_inv [OF assms(1-5,7) net_init_inv [OF assms(6)]]
  by (auto simp: net_inv_def target_ok_def delivered_ok_def Let_def split: if_splits)

section \<open>Examples\<close>

definition sample_serv :: "(Message, statement_log, content_map) serv" where
  "sample_serv = tenv.extend sample_tenv \<lparr>xe_query = (\<lambda>_ _. Inr []), xe_sha = flat_sha, xe_canon = no_canon, xe_duration = (\<lambda>_. 0), xe_daily = (\<lambda>_ _ _. 0)\<rparr>"

lemma sample_serv_simps: "unmarshal sample_serv = Inr" "unmarshal_row sample_serv = unmarshal_row sample_tenv" "marshal_row sample_serv = marshal_row sample_tenv"
  "te_exec sample_serv = te_exec sample_tenv" "te_columns sample_serv = te_columns sample_tenv" "te_sha sample_serv = te_sha sample_tenv"
  by (simp_all add: sample_serv_def sample_tenv_def tenv.defs)

lemma sample_serv_ok: "unmarshal sample_serv = unmarshal sample_env" "\<forall>m\<in>UNIV. rows_codec sample_serv m" "rows_keep_columns sample_serv"
proof -
  show "unmarshal sample_serv = unmarshal sample_env" by (simp add: sample_serv_simps sample_env_def)
  show "\<forall>m\<in>UNIV. rows_codec sample_serv m" using sample_readable by (simp add: readable_def rows_codec_def sample_serv_simps)
  show "rows_keep_columns sample_serv" using sample_rows_keep_columns by (simp add: rows_keep_columns_def sample_serv_simps)
qed

definition begun :: State where
  "begun = zero_State\<lparr>s_SourceID := ''one'', s_Generation := ''g1'', s_Phase := ''snapshot'', s_EarliestSeq := 1\<rparr>"

definition begin_msg :: Message where
  "begin_msg = stamp begun (dec 5) (kind_msg ''snapshot_begin'')"

definition queue_1 :: "(string \<times> Message) list Store" where
  "queue_1 = sample_new\<lparr>st := begun, items := []\<rparr>"

definition queue_2 :: "(string \<times> Message) list Store" where
  "queue_2 = queue_1\<lparr>st := begun\<lparr>s_NextSeq := 1, s_Bytes := 100\<rparr>, items := [(key 1, begin_msg)]\<rparr>"

definition queue_3 :: "(string \<times> Message) list Store" where
  "queue_3 = queue_2\<lparr>st := (st queue_2)\<lparr>s_ReadySeq := 1, s_DurableLSN := ''0/10''\<rparr>\<rparr>"

lemma queue_1_ok: "Initialize sample_env sample_obs sample_new (zero_State\<lparr>s_SourceID := ''one'', s_Generation := ''g1''\<rparr>) = Inr queue_1"
  by (simp add: Initialize_def queue_1_def begun_def sample_new_def Open_def Update_def guarded_def sample_defs)

lemma queue_2_ok: "Append sample_env sample_obs queue_1 (kind_msg ''snapshot_begin'') = Inr queue_2"
  by (simp add: Append_def queue_2_def queue_1_def begin_msg_def sample_new_def Open_def Update_def guarded_def sample_obs_def sample_env_def begun_def Let_def kind_msg_def zero_Message_def stamp_def zero_State_def)

lemma queue_3_ok: "PublishSource sample_obs queue_2 ''0/10'' False '''' = Inr queue_3"
  by (simp add: PublishSource_def Update_def queue_3_def queue_2_def sample_obs_def begun_def zero_State_def)


definition empty_state :: SyncState where
  "empty_state = \<lparr>y_Generation = '''', y_Received = 0, y_Applied = 0, y_Phase = '''', y_Open = '''', y_SchemaVersion = '''', y_Pending = '''', y_Repair = False\<rparr>"

definition empty_target :: "(Message, statement_log, content_map) target" where
  "empty_target = sample_target \<lparr>mt_State = Some empty_state, mt_Inbox = [], mt_Scope = [], mt_Rows = [], mt_Hash = [], mt_Stage = []\<rparr>"

definition begun_state :: SyncState where
  "begun_state = empty_state\<lparr>y_Generation := ''g1'', y_Received := 1, y_Phase := ''snapshot''\<rparr>"

definition begun_target :: "(Message, statement_log, content_map) target" where
  "begun_target = empty_target\<lparr>tg_Meta := (tg_Meta empty_target)\<lparr>mt_State := Some begun_state, mt_Hash := [((''g1'', 1), ''snapshot_begin'')]\<rparr>\<rparr>"

lemma begin_msg_simps: "m_Seq begin_msg = 1" "m_Generation begin_msg = ''g1''" "m_Kind begin_msg = ''snapshot_begin''" "m_SourceID begin_msg = ''one''"
  "m_ID begin_msg = message_id ''one'' ''g1'' 1" "m_SchemaVersion begin_msg = ''''" "m_Tables begin_msg = []" "m_File begin_msg = None"
  by (simp_all add: begin_msg_def begun_def stamp_def kind_msg_def zero_Message_def zero_State_def)

lemma begin_stored: "target_store sample_serv calm begin_msg begin_msg empty_target = (begun_target, None)"
proof -
  have "\<not> bigint_limit \<le> Suc 0" using small_seq [of 1] by simp
  then show ?thesis
    by (simp add: target_store_def target_eval_simps begin_msg_simps empty_target_def empty_state_def begun_target_def begun_state_def sample_target_def
        clear_generation_def fresh_state_def has_prefix_def sample_serv_simps sample_tenv_def insert_hash_def scope_rows_def)
qed


definition sample_sender :: "((string \<times> Message) list, captureController) GRPCSender" where
  "sample_sender = \<lparr>sn_SourceID = ''one'', sn_Metrics = False, sn_Every = 0, sn_Controller = None\<rparr>"

definition first_hello :: Hello where
  "first_hello = \<lparr>hl_SyncerId = ''one'', hl_Generation = ''g1'', hl_EarliestSeq = 1, hl_ReadySeq = 1, hl_ProtocolVersion = ''v2'', hl_ReconcileSupported = False\<rparr>"

definition first_session :: session where
  "first_session = \<lparr>ss_Hello = first_hello, ss_Used = 0, ss_Generation = ''g1'', ss_Next = 1, ss_OpenBatch = False, ss_Phase = Serving\<rparr>"

definition site_at :: "(Message, statement_log, content_map) target \<Rightarrow> bool \<Rightarrow> (Message, statement_log, content_map) site" where
  "site_at t locked = \<lparr>st_Target = t, st_Audit = [], st_Locks = (if locked then {lease_key empty_target} else {})\<rparr>"

definition net_at ::
  "(string \<times> Message) list Store \<Rightarrow> bool \<Rightarrow> Hello option \<Rightarrow> (Message, statement_log, content_map) target \<Rightarrow> session option \<Rightarrow> Message CollectorFrame list \<Rightarrow> ServerFrame list \<Rightarrow>
   Message list \<Rightarrow> Message list \<Rightarrow> (Message, (string \<times> Message) list, captureController, statement_log, content_map) net" where
  "net_at q alive hello t sess up down hist stored =
     \<lparr>nt_Coll = \<lparr>co_Queue = q, co_Ctl = newCaptureController False, co_Active = '''', co_LastMetrics = None\<rparr>, nt_Alive = alive, nt_Dial = hello, nt_Site = site_at t (sess \<noteq> None),
      nt_Sess = sess, nt_Lease = (sess \<noteq> None), nt_Linked = (sess \<noteq> None), nt_Up = up, nt_Down = down, nt_Hist = (\<lambda>_. [])(''g1'' := hist), nt_Stored = stored\<rparr>"

definition first_ack :: wire_Ack where
  "first_ack = \<lparr>ak_Generation = ''g1'', ak_Seq = 1, ak_MessageId = m_ID begin_msg\<rparr>"

definition first_event :: "Message Event" where
  "first_event = \<lparr>ev_Seq = 1, ev_MessageId = m_ID begin_msg, ev_Json = begin_msg\<rparr>"

definition connected_service :: Service where
  "connected_service = (serving ''x'' 0 1 {})\<lparr>sv_Connected := {''one''}\<rparr>"

lemma first_opens: "Connect_open calm_sobs [''Bearer x''] (HelloFrame first_hello) (serving ''x'' 0 1 {}, site_at empty_target False) =
   ((connected_service, site_at empty_target True), Inr (first_session, [pull first_session]))"
proof -
  have a: "acquire ''one'' (serving ''x'' 0 1 {}) = (connected_service, Inr (0, ''x''))"
    by (simp add: acquire_def token_of_def connected_service_def)
  have b: "bearerMatches [''Bearer x''] ''x''" by code_simp
  show ?thesis
    by (simp add: Connect_open_def first_hello_def a [unfolded One_nat_def] b acquireLease_def guarded_def calm_sobs_def Progress_def site_at_def empty_target_def empty_state_def
      sample_target_def first_session_def Let_def)
qed

lemma first_serves: "serve_step sample_serv calm_sobs (EventFrame first_event) (connected_service, site_at empty_target True, first_session) =
  ((setSyncerError ''one'' '''' connected_service, site_at begun_target True, first_session\<lparr>ss_OpenBatch := True, ss_Next := 2\<rparr>),
   [AckFrame first_ack, pull (first_session\<lparr>ss_OpenBatch := True, ss_Next := 2\<rparr>)], Continue)"
  by (simp add: serve_step_def first_session_def serve_frame_def serve_event_def first_event_def first_hello_def sample_serv_simps begin_msg_simps site_at_def
    calm_sobs_def begin_stored [unfolded One_nat_def] Let_def batch_after_def retiring_def connected_service_def setSyncerError_def first_ack_def numeral_2_eq_2)

lemma first_pulled: "connect_step sample_env sample_sender ob (pull first_session) c = (c, [EventFrame first_event], None)" if "co_Queue c = queue_3"
  using that by (simp add: connect_step_def pull_def first_session_def on_pull_def Bounds_def queue_3_def queue_2_def queue_1_def begun_def earliest_def zero_State_def
    Get_def fetch_def sample_env_def first_event_def begin_msg_simps)


definition queue_4 :: "(string \<times> Message) list Store" where
  "queue_4 = projr (Ack sample_env sample_obs queue_3 1 (m_ID begin_msg))"

lemma queue_4_ok: "Ack sample_env sample_obs queue_3 1 (m_ID begin_msg) = Inr queue_4"
proof -
  have c: "m_CreatedAt begin_msg = dec 5" by (simp add: begin_msg_def stamp_def)
  show ?thesis
    by (simp add: queue_4_def Ack_def queue_3_def queue_2_def queue_1_def begun_def zero_State_def sample_env_def sample_obs_def Update_def evict.simps key_inject expired_def c
      sample_new_def Open_def guarded_def)
qed

lemma first_acked: "connect_step sample_env sample_sender \<lparr>cb_Obs = sample_obs, cb_Gather = Inr '''', cb_Now = 0\<rparr> (AckFrame first_ack) c = (c\<lparr>co_Queue := queue_4\<rparr>, [], None)" if "co_Queue c = queue_3"
proof -
  have "s_Generation (st queue_3) = ''g1''" "s_DeliveredSeq (st queue_3) = 0" by (simp_all add: queue_3_def queue_2_def begun_def zero_State_def)
  then show ?thesis using that queue_4_ok by (simp add: connect_step_def on_ack_def first_ack_def with_metrics_def sendMetrics_def sample_sender_def)
qed

lemma queue_st: "s_Generation (st queue_1) = ''g1''" "s_Generation (st queue_2) = ''g1''" "s_Generation (st queue_3) = ''g1''" "s_Generation (st sample_new) = ''''"
  by (simp_all add: queue_3_def queue_2_def queue_1_def begun_def sample_new_def Open_def Update_def guarded_def sample_obs_def zero_State_def)

lemma queue_2_staged: "staged sample_env queue_2 = [begin_msg]"
  by (simp add: staged_def queue_2_def begun_def zero_State_def msg_at_def fetch_def sample_env_def)

abbreviation sample_step :: "(Message, (string \<times> Message) list, captureController, statement_log, content_map) net \<Rightarrow> (Message, (string \<times> Message) list, captureController, statement_log, content_map) net \<Rightarrow> bool" where
  "sample_step \<equiv> net_step UNIV sample_env sample_serv (app_senders sample_env)"

abbreviation sample_run :: "(Message, (string \<times> Message) list, captureController, statement_log, content_map) net \<Rightarrow> bool" where
  "sample_run \<equiv> net_run UNIV sample_env sample_serv (app_senders sample_env) (net_at sample_new False None empty_target None [] [] [] [])"

lemma capture_at:
  assumes "qstep UNIV sample_env q oper q'" "\<And>n mid. oper \<noteq> QAck n mid" "s_Generation (st q') = ''g1''"
    and "oper = QReset \<and> hist = [] \<or> oper \<noteq> QReset \<and> s_Generation (st q) = ''g1''"
  shows "sample_step (net_at q a h t sess up down hist stored)
    (net_at q' a h t sess up down (hist @ (if oper = QPublish then staged sample_env q else [])) stored)"
proof -
  let ?N = "net_at q a h t sess up down hist stored"
  have q: "queue_of ?N = q" by (simp add: queue_of_def net_at_def)
  have "sample_step ?N (?N\<lparr>nt_Coll := (nt_Coll ?N)\<lparr>co_Queue := q'\<rparr>,
       nt_Hist := (nt_Hist ?N)(s_Generation (st q) := nt_Hist ?N (s_Generation (st q)) @ (if oper = QPublish then staged sample_env q else []))\<rparr>)"
    using net_step.capture [of UNIV sample_env ?N oper q' "s_Generation (st q)"] assms unfolding q by (auto simp: net_at_def)
  moreover have "nt_Hist ?N = (\<lambda>_. [])" if "hist = []" using that by (auto simp: net_at_def)
  ultimately show ?thesis using assms(3,4) by (auto simp: net_at_def fun_upd_idem)
qed

lemma room_1: "Suc (Suc 0) < seq_limit"
  by (simp add: seq_limit_def)

lemma run_published: "sample_run (net_at queue_3 False None empty_target None [] [] [begin_msg] [])"
proof -
  have a: "stamp (st queue_1) (format_time sample_env (ob_now sample_obs)) (kind_msg ''snapshot_begin'') = begin_msg"
    by (simp add: begin_msg_def queue_1_def sample_env_def sample_obs_def)
  have n: "s_NextSeq (st queue_1) = 0" by (simp add: queue_1_def begun_def zero_State_def)
  have "qstep UNIV sample_env queue_1 (QAppend begin_msg) queue_2" using qstep.append [OF queue_2_ok, of UNIV] room_1 by (simp add: a n)
  note 2 = capture_at [OF this]
  note 1 = capture_at [OF qstep.initialize [OF queue_1_ok]] and 3 = capture_at [OF qstep.publish [OF queue_3_ok]]
  have "sample_run (net_at queue_1 False None empty_target None [] [] [] [])" using net_run.step [OF net_run.start 1] by (simp add: queue_st)
  from net_run.step [OF this 2] have "sample_run (net_at queue_2 False None empty_target None [] [] [] [])" by (simp add: queue_st)
  from net_run.step [OF this 3] show ?thesis by (simp add: queue_st queue_2_staged)
qed

lemma sender_ok: "sample_sender \<in> app_senders sample_env"
  by (simp add: app_senders_def sample_sender_def)

lemma run_connected: "sample_run (net_at queue_3 True None empty_target (Some first_session) [] [pull first_session] [begin_msg] [])"
proof -
  have "connect_open sample_sender queue_3 = Inr (HelloFrame first_hello :: Message CollectorFrame)"
    by (simp add: connect_open_def Bounds_def first_hello_def sample_sender_def queue_3_def queue_2_def begun_def earliest_def zero_State_def)
  then have "sample_step (net_at queue_3 False None empty_target None [] [] [begin_msg] []) (net_at queue_3 True (Some first_hello) empty_target None [] [] [begin_msg] [])"
    using net_step.dial [of "net_at queue_3 False None empty_target None [] [] [begin_msg] []" sample_sender "app_senders sample_env" first_hello] sender_ok
    by (simp add: net_at_def queue_of_def)
  note d = net_run.step [OF run_published this]
  have "sample_step (net_at queue_3 True (Some first_hello) empty_target None [] [] [begin_msg] [])
      (net_at queue_3 True None empty_target (Some first_session) [] [pull first_session] [begin_msg] [])"
    using net_step.accept [of "net_at queue_3 True (Some first_hello) empty_target None [] [] [begin_msg] []" first_hello] first_opens
    by (simp add: net_at_def)
  from net_run.step [OF d this] show ?thesis .
qed

lemma run_stored:
  "sample_run (net_at queue_3 True None begun_target (Some (first_session\<lparr>ss_OpenBatch := True, ss_Next := 2\<rparr>)) []
     [AckFrame first_ack, pull (first_session\<lparr>ss_OpenBatch := True, ss_Next := 2\<rparr>)] [begin_msg] [begin_msg])"
proof -
  let ?N = "net_at queue_3 True None empty_target (Some first_session) [] [pull first_session] [begin_msg] []"
  let ?M = "net_at queue_3 True None empty_target (Some first_session) [EventFrame first_event] [] [begin_msg] []"
  have p: "connect_step sample_env sample_sender \<lparr>cb_Obs = sample_obs, cb_Gather = Inr '''', cb_Now = 0\<rparr> (pull first_session) (nt_Coll ?N) = (nt_Coll ?N, [EventFrame first_event], None)"
    by (rule first_pulled) (simp add: net_at_def)
  have "sample_step ?N ?M"
    using net_step.receive [where down = "[]" and W = UNIV and S = sample_serv, OF _ _ sender_ok p] by (simp add: net_at_def)
  note r = net_run.step [OF run_connected this]
  have c: "careful_frame sample_serv calm (EventFrame first_event)" by (simp add: careful_frame_def careful_def unbroken_def sample_serv_simps)
  have n: "newly sample_serv (EventFrame first_event) (site_at empty_target True) (site_at begun_target True) = [begin_msg]"
    by (simp add: newly_def progress_of_def site_at_def empty_target_def begun_target_def empty_state_def begun_state_def sample_target_def sample_serv_simps first_event_def)
  have v: "serve_step sample_serv calm_sobs (EventFrame first_event) (connected_service, nt_Site ?M, first_session) =
     ((setSyncerError ''one'' '''' connected_service, site_at begun_target True, first_session\<lparr>ss_OpenBatch := True, ss_Next := 2\<rparr>),
      [AckFrame first_ack, pull (first_session\<lparr>ss_OpenBatch := True, ss_Next := 2\<rparr>)], Continue)"
    using first_serves by (simp add: net_at_def)
  have "sample_step ?M (net_at queue_3 True None begun_target (Some (first_session\<lparr>ss_OpenBatch := True, ss_Next := 2\<rparr>)) []
     [AckFrame first_ack, pull (first_session\<lparr>ss_OpenBatch := True, ss_Next := 2\<rparr>)] [begin_msg] [begin_msg])"
    using net_step.serve [where N = ?M and up = "[]" and W = UNIV and E = sample_env and senders = "app_senders sample_env", OF _ _ v] c n by (simp add: net_at_def calm_sobs_def)
  from net_run.step [OF r this] show ?thesis .
qed

lemma run_acknowledged:
  "sample_run (net_at queue_4 True None begun_target (Some (first_session\<lparr>ss_OpenBatch := True, ss_Next := 2\<rparr>)) []
     [pull (first_session\<lparr>ss_OpenBatch := True, ss_Next := 2\<rparr>)] [begin_msg] [begin_msg])"
proof -
  let ?ss = "first_session\<lparr>ss_OpenBatch := True, ss_Next := 2\<rparr>"
  let ?N = "net_at queue_3 True None begun_target (Some ?ss) [] [AckFrame first_ack, pull ?ss] [begin_msg] [begin_msg]"
  have p: "connect_step sample_env sample_sender \<lparr>cb_Obs = sample_obs, cb_Gather = Inr '''', cb_Now = 0\<rparr> (AckFrame first_ack) (nt_Coll ?N) = ((nt_Coll ?N)\<lparr>co_Queue := queue_4\<rparr>, [], None)"
    by (rule first_acked) (simp add: net_at_def)
  have "sample_step ?N (net_at queue_4 True None begun_target (Some ?ss) [] [pull ?ss] [begin_msg] [begin_msg])"
    using net_step.receive [where down = "[pull ?ss]" and W = UNIV and S = sample_serv, OF _ _ sender_ok p] by (simp add: net_at_def)
  from net_run.step [OF run_stored this] show ?thesis .
qed

lemma net_at_init: "net_init UNIV sample_env sample_serv (net_at sample_new False None empty_target None [] [] [] [])"
proof -
  have "sound_target sample_serv empty_target"
    by (simp add: sound_target_def meta_inv_def tables_ok_def progress_ok_def hash_ok_def cache_ok_def empty_target_def empty_state_def sample_target_def inbox_ok_def rows_ok_def stage_ok_def)
  moreover have "s_ReadySeq (st sample_new) = 0" by (simp add: sample_new_def Open_def Update_def guarded_def sample_obs_def zero_State_def)
  ultimately show ?thesis using Open_new_inv [OF sample_bolt sample_new_ok]
    by (simp add: net_init_def net_at_def queue_of_def target_of_def site_at_def progress_of_def fun_eq_iff) (simp add: empty_target_def sample_target_def empty_state_def)
qed

theorem replication_end_to_end_witness:
  "\<exists>N. sample_run N \<and> nt_Stored N = [begin_msg] \<and> nt_Hist N ''g1'' = [begin_msg] \<and> 1 \<le> y_Received (progress_of (nt_Site N)) \<and>
     foldM (\<lambda>v m. spec_of sample_serv begun_target m v) (settled (view_of sample_serv empty_target)) [begin_msg] = Inr (settled (view_of sample_serv begun_target))"
proof -
  let ?N = "net_at queue_4 True None begun_target (Some (first_session\<lparr>ss_OpenBatch := True, ss_Next := 2\<rparr>)) []
     [pull (first_session\<lparr>ss_OpenBatch := True, ss_Next := 2\<rparr>)] [begin_msg] [begin_msg]"
  note e = replication_end_to_end [OF sample_bolt sample_codec sample_serv_ok net_at_init run_acknowledged]
  have t: "target_of ?N = begun_target" "target_of (net_at sample_new False None empty_target None [] [] [] []) = empty_target" "nt_Stored ?N = [begin_msg]"
    "nt_Hist ?N ''g1'' = [begin_msg]" by (simp_all add: target_of_def net_at_def site_at_def)
  have y: "y_Received (progress_of (nt_Site ?N)) = 1" by (simp add: progress_of_def net_at_def site_at_def begun_target_def begun_state_def)
  from e t y run_acknowledged show ?thesis by (intro exI [of _ ?N]) (simp add: Let_def)
qed

end
