(* ===== verification/FileWatch.thy ===== *)
theory FileWatch
  imports Config FileStore Queue_Refinement Target_Spec Target_Sample Sample
begin

text \<open>
  The collector of files, \<open>internal/filewatch/collector.go\<close>: a scan of the watched directory, the comparison with the manifest of the last
  scan, and the publication of every changed file as a group of messages.  What the code observes of the file system and the
  clock is explicit: the visits of \<open>filepath.WalkDir\<close>, the results of opening, reading and \<open>Stat\<close>.  Matching a name against a pattern and
  the hash function are parameters.
\<close>

section \<open>Manifests\<close>

record fileState =
  fl_Size :: int
  fl_ModTimeUnixNano :: int
  fl_Mode :: nat
  fl_SHA256 :: string

text \<open>A map from paths to states, in the order in which the code iterates over it.\<close>

type_synonym fileStates = "(string \<times> fileState) list"

section \<open>Scanning\<close>

text \<open>One visit of \<open>WalkDir\<close>: the error it passes, the state of the context, the result of \<open>Info\<close>, the path relative to
  the root, the results of \<open>watcher.Add\<close> and of hashing.\<close>

datatype file_kind = Symlink | Directory | Regular | OtherKind

record visit =
  vi_Walk :: "err option"
  vi_Ctx :: "err option"
  vi_Info :: "(file_kind \<times> fileState) res"
  vi_Full :: string
  vi_Rel :: "string res"
  vi_Add :: "err option"
  vi_Hash :: "string res"

definition matchAny :: "(string \<Rightarrow> string \<Rightarrow> bool) \<Rightarrow> string list \<Rightarrow> string \<Rightarrow> bool" where
  "matchAny glob patterns name = list_ex (\<lambda>p. glob p name) patterns"

definition matches :: "(string \<Rightarrow> string \<Rightarrow> bool) \<Rightarrow> FileWatch \<Rightarrow> string \<Rightarrow> bool" where
  "matches glob f name =
     (if fw_Include f \<noteq> [] \<and> \<not> matchAny glob (fw_Include f) name then False
      else \<not> matchAny glob (fw_Exclude f) name)"

text \<open>The callback: it extends the set of watched directories and the result.\<close>

definition scan_visit ::
  "(string \<Rightarrow> string \<Rightarrow> bool) \<Rightarrow> FileWatch \<Rightarrow> string set \<times> fileStates \<Rightarrow> visit \<Rightarrow> (string set \<times> fileStates) res" where
  "scan_visit glob f x v =
     (case x of (watched, result) \<Rightarrow>
      case vi_Walk v of Some e \<Rightarrow> Inl e | None \<Rightarrow>
      case vi_Ctx v of Some e \<Rightarrow> Inl e | None \<Rightarrow>
      case vi_Info v of Inl e \<Rightarrow> Inl e | Inr (kind, info) \<Rightarrow>
      if kind = Symlink then Inr (watched, result)
      else if kind = Directory then
        (if vi_Full v \<in> watched then Inr (watched, result)
         else case vi_Add v of Some e \<Rightarrow> Inl e | None \<Rightarrow> Inr (insert (vi_Full v) watched, result))
      else if kind \<noteq> Regular then Inr (watched, result)
      else (case vi_Rel v of
          Inl e \<Rightarrow> Inl e
        | Inr rel \<Rightarrow>
            if \<not> matches glob f rel then Inr (watched, result)
            else if fl_Size info > fw_MaxFileBytes f then Inl (Err (''file '' @ rel @ '' exceeds max_file_bytes''))
            else (case vi_Hash v of
                Inl e \<Rightarrow> Inl e
              | Inr digest \<Rightarrow> Inr (watched, AList.update rel (info\<lparr>fl_SHA256 := digest\<rparr>) result))))"

definition scan_root ::
  "(string \<Rightarrow> string \<Rightarrow> bool) \<Rightarrow> FileWatch \<Rightarrow> err option \<Rightarrow> visit list \<Rightarrow> string set \<Rightarrow> (string set \<times> fileStates) res" where
  "scan_root glob f root visits watched = guarded root (foldM (scan_visit glob f) (watched, []) visits)"

text \<open>\<open>Inspect\<close> walks over the same tree without hashing; what it counted before an error is returned with it.\<close>

record Inspection =
  in_RootDir :: string
  in_Files :: nat
  in_Bytes :: int

definition inspect_visit :: "visit \<Rightarrow> Inspection step" where
  "inspect_visit v result =
     (case vi_Walk v of Some e \<Rightarrow> (result, Some e) | None \<Rightarrow>
      case vi_Ctx v of Some e \<Rightarrow> (result, Some e) | None \<Rightarrow>
      case vi_Info v of Inl e \<Rightarrow> (result, Some e) | Inr (kind, info) \<Rightarrow>
      if kind \<noteq> Regular then (result, None)
      else (result\<lparr>in_Files := in_Files result + 1, in_Bytes := in_Bytes result + fl_Size info\<rparr>, None))"

definition Inspect :: "FileWatch \<Rightarrow> visit list \<Rightarrow> Inspection \<times> err option" where
  "Inspect f visits = each inspect_visit visits \<lparr>in_RootDir = fw_RootDir f, in_Files = 0, in_Bytes = 0\<rparr>"

text \<open>The loop of \<open>hashFile\<close>: \<open>read n\<close> is the result of the read number \<open>n\<close>, the bytes it delivered and whether it
  reported the end of the file or an error; \<open>ctx n\<close> is the state of the context before it.  The loop ends only if the reads come to an end.\<close>

partial_function (option) hash_loop :: "(nat \<Rightarrow> err option) \<Rightarrow> (nat \<Rightarrow> string \<times> read_end) \<Rightarrow> nat \<Rightarrow> string \<Rightarrow> string res option" where
  "hash_loop ctx read n written =
     (case ctx n of
        Some e \<Rightarrow> Some (Inl e)
      | None \<Rightarrow>
          (case read n of (bytes, status) \<Rightarrow>
            (case status of
               Eof \<Rightarrow> Some (Inr (written @ bytes))
             | ReadError e \<Rightarrow> Some (Inl e)
             | More \<Rightarrow> hash_loop ctx read (Suc n) (written @ bytes))))"

definition hashFile :: "(string \<Rightarrow> string) \<Rightarrow> err option \<Rightarrow> (nat \<Rightarrow> err option) \<Rightarrow> (nat \<Rightarrow> string \<times> read_end) \<Rightarrow> string res option" where
  "hashFile sha open_err ctx read =
     (case open_err of
        Some e \<Rightarrow> Some (Inl e)
      | None \<Rightarrow> map_option (\<lambda>r. case r of Inl e \<Rightarrow> Inl e | Inr bytes \<Rightarrow> Inr (hex_EncodeToString (sha bytes))) (hash_loop ctx read 0 []))"

section \<open>Publishing\<close>

text \<open>What the publication of one path observes: opening the root and the file, the state of the context and the result of
  \<open>io.ReadFull\<close> for each chunk, \<open>Stat\<close> at the end, the new identifier, the clock for the checkpoint, and the disk for each operation on the queue.\<close>

record fobs =
  fo_Root :: "err option"
  fo_Open :: "err option"
  fo_Ctx :: "nat \<Rightarrow> err option"
  fo_Read :: "nat \<Rightarrow> string \<times> err option"
  fo_Stat :: "(int \<times> int) res"
  fo_Uuid :: string
  fo_Now :: int
  fo_Queue :: "nat \<Rightarrow> obs"

definition checkpoint :: "int \<Rightarrow> string" where
  "checkpoint now = ''file:'' @ (if now < 0 then ''-'' else '''') @ dec (nat \<bar>now\<bar>)"

definition allows :: "FileWatch \<Rightarrow> string \<Rightarrow> bool" where
  "allows f operation \<longleftrightarrow> operation \<in> set (fw_Events f)"

definition file_message :: "string \<Rightarrow> string \<Rightarrow> FileChange \<Rightarrow> Message" where
  "file_message kind txn x = (kind_msg kind)\<lparr>m_Transaction := txn, m_File := Some x\<rparr>"

text \<open>\<open>errors.Join(err, c.q.Recover())\<close>.\<close>

definition give_up :: "('v, 'b, 'z) qenv_scheme \<Rightarrow> obs \<Rightarrow> err \<Rightarrow> 'b Store step" where
  "give_up E ob e s = (case Recover E ob s of Inl e' \<Rightarrow> (s, Some (Join e e')) | Inr s' \<Rightarrow> (s', Some e))"

definition chunk_count :: "FileWatch \<Rightarrow> int \<Rightarrow> nat" where
  "chunk_count f len = (let n = nat ((len + fw_ChunkBytes f - 1) div fw_ChunkBytes f mod 2 ^ 32) in if n = 0 then 1 else n)"

definition zero_FileChange :: FileChange where
  "zero_FileChange = \<lparr>f_Path = '''', f_Operation = '''', f_Size = 0, f_ModTimeUnixNano = 0, f_Mode = 0, f_SHA256 = '''', f_Chunk = 0, f_Chunks = 0, f_Data = ''''\<rparr>"

definition change_of :: "FileWatch \<Rightarrow> string \<Rightarrow> string \<Rightarrow> fileState \<Rightarrow> FileChange" where
  "change_of f name operation x =
     \<lparr>f_Path = name, f_Operation = operation, f_Size = fl_Size x, f_ModTimeUnixNano = fl_ModTimeUnixNano x, f_Mode = fl_Mode x, f_SHA256 = fl_SHA256 x,
      f_Chunk = 0, f_Chunks = chunk_count f (fl_Size x), f_Data = ''''\<rparr>"

definition chunk_of :: "FileChange \<Rightarrow> nat \<Rightarrow> string \<Rightarrow> FileChange" where
  "chunk_of change k bytes = change\<lparr>f_Chunk := k, f_Data := b64_encode b64_std True bytes\<rparr>"

text \<open>The loop over the chunks; operation number \<open>k + 1\<close> on the queue appends chunk \<open>k\<close>, and a recovery is the last operation.\<close>

fun chunk_loop ::
  "('v, 'b, 'z) qenv_scheme \<Rightarrow> fobs \<Rightarrow> FileChange \<Rightarrow> nat list \<Rightarrow> string \<Rightarrow> 'b Store \<Rightarrow> 'b Store \<times> string res" where
  "chunk_loop E fo change [] content s = (s, Inr content)"
| "chunk_loop E fo change (k # ks) content s =
     (case fo_Ctx fo k of Some e \<Rightarrow> (s, Inl e) | None \<Rightarrow>
      case fo_Read fo k of
        (bytes, Some e) \<Rightarrow> (s, Inl e)
      | (bytes, None) \<Rightarrow>
          (case Append E (fo_Queue fo (Suc k)) s (file_message ''file_chunk'' (fo_Uuid fo) (chunk_of change k bytes)) of
             Inl e \<Rightarrow> (s, Inl e)
           | Inr s' \<Rightarrow> chunk_loop E fo change ks (content @ bytes) s'))"

text \<open>The end of a publication, after all chunks were appended.\<close>

definition publish_end ::
  "('v, 'b, 'z) qenv_scheme \<Rightarrow> (string \<Rightarrow> string) \<Rightarrow> fobs \<Rightarrow> FileChange \<Rightarrow> fileState \<Rightarrow> 'b Store \<Rightarrow> string \<Rightarrow> 'b Store \<times> err option" where
  "publish_end E sha fo change x s2 content =
     (let n = f_Chunks change; fail = give_up E (fo_Queue fo (Suc (Suc (Suc n)))) in
      case fo_Stat fo of
        Inl e \<Rightarrow> fail (Join ErrFileChanged e) s2
      | Inr (len, time) \<Rightarrow>
          if len \<noteq> fl_Size x \<or> time \<noteq> fl_ModTimeUnixNano x \<or> hex_EncodeToString (sha content) \<noteq> fl_SHA256 x then fail ErrFileChanged s2
          else (case Append E (fo_Queue fo (Suc n)) s2 (file_message ''file_end'' (fo_Uuid fo) change) of
              Inl e \<Rightarrow> fail e s2
            | Inr s3 \<Rightarrow> (case Publish (fo_Queue fo (Suc (Suc n))) s3 (checkpoint (fo_Now fo)) False of
                Inl e \<Rightarrow> (s3, Some e)
              | Inr s4 \<Rightarrow> (s4, None))))"

definition publishFile ::
  "('v, 'b, 'z) qenv_scheme \<Rightarrow> (string \<Rightarrow> string) \<Rightarrow> fobs \<Rightarrow> FileWatch \<Rightarrow> string \<Rightarrow> string \<Rightarrow> fileState \<Rightarrow> 'b Store step" where
  "publishFile E sha fo f name operation x s =
     (let change = change_of f name operation x; n = f_Chunks change; fail = give_up E (fo_Queue fo (Suc (Suc (Suc n)))) in
      case Append E (fo_Queue fo 0) s (file_message ''file_begin'' (fo_Uuid fo) change) of Inl e \<Rightarrow> (s, Some e) | Inr s1 \<Rightarrow>
      case fo_Root fo of Some e \<Rightarrow> fail e s1 | None \<Rightarrow>
      case fo_Open fo of Some e \<Rightarrow> fail e s1 | None \<Rightarrow>
      case chunk_loop E fo change [0..<n] [] s1 of
        (s2, Inl e) \<Rightarrow> fail e s2
      | (s2, Inr content) \<Rightarrow> publish_end E sha fo change x s2 content)"

definition publishDelete :: "('v, 'b, 'z) qenv_scheme \<Rightarrow> fobs \<Rightarrow> string \<Rightarrow> 'b Store step" where
  "publishDelete E fo name s =
     (case Append E (fo_Queue fo 0) s (file_message ''file_delete'' '''' (zero_FileChange\<lparr>f_Path := name, f_Operation := ''delete''\<rparr>)) of
        Inl e \<Rightarrow> (s, Some e)
      | Inr s1 \<Rightarrow> (case Publish (fo_Queue fo 1) s1 (checkpoint (fo_Now fo)) False of Inl e \<Rightarrow> (s1, Some e) | Inr s2 \<Rightarrow> (s2, None)))"

definition changed_paths :: "fileStates \<Rightarrow> fileStates \<Rightarrow> string list" where
  "changed_paths old current = remdups_adj (sort (map fst current @ filter (\<lambda>n. map_of current n = None) (map fst old)))"

definition file_operation :: "fileStates \<Rightarrow> fileStates \<Rightarrow> string \<Rightarrow> string" where
  "file_operation old current name =
     (if map_of current name = None then ''delete'' else if map_of old name = None then ''create'' else ''update'')"

definition publish_path ::
  "('v, 'b, 'z) qenv_scheme \<Rightarrow> (string \<Rightarrow> string) \<Rightarrow> (string \<Rightarrow> fobs) \<Rightarrow> FileWatch \<Rightarrow> fileStates \<Rightarrow> fileStates \<Rightarrow> string \<Rightarrow> 'b Store step" where
  "publish_path E sha os f old current name s =
     (let before = map_of old name; after = map_of current name; operation = file_operation old current name in
      if after \<noteq> None \<and> before \<noteq> None \<and> before = after then (s, None)
      else if \<not> allows f operation then (s, None)
      else (case after of None \<Rightarrow> publishDelete E (os name) name s | Some x \<Rightarrow> publishFile E sha (os name) f name operation x s))"

definition publishChanges ::
  "('v, 'b, 'z) qenv_scheme \<Rightarrow> (string \<Rightarrow> string) \<Rightarrow> (string \<Rightarrow> fobs) \<Rightarrow> FileWatch \<Rightarrow> fileStates \<Rightarrow> fileStates \<Rightarrow> 'b Store step" where
  "publishChanges E sha os f old current = each (publish_path E sha os f old current) (changed_paths old current)"


section \<open>The manifest on disk\<close>

text \<open>The manifest file is the map that its JSON text denotes, or absent.  \<open>io\<close> are the failures of the single steps; the deferred removal of the temporary
  file finds it gone when the renaming succeeded.\<close>

definition saveManifest :: "bool \<Rightarrow> (string \<Rightarrow> err option) \<Rightarrow> fileStates \<Rightarrow> fileStates option step" where
  "saveManifest windows io files disk =
     (let removed = (\<lambda>d r. (d, joined r (io ''Remove temporary''))) in
      case io ''CreateTemp'' of Some e \<Rightarrow> (disk, Some e) | None \<Rightarrow>
      case io ''Chmod'' of Some e \<Rightarrow> removed disk (joined (Some e) (io ''Close'')) | None \<Rightarrow>
      case io ''Write'' of Some e \<Rightarrow> removed disk (joined (Some e) (io ''Close'')) | None \<Rightarrow>
      case io ''Sync'' of Some e \<Rightarrow> removed disk (joined (Some e) (io ''Close'')) | None \<Rightarrow>
      case io ''Close'' of Some e \<Rightarrow> removed disk (Some e) | None \<Rightarrow>
      case io ''Rename'' of None \<Rightarrow> (Some files, None) | Some e \<Rightarrow>
      if \<not> windows then removed disk (Some e)
      else (case io ''Remove'' of Some e \<Rightarrow> removed disk (Some e) | None \<Rightarrow>
        (case io ''Rename again'' of None \<Rightarrow> (Some files, None) | Some e \<Rightarrow> removed None (Some e))))"

definition loadManifest :: "err option \<Rightarrow> fileStates option \<Rightarrow> fileStates res" where
  "loadManifest io disk = (case disk of None \<Rightarrow> Inr [] | Some files \<Rightarrow> guarded io (Inr files))"

section \<open>The collector\<close>

record 'b fileCollector =
  fc_Queue :: "'b Store"
  fc_Known :: fileStates
  fc_Disk :: "fileStates option"
  fc_Watched :: "string set"

record scan_obs =
  sb_Root :: "err option"
  sb_Visits :: "visit list"
  sb_Files :: "string \<Rightarrow> fobs"
  sb_Disk :: "string \<Rightarrow> err option"

record wenv =
  we_Glob :: "string \<Rightarrow> string \<Rightarrow> bool"
  we_Sha :: "string \<Rightarrow> string"
  we_Windows :: bool

definition run_scan :: "('v, 'b, 'z) qenv_scheme \<Rightarrow> wenv \<Rightarrow> FileWatch \<Rightarrow> scan_obs \<Rightarrow> 'b fileCollector step" where
  "run_scan E we f ob c =
     (case scan_root (we_Glob we) f (sb_Root ob) (sb_Visits ob) (fc_Watched c) of
        Inl e \<Rightarrow> (c, Some e)
      | Inr (watched, current) \<Rightarrow>
          (case publishChanges E (we_Sha we) (sb_Files ob) f (fc_Known c) current (fc_Queue c) of
             (q, Some e) \<Rightarrow> (c\<lparr>fc_Queue := q, fc_Watched := watched\<rparr>, if errors_Is e ErrFileChanged then None else Some e)
           | (q, None) \<Rightarrow>
               (case saveManifest (we_Windows we) (sb_Disk ob) current (fc_Disk c) of
                  (disk, r) \<Rightarrow> (c\<lparr>fc_Queue := q, fc_Watched := watched, fc_Known := current, fc_Disk := disk\<rparr>, r))))"

text \<open>The beginning of \<open>Run\<close>: a capture that is not sealed starts a new generation with an empty snapshot.\<close>

definition start_generation :: "('v, 'b, 'z) qenv_scheme \<Rightarrow> (nat \<Rightarrow> obs) \<Rightarrow> string \<Rightarrow> string \<Rightarrow> string \<Rightarrow> string \<Rightarrow> 'b Store \<Rightarrow> 'b Store res" where
  "start_generation E ob source generation fingerprint cp s =
     (case Initialize E (ob 1) s (zero_State\<lparr>s_ProtocolVersion := ''v2'', s_SourceID := source, s_Generation := generation, s_Fingerprint := fingerprint\<rparr>) of Inl e \<Rightarrow> Inl e | Inr s1 \<Rightarrow>
      case Append E (ob 2) s1 (kind_msg ''snapshot_begin'') of Inl e \<Rightarrow> Inl e | Inr s2 \<Rightarrow>
      case Append E (ob 3) s2 (kind_msg ''snapshot_end'') of Inl e \<Rightarrow> Inl e | Inr s3 \<Rightarrow>
      Publish (ob 4) s3 cp True)"

definition Run_open ::
  "('v, 'b, 'z) qenv_scheme \<Rightarrow> (nat \<Rightarrow> obs) \<Rightarrow> string \<Rightarrow> string \<Rightarrow> string \<Rightarrow> string \<Rightarrow> err option \<Rightarrow> 'b Store \<Rightarrow> fileStates option \<Rightarrow> 'b fileCollector res" where
  "Run_open E ob source generation fingerprint cp io s disk =
     (case Recover E (ob 0) s of Inl e \<Rightarrow> Inl e | Inr s1 \<Rightarrow>
      case (if s_Phase (st s1) = '''' \<or> s_Phase (st s1) = ''snapshot'' then start_generation E ob source generation fingerprint cp s1 else Inr s1) of Inl e \<Rightarrow> Inl e | Inr s2 \<Rightarrow>
      case loadManifest io disk of Inl e \<Rightarrow> Inl e | Inr known \<Rightarrow> Inr \<lparr>fc_Queue = s2, fc_Known = known, fc_Disk = disk, fc_Watched = {}\<rparr>)"

text \<open>What wakes the loop: the end of the context, an error or the end of the watcher, an event, during whose delay the context may end, or the timer.\<close>

datatype wake = RunDone | WatcherError | WatcherStopped | FileEvent bool scan_obs | Ticked scan_obs

fun run_wakes :: "('v, 'b, 'z) qenv_scheme \<Rightarrow> wenv \<Rightarrow> FileWatch \<Rightarrow> wake list \<Rightarrow> 'b fileCollector \<Rightarrow> 'b fileCollector \<times> err option option" where
  "run_wakes E we f [] c = (c, None)"
| "run_wakes E we f (RunDone # ws) c = (c, Some None)"
| "run_wakes E we f (WatcherError # ws) c = run_wakes E we f ws c"
| "run_wakes E we f (WatcherStopped # ws) c = (c, Some (Some (Err ''filesystem watcher stopped'')))"
| "run_wakes E we f (FileEvent ended ob # ws) c =
     (if ended then (c, Some None)
      else (case run_scan E we f ob c of (c', Some e) \<Rightarrow> (c', Some (Some e)) | (c', None) \<Rightarrow> run_wakes E we f ws c'))"
| "run_wakes E we f (Ticked ob # ws) c =
     (case run_scan E we f ob c of (c', Some e) \<Rightarrow> (c', Some (Some e)) | (c', None) \<Rightarrow> run_wakes E we f ws c')"

definition Run_files :: "('v, 'b, 'z) qenv_scheme \<Rightarrow> wenv \<Rightarrow> FileWatch \<Rightarrow> scan_obs \<Rightarrow> wake list \<Rightarrow> 'b fileCollector \<Rightarrow> 'b fileCollector \<times> err option option" where
  "Run_files E we f first ws c = (case run_scan E we f first c of (c', Some e) \<Rightarrow> (c', Some (Some e)) | (c', None) \<Rightarrow> run_wakes E we f ws c')"


section \<open>Hashing\<close>

lemma hash_loop_step:
  "hash_loop ctx read n written = (case ctx n of Some e \<Rightarrow> Some (Inl e) | None \<Rightarrow>
     (case snd (read n) of Eof \<Rightarrow> Some (Inr (written @ fst (read n))) | ReadError e \<Rightarrow> Some (Inl e) | More \<Rightarrow> hash_loop ctx read (Suc n) (written @ fst (read n))))"
  by (subst hash_loop.simps) (cases "read n"; simp split: option.split read_end.split)

lemma hash_loop_reads:
  assumes "\<forall>i<k. ctx (n + i) = None \<and> snd (read (n + i)) = More"
  shows "hash_loop ctx read n written = hash_loop ctx read (n + k) (written @ concat (map (fst \<circ> read) [n..<n + k]))"
  using assms
proof (induction k arbitrary: n written)
  case (Suc k)
  have n: "ctx n = None" "snd (read n) = More" using Suc.prems by (auto dest: spec [of _ 0])
  have "\<forall>i<k. ctx (Suc n + i) = None \<and> snd (read (Suc n + i)) = More"
  proof (intro allI impI)
    fix i assume "i < k"
    then show "ctx (Suc n + i) = None \<and> snd (read (Suc n + i)) = More" using Suc.prems by (auto dest: spec [of _ "Suc i"])
  qed
  from Suc.IH [OF this, of "written @ fst (read n)"] show ?case
    by (subst hash_loop_step) (simp add: n upt_conv_Cons comp_def del: upt_Suc)
qed simp

text \<open>C22. Hashing a file ends: as soon as a read reports something other than more data, or the context ends, \<open>hashFile\<close> returns; and when the first such event is
  the end of the file it returns the hash of everything that was read.\<close>

theorem hashFile_terminates:
  assumes "\<forall>i<k. ctx i = None \<and> snd (read i) = More" "ctx k \<noteq> None \<or> snd (read k) \<noteq> More"
  shows "(\<exists>r. hashFile sha open_err ctx read = Some r) \<and>
    (open_err = None \<and> ctx k = None \<and> snd (read k) = Eof \<longrightarrow>
       hashFile sha open_err ctx read = Some (Inr (hex_EncodeToString (sha (concat (map (fst \<circ> read) [0..<Suc k]))))))"
proof -
  have "hash_loop ctx read 0 [] = hash_loop ctx read k (concat (map (fst \<circ> read) [0..<k]))"
    using hash_loop_reads [of k ctx 0 read "[]"] assms(1) by simp
  also have "\<dots> = (case ctx k of Some e \<Rightarrow> Some (Inl e) | None \<Rightarrow>
     (case snd (read k) of Eof \<Rightarrow> Some (Inr (concat (map (fst \<circ> read) [0..<Suc k]))) | ReadError e \<Rightarrow> Some (Inl e) | More \<Rightarrow> None))"
    using assms(2) by (subst hash_loop_step) (auto split: option.split read_end.split)
  finally show ?thesis using assms(2) unfolding hashFile_def by (auto split: option.split read_end.split)
qed

section \<open>Groups of messages\<close>

definition file_group :: "fobs \<Rightarrow> FileChange \<Rightarrow> Message list" where
  "file_group fo change = file_message ''file_begin'' (fo_Uuid fo) change #
     map (\<lambda>k. file_message ''file_chunk'' (fo_Uuid fo) (chunk_of change k (fst (fo_Read fo k)))) [0..<f_Chunks change] @ [file_message ''file_end'' (fo_Uuid fo) change]"

definition content_read :: "fobs \<Rightarrow> nat \<Rightarrow> string" where
  "content_read fo n = concat (map (fst \<circ> fo_Read fo) [0..<n])"

definition chunk_ops :: "fobs \<Rightarrow> FileChange \<Rightarrow> nat list \<Rightarrow> (obs \<times> Message) list" where
  "chunk_ops fo change ks = map (\<lambda>k. (fo_Queue fo (Suc k), file_message ''file_chunk'' (fo_Uuid fo) (chunk_of change k (fst (fo_Read fo k))))) ks"

lemma chunk_loop_ops:
  assumes "chunk_loop E fo change ks content s = (s', r)"
  shows "\<exists>ks'. foldM (\<lambda>s (ob, m). Append E ob s m) s (chunk_ops fo change ks') = Inr s' \<and> (\<exists>j. ks' = take j ks) \<and>
    (\<forall>c. r = Inr c \<longrightarrow> ks' = ks \<and> c = content @ concat (map (fst \<circ> fo_Read fo) ks))"
  using assms
proof (induction ks arbitrary: content s)
  case Nil
  then show ?case by (intro exI [of _ "[]"]) (auto simp: chunk_ops_def)
next
  case (Cons k ks)
  obtain bytes e where rd: "fo_Read fo k = (bytes, e)" by fastforce
  show ?case
  proof (cases "fo_Ctx fo k = None \<and> e = None \<and> (\<exists>s1. Append E (fo_Queue fo (Suc k)) s (file_message ''file_chunk'' (fo_Uuid fo) (chunk_of change k bytes)) = Inr s1)")
    case True
    then obtain s1 where s1: "Append E (fo_Queue fo (Suc k)) s (file_message ''file_chunk'' (fo_Uuid fo) (chunk_of change k bytes)) = Inr s1" by blast
    then have "chunk_loop E fo change ks (content @ bytes) s1 = (s', r)" using True Cons.prems rd by simp
    from Cons.IH [OF this] obtain ks' j where "foldM (\<lambda>s (ob, m). Append E ob s m) s1 (chunk_ops fo change ks') = Inr s'" "ks' = take j ks"
      "\<forall>c. r = Inr c \<longrightarrow> ks' = ks \<and> c = (content @ bytes) @ concat (map (fst \<circ> fo_Read fo) ks)" by blast
    then show ?thesis using s1 rd by (intro exI [of _ "k # ks'"] conjI exI [of _ "Suc j"]) (auto simp: chunk_ops_def comp_def)
  next
    case False
    then have "s' = s \<and> (\<exists>e. r = Inl e)" using Cons.prems rd by (auto split: option.splits sum.splits)
    then show ?thesis by (intro exI [of _ "[]"] conjI exI [of _ 0]) (auto simp: chunk_ops_def)
  qed
qed


lemma foldM_snoc: "foldM f s xs = Inr s' \<Longrightarrow> f s' x = Inr s2 \<Longrightarrow> foldM f s (xs @ [x]) = Inr s2"
  by (simp add: foldM_append)

lemma file_message_payload [simp]: "payload (file_message kind txn x) = file_message kind txn x"
  by (simp add: payload_def file_message_def kind_msg_def zero_Message_def)

text \<open>The states a publication goes through: a group of appended messages, which a recovery drops and a publication makes visible.\<close>

definition unpublished :: "Message set \<Rightarrow> ('v, 'b, 'z) qenv_scheme \<Rightarrow> nat \<Rightarrow> 'b Store \<Rightarrow> 'b Store \<Rightarrow> bool" where
  "unpublished W E n s s' \<longleftrightarrow> (\<exists>oms. length oms \<le> n \<and> (\<forall>(ob, m)\<in>set oms. encodable W m) \<and> foldM (\<lambda>s (ob, m). Append E ob s m) s oms = Inr s')"

lemma appended_NextSeq: "foldM (\<lambda>s (ob, m). Append E ob s m) s oms = Inr s' \<Longrightarrow> s_NextSeq (st s') = s_NextSeq (st s) + length oms"
proof (induction oms arbitrary: s)
  case (Cons om oms)
  then show ?case using Append_NextSeq by (cases om) (fastforce split: sum.splits)
qed simp

definition file_room :: "nat \<Rightarrow> 'b Store \<Rightarrow> bool" where
  "file_room n s \<longleftrightarrow> s_NextSeq (st s) + n + 1 < seq_limit"

lemma unpublished_room: "unpublished W E n s s' \<Longrightarrow> file_room n s \<Longrightarrow> seq_room s'"
  using appended_NextSeq by (fastforce simp: unpublished_def file_room_def seq_room_def)

lemma unpublished_keeps:
  assumes "sound_queue W E s" "unpublished W E n s s'" "seq_room s'"
  shows "sound_queue W E s' \<and> map payload (published E s') = map payload (published E s)"
  using assms qbox.app_all [of W E s] unfolding unpublished_def by blast

lemma give_up_keeps:
  assumes "sound_queue W E s" "unpublished W E n s s1" "seq_room s1" "give_up E ob e s1 = (s', r)"
  shows "sound_queue W E s' \<and> map payload (published E s') = map payload (published E s) \<and> r \<noteq> None"
proof (cases "Recover E ob s1")
  case (Inl e')
  then show ?thesis using assms unpublished_keeps [OF assms(1-3)] by (auto simp: give_up_def)
next
  case (Inr s2)
  then show ?thesis using assms unpublished_keeps [OF assms(1-3)] qbox.rcv_law [of W E s1 ob s2] by (auto simp: give_up_def)
qed

definition group_encodable :: "Message set \<Rightarrow> fobs \<Rightarrow> FileChange \<Rightarrow> bool" where
  "group_encodable W fo change \<longleftrightarrow> (\<forall>m\<in>set (file_group fo change). encodable W m)"

lemma chunks_encodable:
  assumes "group_encodable W fo change" "set ks \<subseteq> set [0..<f_Chunks change]"
  shows "\<forall>(ob, m)\<in>set (chunk_ops fo change ks). encodable W m"
  using assms by (auto simp: group_encodable_def file_group_def chunk_ops_def)

lemma give_up_fails: "give_up E ob e s = (s', r) \<Longrightarrow> r \<noteq> None"
  by (auto simp: give_up_def split: sum.splits)


lemma publish_end_cases:
  assumes "publish_end E sha fo change x s2 content = (s', r)"
  obtains (failed) ob e where "give_up E ob e s2 = (s', r)"
  | (appended) s3 where "Append E (fo_Queue fo (Suc (f_Chunks change))) s2 (file_message ''file_end'' (fo_Uuid fo) change) = Inr s3"
      "r \<noteq> None \<and> s' = s3 \<or> r = None \<and> published_by s3 s' \<and> hex_EncodeToString (sha content) = fl_SHA256 x"
proof (cases "\<exists>s3. Append E (fo_Queue fo (Suc (f_Chunks change))) s2 (file_message ''file_end'' (fo_Uuid fo) change) = Inr s3 \<and>
    fo_Stat fo = Inr (fl_Size x, fl_ModTimeUnixNano x) \<and> hex_EncodeToString (sha content) = fl_SHA256 x")
  case True
  then obtain s3 where s3: "Append E (fo_Queue fo (Suc (f_Chunks change))) s2 (file_message ''file_end'' (fo_Uuid fo) change) = Inr s3"
    "fo_Stat fo = Inr (fl_Size x, fl_ModTimeUnixNano x)" "hex_EncodeToString (sha content) = fl_SHA256 x" by blast
  then show ?thesis using assms by (intro appended [OF s3(1)]) (auto simp: publish_end_def Let_def published_by_def Publish_def split: sum.splits)
next
  case False
  note no = this
  show ?thesis
  proof (cases "fo_Stat fo")
    case (Inl e)
    then show ?thesis using assms by (intro failed) (simp add: publish_end_def Let_def)
  next
    case (Inr a)
    note stat = this
    show ?thesis
    proof (cases "a = (fl_Size x, fl_ModTimeUnixNano x) \<and> hex_EncodeToString (sha content) = fl_SHA256 x")
      case True
      then obtain e where "Append E (fo_Queue fo (Suc (f_Chunks change))) s2 (file_message ''file_end'' (fo_Uuid fo) change) = Inl e"
        using no stat by (cases "Append E (fo_Queue fo (Suc (f_Chunks change))) s2 (file_message ''file_end'' (fo_Uuid fo) change)") auto
      then show ?thesis using assms stat True by (intro failed) (simp add: publish_end_def Let_def)
    next
      case False
      then show ?thesis using assms stat by (intro failed) (cases a; auto simp: publish_end_def Let_def)
    qed
  qed
qed

lemma publish_file_cases:
  assumes run: "publishFile E sha fo f name operation x s = (s', r)" and W: "group_encodable W fo (change_of f name operation x)"
  obtains (failed) s1 where "unpublished W E (chunk_count f (fl_Size x) + 2) s s1" "s' = s1 \<or> (\<exists>ob e. give_up E ob e s1 = (s', r))" "r \<noteq> None"
  | (published) oms s1 where "map snd oms = file_group fo (change_of f name operation x)" "foldM (\<lambda>s (ob, m). Append E ob s m) s oms = Inr s1" "published_by s1 s'" "r = None"
      "hex_EncodeToString (sha (content_read fo (chunk_count f (fl_Size x)))) = fl_SHA256 x"
proof -
  let ?c = "change_of f name operation x" let ?n = "chunk_count f (fl_Size x)" and ?app = "\<lambda>s (ob, m). Append E ob s m"
  let ?b = "(fo_Queue fo 0, file_message ''file_begin'' (fo_Uuid fo) ?c)" and ?e = "(fo_Queue fo (Suc ?n), file_message ''file_end'' (fo_Uuid fo) ?c)"
  have n: "f_Chunks ?c = ?n" by (simp add: change_of_def)
  have ends: "encodable W (snd ?b)" "encodable W (snd ?e)" using W by (auto simp: group_encodable_def file_group_def)
  have up: "unpublished W E (?n + 2) s t" if "foldM ?app s oms = Inr t" "\<forall>(ob, m)\<in>set oms. encodable W m" "length oms \<le> ?n + 2" for oms t using that unfolding unpublished_def by blast
  show ?thesis
  proof (cases "Append E (fo_Queue fo 0) s (snd ?b)")
    case (Inl e)
    then show ?thesis using run up [of "[]" s] by (intro failed [of s]) (auto simp: publishFile_def Let_def)
  next
    case (Inr s1)
    obtain s2 y where loop: "chunk_loop E fo ?c [0..<?n] [] s1 = (s2, y)" by fastforce
    obtain ks j where ks: "foldM ?app s1 (chunk_ops fo ?c ks) = Inr s2" "ks = take j [0..<?n]" "\<forall>c. y = Inr c \<longrightarrow> ks = [0..<?n] \<and> c = content_read fo ?n"
      using chunk_loop_ops [OF loop] unfolding content_read_def append_Nil by blast
    have f1: "foldM ?app s [?b] = Inr s1" and f2: "foldM ?app s (?b # chunk_ops fo ?c ks) = Inr s2" using Inr ks(1) by simp_all
    have e2: "\<forall>(ob, m)\<in>set (?b # chunk_ops fo ?c ks). encodable W m" using chunks_encodable [OF W, of ks] ks(2) ends(1) n set_take_subset [of j "[0..<?n]"] by auto
    have len: "length (?b # chunk_ops fo ?c ks) \<le> Suc ?n" using ks(2) by (simp add: chunk_ops_def)
    have after: "\<exists>t\<in>{s1, s2}. \<exists>ob e. give_up E ob e t = (s', r)" if "\<not> (\<exists>c. fo_Root fo = None \<and> fo_Open fo = None \<and> y = Inr c)"
    proof (cases "fo_Root fo = None \<and> fo_Open fo = None")
      case True
      then show ?thesis using run Inr that loop n by (cases y) (auto simp: publishFile_def Let_def)
    next
      case False
      then show ?thesis using run Inr by (cases "fo_Root fo") (auto simp: publishFile_def Let_def)
    qed
    show ?thesis
    proof (cases "\<exists>c. fo_Root fo = None \<and> fo_Open fo = None \<and> y = Inr c")
      case False
      then obtain t ob e where t: "t \<in> {s1, s2}" "give_up E ob e t = (s', r)" using after by blast
      then have "unpublished W E (?n + 2) s t" using up [OF f1] up [OF f2 e2] ends(1) len by auto
      then show ?thesis using t(2) give_up_fails [OF t(2)] by (intro failed) blast+
    next
      case True
      then obtain c where c: "y = Inr c" "ks = [0..<?n]" "c = content_read fo ?n" using ks(3) by blast
      have "publish_end E sha fo ?c x s2 c = (s', r)" using run Inr True c loop n by (auto simp: publishFile_def Let_def)
      then show ?thesis
      proof (cases rule: publish_end_cases)
        case (failed ob e)
        then show ?thesis using up [OF f2 e2] len give_up_fails [OF failed] by (intro that(1) [of s2]) auto
      next
        case (appended s3)
        have f3: "foldM ?app s ((?b # chunk_ops fo ?c ks) @ [?e]) = Inr s3" by (rule foldM_snoc [OF f2]) (simp add: appended(1) n [symmetric])
        have u3: "unpublished W E (?n + 2) s s3" using up [OF f3] e2 ends(2) len by auto
        have "map snd ((?b # chunk_ops fo ?c ks) @ [?e]) = file_group fo ?c" using c(2) n by (simp add: file_group_def chunk_ops_def comp_def)
        then show ?thesis using appended(2) that(1) [OF u3] that(2) [OF _ f3] c(3) by auto
      qed
    qed
  qed
qed


section \<open>What the server makes of a group\<close>

lemma payload_parts: "payload m = payload m' \<Longrightarrow> m_Kind m = m_Kind m' \<and> m_Transaction m = m_Transaction m' \<and> m_File m = m_File m'"
  by (cases m; cases m') (simp add: payload_def)

lemma payload_file_message: "payload m = file_message kind txn x \<Longrightarrow> m_Kind m = kind \<and> m_Transaction m = txn \<and> m_File m = Some x"
  using payload_parts [of m "file_message kind txn x", unfolded file_message_payload] by (simp add: file_message_def kind_msg_def)

lemma assemble_chunks:
  assumes "map payload hs = map (\<lambda>k. file_message ''file_chunk'' txn (chunk_of change k (rd k))) [a..<b]" "payload fin = file_message ''file_end'' txn change"
    and "b \<le> f_Chunks change" "int (length (content @ concat (map rd [a..<b]))) \<le> fs_MaxFileBytes (sy_FileStorage cfg)"
  shows "foldM (assemble_chunk cfg fin change) (True, a, content) hs = Inr (True, max a b, content @ concat (map rd [a..<b]))"
  using assms(1,4)
proof (induction hs arbitrary: a content)
  case Nil
  then show ?case by (auto simp: max_def)
next
  case (Cons h hs)
  have ab: "a < b" using Cons.prems(1) by (cases "a < b") auto
  then have h: "payload h = file_message ''file_chunk'' txn (chunk_of change a (rd a))"
    and hs: "map payload hs = map (\<lambda>k. file_message ''file_chunk'' txn (chunk_of change k (rd k))) [Suc a..<b]"
    using Cons.prems(1) by (simp_all add: upt_conv_Cons)
  note m = payload_file_message [OF h] and f = payload_file_message [OF assms(2)]
  have len: "int (length ((content @ rd a) @ concat (map rd [Suc a..<b]))) \<le> fs_MaxFileBytes (sy_FileStorage cfg)"
    using Cons.prems(2) ab by (simp add: upt_conv_Cons)
  then have "int (length (rd a)) + int (length content) \<le> fs_MaxFileBytes (sy_FileStorage cfg)" by simp
  then have "assemble_chunk cfg fin change (True, a, content) h = Inr (True, Suc a, content @ rd a)"
    using m f ab assms(3) b64_roundtrip [OF b64_std_alphabet, of True "rd a"] by (simp add: assemble_chunk_def same_file_def chunk_of_def)
  then show ?case using Cons.IH [OF hs len] ab by (simp add: upt_conv_Cons max_def)
qed

lemma group_assembles:
  assumes "map payload (hs @ [fin]) = file_group fo change" "hex_EncodeToString (te_digest T (content_read fo (f_Chunks change))) = f_SHA256 change"
    and "int (length (content_read fo (f_Chunks change))) = f_Size change" "f_Size change \<le> fs_MaxFileBytes (sy_FileStorage cfg)"
  shows "file_content T cfg fin change hs = Some (content_read fo (f_Chunks change))"
proof -
  let ?n = "f_Chunks change"
  obtain h hs' where hs: "hs = h # hs'" using assms(1) by (cases hs) (auto simp: file_group_def)
  have h: "payload h = file_message ''file_begin'' (fo_Uuid fo) change" and fin: "payload fin = file_message ''file_end'' (fo_Uuid fo) change"
    and chunks: "map payload hs' = map (\<lambda>k. file_message ''file_chunk'' (fo_Uuid fo) (chunk_of change k (fst (fo_Read fo k)))) [0..<?n]"
    using assms(1) by (auto simp: file_group_def hs)
  have "assemble_chunk cfg fin change (False, 0, []) h = Inr (True, 0, [])"
    using payload_file_message [OF h] payload_file_message [OF fin] by (simp add: assemble_chunk_def same_file_def)
  moreover have "foldM (assemble_chunk cfg fin change) (True, 0, []) hs' = Inr (True, ?n, content_read fo ?n)"
    using assemble_chunks [OF chunks fin order_refl, of "[]" cfg] assms(3,4) by (simp add: content_read_def comp_def)
  ultimately show ?thesis using assms(2,3) by (simp add: file_content_def hs)
qed



section \<open>A whole scan\<close>

text \<open>What the publication of one path of a scan adds to the queue.\<close>

definition delete_msg :: "string \<Rightarrow> Message" where
  "delete_msg name = file_message ''file_delete'' '''' (zero_FileChange\<lparr>f_Path := name, f_Operation := ''delete''\<rparr>)"

definition path_group :: "(string \<Rightarrow> fobs) \<Rightarrow> FileWatch \<Rightarrow> fileStates \<Rightarrow> fileStates \<Rightarrow> string \<Rightarrow> Message list" where
  "path_group os f old current name =
     (if map_of old name = map_of current name \<or> \<not> allows f (file_operation old current name) then []
      else case map_of current name of None \<Rightarrow> [delete_msg name] | Some x \<Rightarrow> file_group (os name) (change_of f name (file_operation old current name) x))"

definition ready :: "Message set \<Rightarrow> ('v, 'b, 'z) qenv_scheme \<Rightarrow> nat \<Rightarrow> 'b Store \<Rightarrow> bool" where
  "ready W E n s \<longleftrightarrow> sound_queue W E s \<and> staged E s = [] \<and> file_room n s"

definition adds :: "('v, 'b, 'z) qenv_scheme \<Rightarrow> 'b Store \<Rightarrow> Message list \<Rightarrow> 'b Store \<Rightarrow> bool" where
  "adds E s ms s' \<longleftrightarrow> map payload (published E s') = map payload (published E s) @ ms"

lemma adds_simps: "adds E s [] s" "adds E s ms s1 \<Longrightarrow> adds E s1 ns s2 \<Longrightarrow> adds E s (ms @ ns) s2"
  by (simp_all add: adds_def)

lemma published_by_NextSeq: "published_by s s' \<Longrightarrow> s_NextSeq (st s') = s_NextSeq (st s)"
  by (auto simp: published_by_def Publish_def PublishSource_def PublishSchema_def Update_def split: option.splits if_splits)

lemma group_published:
  assumes "ready W E (n + length oms) s" "\<forall>(ob, m)\<in>set oms. encodable W m" "foldM (\<lambda>s (ob, m). Append E ob s m) s oms = Inr s1" "published_by s1 s'"
  shows "ready W E n s' \<and> adds E s (map (payload \<circ> snd) oms) s'"
proof -
  have "seq_room s1" using assms(1) appended_NextSeq [OF assms(3)] by (simp add: ready_def file_room_def seq_room_def)
  from qbox.all_published [OF _ assms(2,3) this assms(4)] show ?thesis
    using assms(1) appended_NextSeq [OF assms(3)] published_by_NextSeq [OF assms(4)] by (simp add: ready_def adds_def file_room_def)
qed

lemma file_group_payload: "map payload (file_group fo change) = file_group fo change"
  by (simp add: file_group_def comp_def)

lemma file_group_length: "length (file_group fo (change_of f name operation x)) = chunk_count f (fl_Size x) + 2"
  by (simp add: file_group_def change_of_def)

lemma publish_file_adds:
  assumes "publishFile E sha fo f name operation x s = (s', r)" "\<forall>m\<in>set (file_group fo (change_of f name operation x)). encodable W m"
    and "ready W E (n + length (file_group fo (change_of f name operation x))) s"
  shows "if r = None then ready W E n s' \<and> adds E s (file_group fo (change_of f name operation x)) s' else adds E s [] s'"
  using assms(1) assms(2) [folded group_encodable_def]
proof (cases rule: publish_file_cases)
  case (failed s1)
  have s: "sound_queue W E s" "seq_room s1" using assms(3) unpublished_room [OF failed(1)] by (simp_all add: ready_def file_room_def file_group_length)
  then have "adds E s [] s'" using failed(2,3) unpublished_keeps [OF s(1) failed(1) s(2)] give_up_keeps [OF s(1) failed(1) s(2)] by (auto simp: adds_def)
  then show ?thesis using failed(3) by auto
next
  case (published oms s1)
  have enc: "\<forall>(ob, m)\<in>set oms. encodable W m" using assms(2) published(1) by (metis case_prodI2 image_eqI list.set_map snd_conv)
  have pay: "map (payload \<circ> snd) oms = file_group fo (change_of f name operation x)" "length oms = length (file_group fo (change_of f name operation x))"
    using file_group_payload published(1) by (metis map_map, metis length_map)
  from group_published [OF assms(3) [folded pay(2)] enc published(2,3)] show ?thesis using pay(1) published(4) by simp
qed

lemma publish_delete_adds:
  assumes "publishDelete E fo name s = (s', r)" "encodable W (delete_msg name)" "ready W E (Suc n) s"
  shows "if r = None then ready W E n s' \<and> adds E s [delete_msg name] s' else adds E s [] s'"
proof (cases "Append E (fo_Queue fo 0) s (delete_msg name)")
  case (Inl e)
  then show ?thesis using assms(1) by (auto simp: publishDelete_def delete_msg_def adds_simps)
next
  case (Inr s1)
  let ?oms = "[(fo_Queue fo 0, delete_msg name)]"
  have f: "foldM (\<lambda>s (ob, m). Append E ob s m) s ?oms = Inr s1" using Inr by simp
  show ?thesis
  proof (cases "Publish (fo_Queue fo 1) s1 (checkpoint (fo_Now fo)) False")
    case (Inl e)
    have "unpublished W E 1 s s1" unfolding unpublished_def using f assms(2) by (intro exI [of _ ?oms]) simp
    moreover have "seq_room s1" using assms(3) appended_NextSeq [OF f] by (simp add: ready_def file_room_def seq_room_def)
    ultimately have "adds E s [] s1" using unpublished_keeps assms(3) by (fastforce simp: ready_def adds_def)
    then show ?thesis using assms(1) Inr Inl by (auto simp: publishDelete_def delete_msg_def)
  next
    case (Inr s2)
    have "published_by s1 s2" using Inr by (auto simp: published_by_def Publish_def)
    from group_published [of W E n ?oms, OF _ _ f this] assms(2,3) have "ready W E n s2 \<and> adds E s [delete_msg name] s2" by (simp add: delete_msg_def)
    then show ?thesis using assms(1) Inr \<open>Append E _ s _ = Inr s1\<close> by (auto simp: publishDelete_def delete_msg_def)
  qed
qed

lemma publish_path_adds:
  assumes "publish_path E sha os f old current name s = (s', r)" "\<forall>m\<in>set (path_group os f old current name). encodable W m"
    and "ready W E (n + length (path_group os f old current name)) s" "name \<in> dom (map_of old) \<union> dom (map_of current)"
  shows "if r = None then ready W E n s' \<and> adds E s (path_group os f old current name) s' else adds E s [] s'"
proof (cases "map_of old name = map_of current name \<or> \<not> allows f (file_operation old current name)")
  case True
  moreover have "s' = s \<and> r = None" using assms(1) assms(4) True unfolding publish_path_def Let_def by (auto split: if_splits)
  ultimately show ?thesis using assms(3) by (simp add: path_group_def adds_simps)
next
  case False
  show ?thesis
  proof (cases "map_of current name")
    case None
    then have "publishDelete E (os name) name s = (s', r)" "path_group os f old current name = [delete_msg name]"
      using assms(1) False by (auto simp: publish_path_def path_group_def Let_def)
    then show ?thesis using publish_delete_adds [of E "os name" name s s' r W n] assms(2,3) by simp
  next
    case (Some x)
    let ?g = "file_group (os name) (change_of f name (file_operation old current name) x)"
    have "publishFile E sha (os name) f name (file_operation old current name) x s = (s', r)" "path_group os f old current name = ?g"
      using assms(1) False Some by (auto simp: publish_path_def path_group_def Let_def)
    then show ?thesis using publish_file_adds [of E sha "os name" f name "file_operation old current name" x s s' r W n] assms(2,3) by simp
  qed
qed

lemma publish_paths_add:
  assumes "each (publish_path E sha os f old current) names s = (s', r)" "\<forall>m\<in>set (concat (map (path_group os f old current) names)). encodable W m"
    and "ready W E (n + length (concat (map (path_group os f old current) names))) s" "set names \<subseteq> dom (map_of old) \<union> dom (map_of current)"
  shows "\<exists>j\<le>length names. adds E s (concat (map (path_group os f old current) (take j names))) s' \<and> (r = None \<longrightarrow> j = length names \<and> ready W E n s')"
  using assms
proof (induction names arbitrary: s)
  case Nil
  then show ?case by (simp add: adds_simps)
next
  case (Cons a names)
  obtain s1 r1 where one: "publish_path E sha os f old current a s = (s1, r1)" by fastforce
  have first: "if r1 = None then ready W E (n + length (concat (map (path_group os f old current) names))) s1 \<and> adds E s (path_group os f old current a) s1 else adds E s [] s1"
    by (rule publish_path_adds [OF one]) (use Cons.prems(2-4) in \<open>simp_all add: ac_simps\<close>)
  show ?case
  proof (cases r1)
    case None
    then have "each (publish_path E sha os f old current) names s1 = (s', r)" using Cons.prems(1) one by simp
    from Cons.IH [OF this] first None Cons.prems(2,4) obtain j where "j \<le> length names" "adds E s1 (concat (map (path_group os f old current) (take j names))) s'"
      "r = None \<longrightarrow> j = length names \<and> ready W E n s'" by auto
    then show ?thesis using first None adds_simps(2) [of E s "path_group os f old current a" s1] by (intro exI [of _ "Suc j"]) auto
  next
    case (Some e)
    then show ?thesis using Cons.prems(1) one first by (intro exI [of _ 0]) auto
  qed
qed


text \<open>What a sequence of file messages makes of a tree of files: a complete group sets the state of its path, a deletion removes it.\<close>

definition state_of :: "FileChange \<Rightarrow> fileState" where
  "state_of x = \<lparr>fl_Size = f_Size x, fl_ModTimeUnixNano = f_ModTimeUnixNano x, fl_Mode = f_Mode x, fl_SHA256 = f_SHA256 x\<rparr>"

definition replay_file :: "(string \<rightharpoonup> fileState) \<Rightarrow> Message \<Rightarrow> (string \<rightharpoonup> fileState)" where
  "replay_file tree m = (case m_File m of None \<Rightarrow> tree | Some x \<Rightarrow>
     if m_Kind m = ''file_end'' then tree(f_Path x \<mapsto> state_of x) else if m_Kind m = ''file_delete'' then tree(f_Path x := None) else tree)"

lemma replay_chunks: "fold (\<lambda>m tree. replay_file tree m) (map (\<lambda>k. file_message ''file_chunk'' txn (c k)) ks) tree = tree"
  by (induction ks) (simp_all add: replay_file_def file_message_def kind_msg_def)

lemma replay_group: "fold (\<lambda>m tree. replay_file tree m) (file_group fo (change_of f name operation x)) tree = tree(name \<mapsto> x)"
proof -
  let ?c = "change_of f name operation x"
  have begins: "replay_file tree (file_message ''file_begin'' (fo_Uuid fo) ?c) = tree" by (simp add: replay_file_def file_message_def kind_msg_def)
  have "replay_file tree (file_message ''file_end'' (fo_Uuid fo) ?c) = tree(name \<mapsto> x)" by (cases x) (simp add: replay_file_def file_message_def kind_msg_def state_of_def change_of_def)
  then show ?thesis by (simp add: file_group_def begins replay_chunks)
qed

lemma replay_delete: "replay_file tree (delete_msg name) = tree(name := None)"
  by (simp add: replay_file_def delete_msg_def file_message_def kind_msg_def)

lemma replay_path:
  assumes "allows f (file_operation old current name)"
  shows "fold (\<lambda>m tree. replay_file tree m) (path_group os f old current name) tree =
    (if map_of old name = map_of current name then tree else tree(name := map_of current name))"
  using assms by (auto simp: path_group_def replay_group replay_delete split: option.split)

lemma replay_paths:
  assumes "\<forall>name\<in>set names. allows f (file_operation old current name)"
  shows "fold (\<lambda>m tree. replay_file tree m) (concat (map (path_group os f old current) names)) tree n =
    (if n \<in> set names \<and> map_of old n \<noteq> map_of current n then map_of current n else tree n)"
  using assms by (induction names arbitrary: tree) (auto simp: replay_path)

lemma changed_paths_set: "set (changed_paths old current) = dom (map_of old) \<union> dom (map_of current)"
  by (auto simp: changed_paths_def dom_map_of_conv_image_fst map_of_eq_None_iff image_iff)

lemma distinct_remdups_adj: "sorted xs \<Longrightarrow> distinct (remdups_adj xs)"
  by (induction xs rule: remdups_adj.induct) auto

lemma changed_paths_sorted: "sorted (changed_paths old current) \<and> distinct (changed_paths old current)"
  by (simp add: changed_paths_def distinct_remdups_adj)



section \<open>Instances\<close>

definition sample_watch :: FileWatch where
  "sample_watch = \<lparr>fw_RootDir = ''/data'', fw_ScanInterval = ''5s'', fw_Include = [], fw_Exclude = [], fw_Events = [''create'', ''update'', ''delete''],
     fw_MaxFileBytes = 100, fw_ChunkBytes = 4\<rparr>"

definition sample_file :: fileState where
  "sample_file = \<lparr>fl_Size = 2, fl_ModTimeUnixNano = 7, fl_Mode = 420, fl_SHA256 = hex_EncodeToString ''hi''\<rparr>"

text \<open>A file with two bytes, which was last changed at the given time when its chunks had been read.\<close>

definition sample_fobs :: "int \<Rightarrow> fobs" where
  "sample_fobs time = \<lparr>fo_Root = None, fo_Open = None, fo_Ctx = (\<lambda>_. None), fo_Read = (\<lambda>_. (''hi'', None)), fo_Stat = Inr (2, time), fo_Uuid = ''u1'',
     fo_Now = 7, fo_Queue = (\<lambda>_. sample_obs)\<rparr>"

definition sample_wenv :: wenv where
  "sample_wenv = \<lparr>we_Glob = (\<lambda>_ _. True), we_Sha = (\<lambda>s. s), we_Windows = False\<rparr>"

lemmas sample_watch_defs = sample_watch_def sample_file_def sample_fobs_def sample_wenv_def

definition one_published :: "(string \<times> Message) list Store" where
  "one_published = fst (publishFile sample_env (\<lambda>s. s) (sample_fobs 7) sample_watch ''a'' ''create'' sample_file sample_store)"


lemma file_append:
  assumes "reserve s = 10" "s_Bytes (st s) + 100 \<le> maxBytes s"
  shows "Append sample_env sample_obs s (file_message kind txn x) =
    Inr (s\<lparr>items := AList.update (key (Suc (s_NextSeq (st s)))) (stamp (st s) (dec 5) (file_message kind txn x)) (items s),
           st := (st s)\<lparr>s_NextSeq := Suc (s_NextSeq (st s)), s_Bytes := s_Bytes (st s) + 100\<rparr>\<rparr>)"
  using assms by (simp add: Append_def Update_def Let_def sample_env_def sample_obs_def file_message_def kind_msg_def zero_Message_def stamp_def)

lemma sample_ready: "ready UNIV sample_env 50 sample_store"
proof -
  have "staged sample_env sample_store = []" "file_room 50 sample_store" by (simp_all add: staged_def file_room_def sample_store_def zero_State_def seq_limit_def)
  then show ?thesis by (simp add: ready_def sound_queue_def sample_bolt sample_codec sample_store_inv)
qed

lemma all_encodable: "encodable UNIV m"
  by (simp add: encodable_def)

lemma sample_fobs_simps [simp]:
  "fo_Root (sample_fobs t) = None" "fo_Open (sample_fobs t) = None" "fo_Ctx (sample_fobs t) k = None" "fo_Read (sample_fobs t) k = (''hi'', None)"
  "fo_Stat (sample_fobs t) = Inr (2, t)" "fo_Queue (sample_fobs t) k = sample_obs"
  by (simp_all add: sample_fobs_def)

lemma sample_file_simps: "fl_Size sample_file = 2" "fl_ModTimeUnixNano sample_file = 7" "fl_SHA256 sample_file = hex_EncodeToString ''hi''"
  by (simp_all add: sample_file_def)

lemma sample_chunks: "chunk_count sample_watch 2 = 1"
  by (simp add: chunk_count_def sample_watch_defs)

lemmas sample_eval = publishFile_def Let_def change_of_def sample_file_simps sample_chunks publish_end_def file_append Publish_def PublishSource_def Update_def

lemma one_published: "publishFile sample_env (\<lambda>s. s) (sample_fobs 7) sample_watch ''a'' ''create'' sample_file sample_store = (one_published, None)"
proof -
  have "snd (publishFile sample_env (\<lambda>s. s) (sample_fobs 7) sample_watch ''a'' ''create'' sample_file sample_store) = None"
    by (simp add: sample_eval sample_store_def zero_State_def sample_obs_def [THEN arg_cong, of ob_commit])
  then show ?thesis by (metis one_published_def prod.collapse)
qed


lemma one_published_adds: "ready UNIV sample_env 47 one_published \<and>
    adds sample_env sample_store (file_group (sample_fobs 7) (change_of sample_watch ''a'' ''create'' sample_file)) one_published"
  using publish_file_adds [OF one_published, of UNIV 47] sample_ready by (simp add: all_encodable file_group_length sample_file_simps sample_chunks)

lemma one_published_parts: "reserve one_published = 10" "s_Bytes (st one_published) = 300" "maxBytes one_published = 1000"
  by (simp_all add: one_published_def sample_eval sample_store_def zero_State_def sample_obs_def [THEN arg_cong, of ob_commit])

lemma give_up_Is: "give_up E ob e s = (s', r) \<Longrightarrow> errors_Is e x \<Longrightarrow> \<exists>e'. r = Some e' \<and> errors_Is e' x"
  by (auto simp: give_up_def split: sum.splits)

lemma changed_file:
  "\<exists>s' e. publishFile sample_env (\<lambda>s. s) (sample_fobs 8) sample_watch ''b'' ''create'' sample_file one_published = (s', Some e) \<and> errors_Is e ErrFileChanged"
proof -
  obtain s' r where run: "publishFile sample_env (\<lambda>s. s) (sample_fobs 8) sample_watch ''b'' ''create'' sample_file one_published = (s', r)" by fastforce
  then have "\<exists>ob s2. give_up sample_env ob ErrFileChanged s2 = (s', r)"
    by (simp add: sample_eval one_published_parts) blast
  then show ?thesis using run give_up_Is [of sample_env _ ErrFileChanged _ s' r ErrFileChanged] by auto
qed


definition sample_visit :: "string \<Rightarrow> visit" where
  "sample_visit name = \<lparr>vi_Walk = None, vi_Ctx = None, vi_Info = Inr (Regular, sample_file\<lparr>fl_SHA256 := ''''\<rparr>), vi_Full = ''/data/'' @ name, vi_Rel = Inr name,
     vi_Add = None, vi_Hash = Inr (hex_EncodeToString ''hi'')\<rparr>"

text \<open>The file \<open>b\<close> changes while it is captured.\<close>

definition sample_scan :: "string list \<Rightarrow> scan_obs" where
  "sample_scan names = \<lparr>sb_Root = None, sb_Visits = map sample_visit names, sb_Files = (\<lambda>name. sample_fobs (if name = ''b'' then 8 else 7)), sb_Disk = (\<lambda>_. None)\<rparr>"

definition fresh_collector :: "(string \<times> Message) list fileCollector" where
  "fresh_collector = \<lparr>fc_Queue = sample_store, fc_Known = [], fc_Disk = None, fc_Watched = {}\<rparr>"

lemma sample_scan_root: "scan_root (we_Glob sample_wenv) sample_watch (sb_Root (sample_scan [''a'', ''b''])) (sb_Visits (sample_scan [''a'', ''b''])) {} =
    Inr ({}, [(''a'', sample_file), (''b'', sample_file)])"
  by (simp add: scan_root_def sample_scan_def scan_visit_def sample_visit_def matches_def matchAny_def sample_watch_def sample_wenv_def sample_file_def)

lemma sample_paths: "changed_paths [] [(''a'', x), (''b'', y)] = [''a'', ''b'']"
  by (simp add: changed_paths_def less_list_code less_char_def)



theorem hashFile_terminates_witness:
  "hashFile (\<lambda>s. s) None (\<lambda>_. None) (\<lambda>n. if n = 0 then (''h'', More) else (''i'', Eof)) = Some (Inr (hex_EncodeToString ''hi''))"
  using hashFile_terminates [of 1 "\<lambda>_. None" "\<lambda>n. if n = 0 then (''h'', More) else (''i'', Eof)" "\<lambda>s. s" None] by simp



end
