(* ===== verification/Delivery.thy ===== *)
theory Delivery
  imports Config Grpc Queue_Refinement
begin

text \<open>
  Delivery over HTTP, \<open>internal/delivery/delivery.go\<close>: one request per message with the identifier of the message as idempotency key, an
  acknowledgement that must name the message, and a loop that retries with growing delays.  The capture works on the same queue while
  requests are under way; a run of the sender is therefore a sequence of rounds of the loop, each with the steps of the capture during it.
\<close>

section \<open>Requests\<close>

text \<open>\<open>http.Header.Set\<close> stores under the canonical form of a key: a letter at the start and after a hyphen is upper case, every other letter lower
  case; a key with a byte that no header name may contain is stored as it is.\<close>

definition token_char :: "char \<Rightarrow> bool" where
  "token_char c \<longleftrightarrow> is_lower c \<or> is_upper c \<or> is_numeral c \<or> c \<in> set (CHR 0x27 # CHR 0x60 # ''!#$%&*+-.^_|~'')"

definition upper_char :: "char \<Rightarrow> char" where
  "upper_char c = (if is_lower c then char_of (of_char c - 32 :: nat) else c)"

definition lower_char :: "char \<Rightarrow> char" where
  "lower_char c = (if is_upper c then char_of (of_char c + 32 :: nat) else c)"

fun canonical_from :: "bool \<Rightarrow> string \<Rightarrow> string" where
  "canonical_from upper [] = []"
| "canonical_from upper (c # cs) = (if upper then upper_char c else lower_char c) # canonical_from (c = CHR ''-'') cs"

definition CanonicalHeaderKey :: "string \<Rightarrow> string" where
  "CanonicalHeaderKey k = (if list_all token_char k then canonical_from True k else k)"

type_synonym header = "string \<rightharpoonup> string"

definition header_Set :: "header \<Rightarrow> string \<Rightarrow> string \<Rightarrow> header" where
  "header_Set h k v = h(CanonicalHeaderKey k \<mapsto> v)"

record 'v request =
  hr_Header :: header
  hr_Body :: 'v

text \<open>The configured headers in the order in which the iteration over the map yields them.\<close>

definition new_request :: "(string \<times> string) list \<Rightarrow> Message \<Rightarrow> 'v \<Rightarrow> 'v request" where
  "new_request headers m body =
     \<lparr>hr_Header = header_Set (header_Set (foldl (\<lambda>h (k, v). header_Set h k v) Map.empty headers) ''Content-Type'' ''application/json'') ''Idempotency-Key'' (m_ID m),
      hr_Body = body\<rparr>"

section \<open>Responses\<close>

text \<open>A response delivers bytes until the end of the body or an error; \<open>read_limited\<close> is \<open>io.ReadAll\<close> on \<open>io.LimitReader\<close>.\<close>

record response =
  rs_StatusCode :: nat
  rs_Body :: string
  rs_Error :: "err option"

definition read_limited :: "nat \<Rightarrow> response \<Rightarrow> string res" where
  "read_limited n r = (if n \<le> length (rs_Body r) then Inr (take n (rs_Body r)) else guarded (rs_Error r) (Inr (rs_Body r)))"

text \<open>What a request observes: an error of \<open>NewRequestWithContext\<close>, and the answer of the receiver to the request.\<close>

record 'v http =
  ht_New :: "err option"
  ht_Do :: "'v request \<Rightarrow> response res"

record httpConfig =
  hc_Headers :: "(string \<times> string) list"
  hc_Ack :: "string \<Rightarrow> Event.Ack res"
  hc_RetryMin :: int
  hc_RetryMax :: int

definition Send :: "httpConfig \<Rightarrow> 'v http \<Rightarrow> Message \<Rightarrow> 'v \<Rightarrow> bool \<times> err option" where
  "Send cfg h m body =
     (case ht_New h of Some _ \<Rightarrow> (False, Some (Err ''invalid http request'')) | None \<Rightarrow>
      case ht_Do h (new_request (hc_Headers cfg) m body) of Inl _ \<Rightarrow> (True, Some (Err ''http transport failed'')) | Inr r \<Rightarrow>
      if rs_StatusCode r \<noteq> 200 then
        (rs_StatusCode r = 408 \<or> rs_StatusCode r = 429 \<or> rs_StatusCode r \<ge> 500, Some (Err (''receiver returned http '' @ dec (rs_StatusCode r))))
      else (case read_limited 65537 r of Inl _ \<Rightarrow> (True, Some (Err ''read ack failed'')) | Inr bytes \<Rightarrow>
        if length bytes > 65536 then (False, Some (Err ''ack exceeds size limit''))
        else (case hc_Ack cfg bytes of Inl _ \<Rightarrow> (False, Some (Err ''invalid ack json'')) | Inr ack \<Rightarrow>
          if a_ID ack \<noteq> m_ID m \<or> a_Seq ack \<noteq> m_Seq m then (False, Some (Err ''ack does not match message''))
          else (False, None))))"

section \<open>The loop\<close>

text \<open>What a round of \<open>Run\<close> observes: the context at its start, the request, what the capture does to the queue during the request, the context
  after it, the random number for the delay, the end of the wait, and the disk for the acknowledgement.\<close>

record ('v, 'b) http_round =
  rd_Ctx :: "err option"
  rd_Http :: "'v http"
  rd_Meanwhile :: "'b Store \<Rightarrow> 'b Store"
  rd_After :: "err option"
  rd_Rand :: int
  rd_Wait :: "err option"
  rd_Obs :: obs

record 'b sender =
  hs_Queue :: "'b Store"
  hs_Delay :: int
  hs_Retries :: nat

text \<open>The outcome of a round: a wait for messages, a wait before a retry, or the delivery of a message with the request and the answer to it.\<close>

datatype 'v http_outcome = Idled | Retried int | Delivered Message "'v request" "response res"

text \<open>Division of a \<open>time.Duration\<close> by two, which truncates, and the wait before a retry; \<open>rand.Int64N\<close> returns a number from zero below its argument.\<close>

definition half :: "int \<Rightarrow> int" where
  "half d = (if d < 0 then - (- d div 2) else d div 2)"

definition jitter :: "int \<Rightarrow> int \<Rightarrow> int" where
  "jitter delay rand = half delay + rand mod max 1 (half delay)"

definition Run_round :: "('v, 'b, 'z) qenv_scheme \<Rightarrow> httpConfig \<Rightarrow> ('v, 'b) http_round \<Rightarrow> 'b sender \<Rightarrow> 'b sender \<times> 'v http_outcome list \<times> err option" where
  "Run_round E cfg rd c =
     (case rd_Ctx rd of Some e \<Rightarrow> (c, [], Some e) | None \<Rightarrow>
      case Peek E (hs_Queue c) of
        Inl e \<Rightarrow> if errors_Is e ErrEmpty then (case rd_Wait rd of Some e' \<Rightarrow> (c, [], Some e') | None \<Rightarrow> (c, [Idled], None)) else (c, [], Some e)
      | Inr (m, b) \<Rightarrow>
          (let sent = Send cfg (rd_Http rd) m b; c' = c\<lparr>hs_Queue := rd_Meanwhile rd (hs_Queue c)\<rparr> in
           case snd sent of
             Some e \<Rightarrow>
               (case rd_After rd of Some e' \<Rightarrow> (c', [], Some e') | None \<Rightarrow>
                if \<not> fst sent then (c', [], Some e)
                else (case rd_Wait rd of
                    Some e' \<Rightarrow> (c'\<lparr>hs_Retries := hs_Retries c + 1\<rparr>, [], Some e')
                  | None \<Rightarrow> (c'\<lparr>hs_Retries := hs_Retries c + 1, hs_Delay := min (doubled (hs_Delay c)) (hc_RetryMax cfg)\<rparr>,
                             [Retried (jitter (hs_Delay c) (rd_Rand rd))], None)))
           | None \<Rightarrow>
               (case Ack E (rd_Obs rd) (hs_Queue c') (m_Seq m) (m_ID m) of
                  Inl e \<Rightarrow> (c', [], Some e)
                | Inr q \<Rightarrow> (c'\<lparr>hs_Queue := q, hs_Retries := 0, hs_Delay := hc_RetryMin cfg\<rparr>, [Delivered m (new_request (hc_Headers cfg) m b) (ht_Do (rd_Http rd) (new_request (hc_Headers cfg) m b))], None))))"

definition sender_new :: "httpConfig \<Rightarrow> 'b Store \<Rightarrow> 'b sender" where
  "sender_new cfg q = \<lparr>hs_Queue = q, hs_Delay = hc_RetryMin cfg, hs_Retries = 0\<rparr>"

text \<open>The capture neither acknowledges nor resets the queue while the sender runs.\<close>

definition capturing :: "Message set \<Rightarrow> ('v, 'b, 'z) qenv_scheme \<Rightarrow> 'b Store \<Rightarrow> 'b Store \<Rightarrow> bool" where
  "capturing W E q q' \<longleftrightarrow> (\<exists>ops. qrun W E q ops q' \<and> acks ops = [] \<and> QReset \<notin> set ops)"

inductive http_run :: "Message set \<Rightarrow> ('v, 'b, 'z) qenv_scheme \<Rightarrow> httpConfig \<Rightarrow> 'b sender \<Rightarrow> 'v http_outcome list \<Rightarrow> 'b sender \<Rightarrow> err option \<Rightarrow> bool"
  for W E cfg c where
  start: "http_run W E cfg c [] c None"
| capture: "http_run W E cfg c os c1 None \<Longrightarrow> capturing W E (hs_Queue c1) q \<Longrightarrow> http_run W E cfg c os (c1\<lparr>hs_Queue := q\<rparr>) None"
| round: "http_run W E cfg c os c1 None \<Longrightarrow> capturing W E (hs_Queue c1) (rd_Meanwhile rd (hs_Queue c1)) \<Longrightarrow>
    Run_round E cfg rd c1 = (c2, os', r) \<Longrightarrow> http_run W E cfg c (os @ os') c2 r"


section \<open>Facts\<close>

lemma canonical_keys: "CanonicalHeaderKey ''Content-Type'' = ''Content-Type''" "CanonicalHeaderKey ''Idempotency-Key'' = ''Idempotency-Key''"
  by code_simp+

text \<open>Whatever headers are configured, in whatever spelling, the request carries the content type and the identifier of the message.\<close>

lemma new_request_headers:
  "hr_Header (new_request headers m body) ''Idempotency-Key'' = Some (m_ID m)"
  "hr_Header (new_request headers m body) ''Content-Type'' = Some ''application/json''"
  by (simp_all add: new_request_def header_Set_def canonical_keys)

definition accepted :: "httpConfig \<Rightarrow> Message \<Rightarrow> response res \<Rightarrow> bool" where
  "accepted cfg m answer \<longleftrightarrow> (\<exists>r ack. answer = Inr r \<and> rs_StatusCode r = 200 \<and> length (rs_Body r) \<le> 65536 \<and> rs_Error r = None \<and>
     hc_Ack cfg (rs_Body r) = Inr ack \<and> a_ID ack = m_ID m \<and> a_Seq ack = m_Seq m)"

lemma read_limited_short:
  assumes "read_limited 65537 r = Inr bytes" "\<not> 65536 < length bytes"
  shows "bytes = rs_Body r \<and> length (rs_Body r) \<le> 65536 \<and> rs_Error r = None"
  using assms by (auto simp: read_limited_def split: if_splits dest!: sym [of "Some _"])

lemma Send_iff: "snd (Send cfg h m body) = None \<longleftrightarrow> ht_New h = None \<and> accepted cfg m (ht_Do h (new_request (hc_Headers cfg) m body))"
proof
  assume sent: "snd (Send cfg h m body) = None"
  then have new: "ht_New h = None" by (simp add: Send_def split: option.splits)
  with sent obtain r where r: "ht_Do h (new_request (hc_Headers cfg) m body) = Inr r" by (auto simp: Send_def split: sum.splits)
  with sent new have ok: "rs_StatusCode r = 200" by (auto simp: Send_def split: if_splits dest!: sym [of "Some _"])
  with sent new r obtain bytes where bytes: "read_limited 65537 r = Inr bytes" by (auto simp: Send_def split: sum.splits)
  with sent new r ok have small: "\<not> 65536 < length bytes" by (auto simp: Send_def split: if_splits dest!: sym [of "Some _"])
  with sent new r ok bytes obtain ack where ack: "hc_Ack cfg bytes = Inr ack" by (auto simp: Send_def split: sum.splits)
  with sent new r ok bytes small have "a_ID ack = m_ID m" "a_Seq ack = m_Seq m" by (auto simp: Send_def split: if_splits dest!: sym [of "Some _"])
  with new r ok ack read_limited_short [OF bytes small] show "ht_New h = None \<and> accepted cfg m (ht_Do h (new_request (hc_Headers cfg) m body))"
    by (auto simp: accepted_def)
next
  assume "ht_New h = None \<and> accepted cfg m (ht_Do h (new_request (hc_Headers cfg) m body))"
  then obtain r ack where r: "ht_New h = None" "ht_Do h (new_request (hc_Headers cfg) m body) = Inr r" "rs_StatusCode r = 200"
    "length (rs_Body r) \<le> 65536" "rs_Error r = None" "hc_Ack cfg (rs_Body r) = Inr ack" "a_ID ack = m_ID m" "a_Seq ack = m_Seq m"
    by (auto simp: accepted_def)
  have "read_limited 65537 r = Inr (rs_Body r)" using r(4,5) by (simp add: read_limited_def)
  with r show "snd (Send cfg h m body) = None" by (simp add: Send_def)
qed

text \<open>What a message must have gone through to count as delivered.\<close>

fun receipt :: "('v, 'b, 'z) qenv_scheme \<Rightarrow> httpConfig \<Rightarrow> 'v http_outcome \<Rightarrow> bool" where
  "receipt E cfg (Delivered m req answer) \<longleftrightarrow> unmarshal E (hr_Body req) = Inr m \<and> hr_Header req ''Idempotency-Key'' = Some (m_ID m) \<and>
     hr_Header req ''Content-Type'' = Some ''application/json'' \<and> accepted cfg m answer"
| "receipt E cfg out \<longleftrightarrow> True"

fun delivery :: "'v http_outcome \<Rightarrow> (nat \<times> string) list" where
  "delivery (Delivered m req answer) = [(m_Seq m, m_ID m)]"
| "delivery out = []"

definition deliveries :: "'v http_outcome list \<Rightarrow> (nat \<times> string) list" where
  "deliveries os = concat (map delivery os)"

lemma Run_round_cases:
  assumes "Run_round E cfg rd c = (c', os, r)"
  obtains (acked) m b q where "Peek E (hs_Queue c) = Inr (m, b)" "ht_New (rd_Http rd) = None" "r = None"
      "accepted cfg m (ht_Do (rd_Http rd) (new_request (hc_Headers cfg) m b))" "Ack E (rd_Obs rd) (rd_Meanwhile rd (hs_Queue c)) (m_Seq m) (m_ID m) = Inr q"
      "c' = \<lparr>hs_Queue = q, hs_Delay = hc_RetryMin cfg, hs_Retries = 0\<rparr>"
      "os = [Delivered m (new_request (hc_Headers cfg) m b) (ht_Do (rd_Http rd) (new_request (hc_Headers cfg) m b))]"
  | (retried) rand where "os = [Retried (jitter (hs_Delay c) rand)]" "r = None" "c' = c\<lparr>hs_Queue := rd_Meanwhile rd (hs_Queue c), hs_Retries := hs_Retries c + 1, hs_Delay := min (doubled (hs_Delay c)) (hc_RetryMax cfg)\<rparr>"
  | (waited) "os = [] \<and> r \<noteq> None \<or> os = [Idled] \<and> r = None" "hs_Delay c' = hs_Delay c" "hs_Queue c' \<in> {hs_Queue c, rd_Meanwhile rd (hs_Queue c)}"
proof (cases "rd_Ctx rd")
  case (Some e)
  show ?thesis using assms by (intro waited) (auto simp: Run_round_def Some)
next
  case None
  note ctx = this
  show ?thesis
  proof (cases "Peek E (hs_Queue c)")
    case (Inl e)
    show ?thesis using assms by (intro waited; cases "rd_Wait rd"; auto simp: Run_round_def Inl ctx split: if_splits dest!: sym [of "Some _"])
  next
    case (Inr mb)
    obtain m b where mb: "mb = (m, b)" by fastforce
    show ?thesis
    proof (cases "snd (Send cfg (rd_Http rd) m b)")
      case None
      then have h: "ht_New (rd_Http rd) = None" "accepted cfg m (ht_Do (rd_Http rd) (new_request (hc_Headers cfg) m b))" by (simp_all add: Send_iff)
      show ?thesis
      proof (cases "Ack E (rd_Obs rd) (rd_Meanwhile rd (hs_Queue c)) (m_Seq m) (m_ID m)")
        case (Inl e)
        show ?thesis using assms by (intro waited) (auto simp: Run_round_def Let_def Inl ctx Inr mb None)
      next
        fix q assume q: "Ack E (rd_Obs rd) (rd_Meanwhile rd (hs_Queue c)) (m_Seq m) (m_ID m) = Inr q"
        show ?thesis by (rule acked [OF _ h(1) _ h(2) q]) (use assms in \<open>auto simp: Run_round_def Let_def ctx Inr mb None q\<close>)
      qed
    next
      case (Some e)
      show ?thesis
      proof (cases "os = []")
        case True
        then show ?thesis using assms by (intro waited; cases "rd_Wait rd"; cases "rd_After rd"; auto simp: Run_round_def Let_def ctx Inr mb Some split: if_splits dest!: sym [of "Some _"])
      next
        case False
        then show ?thesis using assms by (intro retried [of "rd_Rand rd"]; cases "rd_Wait rd"; cases "rd_After rd"; auto simp: Run_round_def Let_def ctx Inr mb Some split: if_splits dest!: sym [of "Some _"])
      qed
    qed
  qed
qed


lemma qrun_trans: "qrun W E s2 ops' s3 \<Longrightarrow> qrun W E s1 ops s2 \<Longrightarrow> qrun W E s1 (ops @ ops') s3"
proof (induction rule: qrun.induct)
  case (step ops' s s' oper)
  then show ?case using qrun.step [of W E s1 "ops @ ops'"] by simp
qed simp

lemma Peek_unmarshal: "Peek E q = Inr (m, b) \<Longrightarrow> unmarshal E b = Inr m"
  by (auto simp: Peek_def fetch_def split: if_splits option.splits sum.splits)

lemma deliveries_append [simp]: "deliveries [] = []" "deliveries (os @ os') = deliveries os @ deliveries os'"
  by (simp_all add: deliveries_def)

lemma http_run_qrun:
  assumes "http_run W E cfg c os c' r"
  shows "(\<exists>ops. qrun W E (hs_Queue c) ops (hs_Queue c') \<and> acks ops = deliveries os \<and> QReset \<notin> set ops) \<and> (\<forall>out\<in>set os. receipt E cfg out)"
  using assms
proof (induction rule: http_run.induct)
  case start
  then show ?case by (intro conjI exI [of _ "[]"]) (auto intro: qrun.start)
next
  case (capture os c1 q)
  then obtain ops ops' where "qrun W E (hs_Queue c) ops (hs_Queue c1)" "acks ops = deliveries os" "QReset \<notin> set ops"
    "qrun W E (hs_Queue c1) ops' q" "acks ops' = []" "QReset \<notin> set ops'" unfolding capturing_def by blast
  then show ?case using capture.IH by (intro conjI exI [of _ "ops @ ops'"]) (auto intro: qrun_trans)
next
  case (round os c1 rd c2 os' r)
  then obtain ops ops' where run: "qrun W E (hs_Queue c) ops (hs_Queue c1)" "acks ops = deliveries os" "QReset \<notin> set ops"
    and mean: "qrun W E (hs_Queue c1) ops' (rd_Meanwhile rd (hs_Queue c1))" "acks ops' = []" "QReset \<notin> set ops'" unfolding capturing_def by blast
  have both: "qrun W E (hs_Queue c) (ops @ ops') (rd_Meanwhile rd (hs_Queue c1))" by (rule qrun_trans [OF mean(1) run(1)])
  from round.hyps(3) show ?case
  proof (cases rule: Run_round_cases)
    case (acked m b q)
    have "qrun W E (hs_Queue c) ((ops @ ops') @ [QAck (m_Seq m) (m_ID m)]) q" by (rule qrun.step [OF both qstep.ack [OF acked(5)]])
    then show ?thesis using round.IH run mean acked(4) Peek_unmarshal [OF acked(1)] new_request_headers [of "hc_Headers cfg" m b] unfolding acked(6,7)
      by (intro conjI exI [of _ "(ops @ ops') @ [QAck (m_Seq m) (m_ID m)]"]) (auto simp: deliveries_def new_request_def)
  next
    case (retried rand)
    then show ?thesis using round.IH run mean both by (intro conjI exI [of _ "ops @ ops'"]) (auto simp: deliveries_def)
  next
    case waited
    then have "deliveries os' = []" "\<forall>out\<in>set os'. receipt E cfg out" by (auto simp: deliveries_def)
    moreover have "\<exists>ops. qrun W E (hs_Queue c) ops (hs_Queue c2) \<and> acks ops = deliveries os \<and> QReset \<notin> set ops"
      using waited(3) run mean both by (elim insertE) (auto intro: exI [of _ ops] exI [of _ "ops @ ops'"])
    ultimately show ?thesis using round.IH by auto
  qed
qed


section \<open>Delays\<close>

text \<open>The waits of a run: the wait number \<open>k\<close> since the last delivery lies between the half and the whole of the delay after \<open>k\<close> doublings.\<close>

fun waits_ok :: "int \<Rightarrow> int \<Rightarrow> nat \<Rightarrow> 'v http_outcome list \<Rightarrow> bool" where
  "waits_ok lo hi k [] \<longleftrightarrow> True"
| "waits_ok lo hi k (Retried w # os) \<longleftrightarrow> min hi (lo * 2 ^ k) div 2 \<le> w \<and> w \<le> min hi (lo * 2 ^ k) \<and> waits_ok lo hi (Suc k) os"
| "waits_ok lo hi k (Delivered m req answer # os) \<longleftrightarrow> waits_ok lo hi 0 os"
| "waits_ok lo hi k (Idled # os) \<longleftrightarrow> waits_ok lo hi k os"

fun failures :: "nat \<Rightarrow> 'v http_outcome list \<Rightarrow> nat" where
  "failures k [] = k"
| "failures k (Retried w # os) = failures (Suc k) os"
| "failures k (Delivered m req answer # os) = failures 0 os"
| "failures k (Idled # os) = failures k os"

lemma waits_ok_append: "waits_ok lo hi k (os @ os') \<longleftrightarrow> waits_ok lo hi k os \<and> waits_ok lo hi (failures k os) os'"
  by (induction k os rule: failures.induct) auto

lemma failures_append: "failures k (os @ os') = failures (failures k os) os'"
  by (induction k os rule: failures.induct) auto

lemma jitter_bounds: "0 < d \<Longrightarrow> d div 2 \<le> jitter d rand \<and> jitter d rand \<le> d"
proof -
  assume d: "0 < d"
  define x where "x = rand mod max 1 (d div 2)"
  have "0 \<le> x" "x < max 1 (d div 2)" by (simp_all add: x_def)
  moreover have "jitter d rand = d div 2 + x" using d by (simp add: jitter_def half_def x_def)
  ultimately show ?thesis using d by linarith
qed

text \<open>C30. The delays are bounded and start again.  The wait before a retry is at least the half and at most the whole of the configured
  smallest delay doubled with every failure since the last delivery, and never more than the largest delay; a delivery starts the delays again.\<close>

theorem http_backoff_resets:
  assumes "0 < lo" "lo \<le> hi" "hi < 2 ^ 62" "hc_RetryMin cfg = lo" "hc_RetryMax cfg = hi" "http_run W E cfg (sender_new cfg q) os c' r"
  shows "waits_ok lo hi 0 os \<and> hs_Delay c' \<in> {lo..hi} \<and> (r = None \<longrightarrow> hs_Delay c' = min hi (lo * 2 ^ failures 0 os))"
  using assms(6)
proof (induction rule: http_run.induct)
  case start
  then show ?case using assms by (simp add: sender_new_def)
next
  case (capture os c1 q')
  then show ?case using assms(1) by simp
next
  case (round os c1 rd c2 os' r)
  let ?k = "failures 0 os"
  have d: "hs_Delay c1 = backoff lo hi ?k" using round.IH by (simp add: backoff_def)
  have pos: "0 < backoff lo hi ?k" using assms(1,2) by (simp add: backoff_def min_def)
  from round.hyps(3) show ?case
  proof (cases rule: Run_round_cases)
    case (acked m b q)
    then show ?thesis using round.IH assms by (simp add: waits_ok_append failures_append)
  next
    case (retried rand)
    have "min hi (doubled (hs_Delay c1)) = backoff lo hi (Suc ?k)" using backoff_Suc [of lo hi ?k] assms(1-3) d by simp
    moreover have "lo \<le> backoff lo hi (Suc ?k)" "backoff lo hi (Suc ?k) \<le> hi" using assms(1,2) by (simp_all add: backoff_def del: power_Suc)
    ultimately show ?thesis using round.IH retried jitter_bounds [OF pos, of rand] assms(5) d
      by (simp add: waits_ok_append failures_append backoff_def min.commute)
  next
    case waited
    then show ?thesis using round.IH by (auto simp: waits_ok_append failures_append)
  qed
qed


section \<open>Instances\<close>

definition sample_http :: httpConfig where
  "sample_http = \<lparr>hc_Headers = [(''idempotency-key'', ''mine''), (''X-Team'', ''data'')], hc_Ack = (\<lambda>_. Inr \<lparr>a_ID = ''src/g1/1'', a_Seq = 1\<rparr>), hc_RetryMin = 2, hc_RetryMax = 3\<rparr>"

definition sample_http_round :: "response res \<Rightarrow> (Message, (string \<times> Message) list) http_round" where
  "sample_http_round answer = \<lparr>rd_Ctx = None, rd_Http = \<lparr>ht_New = None, ht_Do = (\<lambda>_. answer)\<rparr>, rd_Meanwhile = (\<lambda>q. q), rd_After = None, rd_Rand = 7, rd_Wait = None, rd_Obs = sample_obs\<rparr>"

lemma capturing_none: "capturing W E q q"
  unfolding capturing_def by (intro exI [of _ "[]"]) (simp add: qrun.start)

lemma sample_peek: "\<exists>m b. Peek sample_env sample_full = Inr (m, b) \<and> m_Seq m = 1 \<and> m_ID m = ''src/g1/1''"
proof -
  from sample_full_published obtain m ms where m: "published sample_env sample_full = m # ms" by blast
  from Peek_published(2) [OF sample_full_inv this] obtain b where b: "Peek sample_env sample_full = Inr (m, b)" "m_Seq m = 1"
    by (auto simp: sample_full_st)
  from Ack_abs(1) [OF sample_bolt sample_full_inv sample_acked_ok] m have "m_ID m = ''src/g1/1''" by simp
  with b show ?thesis by blast
qed

lemma sample_sender_sound: "sound_queue UNIV sample_env (hs_Queue (sender_new sample_http sample_full))"
  by (simp add: sound_queue_def sender_new_def sample_bolt sample_codec sample_full_inv)


theorem http_backoff_resets_witness:
  "\<exists>os c. http_run UNIV sample_env sample_http (sender_new sample_http sample_full) os c None \<and> os = [Retried 1, Retried 1] \<and> hs_Delay c = 3 \<and> waits_ok 2 3 0 os"
proof -
  obtain m b where m: "Peek sample_env sample_full = Inr (m, b)" "m_Seq m = 1" "m_ID m = ''src/g1/1''" using sample_peek by blast
  let ?rd = "sample_http_round (Inl ErrCanceled)" and ?c = "\<lambda>d n. \<lparr>hs_Queue = sample_full, hs_Delay = d, hs_Retries = n\<rparr>"
  have "Run_round sample_env sample_http ?rd (?c 2 0) = (?c 3 1, [Retried 1], None)" "Run_round sample_env sample_http ?rd (?c 3 1) = (?c 3 2, [Retried 1], None)"
    using m by (simp_all add: Run_round_def sample_http_round_def Let_def Send_def sample_http_def jitter_def half_def doubled_small)
  from http_run.round [OF http_run.round [OF http_run.start _ this(1)] _ this(2), of UNIV]
  have run: "http_run UNIV sample_env sample_http (sender_new sample_http sample_full) [Retried 1, Retried 1] (?c 3 2) None"
    by (simp add: sample_http_round_def capturing_none sender_new_def sample_http_def)
  from http_backoff_resets [OF _ _ _ _ _ run, of 2 3] run show ?thesis by (auto simp: sample_http_def)
qed

end
