(* ===== verification/Source.thy ===== *)
theory Source
  imports Batch Digest Wire
begin

text \<open>
  What the collectors of the four database engines share: results of queries, calls of the queue that take a round as the batcher does, and the steps that a
  collector can take between two publications.
\<close>

section \<open>Results of queries\<close>

text \<open>A query fails, or delivers rows, each of which may fail to be scanned, and reports at the end whether it was complete.\<close>

record 'a cursor =
  cu_Query :: "err option"
  cu_Rows :: "'a res list"
  cu_Err :: "err option"

definition scan_row :: "('s \<Rightarrow> 'a \<Rightarrow> 's res) \<Rightarrow> 's \<Rightarrow> 'a res \<Rightarrow> 's res" where
  "scan_row f s r = (case r of Inl e \<Rightarrow> Inl e | Inr a \<Rightarrow> f s a)"

definition scan_all :: "('s \<Rightarrow> 'a \<Rightarrow> 's res) \<Rightarrow> 's \<Rightarrow> 'a cursor \<Rightarrow> 's res" where
  "scan_all f s c =
     (case cu_Query c of Some e \<Rightarrow> Inl e | None \<Rightarrow>
      case foldM (scan_row f) s (cu_Rows c) of Inl e \<Rightarrow> Inl e | Inr s' \<Rightarrow> guarded (cu_Err c) (Inr s'))"

lemma scan_row_simps [simp]: "scan_row f s (Inl e) = Inl e" "scan_row f s (Inr a) = f s a"
  by (simp_all add: scan_row_def)

lemma scan_all_Inr:
  "scan_all f s c = Inr s' \<longleftrightarrow> cu_Query c = None \<and> cu_Err c = None \<and> foldM (scan_row f) s (cu_Rows c) = Inr s'"
  by (auto simp: scan_all_def split: option.splits sum.splits)

lemma foldM_scan:
  assumes "foldM (scan_row f) s rows = Inr s'"
  shows "\<exists>xs. rows = map Inr xs \<and> foldM f s xs = Inr s'"
  using assms
proof (induction rows arbitrary: s)
  case (Cons r rows)
  obtain a where r: "r = Inr a" using Cons.prems by (cases r) auto
  then obtain s1 where a: "f s a = Inr s1" "foldM (scan_row f) s1 rows = Inr s'" using Cons.prems by (auto split: sum.splits)
  from Cons.IH [OF a(2)] obtain xs where "rows = map Inr xs" "foldM f s1 xs = Inr s'" by blast
  then show ?case using r a(1) by (intro exI [of _ "a # xs"]) simp
qed simp

section \<open>Reconciliation\<close>

text \<open>The rows of a table are added to a builder one by one; the digests are sent in the order of their buckets.\<close>

definition wire_digests :: "Digest list \<Rightarrow> BucketDigest list" where
  "wire_digests = map (\<lambda>d. \<lparr>bd_Bucket = dg_Bucket d, bd_Rows = dg_Rows d, bd_Digest = dg_Hash d\<rparr>)"

definition empty_answer :: "ReconcileRequest \<Rightarrow> ReconcileResult" where
  "empty_answer request = \<lparr>rr_RequestId = rq_RequestId request, rr_SourceSchema = '''', rr_Table = '''', rr_Columns = [], rr_PrimaryKeys = [], rr_Digests = [],
     rr_RowsJson = '''', rr_Error = '''', rr_ColumnTypes = []\<rparr>"

section \<open>Calls of the queue\<close>

text \<open>A call takes the next round: the delivery may acknowledge messages before it, and the round says what the disk and the clock report.\<close>

fun queue_call :: "(obs \<Rightarrow> 'b Store \<Rightarrow> 'b Store res) \<Rightarrow> 'b round list \<Rightarrow> 'b Store \<Rightarrow> 'b Store \<times> flow \<times> 'b round list" where
  "queue_call f [] q = (q, Blocked, [])"
| "queue_call f (r # rs) q = (case f (rd_obs r) (rd_before r q) of Inl e \<Rightarrow> (rd_before r q, Failed e, rs) | Inr q' \<Rightarrow> (q', Done, rs))"

text \<open>Sequencing of such calls.\<close>

definition then_call ::
  "'b Store \<times> flow \<times> 'b round list \<Rightarrow> ('b Store \<Rightarrow> 'b round list \<Rightarrow> 'b Store \<times> flow \<times> 'b round list) \<Rightarrow> 'b Store \<times> flow \<times> 'b round list" where
  "then_call x g = (case x of (q, Done, rs) \<Rightarrow> g q rs | (q, f, rs) \<Rightarrow> (q, f, rs))"

section \<open>Between two publications\<close>

text \<open>Everything of the state but the counters.\<close>

definition origin :: "State \<Rightarrow> State" where
  "origin x = x\<lparr>s_NextSeq := 0, s_ReadySeq := 0, s_DeliveredSeq := 0, s_Bytes := 0, s_EarliestSeq := 0, s_ArchiveBytes := 0\<rparr>"

lemma origin_fields:
  assumes "origin x = origin y"
  shows "s_Phase x = s_Phase y \<and> s_DurableLSN x = s_DurableLSN y \<and> s_SchemaHash x = s_SchemaHash y \<and> s_Generation x = s_Generation y \<and>
    s_SourceID x = s_SourceID y \<and> s_SnapshotLSN x = s_SnapshotLSN y \<and> s_SourceCleanup x = s_SourceCleanup y"
  using assms by (cases x; cases y) (simp add: origin_def)

text \<open>What the publications of a stream leave as it is: the phase and the consistent point of the snapshot.\<close>

definition base :: "State \<Rightarrow> string \<times> string" where
  "base x = (s_Phase x, s_SnapshotLSN x)"

lemma base_origin: "origin x = origin y \<Longrightarrow> base x = base y"
  by (auto simp: base_def dest: origin_fields)

text \<open>The queue is sound, nothing was published, the origin is the same and the rounds that are left still fit.\<close>

definition kept :: "Message set \<Rightarrow> ('v, 'b, 'z) qenv_scheme \<Rightarrow> 'b Store \<Rightarrow> 'b Store \<Rightarrow> 'b round list \<Rightarrow> bool" where
  "kept W E q q' rs' \<longleftrightarrow> queue_inv W E q' \<and> suffix (published E q') (published E q) \<and> origin (st q') = origin (st q) \<and> rounds_ok W E rs' \<and> budget q' rs'"

lemma kept_base: "kept W E q q' rs' \<Longrightarrow> base (st q') = base (st q)"
  unfolding kept_def by (blast intro: base_origin)

lemma kept_trans: "kept W E q q1 rs1 \<Longrightarrow> kept W E q1 q2 rs2 \<Longrightarrow> kept W E q q2 rs2"
  by (auto simp: kept_def intro: suffix_order.trans)

lemma ack_origin: "Ack E ob s n mid = Inr s' \<Longrightarrow> origin (st s') = origin (st s)"
  by (elim Ack_Inr) (simp add: origin_def)

lemma acks_origin:
  assumes "qrun W E q ops q'" "\<forall>oper\<in>set ops. \<exists>n mid. oper = QAck n mid"
  shows "origin (st q') = origin (st q)"
  using assms
proof (induction rule: qrun.induct)
  case (step ops s1 oper s2)
  then obtain n mid where "oper = QAck n mid" by auto
  with step.hyps(2) obtain ob where "Ack E ob s1 n mid = Inr s2" by (auto elim: qstep_AckE)
  from ack_origin [OF this] step show ?case by simp
qed simp

lemma only_acks_origin: "only_acks W E f \<Longrightarrow> queue_inv W E q \<Longrightarrow> origin (st (f q)) = origin (st q)"
  unfolding only_acks_def using acks_origin by blast

lemma append_origin: "Append E ob s m = Inr s' \<Longrightarrow> origin (st s') = origin (st s)"
  by (elim Append_Inr) (simp add: origin_def)

lemma batch_append_origin:
  assumes E: "bolt_ok E" "codec_ok W E" and "queue_inv W E q" "rounds_ok W E rs" "batch_append E full rs q m = (q', f, rs')"
  shows "origin (st q') = origin (st q)"
  using assms(3-5)
proof (induction rs arbitrary: q)
  case (Cons r rs)
  define q1 where "q1 = rd_before r q"
  define q2 where "q2 = rd_between r q1"
  have env: "only_acks W E (rd_before r)" "only_acks W E (rd_between r)" "rounds_ok W E rs" using Cons.prems(2) by (auto simp: rounds_ok_Cons)
  have inv1: "queue_inv W E q1" using only_acksD [OF E env(1) Cons.prems(1)] by (simp add: q1_def)
  have inv2: "queue_inv W E q2" using only_acksD [OF E env(2) inv1] by (simp add: q2_def)
  have o1: "origin (st q1) = origin (st q)" using only_acks_origin [OF env(1) Cons.prems(1)] by (simp add: q1_def)
  have o2: "origin (st q2) = origin (st q)" using only_acks_origin [OF env(2) inv1] o1 by (simp add: q2_def)
  show ?case
  proof (cases "rd_ctx r")
    case (Some e)
    then show ?thesis using Cons.prems(3) by simp
  next
    case None
    note ctx = this
    show ?thesis
    proof (cases "Append E (rd_obs r) q1 m")
      case (Inr q3)
      then show ?thesis using Cons.prems(3) ctx append_origin [OF Inr] o1 by (simp add: q1_def [symmetric] Let_def)
    next
      case (Inl e)
      have "q' = q1 \<or> q' = q2 \<or> batch_append E full rs q2 m = (q', f, rs')"
        using Cons.prems(3) ctx Inl by (auto simp: q1_def [symmetric] q2_def [symmetric] Let_def split: option.splits if_splits)
      then show ?thesis using o1 o2 Cons.IH [OF inv2 env(3)] by auto
    qed
  qed
qed simp

lemma batch_append_kept:
  assumes "bolt_ok E" "codec_ok W E" "encodable W m" "queue_inv W E q" "rounds_ok W E rs" "budget q rs" "batch_append E full rs q m = (q', f, rs')"
  shows "kept W E q q' rs' \<and> grown E q (if f = Done then [m] else []) q'"
  using batch_append_spec [OF assms] batch_append_origin [OF assms(1,2,4,5,7)] by (auto simp: kept_def grown_def)

lemma kept_refl: "queue_inv W E q \<Longrightarrow> rounds_ok W E rs \<Longrightarrow> budget q rs \<Longrightarrow> kept W E q q rs"
  by (simp add: kept_def)

lemma sound_batcher_kept: "sound_batcher W R E b rs \<Longrightarrow> kept W E (bt_q b) (bt_q b) rs"
  by (simp add: sound_batcher_def kept_refl)

lemma batch_flush_kept:
  assumes s: "sound_batcher W R E b rs" and fl: "batch_flush E full rs b = (b', f, rs')"
  shows "kept W E (bt_q b) (bt_q b') rs' \<and> (f = Done \<longrightarrow> sound_batcher W R E b' rs')"
proof (cases "m_Rows (bt_msg b) = []")
  case True
  then show ?thesis using fl s sound_batcher_kept [OF s] by (auto simp: batch_flush_def)
next
  case False
  obtain q f1 rs1 where app: "batch_append E full rs (bt_q b) (bt_msg b) = (q, f1, rs1)" by (metis prod_cases3)
  have res: "bt_q b' = q" "f = f1" "rs' = rs1" using fl False app by (auto simp: batch_flush_def split: flow.splits)
  have pre: "bolt_ok E" "codec_ok W E" "queue_inv W E (bt_q b)" "rounds_ok W E rs" "budget (bt_q b) rs"
    using s by (auto simp: sound_batcher_def)
  have "encodable W ((bt_msg b)\<lparr>m_Rows := m_Rows (bt_msg b), m_Chunk := m_Chunk (bt_msg b)\<rparr>)"
    using s unfolding sound_batcher_def writable_def by blast
  then have "encodable W (bt_msg b)" by simp
  from batch_append_kept [OF pre(1,2) this pre(3-5) app] show ?thesis using batch_flush_spec [OF s] fl res by auto
qed

lemma batch_add_kept:
  assumes s: "sound_batcher W R E b rs" and R: "\<And>row. Apply fe cfg row0 = Inr row \<Longrightarrow> row \<in> R"
    and add: "batch_add E fe cfg early full rs b row0 = (b', f, rs')"
  shows "kept W E (bt_q b) (bt_q b') rs' \<and> (f = Done \<longrightarrow> sound_batcher W R E b' rs')"
proof (cases "\<exists>row raw. Apply fe cfg row0 = Inr row \<and> marshal_row E row = Inr raw \<and> int (blen E raw) \<le> cfg_MaxRowBytes cfg")
  case False
  then have "b' = b \<and> rs' = rs \<and> f \<noteq> Done" using add by (auto simp: batch_add_def split: sum.splits if_splits)
  then show ?thesis using sound_batcher_kept [OF s] by simp
next
  case True
  then obtain row raw where row: "Apply fe cfg row0 = Inr row" "marshal_row E row = Inr raw" "int (blen E raw) \<le> cfg_MaxRowBytes cfg" by blast
  obtain b1 f1 rs1 where first: "(if early cfg b (blen E raw) then batch_flush E full rs b else (b, Done, rs)) = (b1, f1, rs1)" by (metis prod_cases3)
  have k1: "kept W E (bt_q b) (bt_q b1) rs1 \<and> (f1 = Done \<longrightarrow> sound_batcher W R E b1 rs1)"
    using first batch_flush_kept [OF s] sound_batcher_kept [OF s] s by (auto split: if_splits)
  let ?b2 = "take_row b1 row (blen E raw)"
  have rest: "f1 \<noteq> Done \<and> b' = b1 \<and> f = f1 \<and> rs' = rs1 \<or> f1 = Done \<and> (b' = ?b2 \<and> f = Done \<and> rs' = rs1 \<or> batch_flush E full rs1 ?b2 = (b', f, rs'))"
    using add row first by (cases f1) (auto simp: batch_add_def Let_def split: if_splits)
  show ?thesis
  proof (cases "f1 = Done")
    case True
    have s2: "sound_batcher W R E ?b2 rs1" using k1 True R [OF row(1)] by (auto simp: sound_batcher_def take_row_def writable_def)
    have q2: "bt_q ?b2 = bt_q b1" by (simp add: take_row_def)
    show ?thesis using rest True k1 s2 batch_flush_kept [OF s2, of full b' f rs'] kept_trans [of W E "bt_q b" "bt_q b1" rs1 "bt_q b'" rs'] q2 by auto
  next
    case False
    then show ?thesis using rest k1 by auto
  qed
qed

end
