(* ===== verification/Postgres.thy ===== *)
theory Postgres
  imports Source Decode
begin

text \<open>
  The catalog of a PostgreSQL source, \<open>internal/capture/postgres.go\<close>, and the reconciliation of \<open>internal/capture/capture.go\<close>: what the collector
  accepts as a table, the hash of a schema, the arguments of the decoder plugin, and the rows it builds from the texts that the server sends.
  The driver is a parameter: results of queries are cursors, \<open>pgx.Identifier.Sanitize\<close> and the JSON of a schema are functions.
\<close>

section \<open>The catalog\<close>

record catalog_row =
  kr_OID :: nat
  kr_Kind :: string
  kr_Persistence :: string
  kr_Identity :: string
  kr_Inherited :: bool
  kr_Column :: CaptureColumn
  kr_RowSecurity :: bool
  kr_Generated :: string

record penv =
  pg_sanitize :: "string list \<Rightarrow> string"
  pg_sha :: "string \<Rightarrow> string"
  pg_schema_json :: "CaptureTable list \<Rightarrow> string"
  pg_table_json :: "CaptureTable \<Rightarrow> string res"
  pg_canon :: canon
  pg_fingerprint :: "fingerprint \<Rightarrow> string"

definition table_SQL :: "penv \<Rightarrow> CaptureTable \<Rightarrow> string" where
  "table_SQL P t = pg_sanitize P [ct_Schema t, ct_Name t]"

definition catalog_column :: "Table \<Rightarrow> CaptureTable \<Rightarrow> catalog_row \<Rightarrow> CaptureTable res" where
  "catalog_column want t r =
     (if kr_Kind r \<noteq> ''r'' \<or> kr_Persistence r \<noteq> ''p'' \<or> kr_Inherited r
      then Inl (Err (Table_String want @ '' must be an ordinary persistent, non-inherited table''))
      else if kr_RowSecurity r \<or> kr_Generated r \<noteq> '''' then Inl (Err (Table_String want @ '': row security and generated columns are unsupported''))
      else Inr (t\<lparr>ct_OID := kr_OID r, ct_Identity := kr_Identity r, ct_Columns := ct_Columns t @ [kr_Column r]\<rparr>))"

definition catalog_table :: "penv \<Rightarrow> (Table \<Rightarrow> catalog_row cursor) \<Rightarrow> CaptureTable list \<Rightarrow> Table \<Rightarrow> CaptureTable list res" where
  "catalog_table P query out want =
     (case scan_all (catalog_column want)
         \<lparr>ct_RowIdentity = '''', ct_Schema = tb_Schema want, ct_Name = tb_Name want, ct_OID = 0, ct_Identity = '''', ct_Columns = []\<rparr> (query want) of
        Inl e \<Rightarrow> Inl e
      | Inr t \<Rightarrow>
          if ct_Columns t = [] then Inl (Err (''table '' @ Table_String want @ '' missing or has no columns''))
          else if KeyNames t = [] then
            (if ct_Identity t \<noteq> ''f'' then Inl (Err (''table '' @ Table_String want @ '' has no primary key; configure explicitly: ALTER TABLE '' @ table_SQL P t @ '' REPLICA IDENTITY FULL;''))
             else Inr (out @ [t\<lparr>ct_RowIdentity := ''full_row''\<rparr>]))
          else if ct_Identity t \<noteq> ''d'' \<and> ct_Identity t \<noteq> ''f'' then Inl (Err (''table '' @ Table_String want @ '' needs default/full replica identity''))
          else Inr (out @ [t]))"

definition catalog :: "penv \<Rightarrow> (Table \<Rightarrow> catalog_row cursor) \<Rightarrow> Table list \<Rightarrow> CaptureTable list res" where
  "catalog P query tables = foldM (catalog_table P query) [] tables"

definition schemaHash :: "penv \<Rightarrow> CaptureTable list \<Rightarrow> string" where
  "schemaHash P tables = hex_EncodeToString (pg_sha P (pg_schema_json P tables))"

section \<open>Inspection\<close>

record capture_Inspection =
  ip_Version :: int
  ip_SystemID :: string
  ip_Timeline :: int
  ip_Database :: string
  ip_Tables :: "CaptureTable list"

text \<open>The settings of the server: version, WAL level, number of slots, of senders, whether the role may replicate, the encoding.\<close>

record settings =
  sg_Version :: int
  sg_Level :: string
  sg_Slots :: int
  sg_Senders :: int
  sg_Role :: bool
  sg_Encoding :: string

record inspect_obs =
  io_Connect :: "err option"
  io_Settings :: "settings res"
  io_Catalog :: "Table \<Rightarrow> catalog_row cursor"
  io_Replication :: "err option"
  io_System :: "(string \<times> int \<times> string) res"

definition capture_Inspect :: "penv \<Rightarrow> inspect_obs \<Rightarrow> Config \<Rightarrow> capture_Inspection res" where
  "capture_Inspect P ob c =
     (case io_Connect ob of Some e \<Rightarrow> Inl e | None \<Rightarrow>
      case io_Settings ob of Inl e \<Rightarrow> Inl e | Inr s \<Rightarrow>
      if sg_Version s < 90400 then Inl (Err ''postgresql 9.4 or newer is required'')
      else if sg_Encoding s = ''SQL_ASCII'' then Inl (Err ''sql_ascii databases are unsupported because json cannot preserve arbitrary text bytes'')
      else if sg_Level s \<noteq> ''logical'' \<or> sg_Slots s < 1 \<or> sg_Senders s < 1 \<or> \<not> sg_Role s
      then Inl (Err ''logical wal, replication role, slots and wal senders are required'')
      else (case catalog P (io_Catalog ob) (cfg_Tables c) of Inl e \<Rightarrow> Inl e | Inr tables \<Rightarrow>
        case io_Replication ob of Some e \<Rightarrow> Inl e | None \<Rightarrow>
        case io_System ob of Inl e \<Rightarrow> Inl e | Inr (system, timeline, db) \<Rightarrow>
          Inr \<lparr>ip_Version = sg_Version s, ip_SystemID = system, ip_Timeline = timeline, ip_Database = db, ip_Tables = tables\<rparr>))"

section \<open>Arguments of the plugin\<close>

text \<open>The characters that \<open>filterName\<close> escapes are single bytes that occur in no longer UTF-8 sequence, so it works byte by byte.\<close>

definition filter_specials :: string where
  "filter_specials = [CHR 0x20, CHR 0x5C, CHR 0x2E, CHR 0x2C, CHR 0x2A, CHR 0x27, CHR 0x09, CHR 0x0A, CHR 0x0D]"

definition filterName :: "string \<Rightarrow> string" where
  "filterName s = concat (map (\<lambda>c. if c \<in> set filter_specials then [CHR 0x5C, c] else [c]) s)"

text \<open>Different names stay different.\<close>

lemma filterName_Cons: "filterName (c # s) = (if c \<in> set filter_specials then [CHR 0x5C, c] else [c]) @ filterName s"
  by (simp add: filterName_def)

lemma filterName_inj: "filterName s = filterName t \<Longrightarrow> s = t"
proof (induction s arbitrary: t)
  case Nil
  then show ?case by (cases t) (auto simp: filterName_def split: if_splits)
next
  case (Cons c s)
  then show ?case by (cases t) (auto simp: filterName_Cons filterName_def [of "[]"] filter_specials_def split: if_splits)
qed

definition double_quotes :: "string \<Rightarrow> string" where
  "double_quotes s = concat (map (\<lambda>c. if c = CHR 0x27 then [c, c] else [c]) s)"

definition plugin_arg :: "string \<Rightarrow> string \<Rightarrow> string" where
  "plugin_arg name value = [CHR 0x22] @ name @ [CHR 0x22, CHR 0x20, CHR 0x27] @ value @ [CHR 0x27]"

definition pluginArgs :: "Config \<Rightarrow> string list" where
  "pluginArgs c =
     [plugin_arg ''format-version'' ''2'', plugin_arg ''include-transaction'' ''true'', plugin_arg ''include-lsn'' ''true'', plugin_arg ''include-xids'' ''true'',
      plugin_arg ''include-types'' ''true'', plugin_arg ''include-type-oids'' ''true'', plugin_arg ''numeric-data-types-as-string'' ''true'',
      plugin_arg ''add-tables'' (double_quotes (join_with '','' (map (\<lambda>t. filterName (tb_Schema t) @ ''.'' @ filterName (tb_Name t)) (cfg_Tables c))))]"

section \<open>Rows\<close>

text \<open>A value of type boolean (identifier 16) is spelled out; the columns of the row are those of the table in their order.\<close>

definition raw_value :: "CaptureColumn \<Rightarrow> string option \<Rightarrow> Column" where
  "raw_value col raw = zero_Column\<lparr>c_Name := cc_Name col, c_Type := cc_Type col,
     c_Value := map_option (\<lambda>v. if cc_OID col = 16 then (if v = ''t'' then ''true'' else ''false'') else v) raw\<rparr>"

definition raw_row :: "CaptureTable \<Rightarrow> string option list \<Rightarrow> Row" where
  "raw_row t raws =
     (let pairs = zip (ct_Columns t) raws; columns = map (\<lambda>(col, raw). raw_value col raw) pairs;
          row = zero_Row\<lparr>r_Schema := ct_Schema t, r_Table := ct_Name t, r_Columns := columns,
            r_Key := map (\<lambda>(col, raw). raw_value col raw) (filter (\<lambda>(col, raw). cc_Primary col) pairs)\<rparr> in
      if ct_RowIdentity t = ''full_row'' then row\<lparr>r_Identity := ''full_row'', r_Key := columns\<rparr> else row)"

definition select_columns :: "penv \<Rightarrow> CaptureTable \<Rightarrow> string" where
  "select_columns P t = ''SELECT '' @ join_with '','' (map (\<lambda>c. pg_sanitize P [cc_Name c]) (ct_Columns t)) @ '' FROM '' @ table_SQL P t"

section \<open>Reconciliation\<close>

record reconcile_obs =
  ro_Connect :: "err option"
  ro_Begin :: "err option"
  ro_Catalog :: "Table \<Rightarrow> catalog_row cursor"
  ro_Rows :: "string \<Rightarrow> string option list cursor"
  ro_Commit :: "err option"

definition capture_Reconcile :: "penv \<Rightarrow> reconcile_obs \<Rightarrow> Config \<Rightarrow> ReconcileRequest \<Rightarrow> ReconcileResult res" where
  "capture_Reconcile P ob cfg request =
     (if \<not> list_ex (\<lambda>t. tb_Schema t = rq_SourceSchema request \<and> tb_Name t = rq_Table request) (cfg_Tables cfg)
      then Inl (Err ''reconciliation table is outside the configured capture scope'')
      else case ro_Connect ob of Some e \<Rightarrow> Inl e | None \<Rightarrow>
        case ro_Begin ob of Some e \<Rightarrow> Inl e | None \<Rightarrow>
        case catalog P (ro_Catalog ob) [\<lparr>tb_Schema = rq_SourceSchema request, tb_Name = rq_Table request\<rparr>] of Inl e \<Rightarrow> Inl e | Inr tables \<Rightarrow>
          (let t = hd tables; rows = ro_Rows ob (select_columns P t) in
           case cu_Query rows of Some e \<Rightarrow> Inl e | None \<Rightarrow>
           case NewBuilder (rq_Buckets request) of Inl e \<Rightarrow> Inl e | Inr builder \<Rightarrow>
           case scan_all (\<lambda>b raws. Builder_Add (pg_sha P) (pg_canon P) b (raw_row t raws)) builder rows of Inl e \<Rightarrow> Inl e | Inr b \<Rightarrow>
           guarded (ro_Commit ob) (Inr ((empty_answer request)\<lparr>rr_SourceSchema := ct_Schema t, rr_Table := ct_Name t,
             rr_Columns := map cc_Name (ct_Columns t), rr_ColumnTypes := map cc_Type (ct_Columns t), rr_PrimaryKeys := KeyNames t,
             rr_Digests := wire_digests (Builder_Digests (pg_sha P) b)\<rparr>))))"

section \<open>An instance\<close>

definition sample_penv :: penv where
  "sample_penv = \<lparr>pg_sanitize = join_with ''.'', pg_sha = flat_sha, pg_schema_json = (\<lambda>_. ''''), pg_table_json = (\<lambda>_. Inr ''''), pg_canon = no_canon, pg_fingerprint = (\<lambda>_. '''')\<rparr>"

end
