(* ===== verification/Agreement.thy ===== *)
theory Agreement
  imports Postgres Session Target_Sample
begin

text \<open>
  Reconciliation from end to end: the digests that the collector computes over the source table (\<open>Reconcile\<close> in \<open>internal/capture/capture.go\<close>) against those that the server
  computes over its copy (\<open>reconcileDigests\<close> and \<open>sameDigests\<close> in \<open>internal/server/reconcile.go\<close>).
\<close>

section \<open>What the digests see of a row\<close>

definition row_print :: "(string \<Rightarrow> string) \<Rightarrow> canon \<Rightarrow> Row \<Rightarrow> bool \<times> bytes \<times> bytes" where
  "row_print sha C row = (has_identity row, columnsHash sha C (if r_Identity row = ''full_row'' then r_Columns row else r_Key row), rowHash sha C row)"

lemma bucket_hashes_print:
  "bucket_hashes sha C n rows i = map (snd \<circ> snd) (filter (\<lambda>p. be_value (take 8 (fst (snd p))) mod n = i) (map (row_print sha C) rows))"
  by (induction rows) (auto simp: bucket_hashes_def row_print_def bucket_of_def)

lemma identity_print: "list_all has_identity rows \<longleftrightarrow> list_all fst (map (row_print sha C) rows)"
  by (induction rows) (auto simp: row_print_def)

lemma Digests_print:
  assumes "mset (map (row_print sha C) rows) = mset (map (row_print sha C) rows')" "\<forall>x. length (sha x) = 32"
  shows "Digests sha C rows buckets = Digests sha C rows' buckets"
proof (cases "buckets = 0")
  case True
  then show ?thesis by (simp add: Digests_def NewBuilder_def)
next
  case False
  have all: "list_all has_identity rows = list_all has_identity rows'"
    unfolding identity_print [of rows sha C] identity_print [of rows' sha C] by (simp only: list.pred_set mset_eq_setD [OF assms(1)])
  have "fold accumulator_add (bucket_hashes sha C n rows i) zero_accumulator = fold accumulator_add (bucket_hashes sha C n rows' i) zero_accumulator" for n i
  proof (rule accumulate_order)
    show "mset (bucket_hashes sha C n rows i) = mset (bucket_hashes sha C n rows' i)"
      unfolding bucket_hashes_print mset_map [of "snd \<circ> snd"] mset_filter assms(1) ..
    show "\<forall>v\<in>set (bucket_hashes sha C n rows i). length v = 32" using rowHash_length [OF assms(2)] by (auto simp: bucket_hashes_def)
  qed (simp add: zero_accumulator_def)
  then show ?thesis by (simp add: Digests_spec [OF False] all)
qed

text \<open>The hash of a list of columns sees of each its name, its type and its normalised value.\<close>

definition column_view :: "canon \<Rightarrow> Column \<Rightarrow> string \<times> string" where
  "column_view C c = (c_Name c, column_part C c)"

lemma map_insort_key: "map f (insort_key (g \<circ> f) x xs) = insort_key g (f x) (map f xs)"
  by (induction xs) auto

lemma map_sort_key: "map f (sort_key (g \<circ> f) xs) = sort_key g (map f xs)"
  by (induction xs) (auto simp: map_insort_key [unfolded comp_def] comp_def)

lemma columns_input_view: "columns_input C cs = concat (map snd (sort_key fst (map (column_view C) cs)))"
proof -
  have "sort_key fst (map (column_view C) cs) = map (column_view C) (sort_key c_Name cs)"
    using map_sort_key [of "column_view C" fst cs] by (simp add: comp_def column_view_def)
  then show ?thesis by (simp add: columns_input_def comp_def column_view_def)
qed

lemma row_print_view:
  assumes "map (column_view C) (r_Columns row) = map (column_view C) (r_Columns row')" "map (column_view C) (r_Key row) = map (column_view C) (r_Key row')"
    and "r_Identity row = r_Identity row'" "r_Schema row = r_Schema row'" "r_Table row = r_Table row'"
  shows "row_print sha C row = row_print sha C row'"
proof -
  have "(r_Columns row = []) = (r_Columns row' = [])" "(r_Key row = []) = (r_Key row' = [])" using assms(1,2) by (metis map_is_Nil_conv)+
  then show ?thesis using assms by (simp add: row_print_def has_identity_def columnsHash_def rowHash_def row_input_def columns_input_view)
qed

section \<open>The rows of source and target\<close>

text \<open>The values of a row of the source as the collector reads them, and the normalised values of a row under the types of the source.\<close>

definition source_values :: "CaptureTable \<Rightarrow> string option list \<Rightarrow> string option list" where
  "source_values t raws = map2 (\<lambda>col raw. c_Value (raw_value col raw)) (ct_Columns t) raws"

definition normal_values :: "canon \<Rightarrow> CaptureTable \<Rightarrow> string option list \<Rightarrow> string option list" where
  "normal_values C t vs = map2 (\<lambda>col v. map_option (normalize C (cc_Type col)) v) (ct_Columns t) vs"

definition answer_of :: "CaptureTable \<Rightarrow> ReconcileResult \<Rightarrow> bool" where
  "answer_of t result \<longleftrightarrow> rr_SourceSchema result = ct_Schema t \<and> rr_Table result = ct_Name t \<and> rr_Columns result = map cc_Name (ct_Columns t) \<and>
     rr_ColumnTypes result = map cc_Type (ct_Columns t) \<and> rr_PrimaryKeys result = KeyNames t"

text \<open>A row of the catalog's table from values: the common form of the rows of both sides.\<close>

definition table_row :: "CaptureTable \<Rightarrow> string option list \<Rightarrow> Row" where
  "table_row t vs =
     (let columns = map2 (\<lambda>col v. zero_Column\<lparr>c_Name := cc_Name col, c_Type := cc_Type col, c_Value := v\<rparr>) (ct_Columns t) vs;
          row = zero_Row\<lparr>r_Schema := ct_Schema t, r_Table := ct_Name t, r_Columns := columns\<rparr> in
      if KeyNames t = [] then row\<lparr>r_Identity := ''full_row'', r_Key := columns\<rparr>
      else row\<lparr>r_Key := filter (\<lambda>c. c_Name c \<in> set (KeyNames t)) columns\<rparr>)"

abbreviation plain_column :: "CaptureColumn \<times> string option \<Rightarrow> Column" where
  "plain_column x \<equiv> zero_Column\<lparr>c_Name := cc_Name (fst x), c_Type := cc_Type (fst x), c_Value := snd x\<rparr>"

lemma table_row_zip:
  assumes "distinct (map cc_Name (ct_Columns t))"
  shows "table_row t vs =
     (let pairs = zip (ct_Columns t) vs; row = zero_Row\<lparr>r_Schema := ct_Schema t, r_Table := ct_Name t, r_Columns := map plain_column pairs\<rparr> in
      if KeyNames t = [] then row\<lparr>r_Identity := ''full_row'', r_Key := map plain_column pairs\<rparr>
      else row\<lparr>r_Key := map plain_column (filter (cc_Primary \<circ> fst) pairs)\<rparr>)"
proof -
  have cols: "map2 (\<lambda>col v. zero_Column\<lparr>c_Name := cc_Name col, c_Type := cc_Type col, c_Value := v\<rparr>) (ct_Columns t) vs = map plain_column (zip (ct_Columns t) vs)"
    by (simp add: case_prod_beta)
  have key: "(cc_Name (fst x) \<in> set (KeyNames t)) = cc_Primary (fst x)" if "x \<in> set (zip (ct_Columns t) vs)" for x
  proof -
    have x: "fst x \<in> set (ct_Columns t)" using that by (metis prod.collapse set_zip_leftD)
    have "a = fst x" if "a \<in> set (ct_Columns t)" "cc_Name (fst x) = cc_Name a" for a
      using inj_onD [of cc_Name "set (ct_Columns t)" a "fst x"] assms that x by (simp add: distinct_map)
    then show ?thesis using x by (auto simp: KeyNames_def)
  qed
  have "filter (\<lambda>c. c_Name c \<in> set (KeyNames t)) (map plain_column (zip (ct_Columns t) vs)) = map plain_column (filter (cc_Primary \<circ> fst) (zip (ct_Columns t) vs))"
    using key by (simp add: filter_map comp_def cong: filter_cong)
  then show ?thesis unfolding table_row_def cols Let_def by simp
qed

lemma zip_source_values:
  "length raws = length (ct_Columns t) \<Longrightarrow>
   zip (ct_Columns t) (source_values t raws) = map (\<lambda>(col, raw). (col, c_Value (raw_value col raw))) (zip (ct_Columns t) raws)"
  by (simp add: source_values_def list_eq_iff_nth_eq)

lemma raw_row_table:
  assumes "distinct (map cc_Name (ct_Columns t))" "ct_RowIdentity t = (if KeyNames t = [] then ''full_row'' else '''')" "length raws = length (ct_Columns t)"
  shows "raw_row t raws = table_row t (source_values t raws)"
proof -
  have v: "raw_value col raw = plain_column (col, c_Value (raw_value col raw))" for col raw by (simp add: raw_value_def)
  have a: "map plain_column (zip (ct_Columns t) (source_values t raws)) = map (\<lambda>(col, raw). raw_value col raw) (zip (ct_Columns t) raws)"
    unfolding zip_source_values [OF assms(3)] by (auto simp: raw_value_def)
  have b: "map plain_column (filter (cc_Primary \<circ> fst) (zip (ct_Columns t) (source_values t raws))) =
      map (\<lambda>(col, raw). raw_value col raw) (filter (\<lambda>(col, raw). cc_Primary col) (zip (ct_Columns t) raws))"
    unfolding zip_source_values [OF assms(3)] by (auto simp: raw_value_def filter_map comp_def case_prod_unfold)
  show ?thesis using assms(2) unfolding table_row_zip [OF assms(1)] raw_row_def Let_def a b by simp
qed

lemma digest_row_table:
  assumes "answer_of t result"
  shows "digest_row result vs = table_row t vs"
proof -
  have "zip (map cc_Name xs) (zip (map cc_Type xs) ws) = map (\<lambda>(col, v). (cc_Name col, cc_Type col, v)) (zip xs ws)" for xs :: "CaptureColumn list" and ws :: "string option list"
  proof (induction xs arbitrary: ws)
    case (Cons x xs)
    then show ?case by (cases ws) simp_all
  qed simp
  then have "map (\<lambda>(name, type, v). zero_Column\<lparr>c_Name := name, c_Type := type, c_Value := v\<rparr>) (zip (map cc_Name (ct_Columns t)) (zip (map cc_Type (ct_Columns t)) vs)) =
      map2 (\<lambda>col v. zero_Column\<lparr>c_Name := cc_Name col, c_Type := cc_Type col, c_Value := v\<rparr>) (ct_Columns t) vs"
    by (simp add: comp_def case_prod_unfold)
  note columns = this
  have r: "rr_SourceSchema result = ct_Schema t" "rr_Table result = ct_Name t" "rr_Columns result = map cc_Name (ct_Columns t)"
    "rr_ColumnTypes result = map cc_Type (ct_Columns t)" "rr_PrimaryKeys result = KeyNames t" using assms by (simp_all add: answer_of_def)
  show ?thesis unfolding digest_row_def table_row_def r columns ..
qed

lemma filter_zip_cong:
  assumes "length vs = length xs" "length ws = length xs" "map f (zip xs vs) = map f (zip xs ws)"
  shows "map f (filter (P \<circ> fst) (zip xs vs)) = map f (filter (P \<circ> fst) (zip xs ws))"
  using assms
proof (induction xs arbitrary: vs ws)
  case (Cons x xs)
  obtain v vs' w ws' where l: "vs = v # vs'" "ws = w # ws'" using Cons.prems(1,2) by (cases vs; cases ws) auto
  have "map f (filter (P \<circ> fst) (zip xs vs')) = map f (filter (P \<circ> fst) (zip xs ws'))" using Cons.IH [of vs' ws'] Cons.prems l by (simp add: comp_def)
  then show ?case using Cons.prems(3) l by (simp add: comp_def)
qed simp

lemma table_row_print:
  assumes "distinct (map cc_Name (ct_Columns t))" "normal_values C t vs = normal_values C t ws" "length vs = length (ct_Columns t)" "length ws = length (ct_Columns t)"
  shows "row_print sha C (table_row t vs) = row_print sha C (table_row t ws)"
proof -
  have part: "column_view C (plain_column (ct_Columns t ! i, vs ! i)) = column_view C (plain_column (ct_Columns t ! i, ws ! i))" if "i < length (ct_Columns t)" for i
  proof -
    have "map_option (normalize C (cc_Type (ct_Columns t ! i))) (vs ! i) = map_option (normalize C (cc_Type (ct_Columns t ! i))) (ws ! i)"
      using arg_cong [OF assms(2), of "\<lambda>l. l ! i"] that assms(3,4) by (simp add: normal_values_def)
    then show ?thesis by (cases "vs ! i"; cases "ws ! i") (simp_all add: column_view_def column_part_def)
  qed
  have cols: "map (column_view C \<circ> plain_column) (zip (ct_Columns t) vs) = map (column_view C \<circ> plain_column) (zip (ct_Columns t) ws)"
    using part assms(3,4) by (intro nth_equalityI) auto
  have keys: "map (column_view C \<circ> plain_column) (filter (cc_Primary \<circ> fst) (zip (ct_Columns t) vs)) =
      map (column_view C \<circ> plain_column) (filter (cc_Primary \<circ> fst) (zip (ct_Columns t) ws))"
    by (rule filter_zip_cong [OF assms(3,4) cols])
  show ?thesis unfolding table_row_zip [OF assms(1)] Let_def by (rule row_print_view) (use cols keys in simp_all)
qed


section \<open>Agreement\<close>

lemma catalog_single:
  assumes "catalog P query [want] = Inr tables"
  shows "\<exists>t. tables = [t] \<and> ct_RowIdentity t = (if KeyNames t = [] then ''full_row'' else '''') \<and> ct_Schema t = tb_Schema want \<and> ct_Name t = tb_Name want \<and> ct_Columns t \<noteq> []"
proof -
  let ?t0 = "\<lparr>ct_RowIdentity = '''', ct_Schema = tb_Schema want, ct_Name = tb_Name want, ct_OID = 0, ct_Identity = '''', ct_Columns = []\<rparr>"
  obtain t where t: "scan_all (catalog_column want) ?t0 (query want) = Inr t"
    using assms by (auto simp: catalog_def catalog_table_def split: sum.splits)
  from t obtain xs where "foldM (catalog_column want) ?t0 xs = Inr t" using foldM_scan by (metis scan_all_Inr)
  then have keep: "ct_RowIdentity t = '''' \<and> ct_Schema t = tb_Schema want \<and> ct_Name t = tb_Name want"
    by (rule foldM_invariant) (auto simp: catalog_column_def split: if_splits)
  have key: "KeyNames (t\<lparr>ct_RowIdentity := r\<rparr>) = KeyNames t" for r by (simp add: KeyNames_def)
  show ?thesis using assms t keep by (auto simp: catalog_def catalog_table_def key split: if_splits)
qed

lemma Reconcile_Inr:
  assumes "capture_Reconcile P ob cfg request = Inr result" "\<forall>sql. cu_Rows (ro_Rows ob sql) = map Inr raws"
  obtains t ds where "catalog P (ro_Catalog ob) [\<lparr>tb_Schema = rq_SourceSchema request, tb_Name = rq_Table request\<rparr>] = Inr [t]"
    "ct_RowIdentity t = (if KeyNames t = [] then ''full_row'' else '''')" "answer_of t result"
    "ct_Schema t = rq_SourceSchema request" "ct_Name t = rq_Table request" "ct_Columns t \<noteq> []"
    "Digests (pg_sha P) (pg_canon P) (map (raw_row t) raws) (rq_Buckets request) = Inr ds" "rr_Digests result = wire_digests ds"
proof -
  obtain tables where cat: "catalog P (ro_Catalog ob) [\<lparr>tb_Schema = rq_SourceSchema request, tb_Name = rq_Table request\<rparr>] = Inr tables"
    using assms(1) by (auto simp: capture_Reconcile_def split: if_splits option.splits sum.splits)
  from catalog_single [OF this] obtain t where t: "tables = [t]" "ct_RowIdentity t = (if KeyNames t = [] then ''full_row'' else '''')"
    "ct_Schema t = rq_SourceSchema request" "ct_Name t = rq_Table request" "ct_Columns t \<noteq> []" by auto
  let ?rows = "ro_Rows ob (select_columns P t)"
  from assms(1) cat t(1) obtain builder b where b: "NewBuilder (rq_Buckets request) = Inr builder"
    "scan_all (\<lambda>b raws. Builder_Add (pg_sha P) (pg_canon P) b (raw_row t raws)) builder ?rows = Inr b"
    and result: "result = (empty_answer request)\<lparr>rr_SourceSchema := ct_Schema t, rr_Table := ct_Name t,
             rr_Columns := map cc_Name (ct_Columns t), rr_ColumnTypes := map cc_Type (ct_Columns t), rr_PrimaryKeys := KeyNames t,
             rr_Digests := wire_digests (Builder_Digests (pg_sha P) b)\<rparr>"
    by (auto simp: capture_Reconcile_def Let_def split: if_splits option.splits sum.splits)
  from b(2) have "foldM (scan_row (\<lambda>b raws. Builder_Add (pg_sha P) (pg_canon P) b (raw_row t raws))) builder (map Inr raws) = Inr b"
    using assms(2) by (simp add: scan_all_Inr)
  then have "foldM (Builder_Add (pg_sha P) (pg_canon P)) builder (map (raw_row t) raws) = Inr b"
    by (induction raws arbitrary: builder) (auto split: sum.splits)
  then have "Digests (pg_sha P) (pg_canon P) (map (raw_row t) raws) (rq_Buckets request) = Inr (Builder_Digests (pg_sha P) b)"
    by (simp add: Digests_def b(1))
  then show ?thesis using that [OF cat [unfolded t(1)] t(2) _ t(3,4,5), of "Builder_Digests (pg_sha P) b"] result by (simp add: answer_of_def)
qed

lemma same_own: "sameDigests (wire_digests ds) ds = (True, 0)"
proof -
  have "filter (\<lambda>(a, b). bd_Bucket a \<noteq> dg_Bucket b \<or> bd_Rows a \<noteq> dg_Rows b \<or> bd_Digest a \<noteq> dg_Hash b) (zip (wire_digests ds) ds) = []"
    by (induction ds) (auto simp: wire_digests_def)
  then show ?thesis by (simp add: sameDigests_def Let_def) (simp add: wire_digests_def)
qed

lemma bucket_counts:
  assumes "0 < n"
  shows "(\<Sum>i<n. length (bucket_hashes sha C n rows i)) = length rows"
proof (induction rows)
  case (Cons row rows)
  have "length (bucket_hashes sha C n (row # rows) i) = (if i = bucket_of sha C n row then 1 else 0) + length (bucket_hashes sha C n rows i)" for i
    by (simp add: bucket_hashes_def)
  moreover have "bucket_of sha C n row < n" using assms by (simp add: bucket_of_def)
  ultimately show ?case using Cons.IH by (simp add: sum.distrib)
qed (simp add: bucket_hashes_def)


lemma table_rows_print:
  assumes "distinct (map cc_Name (ct_Columns t))" "mset (map (normal_values C t) vss) = mset (map (normal_values C t) wss)"
    and "\<forall>vs\<in>set vss \<union> set wss. length vs = length (ct_Columns t)"
  shows "mset (map (row_print sha C \<circ> table_row t) vss) = mset (map (row_print sha C \<circ> table_row t) wss)"
proof -
  define h where "h nv = row_print sha C (table_row t (SOME vs. normal_values C t vs = nv \<and> length vs = length (ct_Columns t)))" for nv
  have h: "h (normal_values C t vs) = row_print sha C (table_row t vs)" if "length vs = length (ct_Columns t)" for vs
  proof -
    have "\<exists>us. normal_values C t us = normal_values C t vs \<and> length us = length (ct_Columns t)" using that by blast
    from someI_ex [OF this] show ?thesis unfolding h_def by (intro table_row_print [OF assms(1)]) (use that in auto)
  qed
  have "map (row_print sha C \<circ> table_row t) vss = map h (map (normal_values C t) vss)" "map (row_print sha C \<circ> table_row t) wss = map h (map (normal_values C t) wss)"
    using assms(3) h by simp_all
  then show ?thesis using assms(2) by (simp only: mset_map)
qed

lemma table_row_identity:
  assumes "ct_Columns t \<noteq> []" "length vs = length (ct_Columns t)" "distinct (map cc_Name (ct_Columns t))"
  shows "has_identity (table_row t vs)"
proof (cases "KeyNames t = []")
  case True
  then show ?thesis using assms by (auto simp: has_identity_def table_row_def Let_def zip_eq_Nil_iff)
next
  case False
  then obtain k where k: "k < length (ct_Columns t)" "cc_Primary (ct_Columns t ! k)" by (auto simp: KeyNames_def filter_empty_conv in_set_conv_nth)
  then have "(ct_Columns t ! k, vs ! k) \<in> set (filter (cc_Primary \<circ> fst) (zip (ct_Columns t) vs))" using assms(2) by (auto simp: in_set_zip)
  then have "filter (cc_Primary \<circ> fst) (zip (ct_Columns t) vs) \<noteq> []" by (metis empty_iff empty_set)
  then show ?thesis using False unfolding table_row_zip [OF assms(3)] Let_def has_identity_def by (simp add: zero_Row_def)
qed

lemma unat_small: "m < 2 ^ 64 \<Longrightarrow> unat (of_nat m :: 64 word) = m"
  unfolding unat_of_nat by simp

lemma same_counts:
  assumes sha: "\<forall>x. length (sha x) = 32" and a: "Digests sha C rows n = Inr ds" and b: "Digests sha C rows' n = Inr ds'"
    and len: "length rows < 2 ^ 64" "length rows' < 2 ^ 64" and same: "fst (sameDigests (wire_digests ds) ds')"
  shows "length rows = length rows'"
proof -
  have n: "n \<noteq> 0" using a by (auto simp: Digests_def NewBuilder_def)
  then have pos: "0 < unat n" by (simp add: unat_gt_0)
  have count: "length (bucket_hashes sha C (unat n) rows i) = length (bucket_hashes sha C (unat n) rows' i)" if i: "i < unat n" for i
  proof -
    have da: "length ds = unat n" "dg_Rows (ds ! i) = of_nat (length (bucket_hashes sha C (unat n) rows i))"
      using digest_is_sum [OF sha a i] by (auto simp: bucket_hashes_def)
    have db: "length ds' = unat n" "dg_Rows (ds' ! i) = of_nat (length (bucket_hashes sha C (unat n) rows' i))"
      using digest_is_sum [OF sha b i] by (auto simp: bucket_hashes_def)
    have "(wire_digests ds ! i, ds' ! i) \<in> set (zip (wire_digests ds) ds')" using i da(1) db(1) unfolding in_set_zip by (intro exI [of _ i]) (simp add: wire_digests_def)
    then have "bd_Rows (wire_digests ds ! i) = dg_Rows (ds' ! i)" using same by (auto simp: sameDigests_def Let_def filter_empty_conv split: if_splits)
    then have eq: "(of_nat (length (bucket_hashes sha C (unat n) rows i)) :: 64 word) = of_nat (length (bucket_hashes sha C (unat n) rows' i))"
      using da db i by (simp add: wire_digests_def)
    have small: "length (bucket_hashes sha C (unat n) rs i) \<le> length rs" for rs by (simp add: bucket_hashes_def)
    have "unat (of_nat (length (bucket_hashes sha C (unat n) rs i)) :: 64 word) = length (bucket_hashes sha C (unat n) rs i)" if "length rs < 2 ^ 64" for rs
      by (rule unat_small [OF le_less_trans [OF small that]])
    note read = this
    show ?thesis by (rule trans [OF read [OF len(1), symmetric] trans [OF arg_cong [OF eq, of unat] read [OF len(2)]]])
  qed
  have "(\<Sum>i<unat n. length (bucket_hashes sha C (unat n) rows i)) = (\<Sum>i<unat n. length (bucket_hashes sha C (unat n) rows' i))"
    by (rule sum.cong) (use count in auto)
  then show ?thesis unfolding bucket_counts [OF pos] .
qed




section \<open>An instance\<close>

definition note_column :: CaptureColumn where
  "note_column = \<lparr>cc_Name = ''note'', cc_Type = ''text'', cc_OID = 25, cc_NotNull = False, cc_Default = None, cc_Primary = False\<rparr>"

definition note_table :: CaptureTable where
  "note_table = sample_table\<lparr>ct_Columns := ct_Columns sample_table @ [note_column]\<rparr>"

definition note_catalog :: "Table \<Rightarrow> catalog_row cursor" where
  "note_catalog want = \<lparr>cu_Query = None, cu_Rows = map (\<lambda>c. Inr \<lparr>kr_OID = 1, kr_Kind = ''r'', kr_Persistence = ''p'', kr_Identity = ''d'', kr_Inherited = False, kr_Column = c,
     kr_RowSecurity = False, kr_Generated = ''''\<rparr>) (ct_Columns note_table), cu_Err = None\<rparr>"

definition note_obs :: "string option list list \<Rightarrow> reconcile_obs" where
  "note_obs raws = \<lparr>ro_Connect = None, ro_Begin = None, ro_Catalog = note_catalog, ro_Rows = (\<lambda>_. \<lparr>cu_Query = None, cu_Rows = map Inr raws, cu_Err = None\<rparr>), ro_Commit = None\<rparr>"

definition note_request :: ReconcileRequest where
  "note_request = \<lparr>rq_RequestId = ''r1'', rq_SourceSchema = ''public'', rq_Table = ''t'', rq_Buckets = 4, rq_AllBuckets = True, rq_Bucket = 0, rq_IncludeRows = False, rq_TimeoutSeconds = 60\<rparr>"

definition note_config :: Config where
  "note_config = small_config\<lparr>cfg_Tables := [\<lparr>tb_Schema = ''public'', tb_Name = ''t''\<rparr>]\<rparr>"

definition note_serv :: "string option list list \<Rightarrow> (Message, statement_log, content_map) serv" where
  "note_serv own = tenv.extend sample_tenv \<lparr>xe_query = (\<lambda>_ _. Inr own), xe_sha = flat_sha, xe_canon = no_canon, xe_duration = (\<lambda>_. 0), xe_daily = (\<lambda>_ _ _. 0)\<rparr>"

lemma note_catalog_ok: "catalog sample_penv note_catalog [\<lparr>tb_Schema = ''public'', tb_Name = ''t''\<rparr>] = Inr [note_table]"
  by (simp add: catalog_def catalog_table_def scan_all_def note_catalog_def catalog_column_def note_table_def sample_table_def KeyNames_def note_column_def)


end
