(* ===== verification/Capture.thy ===== *)
theory Capture
  imports Grpc Postgres
begin

text \<open>
  The collector of a PostgreSQL source, \<open>internal/capture/capture.go\<close>: an attempt recovers the queue, checks that the source is the one of the stored state, takes a
  snapshot unless one is sealed, and streams from the durable position; \<open>Run\<close> repeats attempts.  Whatever the driver and the server of the source report is
  observed; the calls of the queue take rounds, as in the batcher.
\<close>

section \<open>Snapshots\<close>

text \<open>The slot: plugin, database, type and whether it is active.\<close>

record slot_row =
  sl_Plugin :: string
  sl_Database :: string
  sl_Type :: string
  sl_Active :: bool

record snapshot_obs =
  so_Connect :: "err option"
  so_Exists :: "bool res"
  so_Replication :: "err option"
  so_Slot :: "slot_row res"
  so_Drop :: "err option"
  so_Token :: "string res"
  so_Create :: "(string \<times> string) res"
  so_Begin :: "err option"
  so_Import :: "err option"
  so_Lock :: "CaptureTable \<Rightarrow> err option"
  so_Catalog :: "Table \<Rightarrow> catalog_row cursor"
  so_Rows :: "CaptureTable \<Rightarrow> string option list cursor"
  so_Commit :: "err option"

text \<open>What the code does with a slot of the configured name before it creates its own.\<close>

definition replace_slot :: "snapshot_obs \<Rightarrow> string \<Rightarrow> string \<Rightarrow> err option" where
  "replace_slot ob db phase =
     (case so_Connect ob of Some e \<Rightarrow> Some e | None \<Rightarrow>
      case so_Exists ob of Inl e \<Rightarrow> Some e | Inr exists \<Rightarrow>
      if exists \<and> phase = '''' then Some (Err ''configured slot already exists but has no local ownership record'')
      else case so_Replication ob of Some e \<Rightarrow> Some e | None \<Rightarrow>
        if \<not> exists then None
        else (case so_Slot ob of Inl e \<Rightarrow> Some e | Inr s \<Rightarrow>
          if sl_Plugin s \<noteq> ''wal2json'' \<or> sl_Database s \<noteq> db \<or> sl_Type s \<noteq> ''logical'' \<or> sl_Active s
          then Some (Err ''refusing to replace a slot with different ownership or an active consumer'')
          else so_Drop ob))"

definition initial_state :: "penv \<Rightarrow> Config \<Rightarrow> capture_Inspection \<Rightarrow> string \<Rightarrow> State" where
  "initial_state P cfg info token = zero_State\<lparr>s_SourceID := cfg_SourceID cfg, s_Generation := hex_EncodeToString token,
     s_Fingerprint := Fingerprint (pg_sha P) (pg_fingerprint P) cfg, s_SystemID := ip_SystemID info, s_Timeline := ip_Timeline info, s_Database := ip_Database info,
     s_SchemaHash := schemaHash P (ip_Tables info), s_Slot := cfg_Slot cfg,
     s_ProtocolVersion := (if list_ex (\<lambda>t. ct_RowIdentity t = ''full_row'') (ip_Tables info) then ''v2'' else '''')\<rparr>"

definition table_refs :: "Config \<Rightarrow> TableRef list" where
  "table_refs cfg = map (\<lambda>t. \<lparr>tr_Schema = tb_Schema t, tr_Name = tb_Name t\<rparr>) (cfg_Tables cfg)"

definition snapshot_begin :: "Config \<Rightarrow> string \<Rightarrow> Message" where
  "snapshot_begin cfg lsn = (kind_msg ''snapshot_begin'')\<lparr>m_Tables := table_refs cfg, m_LSN := lsn\<rparr>"

definition schema_msg :: "string \<Rightarrow> Message" where
  "schema_msg raw = (kind_msg ''schema'')\<lparr>m_Schema := raw\<rparr>"

definition snapshot_end_msg :: "string \<Rightarrow> Message" where
  "snapshot_end_msg lsn = (kind_msg ''snapshot_end'')\<lparr>m_LSN := lsn\<rparr>"

text \<open>The schemas of the tables, appended one by one; a table that cannot be encoded stops the loop.\<close>

fun append_schemas ::
  "('v, 'b, 'z) qenv_scheme \<Rightarrow> penv \<Rightarrow> 'b round list \<Rightarrow> 'b Store \<Rightarrow> CaptureTable list \<Rightarrow> 'b Store \<times> flow \<times> 'b round list" where
  "append_schemas E P rs q [] = (q, Done, rs)"
| "append_schemas E P rs q (t # ts) =
     (case pg_table_json P t of
        Inl e \<Rightarrow> (q, Failed e, rs)
      | Inr raw \<Rightarrow> then_call (capture_append E rs q (schema_msg raw)) (\<lambda>q rs. append_schemas E P rs q ts))"

definition snapshot_row :: "CaptureTable \<Rightarrow> nat \<Rightarrow> string option list \<Rightarrow> Row" where
  "snapshot_row t n raws = (raw_row t raws)\<lparr>r_Operation := ''read'', r_Ordinal := n\<rparr>"

text \<open>The loop over the rows of one table, which numbers them from one, and the loop over the tables.\<close>

fun snapshot_rows ::
  "('v, 'b, 'z) qenv_scheme \<Rightarrow> fenv \<Rightarrow> Config \<Rightarrow> CaptureTable \<Rightarrow> 'b round list \<Rightarrow> 'b batcher \<Rightarrow> nat \<Rightarrow> string option list res list \<Rightarrow> 'b batcher \<times> flow \<times> 'b round list" where
  "snapshot_rows E fe cfg t rs b n [] = (b, Done, rs)"
| "snapshot_rows E fe cfg t rs b n (Inl e # raws) = (b, Failed e, rs)"
| "snapshot_rows E fe cfg t rs b n (Inr raw # raws) =
     (case capture_add E fe cfg rs b (snapshot_row t (n + 1) raw) of
        (b1, Done, rs1) \<Rightarrow> snapshot_rows E fe cfg t rs1 b1 (n + 1) raws
      | other \<Rightarrow> other)"

definition snapshot_table ::
  "('v, 'b, 'z) qenv_scheme \<Rightarrow> fenv \<Rightarrow> Config \<Rightarrow> snapshot_obs \<Rightarrow> 'b round list \<Rightarrow> 'b batcher \<Rightarrow> CaptureTable \<Rightarrow> 'b batcher \<times> flow \<times> 'b round list" where
  "snapshot_table E fe cfg ob rs b t =
     (case cu_Query (so_Rows ob t) of
        Some e \<Rightarrow> (b, Failed e, rs)
      | None \<Rightarrow>
          (case snapshot_rows E fe cfg t rs b 0 (cu_Rows (so_Rows ob t)) of
             (b1, Done, rs1) \<Rightarrow> (b1, (case cu_Err (so_Rows ob t) of Some e \<Rightarrow> Failed e | None \<Rightarrow> Done), rs1)
           | other \<Rightarrow> other))"

fun snapshot_tables ::
  "('v, 'b, 'z) qenv_scheme \<Rightarrow> fenv \<Rightarrow> Config \<Rightarrow> snapshot_obs \<Rightarrow> 'b round list \<Rightarrow> 'b batcher \<Rightarrow> CaptureTable list \<Rightarrow> 'b batcher \<times> flow \<times> 'b round list" where
  "snapshot_tables E fe cfg ob rs b [] = (b, Done, rs)"
| "snapshot_tables E fe cfg ob rs b (t # ts) =
     (case snapshot_table E fe cfg ob rs b t of
        (b1, Done, rs1) \<Rightarrow> snapshot_tables E fe cfg ob rs1 b1 ts
      | other \<Rightarrow> other)"

text \<open>The last chunk, the closing message, the end of the transaction of the source, and the publication.\<close>

definition close_snapshot ::
  "('v, 'b, 'z) qenv_scheme \<Rightarrow> snapshot_obs \<Rightarrow> string \<Rightarrow> 'b batcher \<Rightarrow> 'b round list \<Rightarrow> 'b Store \<times> flow \<times> 'b round list" where
  "close_snapshot E ob point b rs =
     (case capture_flush E rs b of
        (b, Done, rs) \<Rightarrow>
          then_call (capture_append E rs (bt_q b) (snapshot_end_msg point)) (\<lambda>q rs.
            (case so_Commit ob of Some e \<Rightarrow> (q, Failed e, rs) | None \<Rightarrow> capture_publish rs q point True))
      | (b, f, rs) \<Rightarrow> (bt_q b, f, rs))"

text \<open>The part of \<open>snapshot\<close> that fills the queue.\<close>

definition snapshot_fill ::
  "('v, 'b, 'z) qenv_scheme \<Rightarrow> penv \<Rightarrow> fenv \<Rightarrow> Config \<Rightarrow> snapshot_obs \<Rightarrow> CaptureTable list \<Rightarrow> string \<Rightarrow> 'b Store \<Rightarrow> 'b round list \<Rightarrow> 'b Store \<times> flow \<times> 'b round list" where
  "snapshot_fill E P fe cfg ob current point q rs =
     then_call (capture_append E rs q (snapshot_begin cfg point)) (\<lambda>q rs.
     then_call (append_schemas E P rs q current) (\<lambda>q rs.
       (case snapshot_tables E fe cfg ob rs \<lparr>bt_q = q, bt_msg = kind_msg ''snapshot_rows'', bt_size = 0\<rparr> current of
          (b, Done, rs) \<Rightarrow> close_snapshot E ob point b rs
        | (b, f, rs) \<Rightarrow> (bt_q b, f, rs))))"

text \<open>The transaction of the source: the exported snapshot is imported, the tables are locked and their schema is read again.\<close>

definition snapshot_read ::
  "('v, 'b, 'z) qenv_scheme \<Rightarrow> penv \<Rightarrow> fenv \<Rightarrow> Config \<Rightarrow> snapshot_obs \<Rightarrow> capture_Inspection \<Rightarrow> string \<Rightarrow> 'b Store \<Rightarrow> 'b round list \<Rightarrow> 'b Store \<times> flow \<times> 'b round list" where
  "snapshot_read E P fe cfg ob info point q rs =
     (case so_Begin ob of Some e \<Rightarrow> (q, Failed e, rs) | None \<Rightarrow>
      case so_Import ob of Some e \<Rightarrow> (q, Failed e, rs) | None \<Rightarrow>
      case List.find (\<lambda>t. so_Lock ob t \<noteq> None) (ip_Tables info) of Some t \<Rightarrow> (q, Failed (the (so_Lock ob t)), rs) | None \<Rightarrow>
      case catalog P (so_Catalog ob) (cfg_Tables cfg) of Inl e \<Rightarrow> (q, Failed e, rs) | Inr current \<Rightarrow>
        if schemaHash P current \<noteq> schemaHash P (ip_Tables info) then (q, Failed (Err ''schema changed while opening snapshot''), rs)
        else snapshot_fill E P fe cfg ob current point q rs)"

definition snapshot ::
  "('v, 'b, 'z) qenv_scheme \<Rightarrow> penv \<Rightarrow> fenv \<Rightarrow> Config \<Rightarrow> snapshot_obs \<Rightarrow> capture_Inspection \<Rightarrow> 'b round list \<Rightarrow> 'b Store \<Rightarrow> 'b Store \<times> flow \<times> 'b round list" where
  "snapshot E P fe cfg ob info rs q =
     (case replace_slot ob (ip_Database info) (s_Phase (st q)) of Some e \<Rightarrow> (q, Failed e, rs) | None \<Rightarrow>
      case so_Token ob of Inl e \<Rightarrow> (q, Failed e, rs) | Inr token \<Rightarrow>
      then_call (queue_call (\<lambda>o' q. Initialize E o' q (initial_state P cfg info token)) rs q) (\<lambda>q rs.
        (case so_Create ob of Inl e \<Rightarrow> (q, Failed e, rs) | Inr (name, point) \<Rightarrow>
         if name = '''' then (q, Failed (Err ''slot did not export a snapshot''), rs)
         else then_call (queue_call (\<lambda>o' q. SnapshotPoint o' q point) rs q) (snapshot_read E P fe cfg ob info point))))"

section \<open>Streaming\<close>

record stream_obs =
  to_Connect :: "err option"
  to_Slot :: "slot_row res"
  to_Confirmed :: "string option res"
  to_Replication :: "err option"
  to_Start :: "err option"

text \<open>Everything up to the loop; \<open>to_Slot\<close> has no type here.\<close>

definition stream_open :: "denv \<Rightarrow> stream_obs \<Rightarrow> CaptureTable list \<Rightarrow> 'b Store \<Rightarrow> 'b decoder res" where
  "stream_open de ob tables q =
     (case parse_lsn de (s_DurableLSN (st q)) of None \<Rightarrow> Inl (Err ''invalid lsn'') | Some start \<Rightarrow>
      case to_Connect ob of Some e \<Rightarrow> Inl e | None \<Rightarrow>
      case to_Slot ob of Inl e \<Rightarrow> Inl (Wrap ''required slot unavailable'' e) | Inr s \<Rightarrow>
      if sl_Plugin s \<noteq> ''wal2json'' \<or> sl_Database s \<noteq> s_Database (st q) \<or> sl_Active s then Inl (Err ''slot does not match capture or is already active'')
      else (case to_Confirmed ob of Inl e \<Rightarrow> Inl e | Inr confirmed \<Rightarrow>
        case (case confirmed of None \<Rightarrow> None | Some text \<Rightarrow>
                (case parse_lsn de text of None \<Rightarrow> Some (Err ''invalid lsn'')
                 | Some lsn \<Rightarrow> if lsn > start then Some (Err ''slot is ahead of local durable checkpoint; possible lost local state'') else None)) of
          Some e \<Rightarrow> Inl e
        | None \<Rightarrow>
            (case to_Replication ob of Some e \<Rightarrow> Inl e | None \<Rightarrow>
             case to_Start ob of Some e \<Rightarrow> Inl e | None \<Rightarrow> Inr (newDecoder q tables start))))"

text \<open>A message of the replication connection: an error of \<open>ReceiveMessage\<close>, a timeout, a copy frame, a server error, the end of the copy, or another
  message, which the loop ignores.\<close>

datatype wal_message = ReceiveFailed err | ReceiveTimeout | CopyData string | ErrorResponse err | CopyDone | OtherMessage

text \<open>The parsers of the two kinds of frames: a keepalive says whether a reply is requested, a data frame carries the bytes of the plugin.\<close>

record wal_env = denv +
  keepalive_id :: char
  xlog_id :: char
  parse_keepalive :: "string \<Rightarrow> bool res"
  parse_xlog :: "string \<Rightarrow> string res"

text \<open>One pass of the loop: the context, the measurement of the retained log when it is due, the feedback when it is due, the message, the context after it, the
  answer to a keepalive, and the catalog for a refresh.\<close>

record pass =
  pa_Ctx :: "err option"
  pa_Feedback :: "err option option"
  pa_Metrics :: "err option"
  pa_Message :: wal_message
  pa_After :: "err option"
  pa_Reply :: "err option"
  pa_Catalog :: "Table \<Rightarrow> catalog_row cursor"

text \<open>The schema is published anew at the durable position and the collector reconnects, so that the transaction is read again under the new schema.\<close>

fun refresh_schemas ::
  "('v, 'b, 'z) qenv_scheme \<Rightarrow> penv \<Rightarrow> string \<Rightarrow> 'b round list \<Rightarrow> 'b Store \<Rightarrow> CaptureTable list \<Rightarrow> 'b Store \<times> flow \<times> 'b round list" where
  "refresh_schemas E P hash rs q [] = (q, Done, rs)"
| "refresh_schemas E P hash rs q (t # ts) =
     (case pg_table_json P t of
        Inl e \<Rightarrow> (q, Failed e, rs)
      | Inr raw \<Rightarrow> then_call (queue_call (\<lambda>o' q. Append E o' q ((schema_msg raw)\<lparr>m_SchemaVersion := hash\<rparr>)) rs q) (\<lambda>q rs. refresh_schemas E P hash rs q ts))"

definition refreshSchemaForReplay ::
  "('v, 'b, 'z) qenv_scheme \<Rightarrow> penv \<Rightarrow> Config \<Rightarrow> (Table \<Rightarrow> catalog_row cursor) \<Rightarrow> string \<Rightarrow> string \<Rightarrow> 'b round list \<Rightarrow> 'b Store \<Rightarrow> 'b Store \<times> flow \<times> 'b round list" where
  "refreshSchemaForReplay E P cfg query durable oldHash rs q =
     (if DeliveryTransport cfg \<noteq> ''grpc'' then (q, Failed (Err ''postgres schema changed; online adaptation requires the standard gRPC server''), rs)
      else case catalog P query (cfg_Tables cfg) of Inl e \<Rightarrow> (q, Failed e, rs) | Inr current \<Rightarrow>
        (let hash = schemaHash P current in
         if hash = oldHash then (q, Failed ErrSchemaMismatch, rs)
         else then_call (queue_call (Recover E) rs q) (\<lambda>q rs.
           then_call (refresh_schemas E P hash rs q current) (\<lambda>q rs.
           then_call (queue_call (\<lambda>o' q. Append E o' q ((kind_msg ''schema_end'')\<lparr>m_SchemaVersion := hash\<rparr>)) rs q) (\<lambda>q rs.
             queue_call (\<lambda>o' q. PublishSchema o' q durable hash) rs q)))))"

text \<open>The body of the loop.  The result has the decoder, the positions that were reported to the server of the source, and the error with which the loop ends, if it does; a
  decoder that still waits for room in the queue leaves the loop where it is.\<close>

datatype pass_end = Goes_on | Stops err | Waits

definition on_flow :: "flow \<Rightarrow> pass_end" where
  "on_flow f = (case f of Done \<Rightarrow> Goes_on | Failed e \<Rightarrow> Stops e | Blocked \<Rightarrow> Waits)"

definition on_wal ::
  "('v, 'b, 'z) qenv_scheme \<Rightarrow> penv \<Rightarrow> ('y) wal_env_scheme \<Rightarrow> fenv \<Rightarrow> Config \<Rightarrow> (nat \<Rightarrow> string) \<Rightarrow> string \<Rightarrow> pass \<Rightarrow> string \<Rightarrow> 'b round list \<Rightarrow> 'b decoder \<Rightarrow>
   'b decoder \<times> pass_end \<times> 'b round list" where
  "on_wal E P R fe cfg lsn_text oldHash pa data rs d =
     (case consume E (denv.truncate R) fe cfg rs d data of
        (d', Failed e, rs') \<Rightarrow>
          if errors_Is e ErrSchemaMismatch then
            (case refreshSchemaForReplay E P cfg (pa_Catalog pa) (lsn_text (d_durable d')) oldHash rs' (bt_q (d_b d')) of
               (q, Done, rs'') \<Rightarrow> (d'\<lparr>d_b := (d_b d')\<lparr>bt_q := q\<rparr>\<rparr>, Stops ErrSchemaRefreshed, rs'')
             | (q, f, rs'') \<Rightarrow> (d'\<lparr>d_b := (d_b d')\<lparr>bt_q := q\<rparr>\<rparr>, on_flow f, rs''))
          else (d', Stops e, rs')
      | (d', f, rs') \<Rightarrow> (d', on_flow f, rs'))"

definition on_copy ::
  "('v, 'b, 'z) qenv_scheme \<Rightarrow> penv \<Rightarrow> ('y) wal_env_scheme \<Rightarrow> fenv \<Rightarrow> Config \<Rightarrow> (nat \<Rightarrow> string) \<Rightarrow> string \<Rightarrow> pass \<Rightarrow> string \<Rightarrow> 'b round list \<Rightarrow> 'b decoder \<Rightarrow>
   'b decoder \<times> nat list \<times> pass_end \<times> 'b round list" where
  "on_copy E P R fe cfg lsn_text oldHash pa data rs d =
     (case data of
        [] \<Rightarrow> (d, [], Stops (Err ''empty replication frame''), rs)
      | c # body \<Rightarrow>
          if c = keepalive_id R then
            (if length data < 18 then (d, [], Stops (Err ''short keepalive frame''), rs)
             else case parse_keepalive R body of
                 Inl e \<Rightarrow> (d, [], Stops e, rs)
               | Inr reply \<Rightarrow> if reply then (case pa_Reply pa of Some e \<Rightarrow> (d, [], Stops e, rs) | None \<Rightarrow> (d, [d_durable d], Goes_on, rs)) else (d, [], Goes_on, rs))
          else if c = xlog_id R then
            (if length data < 25 then (d, [], Stops (Err ''short xlog frame''), rs)
             else case parse_xlog R body of
                 Inl e \<Rightarrow> (d, [], Stops e, rs)
               | Inr wal \<Rightarrow> (case on_wal E P R fe cfg lsn_text oldHash pa wal rs d of (d', f, rs') \<Rightarrow> (d', [], f, rs')))
          else (d, [], Stops (Err ''unsupported replication frame''), rs))"

definition stream_pass ::
  "('v, 'b, 'z) qenv_scheme \<Rightarrow> penv \<Rightarrow> ('y) wal_env_scheme \<Rightarrow> fenv \<Rightarrow> Config \<Rightarrow> (nat \<Rightarrow> string) \<Rightarrow> string \<Rightarrow> pass \<Rightarrow> 'b round list \<Rightarrow> 'b decoder \<Rightarrow>
   'b decoder \<times> nat list \<times> pass_end \<times> 'b round list" where
  "stream_pass E P R fe cfg lsn_text oldHash pa rs d =
     (case pa_Ctx pa of Some e \<Rightarrow> (d, [], Stops e, rs) | None \<Rightarrow>
      case (case pa_Feedback pa of None \<Rightarrow> Inr [] | Some r \<Rightarrow> guarded (pa_Metrics pa) (guarded r (Inr [d_durable d]))) of
        Inl e \<Rightarrow> (d, [], Stops e, rs)
      | Inr sent \<Rightarrow>
          (case pa_Message pa of
             ReceiveFailed e \<Rightarrow> (case pa_After pa of Some e' \<Rightarrow> (d, sent, Stops e', rs) | None \<Rightarrow> (d, sent, Stops e, rs))
           | ReceiveTimeout \<Rightarrow> (case pa_After pa of Some e' \<Rightarrow> (d, sent, Stops e', rs) | None \<Rightarrow> (d, sent, Goes_on, rs))
           | CopyData data \<Rightarrow> (case on_copy E P R fe cfg lsn_text oldHash pa data rs d of (d', extra, f, rs') \<Rightarrow> (d', sent @ extra, f, rs'))
           | ErrorResponse e \<Rightarrow> (d, sent, Stops e, rs)
           | CopyDone \<Rightarrow> (d, sent, Stops (Err ''logical replication ended unexpectedly''), rs)
           | OtherMessage \<Rightarrow> (d, sent, Goes_on, rs)))"

fun stream_loop ::
  "('v, 'b, 'z) qenv_scheme \<Rightarrow> penv \<Rightarrow> ('y) wal_env_scheme \<Rightarrow> fenv \<Rightarrow> Config \<Rightarrow> (nat \<Rightarrow> string) \<Rightarrow> string \<Rightarrow> pass list \<Rightarrow> 'b round list \<Rightarrow> 'b decoder \<Rightarrow>
   'b decoder \<times> nat list \<times> pass_end \<times> 'b round list" where
  "stream_loop E P R fe cfg lsn_text oldHash [] rs d = (d, [], Waits, rs)"
| "stream_loop E P R fe cfg lsn_text oldHash (pa # pas) rs d =
     (case stream_pass E P R fe cfg lsn_text oldHash pa rs d of
        (d1, sent, Goes_on, rs1) \<Rightarrow> (case stream_loop E P R fe cfg lsn_text oldHash pas rs1 d1 of (d2, extra, f, rs2) \<Rightarrow> (d2, sent @ extra, f, rs2))
      | other \<Rightarrow> other)"


section \<open>Attempts\<close>

record attempt_obs =
  at_Inspect :: inspect_obs
  at_State :: "err option"
  at_Plugin :: "err option"
  at_Snapshot :: snapshot_obs
  at_StreamState :: "err option"
  at_Stream :: stream_obs
  at_Passes :: "pass list"

text \<open>The comparison of the stored state with the configuration and the source.\<close>

definition identity_check :: "penv \<Rightarrow> Config \<Rightarrow> capture_Inspection \<Rightarrow> State \<Rightarrow> err option" where
  "identity_check P cfg info x =
     (if s_Phase x = '''' then None
      else if s_Fingerprint x \<noteq> Fingerprint (pg_sha P) (pg_fingerprint P) cfg \<or> s_Slot x \<noteq> cfg_Slot cfg then Some (Err ''capture configuration differs from persisted state'')
      else if s_SystemID x \<noteq> ip_SystemID info \<or> s_Database x \<noteq> ip_Database info \<or> s_Timeline x \<noteq> ip_Timeline info
      then Some (Err ''source identity/timeline changed; automatic failover is unsupported'')
      else if s_Phase x = ''stream'' \<and> s_SchemaHash x \<noteq> schemaHash P (ip_Tables info)
      then Some (Err ''schema changed while collector was offline; explicit reinitialization is required'')
      else None)"

definition stream ::
  "('v, 'b, 'z) qenv_scheme \<Rightarrow> penv \<Rightarrow> ('y) wal_env_scheme \<Rightarrow> fenv \<Rightarrow> Config \<Rightarrow> (nat \<Rightarrow> string) \<Rightarrow> attempt_obs \<Rightarrow> CaptureTable list \<Rightarrow> 'b round list \<Rightarrow> 'b Store \<Rightarrow>
   'b Store \<times> nat list \<times> pass_end \<times> 'b round list" where
  "stream E P R fe cfg lsn_text ob tables rs q =
     (case at_StreamState ob of Some e \<Rightarrow> (q, [], Stops e, rs) | None \<Rightarrow>
      case stream_open (denv.truncate R) (at_Stream ob) tables q of
        Inl e \<Rightarrow> (q, [], Stops e, rs)
      | Inr d \<Rightarrow> (case stream_loop E P R fe cfg lsn_text (s_SchemaHash (st q)) (at_Passes ob) rs d of (d', sent, f, rs') \<Rightarrow> (bt_q (d_b d'), sent, f, rs')))"

text \<open>Everything of an attempt before the stream: the queue forgets what was not published, the source is inspected and compared with the stored state, and a snapshot is taken
  unless one is sealed.\<close>

definition prepare ::
  "('v, 'b, 'z) qenv_scheme \<Rightarrow> penv \<Rightarrow> fenv \<Rightarrow> Config \<Rightarrow> attempt_obs \<Rightarrow> 'b round list \<Rightarrow> 'b Store \<Rightarrow> 'b Store \<times> flow \<times> 'b round list" where
  "prepare E P fe cfg ob rs q =
     then_call (queue_call (Recover E) rs q) (\<lambda>q rs.
       (case capture_Inspect P (at_Inspect ob) cfg of Inl e \<Rightarrow> (q, Failed e, rs) | Inr info \<Rightarrow>
        case at_State ob of Some e \<Rightarrow> (q, Failed e, rs) | None \<Rightarrow>
        case identity_check P cfg info (st q) of Some e \<Rightarrow> (q, Failed e, rs) | None \<Rightarrow>
        case at_Plugin ob of Some e \<Rightarrow> (q, Failed e, rs) | None \<Rightarrow>
        if s_Phase (st q) \<noteq> ''stream'' then snapshot E P fe cfg (at_Snapshot ob) info rs q else (q, Done, rs)))"

definition attempt ::
  "('v, 'b, 'z) qenv_scheme \<Rightarrow> penv \<Rightarrow> ('y) wal_env_scheme \<Rightarrow> fenv \<Rightarrow> Config \<Rightarrow> (nat \<Rightarrow> string) \<Rightarrow> attempt_obs \<Rightarrow> 'b round list \<Rightarrow> 'b Store \<Rightarrow>
   'b Store \<times> nat list \<times> pass_end \<times> 'b round list" where
  "attempt E P R fe cfg lsn_text ob rs q =
     (case (prepare E P fe cfg ob rs q, capture_Inspect P (at_Inspect ob) cfg) of
        ((q', Done, rs'), Inr info) \<Rightarrow> stream E P R fe cfg lsn_text ob (ip_Tables info) rs' q'
      | ((q', f, rs'), _) \<Rightarrow> (q', [], on_flow f, rs'))"

text \<open>How the driver and the network classify an error: the SQLSTATE of an error of the server, a network failure or timeout, an error before anything was sent, and the
  ends of a connection.\<close>

record errclass =
  ec_Code :: "err \<Rightarrow> string option"
  ec_Network :: "err \<Rightarrow> bool"
  ec_Deadline :: "err \<Rightarrow> bool"
  ec_SafeToRetry :: "err \<Rightarrow> bool"
  ec_Closed :: "err \<Rightarrow> bool"

definition transient :: "errclass \<Rightarrow> err \<Rightarrow> bool" where
  "transient ec e =
     (case ec_Code ec e of
        Some code \<Rightarrow> has_prefix code ''08'' \<or> code \<in> set [''57P01'', ''57P02'', ''57P03'', ''53300'']
      | None \<Rightarrow> ec_Network ec e \<or> ec_Deadline ec e \<or> ec_SafeToRetry ec e \<or> errors_Is e ErrSchemaRefreshed \<or> ec_Closed ec e)"

text \<open>\<open>Run\<close> over the attempts it makes: the context before and after each, its observations and rounds, and the wait after it.  The result has the waits and the error that
  \<open>Run\<close> returns, if it does.\<close>

record 'b attempt_round =
  ar_Ctx :: "err option"
  ar_Obs :: attempt_obs
  ar_Rounds :: "'b round list"
  ar_After :: "err option"
  ar_Wait :: "err option"

fun capture_Run ::
  "('v, 'b, 'z) qenv_scheme \<Rightarrow> penv \<Rightarrow> ('y) wal_env_scheme \<Rightarrow> fenv \<Rightarrow> Config \<Rightarrow> (nat \<Rightarrow> string) \<Rightarrow> errclass \<Rightarrow> int \<times> int \<Rightarrow> int \<Rightarrow> 'b attempt_round list \<Rightarrow> 'b Store \<Rightarrow>
   'b Store \<times> nat list \<times> int list \<times> err option" where
  "capture_Run E P R fe cfg lsn_text ec lim delay [] q = (q, [], [], None)"
| "capture_Run E P R fe cfg lsn_text ec lim delay (a # as) q =
     (case ar_Ctx a of Some e \<Rightarrow> (q, [], [], Some e) | None \<Rightarrow>
      case attempt E P R fe cfg lsn_text (ar_Obs a) (ar_Rounds a) q of
        (q', sent, Stops e, _) \<Rightarrow>
          (case ar_After a of Some e' \<Rightarrow> (q', sent, [], Some e') | None \<Rightarrow>
           if \<not> transient ec e then (q', sent, [], Some e)
           else if errors_Is e ErrSchemaRefreshed then
             (case capture_Run E P R fe cfg lsn_text ec lim (fst lim) as q' of (q'', extra, waits, r) \<Rightarrow> (q'', sent @ extra, waits, r))
           else (case ar_Wait a of Some e' \<Rightarrow> (q', sent, [delay], Some e') | None \<Rightarrow>
             (case capture_Run E P R fe cfg lsn_text ec lim (min (doubled delay) (snd lim)) as q' of
                (q'', extra, waits, r) \<Rightarrow> (q'', sent @ extra, delay # waits, r))))
      | (q', sent, _, _) \<Rightarrow> (q', sent, [], None))"

end
