(* ===== verification/Capture_Props.thy ===== *)
theory Capture_Props
  imports Capture
begin

text \<open>
  The PostgreSQL collector over any number of attempts: whatever fails and wherever an attempt is cut off, the queue holds the snapshot and the transactions after it,
  each once and in order.
\<close>

section \<open>One record\<close>

text \<open>What must be encodable for a record of the stream.\<close>

definition rec_ok ::
  "Message set \<Rightarrow> Row set \<Rightarrow> ('v, 'b, 'z) qenv_scheme \<Rightarrow> fenv \<Rightarrow> Config \<Rightarrow> (Table \<rightharpoonup> CaptureTable) \<Rightarrow> wal_record \<Rightarrow> bool" where
  "rec_ok W R E fe cfg tabs r \<longleftrightarrow>
     (wr_Action r = ''B'' \<longrightarrow> writable W R (transaction_begin (wr_NextLSN r))) \<and>
     (wr_Action r = ''C'' \<longrightarrow> (\<forall>chunk. encodable W (transaction_end (wr_NextLSN r) chunk))) \<and>
     (wr_Action r \<in> {''I'', ''U'', ''D''} \<longrightarrow> (\<forall>t row0 k row. tabs \<lparr>tb_Schema = wr_Schema r, tb_Name = wr_Table r\<rparr> = Some t \<longrightarrow> convert E r t = Inr row0 \<longrightarrow>
        Apply fe cfg (row0\<lparr>r_Ordinal := k\<rparr>) = Inr row \<longrightarrow> row \<in> R))"

definition decoder_live :: "Message set \<Rightarrow> Row set \<Rightarrow> ('v, 'b, 'z) qenv_scheme \<Rightarrow> 'b decoder \<Rightarrow> 'b round list \<Rightarrow> bool" where
  "decoder_live W R E d rs \<longleftrightarrow> bolt_ok E \<and> codec_ok W E \<and> queue_inv W E (bt_q (d_b d)) \<and> rounds_ok W E rs \<and> budget (bt_q (d_b d)) rs \<and>
     (d_active d \<longrightarrow> writable W R (bt_msg (d_b d)) \<and> set (m_Rows (bt_msg (d_b d))) \<subseteq> R)"

lemma live_sound: "decoder_live W R E d rs \<Longrightarrow> d_active d \<Longrightarrow> sound_batcher W R E (d_b d) rs"
  by (simp add: decoder_live_def sound_batcher_def)

lemma live_kept: "decoder_live W R E d rs \<Longrightarrow> kept W E (bt_q (d_b d)) (bt_q (d_b d)) rs"
  by (simp add: decoder_live_def kept_refl)

lemma kept_live:
  assumes "decoder_live W R E d rs" "kept W E (bt_q (d_b d)) (bt_q (d_b d')) rs'" "d_active d' \<Longrightarrow> writable W R (bt_msg (d_b d')) \<and> set (m_Rows (bt_msg (d_b d'))) \<subseteq> R"
  shows "decoder_live W R E d' rs'"
  using assms by (auto simp: decoder_live_def kept_def)

lemma row_step_any:
  assumes live: "decoder_live W R E d rs" and ok: "rec_ok W R E fe cfg (d_tables d) r" "wr_Action r \<in> {''I'', ''U'', ''D''}"
    and st: "row_record E fe cfg rs d r = (d', f, rs')"
  shows "kept W E (bt_q (d_b d)) (bt_q (d_b d')) rs' \<and> (f = Done \<longrightarrow> decoder_live W R E d' rs')"
proof (cases "d_active d \<and> wr_XID r = d_xid d \<and> \<not> d_skip d \<and> (\<exists>t row. d_tables d \<lparr>tb_Schema = wr_Schema r, tb_Name = wr_Table r\<rparr> = Some t \<and> convert E r t = Inr row)")
  case False
  then have "bt_q (d_b d') = bt_q (d_b d) \<and> rs' = rs \<and> (f = Done \<longrightarrow> d' = d)"
    using st by (auto simp: row_record_def Let_def split: if_splits option.splits sum.splits)
  then show ?thesis using live live_kept [OF live] by auto
next
  case True
  then obtain t row where t: "d_tables d \<lparr>tb_Schema = wr_Schema r, tb_Name = wr_Table r\<rparr> = Some t" "convert E r t = Inr row" by blast
  obtain b f1 rs1 where add: "capture_add E fe cfg rs (d_b d) (row\<lparr>r_Ordinal := d_ordinal d + 1\<rparr>) = (b, f1, rs1)" by (metis prod_cases3)
  have res: "d' = d\<lparr>d_ordinal := d_ordinal d + 1, d_b := b\<rparr>" "f = f1" "rs' = rs1" using st True t add by (auto simp: row_record_def Let_def)
  have "row' \<in> R" if "Apply fe cfg (row\<lparr>r_Ordinal := d_ordinal d + 1\<rparr>) = Inr row'" for row' using ok t that unfolding rec_ok_def by blast
  from batch_add_kept [OF live_sound [OF live] this add [unfolded capture_add_def]] True
  have k: "kept W E (bt_q (d_b d)) (bt_q b) rs1" "f1 = Done \<longrightarrow> sound_batcher W R E b rs1" by auto
  then show ?thesis using kept_live [OF live, of d' rs1] by (auto simp: res sound_batcher_def)
qed

lemma publish_steady:
  assumes "bolt_ok E" "codec_ok W E" "queue_inv W E q" "rounds_ok W E rs" "budget q rs" "capture_publish rs q lsn False = (q', f, rs')"
  shows "if f = Done then queue_inv W E q' \<and> rounds_ok W E rs' \<and> budget q' rs' \<and> base (st q') = base (st q) else kept W E q q' rs'"
proof (cases rs)
  case Nil
  then show ?thesis using assms by (simp add: kept_refl)
next
  case (Cons r rs1)
  have env: "only_acks W E (rd_before r)" "rounds_ok W E rs1" using assms(4) by (auto simp: Cons rounds_ok_Cons)
  note a = only_acksD [OF assms(1,2) env(1) assms(3)] and o = only_acks_origin [OF env(1) assms(3)]
  show ?thesis
  proof (cases "f = Done")
    case True
    then have "PublishSource (rd_obs r) (rd_before r q) lsn False '''' = Inr q'" using assms(6) by (auto simp: Cons Publish_def split: sum.splits)
    then have "base (st q') = base (st (rd_before r q))" by (auto simp: PublishSource_def base_def split: if_splits)
    then show ?thesis using True capture_publish_spec [OF assms(1-5), of lsn False q' rs'] assms(6) base_origin [OF o] by simp
  next
    case False
    then have "q' = rd_before r q \<and> rs' = rs1" using assms(6) by (auto simp: Cons split: sum.splits)
    then show ?thesis using False a o env(2) assms(5) by (auto simp: kept_def grown_def budget_def Cons)
  qed
qed

lemma commit_step_any:
  assumes live: "decoder_live W R E d rs" and ok: "rec_ok W R E fe cfg (d_tables d) r" "wr_Action r = ''C''"
    and st: "commit_record E de rs d r = (d', f, rs')"
  shows "if f = Done then decoder_live W R E d' rs' \<and> base (st (bt_q (d_b d'))) = base (st (bt_q (d_b d))) else kept W E (bt_q (d_b d)) (bt_q (d_b d')) rs'"
proof (cases "d_active d \<and> wr_XID r = d_xid d \<and> parse_lsn de (wr_NextLSN r) = Some (d_end d) \<and> \<not> d_skip d")
  case False
  then have "bt_q (d_b d') = bt_q (d_b d) \<and> rs' = rs \<and> (f = Done \<longrightarrow> d' = d\<lparr>d_active := False\<rparr>)" using st by (auto simp: commit_record_def split: if_splits)
  then show ?thesis using live live_kept [OF live] by (auto simp: decoder_live_def)
next
  case True
  have E: "bolt_ok E" "codec_ok W E" using live by (simp_all add: decoder_live_def)
  obtain b1 f1 rs1 where fl: "capture_flush E rs (d_b d) = (b1, f1, rs1)" by (metis prod_cases3)
  have k1: "kept W E (bt_q (d_b d)) (bt_q b1) rs1" using batch_flush_kept [OF live_sound [OF live] fl [unfolded capture_flush_def]] True by simp
  obtain q2 f2 rs2 where ap: "capture_append E rs1 (bt_q b1) (transaction_end (wr_NextLSN r) (m_Chunk (bt_msg b1))) = (q2, f2, rs2)" by (metis prod_cases3)
  have "encodable W (transaction_end (wr_NextLSN r) (m_Chunk (bt_msg b1)))" using ok by (simp add: rec_ok_def)
  from batch_append_kept [OF E this _ _ _ ap [unfolded capture_append_def]] k1 have k2: "kept W E (bt_q b1) q2 rs2" by (simp add: kept_def)
  note k12 = kept_trans [OF k1 k2]
  obtain q3 f3 rs3 where pb: "capture_publish rs2 q2 (wr_NextLSN r) False = (q3, f3, rs3)" by (metis prod_cases3)
  have p: "if f3 = Done then queue_inv W E q3 \<and> rounds_ok W E rs3 \<and> budget q3 rs3 \<and> base (st q3) = base (st q2) else kept W E q2 q3 rs3"
    using publish_steady [OF E _ _ _ pb] k12 by (simp add: kept_def)
  have ph: "base (st q2) = base (st (bt_q (d_b d)))" using k12 by (rule kept_base)
  have res: "commit_record E de rs d r = (if f1 \<noteq> Done then (d\<lparr>d_b := b1\<rparr>, f1, rs1) else if f2 \<noteq> Done then (d\<lparr>d_b := b1\<lparr>bt_q := q2\<rparr>\<rparr>, f2, rs2)
      else if f3 \<noteq> Done then (d\<lparr>d_b := b1\<lparr>bt_q := q3\<rparr>\<rparr>, f3, rs3) else (d\<lparr>d_b := b1\<lparr>bt_q := q3\<rparr>, d_durable := d_end d, d_active := False\<rparr>, Done, rs3))"
    using True fl ap pb by (cases f1; cases f2; cases f3) (simp_all add: commit_record_def)
  show ?thesis
  proof (cases "f1 = Done \<and> f2 = Done")
    case True
    then show ?thesis using st res p ph E k12 kept_trans [OF k12, of q3 rs3] by (cases "f3 = Done") (auto simp: decoder_live_def)
  next
    case False
    then show ?thesis using st res k1 k12 by (cases "f1 = Done") auto
  qed
qed

lemma record_step_any:
  assumes live: "decoder_live W R E d rs" and ok: "rec_ok W R E fe cfg (d_tables d) r" and st: "record_step E de fe cfg rs d r = (d', f, rs')"
  shows "(f = Done \<longrightarrow> decoder_live W R E d' rs') \<and> base (st (bt_q (d_b d'))) = base (st (bt_q (d_b d))) \<and>
    (f = Done \<and> wr_Action r = ''C'' \<or> kept W E (bt_q (d_b d)) (bt_q (d_b d')) rs')"
proof -
  have phase: "base (st q') = base (st q)" if "kept W E q q' rs'" for q q' rs' using that by (rule kept_base)
  consider (b) "wr_Action r = ''B''" | (c) "wr_Action r = ''C''" | (row) "wr_Action r \<in> {''I'', ''U'', ''D''}" | (other) "wr_Action r \<notin> {''B'', ''C'', ''I'', ''U'', ''D''}" by blast
  then show ?thesis
  proof cases
    case b
    then have res: "begin_record de d r = (d', f)" "rs' = rs" using st by (auto simp: record_step_def split: prod.splits)
    then have "d' = d \<and> f \<noteq> Done \<or> d_b d' = (d_b d)\<lparr>bt_msg := transaction_begin (wr_NextLSN r)\<rparr>" by (auto simp: begin_record_def split: if_splits option.splits)
    moreover have "writable W R (transaction_begin (wr_NextLSN r))" using ok b by (simp add: rec_ok_def)
    ultimately show ?thesis using live live_kept [OF live] res(2) by (auto simp: decoder_live_def transaction_begin_def kind_msg_def zero_Message_def)
  next
    case c
    then have "commit_record E de rs d r = (d', f, rs')" using st by (simp add: record_step_def)
    from commit_step_any [OF live ok c this] show ?thesis using c phase by (auto split: if_splits)
  next
    case row
    then have "row_record E fe cfg rs d r = (d', f, rs')" using st by (auto simp: record_step_def)
    from row_step_any [OF live ok row this] show ?thesis using phase by blast
  next
    case other
    then have "d' = d \<and> f \<noteq> Done \<and> rs' = rs" using st by (auto simp: record_step_def split: if_splits)
    then show ?thesis using live_kept [OF live] by simp
  qed
qed

section \<open>A part of a transaction\<close>

abbreviation commit_free :: "wal_record list \<Rightarrow> bool" where
  "commit_free recs \<equiv> \<forall>r\<in>set recs. wr_Action r \<noteq> ''C''"

lemma record_step_tables: "record_step E de fe cfg rs d r = (d', f, rs') \<Longrightarrow> d_tables d' = d_tables d"
  by (auto simp: record_step_def begin_record_def commit_record_def row_record_def Let_def split: if_splits option.splits sum.splits prod.splits flow.splits)

lemma record_step_durable: "record_step E de fe cfg rs d r = (d', f, rs') \<Longrightarrow> wr_Action r \<noteq> ''C'' \<or> f \<noteq> Done \<Longrightarrow> d_durable d' = d_durable d"
  by (auto simp: record_step_def begin_record_def commit_record_def row_record_def Let_def split: if_splits option.splits sum.splits prod.splits flow.splits)

lemma consume_records_step:
  "consume_records E de fe cfg rs d (r # recs) = (d', f, rs') \<Longrightarrow>
   (\<And>d1 rs1. record_step E de fe cfg rs d r = (d1, Done, rs1) \<Longrightarrow> consume_records E de fe cfg rs1 d1 recs = (d', f, rs') \<Longrightarrow> P) \<Longrightarrow>
   (f \<noteq> Done \<Longrightarrow> record_step E de fe cfg rs d r = (d', f, rs') \<Longrightarrow> P) \<Longrightarrow> P"
  by (auto split: prod.splits flow.splits)

text \<open>Without a commit nothing is published and the position stays, whatever happens.\<close>

lemma commit_free_kept:
  assumes "decoder_live W R E d rs" "\<forall>r\<in>set recs. rec_ok W R E fe cfg (d_tables d) r" "commit_free recs" "consume_records E de fe cfg rs d recs = (d', f, rs')"
  shows "kept W E (bt_q (d_b d)) (bt_q (d_b d')) rs' \<and> d_durable d' = d_durable d \<and> d_tables d' = d_tables d \<and> (f = Done \<longrightarrow> decoder_live W R E d' rs')"
  using assms
proof (induction recs arbitrary: d rs)
  case Nil
  then show ?case using live_kept [OF Nil.prems(1)] by auto
next
  case (Cons r recs)
  have r: "rec_ok W R E fe cfg (d_tables d) r" "wr_Action r \<noteq> ''C''" using Cons.prems(2,3) by auto
  from Cons.prems(4) show ?case
  proof (rule consume_records_step)
    fix d1 rs1
    assume st: "record_step E de fe cfg rs d r = (d1, Done, rs1)" and run: "consume_records E de fe cfg rs1 d1 recs = (d', f, rs')"
    note s = record_step_any [OF Cons.prems(1) r(1) st] record_step_tables [OF st] record_step_durable [OF st]
    have "\<forall>r\<in>set recs. rec_ok W R E fe cfg (d_tables d1) r" using Cons.prems(2) s(2) by simp
    from Cons.IH [OF _ this _ run] Cons.prems(3) s r(2) show ?thesis by (auto intro: kept_trans)
  next
    assume f: "f \<noteq> Done" and st: "record_step E de fe cfg rs d r = (d', f, rs')"
    show ?thesis using f record_step_any [OF Cons.prems(1) r(1) st] record_step_tables [OF st] record_step_durable [OF st] r(2) by auto
  qed
qed

lemma consume_records_append:
  "consume_records E de fe cfg rs d (xs @ ys) =
   (case consume_records E de fe cfg rs d xs of (d', Done, rs') \<Rightarrow> consume_records E de fe cfg rs' d' ys | other \<Rightarrow> other)"
  by (induction xs arbitrary: rs d) (auto split: prod.splits flow.splits)

lemma consume_split:
  assumes "consume_records E de fe cfg rs d (xs @ ys) = (d', f, rs')"
  obtains (left) "f \<noteq> Done" "consume_records E de fe cfg rs d xs = (d', f, rs')"
  | (both) d1 rs1 where "consume_records E de fe cfg rs d xs = (d1, Done, rs1)" "consume_records E de fe cfg rs1 d1 ys = (d', f, rs')"
  using assms by (auto simp: consume_records_append split: prod.splits flow.splits)

definition tx_safe ::
  "Message set \<Rightarrow> Row set \<Rightarrow> ('v, 'b, 'z) qenv_scheme \<Rightarrow> fenv \<Rightarrow> Config \<Rightarrow> (Table \<rightharpoonup> CaptureTable) \<Rightarrow> wal_tx \<Rightarrow> bool" where
  "tx_safe W R E fe cfg tabs t \<longleftrightarrow> (\<forall>r\<in>set (tx_stream t). rec_ok W R E fe cfg tabs r)"

abbreviation tx_body :: "wal_tx \<Rightarrow> wal_record list" where
  "tx_body t \<equiv> empty_record\<lparr>wr_Action := ''B'', wr_XID := tx_XID t, wr_NextLSN := tx_LSN t\<rparr> # tx_Rows t"

abbreviation tx_commit_record :: "wal_tx \<Rightarrow> wal_record" where
  "tx_commit_record t \<equiv> empty_record\<lparr>wr_Action := ''C'', wr_XID := tx_XID t, wr_NextLSN := tx_LSN t\<rparr>"

lemma tx_stream_split: "tx_stream t = tx_body t @ [tx_commit_record t]"
  by (simp add: tx_stream_def)

lemma tx_body_free: "tx_ok de t \<Longrightarrow> commit_free (tx_body t)"
  by (auto simp: tx_ok_def)

lemma convert_all_safe:
  assumes "\<forall>r\<in>set recs. rec_ok W R E fe cfg tabs r" "\<forall>r\<in>set recs. wr_Action r \<in> {''I'', ''U'', ''D''}" "convert_all E fe cfg tabs k recs = Some rows"
  shows "set rows \<subseteq> R"
  using assms
proof (induction recs arbitrary: k rows)
  case (Cons r recs)
  from Cons.prems(3) obtain t row0 row rows1 where r: "tabs \<lparr>tb_Schema = wr_Schema r, tb_Name = wr_Table r\<rparr> = Some t" "convert E r t = Inr row0"
    "Apply fe cfg (row0\<lparr>r_Ordinal := k + 1\<rparr>) = Inr row" "convert_all E fe cfg tabs (k + 1) recs = Some rows1" "rows = row # rows1"
    by (auto split: option.splits sum.splits)
  have "wr_Action r \<in> {''I'', ''U'', ''D''}" "rec_ok W R E fe cfg tabs r" using Cons.prems(1,2) by auto
  then have "row \<in> R" using r(1-3) unfolding rec_ok_def by blast
  then show ?case using Cons.IH [OF _ _ r(4)] Cons.prems(1,2) r(5) by simp
qed simp

lemma tx_safe_encodable:
  assumes "tx_ok de t" "tx_safe W R E fe cfg tabs t"
  shows "tx_encodable W E fe cfg tabs t"
proof -
  have ok: "rec_ok W R E fe cfg tabs r" if "r \<in> set (tx_stream t)" for r using assms(2) that by (simp add: tx_safe_def)
  have b: "writable W R (transaction_begin (tx_LSN t))"
    using ok [of "empty_record\<lparr>wr_Action := ''B'', wr_XID := tx_XID t, wr_NextLSN := tx_LSN t\<rparr>"] by (simp add: rec_ok_def tx_stream_def)
  have c: "\<forall>chunk. encodable W (transaction_end (tx_LSN t) chunk)" using ok [of "tx_commit_record t"] by (simp add: rec_ok_def tx_stream_def)
  have "set rows \<subseteq> R" if "convert_all E fe cfg tabs 0 (tx_Rows t) = Some rows" for rows
    using assms(1) ok by (intro convert_all_safe [OF _ _ that]) (auto simp: tx_ok_def tx_stream_def)
  then show ?thesis using b c unfolding tx_encodable_def writable_def by blast
qed

section \<open>Any part of the stream\<close>

text \<open>The position of the decoder is the one stored in the queue, and nothing is left unpublished.\<close>

definition anchored :: "denv \<Rightarrow> 'b decoder \<Rightarrow> bool" where
  "anchored de d \<longleftrightarrow> parse_lsn de (s_DurableLSN (st (bt_q (d_b d)))) = Some (d_durable d)"

definition decoder_idle :: "Message set \<Rightarrow> ('v, 'b, 'z) qenv_scheme \<Rightarrow> denv \<Rightarrow> 'b decoder \<Rightarrow> 'b round list \<Rightarrow> bool" where
  "decoder_idle W E de d rs \<longleftrightarrow> decoder_ok W E d rs \<and> \<not> d_active d \<and> anchored de d"

lemma idle_live: "decoder_idle W E de d rs \<Longrightarrow> decoder_live W R E d rs"
  by (simp add: decoder_idle_def decoder_ok_def decoder_live_def)

lemma commit_inactive: "record_step E de fe cfg rs d (tx_commit_record t) = (d', Done, rs') \<Longrightarrow> \<not> d_active d'"
  by (auto simp: record_step_def commit_record_def empty_record_def split: if_splits prod.splits flow.splits)

lemma tx_complete:
  assumes lim: "1 \<le> cfg_BatchRows cfg" "1 \<le> cfg_BatchBytes cfg" and d: "decoder_idle W E de d rs" and t: "tx_ok de t" "tx_safe W R E fe cfg (d_tables d) t"
    and run: "consume_records E de fe cfg rs d (tx_stream t) = (d1, Done, rs1)"
  shows "decoder_idle W E de d1 rs1 \<and> base (st (bt_q (d_b d1))) = base (st (bt_q (d_b d))) \<and> d_tables d1 = d_tables d \<and>
    (if d_durable d < tx_end de t
     then d_durable d1 = tx_end de t \<and> (\<exists>g. tx_group E fe cfg (d_tables d) t g \<and> suffix (pub_payload E d1) (pub_payload E d @ g))
     else d_durable d1 = d_durable d \<and> pub_payload E d1 = pub_payload E d)"
proof -
  have ok: "decoder_ok W E d rs" and a: "anchored de d" using d by (simp_all add: decoder_idle_def)
  from run obtain d0 rs0 where body: "consume_records E de fe cfg rs d (tx_body t) = (d0, Done, rs0)"
    and fin: "record_step E de fe cfg rs0 d0 (tx_commit_record t) = (d1, Done, rs1)"
    unfolding tx_stream_split by (rule consume_split) (auto split: prod.splits flow.splits)
  have safe: "\<forall>r\<in>set (tx_body t). rec_ok W R E fe cfg (d_tables d) r" "rec_ok W R E fe cfg (d_tables d) (tx_commit_record t)"
    using t(2) by (auto simp: tx_safe_def tx_stream_def)
  note k = commit_free_kept [OF idle_live [OF d] safe(1) tx_body_free [OF t(1)] body]
  have "base (st (bt_q (d_b d1))) = base (st (bt_q (d_b d0)))"
    using record_step_any [of W R E d0 rs0 fe cfg "tx_commit_record t" de d1 Done rs1] k safe(2) fin by simp
  then have ph: "base (st (bt_q (d_b d1))) = base (st (bt_q (d_b d)))" using k kept_base by metis
  note idle = commit_inactive [OF fin]
  obtain n where n: "parse_lsn de (tx_LSN t) = Some n" using t(1) by (auto simp: tx_ok_def)
  have run': "consume_records E de fe cfg rs d (tx_stream t @ []) = (d1, Done, rs1)" using run by simp
  show ?thesis
  proof (cases "d_durable d < tx_end de t")
    case True
    from tx_new [OF lim ok t(1) tx_safe_encodable [OF t] True run'] obtain g where
      "tx_group E fe cfg (d_tables d) t g" "decoder_ok W E d1 rs1" "suffix (pub_payload E d1) (pub_payload E d @ g)" "d_durable d1 = tx_end de t"
      "s_DurableLSN (st (bt_q (d_b d1))) = tx_LSN t" "d_tables d1 = d_tables d" by auto
    then show ?thesis using True ph idle n by (auto simp: decoder_idle_def anchored_def tx_end_def)
  next
    case False
    from tx_replayed [OF ok t(1) _ run'] False have "decoder_ok W E d1 rs1" "bt_q (d_b d1) = bt_q (d_b d)" "d_durable d1 = d_durable d" "d_tables d1 = d_tables d" by auto
    then show ?thesis using False ph idle a by (auto simp: decoder_idle_def anchored_def)
  qed
qed

text \<open>What a decoder that reads any initial part of the stream, and possibly fails, has done: it published the first \<open>j\<close> of the transactions that end after its position.\<close>

definition progressed ::
  "Message set \<Rightarrow> ('v, 'b, 'z) qenv_scheme \<Rightarrow> denv \<Rightarrow> fenv \<Rightarrow> Config \<Rightarrow> 'b decoder \<Rightarrow> wal_tx list \<Rightarrow> 'b decoder \<Rightarrow> 'b round list \<Rightarrow> bool" where
  "progressed W E de fe cfg d done d' rs' \<longleftrightarrow>
     queue_inv W E (bt_q (d_b d')) \<and> rounds_ok W E rs' \<and> budget (bt_q (d_b d')) rs' \<and> anchored de d' \<and> d_tables d' = d_tables d \<and>
     base (st (bt_q (d_b d'))) = base (st (bt_q (d_b d))) \<and> d_durable d' = last (d_durable d # map (tx_end de) done) \<and>
     (\<exists>groups. list_all2 (tx_group E fe cfg (d_tables d)) done groups \<and> suffix (pub_payload E d') (pub_payload E d @ concat groups))"

lemma kept_progressed:
  assumes "kept W E (bt_q (d_b d)) (bt_q (d_b d')) rs'" "anchored de d" "d_durable d' = d_durable d" "d_tables d' = d_tables d"
  shows "progressed W E de fe cfg d [] d' rs'"
  using assms kept_base [OF assms(1)] origin_fields [of "st (bt_q (d_b d'))" "st (bt_q (d_b d))"] map_suffix [of "published E (bt_q (d_b d'))" "published E (bt_q (d_b d))" payload]
  by (auto simp: progressed_def kept_def anchored_def)

lemma progressed_Cons:
  assumes "progressed W E de fe cfg d1 done d' rs'" "d_tables d1 = d_tables d" "base (st (bt_q (d_b d1))) = base (st (bt_q (d_b d)))"
    "d_durable d1 = tx_end de t" "tx_group E fe cfg (d_tables d) t g" "suffix (pub_payload E d1) (pub_payload E d @ g)"
  shows "progressed W E de fe cfg d (t # done) d' rs'"
proof -
  from assms(1,2) obtain groups where g: "list_all2 (tx_group E fe cfg (d_tables d)) done groups" "suffix (pub_payload E d') (pub_payload E d1 @ concat groups)"
    by (auto simp: progressed_def)
  have "suffix (pub_payload E d') (pub_payload E d @ concat (g # groups))"
    using g(2) suffix_append_same [OF assms(6), of "concat groups"] by (auto intro: suffix_order.trans)
  then have "\<exists>groups. list_all2 (tx_group E fe cfg (d_tables d)) (t # done) groups \<and> suffix (pub_payload E d') (pub_payload E d @ concat groups)"
    using g(1) assms(5) by (intro exI [of _ "g # groups"]) simp
  then show ?thesis using assms(1-4) unfolding progressed_def by simp
qed

lemma progressed_same:
  assumes "progressed W E de fe cfg d1 done d' rs'" "d_tables d1 = d_tables d" "base (st (bt_q (d_b d1))) = base (st (bt_q (d_b d)))"
    "d_durable d1 = d_durable d" "pub_payload E d1 = pub_payload E d"
  shows "progressed W E de fe cfg d done d' rs'"
  using assms by (simp add: progressed_def)

lemma strict_prefix_body:
  assumes "prefix recs (tx_stream t @ rest)" "\<not> prefix (tx_stream t) recs"
  shows "prefix recs (tx_body t)"
proof -
  from assms have "strict_prefix recs (tx_stream t)" by (auto simp: prefix_append strict_prefix_def dest: prefix_same_cases)
  then show ?thesis unfolding tx_stream_split strict_prefix_def prefix_snoc by blast
qed

lemma tx_cut:
  assumes d: "decoder_idle W E de d rs" and t: "tx_ok de t" "tx_safe W R E fe cfg (d_tables d) t"
    and body: "consume_records E de fe cfg rs d (tx_body t) = (d0, Done, rs0)"
    and fin: "record_step E de fe cfg rs0 d0 (tx_commit_record t) = (d', f, rs')" "f \<noteq> Done"
  shows "progressed W E de fe cfg d [] d' rs'"
proof -
  have safe: "\<forall>r\<in>set (tx_body t). rec_ok W R E fe cfg (d_tables d) r" "rec_ok W R E fe cfg (d_tables d) (tx_commit_record t)"
    using t(2) by (auto simp: tx_safe_def tx_stream_def)
  have a: "anchored de d" using d by (simp add: decoder_idle_def)
  note k = commit_free_kept [OF idle_live [OF d] safe(1) tx_body_free [OF t(1)] body]
  then have "kept W E (bt_q (d_b d0)) (bt_q (d_b d')) rs'" using record_step_any [of W R E d0 rs0 fe cfg _ de d' f rs', OF _ _ fin(1)] safe(2) fin(2) by auto
  then show ?thesis using k record_step_tables [OF fin(1)] record_step_durable [OF fin(1)] fin(2) a by (intro kept_progressed) (auto intro: kept_trans)
qed

lemma consume_prefix:
  assumes lim: "1 \<le> cfg_BatchRows cfg" "1 \<le> cfg_BatchBytes cfg" and "decoder_idle W E de d rs"
    and "\<forall>t\<in>set ts. tx_ok de t \<and> tx_safe W R E fe cfg (d_tables d) t" "sorted_wrt (<) (map (tx_end de) ts)"
    and "prefix recs (concat (map tx_stream ts))" "consume_records E de fe cfg rs d recs = (d', f, rs')"
  shows "\<exists>done. prefix done (filter (\<lambda>t. d_durable d < tx_end de t) ts) \<and> progressed W E de fe cfg d done d' rs' \<and> (f = Done \<longrightarrow> decoder_live W R E d' rs')"
  using assms(3-)
proof (induction ts arbitrary: d rs recs)
  case Nil
  then show ?case using live_kept [OF idle_live [OF Nil.prems(1)]] idle_live [OF Nil.prems(1)] by (auto simp: decoder_idle_def intro!: kept_progressed)
next
  case (Cons t ts)
  have t: "tx_ok de t" "tx_safe W R E fe cfg (d_tables d) t" using Cons.prems(2) by auto
  note live = idle_live [OF Cons.prems(1)]
  have a: "anchored de d" using Cons.prems(1) by (simp add: decoder_idle_def)
  have stop: ?case if "consume_records E de fe cfg rs d xs = (d', f, rs')" "prefix xs (tx_body t)" for xs
  proof -
    have "\<forall>r\<in>set xs. rec_ok W R E fe cfg (d_tables d) r" "commit_free xs"
      using set_mono_prefix [OF that(2)] t tx_body_free [OF t(1)] by (auto simp: tx_safe_def tx_stream_split)
    from commit_free_kept [OF live this that(1)] show ?thesis using a by (intro exI [of _ "[]"]) (auto intro: kept_progressed)
  qed
  show ?case
  proof (cases "prefix (tx_stream t) recs")
    case False
    then show ?thesis using stop [OF Cons.prems(5)] strict_prefix_body [of recs t] Cons.prems(4) by simp
  next
    case True
    then obtain recs2 where recs: "recs = tx_stream t @ recs2" by (auto simp: prefix_def)
    have p2: "prefix recs2 (concat (map tx_stream ts))" using Cons.prems(4) recs by simp
    have later: "\<And>u. u \<in> set ts \<Longrightarrow> tx_end de t < tx_end de u" using Cons.prems(3) by auto
    from Cons.prems(5) [unfolded recs] show ?thesis
    proof (cases rule: consume_split)
      case left
      from left(2) [unfolded tx_stream_split] show ?thesis
      proof (cases rule: consume_split)
        case left
        then show ?thesis using stop [of "tx_body t"] by blast
      next
        case (both d0 rs0)
        then have "record_step E de fe cfg rs0 d0 (tx_commit_record t) = (d', f, rs')" using left(1) by (auto split: prod.splits flow.splits)
        from tx_cut [OF Cons.prems(1) t both(1) this left(1)] show ?thesis using left(1) by (intro exI [of _ "[]"]) simp
      qed
    next
      case (both d1 rs1)
      note c = tx_complete [OF lim Cons.prems(1) t both(1)]
      have ts1: "\<forall>t\<in>set ts. tx_ok de t \<and> tx_safe W R E fe cfg (d_tables d1) t" using Cons.prems(2) c by simp
      from Cons.IH [OF _ ts1 _ p2 both(2)] c Cons.prems(3) obtain dn where
        dn: "prefix dn (filter (\<lambda>t. d_durable d1 < tx_end de t) ts)" "progressed W E de fe cfg d1 dn d' rs'" "f = Done \<longrightarrow> decoder_live W R E d' rs'" by auto
      show ?thesis
      proof (cases "d_durable d < tx_end de t")
        case True
        have all: "filter (\<lambda>u. d_durable d < tx_end de u) ts = ts" "filter (\<lambda>u. d_durable d1 < tx_end de u) ts = ts"
          using True c later by (auto intro!: filter_all intro: order.strict_trans)
        from c True obtain g where "tx_group E fe cfg (d_tables d) t g" "suffix (pub_payload E d1) (pub_payload E d @ g)" by auto
        from progressed_Cons [OF dn(2) _ _ _ this] c True dn(1) [unfolded all] dn(3) show ?thesis by (intro exI [of _ "t # dn"]) (simp add: all)
      next
        case False
        then show ?thesis using c dn progressed_same [OF dn(2)] by (intro exI [of _ dn]) simp
      qed
    qed
  qed
qed

section \<open>The calls of the queue\<close>

lemma queue_call_cases:
  assumes "queue_call f rs q = (q', fl, rs')"
  obtains (blocked) "rs = []" "fl = Blocked" "q' = q" "rs' = []"
  | (failed) r e where "rs = r # rs'" "fl = Failed e" "q' = rd_before r q"
  | (made) r where "rs = r # rs'" "fl = Done" "f (rd_obs r) (rd_before r q) = Inr q'"
  using assms by (cases rs) (auto split: sum.splits)

lemma round_kept:
  assumes "bolt_ok E" "codec_ok W E" "queue_inv W E q" "rounds_ok W E (r # rs)" "budget q (r # rs)"
  shows "kept W E q (rd_before r q) rs \<and> map payload (staged E (rd_before r q)) = map payload (staged E q) \<and>
    Suc (Suc (s_NextSeq (st (rd_before r q)))) + length rs < seq_limit"
  using assms only_acksD [OF assms(1,2) _ assms(3), of "rd_before r"] only_acks_origin [of W E "rd_before r" q]
  by (auto simp: rounds_ok_Cons kept_def grown_def budget_def)

text \<open>A call that fails or waits leaves the queue as it is but for acknowledgements.\<close>

lemma queue_call_kept:
  assumes E: "bolt_ok E" "codec_ok W E" and q: "queue_inv W E q" "rounds_ok W E rs" "budget q rs" and c: "queue_call f rs q = (q', fl, rs')" "fl \<noteq> Done"
  shows "kept W E q q' rs'"
  using c(1)
proof (cases rule: queue_call_cases)
  case (failed r e)
  then show ?thesis using round_kept [OF E] q by simp
qed (use q c(2) in \<open>simp_all add: kept_refl\<close>)

lemma queue_call_done:
  assumes E: "bolt_ok E" "codec_ok W E" and q: "queue_inv W E q" "rounds_ok W E rs" "budget q rs" and c: "queue_call f rs q = (q', Done, rs')"
  obtains ob q1 where "f ob q1 = Inr q'" "kept W E q q1 rs'" "map payload (staged E q1) = map payload (staged E q)" "Suc (Suc (s_NextSeq (st q1))) + length rs' < seq_limit"
  using c
proof (cases rule: queue_call_cases)
  case (made r)
  then show ?thesis using round_kept [OF E q(1)] q by (intro that [of "rd_obs r" "rd_before r q"]) auto
qed auto

lemma recover_origin: "Recover E ob q = Inr q' \<Longrightarrow> origin (st q') = origin (st q) \<and> s_NextSeq (st q') = s_ReadySeq (st q)"
  by (auto simp: Recover_def origin_def split: sum.splits)

lemma recover_call:
  assumes E: "bolt_ok E" "codec_ok W E" and q: "queue_inv W E q" "rounds_ok W E rs" "budget q rs" and c: "queue_call (Recover E) rs q = (q', fl, rs')"
  shows "kept W E q q' rs' \<and> (fl = Done \<longrightarrow> staged E q' = [])"
proof (cases "fl = Done")
  case True
  from queue_call_done [OF E q c [unfolded True]] obtain ob q1 where
    r: "Recover E ob q1 = Inr q'" "kept W E q q1 rs'" "Suc (Suc (s_NextSeq (st q1))) + length rs' < seq_limit" by blast
  have inv: "queue_inv W E q1" using r(2) by (simp add: kept_def)
  have "s_ReadySeq (st q1) \<le> s_NextSeq (st q1)" using queue_invD(1) [OF inv] by (simp add: counters_ok_def)
  then show ?thesis using Recover_abs [OF E(1) inv r(1)] Recover_inv [OF E(1) inv r(1)] recover_origin [OF r(1)] r(2,3)
    by (auto simp: kept_def budget_def)
next
  case False
  then show ?thesis using queue_call_kept [OF E q c] by simp
qed

lemma append_call:
  assumes E: "bolt_ok E" "codec_ok W E" and q: "queue_inv W E q" "rounds_ok W E rs" "budget q rs" and m: "encodable W m"
    and c: "queue_call (\<lambda>o' q. Append E o' q m) rs q = (q', fl, rs')"
  shows "kept W E q q' rs' \<and> (fl = Done \<longrightarrow> map payload (staged E q') = map payload (staged E q) @ [payload m])"
proof (cases "fl = Done")
  case True
  from queue_call_done [OF E q c [unfolded True]] obtain ob q1 where
    r: "Append E ob q1 m = Inr q'" "kept W E q q1 rs'" "map payload (staged E q1) = map payload (staged E q)" "Suc (Suc (s_NextSeq (st q1))) + length rs' < seq_limit" by blast
  have inv: "queue_inv W E q1" using r(2) by (simp add: kept_def)
  have st: "stamp (st q1) (format_time E (ob_now ob)) m \<in> W" using m by (simp add: encodable_def)
  have "Suc (Suc (s_NextSeq (st q1))) < seq_limit" using r(4) by simp
  from Append_inv [OF E inv st this r(1)] show ?thesis using Append_abs [OF E inv st r(1)] append_origin [OF r(1)] Append_NextSeq [OF r(1)] r(2,3,4)
    by (auto simp: kept_def budget_def)
next
  case False
  then show ?thesis using queue_call_kept [OF E q c] by simp
qed

section \<open>A refreshed schema\<close>

definition schema_group :: "Message list \<Rightarrow> bool" where
  "schema_group ms \<longleftrightarrow> (\<exists>raws. ms = map (\<lambda>raw. payload (schema_msg raw)) raws @ [payload (kind_msg ''schema_end'')])"

definition schema_safe :: "Message set \<Rightarrow> penv \<Rightarrow> bool" where
  "schema_safe W P \<longleftrightarrow> (\<forall>t raw h. pg_table_json P t = Inr raw \<longrightarrow> encodable W ((schema_msg raw)\<lparr>m_SchemaVersion := h\<rparr>)) \<and>
     (\<forall>h. encodable W ((kind_msg ''schema_end'')\<lparr>m_SchemaVersion := h\<rparr>))"

lemma payload_version [simp]: "payload (m\<lparr>m_SchemaVersion := h\<rparr>) = payload m"
  by (simp add: payload_def)

lemma then_call_cases:
  assumes "then_call x g = (q', f, rs')"
  obtains (stop) "x = (q', f, rs')" "f \<noteq> Done" | (go) q rs where "x = (q, Done, rs)" "g q rs = (q', f, rs')"
  using assms by (cases x; cases "fst (snd x)") (auto simp: then_call_def)

lemma refresh_schemas_any:
  assumes E: "bolt_ok E" "codec_ok W E" and s: "schema_safe W P"
    and "queue_inv W E q" "rounds_ok W E rs" "budget q rs" "refresh_schemas E P h rs q ts = (q', f, rs')"
  shows "kept W E q q' rs' \<and> (f = Done \<longrightarrow> (\<exists>raws. map payload (staged E q') = map payload (staged E q) @ map (\<lambda>raw. payload (schema_msg raw)) raws))"
  using assms(4-)
proof (induction ts arbitrary: q rs)
  case Nil
  then show ?case by (auto simp: kept_refl intro: exI [of _ "[]"])
next
  case (Cons t ts)
  show ?case
  proof (cases "pg_table_json P t")
    case (Inl e)
    then show ?thesis using Cons.prems by (auto simp: kept_refl)
  next
    case (Inr raw)
    then have m: "encodable W ((schema_msg raw)\<lparr>m_SchemaVersion := h\<rparr>)" using s unfolding schema_safe_def by blast
    from Cons.prems(4) Inr have "then_call (queue_call (\<lambda>o' q. Append E o' q ((schema_msg raw)\<lparr>m_SchemaVersion := h\<rparr>)) rs q) (\<lambda>q rs. refresh_schemas E P h rs q ts) = (q', f, rs')" by simp
    then show ?thesis
    proof (cases rule: then_call_cases)
      case stop
      then show ?thesis using append_call [OF E Cons.prems(1-3) m] by blast
    next
      case (go q1 rs1)
      note k = append_call [OF E Cons.prems(1-3) m go(1)]
      have q1: "queue_inv W E q1" "rounds_ok W E rs1" "budget q1 rs1" using k by (simp_all add: kept_def)
      note r = Cons.IH [OF q1 go(2)]
      have "\<exists>raws. map payload (staged E q') = map payload (staged E q) @ map (\<lambda>raw. payload (schema_msg raw)) raws" if f: "f = Done"
      proof -
        obtain raws where "map payload (staged E q') = map payload (staged E q1) @ map (\<lambda>raw. payload (schema_msg raw)) raws" using r f by auto
        then show ?thesis using k by (intro exI [of _ "raw # raws"]) simp
      qed
      then show ?thesis using k r kept_trans by blast
    qed
  qed
qed

lemma schema_publish_call:
  assumes E: "bolt_ok E" "codec_ok W E" and q: "queue_inv W E q" "rounds_ok W E rs" "budget q rs"
    and c: "queue_call (\<lambda>o' q. PublishSchema o' q l h) rs q = (q', Done, rs')"
  shows "queue_inv W E q' \<and> rounds_ok W E rs' \<and> budget q' rs' \<and> base (st q') = base (st q) \<and> s_DurableLSN (st q') = l \<and>
    suffix (map payload (published E q')) (map payload (published E q) @ map payload (staged E q))"
proof -
  from queue_call_done [OF E q c] obtain ob q1 where
    r: "PublishSchema ob q1 l h = Inr q'" "kept W E q q1 rs'" "map payload (staged E q1) = map payload (staged E q)" "Suc (Suc (s_NextSeq (st q1))) + length rs' < seq_limit" by blast
  have inv: "queue_inv W E q1" using r(2) by (simp add: kept_def)
  have st: "items q' = items q1" "s_DeliveredSeq (st q') = s_DeliveredSeq (st q1)" "s_NextSeq (st q') = s_NextSeq (st q1)"
    "s_ReadySeq (st q') = s_NextSeq (st q1)" "s_DurableLSN (st q') = l" "base (st q') = base (st q1)"
    using r(1) by (auto simp: PublishSchema_def base_def split: if_splits)
  have "suffix (map payload (published E q1)) (map payload (published E q))" using r(2) map_suffix by (auto simp: kept_def)
  from suffix_append_same [OF this, of "map payload (staged E q)"]
  have "suffix (map payload (published E q')) (map payload (published E q) @ map payload (staged E q))" using publish_abs [OF inv st(1-4)] r(3) by simp
  moreover have "base (st q1) = base (st q)" using r(2) by (rule kept_base)
  ultimately show ?thesis using PublishSchema_inv [OF inv r(1)] st r(2,4) by (simp add: kept_def budget_def)
qed

lemma refresh_any:
  assumes E: "bolt_ok E" "codec_ok W E" and s: "schema_safe W P" and q: "queue_inv W E q" "rounds_ok W E rs" "budget q rs"
    and c: "refreshSchemaForReplay E P cfg query l h rs q = (q', f, rs')"
  shows "if f = Done then queue_inv W E q' \<and> rounds_ok W E rs' \<and> budget q' rs' \<and> base (st q') = base (st q) \<and> s_DurableLSN (st q') = l \<and>
      (\<exists>ms. schema_group ms \<and> suffix (map payload (published E q')) (map payload (published E q) @ ms))
    else kept W E q q' rs'"
proof (cases "DeliveryTransport cfg = ''grpc'' \<and> (\<exists>ts. catalog P query (cfg_Tables cfg) = Inr ts \<and> schemaHash P ts \<noteq> h)")
  case False
  then have "q' = q \<and> rs' = rs \<and> f \<noteq> Done" using c by (auto simp: refreshSchemaForReplay_def Let_def split: if_splits sum.splits)
  then show ?thesis using q kept_refl by auto
next
  case True
  then obtain ts where ts: "catalog P query (cfg_Tables cfg) = Inr ts" "schemaHash P ts \<noteq> h" "DeliveryTransport cfg = ''grpc''" by blast
  let ?h = "schemaHash P ts"
  let ?fin = "(kind_msg ''schema_end'')\<lparr>m_SchemaVersion := ?h\<rparr>"
  have e: "encodable W ?fin" using s by (simp add: schema_safe_def)
  from c ts have "then_call (queue_call (Recover E) rs q) (\<lambda>q rs. then_call (refresh_schemas E P ?h rs q ts) (\<lambda>q rs.
      then_call (queue_call (\<lambda>o' q. Append E o' q ?fin) rs q) (\<lambda>q rs. queue_call (\<lambda>o' q. PublishSchema o' q l ?h) rs q))) = (q', f, rs')"
    by (simp add: refreshSchemaForReplay_def Let_def)
  then show ?thesis
  proof (cases rule: then_call_cases)
    case stop
    then show ?thesis using recover_call [OF E q] by auto
  next
    case (go q1 rs1)
    note k1 = recover_call [OF E q go(1)]
    then have q1: "queue_inv W E q1" "rounds_ok W E rs1" "budget q1 rs1" by (simp_all add: kept_def)
    from go(2) show ?thesis
    proof (cases rule: then_call_cases)
      case stop
      then show ?thesis using refresh_schemas_any [OF E s q1] k1 kept_trans by fastforce
    next
      case (go q2 rs2)
      note k2 = refresh_schemas_any [OF E s q1 go(1)]
      then have q2: "queue_inv W E q2" "rounds_ok W E rs2" "budget q2 rs2" by (simp_all add: kept_def)
      have k12: "kept W E q q2 rs2" using k1 k2 kept_trans by blast
      from go(2) show ?thesis
      proof (cases rule: then_call_cases)
        case stop
        then show ?thesis using append_call [OF E q2 e] k12 kept_trans by fastforce
      next
        case (go q3 rs3)
        note k3 = append_call [OF E q2 e go(1)]
        then have q3: "queue_inv W E q3" "rounds_ok W E rs3" "budget q3 rs3" by (simp_all add: kept_def)
        have k13: "kept W E q q3 rs3" using k12 k3 kept_trans by blast
        show ?thesis
        proof (cases "f = Done")
          case True
          obtain raws where "map payload (staged E q3) = map (\<lambda>raw. payload (schema_msg raw)) raws @ [payload (kind_msg ''schema_end'')]" using k1 k2 k3 by auto
          then have g: "schema_group (map payload (staged E q3))" unfolding schema_group_def by blast
          have "suffix (map payload (published E q3)) (map payload (published E q))" using k13 map_suffix by (auto simp: kept_def)
          note p = schema_publish_call [OF E q3 go(2) [unfolded True]] suffix_append_same [OF this, of "map payload (staged E q3)"]
          then have "suffix (map payload (published E q')) (map payload (published E q) @ map payload (staged E q3))" by (blast intro: suffix_order.trans)
          moreover have "base (st q3) = base (st q)" using k13 by (rule kept_base)
          ultimately show ?thesis using True p(1) g by auto
        next
          case False
          then show ?thesis using queue_call_kept [OF E q3 go(2)] k13 kept_trans by fastforce
        qed
      qed
    qed
  qed
qed

section \<open>The loop\<close>

text \<open>The records that a pass brings.\<close>

definition wal_of :: "('y) wal_env_scheme \<Rightarrow> pass \<Rightarrow> wal_record list" where
  "wal_of R pa =
     (case pa_Message pa of
        CopyData (c # body) \<Rightarrow>
          if c = keepalive_id R \<or> c \<noteq> xlog_id R \<or> length body < 24 then []
          else (case parse_xlog R body of Inl e \<Rightarrow> [] | Inr wal \<Rightarrow> fst (decode_stream R wal))
      | _ \<Rightarrow> [])"

definition wal_records :: "('y) wal_env_scheme \<Rightarrow> pass list \<Rightarrow> wal_record list" where
  "wal_records R pas = concat (map (wal_of R) pas)"

text \<open>The loop ends with the decoder where the records left it, or after an attempt to publish the schema anew.\<close>

definition settled ::
  "('v, 'b, 'z) qenv_scheme \<Rightarrow> penv \<Rightarrow> Config \<Rightarrow> (nat \<Rightarrow> string) \<Rightarrow> 'b decoder \<Rightarrow> 'b round list \<Rightarrow> 'b decoder \<Rightarrow> 'b round list \<Rightarrow> bool" where
  "settled E P cfg lsn_text d rs d' rs' \<longleftrightarrow> d' = d \<and> rs' = rs \<or>
     (\<exists>query h f. refreshSchemaForReplay E P cfg query (lsn_text (d_durable d)) h rs (bt_q (d_b d)) = (bt_q (d_b d'), f, rs') \<and> d_durable d' = d_durable d)"

lemma consume_part:
  assumes "consume E de fe cfg rs d data = (d', f, rs')"
  shows "\<exists>recs f1. prefix recs (fst (decode_stream de data)) \<and> consume_records E de fe cfg rs d recs = (d', f1, rs') \<and>
    (f = Done \<longrightarrow> recs = fst (decode_stream de data) \<and> f1 = Done)"
proof (cases "int (length data) > wrap64 (cfg_MaxRowBytes cfg * 2)")
  case True
  then show ?thesis using assms by (intro exI [of _ "[]"]) (auto simp: consume_def)
next
  case False
  then show ?thesis using assms by (intro exI [of _ "fst (decode_stream de data)"]) (auto simp: consume_def split: prod.splits flow.splits)
qed

lemma on_wal_part:
  assumes "on_wal E P R fe cfg lsn_text oldHash pa data rs d = (d', f, rs')"
  shows "\<exists>recs dm fm rsm. prefix recs (fst (decode_stream R data)) \<and> consume_records E (denv.truncate R) fe cfg rs d recs = (dm, fm, rsm) \<and>
    settled E P cfg lsn_text dm rsm d' rs' \<and> (f = Goes_on \<longrightarrow> recs = fst (decode_stream R data) \<and> fm = Done \<and> d' = dm \<and> rs' = rsm)"
proof -
  obtain dm f1 rsm where c: "consume E (denv.truncate R) fe cfg rs d data = (dm, f1, rsm)" by (metis prod_cases3)
  have "settled E P cfg lsn_text dm rsm d' rs' \<and> (f = Goes_on \<longrightarrow> f1 = Done \<and> d' = dm \<and> rs' = rsm)"
    using assms c by (cases f1) (auto simp: on_wal_def settled_def on_flow_def split: if_splits prod.splits flow.splits)
  moreover have "decode_stream (denv.truncate R) = decode_stream R" by (simp add: denv.truncate_def)
  ultimately show ?thesis using consume_part [OF c] by metis
qed

lemma on_copy_part:
  assumes "on_copy E P R fe cfg lsn_text oldHash pa data rs d = (d', sent, f, rs')" "pa_Message pa = CopyData data"
  shows "\<exists>recs dm fm rsm. prefix recs (wal_of R pa) \<and> consume_records E (denv.truncate R) fe cfg rs d recs = (dm, fm, rsm) \<and>
    settled E P cfg lsn_text dm rsm d' rs' \<and> (f = Goes_on \<longrightarrow> recs = wal_of R pa \<and> fm = Done \<and> d' = dm \<and> rs' = rsm) \<and> set sent \<subseteq> {d_durable d}"
proof (cases "\<exists>c body wal. data = c # body \<and> c \<noteq> keepalive_id R \<and> c = xlog_id R \<and> 24 \<le> length body \<and> parse_xlog R body = Inr wal")
  case True
  then obtain c body wal where m: "data = c # body" "c \<noteq> keepalive_id R" "c = xlog_id R" "24 \<le> length body" "parse_xlog R body = Inr wal" by blast
  have w: "wal_of R pa = fst (decode_stream R wal)" using m assms(2) by (simp add: wal_of_def)
  from assms(1) m have on: "on_wal E P R fe cfg lsn_text oldHash pa wal rs d = (d', f, rs')" "sent = []" by (auto simp: on_copy_def split: prod.splits)
  show ?thesis using on_wal_part [OF on(1)] on(2) unfolding w by fastforce
next
  case False
  have "d' = d \<and> rs' = rs \<and> set sent \<subseteq> {d_durable d} \<and> (f = Goes_on \<longrightarrow> wal_of R pa = [])"
  proof (cases data)
    case (Cons c body)
    show ?thesis
    proof (cases "c = keepalive_id R")
      case True
      then show ?thesis using assms Cons by (auto simp: on_copy_def wal_of_def split: if_splits sum.splits option.splits)
    next
      case key: False
      then show ?thesis using assms Cons False by (auto simp: on_copy_def wal_of_def split: if_splits sum.splits)
    qed
  qed (use assms in \<open>auto simp: on_copy_def\<close>)
  then show ?thesis by (intro exI [of _ "[]"]) (auto simp: settled_def)
qed

lemma pass_part:
  assumes "stream_pass E P R fe cfg lsn_text oldHash pa rs d = (d', sent, f, rs')"
  shows "\<exists>recs dm fm rsm. prefix recs (wal_of R pa) \<and> consume_records E (denv.truncate R) fe cfg rs d recs = (dm, fm, rsm) \<and>
    settled E P cfg lsn_text dm rsm d' rs' \<and> (f = Goes_on \<longrightarrow> recs = wal_of R pa \<and> fm = Done \<and> d' = dm \<and> rs' = rsm) \<and> set sent \<subseteq> {d_durable d}"
proof -
  have none: ?thesis if "d' = d \<and> rs' = rs \<and> set sent \<subseteq> {d_durable d} \<and> (f = Goes_on \<longrightarrow> wal_of R pa = [])"
    using that by (intro exI [of _ "[]"]) (auto simp: settled_def)
  define s0 where "s0 = (case pa_Feedback pa of None \<Rightarrow> Inr [] | Some r \<Rightarrow> guarded (pa_Metrics pa) (guarded r (Inr [d_durable d])))"
  have s0: "set l \<subseteq> {d_durable d}" if "s0 = Inr l" for l using that by (auto simp: s0_def guarded_def split: option.splits)
  note step = assms [unfolded stream_pass_def, folded s0_def]
  show ?thesis
  proof (cases "pa_Ctx pa")
    case (Some e)
    then show ?thesis using step by (intro none) auto
  next
    case None
    show ?thesis
    proof (cases s0)
      case (Inl e)
      then show ?thesis using step None by (intro none) auto
    next
      case (Inr l)
      note l = s0 [OF Inr]
      show ?thesis
      proof (cases "\<exists>data. pa_Message pa = CopyData data")
        case True
        then obtain data where m: "pa_Message pa = CopyData data" by blast
        obtain extra where c: "on_copy E P R fe cfg lsn_text oldHash pa data rs d = (d', extra, f, rs')" "sent = l @ extra"
          using step None Inr m by (auto split: prod.splits)
        from on_copy_part [OF c(1) m] show ?thesis using l c(2) by auto
      next
        case False
        then show ?thesis using step None Inr l by (intro none) (auto simp: wal_of_def split: wal_message.splits option.splits)
      qed
    qed
  qed
qed

lemma loop_part:
  assumes "stream_loop E P R fe cfg lsn_text oldHash pas rs d = (d', sent, f, rs')"
  shows "\<exists>recs dm fm rsm. prefix recs (wal_records R pas) \<and> consume_records E (denv.truncate R) fe cfg rs d recs = (dm, fm, rsm) \<and>
    settled E P cfg lsn_text dm rsm d' rs' \<and>
    (\<forall>n\<in>set sent. \<exists>recs' d2 rs2. prefix recs' recs \<and> consume_records E (denv.truncate R) fe cfg rs d recs' = (d2, Done, rs2) \<and> n = d_durable d2)"
  using assms
proof (induction pas arbitrary: rs d sent)
  case Nil
  then show ?case by (intro exI [of _ "[]"]) (auto simp: wal_records_def settled_def)
next
  case (Cons pa pas)
  obtain d1 sent1 f1 rs1 where p: "stream_pass E P R fe cfg lsn_text oldHash pa rs d = (d1, sent1, f1, rs1)" by (metis prod_cases4)
  from pass_part [OF p] obtain recs dm fm rsm where q: "prefix recs (wal_of R pa)" "consume_records E (denv.truncate R) fe cfg rs d recs = (dm, fm, rsm)"
    "settled E P cfg lsn_text dm rsm d1 rs1" "f1 = Goes_on \<longrightarrow> recs = wal_of R pa \<and> fm = Done \<and> d1 = dm \<and> rs1 = rsm" "set sent1 \<subseteq> {d_durable d}" by blast
  have here: "\<exists>recs' d2 rs2. prefix recs' xs \<and> consume_records E (denv.truncate R) fe cfg rs d recs' = (d2, Done, rs2) \<and> n = d_durable d2" if "n \<in> set sent1" for n xs
    using that q(5) by (intro exI [of _ "[]"]) auto
  show ?case
  proof (cases "f1 = Goes_on")
    case False
    then have "(d', sent, f, rs') = (d1, sent1, f1, rs1)" using Cons.prems p by (cases f1) auto
    then show ?thesis using q(1-3) here
      by (intro exI [of _ recs] exI [of _ dm] exI [of _ fm] exI [of _ rsm]) (auto simp: wal_records_def intro: prefix_prefix)
  next
    case True
    obtain sent2 where l: "stream_loop E P R fe cfg lsn_text oldHash pas rs1 d1 = (d', sent2, f, rs')" and res: "sent = sent1 @ sent2"
      using Cons.prems p True by (auto split: prod.splits)
    have c: "consume_records E (denv.truncate R) fe cfg rs d (wal_of R pa) = (d1, Done, rs1)" using q True by simp
    then have app: "consume_records E (denv.truncate R) fe cfg rs d (wal_of R pa @ ys) = consume_records E (denv.truncate R) fe cfg rs1 d1 ys" for ys
      by (simp add: consume_records_append)
    from Cons.IH [OF l] obtain ys dn fn rsn where y: "prefix ys (wal_records R pas)" "consume_records E (denv.truncate R) fe cfg rs1 d1 ys = (dn, fn, rsn)"
      "settled E P cfg lsn_text dn rsn d' rs'"
      "\<forall>n\<in>set sent2. \<exists>recs' d2 rs2. prefix recs' ys \<and> consume_records E (denv.truncate R) fe cfg rs1 d1 recs' = (d2, Done, rs2) \<and> n = d_durable d2" by blast
    have "\<exists>recs' d2 rs2. prefix recs' (wal_of R pa @ ys) \<and> consume_records E (denv.truncate R) fe cfg rs d recs' = (d2, Done, rs2) \<and> n = d_durable d2" if "n \<in> set sent2" for n
    proof -
      obtain recs' d2 rs2 where "prefix recs' ys" "consume_records E (denv.truncate R) fe cfg rs1 d1 recs' = (d2, Done, rs2)" "n = d_durable d2" using y(4) \<open>n \<in> set sent2\<close> by blast
      then show ?thesis by (intro exI [of _ "wal_of R pa @ recs'"] exI [of _ d2] exI [of _ rs2]) (simp add: app)
    qed
    then show ?thesis using y(1-3) here res
      by (intro exI [of _ "wal_of R pa @ ys"] exI [of _ dn] exI [of _ fn] exI [of _ rsn]) (auto simp: app wal_records_def)
  qed
qed

section \<open>A stream\<close>

datatype captured = Committed wal_tx | Refreshed

fun item_group :: "('v, 'b, 'z) qenv_scheme \<Rightarrow> fenv \<Rightarrow> Config \<Rightarrow> captured \<Rightarrow> Message list \<Rightarrow> bool" where
  "item_group E fe cfg (Committed t) ms \<longleftrightarrow> (\<exists>tabs. tx_group E fe cfg tabs t ms)"
| "item_group E fe cfg Refreshed ms \<longleftrightarrow> schema_group ms"

fun committed :: "captured list \<Rightarrow> wal_tx list" where
  "committed [] = []"
| "committed (Committed t # its) = t # committed its"
| "committed (Refreshed # its) = committed its"

lemma committed_append [simp]: "committed (xs @ ys) = committed xs @ committed ys"
  by (induction xs rule: committed.induct) auto

lemma committed_map [simp]: "committed (map Committed ts) = ts"
  by (induction ts) auto

lemma item_groups: "list_all2 (tx_group E fe cfg tabs) ts groups \<Longrightarrow> list_all2 (item_group E fe cfg) (map Committed ts) groups"
  by (auto simp: list_all2_map1 elim!: list_all2_mono)

text \<open>The queue after the groups of \<open>its\<close> were published.\<close>

definition extended ::
  "Message set \<Rightarrow> ('v, 'b, 'z) qenv_scheme \<Rightarrow> denv \<Rightarrow> fenv \<Rightarrow> Config \<Rightarrow> nat \<Rightarrow> 'b Store \<Rightarrow> captured list \<Rightarrow> 'b Store \<Rightarrow> 'b round list \<Rightarrow> bool" where
  "extended W E de fe cfg start q its q' rs' \<longleftrightarrow>
     queue_inv W E q' \<and> rounds_ok W E rs' \<and> budget q' rs' \<and> base (st q') = base (st q) \<and>
     parse_lsn de (s_DurableLSN (st q')) = Some (last (start # map (tx_end de) (committed its))) \<and>
     (\<exists>groups. list_all2 (item_group E fe cfg) its groups \<and> suffix (map payload (published E q')) (map payload (published E q) @ concat groups))"

lemma progressed_extended:
  assumes "progressed W E de fe cfg d dn d' rs'" "d_durable d = start"
  shows "extended W E de fe cfg start (bt_q (d_b d)) (map Committed dn) (bt_q (d_b d')) rs'"
  using assms item_groups unfolding progressed_def extended_def anchored_def by (auto intro: item_groups)

lemma kept_extended:
  assumes "extended W E de fe cfg start q its q1 rs1" "kept W E q1 q2 rs2"
  shows "extended W E de fe cfg start q its q2 rs2"
proof -
  from assms(1) obtain groups where g: "list_all2 (item_group E fe cfg) its groups" "suffix (map payload (published E q1)) (map payload (published E q) @ concat groups)"
    by (auto simp: extended_def)
  have "suffix (map payload (published E q2)) (map payload (published E q1))" using assms(2) map_suffix by (auto simp: kept_def)
  then have "suffix (map payload (published E q2)) (map payload (published E q) @ concat groups)" using g(2) by (blast intro: suffix_order.trans)
  moreover have "base (st q2) = base (st q1) \<and> s_DurableLSN (st q2) = s_DurableLSN (st q1)" using assms(2) kept_base origin_fields unfolding kept_def by blast
  ultimately show ?thesis using assms g(1) unfolding extended_def kept_def by auto
qed

lemma extended_refl:
  assumes "queue_inv W E q" "rounds_ok W E rs" "budget q rs" "parse_lsn de (s_DurableLSN (st q)) = Some start"
  shows "extended W E de fe cfg start q [] q rs"
  using assms by (auto simp: extended_def)

lemma settled_extended:
  assumes E: "bolt_ok E" "codec_ok W E" and s: "schema_safe W P" and lsn: "\<forall>n. parse_lsn de (lsn_text n) = Some n"
    and ex: "extended W E de fe cfg start q its (bt_q (d_b dm)) rsm" and a: "anchored de dm" and st: "settled E P cfg lsn_text dm rsm d' rs'"
  shows "\<exists>its'. committed its' = committed its \<and> extended W E de fe cfg start q its' (bt_q (d_b d')) rs'"
proof (cases "d' = dm \<and> rs' = rsm")
  case True
  then show ?thesis using ex by auto
next
  case False
  then obtain query h f where r: "refreshSchemaForReplay E P cfg query (lsn_text (d_durable dm)) h rsm (bt_q (d_b dm)) = (bt_q (d_b d'), f, rs')"
    using st by (auto simp: settled_def)
  have q: "queue_inv W E (bt_q (d_b dm))" "rounds_ok W E rsm" "budget (bt_q (d_b dm)) rsm" using ex by (simp_all add: extended_def)
  note res = refresh_any [OF E s q r]
  show ?thesis
  proof (cases "f = Done")
    case False
    then show ?thesis using res kept_extended [OF ex] by auto
  next
    case True
    then obtain ms where ms: "schema_group ms" "suffix (pub_payload E d') (pub_payload E dm @ ms)" using res by auto
    from ex obtain groups where g: "list_all2 (item_group E fe cfg) its groups" "suffix (pub_payload E dm) (map payload (published E q) @ concat groups)"
      by (auto simp: extended_def)
    have "suffix (pub_payload E d') (map payload (published E q) @ concat (groups @ [ms]))"
      using ms(2) suffix_append_same [OF g(2), of ms] by (auto intro: suffix_order.trans)
    moreover have "list_all2 (item_group E fe cfg) (its @ [Refreshed]) (groups @ [ms])" using g(1) ms(1) by (simp add: list_all2_appendI)
    ultimately show ?thesis using True res ex a lsn
      by (intro exI [of _ "its @ [Refreshed]"]) (auto simp: extended_def anchored_def)
  qed
qed

text \<open>The position never goes back.\<close>

definition forward :: "'b decoder \<Rightarrow> bool" where
  "forward d \<longleftrightarrow> (d_active d \<longrightarrow> \<not> d_skip d \<longrightarrow> d_durable d < d_end d)"

lemma record_step_forward: "forward d \<Longrightarrow> record_step E de fe cfg rs d r = (d', f, rs') \<Longrightarrow> forward d' \<and> d_durable d \<le> d_durable d'"
  by (auto simp: forward_def record_step_def begin_record_def commit_record_def row_record_def Let_def
      split: if_splits option.splits sum.splits prod.splits flow.splits)

lemma consume_forward:
  "forward d \<Longrightarrow> consume_records E de fe cfg rs d recs = (d', f, rs') \<Longrightarrow> forward d' \<and> d_durable d \<le> d_durable d'"
proof (induction recs arbitrary: d rs)
  case (Cons r recs)
  from Cons.prems(2) show ?case
  proof (rule consume_records_step)
    fix d1 rs1
    assume "record_step E de fe cfg rs d r = (d1, Done, rs1)" "consume_records E de fe cfg rs1 d1 recs = (d', f, rs')"
    then show ?thesis using record_step_forward [OF Cons.prems(1)] Cons.IH by (meson order.trans)
  qed (use record_step_forward [OF Cons.prems(1)] in blast)
qed simp

end
