(* ===== verification/Capture_History.thy ===== *)
theory Capture_History
  imports Capture_Props
begin

text \<open>
  From attempts to histories: a snapshot fills the queue or leaves nothing published, a stream extends it by whole transactions, and any number of attempts publishes
  the source from its consistent point on.
\<close>

section \<open>The stream of an attempt\<close>

text \<open>What logical replication promises: from a position on, the server sends the transactions in commit order; it may begin with some that end at or before the
  position, and may stop anywhere.\<close>

definition replays :: "('y) wal_env_scheme \<Rightarrow> wal_tx list \<Rightarrow> nat \<Rightarrow> pass list \<Rightarrow> bool" where
  "replays R history start pas \<longleftrightarrow>
     (\<exists>old rest. history = old @ rest \<and> (\<forall>t\<in>set old. tx_end (denv.truncate R) t \<le> start) \<and> prefix (wal_records R pas) (concat (map tx_stream rest)))"

definition history_ok :: "Message set \<Rightarrow> Row set \<Rightarrow> ('v, 'b, 'z) qenv_scheme \<Rightarrow> denv \<Rightarrow> fenv \<Rightarrow> Config \<Rightarrow> wal_tx list \<Rightarrow> bool" where
  "history_ok W Rw E de fe cfg history \<longleftrightarrow>
     sorted_wrt (<) (map (tx_end de) history) \<and> (\<forall>t\<in>set history. tx_ok de t \<and> (\<forall>tabs. tx_safe W Rw E fe cfg tabs t))"

lemma replays_filter:
  assumes "history = old @ rest" "\<forall>t\<in>set old. tx_end de t \<le> start"
  shows "filter (\<lambda>t. start < tx_end de t) history = filter (\<lambda>t. start < tx_end de t) rest"
  using assms by (auto simp: filter_empty_conv not_less)

lemma newDecoder_idle:
  assumes "bolt_ok E" "codec_ok W E" "queue_inv W E q" "rounds_ok W E rs" "budget q rs" "staged E q = []" "parse_lsn de (s_DurableLSN (st q)) = Some start"
  shows "decoder_idle W E de (newDecoder q tables start) rs \<and> d_durable (newDecoder q tables start) = start \<and> bt_q (d_b (newDecoder q tables start)) = q \<and>
    forward (newDecoder q tables start)"
  using assms by (simp add: decoder_idle_def decoder_ok_def anchored_def newDecoder_def forward_def)

lemma stream_open_Inr:
  "stream_open de ob tables q = Inr d \<Longrightarrow> \<exists>start. parse_lsn de (s_DurableLSN (st q)) = Some start \<and> d = newDecoder q tables start"
  by (auto simp: stream_open_def split: option.splits sum.splits if_splits)

lemma loop_extends:
  assumes lim: "1 \<le> cfg_BatchRows cfg" "1 \<le> cfg_BatchBytes cfg" and E: "bolt_ok E" "codec_ok W E" and s: "schema_safe W P"
    and lsn: "\<forall>n. parse_lsn R (lsn_text n) = Some n" and h: "history_ok W Rw E (denv.truncate R) fe cfg history"
    and q: "queue_inv W E q" "rounds_ok W E rs" "budget q rs" "staged E q = []" "parse_lsn R (s_DurableLSN (st q)) = Some start"
    and re: "replays R history start pas"
    and loop: "stream_loop E P R fe cfg lsn_text oldHash pas rs (newDecoder q tables start) = (d', sent, f, rs')"
  shows "\<exists>its. prefix (committed its) (filter (\<lambda>t. start < tx_end (denv.truncate R) t) history) \<and>
    extended W E (denv.truncate R) fe cfg start q its (bt_q (d_b d')) rs' \<and> (\<forall>n\<in>set sent. n \<le> last (start # map (tx_end (denv.truncate R)) (committed its)))"
proof -
  define de where "de = denv.truncate R"
  define d where "d = newDecoder q tables start"
  have de: "parse_lsn de = parse_lsn R" by (simp add: de_def denv.truncate_def)
  note idle = newDecoder_idle [OF E q(1-4) q(5) [folded de], of tables, folded d_def]
  from re obtain old rest where r: "history = old @ rest" "\<forall>t\<in>set old. tx_end de t \<le> start" "prefix (wal_records R pas) (concat (map tx_stream rest))"
    unfolding replays_def de_def by blast
  have ok: "\<forall>t\<in>set rest. tx_ok de t \<and> tx_safe W Rw E fe cfg (d_tables d) t" "sorted_wrt (<) (map (tx_end de) rest)"
    using h r(1) by (auto simp: history_ok_def de_def sorted_wrt_append)
  from loop_part [OF loop, folded de_def d_def] obtain recs dm fm rsm where p: "prefix recs (wal_records R pas)" "consume_records E de fe cfg rs d recs = (dm, fm, rsm)"
    "settled E P cfg lsn_text dm rsm d' rs'" "\<forall>n\<in>set sent. \<exists>recs' d2 rs2. prefix recs' recs \<and> consume_records E de fe cfg rs d recs' = (d2, Done, rs2) \<and> n = d_durable d2" by blast
  have pr: "prefix recs (concat (map tx_stream rest))" using p(1) r(3) by (blast intro: prefix_order.trans)
  from consume_prefix [OF lim _ ok pr p(2)] idle obtain dn where dn: "prefix dn (filter (\<lambda>t. start < tx_end de t) rest)" "progressed W E de fe cfg d dn dm rsm" by auto
  from progressed_extended [OF dn(2)] idle have ex: "extended W E de fe cfg start q (map Committed dn) (bt_q (d_b dm)) rsm" by simp
  have a: "anchored de dm" "d_durable dm = last (start # map (tx_end de) dn)" using dn(2) idle by (simp_all add: progressed_def)
  from settled_extended [OF E s _ ex a(1) p(3)] lsn obtain its where its: "committed its = dn" "extended W E de fe cfg start q its (bt_q (d_b d')) rs'" by (auto simp: de)
  have "n \<le> d_durable dm" if n: "n \<in> set sent" for n
  proof -
    obtain recs' d2 rs2 ys where c: "recs = recs' @ ys" "consume_records E de fe cfg rs d recs' = (d2, Done, rs2)" "n = d_durable d2" using p(4) n by (auto simp: prefix_def)
    have "consume_records E de fe cfg rs2 d2 ys = (dm, fm, rsm)" using p(2) c(1,2) by (simp add: consume_records_append)
    then show ?thesis using consume_forward [OF _ c(2)] consume_forward idle c(3) by blast
  qed
  then show ?thesis using its dn(1) a(2) replays_filter [OF r(1,2)] by (intro exI [of _ its]) (auto simp: de_def)
qed

lemma stream_extends:
  assumes lim: "1 \<le> cfg_BatchRows cfg" "1 \<le> cfg_BatchBytes cfg" and E: "bolt_ok E" "codec_ok W E" and s: "schema_safe W P"
    and lsn: "\<forall>n. parse_lsn R (lsn_text n) = Some n" and h: "history_ok W Rw E (denv.truncate R) fe cfg history"
    and q: "queue_inv W E q" "rounds_ok W E rs" "budget q rs" "staged E q = []" "parse_lsn R (s_DurableLSN (st q)) = Some start"
    and re: "replays R history start (at_Passes ob)"
    and run: "stream E P R fe cfg lsn_text ob tables rs q = (q', sent, f, rs')"
  shows "\<exists>its. prefix (committed its) (filter (\<lambda>t. start < tx_end (denv.truncate R) t) history) \<and>
    extended W E (denv.truncate R) fe cfg start q its q' rs' \<and> (\<forall>n\<in>set sent. n \<le> last (start # map (tx_end (denv.truncate R)) (committed its)))"
proof (cases "at_StreamState ob = None \<and> (\<exists>d. stream_open (denv.truncate R) (at_Stream ob) tables q = Inr d)")
  case False
  then have "q' = q \<and> sent = [] \<and> rs' = rs" using run by (auto simp: stream_def split: option.splits sum.splits)
  then show ?thesis using q by (intro exI [of _ "[]"]) (auto intro!: extended_refl simp: denv.truncate_def)
next
  case True
  then obtain d where d: "stream_open (denv.truncate R) (at_Stream ob) tables q = Inr d" "at_StreamState ob = None" by blast
  with stream_open_Inr [OF d(1)] q(5) have new: "d = newDecoder q tables start" by (auto simp: denv.truncate_def)
  from run d obtain d' where "stream_loop E P R fe cfg lsn_text (s_SchemaHash (st q)) (at_Passes ob) rs (newDecoder q tables start) = (d', sent, f, rs')" "q' = bt_q (d_b d')"
    by (auto simp: stream_def new split: prod.splits)
  then show ?thesis using loop_extends [OF lim E s lsn h q re] by auto
qed

section \<open>The snapshot of an attempt\<close>

text \<open>The rows of the tables, numbered from one in each.\<close>

fun numbered :: "CaptureTable \<Rightarrow> nat \<Rightarrow> string option list list \<Rightarrow> Row list" where
  "numbered t n [] = []"
| "numbered t n (raw # raws) = snapshot_row t (n + 1) raw # numbered t (n + 1) raws"

definition source_rows :: "(CaptureTable \<Rightarrow> string option list list) \<Rightarrow> CaptureTable list \<Rightarrow> Row list" where
  "source_rows contents tables = concat (map (\<lambda>t. numbered t 0 (contents t)) tables)"

text \<open>A complete answer to the query for the rows of a table has the contents of the table at the consistent point.\<close>

definition exports :: "(string \<Rightarrow> CaptureTable \<Rightarrow> string option list list) \<Rightarrow> snapshot_obs \<Rightarrow> string \<Rightarrow> bool" where
  "exports contents ob point \<longleftrightarrow>
     (\<forall>t raws. cu_Query (so_Rows ob t) = None \<longrightarrow> cu_Err (so_Rows ob t) = None \<longrightarrow> cu_Rows (so_Rows ob t) = map Inr raws \<longrightarrow> raws = contents point t)"

definition snapshot_group ::
  "('v, 'b, 'z) qenv_scheme \<Rightarrow> penv \<Rightarrow> fenv \<Rightarrow> Config \<Rightarrow> (CaptureTable \<Rightarrow> string option list list) \<Rightarrow> string \<Rightarrow> Message list \<Rightarrow> bool" where
  "snapshot_group E P fe cfg contents point ms \<longleftrightarrow>
     (\<exists>tables raws rows chunks.
        map (\<lambda>t. \<lparr>tb_Schema = ct_Schema t, tb_Name = ct_Name t\<rparr>) tables = cfg_Tables cfg \<and>
        list_all2 (\<lambda>t raw. pg_table_json P t = Inr raw) tables raws \<and>
        list_all2 (\<lambda>r0 r. Apply fe cfg r0 = Inr r) (source_rows contents tables) rows \<and>
        concat (map m_Rows chunks) = rows \<and> map m_Chunk chunks = [0..<length chunks] \<and> (\<forall>c\<in>set chunks. chunk_ok E cfg c \<and> m_Kind c = ''snapshot_rows'') \<and>
        ms = map payload (snapshot_begin cfg point # map schema_msg raws @ chunks @ [snapshot_end_msg point]))"

definition snapshot_safe :: "Message set \<Rightarrow> Row set \<Rightarrow> penv \<Rightarrow> fenv \<Rightarrow> Config \<Rightarrow> bool" where
  "snapshot_safe W Rw P fe cfg \<longleftrightarrow>
     (\<forall>l. encodable W (snapshot_begin cfg l) \<and> encodable W (snapshot_end_msg l)) \<and> (\<forall>t raw. pg_table_json P t = Inr raw \<longrightarrow> encodable W (schema_msg raw)) \<and>
     writable W Rw (kind_msg ''snapshot_rows'') \<and> (\<forall>t n raw row. Apply fe cfg (snapshot_row t n raw) = Inr row \<longrightarrow> row \<in> Rw)"

lemma catalog_names:
  assumes "catalog P query tables = Inr ts"
  shows "map (\<lambda>t. \<lparr>tb_Schema = ct_Schema t, tb_Name = ct_Name t\<rparr>) ts = tables"
proof -
  have col: "ct_Schema t' = ct_Schema t \<and> ct_Name t' = ct_Name t" if "foldM (scan_row (catalog_column want)) t rows = Inr t'" for want t t' rows
    using that
  proof (induction rows arbitrary: t)
    case (Cons r rows)
    then obtain a t1 where "r = Inr a" "catalog_column want t a = Inr t1" "foldM (scan_row (catalog_column want)) t1 rows = Inr t'" by (cases r) (auto split: sum.splits)
    moreover have "ct_Schema t1 = ct_Schema t \<and> ct_Name t1 = ct_Name t" using calculation(2) by (auto simp: catalog_column_def split: if_splits)
    ultimately show ?case using Cons.IH by metis
  qed simp
  have "map (\<lambda>t. \<lparr>tb_Schema = ct_Schema t, tb_Name = ct_Name t\<rparr>) ts = map (\<lambda>t. \<lparr>tb_Schema = ct_Schema t, tb_Name = ct_Name t\<rparr>) out @ tables"
    if "foldM (catalog_table P query) out tables = Inr ts" for out
    using that
  proof (induction tables arbitrary: out)
    case (Cons want tables)
    then obtain out1 where o: "catalog_table P query out want = Inr out1" "foldM (catalog_table P query) out1 tables = Inr ts" by (auto split: sum.splits)
    then obtain t where "out1 = out @ [t]" "ct_Schema t = tb_Schema want" "ct_Name t = tb_Name want"
      by (auto simp: catalog_table_def scan_all_Inr split: sum.splits if_splits dest!: col)
    then show ?case using Cons.IH [OF o(2)] by simp
  qed simp
  from this [of "[]"] show ?thesis using assms by (simp add: catalog_def)
qed

lemma append_schemas_any:
  assumes E: "bolt_ok E" "codec_ok W E" and s: "snapshot_safe W Rw P fe cfg"
    and "queue_inv W E q" "rounds_ok W E rs" "budget q rs" "append_schemas E P rs q ts = (q', f, rs')"
  shows "kept W E q q' rs' \<and> (f = Done \<longrightarrow> (\<exists>raws. list_all2 (\<lambda>t raw. pg_table_json P t = Inr raw) ts raws \<and> grown E q (map schema_msg raws) q'))"
  using assms(4-)
proof (induction ts arbitrary: q rs)
  case Nil
  then show ?case by (auto simp: kept_refl)
next
  case (Cons t ts)
  show ?case
  proof (cases "pg_table_json P t")
    case (Inl e)
    then show ?thesis using Cons.prems by (auto simp: kept_refl)
  next
    case (Inr raw)
    then have m: "encodable W (schema_msg raw)" using s unfolding snapshot_safe_def by blast
    from Cons.prems(4) Inr have "then_call (capture_append E rs q (schema_msg raw)) (\<lambda>q rs. append_schemas E P rs q ts) = (q', f, rs')" by simp
    then show ?thesis
    proof (cases rule: then_call_cases)
      case stop
      then show ?thesis using batch_append_kept [OF E m Cons.prems(1-3) stop(1) [unfolded capture_append_def]] by auto
    next
      case (go q1 rs1)
      note k = batch_append_kept [OF E m Cons.prems(1-3) go(1) [unfolded capture_append_def]]
      have q1: "queue_inv W E q1" "rounds_ok W E rs1" "budget q1 rs1" using k by (simp_all add: kept_def)
      note r = Cons.IH [OF q1 go(2)]
      have "\<exists>raws. list_all2 (\<lambda>t raw. pg_table_json P t = Inr raw) (t # ts) raws \<and> grown E q (map schema_msg raws) q'" if f: "f = Done"
      proof -
        obtain raws where "list_all2 (\<lambda>t raw. pg_table_json P t = Inr raw) ts raws" "grown E q1 (map schema_msg raws) q'" using r f by auto
        then show ?thesis using k Inr grown_trans [of E q "[schema_msg raw]" q1] by (intro exI [of _ "raw # raws"]) auto
      qed
      then show ?thesis using k r kept_trans by blast
    qed
  qed
qed

text \<open>The loops over tables and rows add the rows one by one, as far as they get.\<close>

lemma add_rows_append:
  "add_rows E fe cfg early full rs b (xs @ ys) =
   (case add_rows E fe cfg early full rs b xs of (b', Done, rs') \<Rightarrow> add_rows E fe cfg early full rs' b' ys | other \<Rightarrow> other)"
  by (induction xs arbitrary: rs b) (auto split: prod.splits flow.splits)

lemma add_rows_kept:
  assumes "sound_batcher W Rw E b rs" "\<forall>row0\<in>set rows. \<forall>row. Apply fe cfg row0 = Inr row \<longrightarrow> row \<in> Rw" "add_rows E fe cfg early full rs b rows = (b', f, rs')"
  shows "kept W E (bt_q b) (bt_q b') rs' \<and> (f = Done \<longrightarrow> sound_batcher W Rw E b' rs')"
  using assms
proof (induction rows arbitrary: b rs)
  case Nil
  then show ?case using sound_batcher_kept by auto
next
  case (Cons row rows)
  obtain b1 f1 rs1 where a: "batch_add E fe cfg early full rs b row = (b1, f1, rs1)" by (metis prod_cases3)
  have "\<And>r. Apply fe cfg row = Inr r \<Longrightarrow> r \<in> Rw" using Cons.prems(2) by simp
  note k = batch_add_kept [OF Cons.prems(1) this a]
  show ?case
  proof (cases "f1 = Done")
    case True
    then have "add_rows E fe cfg early full rs1 b1 rows = (b', f, rs')" using Cons.prems(3) a by simp
    from Cons.IH [OF _ _ this] k True Cons.prems(2) show ?thesis by (auto intro: kept_trans)
  next
    case False
    then show ?thesis using Cons.prems(3) a k by (cases f1) auto
  qed
qed

lemma add_rows_Applied:
  "add_rows E fe cfg early full rs b rows0 = (b', Done, rs') \<Longrightarrow> \<exists>rows. list_all2 (\<lambda>r0 r. Apply fe cfg r0 = Inr r) rows0 rows"
proof (induction rows0 arbitrary: rs b)
  case (Cons r0 rows0)
  then obtain b1 rs1 where a: "batch_add E fe cfg early full rs b r0 = (b1, Done, rs1)" "add_rows E fe cfg early full rs1 b1 rows0 = (b', Done, rs')"
    by (auto split: prod.splits flow.splits)
  from batch_add_Apply [OF a(1)] Cons.IH [OF a(2)] show ?case by (auto intro: list_all2_Cons [THEN iffD2])
qed (auto intro: exI [of _ "[]"])

abbreviation from_snapshot :: "Row list \<Rightarrow> bool" where
  "from_snapshot rows \<equiv> \<forall>row\<in>set rows. \<exists>t n raw. row = snapshot_row t n raw"

lemma numbered_from: "from_snapshot (numbered t n raws)"
  by (induction raws arbitrary: n) auto

lemma snapshot_rows_add:
  assumes "snapshot_rows E fe cfg t rs b n raws = (b', f, rs')"
  shows "\<exists>rows0 f1. from_snapshot rows0 \<and> add_rows E fe cfg pg_cut pg_full rs b rows0 = (b', f1, rs') \<and>
    (f = Done \<longrightarrow> f1 = Done \<and> (\<exists>xs. raws = map Inr xs \<and> rows0 = numbered t n xs))"
  using assms
proof (induction raws arbitrary: n rs b)
  case Nil
  then show ?case by (intro exI [of _ "[]"]) auto
next
  case (Cons r raws)
  show ?case
  proof (cases r)
    case (Inl e)
    then show ?thesis using Cons.prems by (intro exI [of _ "[]"]) auto
  next
    case (Inr raw)
    obtain b1 f1 rs1 where a: "capture_add E fe cfg rs b (snapshot_row t (n + 1) raw) = (b1, f1, rs1)" by (metis prod_cases3)
    show ?thesis
    proof (cases "f1 = Done")
      case True
      then have "snapshot_rows E fe cfg t rs1 b1 (n + 1) raws = (b', f, rs')" using Cons.prems a Inr by simp
      from Cons.IH [OF this] obtain rows0 f2 where r: "from_snapshot rows0" "add_rows E fe cfg pg_cut pg_full rs1 b1 rows0 = (b', f2, rs')"
        "f = Done \<longrightarrow> f2 = Done \<and> (\<exists>xs. raws = map Inr xs \<and> rows0 = numbered t (n + 1) xs)" by blast
      have "\<exists>xs. r # raws = map Inr xs \<and> snapshot_row t (n + 1) raw # rows0 = numbered t n xs" if f: "f = Done"
      proof -
        obtain xs where "raws = map Inr xs" "rows0 = numbered t (n + 1) xs" using r(3) f by blast
        then show ?thesis using Inr by (intro exI [of _ "raw # xs"]) simp
      qed
      then show ?thesis using r a True
        by (intro exI [of _ "snapshot_row t (n + 1) raw # rows0"] exI [of _ f2]) (auto simp: capture_add_def)
    next
      case False
      then have "(b', f, rs') = (b1, f1, rs1)" using Cons.prems a Inr by (cases f1) auto
      then show ?thesis using a False by (intro exI [of _ "[snapshot_row t (n + 1) raw]"] exI [of _ f1]) (cases f1; auto simp: capture_add_def)
    qed
  qed
qed

lemma snapshot_table_add:
  assumes "snapshot_table E fe cfg ob rs b t = (b', f, rs')" "exports contents ob point"
  shows "\<exists>rows0 f1. from_snapshot rows0 \<and> add_rows E fe cfg pg_cut pg_full rs b rows0 = (b', f1, rs') \<and>
    (f = Done \<longrightarrow> f1 = Done \<and> rows0 = numbered t 0 (contents point t))"
proof (cases "cu_Query (so_Rows ob t)")
  case (Some e)
  then show ?thesis using assms(1) by (intro exI [of _ "[]"]) (auto simp: snapshot_table_def)
next
  case None
  obtain b1 f1 rs1 where a: "snapshot_rows E fe cfg t rs b 0 (cu_Rows (so_Rows ob t)) = (b1, f1, rs1)" by (metis prod_cases3)
  then have res: "b' = b1" "rs' = rs1" "f = Done \<longrightarrow> f1 = Done \<and> cu_Err (so_Rows ob t) = None"
    using assms(1) None by (cases f1; auto simp: snapshot_table_def split: option.splits)+
  from snapshot_rows_add [OF a] obtain rows0 f2 where r: "from_snapshot rows0" "add_rows E fe cfg pg_cut pg_full rs b rows0 = (b1, f2, rs1)"
    "f1 = Done \<longrightarrow> f2 = Done \<and> (\<exists>xs. cu_Rows (so_Rows ob t) = map Inr xs \<and> rows0 = numbered t 0 xs)" by blast
  have "f2 = Done \<and> rows0 = numbered t 0 (contents point t)" if "f = Done"
    using r(3) res(3) that assms(2) None unfolding exports_def by blast
  then show ?thesis using r(1,2) res by blast
qed

lemma snapshot_tables_add:
  assumes "snapshot_tables E fe cfg ob rs b ts = (b', f, rs')" "exports contents ob point"
  shows "\<exists>rows0 f1. from_snapshot rows0 \<and> add_rows E fe cfg pg_cut pg_full rs b rows0 = (b', f1, rs') \<and>
    (f = Done \<longrightarrow> f1 = Done \<and> rows0 = source_rows (contents point) ts)"
  using assms(1)
proof (induction ts arbitrary: rs b)
  case Nil
  then show ?case by (intro exI [of _ "[]"]) (auto simp: source_rows_def)
next
  case (Cons t ts)
  obtain b1 f1 rs1 where a: "snapshot_table E fe cfg ob rs b t = (b1, f1, rs1)" by (metis prod_cases3)
  from snapshot_table_add [OF a assms(2)] obtain rows0 f2 where r: "from_snapshot rows0" "add_rows E fe cfg pg_cut pg_full rs b rows0 = (b1, f2, rs1)"
    "f1 = Done \<longrightarrow> f2 = Done \<and> rows0 = numbered t 0 (contents point t)" by blast
  show ?case
  proof (cases "f1 = Done")
    case True
    then have "snapshot_tables E fe cfg ob rs1 b1 ts = (b', f, rs')" using Cons.prems a by simp
    from Cons.IH [OF this] obtain rows1 f3 where s: "from_snapshot rows1" "add_rows E fe cfg pg_cut pg_full rs1 b1 rows1 = (b', f3, rs')"
      "f = Done \<longrightarrow> f3 = Done \<and> rows1 = source_rows (contents point) ts" by blast
    have "add_rows E fe cfg pg_cut pg_full rs b (rows0 @ rows1) = (b', f3, rs')" using r True s(2) by (simp add: add_rows_append)
    then show ?thesis using r True s by (intro exI [of _ "rows0 @ rows1"] exI [of _ f3]) (auto simp: source_rows_def)
  next
    case False
    then have "(b', f, rs') = (b1, f1, rs1)" using Cons.prems a by (cases f1) auto
    then show ?thesis using r(1,2) False by blast
  qed
qed

lemma capture_publish_call: "capture_publish rs q l sl = queue_call (\<lambda>o' q. Publish o' q l sl) rs q"
  by (cases rs) (auto split: sum.splits)

lemma publish_seals: "capture_publish rs q l True = (q', Done, rs') \<Longrightarrow> s_Phase (st q') = ''stream''"
  by (cases rs) (auto simp: Publish_def PublishSource_def split: sum.splits if_splits)

lemma publish_point:
  assumes E: "bolt_ok E" "codec_ok W E" and q: "queue_inv W E q" "rounds_ok W E rs" "budget q rs" and p: "capture_publish rs q l sl = (q', Done, rs')"
  shows "s_SnapshotLSN (st q') = s_SnapshotLSN (st q)"
proof -
  from queue_call_done [OF E q p [unfolded capture_publish_call]] obtain ob q1 where r: "Publish ob q1 l sl = Inr q'" "kept W E q q1 rs'" by blast
  have "s_SnapshotLSN (st q') = s_SnapshotLSN (st q1)" using r(1) by (auto simp: Publish_def PublishSource_def split: if_splits)
  then show ?thesis using kept_base [OF r(2)] by (simp add: base_def)
qed

definition sealed ::
  "Message set \<Rightarrow> ('v, 'b, 'z) qenv_scheme \<Rightarrow> penv \<Rightarrow> fenv \<Rightarrow> Config \<Rightarrow> (string \<Rightarrow> CaptureTable \<Rightarrow> string option list list) \<Rightarrow> string \<Rightarrow> 'b Store \<Rightarrow> 'b round list \<Rightarrow> bool" where
  "sealed W E P fe cfg contents point q rs \<longleftrightarrow>
     queue_inv W E q \<and> rounds_ok W E rs \<and> budget q rs \<and> staged E q = [] \<and> s_Phase (st q) = ''stream'' \<and> s_DurableLSN (st q) = point \<and> s_SnapshotLSN (st q) = point \<and>
     (\<exists>ms. snapshot_group E P fe cfg (contents point) point ms \<and> suffix (map payload (published E q)) ms)"

lemma fill_rows:
  assumes lim: "1 \<le> cfg_BatchRows cfg" "1 \<le> cfg_BatchBytes cfg" and E: "bolt_ok E" "codec_ok W E" and s: "snapshot_safe W Rw P fe cfg"
    and q: "queue_inv W E q" "rounds_ok W E rs" "budget q rs" and x: "exports contents ob point"
    and run: "snapshot_tables E fe cfg ob rs \<lparr>bt_q = q, bt_msg = kind_msg ''snapshot_rows'', bt_size = 0\<rparr> ts = (b, f, rs1)"
  shows "kept W E q (bt_q b) rs1 \<and> (f = Done \<longrightarrow> sound_batcher W Rw E b rs1)"
    and "f = Done \<Longrightarrow> capture_flush E rs1 b = (b2, Done, rs2) \<Longrightarrow>
      \<exists>rows chunks. list_all2 (\<lambda>r0 r. Apply fe cfg r0 = Inr r) (source_rows (contents point) ts) rows \<and> concat (map m_Rows chunks) = rows \<and>
        map m_Chunk chunks = [0..<length chunks] \<and> (\<forall>c\<in>set chunks. chunk_ok E cfg c \<and> m_Kind c = ''snapshot_rows'') \<and> grown E q chunks (bt_q b2)"
proof -
  let ?b0 = "\<lparr>bt_q = q, bt_msg = kind_msg ''snapshot_rows'', bt_size = 0\<rparr>"
  have s0: "sound_batcher W Rw E ?b0 rs" using E q s by (simp add: sound_batcher_def snapshot_safe_def kind_msg_def zero_Message_def)
  have b0: "batcher_ok E cfg ?b0" using lim by (simp add: batcher_ok_def kind_msg_def zero_Message_def)
  have R: "\<forall>row0\<in>set rows0. \<forall>row. Apply fe cfg row0 = Inr row \<longrightarrow> row \<in> Rw" if "from_snapshot rows0" for rows0
    using that s unfolding snapshot_safe_def by fastforce
  from snapshot_tables_add [OF run x] obtain rows0 f1 where r: "from_snapshot rows0" "add_rows E fe cfg pg_cut pg_full rs ?b0 rows0 = (b, f1, rs1)"
    "f = Done \<longrightarrow> f1 = Done \<and> rows0 = source_rows (contents point) ts" by blast
  note k = add_rows_kept [OF s0 R [OF r(1)] r(2)]
  show "kept W E q (bt_q b) rs1 \<and> (f = Done \<longrightarrow> sound_batcher W Rw E b rs1)" using k r(3) by simp
  assume f: "f = Done" and fl: "capture_flush E rs1 b = (b2, Done, rs2)"
  have add: "add_rows E fe cfg pg_cut pg_full rs ?b0 rows0 = (b, Done, rs1)" and rows0: "rows0 = source_rows (contents point) ts" using r f by simp_all
  from add_rows_Applied [OF add] obtain rows where rows: "list_all2 (\<lambda>r0 r. Apply fe cfg r0 = Inr r) rows0 rows" by blast
  have "set rows \<subseteq> Rw" using rows R [OF r(1)] by (auto simp: list_all2_conv_all_nth in_set_conv_nth) (metis nth_mem)
  from add_rows_spec [OF fair_cuts(1) lim rows this s0 b0 add] obtain ms where ms: "grown E q ms (bt_q b)" "emitted ?b0 rows ms b" "\<forall>m\<in>set ms. chunk_ok E cfg m"
    "sound_batcher W Rw E b rs1" "batcher_ok E cfg b" by auto
  have "m_Rows (bt_msg ?b0) = []" by (simp add: kind_msg_def zero_Message_def)
  from flush_complete [OF ms(2) this ms(3,4,5) fl [unfolded capture_flush_def]] obtain ms' where
    "grown E (bt_q b) ms' (bt_q b2)" "concat (map m_Rows (ms @ ms')) = rows" "map m_Chunk (ms @ ms') = [0..<length (ms @ ms')]"
    "\<forall>c\<in>set (ms @ ms'). chunk_ok E cfg c \<and> m_Kind c = ''snapshot_rows''" by (auto simp: kind_msg_def zero_Message_def)
  then show "\<exists>rows chunks. list_all2 (\<lambda>r0 r. Apply fe cfg r0 = Inr r) (source_rows (contents point) ts) rows \<and> concat (map m_Rows chunks) = rows \<and>
        map m_Chunk chunks = [0..<length chunks] \<and> (\<forall>c\<in>set chunks. chunk_ok E cfg c \<and> m_Kind c = ''snapshot_rows'') \<and> grown E q chunks (bt_q b2)"
    using rows grown_trans [OF ms(1)] unfolding rows0 by blast
qed

lemma seal_queue:
  assumes E: "bolt_ok E" "codec_ok W E" and q: "published E q0 = []" "staged E q0 = []"
    and names: "map (\<lambda>t. \<lparr>tb_Schema = ct_Schema t, tb_Name = ct_Name t\<rparr>) ts = cfg_Tables cfg"
    and g: "grown E q0 (snapshot_begin cfg point # map schema_msg raws @ chunks @ [snapshot_end_msg point]) q"
      "list_all2 (\<lambda>t raw. pg_table_json P t = Inr raw) ts raws" "list_all2 (\<lambda>r0 r. Apply fe cfg r0 = Inr r) (source_rows (contents point) ts) rows"
      "concat (map m_Rows chunks) = rows" "map m_Chunk chunks = [0..<length chunks]" "\<forall>c\<in>set chunks. chunk_ok E cfg c \<and> m_Kind c = ''snapshot_rows''"
    and inv: "queue_inv W E q" "rounds_ok W E rs" "budget q rs" and pt: "s_SnapshotLSN (st q) = point" and p: "capture_publish rs q point True = (q', Done, rs')"
  shows "sealed W E P fe cfg contents point q' rs'"
proof -
  let ?ms = "map payload (snapshot_begin cfg point # map schema_msg raws @ chunks @ [snapshot_end_msg point])"
  have "snapshot_group E P fe cfg (contents point) point ?ms" unfolding snapshot_group_def using names g(2-6) by blast
  moreover have "published E q = []" using g(1) q(1) by (simp add: grown_def)
  moreover have "map payload (staged E q) = ?ms" using grown_payload [OF g(1)] q(2) by simp
  ultimately show ?thesis using capture_publish_spec [OF E inv p] publish_seals [OF p] publish_point [OF E inv p] pt unfolding sealed_def by auto
qed

lemma close_snapshot_any:
  assumes lim: "1 \<le> cfg_BatchRows cfg" "1 \<le> cfg_BatchBytes cfg" and E: "bolt_ok E" "codec_ok W E" and s: "snapshot_safe W Rw P fe cfg"
    and q: "published E q = []" "staged E q = []" "s_SnapshotLSN (st q) = point" and x: "exports contents ob point"
    and names: "map (\<lambda>t. \<lparr>tb_Schema = ct_Schema t, tb_Name = ct_Name t\<rparr>) ts = cfg_Tables cfg"
    and raws: "list_all2 (\<lambda>t raw. pg_table_json P t = Inr raw) ts raws" "grown E q (snapshot_begin cfg point # map schema_msg raws) q2" "kept W E q q2 rs2"
    and t: "snapshot_tables E fe cfg ob rs2 \<lparr>bt_q = q2, bt_msg = kind_msg ''snapshot_rows'', bt_size = 0\<rparr> ts = (b, Done, rs3)"
    and run: "close_snapshot E ob point b rs3 = (q', f, rs')"
  shows "if f = Done then sealed W E P fe cfg contents point q' rs' else kept W E q q' rs'"
proof -
  have enc: "encodable W (snapshot_end_msg point)" using s by (simp add: snapshot_safe_def)
  have q2: "queue_inv W E q2" "rounds_ok W E rs2" "budget q2 rs2" using raws(3) by (simp_all add: kept_def)
  note k3 = fill_rows(1) [OF lim E s q2 x t]
  obtain b2 f2 rs4 where fl: "capture_flush E rs3 b = (b2, f2, rs4)" by (metis prod_cases3)
  have "kept W E (bt_q b) (bt_q b2) rs4" using batch_flush_kept [OF _ fl [unfolded capture_flush_def]] k3 by blast
  then have k4: "kept W E q (bt_q b2) rs4" using k3 raws(3) kept_trans by blast
  then have q4: "queue_inv W E (bt_q b2)" "rounds_ok W E rs4" "budget (bt_q b2) rs4" by (simp_all add: kept_def)
  show ?thesis
  proof (cases "f2 = Done")
    case False
    then have "q' = bt_q b2 \<and> f = f2 \<and> rs' = rs4" using run fl by (cases f2) (auto simp: close_snapshot_def)
    then show ?thesis using False k4 by auto
  next
    case f2: True
    from run fl f2 have "then_call (capture_append E rs4 (bt_q b2) (snapshot_end_msg point)) (\<lambda>q rs.
        (case so_Commit ob of Some e \<Rightarrow> (q, Failed e, rs) | None \<Rightarrow> capture_publish rs q point True)) = (q', f, rs')" by (simp add: close_snapshot_def)
    then show ?thesis
    proof (cases rule: then_call_cases)
      case stop
      then show ?thesis using batch_append_kept [OF E enc q4 stop(1) [unfolded capture_append_def]] k4 kept_trans by auto
    next
      case (go q5 rs5)
      note k5 = batch_append_kept [OF E enc q4 go(1) [unfolded capture_append_def], simplified]
      have k15: "kept W E q q5 rs5" using k4 k5 kept_trans by blast
      then have q5: "queue_inv W E q5" "rounds_ok W E rs5" "budget q5 rs5" by (simp_all add: kept_def)
      have "q' = q5 \<and> rs' = rs5 \<and> f \<noteq> Done \<or> capture_publish rs5 q5 point True = (q', f, rs')" using go(2) by (auto split: option.splits)
      then show ?thesis
      proof
        assume "q' = q5 \<and> rs' = rs5 \<and> f \<noteq> Done"
        then show ?thesis using k15 by auto
      next
        assume p: "capture_publish rs5 q5 point True = (q', f, rs')"
        show ?thesis
        proof (cases "f = Done")
          case True
          from fill_rows(2) [OF lim E s q2 x t refl fl [unfolded f2]] obtain rows chunks where
            c: "list_all2 (\<lambda>r0 r. Apply fe cfg r0 = Inr r) (source_rows (contents point) ts) rows" "concat (map m_Rows chunks) = rows"
              "map m_Chunk chunks = [0..<length chunks]" "\<forall>c\<in>set chunks. chunk_ok E cfg c \<and> m_Kind c = ''snapshot_rows''" "grown E q2 chunks (bt_q b2)" by blast
          have g: "grown E q (snapshot_begin cfg point # map schema_msg raws @ chunks @ [snapshot_end_msg point]) q5"
            using grown_trans [OF grown_trans [OF raws(2) c(5)]] k5 by simp
          have "s_SnapshotLSN (st q5) = point" using kept_base [OF k15] q(3) by (simp add: base_def)
          from seal_queue [where contents = contents, OF E q(1,2) names g raws(1) c(1-4) q5 this p [unfolded True]] show ?thesis using True by simp
        next
          case False
          then show ?thesis using queue_call_kept [OF E q5 p [unfolded capture_publish_call]] k15 kept_trans by auto
        qed
      qed
    qed
  qed
qed

lemma snapshot_fill_any:
  assumes lim: "1 \<le> cfg_BatchRows cfg" "1 \<le> cfg_BatchBytes cfg" and E: "bolt_ok E" "codec_ok W E" and s: "snapshot_safe W Rw P fe cfg"
    and q: "queue_inv W E q" "rounds_ok W E rs" "budget q rs" "published E q = []" "staged E q = []" "s_SnapshotLSN (st q) = point" and x: "exports contents ob point"
    and names: "map (\<lambda>t. \<lparr>tb_Schema = ct_Schema t, tb_Name = ct_Name t\<rparr>) ts = cfg_Tables cfg"
    and run: "snapshot_fill E P fe cfg ob ts point q rs = (q', f, rs')"
  shows "if f = Done then sealed W E P fe cfg contents point q' rs' else kept W E q q' rs'"
proof -
  have enc: "encodable W (snapshot_begin cfg point)" using s by (simp add: snapshot_safe_def)
  from run [unfolded snapshot_fill_def] show ?thesis
  proof (cases rule: then_call_cases)
    case stop
    then show ?thesis using batch_append_kept [OF E enc q(1-3) stop(1) [unfolded capture_append_def]] by simp
  next
    case (go q1 rs1)
    note k1 = batch_append_kept [OF E enc q(1-3) go(1) [unfolded capture_append_def], simplified]
    then have q1: "queue_inv W E q1" "rounds_ok W E rs1" "budget q1 rs1" by (simp_all add: kept_def)
    from go(2) show ?thesis
    proof (cases rule: then_call_cases)
      case stop
      then show ?thesis using append_schemas_any [OF E s q1 stop(1)] k1 kept_trans by fastforce
    next
      case (go q2 rs2)
      note k2 = append_schemas_any [OF E s q1 go(1)]
      then obtain raws where raws: "list_all2 (\<lambda>t raw. pg_table_json P t = Inr raw) ts raws" "grown E q1 (map schema_msg raws) q2" by auto
      have q2: "queue_inv W E q2" "rounds_ok W E rs2" "budget q2 rs2" using k2 by (simp_all add: kept_def)
      have k12: "kept W E q q2 rs2" using k1 k2 kept_trans by blast
      have g12: "grown E q (snapshot_begin cfg point # map schema_msg raws) q2" using grown_trans [of E q "[snapshot_begin cfg point]" q1] k1 raws(2) by simp
      obtain b f1 rs3 where t: "snapshot_tables E fe cfg ob rs2 \<lparr>bt_q = q2, bt_msg = kind_msg ''snapshot_rows'', bt_size = 0\<rparr> ts = (b, f1, rs3)" by (metis prod_cases3)
      show ?thesis
      proof (cases "f1 = Done")
        case True
        then have "close_snapshot E ob point b rs3 = (q', f, rs')" using go(2) t by (simp add: close_snapshot_def)
        from close_snapshot_any [OF lim E s q(4,5,6) x names raws(1) g12 k12 t [unfolded True] this] show ?thesis .
      next
        case False
        then have "q' = bt_q b \<and> f = f1 \<and> rs' = rs3" using go(2) t by (cases f1) auto
        then show ?thesis using False fill_rows(1) [OF lim E s q2 x t] k12 kept_trans by auto
      qed
    qed
  qed
qed

text \<open>Nothing is published before a snapshot is sealed.\<close>

definition quiet :: "Message set \<Rightarrow> ('v, 'b, 'z) qenv_scheme \<Rightarrow> 'b Store \<Rightarrow> 'b round list \<Rightarrow> bool" where
  "quiet W E q rs \<longleftrightarrow> queue_inv W E q \<and> rounds_ok W E rs \<and> budget q rs \<and> published E q = [] \<and> s_Phase (st q) \<noteq> ''stream''"

lemma kept_quiet:
  assumes "quiet W E q rs" "kept W E q q' rs'"
  shows "quiet W E q' rs'"
proof -
  have "s_Phase (st q') = s_Phase (st q)" using assms(2) origin_fields unfolding kept_def by blast
  then show ?thesis using assms by (auto simp: quiet_def kept_def)
qed

lemma initialize_call:
  assumes E: "bolt_ok E" "codec_ok W E" and q: "quiet W E q rs" and c: "queue_call (\<lambda>o' q. Initialize E o' q x) rs q = (q', f, rs')"
  shows "quiet W E q' rs' \<and> (f = Done \<longrightarrow> staged E q' = [])"
proof (cases "f = Done")
  case True
  have i: "queue_inv W E q" "rounds_ok W E rs" "budget q rs" using q by (simp_all add: quiet_def)
  from queue_call_done [OF E i c [unfolded True]] obtain ob q1 where
    r: "Initialize E ob q1 x = Inr q'" "kept W E q q1 rs'" "Suc (Suc (s_NextSeq (st q1))) + length rs' < seq_limit" by blast
  have "s_NextSeq (st q') = 0" "s_ReadySeq (st q') = 0" "s_Phase (st q') = ''snapshot''" using r(1) by (auto simp: Initialize_def split: if_splits sum.splits)
  then show ?thesis using Initialize_inv [OF E(1) r(1)] r(2,3) by (simp add: quiet_def kept_def budget_def staged_def)
next
  case False
  then show ?thesis using queue_call_kept [OF E _ _ _ c] q kept_quiet [OF q] by (auto simp: quiet_def)
qed

lemma point_call:
  assumes E: "bolt_ok E" "codec_ok W E" and q: "quiet W E q rs" "staged E q = []" and c: "queue_call (\<lambda>o' q. SnapshotPoint o' q l) rs q = (q', f, rs')"
  shows "quiet W E q' rs' \<and> (f = Done \<longrightarrow> staged E q' = [] \<and> s_SnapshotLSN (st q') = l)"
proof (cases "f = Done")
  case True
  have i: "queue_inv W E q" "rounds_ok W E rs" "budget q rs" using q by (simp_all add: quiet_def)
  from queue_call_done [OF E i c [unfolded True]] obtain ob q1 where
    r: "SnapshotPoint ob q1 l = Inr q'" "kept W E q q1 rs'" "map payload (staged E q1) = map payload (staged E q)" "Suc (Suc (s_NextSeq (st q1))) + length rs' < seq_limit" by blast
  have q1: "quiet W E q1 rs'" "staged E q1 = []" using kept_quiet [OF q(1) r(2)] r(3) q(2) by simp_all
  have "items q' = items q1" "s_NextSeq (st q') = s_NextSeq (st q1)" "s_ReadySeq (st q') = s_ReadySeq (st q1)" "s_DeliveredSeq (st q') = s_DeliveredSeq (st q1)" "s_Phase (st q') = s_Phase (st q1)" "s_SnapshotLSN (st q') = l"
    using r(1) by (auto simp: SnapshotPoint_def)
  then show ?thesis using SnapshotPoint_inv [OF _ r(1)] q1 r(4) by (auto simp: quiet_def budget_def published_def staged_def)
next
  case False
  then show ?thesis using queue_call_kept [OF E _ _ _ c] q kept_quiet [OF q(1)] by (auto simp: quiet_def)
qed

definition points_ok :: "denv \<Rightarrow> (string \<Rightarrow> CaptureTable \<Rightarrow> string option list list) \<Rightarrow> snapshot_obs \<Rightarrow> bool" where
  "points_ok de contents ob \<longleftrightarrow> (\<forall>name point. so_Create ob = Inr (name, point) \<longrightarrow> exports contents ob point \<and> parse_lsn de point \<noteq> None)"

lemma snapshot_read_any:
  assumes lim: "1 \<le> cfg_BatchRows cfg" "1 \<le> cfg_BatchBytes cfg" and E: "bolt_ok E" "codec_ok W E" and s: "snapshot_safe W Rw P fe cfg"
    and q: "quiet W E q rs" "staged E q = []" "s_SnapshotLSN (st q) = point" and x: "exports contents ob point" and run: "snapshot_read E P fe cfg ob info point q rs = (q', f, rs')"
  shows "if f = Done then sealed W E P fe cfg contents point q' rs' else quiet W E q' rs'"
proof (cases "\<exists>current. catalog P (so_Catalog ob) (cfg_Tables cfg) = Inr current \<and> snapshot_fill E P fe cfg ob current point q rs = (q', f, rs')")
  case False
  then have "q' = q \<and> rs' = rs \<and> f \<noteq> Done" using run by (auto simp: snapshot_read_def split: option.splits sum.splits if_splits)
  then show ?thesis using q by auto
next
  case True
  then obtain current where cu: "catalog P (so_Catalog ob) (cfg_Tables cfg) = Inr current" "snapshot_fill E P fe cfg ob current point q rs = (q', f, rs')" by blast
  have i: "queue_inv W E q" "rounds_ok W E rs" "budget q rs" "published E q = []" using q by (simp_all add: quiet_def)
  show ?thesis using snapshot_fill_any [OF lim E s i q(2,3) x catalog_names [OF cu(1)] cu(2)] kept_quiet [OF q(1)] by (cases "f = Done") auto
qed

lemma snapshot_any:
  assumes lim: "1 \<le> cfg_BatchRows cfg" "1 \<le> cfg_BatchBytes cfg" and E: "bolt_ok E" "codec_ok W E" and s: "snapshot_safe W Rw P fe cfg"
    and q: "quiet W E q rs" and ob: "points_ok de contents ob" and run: "snapshot E P fe cfg ob info rs q = (q', f, rs')"
  shows "if f = Done then \<exists>point start. sealed W E P fe cfg contents point q' rs' \<and> parse_lsn de point = Some start else quiet W E q' rs'"
proof (cases "replace_slot ob (ip_Database info) (s_Phase (st q)) = None \<and> (\<exists>token. so_Token ob = Inr token)")
  case False
  then have "q' = q \<and> rs' = rs \<and> f \<noteq> Done" using run by (auto simp: snapshot_def split: option.splits sum.splits)
  then show ?thesis using q by auto
next
  case True
  then obtain token where tok: "so_Token ob = Inr token" "replace_slot ob (ip_Database info) (s_Phase (st q)) = None" by blast
  note body = run [unfolded snapshot_def tok option.case sum.case]
  from body show ?thesis
  proof (cases rule: then_call_cases)
    case stop
    then show ?thesis using initialize_call [OF E q] by auto
  next
    case (go q1 rs1)
    note i = initialize_call [OF E q go(1)]
    then have i1: "quiet W E q1 rs1" "staged E q1 = []" by simp_all
    show ?thesis
    proof (cases "\<exists>name point. so_Create ob = Inr (name, point) \<and> name \<noteq> ''''")
      case False
      then have "q' = q1 \<and> rs' = rs1 \<and> f \<noteq> Done" using go(2) by (auto split: sum.splits if_splits)
      then show ?thesis using i by auto
    next
      case True
      then obtain name point where cr: "so_Create ob = Inr (name, point)" "name \<noteq> ''''" by blast
      have pt: "exports contents ob point" "parse_lsn de point \<noteq> None" using ob cr(1) unfolding points_ok_def by simp_all
      from go(2) cr have "then_call (queue_call (\<lambda>o' q. SnapshotPoint o' q point) rs1 q1) (snapshot_read E P fe cfg ob info point) = (q', f, rs')" by simp
      then show ?thesis
      proof (cases rule: then_call_cases)
        case stop
        then show ?thesis using point_call [OF E i1 stop(1)] by simp
      next
        case (go q2 rs2)
        then have q2: "quiet W E q2 rs2" "staged E q2 = []" "s_SnapshotLSN (st q2) = point" using point_call [OF E i1 go(1)] by simp_all
        show ?thesis using snapshot_read_any [OF lim E s q2 pt(1) go(2)] pt(2) by (cases "f = Done") auto
      qed
    qed
  qed
qed

section \<open>Any number of attempts\<close>

lemma history_after:
  fixes e :: "'a \<Rightarrow> nat"
  assumes "sorted_wrt (<) (map e h)" "prefix c (filter (\<lambda>t. s < e t) h)"
  shows "filter (\<lambda>t. last (s # map e c) < e t) h = drop (length c) (filter (\<lambda>t. s < e t) h)"
proof -
  define l where "l = last (s # map e c)"
  from assms(2) obtain r where F: "filter (\<lambda>t. s < e t) h = c @ r" by (auto simp: prefix_def)
  have srt: "sorted_wrt (\<lambda>x y. e x < e y) (c @ r)" using sorted_wrt_filter [of "\<lambda>x y. e x < e y" h] assms(1) by (simp add: F [symmetric] sorted_wrt_map)
  have mem: "s < e t" if "t \<in> set (c @ r)" for t using that F [symmetric] by auto
  have l: "s \<le> l" using mem by (auto simp: l_def last_map intro: less_imp_le)
  have le: "e t \<le> l" if "t \<in> set c" for t
  proof -
    have "c \<noteq> []" using that by auto
    then obtain c0 x where c: "c = c0 @ [x]" by (cases c rule: rev_cases) auto
    then have "l = e x" by (simp add: l_def)
    then show ?thesis using srt that by (auto simp: c sorted_wrt_append intro: less_imp_le)
  qed
  have gt: "l < e t" if "t \<in> set r" for t using that srt mem by (cases "c = []") (auto simp: l_def last_map sorted_wrt_append)
  have "filter (\<lambda>t. l < e t) h = filter (\<lambda>t. l < e t) (filter (\<lambda>t. s < e t) h)" using l by (auto intro: filter_cong)
  also have "\<dots> = r" using le gt by (auto simp: F filter_empty_conv not_less intro: filter_True)
  finally show ?thesis by (simp add: F l_def)
qed

text \<open>What the source and the network do in an attempt.\<close>

definition serves ::
  "('v, 'b, 'z) qenv_scheme \<Rightarrow> penv \<Rightarrow> ('y) wal_env_scheme \<Rightarrow> fenv \<Rightarrow> Config \<Rightarrow> (string \<Rightarrow> CaptureTable \<Rightarrow> string option list list) \<Rightarrow> wal_tx list \<Rightarrow> attempt_obs \<Rightarrow>
   'b round list \<Rightarrow> 'b Store \<Rightarrow> bool" where
  "serves E P R fe cfg contents history ob rs q \<longleftrightarrow> points_ok (denv.truncate R) contents (at_Snapshot ob) \<and>
     (\<forall>q1 rs1 start. prepare E P fe cfg ob rs q = (q1, Done, rs1) \<longrightarrow> parse_lsn R (s_DurableLSN (st q1)) = Some start \<longrightarrow> replays R history start (at_Passes ob))"

text \<open>A collector that starts with an empty queue and makes any number of attempts, each of which may end anywhere; the positions it reported are collected.\<close>

inductive capture_runs ::
  "Message set \<Rightarrow> ('v, 'b, 'z) qenv_scheme \<Rightarrow> penv \<Rightarrow> ('y) wal_env_scheme \<Rightarrow> fenv \<Rightarrow> Config \<Rightarrow> (nat \<Rightarrow> string) \<Rightarrow> (string \<Rightarrow> CaptureTable \<Rightarrow> string option list list) \<Rightarrow> wal_tx list \<Rightarrow>
   'b Store \<Rightarrow> nat list \<Rightarrow> bool"
  for W E P R fe cfg lsn_text contents history where
  begins: "queue_inv W E q \<Longrightarrow> s_Phase (st q) = '''' \<Longrightarrow> published E q = [] \<Longrightarrow> capture_runs W E P R fe cfg lsn_text contents history q []"
| attempts: "capture_runs W E P R fe cfg lsn_text contents history q sent \<Longrightarrow> rounds_ok W E rs \<Longrightarrow> budget q rs \<Longrightarrow> serves E P R fe cfg contents history ob rs q \<Longrightarrow>
    attempt E P R fe cfg lsn_text ob rs q = (q', more_sent, f, rs') \<Longrightarrow> capture_runs W E P R fe cfg lsn_text contents history q' (sent @ more_sent)"

text \<open>What is in the queue once a snapshot is sealed.\<close>

definition follows ::
  "Message set \<Rightarrow> ('v, 'b, 'z) qenv_scheme \<Rightarrow> penv \<Rightarrow> denv \<Rightarrow> fenv \<Rightarrow> Config \<Rightarrow> (string \<Rightarrow> CaptureTable \<Rightarrow> string option list list) \<Rightarrow> wal_tx list \<Rightarrow> 'b Store \<Rightarrow> nat list \<Rightarrow> bool" where
  "follows W E P de fe cfg contents history q sent \<longleftrightarrow>
     queue_inv W E q \<and> s_Phase (st q) = ''stream'' \<and>
     (\<exists>point start snap its groups.
        s_SnapshotLSN (st q) = point \<and> parse_lsn de point = Some start \<and> snapshot_group E P fe cfg (contents point) point snap \<and>
        prefix (committed its) (filter (\<lambda>t. start < tx_end de t) history) \<and> list_all2 (item_group E fe cfg) its groups \<and>
        suffix (map payload (published E q)) (snap @ concat groups) \<and>
        parse_lsn de (s_DurableLSN (st q)) = Some (last (start # map (tx_end de) (committed its))) \<and>
        (\<forall>n\<in>set sent. n \<le> last (start # map (tx_end de) (committed its))))"

lemma follows_phase: "follows W E P de fe cfg contents history q sent \<Longrightarrow> queue_inv W E q \<and> s_Phase (st q) = ''stream''"
  by (simp add: follows_def)

lemma follows_extended:
  assumes f: "follows W E P de fe cfg contents history q sent" and d: "parse_lsn de (s_DurableLSN (st q)) = Some start1"
    and h: "history_ok W Rw E de fe cfg history" and its': "prefix (committed its') (filter (\<lambda>t. start1 < tx_end de t) history)"
    and ex: "extended W E de fe cfg start1 q its' q' rs'" and snt: "\<forall>n\<in>set sent'. n \<le> last (start1 # map (tx_end de) (committed its'))"
  shows "follows W E P de fe cfg contents history q' (sent @ sent')"
proof -
  from f obtain point start snap its groups where g: "parse_lsn de point = Some start" "snapshot_group E P fe cfg (contents point) point snap"
      "prefix (committed its) (filter (\<lambda>t. start < tx_end de t) history)" "list_all2 (item_group E fe cfg) its groups"
      "suffix (map payload (published E q)) (snap @ concat groups)" "parse_lsn de (s_DurableLSN (st q)) = Some (last (start # map (tx_end de) (committed its)))"
      "\<forall>n\<in>set sent. n \<le> last (start # map (tx_end de) (committed its))" "s_SnapshotLSN (st q) = point" unfolding follows_def by blast
  have s1: "start1 = last (start # map (tx_end de) (committed its))" using d g(6) by simp
  have srt: "sorted_wrt (<) (map (tx_end de) history)" using h by (simp add: history_ok_def)
  from its' have p: "prefix (committed (its @ its')) (filter (\<lambda>t. start < tx_end de t) history)"
    using g(3) unfolding s1 history_after [OF srt g(3)] by (auto simp: prefix_def)
  have l: "last (start1 # map (tx_end de) (committed its')) = last (start # map (tx_end de) (committed (its @ its')))" using s1 by simp
  have "start1 \<le> last (start1 # map (tx_end de) (committed its'))"
    using set_mono_prefix [OF its'] by (cases "committed its' = []") (auto simp: last_map dest!: last_in_set intro: less_imp_le)
  then have all: "\<forall>n\<in>set (sent @ sent'). n \<le> last (start # map (tx_end de) (committed (its @ its')))" using snt g(7) l s1 by auto
  from ex obtain groups' where g': "list_all2 (item_group E fe cfg) its' groups'" "suffix (map payload (published E q')) (map payload (published E q) @ concat groups')"
    unfolding extended_def by blast
  have "suffix (map payload (published E q')) (snap @ concat (groups @ groups'))"
    using g'(2) suffix_append_same [OF g(5), of "concat groups'"] by (auto intro: suffix_order.trans)
  moreover have "list_all2 (item_group E fe cfg) (its @ its') (groups @ groups')" using g(4) g'(1) by (rule list_all2_appendI)
  ultimately show ?thesis using ex f p l all g(1,2,8) unfolding follows_def extended_def base_def
    by (intro conjI exI [of _ point] exI [of _ start] exI [of _ snap] exI [of _ "its @ its'"] exI [of _ "groups @ groups'"]) auto
qed

lemma prepare_stream:
  assumes E: "bolt_ok E" "codec_ok W E" and q: "queue_inv W E q" "rounds_ok W E rs" "budget q rs" "s_Phase (st q) = ''stream''"
    and run: "prepare E P fe cfg ob rs q = (q', f, rs')"
  shows "kept W E q q' rs' \<and> (f = Done \<longrightarrow> staged E q' = [])"
  using run unfolding prepare_def
proof (cases rule: then_call_cases)
  case stop
  then show ?thesis using recover_call [OF E q(1-3)] by blast
next
  case (go q1 rs1)
  note k = recover_call [OF E q(1-3) go(1)]
  then have "s_Phase (st q1) = ''stream''" using q(4) origin_fields unfolding kept_def by metis
  then have "q' = q1 \<and> rs' = rs1" using go(2) by (auto split: sum.splits option.splits)
  then show ?thesis using k by simp
qed

lemma prepare_quiet:
  assumes lim: "1 \<le> cfg_BatchRows cfg" "1 \<le> cfg_BatchBytes cfg" and E: "bolt_ok E" "codec_ok W E" and s: "snapshot_safe W Rw P fe cfg"
    and q: "quiet W E q rs" and ob: "points_ok de contents (at_Snapshot ob)" and run: "prepare E P fe cfg ob rs q = (q', f, rs')"
  shows "if f = Done then \<exists>point start. sealed W E P fe cfg contents point q' rs' \<and> parse_lsn de point = Some start else quiet W E q' rs'"
proof -
  have i: "queue_inv W E q" "rounds_ok W E rs" "budget q rs" using q by (simp_all add: quiet_def)
  from run [unfolded prepare_def] show ?thesis
  proof (cases rule: then_call_cases)
    case stop
    then show ?thesis using kept_quiet [OF q] recover_call [OF E i stop(1)] by simp
  next
    case (go q1 rs1)
    have q1: "quiet W E q1 rs1" using kept_quiet [OF q] recover_call [OF E i go(1)] by simp
    then have "s_Phase (st q1) \<noteq> ''stream''" by (simp add: quiet_def)
    then have "q' = q1 \<and> rs' = rs1 \<and> f \<noteq> Done \<or> (\<exists>info. snapshot E P fe cfg (at_Snapshot ob) info rs1 q1 = (q', f, rs'))"
      using go(2) by (auto split: sum.splits option.splits)
    then show ?thesis
    proof
      assume "q' = q1 \<and> rs' = rs1 \<and> f \<noteq> Done"
      then show ?thesis using q1 by simp
    next
      assume "\<exists>info. snapshot E P fe cfg (at_Snapshot ob) info rs1 q1 = (q', f, rs')"
      then obtain info where "snapshot E P fe cfg (at_Snapshot ob) info rs1 q1 = (q', f, rs')" by blast
      from snapshot_any [OF lim E s q1 ob this] show ?thesis .
    qed
  qed
qed

lemma attempt_cases:
  assumes "attempt E P R fe cfg lsn_text ob rs q = (q', sent, f, rs')"
  obtains (stops) fl where "prepare E P fe cfg ob rs q = (q', fl, rs')" "sent = []"
  | (streams) q1 rs1 tables where "prepare E P fe cfg ob rs q = (q1, Done, rs1)" "stream E P R fe cfg lsn_text ob tables rs1 q1 = (q', sent, f, rs')"
proof -
  obtain q1 f1 rs1 where p: "prepare E P fe cfg ob rs q = (q1, f1, rs1)" by (metis prod_cases3)
  have "q' = q1 \<and> rs' = rs1 \<and> sent = [] \<or> f1 = Done \<and> (\<exists>tables. stream E P R fe cfg lsn_text ob tables rs1 q1 = (q', sent, f, rs'))"
    using assms p by (cases f1) (auto simp: attempt_def split: sum.splits)
  then show ?thesis using p stops streams by blast
qed

lemma sealed_follows:
  assumes "sealed W E P fe cfg contents point q rs" "parse_lsn de point = Some start"
  shows "follows W E P de fe cfg contents history q []"
proof -
  from assms(1) obtain ms where m: "snapshot_group E P fe cfg (contents point) point ms" "suffix (map payload (published E q)) ms" unfolding sealed_def by blast
  then show ?thesis using assms unfolding follows_def sealed_def
    by (intro conjI exI [of _ point] exI [of _ start] exI [of _ ms] exI [of _ "[]"]) auto
qed

lemma kept_follows:
  assumes "follows W E P de fe cfg contents history q sent" "kept W E q q' rs'"
  shows "follows W E P de fe cfg contents history q' sent"
proof -
  from assms(1) obtain point start snap its groups where g: "parse_lsn de point = Some start" "snapshot_group E P fe cfg (contents point) point snap"
      "prefix (committed its) (filter (\<lambda>t. start < tx_end de t) history)" "list_all2 (item_group E fe cfg) its groups"
      "suffix (map payload (published E q)) (snap @ concat groups)" "parse_lsn de (s_DurableLSN (st q)) = Some (last (start # map (tx_end de) (committed its)))"
      "\<forall>n\<in>set sent. n \<le> last (start # map (tx_end de) (committed its))" "s_SnapshotLSN (st q) = point" unfolding follows_def by blast
  have "suffix (map payload (published E q')) (map payload (published E q))" using assms(2) map_suffix by (auto simp: kept_def)
  then have "suffix (map payload (published E q')) (snap @ concat groups)" using g(5) by (blast intro: suffix_order.trans)
  moreover have "s_Phase (st q') = s_Phase (st q) \<and> s_DurableLSN (st q') = s_DurableLSN (st q) \<and> s_SnapshotLSN (st q') = s_SnapshotLSN (st q)" using assms(2) origin_fields unfolding kept_def by blast
  moreover have "queue_inv W E q'" using assms(2) by (simp add: kept_def)
  ultimately show ?thesis using assms(1) g unfolding follows_def
    by (intro conjI exI [of _ point] exI [of _ start] exI [of _ snap] exI [of _ its] exI [of _ groups]) auto
qed

lemma runs_invariant:
  assumes lim: "1 \<le> cfg_BatchRows cfg" "1 \<le> cfg_BatchBytes cfg" and E: "bolt_ok E" "codec_ok W E" and s: "schema_safe W P" "snapshot_safe W Rw P fe cfg"
    and lsn: "\<forall>n. parse_lsn R (lsn_text n) = Some n" and h: "history_ok W Rw E (denv.truncate R) fe cfg history"
    and run: "capture_runs W E P R fe cfg lsn_text contents history q sent"
  shows "if s_Phase (st q) = ''stream'' then follows W E P (denv.truncate R) fe cfg contents history q sent
    else queue_inv W E q \<and> published E q = [] \<and> sent = []"
  using run
proof (induction rule: capture_runs.induct)
  case (begins q)
  then show ?case by simp
next
  case (attempts q sent rs ob q' more_sent f rs')
  define de where "de = denv.truncate R"
  have de: "parse_lsn de = parse_lsn R" by (simp add: de_def denv.truncate_def)
  have pts: "points_ok de contents (at_Snapshot ob)" using attempts.hyps(4) by (simp add: serves_def de_def)
  have on: ?case if f: "follows W E P de fe cfg contents history q1 sent" and p: "prepare E P fe cfg ob rs q = (q1, Done, rs1)" "staged E q1 = []" "rounds_ok W E rs1" "budget q1 rs1"
    and st: "stream E P R fe cfg lsn_text ob tables rs1 q1 = (q', more_sent, f, rs')" for q1 rs1 tables
  proof -
    from f obtain start where d: "parse_lsn R (s_DurableLSN (st q1)) = Some start" "queue_inv W E q1" unfolding follows_def de by blast
    have "replays R history start (at_Passes ob)" using attempts.hyps(4) p(1) d(1) unfolding serves_def by blast
    from stream_extends [OF lim E s(1) lsn h d(2) p(3,4,2) d(1) this st] obtain its where
      "prefix (committed its) (filter (\<lambda>t. start < tx_end de t) history)" "extended W E de fe cfg start q1 its q' rs'"
      "\<forall>n\<in>set more_sent. n \<le> last (start # map (tx_end de) (committed its))" unfolding de_def by blast
    from follows_extended [OF f d(1) [folded de] h [folded de_def] this] show ?thesis using follows_phase unfolding de_def by fastforce
  qed
  have quiet_q: "quiet W E q rs" "sent = []" if "s_Phase (st q) \<noteq> ''stream''" using attempts.IH attempts.hyps(2,3) that by (auto simp: quiet_def)
  from attempts.hyps(5) show ?case
  proof (cases rule: attempt_cases)
    case (stops fl)
    show ?thesis
    proof (cases "s_Phase (st q) = ''stream''")
      case True
      then have f: "follows W E P de fe cfg contents history q sent" using attempts.IH by (simp add: de_def)
      then have "queue_inv W E q" using follows_phase by blast
      with prepare_stream [OF E this attempts.hyps(2,3) True stops(1)] kept_follows [OF f] have "follows W E P de fe cfg contents history q' sent" by blast
      then show ?thesis using follows_phase stops(2) unfolding de_def by fastforce
    next
      case False
      note p = prepare_quiet [OF lim E s(2) quiet_q(1) [OF False] pts stops(1)]
      show ?thesis
      proof (cases "fl = Done")
        case True
        then obtain point start where "sealed W E P fe cfg contents point q' rs'" "parse_lsn de point = Some start" using p by auto
        from sealed_follows [OF this, of history] have "follows W E P de fe cfg contents history q' []" .
        then show ?thesis using follows_phase quiet_q(2) [OF False] stops(2) unfolding de_def by fastforce
      next
        case fl: False
        then show ?thesis using p quiet_q(2) [OF False] stops(2) by (simp add: quiet_def)
      qed
    qed
  next
    case (streams q1 rs1 tables)
    show ?thesis
    proof (cases "s_Phase (st q) = ''stream''")
      case True
      then have f: "follows W E P de fe cfg contents history q sent" using attempts.IH by (simp add: de_def)
      then have i: "queue_inv W E q" using follows_phase by blast
      note k = prepare_stream [OF E i attempts.hyps(2,3) True streams(1)]
      then show ?thesis using on [OF kept_follows [OF f] streams(1) _ _ _ streams(2)] by (auto simp: kept_def)
    next
      case False
      from prepare_quiet [OF lim E s(2) quiet_q(1) [OF False] pts streams(1)] obtain point start where
        sl: "sealed W E P fe cfg contents point q1 rs1" "parse_lsn de point = Some start" by auto
      show ?thesis using on [OF _ streams(1) _ _ _ streams(2)] sealed_follows [OF sl] sl(1) quiet_q(2) [OF False] by (auto simp: sealed_def)
    qed
  qed
qed

section \<open>Run\<close>

text \<open>\<open>Run\<close> makes attempts one after the other; each of them meets a source that serves and rounds that fit.\<close>

fun attempts_ok ::
  "Message set \<Rightarrow> ('v, 'b, 'z) qenv_scheme \<Rightarrow> penv \<Rightarrow> ('y) wal_env_scheme \<Rightarrow> fenv \<Rightarrow> Config \<Rightarrow> (nat \<Rightarrow> string) \<Rightarrow> (string \<Rightarrow> CaptureTable \<Rightarrow> string option list list) \<Rightarrow> wal_tx list \<Rightarrow>
   'b attempt_round list \<Rightarrow> 'b Store \<Rightarrow> bool" where
  "attempts_ok W E P R fe cfg lsn_text contents history [] q \<longleftrightarrow> True"
| "attempts_ok W E P R fe cfg lsn_text contents history (a # as) q \<longleftrightarrow>
     rounds_ok W E (ar_Rounds a) \<and> budget q (ar_Rounds a) \<and> serves E P R fe cfg contents history (ar_Obs a) (ar_Rounds a) q \<and>
     attempts_ok W E P R fe cfg lsn_text contents history as (fst (attempt E P R fe cfg lsn_text (ar_Obs a) (ar_Rounds a) q))"

lemma Run_makes_attempts:
  assumes "capture_runs W E P R fe cfg lsn_text contents history q sent" "attempts_ok W E P R fe cfg lsn_text contents history as q"
    and "capture_Run E P R fe cfg lsn_text ec lim delay as q = (q', sent', waits, r)"
  shows "capture_runs W E P R fe cfg lsn_text contents history q' (sent @ sent')"
  using assms
proof (induction as arbitrary: q sent sent' delay waits)
  case Nil
  then show ?case by simp
next
  case (Cons a as)
  obtain q1 sent1 f rs1 where at: "attempt E P R fe cfg lsn_text (ar_Obs a) (ar_Rounds a) q = (q1, sent1, f, rs1)" by (metis prod_cases4)
  have one: "capture_runs W E P R fe cfg lsn_text contents history q1 (sent @ sent1)"
    using Cons.prems(2) by (intro capture_runs.attempts [OF Cons.prems(1) _ _ _ at]) simp_all
  have ok: "attempts_ok W E P R fe cfg lsn_text contents history as q1" using Cons.prems(2) at by simp
  have "q' = q \<and> sent' = [] \<or> q' = q1 \<and> sent' = sent1 \<or>
      (\<exists>d sent2 ws. capture_Run E P R fe cfg lsn_text ec lim d as q1 = (q', sent2, ws, r) \<and> sent' = sent1 @ sent2)"
    using Cons.prems(3) at by (cases f) (auto split: option.splits if_splits prod.splits)
  then show ?case using Cons.prems(1) one Cons.IH [OF one ok] by fastforce
qed

end
