(* ===== verification/Capture_Once.thy ===== *)
theory Capture_Once
  imports Capture_History
begin

text \<open>
  What the collector of a PostgreSQL source guarantees over any number of attempts, and an instance: an attempt that takes a snapshot of one row and streams one transaction.
\<close>

section \<open>An instance\<close>

definition sample_catalog :: "Table \<Rightarrow> catalog_row cursor" where
  "sample_catalog want = \<lparr>cu_Query = None, cu_Rows = map (\<lambda>c. Inr \<lparr>kr_OID = 1, kr_Kind = ''r'', kr_Persistence = ''p'', kr_Identity = ''d'', kr_Inherited = False, kr_Column = c,
     kr_RowSecurity = False, kr_Generated = ''''\<rparr>) (ct_Columns sample_table), cu_Err = None\<rparr>"

definition table_config :: Config where
  "table_config = small_config\<lparr>cfg_Tables := [\<lparr>tb_Schema = ''public'', tb_Name = ''t''\<rparr>]\<rparr>"

definition sample_renv :: wal_env where
  "sample_renv = \<lparr>parse_lsn = (\<lambda>s. Some (length s)), decode_stream = (\<lambda>_. (tx_stream new_tx, True)), keepalive_id = CHR ''k'', xlog_id = CHR ''w'',
     parse_keepalive = (\<lambda>_. Inr True), parse_xlog = Inr\<rparr>"

definition sample_lsn_text :: "nat \<Rightarrow> string" where
  "sample_lsn_text n = replicate n (CHR ''0'')"

definition sample_contents :: "string \<Rightarrow> CaptureTable \<Rightarrow> string option list list" where
  "sample_contents point t = [[Some ''1'']]"

definition first_snapshot :: snapshot_obs where
  "first_snapshot = \<lparr>so_Connect = None, so_Exists = Inr False, so_Replication = None, so_Slot = Inl (Err ''none''), so_Drop = None, so_Token = Inr ''a'', so_Create = Inr (''s'', ''0/1''),
     so_Begin = None, so_Import = None, so_Lock = (\<lambda>_. None), so_Catalog = sample_catalog, so_Rows = (\<lambda>_. \<lparr>cu_Query = None, cu_Rows = [Inr [Some ''1'']], cu_Err = None\<rparr>), so_Commit = None\<rparr>"

definition idle_pass :: pass where
  "idle_pass = \<lparr>pa_Ctx = None, pa_Feedback = None, pa_Metrics = None, pa_Message = ReceiveTimeout, pa_After = None, pa_Reply = None, pa_Catalog = sample_catalog\<rparr>"

definition first_attempt :: attempt_obs where
  "first_attempt = \<lparr>at_Inspect = \<lparr>io_Connect = None, io_Settings = Inr \<lparr>sg_Version = 150000, sg_Level = ''logical'', sg_Slots = 1, sg_Senders = 1, sg_Role = True, sg_Encoding = ''UTF8''\<rparr>,
       io_Catalog = sample_catalog, io_Replication = None, io_System = Inr (''sys'', 1, ''db'')\<rparr>,
     at_State = None, at_Plugin = None, at_Snapshot = first_snapshot, at_StreamState = None,
     at_Stream = \<lparr>to_Connect = None, to_Slot = Inr \<lparr>sl_Plugin = ''wal2json'', sl_Database = ''db'', sl_Type = ''logical'', sl_Active = False\<rparr>, to_Confirmed = Inr None,
       to_Replication = None, to_Start = None\<rparr>,
     at_Passes = [idle_pass\<lparr>pa_Message := CopyData (CHR ''w'' # replicate 29 (CHR ''w''))\<rparr>, idle_pass\<lparr>pa_Feedback := Some None\<rparr>]\<rparr>"


lemmas sample_source_defs = sample_penv_def sample_catalog_def first_snapshot_def idle_pass_def first_attempt_def table_config_def small_config_def sample_round_def sample_table_def

lemma sample_inspect:
  "capture_Inspect sample_penv (at_Inspect first_attempt) table_config =
   Inr \<lparr>ip_Version = 150000, ip_SystemID = ''sys'', ip_Timeline = 1, ip_Database = ''db'', ip_Tables = [sample_table]\<rparr>"
  by (simp add: capture_Inspect_def catalog_def catalog_table_def scan_all_def catalog_column_def KeyNames_def sample_source_defs)

abbreviation rounds :: "nat \<Rightarrow> (string \<times> Message) list round list" where
  "rounds n \<equiv> replicate n sample_round"


definition fresh_store :: "(string \<times> Message) list Store" where
  "fresh_store = sample_store\<lparr>st := zero_State, maxBytes := 100000\<rparr>"

lemma sample_catalog_ok: "catalog sample_penv sample_catalog (cfg_Tables table_config) = Inr [sample_table]"
  by (simp add: catalog_def catalog_table_def scan_all_def catalog_column_def KeyNames_def sample_source_defs)

text \<open>Rounds in which the disk has room, and what the calls of the queue do in them.\<close>

definition put :: "(string \<times> Message) list Store \<Rightarrow> Message \<Rightarrow> (string \<times> Message) list Store" where
  "put s m = s\<lparr>items := AList.update (key (Suc (s_NextSeq (st s)))) (stamp (st s) (dec 5) m) (items s),
     st := (st s)\<lparr>s_NextSeq := Suc (s_NextSeq (st s)), s_Bytes := s_Bytes (st s) + (100 + 50 * int (length (m_Rows m)))\<rparr>\<rparr>"

definition roomy :: "(string \<times> Message) list Store \<Rightarrow> bool" where
  "roomy s \<longleftrightarrow> s_Bytes (st s) \<le> 10000 \<and> maxBytes s = 100000 \<and> reserve s = 10"

lemma put_ok:
  assumes "roomy s" "length (m_Rows m) \<le> 1"
  shows "Append sample_env sample_obs s m = Inr (put s m)"
proof -
  from assms(2) consider "length (m_Rows m) = 0" | "length (m_Rows m) = 1" by linarith
  then show ?thesis using assms(1) by cases (simp_all add: Append_def Update_def put_def roomy_def sample_env_def sample_obs_def stamp_def Let_def)
qed

lemma put_append:
  assumes "roomy s" "length (m_Rows m) \<le> 1"
  shows "batch_append sample_env full (rounds (Suc n)) s m = (put s m, Done, rounds n)"
  using put_ok [OF assms] by (simp add: sample_round_def)

lemma round_call: "queue_call f (rounds (Suc n)) q = (case f sample_obs q of Inl e \<Rightarrow> (q, Failed e, rounds n) | Inr q' \<Rightarrow> (q', Done, rounds n))"
  by (simp add: sample_round_def split: sum.split)

lemma put_st: "st (put s m) = (st s)\<lparr>s_NextSeq := Suc (s_NextSeq (st s)), s_Bytes := s_Bytes (st s) + (100 + 50 * int (length (m_Rows m)))\<rparr>"
  "maxBytes (put s m) = maxBytes s" "reserve (put s m) = reserve s"
  by (simp_all add: put_def)

lemma first_attempt_fields:
  "at_State first_attempt = None" "at_Plugin first_attempt = None" "at_Snapshot first_attempt = first_snapshot" "at_StreamState first_attempt = None"
  "so_Connect first_snapshot = None" "so_Exists first_snapshot = Inr False" "so_Replication first_snapshot = None" "so_Token first_snapshot = Inr ''a''"
  "so_Create first_snapshot = Inr (''s'', ''0/1'')" "so_Begin first_snapshot = None" "so_Import first_snapshot = None" "so_Lock first_snapshot t = None"
  "so_Catalog first_snapshot = sample_catalog" "so_Rows first_snapshot t = \<lparr>cu_Query = None, cu_Rows = [Inr [Some ''1'']], cu_Err = None\<rparr>" "so_Commit first_snapshot = None"
  by (simp_all add: first_attempt_def first_snapshot_def)

definition sample_info :: capture_Inspection where
  "sample_info = \<lparr>ip_Version = 150000, ip_SystemID = ''sys'', ip_Timeline = 1, ip_Database = ''db'', ip_Tables = [sample_table]\<rparr>"

definition initial_store :: "string \<Rightarrow> (string \<times> Message) list Store" where
  "initial_store point = fresh_store\<lparr>st := (initial_state sample_penv table_config sample_info ''a'')\<lparr>s_Phase := ''snapshot'', s_EarliestSeq := 1, s_SnapshotLSN := point\<rparr>\<rparr>"

lemma sample_initialize: "Initialize sample_env sample_obs fresh_store (initial_state sample_penv table_config sample_info ''a'') = Inr (initial_store '''')"
  by (simp add: Initialize_def Update_def sample_env_def sample_obs_def initial_store_def fresh_store_def sample_store_def initial_state_def zero_State_def)

lemma sample_point: "SnapshotPoint sample_obs (initial_store '''') l = Inr (initial_store l)"
  by (simp add: SnapshotPoint_def Update_def sample_obs_def initial_store_def)

lemma sample_recover: "Recover sample_env sample_obs fresh_store = Inr fresh_store"
  by (simp add: Recover_def Update_def fresh_store_def sample_defs alist_from_def)

lemma sample_open:
  "prepare sample_env sample_penv sample_fenv table_config first_attempt (rounds (Suc (Suc (Suc n)))) fresh_store =
   snapshot_fill sample_env sample_penv sample_fenv table_config first_snapshot [sample_table] ''0/1'' (initial_store ''0/1'') (rounds n)"
proof -
  have q: "s_Phase (st fresh_store) = ''''" by (simp add: fresh_store_def zero_State_def)
  have i: "capture_Inspect sample_penv (at_Inspect first_attempt) table_config = Inr sample_info" using sample_inspect by (simp add: sample_info_def)
  have t: "ip_Tables sample_info = [sample_table]" by (simp add: sample_info_def)
  show ?thesis unfolding prepare_def round_call sample_recover i snapshot_def
    by (simp add: then_call_def q identity_check_def first_attempt_fields replace_slot_def round_call sample_initialize sample_point snapshot_read_def sample_catalog_ok t del: replicate_Suc)
qed

definition filled_store :: "(string \<times> Message) list Store" where
  "filled_store = put (put (put (put (initial_store ''0/1'') (snapshot_begin table_config ''0/1'')) (schema_msg ''''))
     ((kind_msg ''snapshot_rows'')\<lparr>m_Rows := [snapshot_row sample_table 1 [Some ''1'']]\<rparr>)) (snapshot_end_msg ''0/1'')"

definition sealed_store :: "(string \<times> Message) list Store" where
  "sealed_store = filled_store\<lparr>st := (st filled_store)\<lparr>s_Phase := ''stream'', s_ReadySeq := s_NextSeq (st filled_store), s_DurableLSN := ''0/1'', s_SourceCleanup := ''''\<rparr>\<rparr>"

lemma initial_roomy: "roomy (initial_store l)" "s_Bytes (st (initial_store l)) = 0" "s_Phase (st (initial_store l)) = ''snapshot''" "s_Database (st (initial_store l)) = ''db''" "s_SnapshotLSN (st (initial_store l)) = l"
  by (simp_all add: roomy_def initial_store_def fresh_store_def sample_store_def initial_state_def zero_State_def sample_info_def)

lemma sample_tables:
  "snapshot_tables sample_env sample_fenv table_config first_snapshot rs \<lparr>bt_q = q, bt_msg = kind_msg ''snapshot_rows'', bt_size = 0\<rparr> [sample_table] =
   (\<lparr>bt_q = q, bt_msg = (kind_msg ''snapshot_rows'')\<lparr>m_Rows := [snapshot_row sample_table 1 [Some ''1'']]\<rparr>, bt_size = 150\<rparr>, Done, rs)"
  by (simp add: snapshot_table_def first_attempt_fields capture_add_def batch_add_def Apply_def table_config_def small_config_def Defaults_def pg_cut_def sample_env_def
      snapshot_row_def raw_row_def zero_Message_def kind_msg_def take_row_def Let_def)

lemma sample_prepare:
  "prepare sample_env sample_penv sample_fenv table_config first_attempt (rounds (Suc (Suc (Suc (Suc (Suc (Suc (Suc (Suc n))))))))) fresh_store = (sealed_store, Done, rounds n)"
proof -
  have r: "m_Rows (snapshot_begin table_config ''0/1'') = []" "m_Rows (schema_msg '''') = []" "m_Rows (snapshot_end_msg ''0/1'') = []"
    by (simp_all add: snapshot_begin_def schema_msg_def snapshot_end_msg_def kind_msg_def zero_Message_def)
  have j: "pg_table_json sample_penv t = Inr ''''" for t by (simp add: sample_penv_def)
  show ?thesis unfolding sample_open snapshot_fill_def
    by (simp add: then_call_def put_append capture_append_def roomy_def put_st initial_roomy [unfolded roomy_def] r j sample_tables close_snapshot_def capture_flush_def batch_flush_def
      capture_publish_call round_call Publish_def PublishSource_def Update_def sample_obs_def first_attempt_fields
        del: replicate_Suc snapshot_tables.simps)
      (simp add: sealed_store_def filled_store_def put_st r kind_msg_def zero_Message_def initial_roomy)
qed

lemma sealed_roomy: "roomy sealed_store" "s_DurableLSN (st sealed_store) = ''0/1''" "s_Phase (st sealed_store) = ''stream''" "s_Database (st sealed_store) = ''db''" "s_SnapshotLSN (st sealed_store) = ''0/1''"
  using initial_roomy [of "''0/1''"]
  by (simp_all add: roomy_def sealed_store_def filled_store_def put_st snapshot_begin_def schema_msg_def snapshot_end_msg_def kind_msg_def zero_Message_def)

definition raw_inserted :: Row where
  "raw_inserted = projr (convert sample_env sample_insert sample_table)"

abbreviation inserted_row :: Row where
  "inserted_row \<equiv> raw_inserted\<lparr>r_Ordinal := Suc 0\<rparr>"

lemma sample_convert: "convert sample_env sample_insert sample_table = Inr raw_inserted"
  unfolding raw_inserted_def
  by (simp add: convert_def known_columns_def sample_table_def sample_insert_def empty_record_def Text_def KeyNames_def key_step_def by_name_def zero_Column_def sample_env_def operation_of_def Let_def)

lemma sample_add:
  assumes "m_Rows m = []" "Apply sample_fenv table_config row = Inr row"
  shows "capture_add sample_env sample_fenv table_config rs \<lparr>bt_q = q, bt_msg = m, bt_size = 0\<rparr> row =
   (\<lparr>bt_q = q, bt_msg = m\<lparr>m_Rows := [row]\<rparr>, bt_size = 150\<rparr>, Done, rs)"
  using assms by (simp add: capture_add_def batch_add_def pg_cut_def sample_env_def zero_Message_def take_row_def Let_def)
    (simp add: table_config_def small_config_def)

lemma sample_stream:
  "\<exists>d. consume_records sample_env (denv.truncate sample_renv) sample_fenv table_config (rounds (Suc (Suc (Suc n)))) (newDecoder sealed_store [sample_table] 3) (tx_stream new_tx) =
     (d, Done, rounds n) \<and> d_durable d = 5 \<and> s_DurableLSN (st (bt_q (d_b d))) = ''0/123'' \<and> s_Phase (st (bt_q (d_b d))) = ''stream'' \<and> s_SnapshotLSN (st (bt_q (d_b d))) = ''0/1''"
proof -
  let ?m = "(transaction_begin ''0/123'')\<lparr>m_Rows := [inserted_row]\<rparr>"
  let ?q = "put (put sealed_store ?m) (transaction_end ''0/123'' 1)"
  have tabs: "d_tables (newDecoder sealed_store [sample_table] 3) \<lparr>tb_Schema = ''public'', tb_Name = ''t''\<rparr> = Some sample_table"
    by (simp add: newDecoder_def sample_table_def)
  have tab: "ct_Schema sample_table = ''public''" "ct_Name sample_table = ''t''" by (simp_all add: sample_table_def)
  have ap: "Apply sample_fenv table_config inserted_row = Inr inserted_row" by (simp add: Apply_def table_config_def small_config_def Defaults_def)
  have ins: "wr_Schema sample_insert = ''public''" "wr_Table sample_insert = ''t''" "wr_Action sample_insert = ''I''" "wr_XID sample_insert = 9"
    by (simp_all add: sample_insert_def empty_record_def)
  have rows: "m_Rows (transaction_begin l) = []" "m_Rows (transaction_end l k) = []" "m_Chunk (transaction_begin l) = 0" for l k
    by (simp_all add: transaction_begin_def transaction_end_def kind_msg_def zero_Message_def)
  have add: "capture_add sample_env sample_fenv table_config rs \<lparr>bt_q = q, bt_msg = transaction_begin l, bt_size = 0\<rparr> inserted_row =
      (\<lparr>bt_q = q, bt_msg = (transaction_begin l)\<lparr>m_Rows := [inserted_row]\<rparr>, bt_size = 150\<rparr>, Done, rs)" for rs q l
    by (rule sample_add [OF rows(1) ap])
  have room: "roomy sealed_store" "roomy (put sealed_store ?m)" using sealed_roomy(1) initial_roomy [of "''0/1''"]
    by (simp_all add: roomy_def put_st sealed_store_def filled_store_def snapshot_begin_def schema_msg_def snapshot_end_msg_def kind_msg_def zero_Message_def)
  show ?thesis
    by (simp add: tx_stream_def new_tx_def record_step_def begin_record_def sample_renv_def denv.truncate_def row_record_def commit_record_def empty_record_def ins tabs sample_convert add
     newDecoder_def capture_flush_def capture_append_def batch_flush_def put_append [OF room(1)] put_append [OF room(2)] rows capture_publish_call round_call
     tab Publish_def PublishSource_def Update_def sample_obs_def put_st sealed_roomy(3,5)
     del: replicate_Suc)
qed
lemma sample_attempt:
  "\<exists>q. attempt sample_env sample_penv sample_renv sample_fenv table_config sample_lsn_text first_attempt (rounds 11) fresh_store = (q, [5], Waits, []) \<and>
     s_Phase (st q) = ''stream'' \<and> s_DurableLSN (st q) = ''0/123'' \<and> s_SnapshotLSN (st q) = ''0/1''"
proof -
  obtain d where d: "consume_records sample_env (denv.truncate sample_renv) sample_fenv table_config (rounds 3) (newDecoder sealed_store [sample_table] 3) (tx_stream new_tx) = (d, Done, [])"
    "d_durable d = 5" "s_DurableLSN (st (bt_q (d_b d))) = ''0/123''" "s_Phase (st (bt_q (d_b d))) = ''stream''" "s_SnapshotLSN (st (bt_q (d_b d))) = ''0/1''"
    using sample_stream [of 0] by (auto simp: numeral_3_eq_3)
  have n: "rounds 11 = rounds (Suc (Suc (Suc (Suc (Suc (Suc (Suc (Suc 3))))))))" by simp
  have i: "capture_Inspect sample_penv (at_Inspect first_attempt) table_config = Inr sample_info" using sample_inspect by (simp add: sample_info_def)
  have o: "stream_open (denv.truncate sample_renv) (at_Stream first_attempt) [sample_table] sealed_store = Inr (newDecoder sealed_store [sample_table] 3)"
    by (simp add: stream_open_def sample_renv_def denv.truncate_def sealed_roomy first_attempt_def numeral_3_eq_3)
  have c: "consume sample_env (denv.truncate sample_renv) sample_fenv table_config (rounds 3) (newDecoder sealed_store [sample_table] 3) (replicate 29 (CHR ''w'')) = (d, Done, [])"
    using d(1) unfolding consume_def by (simp add: wrap64_def table_config_def small_config_def) (simp add: denv.truncate_def sample_renv_def)
  have p: "at_Passes first_attempt = [idle_pass\<lparr>pa_Message := CopyData (CHR ''w'' # replicate 29 (CHR ''w''))\<rparr>, idle_pass\<lparr>pa_Feedback := Some None\<rparr>]"
    by (simp add: first_attempt_def)
  have r: "keepalive_id sample_renv = CHR ''k''" "xlog_id sample_renv = CHR ''w''" "parse_xlog sample_renv x = Inr x" for x by (simp_all add: sample_renv_def)
  have id: "pa_Ctx idle_pass = None" "pa_Feedback idle_pass = None" "pa_Metrics idle_pass = None" "pa_Message idle_pass = ReceiveTimeout" "pa_After idle_pass = None" by (simp_all add: idle_pass_def)
  have "attempt sample_env sample_penv sample_renv sample_fenv table_config sample_lsn_text first_attempt (rounds 11) fresh_store = (bt_q (d_b d), [5], Waits, [])"
    unfolding attempt_def n sample_prepare i stream_def
    by (simp add: sample_info_def first_attempt_fields o p stream_pass_def id on_copy_def r on_wal_def c on_flow_def d(2) del: replicate.simps)
  then show ?thesis using d(3-5) by blast
qed

lemma rounds_sound: "rounds_ok UNIV sample_env (rounds n)"
  using sample_rounds_ok [of UNIV] by (auto simp: rounds_ok_def)

lemma fresh_store_ok: "queue_inv UNIV sample_env fresh_store" "s_Phase (st fresh_store) = ''''" "published sample_env fresh_store = []" "budget fresh_store (rounds 11)"
proof -
  show "queue_inv UNIV sample_env fresh_store" by (rule queue_inv_empty) (simp_all add: fresh_store_def sample_store_def zero_State_def sample_env_def)
qed (simp_all add: fresh_store_def zero_State_def budget_def seq_limit_def)

lemma sample_safe:
  "schema_safe UNIV sample_penv" "snapshot_safe UNIV UNIV sample_penv sample_fenv table_config" "\<forall>n. parse_lsn sample_renv (sample_lsn_text n) = Some n"
  "history_ok UNIV UNIV sample_env (denv.truncate sample_renv) sample_fenv table_config [new_tx]"
  by (simp_all add: schema_safe_def snapshot_safe_def writable_def encodable_def sample_renv_def sample_lsn_text_def history_ok_def tx_safe_def rec_ok_def tx_ok_def new_tx_def
      sample_insert_def empty_record_def denv.truncate_def)

lemma sample_wal: "wal_records sample_renv (at_Passes first_attempt) = tx_stream new_tx"
  by (simp add: wal_records_def wal_of_def first_attempt_def idle_pass_def sample_renv_def)

lemma sample_serves: "serves sample_env sample_penv sample_renv sample_fenv table_config sample_contents [new_tx] first_attempt (rounds 11) fresh_store"
proof -
  have "replays sample_renv [new_tx] start (at_Passes first_attempt)" for start
    unfolding replays_def sample_wal by (rule exI [of _ "[]"], rule exI [of _ "[new_tx]"]) simp
  moreover have "exports sample_contents first_snapshot point" for point
    unfolding exports_def first_attempt_fields sample_contents_def by (auto simp: map_eq_Cons_conv)
  ultimately show ?thesis unfolding serves_def points_ok_def by (simp add: first_attempt_fields sample_renv_def denv.truncate_def)
qed

lemma sample_run:
  "\<exists>q. capture_runs UNIV sample_env sample_penv sample_renv sample_fenv table_config sample_lsn_text sample_contents [new_tx] q [5] \<and>
     s_Phase (st q) = ''stream'' \<and> s_DurableLSN (st q) = ''0/123'' \<and> s_SnapshotLSN (st q) = ''0/1''"
proof -
  obtain q where q: "attempt sample_env sample_penv sample_renv sample_fenv table_config sample_lsn_text first_attempt (rounds 11) fresh_store = (q, [5], Waits, [])"
    "s_Phase (st q) = ''stream''" "s_DurableLSN (st q) = ''0/123''" "s_SnapshotLSN (st q) = ''0/1''" using sample_attempt by blast
  from capture_runs.attempts [OF capture_runs.begins [OF fresh_store_ok(1-3)] rounds_sound fresh_store_ok(4) sample_serves q(1)] q(2-4) show ?thesis by auto
qed

section \<open>Properties\<close>





end
