(* ===== verification/Spec2Isabelle.thy ===== *)
theory Spec2Isabelle
  imports Queue_Refinement Decode Target_Props Position Controller Grpc Replication FileWatch Delivery Agreement Capture_Once
begin

text \<open>
  A verification library for go-sync.  A collector captures row changes and files at a source, keeps them in a durable queue and delivers them to a server, which applies
  them to a target database.  The collector is \<open>internal/capture\<close> (PostgreSQL), \<open>internal/mysql\<close>, \<open>internal/sqlserver\<close>, \<open>internal/sqlserverlegacy\<close> or
  \<open>internal/filewatch\<close>; each of them appends messages to \<open>internal/queue\<close> and publishes them in groups.  \<open>internal/delivery\<close> takes published messages from the queue and sends
  them over gRPC or HTTP; it acknowledges a message in the queue when the receiver has stored it.  \<open>internal/server\<close> receives the gRPC stream and stores each message in its
  target.  On an idle stream the server asks for digests of tables and compares them with its own (\<open>internal/reconcile\<close>).

  \<^bold>\<open>Conventions.\<close>  A struct is a record and a Go function a definition of the same name, with a prefix where two packages use one name.  An error is a value
  of \<open>err\<close>, with a constructor for every sentinel of the code, and a fallible function returns \<open>'a res\<close>.  Strings and byte slices are lists of characters.  Sequence numbers are
  natural numbers below \<open>seq_limit\<close>, so that no addition wraps; where the code can wrap, as in the doubling of delays or the sums of digests, 64-bit words are used.  A call of the
  file system, the database, the network or the clock is an observed value that a definition takes as an argument, and any of them may be a failure.  Third-party code is a record of
  functions, with its documented behaviour as a named law: \<open>bolt_ok\<close> for bbolt, \<open>codec_ok\<close> for the JSON encoding.

  \<^bold>\<open>Foundations.\<close>  \<open>Prelude\<close> has errors, loops with early return (\<open>foldM\<close>) and the decimal and big-endian encodings; \<open>Stdlib\<close> the functions of Go's standard
  library on strings, numbers, base64 and paths; \<open>Event\<close> the records of \<open>internal/event/event.go\<close>.

  \<^bold>\<open>Queue.\<close>  \<open>Queue\<close> has every operation of \<open>internal/queue/queue.go\<close>.  \<open>Queue_Invariant\<close> shows that each of them keeps the invariant of counters, contents and
  sizes.  \<open>Queue_Refinement\<close> shows that the queue refines two lists, the published and the staged messages, along runs that interleave all operations with
  crashes, and states the contract towards its clients as the locale \<open>outbox\<close>, interpreted on the operations of the queue as \<open>qbox\<close>.  \<open>Sample\<close> is an instance of the parameters.

  \<^bold>\<open>Configuration.\<close>  \<open>Config\<close> models \<open>internal/config\<close> and \<open>ServerConfig\<close> models \<open>internal/serverconfig/config.go\<close>: an accepted configuration satisfies the
  limits on which other theorems rely, and keeps two syncers of a server apart.

  \<^bold>\<open>Capture.\<close>  \<open>FileEmbed\<close> replaces paths in columns by file contents (\<open>internal/fileembed/fileembed.go\<close>).  \<open>Batch\<close> models the batchers of the four engines and their waiting
  loop: rows arrive complete, in order and within the limits.  \<open>Decode\<close> is the decoder of the replication stream (\<open>internal/capture/decode.go\<close>).  \<open>Source\<close> has what the collectors share:
  cursors, calls of the queue, and the relation \<open>kept\<close> of a queue in which nothing was published.  \<open>Postgres\<close> models \<open>internal/capture/postgres.go\<close> and \<open>Reconcile\<close>;
  \<open>Capture\<close> models \<open>Run\<close>, \<open>attempt\<close>, \<open>snapshot\<close>, \<open>stream\<close> and \<open>refreshSchemaForReplay\<close> of \<open>internal/capture/capture.go\<close>.  \<open>Capture_Props\<close> follows any part of a
  stream with any outcome, \<open>Capture_History\<close> any number of attempts, and \<open>Capture_Once\<close> states the result: snapshot and transactions are published once and in order, and no
  reported position is ahead of the stored one.  They rest on what logical replication promises (\<open>serves\<close>): a complete result has the contents of the table at the exported point, and the
  stream has the transactions in commit order, possibly beginning with some that were seen before.  \<open>FileWatch\<close> models \<open>internal/filewatch/collector.go\<close>; \<open>Position\<close> the
  positions of MySQL and SQL Server (\<open>internal/mysql/position.go\<close>, \<open>internal/sqlserver/lsn.go\<close>).

  \<^bold>\<open>Delivery.\<close>  \<open>Wire\<close> has the frames of the stream.  \<open>Controller\<close> models \<open>internal/app/reconcile.go\<close>, \<open>Grpc\<close> models \<open>internal/delivery/grpc.go\<close> and \<open>Delivery\<close> models
  \<open>internal/delivery/delivery.go\<close>: messages are acknowledged in order and only after the receiver confirmed them, and delays stay within their bounds.

  \<^bold>\<open>Server.\<close>  \<open>FileStore\<close> models \<open>internal/filestore/store.go\<close>, \<open>Schema\<close> and \<open>Target\<close> model \<open>internal/server/schema.go\<close> and \<open>internal/server/target.go\<close>.  \<open>Target_Spec\<close> says what
  a target promises without statements, pages and caches; \<open>Target_Faults\<close>, \<open>Target_Refine\<close>, \<open>Target_Cache\<close> and \<open>Target_Run\<close> show that storing a message refines it under failing
  statements, lost answers, repetitions and restarts; \<open>Target_Props\<close> has the properties and the places where the code departs from its promise; \<open>Target_Sample\<close> is an instance.
  \<open>Registry\<close> models the targets, connections and reloads and \<open>Session\<close> the \<open>Connect\<close> of \<open>internal/server/server.go\<close> with \<open>internal/server/reconcile.go\<close>; \<open>Session_Props\<close> has facts about sessions.

  \<^bold>\<open>Composition.\<close>  \<open>Digest\<close> models \<open>internal/reconcile/reconcile.go\<close> and \<open>Agreement\<close> compares the digests of collector and server from end to end.  \<open>Replication\<close> puts queue,
  delivery session, stream and server session together: the target holds what the queue published.  The delivery session relies on the locale \<open>capture_control\<close>, interpreted on
  the controller of the application as \<open>app\<close>.

  \<^bold>\<open>Bounds and fuel.\<close>  Loops that wait take a list of rounds, one for each time round the loop, and return \<open>Blocked\<close> or \<open>Waits\<close> when the list ends; theorems hold for every list, so
  that a cut at any point, also by a crash, is included.  \<open>budget\<close> says that the sequence numbers last for the rounds that are left.  Every other loop is a total function.

  \<^bold>\<open>Not modelled.\<close>  The catalogs, snapshots and streams of MySQL and SQL Server, whose work is done by SQL texts and drivers, with loops like those of PostgreSQL; their batchers, positions
  and configurations are modelled.  The parts of the application that only start goroutines or write a status (\<open>internal/app/app.go\<close>, \<open>cmd\<close>), and of the server those that open
  listeners, connections and migrations.  Metrics, logging, Windows services, the installation of the decoder plugin, generated code and test helpers, which no modelled operation reads back.
\<close>

end
